(* ===== verification/Prelude.thy ===== *)
theory Prelude
  imports Main "HOL-Library.Word"
begin

text \<open>
  Shared vocabulary of the GlowOS development: machine integers, the error values of the
  kernel, the result type with its bind, checked access to C arrays, little-endian words,
  and the generic lemmas every component uses.

  A C array object is a list of its elements.  A pointer into the object is the part of
  the list from that element on (for functions that only walk forward) or an index.  A load
  or a store outside the object has no meaning the source defines, so it is the error
  \<open>OutOfBounds\<close>; a failing \<open>ASSERT\<close> or a \<open>PANIC\<close> is \<open>Panic\<close>; a loop the
  code never leaves is \<open>Hang\<close>; a division by zero is \<open>DivideError\<close>; a use of
  a variable no path has written is \<open>Uninitialised\<close>; waiting for a device that does not
  answer is \<open>Blocked\<close>; following a null or foreign
  pointer is \<open>WildPointer\<close>.
\<close>

unbundle bit_operations_syntax

section \<open>Machine integers\<close>

type_synonym u8 = "8 word"
type_synonym u16 = "16 word"
type_synonym u32 = "32 word"
type_synonym i32 = "32 word"

text \<open>
  \<open>int32_t\<close> values are kept as 32-bit words and read with \<open>sint\<close> where the code
  compares them as signed numbers; \<open>-1\<close> is the word whose bits are all set.
\<close>

section \<open>Results\<close>

datatype error = Panic | OutOfBounds | Hang | DivideError | Uninitialised | WildPointer | Blocked

type_synonym 'a res = "error + 'a"

definition rbind :: "'a res \<Rightarrow> ('a \<Rightarrow> 'b res) \<Rightarrow> 'b res" where
  "rbind m f = (case m of Inl e \<Rightarrow> Inl e | Inr x \<Rightarrow> f x)"

lemma rbind_Inl [simp]: "rbind (Inl e) f = Inl e"
  by (simp add: rbind_def)

lemma rbind_Inr [simp]: "rbind (Inr x) f = f x"
  by (simp add: rbind_def)

lemma rbind_assoc: "rbind (rbind m f) g = rbind m (\<lambda>x. rbind (f x) g)"
  by (cases m) simp_all

lemma rbind_return [simp]: "rbind m Inr = m"
  by (cases m) simp_all

lemma rbind_eq_Inr: "rbind m f = Inr y \<longleftrightarrow> (\<exists>x. m = Inr x \<and> f x = Inr y)"
  by (cases m) simp_all

lemma rbind_eq_Inl: "rbind m f = Inl e \<longleftrightarrow> m = Inl e \<or> (\<exists>x. m = Inr x \<and> f x = Inl e)"
  by (cases m) simp_all

lemma rbind_InrE:
  assumes "rbind m f = Inr y"
  obtains x where "m = Inr x" and "f x = Inr y"
  using assms by (auto simp: rbind_eq_Inr)

lemma rbind_cong [fundef_cong]:
  "m = m' \<Longrightarrow> (\<And>x. m' = Inr x \<Longrightarrow> f x = f' x) \<Longrightarrow> rbind m f = rbind m' f'"
  by (cases m') simp_all

section \<open>Checked access to array objects\<close>

definition ld :: "'a list \<Rightarrow> u32 \<Rightarrow> 'a res" where
  "ld xs i = (if unat i < length xs then Inr (xs ! unat i) else Inl OutOfBounds)"

definition st :: "'a list \<Rightarrow> u32 \<Rightarrow> 'a \<Rightarrow> 'a list res" where
  "st xs i v = (if unat i < length xs then Inr (xs[unat i := v]) else Inl OutOfBounds)"

lemma ld_in [simp]: "unat i < length xs \<Longrightarrow> ld xs i = Inr (xs ! unat i)"
  by (simp add: ld_def)

lemma st_in [simp]: "unat i < length xs \<Longrightarrow> st xs i v = Inr (xs[unat i := v])"
  by (simp add: st_def)

lemma ld_InrD: "ld xs i = Inr x \<Longrightarrow> unat i < length xs \<and> x = xs ! unat i"
  by (auto simp: ld_def split: if_splits)

lemma st_InrD: "st xs i v = Inr ys \<Longrightarrow> unat i < length xs \<and> ys = xs[unat i := v]"
  by (auto simp: st_def split: if_splits)

section \<open>Literals\<close>

text \<open>A string literal of the source as the bytes it stands for, and the character newline.\<close>

definition ctext :: "string \<Rightarrow> u8 list" where
  "ctext cs = map of_char cs @ [0]"

abbreviation NL :: string where
  "NL \<equiv> [CHR 0x0A]"

section \<open>Word arithmetic\<close>

text \<open>The facts about \<open>unat\<close> that every loop over an unsigned counter needs.\<close>

named_theorems wordnat "unat of the word operations the code uses, without wrap-around"

lemma unat_Suc_less [wordnat]: "(i :: 'a::len word) < n \<Longrightarrow> unat (i + 1) = Suc (unat i)"
proof -
  assume "i < n"
  then have "unat i < unat n" by (simp add: word_less_nat_alt)
  also have "unat n < 2 ^ LENGTH('a)" by (rule unsigned_less)
  finally have "Suc (unat i) < 2 ^ LENGTH('a) \<or> Suc (unat i) = 2 ^ LENGTH('a)" by linarith
  then have "Suc (unat i) < 2 ^ LENGTH('a)"
    using \<open>unat i < unat n\<close> \<open>unat n < 2 ^ LENGTH('a)\<close> by linarith
  moreover have "i + 1 = of_nat (Suc (unat i))" by simp
  ultimately show ?thesis by (simp only: unat_of_nat mod_less)
qed

lemma unat_less_iff: "(i :: 'a::len word) < n \<longleftrightarrow> unat i < unat n"
  by (simp add: word_less_nat_alt)

lemma unat_le_iff: "(i :: 'a::len word) \<le> n \<longleftrightarrow> unat i \<le> unat n"
  by (simp add: word_le_nat_alt)

lemma unat_add_no_wrap [wordnat]:
  "unat (a :: 'a::len word) + unat b < 2 ^ LENGTH('a) \<Longrightarrow> unat (a + b) = unat a + unat b"
  by (simp add: unat_word_ariths)

lemma unat_mult_no_wrap [wordnat]:
  "unat (a :: 'a::len word) * unat b < 2 ^ LENGTH('a) \<Longrightarrow> unat (a * b) = unat a * unat b"
  by (simp add: unat_word_ariths)

lemma unat_sub_no_wrap [wordnat]:
  "unat (b :: 'a::len word) \<le> unat a \<Longrightarrow> unat (a - b) = unat a - unat b"
  by (simp add: unat_sub_if_size unat_le_iff)

lemma unat_div_word [wordnat]: "unat ((a :: 'a::len word) div b) = unat a div unat b"
  by (rule unat_div)

lemma unat_mod_word [wordnat]: "unat ((a :: 'a::len word) mod b) = unat a mod unat b"
  by (rule unat_mod)

lemma unat_of_nat_small [wordnat]: "n < 2 ^ LENGTH('a) \<Longrightarrow> unat (of_nat n :: 'a::len word) = n"
  by (simp add: unat_of_nat)

lemma unat_u32_bound: "unat (a :: u32) < 4294967296"
  using unsigned_less [of a] by simp

lemma unat_u8_bound: "unat (a :: u8) < 256"
  using unsigned_less [of a] by simp

lemma unat_ucast_u8_u32 [simp]: "unat (ucast (a :: u8) :: u32) = unat a"
  using unat_u8_bound [of a] by (simp add: unsigned_ucast_eq take_bit_nat_eq_self)

definition DIV_ROUND_UP :: "u32 \<Rightarrow> u32 \<Rightarrow> u32" where
  "DIV_ROUND_UP X STEP = (X + STEP - 1) div STEP"

lemma unat_DIV_ROUND_UP:
  assumes "unat X + unat STEP \<le> 2 ^ 32" and "0 < unat STEP"
  shows "unat (DIV_ROUND_UP X STEP) = (unat X + unat STEP - 1) div unat STEP"
proof -
  have "unat (STEP - 1) = unat STEP - 1"
    using assms(2) by (simp add: wordnat)
  then have "unat (X + (STEP - 1)) = unat X + (unat STEP - 1)"
    using assms by (simp add: wordnat)
  moreover have "X + STEP - 1 = X + (STEP - 1)" by simp
  ultimately have "unat (X + STEP - 1) = unat X + unat STEP - 1"
    using assms(2) by (simp only:)
  then show ?thesis by (simp add: DIV_ROUND_UP_def wordnat)
qed

end
