(* ===== verification/Cstring.thy ===== *)
theory Cstring
  imports Prelude
begin

text \<open>
  The byte and string routines of \<open>lib/string.c\<close>.

  A pointer argument is \<open>None\<close> for \<open>NULL\<close> and \<open>Some bs\<close> for a pointer into a byte
  array, where \<open>bs\<close> is the array from the pointed-to byte to its end.  A routine that
  writes returns the new contents of that array; one that returns a pointer returns the
  offset from its argument, \<open>None\<close> for \<open>NULL\<close>.  Source and destination are different
  objects.  \<open>char\<close> is signed, as the build's compiler has it, so comparisons of
  characters go through \<open>sint\<close>; the routines that take a \<open>uint8_t\<close> compare a signed
  character with an unsigned one after promotion, as the code does.

  \<open>cstr bs\<close> is the string stored at the pointer and \<open>terminated bs\<close> says that the
  array holds its final zero byte.  The lemmas show that each routine, on terminated
  arguments, is the list operation it means to be.
\<close>

section \<open>The routines\<close>

fun memset_loop :: "u8 list \<Rightarrow> u8 \<Rightarrow> nat \<Rightarrow> u8 list res" where
  "memset_loop dst v 0 = Inr dst"
| "memset_loop [] v (Suc n) = Inl OutOfBounds"
| "memset_loop (d # ds) v (Suc n) = rbind (memset_loop ds v n) (\<lambda>r. Inr (v # r))"

fun memset :: "u8 list option \<Rightarrow> u8 \<Rightarrow> u32 \<Rightarrow> u8 list res" where
  "memset None v sz = Inl Panic"
| "memset (Some dst) v sz = memset_loop dst v (unat sz)"

fun memcpy_loop :: "u8 list \<Rightarrow> u8 list \<Rightarrow> nat \<Rightarrow> u8 list res" where
  "memcpy_loop dst src 0 = Inr dst"
| "memcpy_loop (d # ds) (s # ss) (Suc n) = rbind (memcpy_loop ds ss n) (\<lambda>r. Inr (s # r))"
| "memcpy_loop dst src (Suc n) = Inl OutOfBounds"

fun memcpy :: "u8 list option \<Rightarrow> u8 list option \<Rightarrow> u32 \<Rightarrow> u8 list res" where
  "memcpy (Some dst) (Some src) sz = memcpy_loop dst src (unat sz)"
| "memcpy dst src sz = Inl Panic"

fun memcmp_loop :: "u8 list \<Rightarrow> u8 list \<Rightarrow> nat \<Rightarrow> i32 res" where
  "memcmp_loop a b 0 = Inr 0"
| "memcmp_loop (a # as) (b # bs) (Suc n) =
     (if a \<noteq> b then Inr (if sint a > sint b then 1 else -1) else memcmp_loop as bs n)"
| "memcmp_loop a b (Suc n) = Inl OutOfBounds"

text \<open>The assertion asks only that one of the two pointers is not null; the loop then reads both.\<close>

fun memcmp :: "u8 list option \<Rightarrow> u8 list option \<Rightarrow> u32 \<Rightarrow> i32 res" where
  "memcmp None None sz = Inl Panic"
| "memcmp (Some a) (Some b) sz = memcmp_loop a b (unat sz)"
| "memcmp a b sz = (if sz = 0 then Inr 0 else Inl WildPointer)"

fun strcpy_loop :: "u8 list \<Rightarrow> u8 list \<Rightarrow> u8 list res" where
  "strcpy_loop (d # ds) (s # ss) =
     (if s = 0 then Inr (0 # ds) else rbind (strcpy_loop ds ss) (\<lambda>r. Inr (s # r)))"
| "strcpy_loop dst src = Inl OutOfBounds"

fun strcpy :: "u8 list option \<Rightarrow> u8 list option \<Rightarrow> u8 list res" where
  "strcpy (Some dsc) (Some src) = strcpy_loop dsc src"
| "strcpy dsc src = Inl Panic"

text \<open>\<open>strlen_loop\<close> carries the distance \<open>ptr - str\<close> of the bytes already passed.\<close>

fun strlen_loop :: "u8 list \<Rightarrow> u32 \<Rightarrow> u32 res" where
  "strlen_loop [] k = Inl OutOfBounds"
| "strlen_loop (c # cs) k = (if c = 0 then Inr (k + 1 - 1) else strlen_loop cs (k + 1))"

fun strlen :: "u8 list option \<Rightarrow> u32 res" where
  "strlen None = Inl Panic"
| "strlen (Some str) = strlen_loop str 0"

fun strcmp_loop :: "u8 list \<Rightarrow> u8 list \<Rightarrow> 8 word res" where
  "strcmp_loop (a # as) (b # bs) =
     (if a \<noteq> 0 \<and> a = b then strcmp_loop as bs
      else Inr (if sint a < sint b then -1 else if sint a > sint b then 1 else 0))"
| "strcmp_loop a b = Inl OutOfBounds"

fun strcmp :: "u8 list option \<Rightarrow> u8 list option \<Rightarrow> 8 word res" where
  "strcmp (Some a) (Some b) = strcmp_loop a b"
| "strcmp a b = Inl Panic"

fun strchr_loop :: "u8 list \<Rightarrow> u8 \<Rightarrow> nat \<Rightarrow> nat option res" where
  "strchr_loop [] ch k = Inl OutOfBounds"
| "strchr_loop (c # cs) ch k =
     (if c = 0 then Inr None else if c = ch then Inr (Some k) else strchr_loop cs ch (Suc k))"

fun strchr :: "u8 list option \<Rightarrow> u8 \<Rightarrow> nat option res" where
  "strchr None ch = Inl Panic"
| "strchr (Some str) ch = strchr_loop str ch 0"

text \<open>\<open>ch == *str\<close> with an unsigned \<open>ch\<close> and a signed \<open>*str\<close>, both promoted to \<open>int\<close>.\<close>

definition uchar_eq_char :: "u8 \<Rightarrow> u8 \<Rightarrow> bool" where
  "uchar_eq_char ch c \<longleftrightarrow> uint ch = sint c"

fun strrchr_loop :: "u8 list \<Rightarrow> u8 \<Rightarrow> nat \<Rightarrow> nat option \<Rightarrow> nat option res" where
  "strrchr_loop [] ch k l = Inl OutOfBounds"
| "strrchr_loop (c # cs) ch k l =
     (if c = 0 then Inr l
      else strrchr_loop cs ch (Suc k) (if uchar_eq_char ch c then Some k else l))"

fun strrchr :: "u8 list option \<Rightarrow> u8 \<Rightarrow> nat option res" where
  "strrchr None ch = Inl Panic"
| "strrchr (Some str) ch = strrchr_loop str ch 0 None"

text \<open>\<open>strcat\<close> walks to the zero of the destination and copies from there.\<close>

fun strcat_loop :: "u8 list \<Rightarrow> u8 list \<Rightarrow> u8 list res" where
  "strcat_loop [] src = Inl OutOfBounds"
| "strcat_loop (d # ds) src =
     (if d = 0 then strcpy_loop (d # ds) src else rbind (strcat_loop ds src) (\<lambda>r. Inr (d # r)))"

fun strcat :: "u8 list option \<Rightarrow> u8 list option \<Rightarrow> u8 list res" where
  "strcat (Some dsc) (Some src) = strcat_loop dsc src"
| "strcat dsc src = Inl Panic"

fun strchrs_loop :: "u8 list \<Rightarrow> u8 \<Rightarrow> u32 \<Rightarrow> u32 res" where
  "strchrs_loop [] ch n = Inl OutOfBounds"
| "strchrs_loop (c # cs) ch n =
     (if c = 0 then Inr n
      else strchrs_loop cs ch (if uchar_eq_char ch c then n + 1 else n))"

fun strchrs :: "u8 list option \<Rightarrow> u8 \<Rightarrow> u32 res" where
  "strchrs None ch = Inl Panic"
| "strchrs (Some str) ch = strchrs_loop str ch 0"

section \<open>What a byte array holds as a string\<close>

definition cstr :: "u8 list \<Rightarrow> u8 list" where
  "cstr bs = takeWhile (\<lambda>c. c \<noteq> 0) bs"

definition terminated :: "u8 list \<Rightarrow> bool" where
  "terminated bs \<longleftrightarrow> 0 \<in> set bs"

lemma cstr_simps [simp]:
  "cstr [] = []"
  "cstr (c # cs) = (if c = 0 then [] else c # cstr cs)"
  by (simp_all add: cstr_def)

lemma terminated_simps [simp]:
  "terminated [] \<longleftrightarrow> False"
  "terminated (c # cs) \<longleftrightarrow> c = 0 \<or> terminated cs"
  by (auto simp: terminated_def)

lemma zero_notin_cstr [simp]: "0 \<notin> set (cstr bs)"
  unfolding cstr_def by (auto dest: set_takeWhileD)

lemma length_cstr_less: "terminated bs \<Longrightarrow> length (cstr bs) < length bs"
  by (induction bs) auto

lemma cstr_append_zero: "0 \<notin> set s \<Longrightarrow> cstr (s @ 0 # r) = s"
  by (induction s) auto

lemma terminated_append_zero [simp]: "terminated (s @ 0 # r)"
  by (simp add: terminated_def)

lemma terminated_decomp: "terminated bs \<Longrightarrow> \<exists>r. bs = cstr bs @ 0 # r"
  by (induction bs) auto

section \<open>What the routines compute\<close>

named_theorems cstring "what each string routine computes on terminated arguments"

lemma memset_loop_eq:
  "n \<le> length dst \<Longrightarrow> memset_loop dst v n = Inr (replicate n v @ drop n dst)"
  by (induction dst v n rule: memset_loop.induct) auto

lemma memset_eq [cstring]:
  "unat n \<le> length dst \<Longrightarrow> memset (Some dst) v n = Inr (replicate (unat n) v @ drop (unat n) dst)"
  by (simp add: memset_loop_eq)

lemma memset_loop_overrun: "length dst < n \<Longrightarrow> memset_loop dst v n = Inl OutOfBounds"
  by (induction dst v n rule: memset_loop.induct) auto

lemma memcpy_loop_eq:
  "n \<le> length dst \<Longrightarrow> n \<le> length src \<Longrightarrow>
    memcpy_loop dst src n = Inr (take n src @ drop n dst)"
  by (induction dst src n rule: memcpy_loop.induct) auto

lemma memcpy_eq [cstring]:
  "unat n \<le> length dst \<Longrightarrow> unat n \<le> length src \<Longrightarrow>
    memcpy (Some dst) (Some src) n = Inr (take (unat n) src @ drop (unat n) dst)"
  by (simp add: memcpy_loop_eq)

lemma memcmp_loop_zero:
  "n \<le> length a \<Longrightarrow> n \<le> length b \<Longrightarrow>
    memcmp_loop a b n = Inr 0 \<longleftrightarrow> take n a = take n b"
  by (induction a b n rule: memcmp_loop.induct) auto

lemma strlen_loop_eq:
  "terminated bs \<Longrightarrow> strlen_loop bs k = Inr (k + of_nat (length (cstr bs)))"
  by (induction bs k rule: strlen_loop.induct) (auto simp: algebra_simps)

lemma strlen_eq [cstring]: "terminated bs \<Longrightarrow> strlen (Some bs) = Inr (of_nat (length (cstr bs)))"
  by (simp add: strlen_loop_eq)

lemma strcpy_loop_eq:
  "terminated src \<Longrightarrow> length (cstr src) < length dst \<Longrightarrow>
    strcpy_loop dst src = Inr (cstr src @ 0 # drop (Suc (length (cstr src))) dst)"
  by (induction dst src rule: strcpy_loop.induct) auto

lemma strcpy_eq [cstring]:
  "terminated src \<Longrightarrow> length (cstr src) < length dst \<Longrightarrow>
    strcpy (Some dst) (Some src) = Inr (cstr src @ 0 # drop (Suc (length (cstr src))) dst)"
  by (simp add: strcpy_loop_eq)

lemma strcpy_loop_overrun:
  "terminated src \<Longrightarrow> length dst \<le> length (cstr src) \<Longrightarrow> strcpy_loop dst src = Inl OutOfBounds"
  by (induction dst src rule: strcpy_loop.induct) auto

lemma strcat_loop_eq:
  "terminated dst \<Longrightarrow> terminated src \<Longrightarrow> length (cstr dst) + length (cstr src) < length dst \<Longrightarrow>
    strcat_loop dst src =
      Inr (cstr dst @ cstr src @ 0 # drop (Suc (length (cstr dst) + length (cstr src))) dst)"
  by (induction dst) (auto simp: strcpy_loop_eq)

lemma strcat_eq [cstring]:
  "terminated dst \<Longrightarrow> terminated src \<Longrightarrow> length (cstr dst) + length (cstr src) < length dst \<Longrightarrow>
    strcat (Some dst) (Some src) =
      Inr (cstr dst @ cstr src @ 0 # drop (Suc (length (cstr dst) + length (cstr src))) dst)"
  by (simp add: strcat_loop_eq)

section \<open>Comparison\<close>

text \<open>The order \<open>strcmp\<close> decides: lexicographic on signed characters, the final zero included.\<close>

definition signed_string :: "u8 list \<Rightarrow> int list" where
  "signed_string s = map sint (s @ [0])"

definition str_less :: "u8 list \<Rightarrow> u8 list \<Rightarrow> bool" where
  "str_less a b \<longleftrightarrow> ord_class.lexordp (signed_string a) (signed_string b)"

lemma sint_eq_iff_word [simp]: "sint (a :: 'a::len word) = sint b \<longleftrightarrow> a = b"
  by (auto intro: signed_word_eqI)

lemma strcmp_loop_zero:
  "terminated a \<Longrightarrow> terminated b \<Longrightarrow> strcmp_loop a b = Inr 0 \<longleftrightarrow> cstr a = cstr b"
proof (induction a b rule: strcmp_loop.induct)
  case (1 a as b bs)
  then show ?case by (auto simp: not_less order.order_iff_strict)
qed auto

lemma strcmp_zero [cstring]:
  "terminated a \<Longrightarrow> terminated b \<Longrightarrow> strcmp (Some a) (Some b) = Inr 0 \<longleftrightarrow> cstr a = cstr b"
  by (simp add: strcmp_loop_zero)

lemma str_less_Nil_Nil [simp]: "\<not> str_less [] []"
  by (simp add: str_less_def signed_string_def)

lemma str_less_Cons_Nil [simp]: "str_less (a # s) [] \<longleftrightarrow> sint a < 0"
  by (simp add: str_less_def signed_string_def)

lemma str_less_Nil_Cons [simp]: "str_less [] (a # s) \<longleftrightarrow> 0 < sint a \<or> a = 0"
proof -
  have "sint a < 0 \<or> 0 < sint a \<or> a = 0"
    by (metis linorder_neqE_linordered_idom sint_0 sint_eq_iff_word)
  then show ?thesis by (cases s) (auto simp: str_less_def signed_string_def)
qed

lemma str_less_Cons_Cons [simp]:
  "str_less (a # s) (b # t) \<longleftrightarrow> sint a < sint b \<or> a = b \<and> str_less s t"
  by (auto simp: str_less_def signed_string_def not_less order.order_iff_strict)

lemma sint_zero_cases: "a \<noteq> 0 \<Longrightarrow> sint (a :: u8) < 0 \<or> 0 < sint a"
  by (metis linorder_neqE_linordered_idom sint_0 sint_eq_iff_word)

lemma strcmp_loop_order:
  "terminated a \<Longrightarrow> terminated b \<Longrightarrow>
    strcmp_loop a b = Inr (if str_less (cstr a) (cstr b) then -1
                           else if str_less (cstr b) (cstr a) then 1 else 0)"
proof (induction a b rule: strcmp_loop.induct)
  case (1 a as b bs)
  show ?case
  proof (cases "a \<noteq> 0 \<and> a = b")
    case True
    with 1 show ?thesis by auto
  next
    case False
    then consider "a = 0" "b = 0" | "a = 0" "b \<noteq> 0" | "a \<noteq> 0" "b = 0"
      | "a \<noteq> 0" "b \<noteq> 0" "sint a < sint b" | "a \<noteq> 0" "b \<noteq> 0" "sint b < sint a"
      by (metis linorder_neqE_linordered_idom sint_eq_iff_word)
    then show ?thesis
      using sint_zero_cases [of a] sint_zero_cases [of b] by cases auto
  qed
qed auto

text \<open>
  \<open>strcmp\<close> on two terminated strings returns without reading past either and decides
  the lexicographic order of their signed characters: \<open>-1\<close>, \<open>1\<close> or \<open>0\<close>, and
  \<open>0\<close> exactly when the strings are the same.
\<close>

theorem strcmp_decides_order:
  assumes "terminated a" and "terminated b"
  shows "strcmp (Some a) (Some b) =
           Inr (if str_less (cstr a) (cstr b) then -1
                else if str_less (cstr b) (cstr a) then 1 else 0) \<and>
         (strcmp (Some a) (Some b) = Inr 0 \<longleftrightarrow> cstr a = cstr b)"
  using assms by (simp add: strcmp_loop_order [symmetric] strcmp_loop_zero)

theorem strcmp_decides_order_witness:
  "strcmp (Some [108, 115, 0]) (Some [108, 0, 7]) = Inr 1"
  using strcmp_decides_order [of "[108, 115, 0]" "[108, 0, 7]"]
  by simp

section \<open>Search\<close>

lemma uchar_eq_char_ascii: "unat ch < 128 \<Longrightarrow> uchar_eq_char ch c \<longleftrightarrow> ch = c"
proof -
  assume "unat ch < 128"
  moreover have "int (unat ch) = uint ch" by simp
  ultimately have "uint ch < 128" by linarith
  then have "signed_take_bit 7 (uint ch) = uint ch"
    by (intro signed_take_bit_int_eq_self order_trans [OF _ uint_ge_0]) simp_all
  then have "sint ch = uint ch" by (simp add: sint_uint)
  then show ?thesis by (metis uchar_eq_char_def sint_eq_iff_word)
qed

lemma uchar_eq_char_high: "128 \<le> unat ch \<Longrightarrow> \<not> uchar_eq_char ch c"
proof -
  assume "128 \<le> unat ch"
  moreover have "int (unat ch) = uint ch" by simp
  ultimately have "128 \<le> uint ch" by linarith
  moreover have "sint c < 128" using sint_lt [of c] by simp
  ultimately show ?thesis by (simp add: uchar_eq_char_def)
qed

definition last_at :: "u8 \<Rightarrow> u8 list \<Rightarrow> nat \<Rightarrow> bool" where
  "last_at ch s i \<longleftrightarrow> i < length s \<and> s ! i = ch \<and> ch \<notin> set (drop (Suc i) s)"

lemma last_at_Cons:
  "last_at ch (c # s) 0 \<longleftrightarrow> c = ch \<and> ch \<notin> set s"
  "last_at ch (c # s) (Suc i) \<longleftrightarrow> last_at ch s i"
  by (auto simp: last_at_def)

lemma last_at_unique: "last_at ch s i \<Longrightarrow> last_at ch s j \<Longrightarrow> i = j"
proof (induction s arbitrary: i j)
  case (Cons c s)
  have no: "last_at ch s k \<Longrightarrow> ch \<in> set s" for k by (auto simp: last_at_def)
  show ?case using Cons no by (cases i; cases j) (auto simp: last_at_Cons)
qed (simp add: last_at_def)

lemma last_at_mem: "last_at ch s i \<Longrightarrow> ch \<in> set s"
  by (auto simp: last_at_def)

lemma strrchr_loop_eq:
  assumes "terminated bs" and "unat ch < 128"
  shows "\<exists>r. strrchr_loop bs ch k l = Inr r \<and>
     (if ch \<in> set (cstr bs) then \<exists>i. r = Some (k + i) \<and> last_at ch (cstr bs) i else r = l)"
  using assms(1)
proof (induction bs arbitrary: k l)
  case (Cons c cs)
  show ?case
  proof (cases "c = 0")
    case False
    let ?l = "if uchar_eq_char ch c then Some k else l"
    from False Cons.prems have "terminated cs" by simp
    from Cons.IH [OF this, of "Suc k" ?l] obtain r where
      r: "strrchr_loop cs ch (Suc k) ?l = Inr r" and
      c: "if ch \<in> set (cstr cs) then \<exists>i. r = Some (Suc k + i) \<and> last_at ch (cstr cs) i else r = ?l"
      by blast
    show ?thesis
    proof (cases "ch \<in> set (cstr cs)")
      case True
      with c obtain i where "r = Some (k + Suc i)" "last_at ch (cstr cs) i" by auto
      with True r False show ?thesis by (auto simp: last_at_Cons simp del: add_Suc_right)
    next
      case out: False
      with c r False have "strrchr_loop (c # cs) ch k l = Inr ?l" by simp
      with out False assms(2) show ?thesis
        by (cases "c = ch") (auto simp: uchar_eq_char_ascii last_at_Cons)
    qed
  qed simp
qed simp

lemma strrchr_loop_high:
  "terminated bs \<Longrightarrow> 128 \<le> unat ch \<Longrightarrow> strrchr_loop bs ch k l = Inr l"
  by (induction bs arbitrary: k) (auto simp: uchar_eq_char_high)

lemma strchrs_loop_eq:
  "terminated bs \<Longrightarrow>
    strchrs_loop bs ch n =
      Inr (n + (if unat ch < 128 then of_nat (count_list (cstr bs) ch) else 0))"
  by (induction bs arbitrary: n) (auto simp: uchar_eq_char_ascii uchar_eq_char_high not_less)

text \<open>
  On a terminated string, \<open>strrchr\<close> returns the position of the last occurrence of a
  7-bit character, or \<open>NULL\<close> when there is none, and \<open>strchrs\<close> counts its
  occurrences; for a byte of 128 or more both compare a signed with an unsigned character,
  so \<open>strrchr\<close> returns \<open>NULL\<close> and \<open>strchrs\<close> zero whatever the string holds.
\<close>

theorem strrchr_strchrs_correct:
  assumes "terminated bs"
  shows "(unat ch < 128 \<longrightarrow>
           (\<forall>i. strrchr (Some bs) ch = Inr (Some i) \<longleftrightarrow> last_at ch (cstr bs) i) \<and>
           (strrchr (Some bs) ch = Inr None \<longleftrightarrow> ch \<notin> set (cstr bs)) \<and>
           strchrs (Some bs) ch = Inr (of_nat (count_list (cstr bs) ch))) \<and>
         (128 \<le> unat ch \<longrightarrow>
           strrchr (Some bs) ch = Inr None \<and> strchrs (Some bs) ch = Inr 0)"
proof (intro conjI impI)
  assume "128 \<le> unat ch"
  with assms show "strrchr (Some bs) ch = Inr None" and "strchrs (Some bs) ch = Inr 0"
    by (simp_all add: strrchr_loop_high strchrs_loop_eq)
next
  assume a: "unat ch < 128"
  from strrchr_loop_eq [OF assms a, of 0 None, unfolded add_0] obtain r where
    r: "strrchr (Some bs) ch = Inr r"
    "if ch \<in> set (cstr bs) then \<exists>i. r = Some i \<and> last_at ch (cstr bs) i else r = None"
    unfolding strrchr.simps by blast
  then show "\<forall>i. strrchr (Some bs) ch = Inr (Some i) \<longleftrightarrow> last_at ch (cstr bs) i"
    and "strrchr (Some bs) ch = Inr None \<longleftrightarrow> ch \<notin> set (cstr bs)"
    by (auto split: if_splits dest: last_at_unique last_at_mem)
  show "strchrs (Some bs) ch = Inr (of_nat (count_list (cstr bs) ch))"
    using a assms by (simp add: strchrs_loop_eq)
qed

theorem strrchr_strchrs_correct_witness:
  "strrchr (Some [47, 97, 47, 98, 0]) 47 = Inr (Some 2) \<and>
   strchrs (Some [47, 97, 47, 98, 0]) 47 = Inr 2 \<and>
   strrchr (Some [200, 0]) 200 = Inr None"
  using strrchr_strchrs_correct [of "[47, 97, 47, 98, 0]" 47]
    strrchr_strchrs_correct [of "[200, 0]" 200]
  by (simp add: uchar_eq_char_def last_at_def)

end
