(* ===== verification/Bitmap.thy ===== *)
theory Bitmap
  imports Cstring
begin

text \<open>
  The bitmaps of \<open>lib/kernel/bitmap.c\<close>, which back every allocator of the kernel:
  physical pages, virtual pages, blocks and inodes.

  \<open>bits\<close> is the memory from the \<open>bits\<close> pointer on.  It may be longer than
  \<open>btmp_bytes_len\<close>: the memory after the bitmap matters, because \<open>bitmap_scan\<close> for
  more than one bit also tests the bit just behind the last byte.
\<close>

record bitmap =
  btmp_bytes_len :: u32
  bits :: "u8 list"

definition BITMAP_MASK :: u32 where
  "BITMAP_MASK = 1"

definition bitmap_init :: "bitmap \<Rightarrow> bitmap res" where
  "bitmap_init btmp =
     rbind (memset (Some (bits btmp)) 0 (btmp_bytes_len btmp)) (\<lambda>bs. Inr (btmp\<lparr>bits := bs\<rparr>))"

definition bitmap_scan_test :: "bitmap \<Rightarrow> u32 \<Rightarrow> i32 res" where
  "bitmap_scan_test btmp bit_idx =
     (let byte_idx = bit_idx div 8; byte_pos = bit_idx mod 8
      in rbind (ld (bits btmp) byte_idx)
           (\<lambda>x. Inr (ucast x AND push_bit (unat byte_pos) BITMAP_MASK)))"

text \<open>The three loops of \<open>bitmap_scan\<close>, in their order.\<close>

function scan_bytes :: "bitmap \<Rightarrow> u32 \<Rightarrow> u32 res" where
  "scan_bytes btmp idx_byte =
     (if idx_byte < btmp_bytes_len btmp then
        rbind (ld (bits btmp) idx_byte)
          (\<lambda>x. if x = 255 then scan_bytes btmp (idx_byte + 1) else Inr idx_byte)
      else Inr idx_byte)"
  by pat_completeness auto
termination
  by (relation "measure (\<lambda>(btmp, i). unat (btmp_bytes_len btmp) - unat i)")
    (auto simp: wordnat unat_less_iff)

function scan_bits :: "u8 \<Rightarrow> nat \<Rightarrow> nat" where
  "scan_bits x idx_bit =
     (if x AND ucast (push_bit idx_bit BITMAP_MASK) \<noteq> 0 then scan_bits x (Suc idx_bit) else idx_bit)"
  by pat_completeness auto

lemma ucast_push_bit_mask_beyond: "8 \<le> n \<Longrightarrow> (ucast (push_bit n BITMAP_MASK) :: u8) = 0"
  by (rule bit_word_eqI) (auto simp: bit_simps BITMAP_MASK_def)

termination scan_bits
proof (relation "measure (\<lambda>(x, i). 8 - i)", simp)
  fix x :: u8 and i :: nat
  assume "x AND ucast (push_bit i BITMAP_MASK) \<noteq> 0"
  then have "i < 8" using ucast_push_bit_mask_beyond [of i] by (cases "8 \<le> i") auto
  then show "((x, Suc i), x, i) \<in> measure (\<lambda>(x, i). 8 - i)" by simp
qed

text \<open>
  The last loop runs at most \<open>bit_left\<close> times; \<open>k\<close> is what is left of it.  It
  returns the start of the run, or \<open>-1\<close>.
\<close>

fun scan_run :: "bitmap \<Rightarrow> u32 \<Rightarrow> nat \<Rightarrow> u32 \<Rightarrow> u32 \<Rightarrow> i32 res" where
  "scan_run btmp cnt 0 next_bit cc = Inr (-1)"
| "scan_run btmp cnt (Suc k) next_bit cc =
     rbind (bitmap_scan_test btmp next_bit)
       (\<lambda>t. let cc' = (if t = 0 then cc + 1 else 0)
            in if cc' = cnt then Inr (next_bit - cnt + 1)
               else scan_run btmp cnt k (next_bit + 1) cc')"

definition bitmap_scan :: "bitmap \<Rightarrow> u32 \<Rightarrow> i32 res" where
  "bitmap_scan btmp cnt =
     (if \<not> cnt \<ge> 1 then Inl Panic
      else rbind (scan_bytes btmp 0)
        (\<lambda>idx_byte.
          if idx_byte = btmp_bytes_len btmp then Inr (-1)
          else rbind (ld (bits btmp) idx_byte)
            (\<lambda>x. let idx_bit = of_nat (scan_bits x 0);
                     idx_bit_start = idx_bit + 8 * idx_byte
                 in if cnt = 1 then Inr idx_bit_start
                    else let bit_left = btmp_bytes_len btmp * 8 - idx_bit_start
                         in scan_run btmp cnt (unat bit_left) (idx_bit_start + 1) 1)))"

definition bitmap_set :: "bitmap \<Rightarrow> u32 \<Rightarrow> 8 word \<Rightarrow> bitmap res" where
  "bitmap_set btmp bit_idx v =
     (if \<not> (v = 1 \<or> v = 0) then Inl Panic
      else let byte_idx = bit_idx div 8; byte_pos = bit_idx mod 8
        in rbind (ld (bits btmp) byte_idx)
          (\<lambda>x. rbind (st (bits btmp) byte_idx
                   (if v \<noteq> 0 then ucast (ucast x OR push_bit (unat byte_pos) BITMAP_MASK)
                    else ucast (ucast x AND NOT (push_bit (unat byte_pos) BITMAP_MASK))))
                 (\<lambda>bs. Inr (btmp\<lparr>bits := bs\<rparr>))))"

text \<open>
  The loops \<open>while (cnt < pg_cnt) bitmap_set(btmp, start + cnt++, value)\<close> that claim or
  release a run of bits, in \<open>vaddr_get\<close> and \<open>vaddr_remove\<close>.
\<close>

fun bitmap_set_run :: "bitmap \<Rightarrow> u32 \<Rightarrow> nat \<Rightarrow> 8 word \<Rightarrow> bitmap res" where
  "bitmap_set_run btmp start 0 v = Inr btmp"
| "bitmap_set_run btmp start (Suc n) v =
     rbind (bitmap_set btmp start v) (\<lambda>b. bitmap_set_run b (start + 1) n v)"

section \<open>The set of bits\<close>

text \<open>\<open>bm_bit b i\<close> is bit \<open>i\<close> of the memory at the bitmap; \<open>bm_ok\<close> its well-formedness.\<close>

definition bm_bit :: "bitmap \<Rightarrow> nat \<Rightarrow> bool" where
  "bm_bit b i = bit (bits b ! (i div 8)) (i mod 8)"

definition bm_size :: "bitmap \<Rightarrow> nat" where
  "bm_size b = 8 * unat (btmp_bytes_len b)"

definition bm_ok :: "bitmap \<Rightarrow> bool" where
  "bm_ok b \<longleftrightarrow> unat (btmp_bytes_len b) \<le> length (bits b) \<and> bm_size b < 2 ^ 31"

lemma bm_okD:
  "bm_ok b \<Longrightarrow> i < bm_size b \<Longrightarrow> i div 8 < length (bits b)"
  by (auto simp: bm_ok_def bm_size_def)

lemma byte_not_full: "x \<noteq> (255 :: u8) \<longleftrightarrow> (\<exists>j<8. \<not> bit x j)"
proof -
  have full: "bit (255 :: u8) j \<longleftrightarrow> j < 8" for j
    using bit_mask_iff [of 8 j, where ?'a = u8] by (simp add: mask_eq_exp_minus_1)
  have "x = 255 \<longleftrightarrow> (\<forall>j<8. bit x j)"
    by (auto simp: full bit_eq_iff simp del: bit_numeral_word_iff)
  then show ?thesis by blast
qed

lemma and_mask_zero: "(x :: u8) AND ucast (push_bit n BITMAP_MASK) = 0 \<longleftrightarrow> \<not> (n < 8 \<and> bit x n)"
proof
  assume "x AND ucast (push_bit n BITMAP_MASK) = 0"
  then have "\<not> bit (x AND ucast (push_bit n BITMAP_MASK)) n" by simp
  then show "\<not> (n < 8 \<and> bit x n)" by (auto simp: bit_simps BITMAP_MASK_def)
next
  assume "\<not> (n < 8 \<and> bit x n)"
  then show "x AND ucast (push_bit n BITMAP_MASK) = 0"
    by (intro bit_word_eqI) (auto simp: bit_simps BITMAP_MASK_def)
qed

declare scan_bytes.simps [simp del] scan_bits.simps [simp del]

lemma scan_bits_least:
  "(\<forall>j<i. bit x j) \<Longrightarrow> i \<le> k \<Longrightarrow> k < 8 \<Longrightarrow> \<not> bit x k \<Longrightarrow>
    scan_bits x i < 8 \<and> \<not> bit x (scan_bits x i) \<and> (\<forall>j < scan_bits x i. bit x j)"
proof (induction x i rule: scan_bits.induct)
  case (1 x i)
  show ?case
  proof (cases "bit x i")
    case True
    with "1.prems" have "i < k" by (metis le_neq_implies_less)
    with True "1.prems" have "scan_bits x i = scan_bits x (Suc i)"
      by (simp add: scan_bits.simps [of x i] and_mask_zero)
    moreover have "\<forall>j<Suc i. bit x j" using True "1.prems"(1) less_Suc_eq by auto
    ultimately show ?thesis
      using "1.IH" True "1.prems" \<open>i < k\<close> by (simp add: and_mask_zero)
  next
    case False
    then have "scan_bits x i = i" by (simp add: scan_bits.simps [of x i] and_mask_zero)
    with False "1.prems" show ?thesis by auto
  qed
qed

lemma scan_bits_free:
  assumes "x \<noteq> 255"
  shows "scan_bits x 0 < 8" and "\<not> bit x (scan_bits x 0)" and "\<forall>j < scan_bits x 0. bit x j"
proof -
  from assms obtain k where "k < 8" "\<not> bit x k" by (auto simp: byte_not_full)
  then have "scan_bits x 0 < 8 \<and> \<not> bit x (scan_bits x 0) \<and> (\<forall>j < scan_bits x 0. bit x j)"
    by (intro scan_bits_least [of 0 x k]) auto
  then show "scan_bits x 0 < 8" and "\<not> bit x (scan_bits x 0)"
    and "\<forall>j < scan_bits x 0. bit x j" by blast+
qed

lemma scan_bytes_spec:
  assumes "bm_ok b" and "i \<le> btmp_bytes_len b"
  shows "\<exists>r. scan_bytes b i = Inr r \<and> i \<le> r \<and> r \<le> btmp_bytes_len b \<and>
           (\<forall>k. unat i \<le> k \<and> k < unat r \<longrightarrow> bits b ! k = 255) \<and>
           (r < btmp_bytes_len b \<longrightarrow> bits b ! unat r \<noteq> 255)"
  using assms
proof (induction b i rule: scan_bytes.induct)
  case (1 b i)
  show ?case
  proof (cases "i < btmp_bytes_len b")
    case False
    with "1.prems"(2) have "i = btmp_bytes_len b" by simp
    moreover from False have "scan_bytes b i = Inr i" by (subst scan_bytes.simps) simp
    ultimately show ?thesis by auto
  next
    case True
    with "1.prems" have len: "unat i < length (bits b)"
      by (auto simp: bm_ok_def unat_less_iff)
    show ?thesis
    proof (cases "bits b ! unat i = 255")
      case False
      with True len show ?thesis
        by (intro exI [of _ i]) (auto simp: scan_bytes.simps [of b i])
    next
      case full: True
      from True have Suc: "unat (i + 1) = Suc (unat i)" by (rule unat_Suc_less)
      with True have "i + 1 \<le> btmp_bytes_len b" by (simp add: unat_le_iff unat_less_iff)
      with "1.IH" True len full "1.prems"(1) obtain r where
        r: "scan_bytes b (i + 1) = Inr r" "i + 1 \<le> r" "r \<le> btmp_bytes_len b"
        "\<forall>k. Suc (unat i) \<le> k \<and> k < unat r \<longrightarrow> bits b ! k = 255"
        "r < btmp_bytes_len b \<longrightarrow> bits b ! unat r \<noteq> 255"
        by (auto simp: Suc)
      have "scan_bytes b i = Inr r"
        using True len full r(1) by (simp add: scan_bytes.simps [of b i])
      moreover have "i \<le> r" using r(2) Suc by (simp add: unat_le_iff)
      moreover have "bits b ! k = 255" if "unat i \<le> k" "k < unat r" for k
        using that full r(4) by (cases "k = unat i") auto
      ultimately show ?thesis using r(3,5) by blast
    qed
  qed
qed

text \<open>The first free bit, as the first two loops of \<open>bitmap_scan\<close> find it.\<close>

definition first_free :: "bitmap \<Rightarrow> nat \<Rightarrow> bool" where
  "first_free b i \<longleftrightarrow> i < bm_size b \<and> \<not> bm_bit b i \<and> (\<forall>j<i. bm_bit b j)"

lemma first_free_unique: "first_free b i \<Longrightarrow> first_free b j \<Longrightarrow> i = j"
  by (metis first_free_def linorder_neqE_nat)

lemma no_free_iff: "(\<forall>i < bm_size b. bm_bit b i) \<longleftrightarrow> \<not> (\<exists>i. first_free b i)"
proof
  assume "\<not> (\<exists>i. first_free b i)"
  then show "\<forall>i < bm_size b. bm_bit b i"
  proof (intro allI impI)
    fix i assume "i < bm_size b"
    then show "bm_bit b i"
    proof (induction i rule: less_induct)
      case (less i)
      with \<open>\<not> (\<exists>i. first_free b i)\<close> show ?case by (auto simp: first_free_def)
    qed
  qed
qed (auto simp: first_free_def)

lemma full_bytes_bits:
  assumes "\<forall>k<n. bits b ! k = 255" and "i < 8 * n"
  shows "bm_bit b i"
proof -
  have "i div 8 < n" using assms(2) by auto
  then have "bits b ! (i div 8) = 255" using assms(1) by blast
  then show ?thesis using byte_not_full [of 255] by (auto simp: bm_bit_def)
qed

lemma scan_first_free:
  assumes "bm_ok b"
  shows "(scan_bytes b 0 = Inr (btmp_bytes_len b) \<and> (\<forall>i < bm_size b. bm_bit b i)) \<or>
         (\<exists>r. scan_bytes b 0 = Inr r \<and> r < btmp_bytes_len b \<and> unat r < length (bits b) \<and>
            first_free b (8 * unat r + scan_bits (bits b ! unat r) 0) \<and>
            scan_bits (bits b ! unat r) 0 < 8)"
proof -
  from scan_bytes_spec [OF assms, of 0] obtain r where
    r: "scan_bytes b 0 = Inr r" "r \<le> btmp_bytes_len b"
    "\<forall>k < unat r. bits b ! k = 255" "r < btmp_bytes_len b \<longrightarrow> bits b ! unat r \<noteq> 255"
    by auto
  show ?thesis
  proof (cases "r = btmp_bytes_len b")
    case True
    with r show ?thesis using full_bytes_bits [OF r(3)] by (auto simp: bm_size_def)
  next
    case False
    with r have less: "r < btmp_bytes_len b" by simp
    let ?x = "bits b ! unat r" and ?i = "8 * unat r + scan_bits (bits b ! unat r) 0"
    from less r have "?x \<noteq> 255" by simp
    note free = scan_bits_free [OF this]
    have "bm_bit b j" if "j < ?i" for j
    proof (cases "j < 8 * unat r")
      case True
      then show ?thesis by (rule full_bytes_bits [OF r(3)])
    next
      case False
      then obtain d where "j = 8 * unat r + d" by (metis le_add_diff_inverse not_less)
      with that free(1) have "j div 8 = unat r" "j mod 8 < scan_bits ?x 0" by auto
      with free(3) show ?thesis by (simp add: bm_bit_def)
    qed
    moreover have "?i div 8 = unat r" "?i mod 8 = scan_bits ?x 0" using free(1) by auto
    moreover have "?i < bm_size b" using less free(1) by (auto simp: bm_size_def unat_less_iff)
    moreover have "unat r < length (bits b)"
      using assms less by (auto simp: bm_ok_def unat_less_iff)
    ultimately show ?thesis
      using r(1) less free by (auto simp: first_free_def bm_bit_def)
  qed
qed

section \<open>Testing and setting a bit\<close>

lemma byte_pos_less [simp]: "unat ((i :: u32) mod 8) < 8"
  by (simp add: wordnat)

lemma bitmap_scan_test_zero:
  assumes "unat i div 8 < length (bits b)"
  shows "\<exists>t. bitmap_scan_test b i = Inr t \<and> (t = 0 \<longleftrightarrow> \<not> bm_bit b (unat i))"
proof -
  let ?x = "bits b ! (unat i div 8)" and ?p = "unat (i mod 8)"
  have "bitmap_scan_test b i = Inr (ucast ?x AND push_bit ?p BITMAP_MASK)"
    using assms by (simp add: bitmap_scan_test_def Let_def wordnat)
  moreover have "(ucast ?x AND push_bit ?p BITMAP_MASK :: u32) = 0 \<longleftrightarrow> \<not> bit ?x ?p"
  proof -
    have "bit (ucast ?x AND push_bit ?p BITMAP_MASK :: u32) n \<longleftrightarrow> n = ?p \<and> bit ?x ?p" for n
      using byte_pos_less [of i]
      by (auto simp: bit_simps BITMAP_MASK_def bit_1_iff simp del: byte_pos_less)
    then show ?thesis by (metis bit_0_eq bot_apply bot_bool_def bit_word_eqI)
  qed
  moreover have "bit ?x ?p \<longleftrightarrow> bm_bit b (unat i)"
    by (simp add: bm_bit_def wordnat)
  ultimately show ?thesis by blast
qed

lemma bitmap_scan_test_beyond:
  "length (bits b) \<le> unat i div 8 \<Longrightarrow> bitmap_scan_test b i = Inl OutOfBounds"
  by (simp add: bitmap_scan_test_def Let_def ld_def wordnat)

lemma bit_set_byte:
  "p < 8 \<Longrightarrow> bit (ucast (ucast (x :: u8) OR push_bit p BITMAP_MASK) :: u8) n \<longleftrightarrow> n = p \<or> bit x n"
  by (auto simp: bit_simps BITMAP_MASK_def dest: bit_imp_le_length)

lemma bit_clear_byte:
  "p < 8 \<Longrightarrow> bit (ucast (ucast (x :: u8) AND NOT (push_bit p BITMAP_MASK)) :: u8) n \<longleftrightarrow> n \<noteq> p \<and> bit x n"
  by (auto simp: bit_simps BITMAP_MASK_def dest: bit_imp_le_length)

text \<open>What a successful \<open>bitmap_set\<close> does to the bits and to the frame.\<close>

definition bm_upd :: "bitmap \<Rightarrow> nat set \<Rightarrow> bool \<Rightarrow> bitmap \<Rightarrow> bool" where
  "bm_upd b I v b' \<longleftrightarrow>
     btmp_bytes_len b' = btmp_bytes_len b \<and> length (bits b') = length (bits b) \<and>
     (\<forall>j. bm_bit b' j \<longleftrightarrow> (if j \<in> I then v else bm_bit b j))"

lemma bm_upd_ok: "bm_upd b I v b' \<Longrightarrow> bm_ok b' \<longleftrightarrow> bm_ok b"
  by (simp add: bm_upd_def bm_ok_def bm_size_def)

lemma bm_upd_size: "bm_upd b I v b' \<Longrightarrow> bm_size b' = bm_size b"
  by (simp add: bm_upd_def bm_size_def)

lemma bm_upd_trans: "bm_upd b I v b' \<Longrightarrow> bm_upd b' J v b'' \<Longrightarrow> bm_upd b (I \<union> J) v b''"
  by (auto simp: bm_upd_def)

lemma bitmap_set_upd:
  assumes "unat i div 8 < length (bits b)" and "v = 0 \<or> v = 1"
  shows "\<exists>b'. bitmap_set b i v = Inr b' \<and> bm_upd b {unat i} (v = 1) b'"
proof -
  let ?k = "unat i div 8" and ?p = "unat i mod 8"
  let ?x = "bits b ! ?k"
  let ?y = "if v \<noteq> 0 then ucast (ucast ?x OR push_bit ?p BITMAP_MASK)
            else ucast (ucast ?x AND NOT (push_bit ?p BITMAP_MASK)) :: u8"
  let ?b = "b\<lparr>bits := (bits b)[?k := ?y]\<rparr>"
  have "bitmap_set b i v = Inr ?b"
    using assms by (auto simp: bitmap_set_def Let_def wordnat)
  moreover have "bit ?y n \<longleftrightarrow> (if n = ?p then v = 1 else bit ?x n)" for n
    using assms(2) by (auto simp: bit_set_byte bit_clear_byte)
  then have "bm_bit ?b j \<longleftrightarrow> (if j \<in> {unat i} then v = 1 else bm_bit b j)" for j
  proof (cases "j div 8 = ?k")
    case True
    moreover have "j mod 8 = ?p \<longleftrightarrow> j = unat i" using True by (metis div_mult_mod_eq)
    ultimately show ?thesis
      using assms(1) \<open>\<And>n. bit ?y n \<longleftrightarrow> (if n = ?p then v = 1 else bit ?x n)\<close> [of "j mod 8"]
      by (simp add: bm_bit_def del: if_split) 
  next
    case False
    then show ?thesis by (auto simp: bm_bit_def)
  qed
  then have "bm_upd b {unat i} (v = 1) ?b" by (simp add: bm_upd_def)
  ultimately show ?thesis by blast
qed

lemma bitmap_set_run_upd:
  assumes "unat i + n \<le> 8 * length (bits b)" and "unat i + n < 2 ^ 32" and "v = 0 \<or> v = 1"
  shows "\<exists>b'. bitmap_set_run b i n v = Inr b' \<and> bm_upd b {unat i ..< unat i + n} (v = 1) b'"
  using assms
proof (induction n arbitrary: b i)
  case 0
  then show ?case by (auto simp: bm_upd_def)
next
  case (Suc n)
  then have "unat i div 8 < length (bits b)" by auto
  with Suc.prems(3) obtain b' where
    b': "bitmap_set b i v = Inr b'" "bm_upd b {unat i} (v = 1) b'"
    using bitmap_set_upd by blast
  have i1: "unat (i + 1) = Suc (unat i)"
    using Suc.prems(2) by (subst unat_add_no_wrap) auto
  have "length (bits b') = length (bits b)" using b'(2) by (simp add: bm_upd_def)
  with Suc.IH [of "i + 1" b'] Suc.prems i1 obtain b'' where
    b'': "bitmap_set_run b' (i + 1) n v = Inr b''"
    "bm_upd b' {Suc (unat i) ..< Suc (unat i) + n} (v = 1) b''"
    by auto
  have "{unat i} \<union> {Suc (unat i) ..< Suc (unat i) + n} = {unat i ..< unat i + Suc n}"
    by auto
  with bm_upd_trans [OF b'(2) b''(2)] b' b'' show ?case by auto
qed

lemma bitmap_init_clears:
  assumes "bm_ok b"
  shows "\<exists>b'. bitmap_init b = Inr b' \<and> bm_upd b {..< bm_size b} False b'"
proof -
  let ?n = "unat (btmp_bytes_len b)"
  let ?b = "b\<lparr>bits := replicate ?n 0 @ drop ?n (bits b)\<rparr>"
  have len: "?n \<le> length (bits b)" using assms by (simp add: bm_ok_def)
  then have "bitmap_init b = Inr ?b" by (simp add: bitmap_init_def cstring del: memset.simps)
  moreover have "bm_bit ?b j \<longleftrightarrow> (if j \<in> {..< bm_size b} then False else bm_bit b j)" for j
  proof (cases "j < bm_size b")
    case True
    then have "j div 8 < ?n" by (auto simp: bm_size_def)
    with True show ?thesis by (simp add: bm_bit_def nth_append)
  next
    case False
    then have "?n \<le> j div 8" by (auto simp: bm_size_def)
    with False len show ?thesis by (auto simp: bm_bit_def nth_append)
  qed
  ultimately show ?thesis using len by (auto simp: bm_upd_def)
qed

section \<open>Finding a run of free bits\<close>

definition free_run :: "bitmap \<Rightarrow> nat \<Rightarrow> nat \<Rightarrow> bool" where
  "free_run b n r \<longleftrightarrow> (\<forall>j. r \<le> j \<and> j < r + n \<longrightarrow> \<not> bm_bit b j)"

definition first_run :: "bitmap \<Rightarrow> nat \<Rightarrow> nat \<Rightarrow> nat \<Rightarrow> bool" where
  "first_run b n lim r \<longleftrightarrow> r + n \<le> lim \<and> free_run b n r \<and> (\<forall>r'<r. \<not> free_run b n r')"

definition no_run :: "bitmap \<Rightarrow> nat \<Rightarrow> nat \<Rightarrow> bool" where
  "no_run b n lim \<longleftrightarrow> (\<forall>r. r + n \<le> lim \<longrightarrow> \<not> free_run b n r)"

text \<open>
  The invariant of the last loop before it tests bit \<open>p\<close>: the \<open>c\<close> bits before
  \<open>p\<close> are free and the one before them is not, and no run ends at or before \<open>p\<close>.
\<close>

definition run_inv :: "bitmap \<Rightarrow> nat \<Rightarrow> nat \<Rightarrow> nat \<Rightarrow> bool" where
  "run_inv b n p c \<longleftrightarrow> c < n \<and> c \<le> p \<and> (\<forall>j. p - c \<le> j \<and> j < p \<longrightarrow> \<not> bm_bit b j) \<and>
     (c < p \<longrightarrow> bm_bit b (p - c - 1)) \<and> no_run b n p"

lemma run_inv_set:
  assumes "run_inv b n p c" and "bm_bit b p"
  shows "run_inv b n (Suc p) 0"
proof -
  have "\<not> free_run b n r" if "r + n \<le> Suc p" for r
  proof (cases "r + n \<le> p")
    case True
    with assms(1) show ?thesis by (auto simp: run_inv_def no_run_def)
  next
    case False
    with that assms(1) have "r \<le> p \<and> p < r + n" by (auto simp: run_inv_def)
    with assms(2) show ?thesis by (auto simp: free_run_def)
  qed
  with assms show ?thesis by (auto simp: run_inv_def no_run_def)
qed

lemma run_inv_clear:
  assumes "run_inv b n p c" and "\<not> bm_bit b p" and "Suc c < n"
  shows "run_inv b n (Suc p) (Suc c)"
proof -
  have inv: "c \<le> p" "c < p \<longrightarrow> bm_bit b (p - c - 1)" "no_run b n p"
    "\<forall>j. p - c \<le> j \<and> j < p \<longrightarrow> \<not> bm_bit b j"
    using assms(1) by (auto simp: run_inv_def)
  have "\<not> free_run b n r" if "r + n \<le> Suc p" for r
  proof (cases "r + n \<le> p")
    case True
    with inv(3) show ?thesis by (auto simp: no_run_def)
  next
    case False
    with that assms(3) have "r \<le> p - c - 1" "p - c - 1 < r + n" "c < p" by auto
    with inv(2) show ?thesis by (auto simp: free_run_def)
  qed
  moreover have "\<not> bm_bit b j" if "p - c \<le> j" "j < Suc p" for j
    using that inv(4) assms(2) by (cases "j = p") auto
  ultimately show ?thesis using inv assms(3) by (auto simp: run_inv_def no_run_def)
qed

lemma run_inv_found:
  assumes "run_inv b n p c" and "\<not> bm_bit b p" and "Suc c = n"
  shows "first_run b n (Suc p) (p - c)"
proof -
  have inv: "c \<le> p" "no_run b n p" "\<forall>j. p - c \<le> j \<and> j < p \<longrightarrow> \<not> bm_bit b j"
    using assms(1) by (auto simp: run_inv_def)
  have "\<not> bm_bit b j" if "p - c \<le> j" "j < p - c + n" for j
    using that inv assms(2,3) by (cases "j = p") auto
  moreover have "\<not> free_run b n r" if "r < p - c" for r
    using that inv(1,2) assms(3) by (auto simp: no_run_def)
  ultimately show ?thesis using inv(1) assms(3) by (auto simp: first_run_def free_run_def)
qed

lemma first_run_mono: "first_run b n l r \<Longrightarrow> l \<le> l' \<Longrightarrow> first_run b n l' r"
  by (auto simp: first_run_def)

lemma scan_run_spec:
  assumes "run_inv b (unat cnt) (unat p) (unat c)"
    and "unat p + k \<le> 8 * length (bits b)" and "unat p + k < 2 ^ 32"
  shows "(\<exists>r. scan_run b cnt k p c = Inr (of_nat r) \<and> first_run b (unat cnt) (unat p + k) r) \<or>
         (scan_run b cnt k p c = Inr (-1) \<and> no_run b (unat cnt) (unat p + k))"
  using assms
proof (induction k arbitrary: p c)
  case 0
  then show ?case by (auto simp: run_inv_def)
next
  case (Suc k)
  have p1: "unat (p + 1) = Suc (unat p)"
    using Suc.prems(3) by (subst unat_add_no_wrap) auto
  have "unat c < unat cnt" using Suc.prems(1) by (simp add: run_inv_def)
  then have c1: "unat (c + 1) = Suc (unat c)" by (intro unat_Suc_less) (simp add: unat_less_iff)
  from Suc.prems(2) have "unat p div 8 < length (bits b)" by auto
  then obtain t where t: "bitmap_scan_test b p = Inr t" "t = 0 \<longleftrightarrow> \<not> bm_bit b (unat p)"
    using bitmap_scan_test_zero by blast
  have bounds: "unat (p + 1) + k \<le> 8 * length (bits b)" "unat (p + 1) + k < 2 ^ 32"
    using Suc.prems(2,3) by (simp_all add: p1)
  show ?case
  proof (cases "bm_bit b (unat p)")
    case True
    with t \<open>unat c < unat cnt\<close> have "scan_run b cnt (Suc k) p c = scan_run b cnt k (p + 1) 0"
      by auto
    then show ?thesis
      using Suc.IH [of "p + 1" 0, OF _ bounds] run_inv_set [OF Suc.prems(1) True] by (simp add: p1)
  next
    case False
    show ?thesis
    proof (cases "Suc (unat c) = unat cnt")
      case True
      then have "c + 1 = cnt" using c1 by (simp add: word_unat_eq_iff)
      with t False have "scan_run b cnt (Suc k) p c = Inr (p - cnt + 1)" by simp
      moreover have "p - cnt + 1 = of_nat (unat p - unat c)"
      proof -
        have "unat c \<le> unat p" using Suc.prems(1) by (simp add: run_inv_def)
        then have "of_nat (unat p - unat c) = p - c" by (simp add: of_nat_diff)
        then show ?thesis using \<open>c + 1 = cnt\<close> by (simp add: algebra_simps flip: \<open>c + 1 = cnt\<close>)
      qed
      moreover have "first_run b (unat cnt) (unat p + Suc k) (unat p - unat c)"
        using run_inv_found [OF Suc.prems(1) False True] by (rule first_run_mono) simp
      ultimately show ?thesis by (intro disjI1 exI [of _ "unat p - unat c"]) simp
    next
      case cont: False
      with c1 have "c + 1 \<noteq> cnt" by metis
      with t False have "scan_run b cnt (Suc k) p c = scan_run b cnt k (p + 1) (c + 1)" by simp
      moreover have "run_inv b (unat cnt) (unat (p + 1)) (unat (c + 1))"
        using run_inv_clear [OF Suc.prems(1) False] cont \<open>unat c < unat cnt\<close> by (simp add: p1 c1)
      ultimately show ?thesis
        using Suc.IH [OF _ bounds] by (simp add: p1)
    qed
  qed
qed

text \<open>How far \<open>bitmap_scan\<close> looks: one bit too far when it wants more than one.\<close>

definition scan_limit :: "bitmap \<Rightarrow> u32 \<Rightarrow> nat" where
  "scan_limit b cnt = (if cnt = 1 then bm_size b else bm_size b + 1)"

definition scan_mem_ok :: "bitmap \<Rightarrow> u32 \<Rightarrow> bool" where
  "scan_mem_ok b cnt \<longleftrightarrow> bm_ok b \<and> 1 \<le> cnt \<and> (cnt = 1 \<or> unat (btmp_bytes_len b) < length (bits b))"

lemma free_run_one: "free_run b (Suc 0) r \<longleftrightarrow> \<not> bm_bit b r"
  by (auto simp: free_run_def less_Suc_eq_le)

lemma first_run_one: "first_run b (Suc 0) (bm_size b) r \<longleftrightarrow> first_free b r"
  by (auto simp: first_run_def first_free_def free_run_one)

definition scan_result :: "bitmap \<Rightarrow> u32 \<Rightarrow> bool" where
  "scan_result b cnt \<longleftrightarrow>
     (\<exists>r. bitmap_scan b cnt = Inr (of_nat r) \<and> r < 2 ^ 31 \<and>
        first_run b (unat cnt) (scan_limit b cnt) r) \<or>
     (bitmap_scan b cnt = Inr (-1) \<and> no_run b (unat cnt) (scan_limit b cnt))"

text \<open>The run loop, entered behind the first free bit \<open>i\<close>.\<close>

lemma scan_result_run:
  assumes "scan_mem_ok b cnt" and False: "cnt \<noteq> 1" and ff: "first_free b i"
    and scan: "bitmap_scan b cnt = scan_run b cnt (unat (btmp_bytes_len b * 8 - of_nat i)) (of_nat i + 1) 1"
  shows "scan_result b cnt"
proof -
  let ?p = "of_nat i + 1 :: u32" and ?k = "unat (btmp_bytes_len b * 8 - of_nat i)"
  from assms(1) False have ok: "bm_ok b" and cnt: "1 \<le> cnt" and mem: "unat (btmp_bytes_len b) < length (bits b)"
    by (auto simp: scan_mem_ok_def)
  have two: "2 \<le> unat cnt" using False cnt by (simp add: unat_le_iff word_unat_eq_iff)
  have size: "bm_size b < 2 ^ 31" using ok by (simp add: bm_ok_def)
  have isize: "i < bm_size b" using ff by (simp add: first_free_def)
  have ui: "unat (of_nat i :: u32) = i" using isize size by (intro unat_of_nat_small) simp
  have "unat (btmp_bytes_len b * 8) = bm_size b"
    using size by (subst unat_mult_no_wrap) (auto simp: bm_size_def)
  then have k: "?k = bm_size b - i"
    using isize ui by (subst unat_sub_no_wrap) (simp_all only: ui)
  have p: "unat ?p = Suc i" using isize size ui by (subst unat_add_no_wrap) (simp_all only: ui, auto)
  have pk: "unat ?p + ?k = bm_size b + 1" using k p isize by simp
  have "no_run b (unat cnt) (Suc i)"
    using ff two by (auto simp: no_run_def free_run_def first_free_def)
  then have inv: "run_inv b (unat cnt) (unat ?p) (unat (1 :: u32))"
    using ff two by (auto simp: run_inv_def p first_free_def less_Suc_eq)
  have "(\<exists>r. scan_run b cnt ?k ?p 1 = Inr (of_nat r) \<and>
        first_run b (unat cnt) (unat ?p + ?k) r) \<or>
      (scan_run b cnt ?k ?p 1 = Inr (-1) \<and> no_run b (unat cnt) (unat ?p + ?k))"
    using inv False mem size by (intro scan_run_spec) (auto simp: pk bm_size_def)
  moreover have "r < 2 ^ 31" if "first_run b (unat cnt) (bm_size b + 1) r" for r
    using that two size by (simp add: first_run_def)
  moreover have "scan_limit b cnt = bm_size b + 1" using False by (simp add: scan_limit_def)
  ultimately show ?thesis unfolding pk scan_result_def scan by metis
qed

lemma bitmap_scan_result:
  assumes "scan_mem_ok b cnt"
  shows "scan_result b cnt"
proof -
  from assms have ok: "bm_ok b" and cnt: "1 \<le> cnt" by (auto simp: scan_mem_ok_def)
  from cnt have cnt0: "0 < unat cnt" by (simp add: unat_le_iff)
  from scan_first_free [OF ok] show ?thesis
  proof (elim disjE exE conjE)
    assume r: "scan_bytes b 0 = Inr (btmp_bytes_len b)" and full: "\<forall>i < bm_size b. bm_bit b i"
    then have "bitmap_scan b cnt = Inr (-1)" using cnt by (simp add: bitmap_scan_def)
    moreover have "\<not> free_run b (unat cnt) r" if "r + unat cnt \<le> scan_limit b cnt" for r
    proof -
      have "r < bm_size b \<and> r < r + unat cnt"
        using that cnt0 by (cases "cnt = 1") (auto simp: scan_limit_def word_unat_eq_iff)
      with full show ?thesis by (auto simp: free_run_def)
    qed
    ultimately show ?thesis by (auto simp: no_run_def scan_result_def)
  next
    fix r :: u32
    let ?s = "scan_bits (bits b ! unat r) 0"
    assume r: "scan_bytes b 0 = Inr r" "r < btmp_bytes_len b" "unat r < length (bits b)"
      and ff: "first_free b (8 * unat r + ?s)" and s8: "?s < 8"
    define i where "i = 8 * unat r + ?s"
    have ff: "first_free b i" using ff by (simp add: i_def)
    have ne: "r \<noteq> btmp_bytes_len b" using r(2) by (rule less_imp_neq)
    have start: "of_nat ?s + 8 * r = of_nat i" by (simp add: i_def)
    show ?thesis
    proof (cases "cnt = 1")
      case True
      with r ne start have "bitmap_scan b cnt = Inr (of_nat i)"
        by (simp add: bitmap_scan_def Let_def)
      moreover have "i < 2 ^ 31" using ff ok by (auto simp: first_free_def bm_ok_def)
      moreover have "first_run b (unat cnt) (scan_limit b cnt) i"
        using True ff by (simp add: scan_limit_def first_run_one)
      ultimately show ?thesis unfolding scan_result_def by blast
    next
      case False
      with r ne start cnt show ?thesis
        by (intro scan_result_run [OF assms False ff]) (simp add: bitmap_scan_def Let_def)
    qed
  qed
qed

text \<open>
  The same in terms of the bitmap proper.  When it has a run of \<open>n\<close> free bits, its first one is
  also the first within one bit more; when it has none, the only run that ends within one bit more
  consists of its last \<open>n - 1\<close> bits and the bit behind it.
\<close>

lemma first_run_iff:
  assumes "r + n \<le> lim"
  shows "first_run b n (Suc lim) r \<longleftrightarrow> first_run b n lim r"
  using assms by (simp add: first_run_def)

lemma no_run_behind:
  "no_run b n (Suc lim) \<longleftrightarrow> no_run b n lim \<and> \<not> (n \<le> Suc lim \<and> free_run b n (Suc lim - n))"
proof
  assume a: "no_run b n (Suc lim)"
  then have "n \<le> Suc lim \<Longrightarrow> \<not> free_run b n (Suc lim - n)" by (simp add: no_run_def)
  with a show "no_run b n lim \<and> \<not> (n \<le> Suc lim \<and> free_run b n (Suc lim - n))" by (auto simp: no_run_def)
next
  assume a: "no_run b n lim \<and> \<not> (n \<le> Suc lim \<and> free_run b n (Suc lim - n))"
  show "no_run b n (Suc lim)"
    unfolding no_run_def
  proof (intro allI impI)
    fix r assume r: "r + n \<le> Suc lim"
    show "\<not> free_run b n r"
    proof (cases "r + n \<le> lim")
      case True
      with a show ?thesis by (simp add: no_run_def)
    next
      case False
      with r have "n \<le> Suc lim" "r = Suc lim - n" by simp_all
      with a show ?thesis by blast
    qed
  qed
qed

text \<open>A run that leaves the bitmap: its last bits are free, and the bit behind it is.\<close>

definition run_over_end :: "bitmap \<Rightarrow> nat \<Rightarrow> bool" where
  "run_over_end b n \<longleftrightarrow> 1 < n \<and> n \<le> bm_size b + 1 \<and> free_run b (n - 1) (bm_size b + 1 - n) \<and> \<not> bm_bit b (bm_size b)"

lemma run_over_end_run:
  assumes "1 < n"
  shows "run_over_end b n \<longleftrightarrow> n \<le> Suc (bm_size b) \<and> free_run b n (Suc (bm_size b) - n)"
proof (cases "n \<le> Suc (bm_size b)")
  case True
  define r where "r = Suc (bm_size b) - n"
  have e: "r + n = Suc (bm_size b)" "r + (n - 1) = bm_size b" using True assms by (simp_all add: r_def)
  have "free_run b n r \<longleftrightarrow> free_run b (n - 1) r \<and> \<not> bm_bit b (bm_size b)"
  proof -
    have "r \<le> bm_size b" using True assms by (simp add: r_def)
    then show ?thesis unfolding free_run_def e by (metis less_Suc_eq)
  qed
  then show ?thesis using assms True by (simp add: run_over_end_def r_def)
qed (simp add: run_over_end_def)

text \<open>
  C35: the functional behaviour of \<open>bitmap_scan\<close>, on every bitmap whose memory it may read and
  every positive count.  When the bitmap has a run of \<open>cnt\<close> free bits, the result is the first
  position of its first one.  When it has none the result is \<open>-1\<close>, as the comment of the function
  promises, except in the case of the defect in line 54, where the loop tests one bit too many: for
  more than one bit, when the last \<open>cnt - 1\<close> bits of the bitmap are free and so is the bit behind
  it, which belongs to something else, the result is the position of these bits.
\<close>

theorem bitmap_scan_first_run:
  assumes "scan_mem_ok b cnt"
  shows "(\<exists>r. bitmap_scan b cnt = Inr (of_nat r) \<and> r < 2 ^ 31 \<and> first_run b (unat cnt) (bm_size b) r) \<or>
         no_run b (unat cnt) (bm_size b) \<and>
           bitmap_scan b cnt =
             Inr (if run_over_end b (unat cnt) then of_nat (bm_size b + 1 - unat cnt) else -1)"
proof (cases "cnt = 1")
  case True
  then show ?thesis
    using bitmap_scan_result [OF assms] by (auto simp: scan_result_def scan_limit_def run_over_end_def)
next
  case False
  then have two: "1 < unat cnt" using assms by (auto simp: scan_mem_ok_def unat_le_iff word_unat_eq_iff)
  have lim: "scan_limit b cnt = Suc (bm_size b)" using False by (simp add: scan_limit_def)
  from bitmap_scan_result [OF assms] consider
      r where "bitmap_scan b cnt = Inr (of_nat r)" "r < 2 ^ 31" "first_run b (unat cnt) (Suc (bm_size b)) r"
    | "bitmap_scan b cnt = Inr (-1)" "no_run b (unat cnt) (Suc (bm_size b))"
    by (auto simp: scan_result_def lim)
  then show ?thesis
  proof cases
    case (1 r)
    show ?thesis
    proof (cases "r + unat cnt \<le> bm_size b")
      case True
      with 1 show ?thesis by (auto simp: first_run_iff)
    next
      case outside: False
      with 1(3) have "no_run b (unat cnt) (bm_size b)" "r = bm_size b + 1 - unat cnt"
        by (auto simp: first_run_def no_run_def)
      with 1 show ?thesis
        using run_over_end_run [OF two, of b] by (auto simp: first_run_def)
    qed
  next
    case 2
    then show ?thesis using run_over_end_run [OF two, of b] by (auto simp: no_run_behind)
  qed
qed

definition bitmap_of :: "u8 list \<Rightarrow> nat \<Rightarrow> bitmap" where
  "bitmap_of bs n = \<lparr>btmp_bytes_len = of_nat n, bits = bs\<rparr>"

lemma of_nat_eq_numeral_u32:
  "r < 2 ^ 32 \<Longrightarrow> (of_nat r :: u32) = w \<longleftrightarrow> r = unat w"
  by (auto simp: unat_of_nat_small)

theorem bitmap_scan_first_run_witness:
  "first_run (bitmap_of [255, 11, 0] 2) 2 16 12 \<and> bitmap_scan (bitmap_of [255, 11, 0] 2) 2 = Inr 12 \<and>
   run_over_end (bitmap_of [127, 0] 1) 2 \<and> no_run (bitmap_of [127, 0] 1) 2 8"
proof -
  let ?b = "bitmap_of [255, 11, 0] 2" and ?o = "bitmap_of [127, 0] 1"
  have "scan_mem_ok ?b 2" "scan_mem_ok ?o 2"
    by (simp_all add: scan_mem_ok_def bm_ok_def bm_size_def bitmap_of_def)
  note spec = this [THEN bitmap_scan_first_run]
  have r: "bitmap_scan ?b 2 = Inr 12" "bitmap_scan ?o 2 = Inr 7" by code_simp+
  have size: "bm_size ?b = 16" "bm_size ?o = 8" by (simp_all add: bm_size_def bitmap_of_def)
  have "\<not> bm_bit ?b j" if "12 \<le> j" "j < 14" for j
  proof -
    have "j = 12 \<or> j = 13" using that by linarith
    then show ?thesis by (auto simp: bm_bit_def bitmap_of_def)
  qed
  then have "free_run ?b 2 12" by (simp add: free_run_def)
  then have "\<not> no_run ?b 2 16" unfolding no_run_def by (intro notI) (drule HOL.spec [of _ 12], simp)
  with spec(1) [unfolded r size] obtain k where "(of_nat k :: u32) = 12" "k < 2 ^ 31" "first_run ?b 2 16 k"
    by (auto simp: eq_commute [of 12])
  then have "first_run ?b 2 16 12" by (simp add: of_nat_eq_numeral_u32)
  moreover have "\<not> first_run ?o 2 8 k" if "(7 :: u32) = of_nat k" "k < 2 ^ 31" for k
    using that by (auto simp: first_run_def eq_commute [of 7] of_nat_eq_numeral_u32)
  with spec(2) [unfolded r size] have "no_run ?o 2 8" "run_over_end ?o 2" by (auto split: if_splits)
  ultimately show ?thesis using r by blast
qed

text \<open>
  When the bit behind the bitmap is set, the run \<open>bitmap_scan\<close> returns lies inside
  the bitmap and is free, so claiming it with \<open>bitmap_set\<close> bit by bit succeeds, turns exactly
  those bits on and leaves every other bit as it was.
\<close>

theorem bitmap_scan_then_claim:
  assumes "scan_mem_ok b cnt" and "bm_bit b (bm_size b)"
    and "bitmap_scan b cnt = Inr s" and "s \<noteq> -1"
  shows "unat s + unat cnt \<le> bm_size b \<and> free_run b (unat cnt) (unat s) \<and>
         (\<exists>b'. bitmap_set_run b s (unat cnt) 1 = Inr b' \<and>
            (\<forall>j. bm_bit b' j \<longleftrightarrow> bm_bit b j \<or> unat s \<le> j \<and> j < unat s + unat cnt))"
proof -
  from bitmap_scan_result [OF assms(1)] assms(3,4) obtain r where
    r: "s = of_nat r" "r < 2 ^ 31" "first_run b (unat cnt) (scan_limit b cnt) r"
    by (auto simp: scan_result_def)
  have ok: "bm_ok b" and cnt: "0 < unat cnt"
    using assms(1) by (auto simp: scan_mem_ok_def unat_le_iff)
  have s: "unat s = r" using r(1,2) by (simp add: unat_of_nat_small)
  have fr: "free_run b (unat cnt) r" and lim: "r + unat cnt \<le> scan_limit b cnt"
    using r(3) by (auto simp: first_run_def)
  have "\<not> (r \<le> bm_size b \<and> bm_size b < r + unat cnt)"
    using fr assms(2) by (auto simp: free_run_def)
  with lim cnt have inside: "r + unat cnt \<le> bm_size b"
    by (auto simp: scan_limit_def split: if_splits)
  moreover have "bm_size b \<le> 8 * length (bits b)" "bm_size b < 2 ^ 31"
    using ok by (auto simp: bm_ok_def bm_size_def)
  ultimately obtain b' where
    b': "bitmap_set_run b s (unat cnt) 1 = Inr b'" "bm_upd b {r ..< r + unat cnt} True b'"
    using bitmap_set_run_upd [of s "unat cnt" b 1] by (auto simp: s)
  with inside fr show ?thesis by (auto simp: s bm_upd_def)
qed

theorem bitmap_scan_then_claim_witness:
  "free_run (bitmap_of [7, 1] 1) 3 3 \<and>
   (\<exists>b'. bitmap_set_run (bitmap_of [7, 1] 1) 3 3 1 = Inr b' \<and> bm_bit b' 5)"
proof -
  let ?b = "bitmap_of [7, 1] 1"
  have "scan_mem_ok ?b 3"
    by (simp add: scan_mem_ok_def bm_ok_def bm_size_def bitmap_of_def)
  moreover have "bm_bit ?b (bm_size ?b)" by (simp add: bm_bit_def bm_size_def bitmap_of_def)
  moreover have "bitmap_scan ?b 3 = Inr 3" by code_simp
  ultimately show ?thesis using bitmap_scan_then_claim [of ?b 3 3] by auto
qed

text \<open>
  \<open>bitmap_set\<close> and \<open>bitmap_scan_test\<close> are a store of bits: inside the bitmap's memory a
  set with 0 or 1 succeeds, a later test of the same bit sees that value, a test of any
  other bit sees what it saw before, and the length is kept.
\<close>

theorem bitmap_set_test:
  assumes "unat i div 8 < length (bits b)" and "unat j div 8 < length (bits b)"
    and "v = 0 \<or> v = 1"
  shows "\<exists>b' t t'. bitmap_set b i v = Inr b' \<and> bitmap_scan_test b j = Inr t \<and>
           bitmap_scan_test b' j = Inr t' \<and>
           (t' \<noteq> 0 \<longleftrightarrow> (if i = j then v = 1 else t \<noteq> 0)) \<and>
           btmp_bytes_len b' = btmp_bytes_len b \<and> length (bits b') = length (bits b)"
proof -
  from bitmap_set_upd [OF assms(1,3)] obtain b' where
    b': "bitmap_set b i v = Inr b'" "bm_upd b {unat i} (v = 1) b'" by blast
  from bitmap_scan_test_zero [OF assms(2)] obtain t where
    t: "bitmap_scan_test b j = Inr t" "t = 0 \<longleftrightarrow> \<not> bm_bit b (unat j)" by blast
  have "unat j div 8 < length (bits b')" using assms(2) b'(2) by (simp add: bm_upd_def)
  then obtain t' where
    t': "bitmap_scan_test b' j = Inr t'" "t' = 0 \<longleftrightarrow> \<not> bm_bit b' (unat j)"
    using bitmap_scan_test_zero by blast
  have "t' \<noteq> 0 \<longleftrightarrow> (if i = j then v = 1 else t \<noteq> 0)"
    using b'(2) t(2) t'(2) by (simp add: bm_upd_def word_unat_eq_iff [of i j] eq_commute [of "unat j"])
  moreover have "btmp_bytes_len b' = btmp_bytes_len b" "length (bits b') = length (bits b)"
    using b'(2) by (simp_all add: bm_upd_def)
  ultimately show ?thesis using b'(1) t(1) t'(1) by blast
qed

theorem bitmap_set_test_witness:
  "\<exists>b' t t'. bitmap_set (bitmap_of [0, 0] 2) 9 1 = Inr b' \<and>
     bitmap_scan_test (bitmap_of [0, 0] 2) 9 = Inr t \<and> bitmap_scan_test b' 9 = Inr t' \<and> t' \<noteq> 0"
proof -
  have "unat (9 :: u32) div 8 < length (bits (bitmap_of [0, 0] 2))" by (simp add: bitmap_of_def)
  from bitmap_set_test [OF this this, of 1] show ?thesis by fastforce
qed

text \<open>
  The scan for two or more bits tests one bit behind the bitmap: when all bits but
  the last are taken and the memory behind the bitmap has its first bit clear, a scan for two bits
  returns the last bit, a run whose second bit is not part of the bitmap.
\<close>

theorem bitmap_scan_overrun:
  assumes "scan_mem_ok b 2" and "\<forall>i < bm_size b - 1. bm_bit b i"
    and "0 < bm_size b" and "\<not> bm_bit b (bm_size b - 1)" and "\<not> bm_bit b (bm_size b)"
  shows "bitmap_scan b 2 = Inr (of_nat (bm_size b - 1))"
proof -
  have fr: "free_run b 2 (bm_size b - 1)"
    unfolding free_run_def
  proof (intro allI impI)
    fix j
    assume "bm_size b - 1 \<le> j \<and> j < bm_size b - 1 + 2"
    with assms(3) have "j = bm_size b - 1 \<or> j = bm_size b" by linarith
    with assms(4,5) show "\<not> bm_bit b j" by blast
  qed
  have "\<not> free_run b 2 r" if "r < bm_size b - 1" for r
    using that assms(2) by (auto simp: free_run_def)
  then have only: "r = bm_size b - 1" if "first_run b 2 (scan_limit b 2) r" for r
  proof -
    from that have "free_run b 2 r" "r + 2 \<le> bm_size b + 1"
      by (simp_all add: first_run_def scan_limit_def)
    with \<open>\<And>r. r < bm_size b - 1 \<Longrightarrow> \<not> free_run b 2 r\<close> have "\<not> r < bm_size b - 1" by blast
    with \<open>r + 2 \<le> bm_size b + 1\<close> show ?thesis by linarith
  qed
  from fr assms(3) have "\<not> no_run b 2 (scan_limit b 2)"
    by (auto simp: no_run_def scan_limit_def intro!: exI [of _ "bm_size b - 1"])
  with bitmap_scan_result [OF assms(1)] only show ?thesis by (auto simp: scan_result_def)
qed

theorem bitmap_scan_overrun_witness:
  "bitmap_scan (bitmap_of [127, 0] 1) 2 = Inr 7"
proof -
  let ?b = "bitmap_of [127, 0] 1"
  have "scan_mem_ok ?b 2"
    by (simp add: scan_mem_ok_def bm_ok_def bm_size_def bitmap_of_def)
  moreover have "\<forall>i < bm_size ?b - 1. bm_bit ?b i"
  proof (intro allI impI)
    fix i
    assume "i < bm_size ?b - 1"
    then have "i < 7" by (simp add: bm_size_def bitmap_of_def)
    then have "i \<in> {0, 1, 2, 3, 4, 5, 6}" by auto
    then show "bm_bit ?b i" by (auto simp: bm_bit_def bitmap_of_def)
  qed
  ultimately show ?thesis
    using bitmap_scan_overrun [of ?b]
    by (simp add: bm_bit_def bm_size_def bitmap_of_def)
qed

end
