(* ===== verification/Alloc.thy ===== *)
theory Alloc
  imports Bitmap
begin

text \<open>
  The contract of an allocator of numbered resources over a bitmap, as a locale.  Three
  components provide it: the physical page pools of \<open>kernel/memory.c\<close>, the inodes and the
  blocks of a partition in \<open>fs/file.c\<close>; each scans its bitmap for one free bit and sets it.
  What clients rely on, that resources handed out are new and pairwise different until they run
  out, is proved here once.
\<close>

lemma scan_set_one:
  assumes "bm_ok b"
  shows "(\<exists>i b'. bitmap_scan b 1 = Inr (of_nat i) \<and> (of_nat i :: u32) \<noteq> -1 \<and> first_free b i \<and>
            bitmap_set b (of_nat i) 1 = Inr b' \<and> bm_upd b {i} True b') \<or>
         bitmap_scan b 1 = Inr (-1) \<and> (\<forall>i < bm_size b. bm_bit b i)"
proof -
  have "scan_mem_ok b 1" using assms by (simp add: scan_mem_ok_def)
  from bitmap_scan_result [OF this] consider
      (found) r where "bitmap_scan b 1 = Inr (of_nat r)" "r < 2 ^ 31" "first_free b r"
    | (full) "bitmap_scan b 1 = Inr (-1)" "no_run b 1 (bm_size b)"
    by (auto simp: scan_result_def scan_limit_def first_run_one)
  then show ?thesis
  proof cases
    case found
    have u: "unat (of_nat r :: u32) = r" using found(2) by (intro unat_of_nat_small) simp
    have "r div 8 < length (bits b)" using assms found(3) by (auto simp: first_free_def dest: bm_okD)
    then obtain b' where b': "bitmap_set b (of_nat r) 1 = Inr b'" "bm_upd b {r} True b'"
      using bitmap_set_upd [of "of_nat r" b 1] by (auto simp: u)
    have "(of_nat r :: u32) \<noteq> -1"
    proof
      assume "(of_nat r :: u32) = -1"
      then have "unat (of_nat r :: u32) = unat (- 1 :: u32)" by simp
      with u have "r = 4294967295" by (simp add: unsigned_minus_1_eq_mask mask_eq_exp_minus_1)
      with found(2) show False by simp
    qed
    with found b' show ?thesis by blast
  next
    case full
    then have "\<forall>i < bm_size b. bm_bit b i" by (auto simp: no_run_def free_run_one)
    with full show ?thesis by blast
  qed
qed

definition free_bits :: "bitmap \<Rightarrow> nat set" where
  "free_bits b = {i. i < bm_size b \<and> \<not> bm_bit b i}"

lemma finite_free_bits [simp]: "finite (free_bits b)"
  by (simp add: free_bits_def)

lemma free_bits_upd: "bm_upd b {i} True b' \<Longrightarrow> free_bits b' = free_bits b - {i}"
  by (auto simp: free_bits_def bm_upd_def bm_size_def)

lemma first_free_bits: "first_free b i \<Longrightarrow> i \<in> free_bits b"
  by (simp add: first_free_def free_bits_def)

lemma scan_set_first:
  assumes "bm_ok b" and "first_free b i"
  shows "\<exists>b'. bitmap_scan b 1 = Inr (of_nat i) \<and> (of_nat i :: u32) \<noteq> -1 \<and>
           bitmap_set b (of_nat i) 1 = Inr b' \<and> bm_upd b {i} True b'"
  using scan_set_one [OF assms(1)] first_free_unique [OF assms(2)] first_free_bits [OF assms(2)]
  by (auto simp: free_bits_def)

lemma scan_set_full:
  assumes "bm_ok b" and "free_bits b = {}"
  shows "bitmap_scan b 1 = Inr (-1)"
  using scan_set_one [OF assms(1)] first_free_bits assms(2) by blast

fun alloc_many :: "('s \<Rightarrow> (u32 \<times> 's) res) \<Rightarrow> nat \<Rightarrow> 's \<Rightarrow> (u32 list \<times> 's) res" where
  "alloc_many alloc 0 s = Inr ([], s)"
| "alloc_many alloc (Suc n) s =
     rbind (alloc s) (\<lambda>(r, s). rbind (alloc_many alloc n s) (\<lambda>(rs, s). Inr (r # rs, s)))"

locale bit_allocator =
  fixes bm :: "'s \<Rightarrow> bitmap"
    and addr :: "'s \<Rightarrow> nat \<Rightarrow> u32"
    and none :: u32
    and alloc :: "'s \<Rightarrow> (u32 \<times> 's) res"
  assumes alloc_found: "bm_ok (bm s) \<Longrightarrow> first_free (bm s) i \<Longrightarrow>
            \<exists>s'. alloc s = Inr (addr s i, s') \<and> bm_upd (bm s) {i} True (bm s') \<and> addr s' = addr s"
    and alloc_full: "bm_ok (bm s) \<Longrightarrow> free_bits (bm s) = {} \<Longrightarrow> alloc s = Inr (none, s)"
begin

lemma alloc_step:
  assumes "bm_ok (bm s)" and "free_bits (bm s) \<noteq> {}"
  shows "\<exists>i s'. alloc s = Inr (addr s i, s') \<and> i \<in> free_bits (bm s) \<and>
           bm_upd (bm s) {i} True (bm s') \<and> addr s' = addr s"
proof -
  have "\<not> (\<forall>i < bm_size (bm s). bm_bit (bm s) i)" using assms(2) by (auto simp: free_bits_def)
  then obtain i where i: "first_free (bm s) i" unfolding no_free_iff by blast
  with alloc_found [OF assms(1) i] first_free_bits [OF i] show ?thesis by blast
qed

lemma alloc_many_fresh:
  "bm_ok (bm s) \<Longrightarrow> n \<le> card (free_bits (bm s)) \<Longrightarrow>
   \<exists>is s'. alloc_many alloc n s = Inr (map (addr s) is, s') \<and> length is = n \<and> distinct is \<and>
     set is \<subseteq> free_bits (bm s) \<and> free_bits (bm s') = free_bits (bm s) - set is \<and> bm_ok (bm s') \<and> addr s' = addr s"
proof (induction n arbitrary: s)
  case 0
  then show ?case by auto
next
  case (Suc n)
  then have "free_bits (bm s) \<noteq> {}" by auto
  from alloc_step [OF Suc.prems(1) this] obtain i s1 where
    i: "alloc s = Inr (addr s i, s1)" "i \<in> free_bits (bm s)" "bm_upd (bm s) {i} True (bm s1)" "addr s1 = addr s"
    by blast
  have ok: "bm_ok (bm s1)" using bm_upd_ok [OF i(3)] Suc.prems(1) by simp
  have fb: "free_bits (bm s1) = free_bits (bm s) - {i}" using free_bits_upd [OF i(3)] .
  have "n \<le> card (free_bits (bm s1))" using Suc.prems(2) i(2) by (simp add: fb)
  from Suc.IH [OF ok this] obtain "is" s' where
    r: "alloc_many alloc n s1 = Inr (map (addr s1) is, s')" "length is = n" "distinct is"
      "set is \<subseteq> free_bits (bm s1)" "free_bits (bm s') = free_bits (bm s1) - set is" "bm_ok (bm s')" "addr s' = addr s1"
    by blast
  have "alloc_many alloc (Suc n) s = Inr (map (addr s) (i # is), s')" using i(1,4) r(1) by simp
  moreover have "distinct (i # is)" "set (i # is) \<subseteq> free_bits (bm s)" "length (i # is) = Suc n"
    "free_bits (bm s') = free_bits (bm s) - set (i # is)"
    using r(2-5) fb i(2) by auto
  ultimately show ?case using r(6,7) i(4) by (intro exI [of _ "i # is"] exI [of _ s']) simp
qed

lemma alloc_exhausts:
  assumes "bm_ok (bm s)"
  shows "\<exists>rs s'. alloc_many alloc (card (free_bits (bm s))) s = Inr (rs, s') \<and> alloc s' = Inr (none, s')"
proof -
  obtain "is" s' where r: "alloc_many alloc (card (free_bits (bm s))) s = Inr (map (addr s) is, s')"
    "length is = card (free_bits (bm s))" "distinct is" "set is \<subseteq> free_bits (bm s)"
    "free_bits (bm s') = free_bits (bm s) - set is" "bm_ok (bm s')"
    using alloc_many_fresh [OF assms order_refl] by blast
  have "set is = free_bits (bm s)"
    using r(2-4) by (simp add: card_subset_eq distinct_card)
  with r alloc_full [of s'] show ?thesis by auto
qed

end

end
