(* ===== verification/Interrupt.thy ===== *)
theory Interrupt
  imports Prelude
begin

text \<open>
  The interrupt flag of the processor and the interrupt descriptor table, from
  \<open>kernel/interrupt.c\<close>.  The processor is the record \<open>cpu\<close>; every component that
  turns interrupts off and on extends it.  \<open>sti\<close> and \<open>cli\<close> set and clear bit 9 of
  \<open>eflags\<close>, which is what the inline assembly does.
\<close>

section \<open>The interrupt flag\<close>

record cpu =
  eflags :: u32

datatype intr_status = INTR_ON | INTR_OFF

definition EFLAGS_IF :: u32 where
  "EFLAGS_IF = 0x200"

definition sti :: "'a cpu_scheme \<Rightarrow> 'a cpu_scheme" where
  "sti s = s\<lparr>eflags := eflags s OR EFLAGS_IF\<rparr>"

definition cli :: "'a cpu_scheme \<Rightarrow> 'a cpu_scheme" where
  "cli s = s\<lparr>eflags := eflags s AND NOT EFLAGS_IF\<rparr>"

definition intr_get_status :: "'a cpu_scheme \<Rightarrow> intr_status" where
  "intr_get_status s = (if eflags s AND EFLAGS_IF \<noteq> 0 then INTR_ON else INTR_OFF)"

definition intr_enable :: "'a cpu_scheme \<Rightarrow> intr_status \<times> 'a cpu_scheme" where
  "intr_enable s = (if intr_get_status s \<noteq> INTR_ON then (INTR_OFF, sti s) else (INTR_ON, s))"

definition intr_disable :: "'a cpu_scheme \<Rightarrow> intr_status \<times> 'a cpu_scheme" where
  "intr_disable s = (if intr_get_status s \<noteq> INTR_OFF then (INTR_ON, cli s) else (INTR_OFF, s))"

definition intr_set_status :: "'a cpu_scheme \<Rightarrow> intr_status \<Rightarrow> intr_status \<times> 'a cpu_scheme" where
  "intr_set_status s status = (if status = INTR_ON then intr_enable s else intr_disable s)"

named_theorems intr "the interrupt flag after each operation on it"

lemma status_sti [intr]: "intr_get_status (sti s) = INTR_ON"
proof -
  have "(eflags s OR EFLAGS_IF) AND EFLAGS_IF = EFLAGS_IF"
    by (simp add: EFLAGS_IF_def bit_eq_iff bit_simps)
  then show ?thesis by (simp add: intr_get_status_def sti_def EFLAGS_IF_def)
qed

lemma status_cli [intr]: "intr_get_status (cli s) = INTR_OFF"
proof -
  have "(eflags s AND NOT EFLAGS_IF) AND EFLAGS_IF = 0"
    by (rule bit_word_eqI) (simp add: bit_simps)
  then show ?thesis by (simp add: intr_get_status_def cli_def)
qed

lemma bit_EFLAGS_IF: "bit EFLAGS_IF n \<longleftrightarrow> n = 9"
proof -
  have e: "EFLAGS_IF = push_bit 9 1" by (simp add: EFLAGS_IF_def)
  show ?thesis unfolding e bit_push_bit_iff bit_1_iff by auto
qed

lemma cli_sti: "intr_get_status s = INTR_ON \<Longrightarrow> sti (cli s) = s"
proof -
  assume "intr_get_status s = INTR_ON"
  then have nz: "eflags s AND EFLAGS_IF \<noteq> 0" by (auto simp: intr_get_status_def split: if_splits)
  from nz have "bit (eflags s) 9"
  proof (rule contrapos_np)
    assume "\<not> bit (eflags s) 9"
    then show "eflags s AND EFLAGS_IF = 0"
      by (intro bit_word_eqI) (auto simp: bit_EFLAGS_IF bit_simps)
  qed
  then have "(eflags s AND NOT EFLAGS_IF) OR EFLAGS_IF = eflags s"
    by (intro bit_word_eqI) (auto simp: bit_EFLAGS_IF bit_simps)
  then show ?thesis by (simp add: cli_def sti_def)
qed

lemma sti_cong [intr]: "cpu.more (sti s) = cpu.more s" "cpu.more (cli s) = cpu.more s"
  by (simp_all add: sti_def cli_def)

lemma status_cases: "intr_get_status s = INTR_ON \<or> intr_get_status s = INTR_OFF"
  by (simp add: intr_get_status_def)

text \<open>
  Turning interrupts off and restoring the old status around a change that leaves
  \<open>eflags\<close> alone gives back the flags of before.
\<close>

lemma status_only_eflags: "eflags s = eflags t \<Longrightarrow> intr_get_status s = intr_get_status t"
  by (simp add: intr_get_status_def)

lemma disable_restore_eflags:
  assumes "eflags t = eflags (snd (intr_disable s))"
  shows "eflags (snd (intr_set_status t (fst (intr_disable s)))) = eflags s"
    and "cpu.more (snd (intr_set_status t (fst (intr_disable s)))) = cpu.more t"
proof -
  show "cpu.more (snd (intr_set_status t (fst (intr_disable s)))) = cpu.more t"
    by (simp add: intr_set_status_def intr_enable_def intr_disable_def intr)
  show "eflags (snd (intr_set_status t (fst (intr_disable s)))) = eflags s"
  proof (cases "intr_get_status s")
    case INTR_ON
    with assms have "eflags t = eflags (cli s)" by (simp add: intr_disable_def)
    then have "intr_get_status t = INTR_OFF" by (simp add: status_only_eflags [of t "cli s"] intr)
    then have "eflags (snd (intr_set_status t INTR_ON)) = eflags (sti t)"
      by (simp add: intr_set_status_def intr_enable_def)
    also have "\<dots> = eflags (sti (cli s))"
      using \<open>eflags t = eflags (cli s)\<close> by (simp add: sti_def)
    finally show ?thesis using INTR_ON by (simp add: intr_disable_def cli_sti)
  next
    case INTR_OFF
    with assms have "eflags t = eflags s" by (simp add: intr_disable_def)
    with INTR_OFF show ?thesis
      by (simp add: intr_disable_def intr_set_status_def status_only_eflags [of t s])
  qed
qed

lemma disable_frame [intr]:
  "cpu.more (snd (intr_disable s)) = cpu.more s"
  "intr_get_status (snd (intr_disable s)) = INTR_OFF"
  "fst (intr_disable s) = intr_get_status s"
  using status_cases [of s] by (auto simp: intr_disable_def intr)

lemma set_status_frame [intr]:
  "cpu.more (snd (intr_set_status s w)) = cpu.more s"
  "intr_get_status (snd (intr_set_status s w)) = w"
  using status_cases [of s] by (cases w; auto simp: intr_set_status_def intr_enable_def intr)+

text \<open>
  Interrupt status calls nest.  After \<open>intr_disable\<close> interrupts are off, restoring
  the returned status gives the status of before, also when the caller had already turned
  them off, and \<open>intr_set_status\<close> sets the status it is given; none of them changes
  anything but the interrupt flag.
\<close>

theorem intr_disable_restore:
  "intr_get_status (snd (intr_disable s)) = INTR_OFF \<and>
   snd (intr_set_status (snd (intr_disable s)) (fst (intr_disable s))) = s \<and>
   intr_get_status (snd (intr_set_status s status)) = status \<and>
   cpu.more (snd (intr_set_status s status)) = cpu.more s"
proof -
  have "snd (intr_set_status (snd (intr_disable s)) (fst (intr_disable s))) = s"
    using disable_restore_eflags [of "snd (intr_disable s)" s]
    by (intro cpu.equality) (simp_all add: intr)
  then show ?thesis by (simp add: intr)
qed

section \<open>The interrupt descriptor table\<close>

record gate_desc =
  func_offset_low_word :: u16
  selector :: u16
  dcount :: u8
  attribute :: u8
  func_offset_high_word :: u16

definition IDT_DESC_CNT :: nat where
  "IDT_DESC_CNT = 0x81"

definition RPL0 :: "'a::len word" where
  "RPL0 = 0"

definition RPL3 :: "'a::len word" where
  "RPL3 = 3"

definition TI_GDT :: "'a::len word" where
  "TI_GDT = 0"

definition IDT_DESC_P :: "'a::len word" where
  "IDT_DESC_P = 1"

definition IDT_DESC_DPL0 :: "'a::len word" where
  "IDT_DESC_DPL0 = 0"

definition IDT_DESC_DPL3 :: "'a::len word" where
  "IDT_DESC_DPL3 = 3"

definition IDT_DESC_32_TYPE :: "'a::len word" where
  "IDT_DESC_32_TYPE = 0xE"

lemmas idt_macros = RPL0_def RPL3_def TI_GDT_def IDT_DESC_P_def IDT_DESC_DPL0_def IDT_DESC_DPL3_def IDT_DESC_32_TYPE_def

definition SELECTOR_K_CODE :: u16 where
  "SELECTOR_K_CODE = push_bit 3 1 + push_bit 2 TI_GDT + RPL0"

definition IDT_DESC_ATTR_DPL0 :: u8 where
  "IDT_DESC_ATTR_DPL0 = push_bit 7 IDT_DESC_P + push_bit 5 IDT_DESC_DPL0 + IDT_DESC_32_TYPE"

definition IDT_DESC_ATTR_DPL3 :: u8 where
  "IDT_DESC_ATTR_DPL3 = push_bit 7 IDT_DESC_P + push_bit 5 IDT_DESC_DPL3 + IDT_DESC_32_TYPE"

definition make_idt_desc :: "u8 \<Rightarrow> u32 \<Rightarrow> gate_desc" where
  "make_idt_desc attr fn =
     \<lparr>func_offset_low_word = ucast (fn AND 0x0000FFFF),
      selector = SELECTOR_K_CODE,
      dcount = 0,
      attribute = attr,
      func_offset_high_word = ucast (drop_bit 16 (fn AND 0xFFFF0000))\<rparr>"

text \<open>
  \<open>idt_desc_init\<close> fills entry \<open>i\<close> with the entry stub \<open>intr_entry_table[i]\<close> of
  \<open>kernel.S\<close> and then overwrites the last one with the system call gate.
\<close>

definition idt_desc_init :: "(nat \<Rightarrow> u32) \<Rightarrow> u32 \<Rightarrow> gate_desc list" where
  "idt_desc_init intr_entry_table syscall_handler =
     (map (\<lambda>i. make_idt_desc IDT_DESC_ATTR_DPL0 (intr_entry_table i)) [0..<IDT_DESC_CNT])
       [IDT_DESC_CNT - 1 := make_idt_desc IDT_DESC_ATTR_DPL3 syscall_handler]"

definition register_handler :: "u32 list \<Rightarrow> u8 \<Rightarrow> u32 \<Rightarrow> u32 list res" where
  "register_handler idt_table vec_no fn = st idt_table (ucast vec_no) fn"

text \<open>What the processor reads out of a gate: the handler's address and the ring that may call it.\<close>

definition gate_offset :: "gate_desc \<Rightarrow> u32" where
  "gate_offset g = push_bit 16 (ucast (func_offset_high_word g)) OR ucast (func_offset_low_word g)"

definition gate_dpl :: "gate_desc \<Rightarrow> u8" where
  "gate_dpl g = drop_bit 5 (attribute g) AND 3"

lemma make_idt_desc_offset: "gate_offset (make_idt_desc attr fn) = fn"
proof -
  have m1: "(0xFFFF :: u32) = mask 16" by (simp add: mask_eq_exp_minus_1)
  have m2: "(0xFFFF0000 :: u32) = push_bit 16 (mask 16)" by (simp add: mask_eq_exp_minus_1)
  show ?thesis
    unfolding gate_offset_def make_idt_desc_def m1 m2 gate_desc.simps
    by (rule bit_word_eqI) (auto simp: bit_simps)
qed

text \<open>
  Every gate of the table \<open>idt_desc_init\<close> builds decodes to the handler it was
  built from, runs in the kernel's code segment, and the last one, the system call gate,
  is the only one that user code (ring 3) may call.
\<close>

theorem idt_desc_init_gates:
  assumes "i < IDT_DESC_CNT"
  shows "length (idt_desc_init entry sys) = IDT_DESC_CNT \<and>
         gate_offset (idt_desc_init entry sys ! i) = (if i = IDT_DESC_CNT - 1 then sys else entry i) \<and>
         selector (idt_desc_init entry sys ! i) = 8 \<and>
         gate_dpl (idt_desc_init entry sys ! i) = (if i = IDT_DESC_CNT - 1 then 3 else 0)"
proof -
  have "idt_desc_init entry sys ! i =
      (if i = IDT_DESC_CNT - 1 then make_idt_desc IDT_DESC_ATTR_DPL3 sys
       else make_idt_desc IDT_DESC_ATTR_DPL0 (entry i))"
    using assms by (simp add: idt_desc_init_def nth_list_update)
  then show ?thesis
    by (simp add: make_idt_desc_offset idt_desc_init_def)
      (simp add: make_idt_desc_def SELECTOR_K_CODE_def gate_dpl_def
        IDT_DESC_ATTR_DPL3_def IDT_DESC_ATTR_DPL0_def idt_macros)
qed

theorem idt_desc_init_gates_witness:
  "gate_offset (idt_desc_init (\<lambda>i. of_nat i + 0xc0001000) 0xc0003000 ! 0x80) = 0xc0003000"
  using idt_desc_init_gates [of "0x80" "\<lambda>i. of_nat i + 0xc0001000" "0xc0003000"]
  by (simp add: IDT_DESC_CNT_def)

end
