(* ===== verification/Fifo.thy ===== *)
theory Fifo
  imports Prelude
begin

text \<open>
  The contract of a first-in first-out queue, as a locale.  Two components provide it, the
  intrusive lists of \<open>lib/kernel/list.c\<close> and the ring buffer of \<open>device/ioqueue.c\<close>;
  what a client relies on, that elements leave in the order they entered, is proved here
  once.  \<open>rep h xs\<close> says that state \<open>h\<close> holds the elements \<open>xs\<close>, oldest first,
  and \<open>room xs x\<close> that \<open>x\<close> may be added to them.
\<close>

fun put_all :: "('h \<Rightarrow> 'e \<Rightarrow> 'h res) \<Rightarrow> 'h \<Rightarrow> 'e list \<Rightarrow> 'h res" where
  "put_all put h [] = Inr h"
| "put_all put h (x # xs) = rbind (put h x) (\<lambda>h'. put_all put h' xs)"

fun get_all :: "('h \<Rightarrow> ('e \<times> 'h) res) \<Rightarrow> 'h \<Rightarrow> nat \<Rightarrow> ('e list \<times> 'h) res" where
  "get_all get h 0 = Inr ([], h)"
| "get_all get h (Suc n) =
     rbind (get h) (\<lambda>(x, h'). rbind (get_all get h' n) (\<lambda>(xs, h''). Inr (x # xs, h'')))"

fun room_all :: "('e list \<Rightarrow> 'e \<Rightarrow> bool) \<Rightarrow> 'e list \<Rightarrow> 'e list \<Rightarrow> bool" where
  "room_all room xs [] \<longleftrightarrow> True"
| "room_all room xs (y # ys) \<longleftrightarrow> room xs y \<and> room_all room (xs @ [y]) ys"

locale fifo =
  fixes rep :: "'h \<Rightarrow> 'e list \<Rightarrow> bool"
    and room :: "'e list \<Rightarrow> 'e \<Rightarrow> bool"
    and put :: "'h \<Rightarrow> 'e \<Rightarrow> 'h res"
    and get :: "'h \<Rightarrow> ('e \<times> 'h) res"
  assumes put_law: "rep h xs \<Longrightarrow> room xs x \<Longrightarrow> \<exists>h'. put h x = Inr h' \<and> rep h' (xs @ [x])"
    and get_law: "rep h (x # xs) \<Longrightarrow> \<exists>h'. get h = Inr (x, h') \<and> rep h' xs"
begin

lemma put_all_rep:
  "rep h xs \<Longrightarrow> room_all room xs ys \<Longrightarrow> \<exists>h'. put_all put h ys = Inr h' \<and> rep h' (xs @ ys)"
proof (induction ys arbitrary: h xs)
  case (Cons y ys)
  then obtain h1 where "put h y = Inr h1" "rep h1 (xs @ [y])"
    using put_law [of h xs y] by auto
  with Cons.IH [of h1 "xs @ [y]"] Cons.prems show ?case by auto
qed simp

lemma get_all_rep:
  "rep h (xs @ ys) \<Longrightarrow> \<exists>h'. get_all get h (length xs) = Inr (xs, h') \<and> rep h' ys"
proof (induction xs arbitrary: h)
  case (Cons x xs)
  then obtain h1 where "get h = Inr (x, h1)" "rep h1 (xs @ ys)"
    using get_law [of h x "xs @ ys"] by auto
  with Cons.IH [of h1] show ?case by auto
qed simp

lemma first_in_first_out:
  assumes "rep h xs" and "room_all room xs ys"
  shows "\<exists>h1 h2. put_all put h ys = Inr h1 \<and>
           get_all get h1 (length xs + length ys) = Inr (xs @ ys, h2) \<and> rep h2 []"
proof -
  from put_all_rep [OF assms] obtain h1 where h1: "put_all put h ys = Inr h1" "rep h1 (xs @ ys)"
    by blast
  with get_all_rep [of h1 "xs @ ys" "[]"] show ?thesis by auto
qed

end

end
