(* ===== verification/Klist.thy ===== *)
theory Klist
  imports Interrupt Fifo
begin

text \<open>
  The intrusive doubly linked lists of \<open>lib/kernel/list.c\<close>: ready queue, wait queues, open
  inodes, free memory blocks and partitions are all such lists.

  A \<open>struct list_elem\<close> is known by its address; \<open>nxt\<close> and \<open>prv\<close> are its two fields as
  maps from addresses.  A \<open>struct list\<close> at address \<open>l\<close> has its \<open>head\<close> element at
  \<open>l\<close> and its \<open>tail\<close> element 8 bytes further on.  \<open>list_rep h l xs\<close> says that the
  list at \<open>l\<close> holds the elements \<open>xs\<close> in this order; the lemmas show that the pointer
  operations are the list operations on \<open>xs\<close>, leave every other list alone, and that the
  traversal loops end.
\<close>

section \<open>The operations\<close>

record lheap = cpu +
  nxt :: "u32 \<Rightarrow> u32"
  prv :: "u32 \<Rightarrow> u32"

abbreviation NULL :: u32 where
  "NULL \<equiv> 0"

definition TAIL :: "u32 \<Rightarrow> u32" where
  "TAIL l = l + 8"

definition set_nxt :: "'a lheap_scheme \<Rightarrow> u32 \<Rightarrow> u32 \<Rightarrow> 'a lheap_scheme" where
  "set_nxt h e v = h\<lparr>nxt := (nxt h)(e := v)\<rparr>"

definition set_prv :: "'a lheap_scheme \<Rightarrow> u32 \<Rightarrow> u32 \<Rightarrow> 'a lheap_scheme" where
  "set_prv h e v = h\<lparr>prv := (prv h)(e := v)\<rparr>"

definition list_init :: "'a lheap_scheme \<Rightarrow> u32 \<Rightarrow> 'a lheap_scheme" where
  "list_init h l =
     (let h = set_prv h l NULL;
          h = set_nxt h l (TAIL l);
          h = set_prv h (TAIL l) l
      in set_nxt h (TAIL l) NULL)"

definition list_insert_before :: "'a lheap_scheme \<Rightarrow> u32 \<Rightarrow> u32 \<Rightarrow> 'a lheap_scheme" where
  "list_insert_before h before elem =
     (let (old_status, h) = intr_disable h;
          h = set_nxt h elem before;
          h = set_prv h elem (prv h before);
          h = set_nxt h (prv h before) elem;
          h = set_prv h before elem
      in snd (intr_set_status h old_status))"

definition list_push :: "'a lheap_scheme \<Rightarrow> u32 \<Rightarrow> u32 \<Rightarrow> 'a lheap_scheme" where
  "list_push h plist elem = list_insert_before h (nxt h plist) elem"

definition list_append :: "'a lheap_scheme \<Rightarrow> u32 \<Rightarrow> u32 \<Rightarrow> 'a lheap_scheme" where
  "list_append h plist elem = list_insert_before h (TAIL plist) elem"

definition list_remove :: "'a lheap_scheme \<Rightarrow> u32 \<Rightarrow> 'a lheap_scheme" where
  "list_remove h pelem =
     (let (old_status, h) = intr_disable h;
          h = set_nxt h (prv h pelem) (nxt h pelem);
          h = set_prv h (nxt h pelem) (prv h pelem)
      in snd (intr_set_status h old_status))"

definition list_pop :: "'a lheap_scheme \<Rightarrow> u32 \<Rightarrow> (u32 \<times> 'a lheap_scheme) res" where
  "list_pop h plist =
     (if \<not> nxt h plist \<noteq> TAIL plist then Inl Panic
      else Inr (nxt h plist, list_remove h (nxt h plist)))"

definition list_empty :: "'a lheap_scheme \<Rightarrow> u32 \<Rightarrow> bool" where
  "list_empty h plist \<longleftrightarrow> nxt h plist = TAIL plist"

text \<open>The loops follow \<open>next\<close> until the tail; \<open>None\<close> is a loop that never gets there.\<close>

partial_function (option) list_len_loop :: "(u32 \<Rightarrow> u32) \<Rightarrow> u32 \<Rightarrow> u32 \<Rightarrow> u32 \<Rightarrow> u32 option" where
  "list_len_loop n tail elem ret =
     (if elem \<noteq> tail then list_len_loop n tail (n elem) (ret + 1) else Some ret)"

partial_function (option) elem_find_loop :: "(u32 \<Rightarrow> u32) \<Rightarrow> u32 \<Rightarrow> u32 \<Rightarrow> u32 \<Rightarrow> bool option" where
  "elem_find_loop n tail ptr obj_elem =
     (if ptr \<noteq> tail then if ptr = obj_elem then Some True else elem_find_loop n tail (n ptr) obj_elem
      else Some False)"

text \<open>The callback of \<open>list_traversal\<close> may change its own state \<open>s\<close>; it does not relink the list.\<close>

partial_function (option) traversal_loop ::
  "(u32 \<Rightarrow> u32) \<Rightarrow> u32 \<Rightarrow> ('s \<Rightarrow> u32 \<Rightarrow> i32 \<Rightarrow> bool \<times> 's) \<Rightarrow> u32 \<Rightarrow> i32 \<Rightarrow> 's \<Rightarrow> (u32 \<times> 's) option" where
  "traversal_loop n tail func elem arg s =
     (if elem \<noteq> tail then
        let (stop, s') = func s elem arg
        in if stop then Some (elem, s') else traversal_loop n tail func (n elem) arg s'
      else Some (NULL, s))"

definition or_hang :: "'a option \<Rightarrow> 'a res" where
  "or_hang r = (case r of None \<Rightarrow> Inl Hang | Some x \<Rightarrow> Inr x)"

definition list_len :: "'a lheap_scheme \<Rightarrow> u32 \<Rightarrow> u32 res" where
  "list_len h plist = or_hang (list_len_loop (nxt h) (TAIL plist) (nxt h plist) 0)"

definition list_traversal ::
  "'a lheap_scheme \<Rightarrow> u32 \<Rightarrow> ('s \<Rightarrow> u32 \<Rightarrow> i32 \<Rightarrow> bool \<times> 's) \<Rightarrow> i32 \<Rightarrow> 's \<Rightarrow> (u32 \<times> 's) res" where
  "list_traversal h plist func arg s =
     (if list_empty h plist then Inr (NULL, s)
      else or_hang (traversal_loop (nxt h) (TAIL plist) func (nxt h plist) arg s))"

definition elem_find :: "'a lheap_scheme \<Rightarrow> u32 \<Rightarrow> u32 \<Rightarrow> bool res" where
  "elem_find h plist obj_elem = or_hang (elem_find_loop (nxt h) (TAIL plist) (nxt h plist) obj_elem)"

section \<open>Lists in the heap\<close>

fun dchain :: "(u32 \<Rightarrow> u32) \<Rightarrow> (u32 \<Rightarrow> u32) \<Rightarrow> u32 list \<Rightarrow> bool" where
  "dchain n p [] \<longleftrightarrow> True"
| "dchain n p [x] \<longleftrightarrow> True"
| "dchain n p (x # y # zs) \<longleftrightarrow> n x = y \<and> p y = x \<and> dchain n p (y # zs)"

definition list_rep :: "'a lheap_scheme \<Rightarrow> u32 \<Rightarrow> u32 list \<Rightarrow> bool" where
  "list_rep h l xs \<longleftrightarrow> distinct (l # xs @ [TAIL l]) \<and> dchain (nxt h) (prv h) (l # xs @ [TAIL l])"

definition list_cells :: "u32 \<Rightarrow> u32 list \<Rightarrow> u32 set" where
  "list_cells l xs = insert l (insert (TAIL l) (set xs))"

lemma TAIL_neq [simp]: "TAIL l \<noteq> l" "l \<noteq> TAIL l"
  by (simp_all add: TAIL_def)

lemma dchain_append:
  "dchain n p (xs @ a # ys) \<longleftrightarrow> dchain n p (xs @ [a]) \<and> dchain n p (a # ys)"
proof (induction xs)
  case (Cons x xs)
  then show ?case by (cases xs) auto
qed simp

lemma dchain_cong:
  "(\<And>x. x \<in> set (butlast es) \<Longrightarrow> n x = n' x) \<Longrightarrow> (\<And>x. x \<in> set (tl es) \<Longrightarrow> p x = p' x) \<Longrightarrow>
    dchain n p es \<longleftrightarrow> dchain n' p' es"
  by (induction es rule: induct_list012) auto

lemma dchain_frame:
  "(\<And>x. x \<in> set es \<Longrightarrow> n x = n' x \<and> p x = p' x) \<Longrightarrow> dchain n p es \<longleftrightarrow> dchain n' p' es"
  by (cases es) (auto intro!: dchain_cong dest: in_set_butlastD split: if_splits)

text \<open>The links of a heap are all the operations change.\<close>

named_theorems klist "links and frames of the list operations"

lemma links_simps [klist]:
  "nxt (set_nxt h e v) = (nxt h)(e := v)" "prv (set_nxt h e v) = prv h"
  "nxt (set_prv h e v) = nxt h" "prv (set_prv h e v) = (prv h)(e := v)"
  "eflags (set_nxt h e v) = eflags h" "eflags (set_prv h e v) = eflags h"
  "lheap.more (set_nxt h e v) = lheap.more h" "lheap.more (set_prv h e v) = lheap.more h"
  by (simp_all add: set_nxt_def set_prv_def)

lemma links_intr [klist]:
  "nxt (snd (intr_disable h)) = nxt h" "prv (snd (intr_disable h)) = prv h"
  "nxt (snd (intr_set_status h w)) = nxt h" "prv (snd (intr_set_status h w)) = prv h"
  "lheap.more (snd (intr_disable h)) = lheap.more h"
  "lheap.more (snd (intr_set_status h w)) = lheap.more h"
  by (simp_all add: intr_disable_def intr_set_status_def intr_enable_def sti_def cli_def)

lemma insert_before_links [klist]:
  "nxt (list_insert_before h b e) = (nxt h)(e := b, ((prv h)(e := prv h b)) b := e)"
  "prv (list_insert_before h b e) = (prv h)(e := prv h b, b := e)"
  by (simp_all add: list_insert_before_def Let_def case_prod_beta klist)

lemma remove_links [klist]:
  "nxt (list_remove h e) = (nxt h)(prv h e := nxt h e)"
  "prv (list_remove h e) = (prv h)(((nxt h)(prv h e := nxt h e)) e := prv h e)"
  by (simp_all add: list_remove_def Let_def case_prod_beta klist)

text \<open>Interrupts are off while the links are inconsistent, and back in their old state after.\<close>

lemma insert_before_frame [klist]:
  "eflags (list_insert_before h b e) = eflags h"
  "lheap.more (list_insert_before h b e) = lheap.more h"
  unfolding list_insert_before_def Let_def case_prod_beta
  by (subst disable_restore_eflags(1); simp add: klist) (simp add: klist)

lemma remove_frame [klist]:
  "eflags (list_remove h e) = eflags h"
  "lheap.more (list_remove h e) = lheap.more h"
  unfolding list_remove_def Let_def case_prod_beta
  by (subst disable_restore_eflags(1); simp add: klist) (simp add: klist)

lemma insert_between:
  assumes "dchain n p (us @ q # b # vs)" and "distinct (us @ q # b # vs)"
    and "e \<notin> set (us @ q # b # vs)"
  shows "dchain (n(e := b, q := e)) (p(e := q, b := e)) (us @ q # e # b # vs)"
proof -
  let ?n = "n(e := b, q := e)" and ?p = "p(e := q, b := e)"
  have "dchain n p (us @ [q])" and "dchain n p (b # vs)"
    using assms(1) dchain_append [of n p us q "b # vs"] by auto
  moreover have "dchain ?n ?p (us @ [q]) \<longleftrightarrow> dchain n p (us @ [q])"
    using assms(2,3) by (intro dchain_cong) (auto simp: butlast_append tl_append split: list.splits)
  moreover have "dchain ?n ?p (b # vs) \<longleftrightarrow> dchain n p (b # vs)"
    using assms(2,3) by (intro dchain_cong) (auto dest: in_set_butlastD split: if_splits)
  ultimately show ?thesis
    using assms(2,3) dchain_append [of ?n ?p us q "e # b # vs"] by auto
qed

lemma remove_between:
  assumes "dchain n p (us @ q # e # b # vs)" and "distinct (us @ q # e # b # vs)"
  shows "dchain (n(q := b)) (p(b := q)) (us @ q # b # vs)"
proof -
  let ?n = "n(q := b)" and ?p = "p(b := q)"
  have "dchain n p (us @ [q])" and "dchain n p (b # vs)"
    using assms(1) dchain_append [of n p us q "e # b # vs"] by auto
  moreover have "dchain ?n ?p (us @ [q]) \<longleftrightarrow> dchain n p (us @ [q])"
    using assms(2) by (intro dchain_cong) (auto simp: butlast_append tl_append split: list.splits)
  moreover have "dchain ?n ?p (b # vs) \<longleftrightarrow> dchain n p (b # vs)"
    using assms(2) by (intro dchain_cong) (auto dest: in_set_butlastD split: if_splits)
  ultimately show ?thesis
    using dchain_append [of ?n ?p us q "b # vs"] by auto
qed

lemma dchain_prev: "dchain n p (us @ q # b # vs) \<Longrightarrow> p b = q \<and> n q = b"
  by (subst (asm) dchain_append) simp

text \<open>\<open>list_insert_before\<close>, at any element or at the tail.\<close>

lemma insert_before_rep:
  assumes "list_rep h l xs" and "xs @ [TAIL l] = ys @ b # zs" and "e \<notin> list_cells l xs"
  shows "dchain (nxt (list_insert_before h b e)) (prv (list_insert_before h b e)) (l # ys @ e # b # zs)"
    and "distinct (l # ys @ e # b # zs)"
proof -
  have es: "l # xs @ [TAIL l] = (l # ys) @ b # zs" using assms(2) by simp
  have dist: "distinct ((l # ys) @ b # zs)" and ch: "dchain (nxt h) (prv h) ((l # ys) @ b # zs)"
    using assms(1) unfolding list_rep_def es by auto
  have new: "e \<notin> set ((l # ys) @ b # zs)"
    using assms(3) arg_cong [OF es, of set] by (auto simp: list_cells_def)
  show "distinct (l # ys @ e # b # zs)" using dist new by auto
  obtain us q where usq: "l # ys = us @ [q]" by (metis append_butlast_last_id list.discI)
  have ch': "dchain (nxt h) (prv h) (us @ q # b # zs)" using ch unfolding usq by simp
  have dist': "distinct (us @ q # b # zs)" using dist unfolding usq by simp
  have new': "e \<notin> set (us @ q # b # zs)" using new unfolding usq by simp
  from dchain_prev [OF ch'] have pb: "prv h b = q" ..
  have "dchain ((nxt h)(e := b, q := e)) ((prv h)(e := q, b := e)) (us @ q # e # b # zs)"
    by (rule insert_between [OF ch' dist' new'])
  moreover have "e \<noteq> b" using new by auto
  moreover have "(l # ys) @ e # b # zs = us @ q # e # b # zs" unfolding usq by simp
  then have "us @ q # e # b # zs = l # ys @ e # b # zs" by simp
  ultimately show "dchain (nxt (list_insert_before h b e)) (prv (list_insert_before h b e)) (l # ys @ e # b # zs)"
    by (simp add: klist pb)
qed

lemma list_rep_head: "list_rep h l xs \<Longrightarrow> nxt h l = hd (xs @ [TAIL l])"
  by (cases xs) (auto simp: list_rep_def)

lemma list_append_rep:
  assumes "list_rep h l xs" and "e \<notin> list_cells l xs"
  shows "list_rep (list_append h l e) l (xs @ [e])"
  using insert_before_rep [OF assms(1) _ assms(2), of xs "TAIL l" "[]"]
  by (simp add: list_rep_def list_append_def)

lemma list_push_rep:
  assumes "list_rep h l xs" and "e \<notin> list_cells l xs"
  shows "list_rep (list_push h l e) l (e # xs)"
proof (cases xs)
  case Nil
  with insert_before_rep [OF assms(1) _ assms(2), of "[]" "TAIL l" "[]"] list_rep_head [OF assms(1)]
  show ?thesis by (simp add: list_rep_def list_push_def)
next
  case (Cons x xs')
  with insert_before_rep [OF assms(1) _ assms(2), of "[]" x "xs' @ [TAIL l]"] list_rep_head [OF assms(1)]
  show ?thesis by (simp add: list_rep_def list_push_def)
qed

lemma list_remove_rep:
  assumes "list_rep h l (ys @ e # zs)"
  shows "list_rep (list_remove h e) l (ys @ zs)"
    and "prv h e \<in> insert l (set ys)" and "nxt h e \<in> insert (TAIL l) (set zs)"
proof -
  obtain us q where usq: "l # ys = us @ [q]" by (metis append_butlast_last_id list.discI)
  obtain b vs where bvs: "zs @ [TAIL l] = b # vs" by (cases "zs @ [TAIL l]") auto
  have "l # (ys @ e # zs) @ [TAIL l] = (l # ys) @ e # (zs @ [TAIL l])" by simp
  then have es: "l # (ys @ e # zs) @ [TAIL l] = us @ q # e # b # vs"
    unfolding usq bvs by simp
  have "l # (ys @ zs) @ [TAIL l] = (l # ys) @ (zs @ [TAIL l])" by simp
  then have es': "l # (ys @ zs) @ [TAIL l] = us @ q # b # vs"
    unfolding usq bvs by simp
  have dist: "distinct (us @ q # e # b # vs)" and ch: "dchain (nxt h) (prv h) (us @ q # e # b # vs)"
    using assms unfolding list_rep_def es by auto
  have pe: "prv h e = q" using dchain_prev [OF ch] by simp
  have ne: "nxt h e = b" using dchain_prev [of "nxt h" "prv h" "us @ [q]" e b vs] ch by simp
  have "q \<noteq> e" using dist by auto
  then have "dchain (nxt (list_remove h e)) (prv (list_remove h e)) (us @ q # b # vs)"
    using remove_between [OF ch dist] by (simp add: klist pe ne)
  moreover have "distinct (us @ q # b # vs)" using dist by auto
  ultimately show "list_rep (list_remove h e) l (ys @ zs)" by (simp only: list_rep_def es')
  show "prv h e \<in> insert l (set ys)" using pe arg_cong [OF usq, of set] by auto
  show "nxt h e \<in> insert (TAIL l) (set zs)" using ne arg_cong [OF bvs, of set] by auto
qed

text \<open>A list whose cells no operation touches stays as it is.\<close>

lemma list_rep_frame:
  assumes "list_rep h l xs" and "\<And>x. x \<in> list_cells l xs \<Longrightarrow> nxt h' x = nxt h x \<and> prv h' x = prv h x"
  shows "list_rep h' l xs"
proof -
  have "dchain (nxt h) (prv h) (l # xs @ [TAIL l]) \<longleftrightarrow> dchain (nxt h') (prv h') (l # xs @ [TAIL l])"
    using assms(2) by (intro dchain_frame) (auto simp: list_cells_def)
  with assms(1) show ?thesis by (simp add: list_rep_def)
qed

lemma list_rep_prev_mem:
  assumes "list_rep h l xs" and "xs @ [TAIL l] = ys @ b # zs"
  shows "prv h b \<in> list_cells l xs"
proof -
  obtain us q where usq: "l # ys = us @ [q]" by (metis append_butlast_last_id list.discI)
  have "l # xs @ [TAIL l] = us @ q # b # zs" using assms(2) usq by simp
  with assms(1) have "dchain (nxt h) (prv h) (us @ q # b # zs)" by (simp add: list_rep_def)
  then have "prv h b = q" by (simp add: dchain_prev)
  moreover have "q \<in> set (l # xs @ [TAIL l])"
    using \<open>l # xs @ [TAIL l] = us @ q # b # zs\<close> by simp
  ultimately show ?thesis by (auto simp: list_cells_def)
qed

lemma insert_before_other:
  assumes "list_rep h l xs" and "xs @ [TAIL l] = ys @ b # zs"
    and "list_rep h m ws" and "list_cells m ws \<inter> list_cells l (e # xs) = {}"
  shows "list_rep (list_insert_before h b e) m ws"
proof (rule list_rep_frame [OF assms(3)])
  fix x
  assume "x \<in> list_cells m ws"
  then have "x \<noteq> e" "x \<notin> list_cells l xs" using assms(4) by (auto simp: list_cells_def)
  moreover have "b \<in> list_cells l xs"
    using arg_cong [OF assms(2), of set] by (auto simp: list_cells_def)
  moreover note list_rep_prev_mem [OF assms(1,2)]
  ultimately show "nxt (list_insert_before h b e) x = nxt h x \<and> prv (list_insert_before h b e) x = prv h x"
    by (auto simp: klist)
qed

lemma list_append_other:
  assumes "list_rep h l xs" and "list_rep h m ws" and "list_cells m ws \<inter> list_cells l (e # xs) = {}"
  shows "list_rep (list_append h l e) m ws"
  unfolding list_append_def using assms by (intro insert_before_other [of h l xs xs _ "[]"]) auto

lemma list_push_other:
  assumes "list_rep h l xs" and "list_rep h m ws" and "list_cells m ws \<inter> list_cells l (e # xs) = {}"
  shows "list_rep (list_push h l e) m ws"
proof -
  have "xs @ [TAIL l] = [] @ nxt h l # tl (xs @ [TAIL l])"
    using list_rep_head [OF assms(1)] by (cases xs) auto
  then show ?thesis
    unfolding list_push_def using assms by (intro insert_before_other [of h l xs "[]"]) auto
qed

lemma list_remove_other:
  assumes "list_rep h l (ys @ e # zs)" and "list_rep h m ws"
    and "list_cells m ws \<inter> list_cells l (ys @ e # zs) = {}"
  shows "list_rep (list_remove h e) m ws"
proof (rule list_rep_frame [OF assms(2)])
  fix x
  assume "x \<in> list_cells m ws"
  moreover have "prv h e \<in> list_cells l (ys @ e # zs)" "nxt h e \<in> list_cells l (ys @ e # zs)"
    using list_remove_rep(2,3) [OF assms(1)] by (auto simp: list_cells_def)
  moreover have "prv h e \<noteq> e"
    using assms(1) list_remove_rep(2) [OF assms(1)] by (auto simp: list_rep_def)
  ultimately show "nxt (list_remove h e) x = nxt h x \<and> prv (list_remove h e) x = prv h x"
    using assms(3) by (auto simp: klist)
qed

section \<open>Popping and testing for emptiness\<close>

lemma list_init_rep: "list_rep (list_init h l) l []"
  by (simp add: list_rep_def list_init_def Let_def klist)

lemma list_init_other:
  "list_rep h m ws \<Longrightarrow> list_cells m ws \<inter> list_cells l [] = {} \<Longrightarrow> list_rep (list_init h l) m ws"
  by (erule list_rep_frame) (auto simp: list_init_def Let_def klist list_cells_def)

lemma list_empty_iff: "list_rep h l xs \<Longrightarrow> list_empty h l \<longleftrightarrow> xs = []"
  by (cases xs) (auto simp: list_empty_def list_rep_head list_rep_def)

lemma list_pop_rep:
  "list_rep h l (x # xs) \<Longrightarrow> list_pop h l = Inr (x, list_remove h x) \<and> list_rep (list_remove h x) l xs"
  using list_remove_rep(1) [of h l "[]" x xs] list_rep_head [of h l "x # xs"]
  by (auto simp: list_pop_def list_rep_def)

lemma list_pop_empty: "list_rep h l [] \<Longrightarrow> list_pop h l = Inl Panic"
  using list_rep_head [of h l "[]"] by (simp add: list_pop_def)

section \<open>The loops end\<close>

lemma list_len_loop_eq:
  "dchain n p (zs @ [t]) \<Longrightarrow> t \<notin> set zs \<Longrightarrow>
    list_len_loop n t (hd (zs @ [t])) r = Some (r + of_nat (length zs))"
proof (induction zs arbitrary: r)
  case Nil
  then show ?case by (simp add: list_len_loop.simps)
next
  case (Cons z zs)
  then have "n z = hd (zs @ [t])" "dchain n p (zs @ [t])" by (cases zs; simp)+
  moreover from Cons.prems have "z \<noteq> t" by auto
  ultimately show ?case
    using Cons by (simp add: list_len_loop.simps [of n t z] algebra_simps)
qed

lemma elem_find_loop_eq:
  "dchain n p (zs @ [t]) \<Longrightarrow> t \<notin> set zs \<Longrightarrow>
    elem_find_loop n t (hd (zs @ [t])) e = Some (e \<in> set zs)"
proof (induction zs)
  case Nil
  then show ?case by (simp add: elem_find_loop.simps)
next
  case (Cons z zs)
  then have "n z = hd (zs @ [t])" "dchain n p (zs @ [t])" by (cases zs; simp)+
  with Cons show ?case by (auto simp add: elem_find_loop.simps [of n t z])
qed

fun trav :: "('s \<Rightarrow> u32 \<Rightarrow> i32 \<Rightarrow> bool \<times> 's) \<Rightarrow> i32 \<Rightarrow> u32 list \<Rightarrow> 's \<Rightarrow> u32 \<times> 's" where
  "trav func arg [] s = (NULL, s)"
| "trav func arg (z # zs) s =
     (let (stop, s') = func s z arg in if stop then (z, s') else trav func arg zs s')"

lemma traversal_loop_eq:
  "dchain n p (zs @ [t]) \<Longrightarrow> t \<notin> set zs \<Longrightarrow>
    traversal_loop n t func (hd (zs @ [t])) arg s = Some (trav func arg zs s)"
proof (induction zs arbitrary: s)
  case Nil
  then show ?case by (simp add: traversal_loop.simps)
next
  case (Cons z zs)
  then have "n z = hd (zs @ [t])" "dchain n p (zs @ [t])" by (cases zs; simp)+
  moreover from Cons.prems have "z \<noteq> t" by auto
  ultimately show ?case
    using Cons by (simp add: traversal_loop.simps [of n t func z] Let_def case_prod_beta)
qed

lemma list_rep_chain:
  assumes "list_rep h l xs"
  shows "dchain (nxt h) (prv h) (xs @ [TAIL l])" and "TAIL l \<notin> set xs"
  using assms by (cases xs; auto simp: list_rep_def)+

lemma elem_find_rep: "list_rep h l xs \<Longrightarrow> elem_find h l e = Inr (e \<in> set xs)"
  using list_rep_chain [of h l xs]
  by (simp add: elem_find_def or_hang_def list_rep_head elem_find_loop_eq)

section \<open>The contract\<close>

text \<open>
  C37: insertion.  On a list that holds \<open>xs\<close>, with an element that is in no way part of it,
  \<open>list_append\<close> gives the list \<open>xs @ [e]\<close> and \<open>list_push\<close> the list \<open>e # xs\<close>; a list that
  shares no element with it is unchanged, and so is the interrupt flag, although both run with
  interrupts off.
\<close>

theorem list_insert_refines:
  assumes "list_rep h l xs" and "e \<notin> list_cells l xs"
    and "list_rep h m ws" and "list_cells m ws \<inter> list_cells l (e # xs) = {}"
  shows "list_rep (list_append h l e) l (xs @ [e]) \<and> list_rep (list_push h l e) l (e # xs) \<and>
         list_rep (list_append h l e) m ws \<and> list_rep (list_push h l e) m ws \<and>
         eflags (list_append h l e) = eflags h \<and> eflags (list_push h l e) = eflags h"
  using list_append_rep [OF assms(1,2)] list_push_rep [OF assms(1,2)]
    list_append_other [OF assms(1,3,4)] list_push_other [OF assms(1,3,4)]
  by (simp add: list_append_def list_push_def klist)

definition two_lists :: lheap where
  "two_lists = list_append (list_init (list_init \<lparr>eflags = 0x202, nxt = \<lambda>_. 0, prv = \<lambda>_. 0\<rparr> 100) 200) 100 16"

lemma two_lists_rep: "list_rep two_lists 100 [16]" "list_rep two_lists 200 []"
proof -
  define h where "h = list_init (list_init (\<lparr>eflags = 0x202, nxt = \<lambda>_. 0, prv = \<lambda>_. 0\<rparr> :: lheap) 100) 200"
  have r1: "list_rep h 100 []"
    unfolding h_def by (rule list_init_other) (simp_all add: list_init_rep list_cells_def TAIL_def)
  have r2: "list_rep h 200 []"
    unfolding h_def by (rule list_init_rep)
  have t: "two_lists = list_append h 100 16" by (simp add: two_lists_def h_def)
  show "list_rep two_lists 100 [16]"
    using list_append_rep [OF r1, of 16] by (simp add: t list_cells_def TAIL_def)
  show "list_rep two_lists 200 []"
    unfolding t by (rule list_append_other [OF r1 r2]) (simp add: list_cells_def TAIL_def)
qed

theorem list_insert_refines_witness:
  "list_rep (list_append two_lists 100 32) 100 [16, 32] \<and>
   list_rep (list_push two_lists 100 32) 100 [32, 16] \<and> list_rep (list_push two_lists 100 32) 200 []"
  using list_insert_refines [OF two_lists_rep(1) _ two_lists_rep(2), of 32]
  by (simp add: list_cells_def TAIL_def)

text \<open>
  C36: removal.  \<open>list_remove\<close> takes exactly the given element out of the list that holds it,
  wherever it stands; \<open>list_pop\<close> takes out and returns the first one and panics on an empty list,
  which \<open>list_empty\<close> recognises.  After either of them every disjoint list, the interrupt flag
  and everything behind the links in the state is as it was, although both run with interrupts
  off.
\<close>

theorem list_remove_refines:
  assumes "list_rep h l (ys @ e # zs)"
    and "list_rep h m ws" and "list_cells m ws \<inter> list_cells l (ys @ e # zs) = {}"
  shows "list_rep (list_remove h e) l (ys @ zs) \<and> list_rep (list_remove h e) m ws \<and>
         eflags (list_remove h e) = eflags h \<and> lheap.more (list_remove h e) = lheap.more h \<and>
         (\<exists>x h'. list_pop h l = Inr (x, h') \<and> x = hd (ys @ [e]) \<and> list_rep h' l (tl (ys @ e # zs)) \<and>
            list_rep h' m ws \<and> eflags h' = eflags h \<and> lheap.more h' = lheap.more h) \<and>
         (list_empty h m \<longleftrightarrow> ws = []) \<and> (ws = [] \<longrightarrow> list_pop h m = Inl Panic)"
proof -
  obtain x xs where xs: "ys @ e # zs = x # xs" "x = hd (ys @ [e])" by (cases ys) auto
  have "list_rep (list_remove h x) m ws"
    using assms list_remove_other [of h l "[]" x xs m ws] by (simp add: xs(1))
  then have "\<exists>x h'. list_pop h l = Inr (x, h') \<and> x = hd (ys @ [e]) \<and> list_rep h' l (tl (ys @ e # zs)) \<and>
      list_rep h' m ws \<and> eflags h' = eflags h \<and> lheap.more h' = lheap.more h"
    using assms(1) list_pop_rep [of h l x xs] by (simp add: xs remove_frame)
  then show ?thesis
    using assms by (auto simp: list_remove_rep list_remove_other remove_frame list_empty_iff list_pop_empty)
qed

theorem list_remove_refines_witness:
  "list_rep (list_remove two_lists 16) 100 [] \<and> list_pop two_lists 200 = Inl Panic \<and>
   (\<exists>h'. list_pop two_lists 100 = Inr (16, h') \<and> list_rep h' 200 [])"
  using list_remove_refines [of two_lists 100 "[]" 16 "[]" 200 "[]"] two_lists_rep
  by (auto simp: list_cells_def TAIL_def)

text \<open>
  C38: the loops.  On a well-formed list \<open>list_len\<close>, \<open>elem_find\<close> and \<open>list_traversal\<close>
  return: the number of elements, whether the element is in the list, and the element the callback
  first stops at (\<open>NULL\<close> if none) together with the callback's effects in list order.
\<close>

theorem list_loops_return:
  assumes "list_rep h l xs"
  shows "list_len h l = Inr (of_nat (length xs)) \<and>
         elem_find h l e = Inr (e \<in> set xs) \<and>
         list_traversal h l func arg s = Inr (trav func arg xs s)"
proof -
  have "list_traversal h l func arg s = Inr (trav func arg xs s)"
    using traversal_loop_eq [OF list_rep_chain [OF assms], of func arg s]
      list_empty_iff [OF assms] list_rep_head [OF assms]
    by (cases "xs = []") (simp_all add: list_traversal_def or_hang_def)
  then show ?thesis
    using list_rep_chain [OF assms] list_rep_head [OF assms] elem_find_rep [OF assms]
    by (simp add: list_len_def or_hang_def list_len_loop_eq)
qed

theorem list_loops_return_witness:
  "list_len two_lists 100 = Inr 1 \<and> elem_find two_lists 100 16 = Inr True \<and>
   list_traversal two_lists 100 (\<lambda>s e a. (e = a, Suc s)) 16 0 = Inr (16, 1)"
  using list_loops_return [OF two_lists_rep(1), of 16 "\<lambda>s e a. (e = a, Suc s)" 16 0] by simp

text \<open>The list as a queue: \<open>list_append\<close> and \<open>list_pop\<close> provide the contract of \<open>fifo\<close>.\<close>

interpretation kqueue: fifo
  "\<lambda>h xs. list_rep (h :: lheap) l xs" "\<lambda>xs x. x \<notin> list_cells l xs"
  "\<lambda>h x. Inr (list_append h l x)" "\<lambda>h. list_pop h l" for l
  by unfold_locales (auto simp: list_append_rep dest: list_pop_rep)

text \<open>
  Elements appended one after another to a list leave it through \<open>list_pop\<close> in the order
  they entered, after the elements that were there before, and the list ends empty.
\<close>

theorem list_queue_order:
  assumes "list_rep (h :: lheap) l xs"
    and "room_all (\<lambda>xs x. x \<notin> list_cells l xs) xs ys"
  shows "\<exists>h1 h2. put_all (\<lambda>h x. Inr (list_append h l x)) h ys = Inr h1 \<and>
           get_all (\<lambda>h. list_pop h l) h1 (length xs + length ys) = Inr (xs @ ys, h2) \<and>
           list_rep h2 l []"
  by (rule kqueue.first_in_first_out [OF assms])

theorem list_queue_order_witness:
  "\<exists>h1 h2. put_all (\<lambda>h x. Inr (list_append h 100 x)) two_lists [32, 48] = Inr h1 \<and>
     get_all (\<lambda>h. list_pop h 100) h1 (length [16 :: u32, 32, 48]) = Inr ([16, 32, 48], h2) \<and> list_rep h2 100 []"
  using list_queue_order [OF two_lists_rep(1), of "[32, 48]"]
  by (simp add: list_cells_def TAIL_def)

section \<open>All lists of the heap together\<close>

text \<open>
  \<open>lists_rep h A\<close>: for every address \<open>l\<close> with \<open>A l = Some xs\<close> the heap has a list at
  \<open>l\<close> with the elements \<open>xs\<close>, and no two of them share an element.  An operation on one
  list is then an update of \<open>A\<close> at that list; \<open>unlinked A e\<close> says that \<open>e\<close> is in none.
\<close>

definition lists_rep :: "'a lheap_scheme \<Rightarrow> (u32 \<Rightarrow> u32 list option) \<Rightarrow> bool" where
  "lists_rep h A \<longleftrightarrow>
     (\<forall>l xs. A l = Some xs \<longrightarrow> list_rep h l xs) \<and>
     (\<forall>l m xs ys. A l = Some xs \<longrightarrow> A m = Some ys \<longrightarrow> l \<noteq> m \<longrightarrow> list_cells l xs \<inter> list_cells m ys = {})"

definition unlinked :: "(u32 \<Rightarrow> u32 list option) \<Rightarrow> u32 \<Rightarrow> bool" where
  "unlinked A e \<longleftrightarrow> (\<forall>l xs. A l = Some xs \<longrightarrow> e \<notin> list_cells l xs)"

lemma lists_repD: "lists_rep h A \<Longrightarrow> A l = Some xs \<Longrightarrow> list_rep h l xs"
  by (simp add: lists_rep_def)

lemma lists_rep_disjoint:
  "lists_rep h A \<Longrightarrow> A l = Some xs \<Longrightarrow> A m = Some ys \<Longrightarrow> l \<noteq> m \<Longrightarrow> list_cells l xs \<inter> list_cells m ys = {}"
  unfolding lists_rep_def by blast

lemma list_rep_links: "nxt h' = nxt h \<Longrightarrow> prv h' = prv h \<Longrightarrow> list_rep h' l xs \<longleftrightarrow> list_rep h l xs"
  by (simp add: list_rep_def)

lemma lists_rep_links: "nxt h' = nxt h \<Longrightarrow> prv h' = prv h \<Longrightarrow> lists_rep h' A \<longleftrightarrow> lists_rep h A"
  by (simp add: lists_rep_def list_rep_links [of h' h])

text \<open>One list changes, the others keep their elements.\<close>

lemma lists_rep_update:
  assumes "lists_rep h A" and "A l = Some xs" and "list_rep h' l xs'"
    and "\<And>m ys. m \<noteq> l \<Longrightarrow> A m = Some ys \<Longrightarrow> list_rep h' m ys \<and> list_cells m ys \<inter> list_cells l xs' = {}"
  shows "lists_rep h' (A(l \<mapsto> xs'))"
  unfolding lists_rep_def
proof (intro conjI allI impI)
  fix m ys
  assume "(A(l \<mapsto> xs')) m = Some ys"
  then show "list_rep h' m ys" using assms(3) assms(4) [of m ys] by (cases "m = l") simp_all
next
  fix m k ys zs
  assume h: "(A(l \<mapsto> xs')) m = Some ys" "(A(l \<mapsto> xs')) k = Some zs" "m \<noteq> k"
  consider "m = l" "k \<noteq> l" | "m \<noteq> l" "k = l" | "m \<noteq> l" "k \<noteq> l" using h(3) by blast
  then show "list_cells m ys \<inter> list_cells k zs = {}"
  proof cases
    case 1
    then show ?thesis using assms(4) [of k zs] h by (simp add: Int_commute)
  next
    case 2
    then show ?thesis using assms(4) [of m ys] h by simp
  next
    case 3
    then show ?thesis using lists_rep_disjoint [OF assms(1) _ _ h(3)] h by simp
  qed
qed

lemma unlinked_disjoint:
  assumes "lists_rep h A" and "A l = Some xs" and "unlinked A e" and "m \<noteq> l" and "A m = Some ys"
  shows "list_cells m ys \<inter> list_cells l (e # xs) = {}"
  using lists_rep_disjoint [OF assms(1,5,2,4)] assms(3,5) by (auto simp: unlinked_def list_cells_def)

lemma list_cells_snoc: "list_cells l (xs @ [e]) = list_cells l (e # xs)"
  by (auto simp: list_cells_def)

lemma lists_append:
  assumes "lists_rep h A" and "A l = Some xs" and "unlinked A e"
  shows "lists_rep (list_append h l e) (A(l \<mapsto> xs @ [e]))"
proof (rule lists_rep_update [OF assms(1,2)])
  have e: "e \<notin> list_cells l xs" using assms(2,3) by (simp add: unlinked_def)
  show "list_rep (list_append h l e) l (xs @ [e])"
    by (rule list_append_rep [OF lists_repD [OF assms(1,2)] e])
  fix m ys
  assume "m \<noteq> l" "A m = Some ys"
  with unlinked_disjoint [OF assms this] show
    "list_rep (list_append h l e) m ys \<and> list_cells m ys \<inter> list_cells l (xs @ [e]) = {}"
    using list_append_other [OF lists_repD [OF assms(1,2)] lists_repD [OF assms(1)]]
    by (simp add: list_cells_snoc)
qed

lemma lists_push:
  assumes "lists_rep h A" and "A l = Some xs" and "unlinked A e"
  shows "lists_rep (list_push h l e) (A(l \<mapsto> e # xs))"
proof (rule lists_rep_update [OF assms(1,2)])
  have e: "e \<notin> list_cells l xs" using assms(2,3) by (simp add: unlinked_def)
  show "list_rep (list_push h l e) l (e # xs)"
    by (rule list_push_rep [OF lists_repD [OF assms(1,2)] e])
  fix m ys
  assume "m \<noteq> l" "A m = Some ys"
  with unlinked_disjoint [OF assms this] show
    "list_rep (list_push h l e) m ys \<and> list_cells m ys \<inter> list_cells l (e # xs) = {}"
    using list_push_other [OF lists_repD [OF assms(1,2)] lists_repD [OF assms(1)]] by simp
qed

lemma lists_remove:
  assumes "lists_rep h A" and "A l = Some (ys @ e # zs)"
  shows "lists_rep (list_remove h e) (A(l \<mapsto> ys @ zs))"
proof (rule lists_rep_update [OF assms])
  show "list_rep (list_remove h e) l (ys @ zs)"
    by (rule list_remove_rep(1) [OF lists_repD [OF assms]])
  fix m ws
  assume m: "m \<noteq> l" "A m = Some ws"
  then have d: "list_cells m ws \<inter> list_cells l (ys @ e # zs) = {}"
    using lists_rep_disjoint [OF assms(1) m(2) assms(2) m(1)] by simp
  then have "list_cells m ws \<inter> list_cells l (ys @ zs) = {}" by (auto simp: list_cells_def)
  with list_remove_other [OF lists_repD [OF assms] lists_repD [OF assms(1) m(2)] d]
  show "list_rep (list_remove h e) m ws \<and> list_cells m ws \<inter> list_cells l (ys @ zs) = {}" by simp
qed

lemma lists_pop:
  assumes "lists_rep h A" and "A l = Some (x # xs)"
  shows "list_pop h l = Inr (x, list_remove h x) \<and> lists_rep (list_remove h x) (A(l \<mapsto> xs))"
  using list_pop_rep [OF lists_repD [OF assms]] lists_remove [of h A l "[]" x xs] assms by simp

lemmas lists_empty = list_empty_iff [OF lists_repD]

lemmas lists_find = elem_find_rep [OF lists_repD]

text \<open>Being in no list, after a change of one of them.\<close>

lemma unlinked_upd:
  "unlinked (A(l \<mapsto> xs)) e \<longleftrightarrow> (\<forall>m ys. m \<noteq> l \<longrightarrow> A m = Some ys \<longrightarrow> e \<notin> list_cells m ys) \<and> e \<notin> list_cells l xs"
  by (auto simp: unlinked_def)

lemma lists_rep_removed:
  assumes "lists_rep h A" and "A l = Some (ys @ e # zs)"
  shows "unlinked (A(l \<mapsto> ys @ zs)) e"
proof -
  have "e \<in> list_cells l (ys @ e # zs)" by (simp add: list_cells_def)
  then have "e \<notin> list_cells m ws" if "m \<noteq> l" "A m = Some ws" for m ws
    using lists_rep_disjoint [OF assms(1) that(2) assms(2) that(1)] by auto
  moreover have "e \<notin> list_cells l (ys @ zs)"
    using lists_repD [OF assms] by (auto simp: list_rep_def list_cells_def)
  ultimately show ?thesis by (simp add: unlinked_upd)
qed

end
