(* ===== verification/Paging.thy ===== *)
theory Paging
  imports Alloc Klist
begin

text \<open>
  Physical page pools and the page tables, from \<open>kernel/memory.c\<close>.

  The last entry of every page directory points to the directory itself, so the page tables
  appear as words at \<open>0xffc00000\<close> and above; \<open>ptw\<close> is that window: the 32-bit word at
  each address of it.  It is a plain map, so it cannot show two of its addresses becoming the same word
  of memory, which happens when two directory entries name the same frame; theory \<open>Mmu\<close> has the
  physical memory behind it and shows when the map is faithful.  A pool has the bitmap of its pages, its first physical address and its
  size; its lock is part of the lock table of theory \<open>Sync\<close>.  \<open>kernel_vaddr\<close> is the
  bitmap of kernel virtual pages.
\<close>

section \<open>State\<close>

record virtual_addr =
  vaddr_bitmap :: bitmap
  vaddr_start :: u32

record pool =
  pool_bitmap :: bitmap
  phy_addr_start :: u32
  pool_size :: u32

record vm = lheap +
  ptw :: "u32 \<Rightarrow> u32"
  kernel_pool :: pool
  user_pool :: pool
  kernel_vaddr :: virtual_addr

definition PG_SIZE :: u32 where
  "PG_SIZE = 4096"

definition PG_P_1 :: u32 where
  "PG_P_1 = 1"

definition PG_RW_W :: u32 where
  "PG_RW_W = 2"

definition PG_US_U :: u32 where
  "PG_US_U = 4"

section \<open>Page tables\<close>

definition PDE_IDX :: "u32 \<Rightarrow> u32" where
  "PDE_IDX addr = drop_bit 22 (addr AND 0xffc00000)"

definition PTE_IDX :: "u32 \<Rightarrow> u32" where
  "PTE_IDX addr = drop_bit 12 (addr AND 0x003ff000)"

definition pte_ptr :: "u32 \<Rightarrow> u32" where
  "pte_ptr vaddr = 0xffc00000 + drop_bit 10 (vaddr AND 0xffc00000) + PTE_IDX vaddr * 4"

definition pde_ptr :: "u32 \<Rightarrow> u32" where
  "pde_ptr vaddr = 0xfffff000 + PDE_IDX vaddr * 4"

definition palloc :: "pool \<Rightarrow> (u32 \<times> pool) res" where
  "palloc m_pool =
     rbind (bitmap_scan (pool_bitmap m_pool) 1)
       (\<lambda>bit_idx. if bit_idx = -1 then Inr (NULL, m_pool)
          else rbind (bitmap_set (pool_bitmap m_pool) bit_idx 1)
            (\<lambda>b. Inr (bit_idx * PG_SIZE + phy_addr_start m_pool, m_pool\<lparr>pool_bitmap := b\<rparr>)))"

text \<open>\<open>memset((void*)(pte & 0xfffff000), 0, PG_SIZE)\<close>: the words of one page table.\<close>

definition clear_table :: "(u32 \<Rightarrow> u32) \<Rightarrow> u32 \<Rightarrow> u32 \<Rightarrow> u32" where
  "clear_table m page = (\<lambda>a. if a AND 0xfffff000 = page then 0 else m a)"

definition page_table_add :: "'a vm_scheme \<Rightarrow> u32 \<Rightarrow> u32 \<Rightarrow> 'a vm_scheme res" where
  "page_table_add s vaddr page_phyaddr =
     (let pde = pde_ptr vaddr; pte = pte_ptr vaddr;
          entry = page_phyaddr OR PG_US_U OR PG_RW_W OR PG_P_1
      in if ptw s pde AND 1 \<noteq> 0 then
           if \<not> ptw s pte AND 1 = 0 then Inl Panic
           else Inr (s\<lparr>ptw := (ptw s)(pte := entry)\<rparr>)
         else
           rbind (palloc (kernel_pool s)) (\<lambda>(pde_phyaddr, kp).
             let m = (ptw s)(pde := pde_phyaddr OR PG_US_U OR PG_RW_W OR PG_P_1);
                 m = clear_table m (pte AND 0xfffff000)
             in if \<not> m pte AND 1 = 0 then Inl Panic
                else Inr (s\<lparr>kernel_pool := kp, ptw := m(pte := entry)\<rparr>)))"

definition addr_v2p :: "'a vm_scheme \<Rightarrow> u32 \<Rightarrow> u32" where
  "addr_v2p s vaddr = (ptw s (pte_ptr vaddr) AND 0xfffff000) + (vaddr AND 0x00000fff)"

definition page_table_pte_remove :: "'a vm_scheme \<Rightarrow> u32 \<Rightarrow> 'a vm_scheme" where
  "page_table_pte_remove s vaddr =
     s\<lparr>ptw := (ptw s)(pte_ptr vaddr := ptw s (pte_ptr vaddr) AND NOT PG_P_1)\<rparr>"

definition pfree :: "'a vm_scheme \<Rightarrow> u32 \<Rightarrow> 'a vm_scheme res" where
  "pfree s pg_phy_addr =
     (if pg_phy_addr \<ge> phy_addr_start (user_pool s) then
        rbind (bitmap_set (pool_bitmap (user_pool s))
                 ((pg_phy_addr - phy_addr_start (user_pool s)) div PG_SIZE) 0)
          (\<lambda>b. Inr (s\<lparr>user_pool := (user_pool s)\<lparr>pool_bitmap := b\<rparr>\<rparr>))
      else
        rbind (bitmap_set (pool_bitmap (kernel_pool s))
                 ((pg_phy_addr - phy_addr_start (kernel_pool s)) div PG_SIZE) 0)
          (\<lambda>b. Inr (s\<lparr>kernel_pool := (kernel_pool s)\<lparr>pool_bitmap := b\<rparr>\<rparr>)))"

section \<open>The addresses of the entries, bit by bit\<close>

declare bit_numeral_word_iff [simp del]

lemma high_mask: "(0xffc00000 :: u32) = push_bit 22 (mask 10)" "(0x003ff000 :: u32) = push_bit 12 (mask 10)"
  "(0xfffff000 :: u32) = push_bit 12 (mask 20)" "(0x00000fff :: u32) = mask 12"
  by (simp_all add: mask_eq_exp_minus_1)

lemma bit_high_mask:
  "bit (0xffc00000 :: u32) n \<longleftrightarrow> 22 \<le> n \<and> n < 32" "bit (0x003ff000 :: u32) n \<longleftrightarrow> 12 \<le> n \<and> n < 22"
  "bit (0xfffff000 :: u32) n \<longleftrightarrow> 12 \<le> n \<and> n < 32" "bit (0x00000fff :: u32) n \<longleftrightarrow> n < 12"
  unfolding high_mask by (auto simp: bit_simps)

lemma bit_field:
  "bit (push_bit 2 (drop_bit (Suc (Suc d)) (v AND m)) :: u32) n \<longleftrightarrow> 2 \<le> n \<and> n < 32 \<and> bit v (n + d) \<and> bit m (n + d)"
proof (cases "2 \<le> n")
  case True
  then obtain k where "n = k + 2" by (metis le_add_diff_inverse2)
  then show ?thesis by (auto simp: bit_push_bit_iff bit_drop_bit_eq bit_and_iff add_ac)
qed (simp add: bit_push_bit_iff del: push_bit_and)

lemma bit_field_down:
  "bit (drop_bit d (v AND m) :: u32) n \<longleftrightarrow> bit v (n + d) \<and> bit m (n + d)"
  by (simp only: bit_drop_bit_eq comp_def bit_and_iff add.commute [of d])

lemma bit_pde_ptr:
  "bit (pde_ptr v) n \<longleftrightarrow> n < 32 \<and> (12 \<le> n \<or> 2 \<le> n \<and> bit v (n + 20))"
proof -
  let ?i = "push_bit 2 (PDE_IDX v)"
  have i: "bit ?i k \<longleftrightarrow> 2 \<le> k \<and> k < 12 \<and> bit v (k + 20)" for k
    using bit_field [of 20 v "0xffc00000" k] by (auto simp: PDE_IDX_def bit_high_mask)
  have "0xfffff000 AND ?i = 0"
    by (rule bit_word_eqI) (auto simp: bit_and_iff i bit_high_mask)
  then have "0xfffff000 + PDE_IDX v * 4 = 0xfffff000 OR ?i"
    using disjunctive_add_eq_or [of "0xfffff000" ?i] by (simp add: push_bit_eq_mult)
  then show ?thesis by (auto simp: pde_ptr_def bit_or_iff i bit_high_mask)
qed

lemma bit_pte_ptr:
  "bit (pte_ptr v) n \<longleftrightarrow> n < 32 \<and> (22 \<le> n \<or> 2 \<le> n \<and> bit v (n + 10))"
proof -
  let ?i = "push_bit 2 (PTE_IDX v)" and ?d = "drop_bit 10 (v AND 0xffc00000)"
  have i: "bit ?i k \<longleftrightarrow> 2 \<le> k \<and> k < 12 \<and> bit v (k + 10)" for k
    using bit_field [of 10 v "0x003ff000" k] by (auto simp: PTE_IDX_def bit_high_mask)
  have d: "bit ?d k \<longleftrightarrow> 12 \<le> k \<and> k < 22 \<and> bit v (k + 10)" for k
    unfolding bit_field_down by (auto simp: bit_high_mask)
  have "0xffc00000 AND ?d = 0"
    by (rule bit_word_eqI) (auto simp: bit_and_iff d bit_high_mask)
  then have "0xffc00000 + ?d = 0xffc00000 OR ?d" by (rule disjunctive_add_eq_or)
  moreover have "(0xffc00000 OR ?d) AND ?i = 0"
    by (rule bit_word_eqI) (auto simp: bit_and_iff bit_or_iff i d bit_high_mask)
  ultimately have "pte_ptr v = (0xffc00000 OR ?d) OR ?i"
    using disjunctive_add_eq_or [of "0xffc00000 OR ?d" ?i] by (simp add: pte_ptr_def push_bit_eq_mult)
  then show ?thesis by (auto simp: bit_or_iff i d bit_high_mask simp del: drop_bit_and)
qed

text \<open>Two addresses share a page, or a page table.\<close>

definition same_page :: "u32 \<Rightarrow> u32 \<Rightarrow> bool" where
  "same_page v w \<longleftrightarrow> v AND 0xfffff000 = w AND 0xfffff000"

definition same_table :: "u32 \<Rightarrow> u32 \<Rightarrow> bool" where
  "same_table v w \<longleftrightarrow> PDE_IDX v = PDE_IDX w"

lemma same_page_bits: "same_page v w \<longleftrightarrow> (\<forall>n. 12 \<le> n \<and> n < 32 \<longrightarrow> bit v n = bit w n)"
  by (auto simp: same_page_def bit_eq_iff bit_and_iff bit_high_mask)

lemma pte_ptr_eq_iff: "pte_ptr v = pte_ptr w \<longleftrightarrow> same_page v w"
proof
  assume e: "pte_ptr v = pte_ptr w"
  have "bit v n = bit w n" if "12 \<le> n" "n < 32" for n
  proof -
    have "bit (pte_ptr v) (n - 10) = bit (pte_ptr w) (n - 10)" by (simp add: e)
    with that show ?thesis by (auto simp: bit_pte_ptr)
  qed
  then show "same_page v w" by (simp add: same_page_bits)
next
  assume "same_page v w"
  then show "pte_ptr v = pte_ptr w"
    by (intro bit_word_eqI) (auto simp: bit_pte_ptr same_page_bits)
qed

text \<open>The recursive entry: the directory entry is the table entry of the table entry's address.\<close>

lemma pde_ptr_recursive: "pde_ptr v = pte_ptr (pte_ptr v)"
  by (rule bit_word_eqI) (auto simp: bit_pde_ptr bit_pte_ptr add.commute)

lemma pde_ptr_eq_iff: "pde_ptr v = pde_ptr w \<longleftrightarrow> pte_ptr v AND 0xfffff000 = pte_ptr w AND 0xfffff000"
  by (simp add: pde_ptr_recursive pte_ptr_eq_iff same_page_def)

lemma pde_ptr_same_table: "pde_ptr v = pde_ptr w \<longleftrightarrow> same_table v w"
proof
  assume e: "pde_ptr v = pde_ptr w"
  have "bit (PDE_IDX v) n = bit (PDE_IDX w) n" for n
  proof -
    have "bit (pde_ptr v) (n + 2) = bit (pde_ptr w) (n + 2)" by (simp add: e)
    then show ?thesis by (cases "n < 10") (auto simp: PDE_IDX_def bit_field_down bit_high_mask bit_pde_ptr add.commute simp del: drop_bit_and)
  qed
  then show "same_table v w" unfolding same_table_def by (intro bit_word_eqI) blast
qed (simp add: same_table_def pde_ptr_def)

text \<open>Below the window the entries of pages and the entries of tables are different words.\<close>

lemma pte_not_pde:
  assumes "v < 0xffc00000"
  shows "pte_ptr v \<noteq> pde_ptr w"
proof
  assume e: "pte_ptr v = pde_ptr w"
  have "bit v n" if "22 \<le> n" "n < 32" for n
  proof -
    have "bit (pte_ptr v) (n - 10) = bit (pde_ptr w) (n - 10)" by (simp add: e)
    with that show ?thesis by (auto simp: bit_pte_ptr bit_pde_ptr)
  qed
  then have "v AND 0xffc00000 = 0xffc00000"
    by (intro bit_word_eqI) (auto simp: bit_and_iff bit_high_mask)
  then have "0xffc00000 \<le> v" using word_and_le2 [of v "0xffc00000"] by simp
  with assms show False by simp
qed

section \<open>Mapping a page\<close>

text \<open>\<open>mapped s v\<close>: the table of \<open>v\<close> is there and its entry is present.\<close>

definition table_present :: "'a vm_scheme \<Rightarrow> u32 \<Rightarrow> bool" where
  "table_present s v \<longleftrightarrow> ptw s (pde_ptr v) AND 1 \<noteq> 0"

definition mapped :: "'a vm_scheme \<Rightarrow> u32 \<Rightarrow> bool" where
  "mapped s v \<longleftrightarrow> table_present s v \<and> ptw s (pte_ptr v) AND 1 \<noteq> 0"

definition pool_ok :: "pool \<Rightarrow> bool" where
  "pool_ok p \<longleftrightarrow> bm_ok (pool_bitmap p)"

definition pool_used :: "pool \<Rightarrow> nat \<Rightarrow> bool" where
  "pool_used p i \<longleftrightarrow> bm_bit (pool_bitmap p) i"

definition page_of :: "pool \<Rightarrow> nat \<Rightarrow> u32" where
  "page_of p i = of_nat i * PG_SIZE + phy_addr_start p"

definition pool_upd :: "pool \<Rightarrow> nat \<Rightarrow> bool \<Rightarrow> pool \<Rightarrow> bool" where
  "pool_upd p i v p' \<longleftrightarrow>
     phy_addr_start p' = phy_addr_start p \<and> pool_size p' = pool_size p \<and>
     bm_upd (pool_bitmap p) {i} v (pool_bitmap p')"

lemma palloc_cases:
  assumes "pool_ok p"
  shows "(\<exists>i p'. palloc p = Inr (page_of p i, p') \<and> first_free (pool_bitmap p) i \<and> pool_upd p i True p') \<or>
         palloc p = Inr (NULL, p) \<and> (\<forall>i < bm_size (pool_bitmap p). pool_used p i)"
proof -
  from assms have "bm_ok (pool_bitmap p)" by (simp add: pool_ok_def)
  from scan_set_one [OF this] show ?thesis
    by (auto simp: palloc_def page_of_def pool_upd_def pool_used_def)
qed

text \<open>A pool is an allocator of page frames.\<close>

interpretation frames: bit_allocator pool_bitmap page_of NULL palloc
proof unfold_locales
  fix s :: pool and i
  assume ok: "bm_ok (pool_bitmap s)" and "first_free (pool_bitmap s) i"
  with scan_set_first show "\<exists>s'. palloc s = Inr (page_of s i, s') \<and>
      bm_upd (pool_bitmap s) {i} True (pool_bitmap s') \<and> page_of s' = page_of s"
    by (fastforce simp: palloc_def page_of_def fun_eq_iff)
next
  fix s :: pool
  assume ok: "bm_ok (pool_bitmap s)" and "free_bits (pool_bitmap s) = {}"
  then show "palloc s = Inr (NULL, s)" by (simp add: palloc_def scan_set_full)
qed

lemma entry_present: "(page OR PG_US_U OR PG_RW_W OR PG_P_1) AND 1 \<noteq> 0"
proof -
  have "bit ((page OR PG_US_U OR PG_RW_W OR PG_P_1) AND 1) 0"
    by (simp add: bit_and_iff bit_or_iff PG_P_1_def)
  then show ?thesis by auto
qed

lemma low_flags: "PG_US_U OR PG_RW_W OR PG_P_1 = mask 3"
  by (simp add: PG_US_U_def PG_RW_W_def PG_P_1_def mask_eq_exp_minus_1)

lemma entry_page:
  assumes "page AND 0xfff = 0"
  shows "(page OR PG_US_U OR PG_RW_W OR PG_P_1) AND 0xfffff000 = page"
proof -
  have low: "\<not> bit page n" if "n < 12" for n
  proof -
    have "\<not> bit (page AND 0xfff) n" using assms by simp
    with that show ?thesis by (simp add: bit_and_iff bit_high_mask)
  qed
  have "(page OR mask 3) AND 0xfffff000 = page"
  proof (rule bit_word_eqI)
    fix n
    assume "n < LENGTH(32)"
    then show "bit ((page OR mask 3) AND 0xfffff000) n \<longleftrightarrow> bit page n"
      using low [of n] by (cases "n < 12") (auto simp: bit_and_iff bit_or_iff bit_mask_iff bit_high_mask)
  qed
  then show ?thesis by (simp only: low_flags or.assoc)
qed

lemma pde_page: "pde_ptr w AND 0xfffff000 = 0xfffff000"
  by (rule bit_word_eqI) (auto simp: bit_and_iff bit_pde_ptr bit_high_mask)

lemma pte_page_below:
  assumes "v < 0xffc00000"
  shows "pte_ptr v AND 0xfffff000 \<noteq> 0xfffff000"
proof
  assume "pte_ptr v AND 0xfffff000 = 0xfffff000"
  then have "pde_ptr v = pte_ptr 0xfffff000"
    unfolding pde_ptr_recursive pte_ptr_eq_iff same_page_def by simp
  moreover have "pte_ptr (0xfffff000 :: u32) = 0xfffffffc" by (simp add: pte_ptr_def PTE_IDX_def)
  ultimately have e: "pde_ptr v = 0xfffffffc" by simp
  have "bit v n" if "22 \<le> n" "n < 32" for n
  proof -
    have "(0xfffffffc :: u32) = push_bit 2 (mask 30)" by (simp add: mask_eq_exp_minus_1)
    then have "bit (0xfffffffc :: u32) (n - 20)" using that by (simp only: bit_push_bit_iff bit_mask_iff) (simp, linarith)
    then have "bit (pde_ptr v) (n - 20)" by (simp only: e)
    with that show ?thesis by (auto simp: bit_pde_ptr)
  qed
  then have "v AND 0xffc00000 = 0xffc00000"
    by (intro bit_word_eqI) (auto simp: bit_and_iff bit_high_mask)
  then have "0xffc00000 \<le> v" using word_and_le2 [of v "0xffc00000"] by simp
  with assms show False by simp
qed

text \<open>
  What a successful \<open>page_table_add\<close> leaves: the page is mapped, every other page below the
  window is mapped as before.
\<close>

definition maps_page :: "'a vm_scheme \<Rightarrow> u32 \<Rightarrow> u32 \<Rightarrow> 'a vm_scheme \<Rightarrow> bool" where
  "maps_page s v page s' \<longleftrightarrow>
     mapped s' v \<and> (\<forall>w. same_page v w \<longrightarrow> addr_v2p s' w = page + (w AND 0xfff)) \<and>
     (\<forall>w < 0xffc00000. \<not> same_page v w \<longrightarrow>
        mapped s' w = mapped s w \<and> (mapped s w \<longrightarrow> addr_v2p s' w = addr_v2p s w))"

lemma page_table_add_present:
  assumes "v < 0xffc00000" and "page AND 0xfff = 0" and "table_present s v" and "\<not> mapped s v"
  shows "\<exists>s'. page_table_add s v page = Inr s' \<and> maps_page s v page s' \<and> kernel_pool s' = kernel_pool s \<and>
    (\<forall>w. ptw s' (pde_ptr w) = ptw s (pde_ptr w)) \<and>
    (\<forall>w. ptw s' (pte_ptr w) =
       (if same_page v w then page OR PG_US_U OR PG_RW_W OR PG_P_1 else ptw s (pte_ptr w)))"
proof -
  let ?e = "page OR PG_US_U OR PG_RW_W OR PG_P_1"
  let ?s = "s\<lparr>ptw := (ptw s)(pte_ptr v := ?e)\<rparr>"
  have r: "page_table_add s v page = Inr ?s"
    using assms(3,4) by (simp add: page_table_add_def Let_def table_present_def mapped_def)
  have pde: "ptw ?s (pde_ptr w) = ptw s (pde_ptr w)" for w
    using pte_not_pde [OF assms(1), of w] by auto
  have pte: "ptw ?s (pte_ptr w) = (if same_page v w then ?e else ptw s (pte_ptr w))" for w
    using pte_ptr_eq_iff [of v w] by auto
  have "mapped ?s v"
    using assms(3) pde entry_present by (simp add: mapped_def table_present_def)
  moreover have "addr_v2p ?s w = page + (w AND 0xfff)" if "same_page v w" for w
    using that entry_page [OF assms(2)] pte_ptr_eq_iff [of v w] by (simp add: addr_v2p_def)
  moreover have "mapped ?s w = mapped s w" "addr_v2p ?s w = addr_v2p s w" if "\<not> same_page v w" for w
    using that pte_ptr_eq_iff [of v w] pde [of w] by (auto simp: mapped_def table_present_def addr_v2p_def)
  ultimately show ?thesis using r pde pte by (intro exI [of _ ?s]) (auto simp: maps_page_def)
qed

lemma page_table_add_new:
  assumes "v < 0xffc00000" and "page AND 0xfff = 0" and "\<not> table_present s v"
    and "palloc (kernel_pool s) = Inr (table, kp)"
  shows "\<exists>s'. page_table_add s v page = Inr s' \<and> maps_page s v page s' \<and> kernel_pool s' = kp \<and>
    (\<forall>w. ptw s' (pde_ptr w) =
       (if pde_ptr w = pde_ptr v then table OR PG_US_U OR PG_RW_W OR PG_P_1 else ptw s (pde_ptr w))) \<and>
    (\<forall>w < 0xffc00000. ptw s' (pte_ptr w) =
       (if same_page v w then page OR PG_US_U OR PG_RW_W OR PG_P_1
        else if pde_ptr w = pde_ptr v then 0 else ptw s (pte_ptr w)))"
proof -
  let ?e = "page OR PG_US_U OR PG_RW_W OR PG_P_1" and ?d = "table OR PG_US_U OR PG_RW_W OR PG_P_1"
  let ?m = "clear_table ((ptw s)(pde_ptr v := ?d)) (pte_ptr v AND 0xfffff000)"
  let ?s = "s\<lparr>kernel_pool := kp, ptw := ?m(pte_ptr v := ?e)\<rparr>"
  have r: "page_table_add s v page = Inr ?s"
    using assms(3,4) by (simp add: page_table_add_def Let_def table_present_def clear_table_def)
  have pde: "ptw ?s (pde_ptr w) = (if pde_ptr w = pde_ptr v then ?d else ptw s (pde_ptr w))" for w
    using pte_not_pde [OF assms(1), of w] pte_page_below [OF assms(1)] pde_page [of w]
    by (auto simp: clear_table_def)
  have pte: "ptw ?s (pte_ptr w) =
      (if same_page v w then ?e else if pde_ptr w = pde_ptr v then 0 else ptw s (pte_ptr w))"
    if "w < 0xffc00000" for w
  proof -
    have "pte_ptr w \<noteq> pde_ptr v" using pte_not_pde [OF that] .
    moreover have "pte_ptr w AND 0xfffff000 = pte_ptr v AND 0xfffff000 \<longleftrightarrow> pde_ptr w = pde_ptr v"
      by (simp only: pde_ptr_eq_iff)
    moreover have "pte_ptr w = pte_ptr v \<longleftrightarrow> same_page v w" using pte_ptr_eq_iff [of v w] by metis
    ultimately show ?thesis by (simp only: clear_table_def fun_upd_apply vm.simps) simp
  qed
  have "mapped ?s v"
    using pde [of v] pte [OF assms(1)] entry_present by (simp add: mapped_def table_present_def same_page_def)
  moreover have "addr_v2p ?s w = page + (w AND 0xfff)" if "same_page v w" for w
    using that entry_page [OF assms(2)] pte_ptr_eq_iff [of v w] by (simp add: addr_v2p_def)
  moreover have "mapped ?s w = mapped s w \<and> (mapped s w \<longrightarrow> addr_v2p ?s w = addr_v2p s w)"
    if "\<not> same_page v w" "w < 0xffc00000" for w
    using that assms(3) pde [of w] pte [of w]
    by (cases "pde_ptr w = pde_ptr v") (auto simp: mapped_def table_present_def addr_v2p_def)
  ultimately show ?thesis using r pde pte by (intro exI [of _ ?s]) (auto simp: maps_page_def)
qed

text \<open>
  \<open>page_table_add\<close>, on the window.  An unmapped page below it becomes mapped to the given frame, and no other
  entry of a table that is there changes, provided the kernel's pool has a free frame when the table is
  missing.  That the words of the window are really apart is shown in theory \<open>Mmu\<close>.
\<close>

theorem page_table_add_window:
  assumes "v < 0xffc00000" and "page AND 0xfff = 0" and "pool_ok (kernel_pool s)"
  shows "if mapped s v then page_table_add s v page = Inl Panic
    else if table_present s v then
      \<exists>s'. page_table_add s v page = Inr s' \<and> maps_page s v page s' \<and> kernel_pool s' = kernel_pool s \<and>
        (\<forall>w. ptw s' (pde_ptr w) = ptw s (pde_ptr w))
    else if free_bits (pool_bitmap (kernel_pool s)) \<noteq> {} then
      \<exists>s' i. page_table_add s v page = Inr s' \<and> maps_page s v page s' \<and>
        i \<in> free_bits (pool_bitmap (kernel_pool s)) \<and> pool_upd (kernel_pool s) i True (kernel_pool s') \<and>
        ptw s' (pde_ptr v) = page_of (kernel_pool s) i OR 7 \<and>
        (\<forall>w. \<not> same_table v w \<longrightarrow> ptw s' (pde_ptr w) = ptw s (pde_ptr w))
    else \<exists>s'. page_table_add s v page = Inr s' \<and> kernel_pool s' = kernel_pool s \<and> ptw s' (pde_ptr v) = 0 OR 7"
proof -
  have flags: "t OR PG_US_U OR PG_RW_W OR PG_P_1 = t OR 7" for t
    by (simp add: low_flags mask_eq_exp_minus_1 or.assoc)
  have table: "pde_ptr w = pde_ptr v \<longleftrightarrow> same_table v w" for w
    by (metis pde_ptr_same_table)
  show ?thesis
  proof (cases "table_present s v")
    case True
    then show ?thesis
      using page_table_add_present [OF assms(1,2) True]
      by (simp add: page_table_add_def Let_def mapped_def table_present_def)
  next
    case False
    then have nm: "\<not> mapped s v" by (simp add: mapped_def)
    from palloc_cases [OF assms(3)] show ?thesis
    proof (elim disjE exE conjE)
      fix i kp
      assume p: "palloc (kernel_pool s) = Inr (page_of (kernel_pool s) i, kp)" "first_free (pool_bitmap (kernel_pool s)) i"
        "pool_upd (kernel_pool s) i True kp"
      have "i \<in> free_bits (pool_bitmap (kernel_pool s))" using p(2) by (auto simp: first_free_def free_bits_def)
      moreover have "same_table v v" by (simp add: same_table_def)
      ultimately show ?thesis
        using page_table_add_new [OF assms(1,2) False p(1)] p(3) False nm by (fastforce simp: flags table)
    next
      assume p: "palloc (kernel_pool s) = Inr (NULL, kernel_pool s)"
        "\<forall>i<bm_size (pool_bitmap (kernel_pool s)). pool_used (kernel_pool s) i"
      have "free_bits (pool_bitmap (kernel_pool s)) = {}" using p(2) by (auto simp: free_bits_def pool_used_def)
      then show ?thesis
        using page_table_add_new [OF assms(1,2) False p(1)] False nm by (auto simp: flags)
    qed
  qed
qed

definition some_pool :: "u32 \<Rightarrow> pool" where
  "some_pool start = \<lparr>pool_bitmap = bitmap_of [7, 0] 2, phy_addr_start = start, pool_size = 0x10000\<rparr>"

definition some_vm :: vm where
  "some_vm = \<lparr>eflags = 0x202, nxt = \<lambda>_. 0, prv = \<lambda>_. 0, ptw = \<lambda>_. 0,
     kernel_pool = some_pool 0x200000, user_pool = some_pool 0x300000,
     kernel_vaddr = \<lparr>vaddr_bitmap = bitmap_of [1, 0] 2, vaddr_start = 0xc0100000\<rparr>\<rparr>"

definition full_vm :: vm where
  "full_vm = some_vm\<lparr>kernel_pool := (some_pool 0x200000)\<lparr>pool_bitmap := bitmap_of [] 0\<rparr>\<rparr>"

theorem page_table_add_window_witness:
  "(\<exists>s'. page_table_add some_vm 0xc0100000 0x305000 = Inr s' \<and> addr_v2p s' 0xc0100123 = 0x305123) \<and>
   (\<exists>s'. page_table_add full_vm 0xc0100000 0x305000 = Inr s' \<and> ptw s' (pde_ptr 0xc0100000) = 7)"
proof -
  have m: "\<not> mapped some_vm 0xc0100000" "\<not> table_present some_vm 0xc0100000"
    "\<not> mapped full_vm 0xc0100000" "\<not> table_present full_vm 0xc0100000"
    by (simp_all add: mapped_def table_present_def some_vm_def full_vm_def)
  have ok: "pool_ok (kernel_pool some_vm)" "pool_ok (kernel_pool full_vm)"
    by (simp_all add: pool_ok_def some_vm_def full_vm_def some_pool_def bm_ok_def bm_size_def bitmap_of_def)
  have "\<not> bm_bit (pool_bitmap (kernel_pool some_vm)) 3" "3 < bm_size (pool_bitmap (kernel_pool some_vm))"
    by (simp_all add: some_vm_def some_pool_def bm_bit_def bm_size_def bitmap_of_def bit_numeral_word_iff)
  then have free: "free_bits (pool_bitmap (kernel_pool some_vm)) \<noteq> {}" by (auto simp: free_bits_def)
  have full: "free_bits (pool_bitmap (kernel_pool full_vm)) = {}"
    by (auto simp: free_bits_def full_vm_def some_vm_def bm_size_def bitmap_of_def)
  have "same_page 0xc0100000 0xc0100123" by (simp add: same_page_def)
  moreover obtain s' where "page_table_add some_vm 0xc0100000 0x305000 = Inr s'" "maps_page some_vm 0xc0100000 0x305000 s'"
    using page_table_add_window [of "0xc0100000" "0x305000" some_vm, OF _ _ ok(1)] m free by auto
  ultimately have "\<exists>s'. page_table_add some_vm 0xc0100000 0x305000 = Inr s' \<and> addr_v2p s' 0xc0100123 = 0x305123"
    by (auto simp: maps_page_def)
  moreover have "\<exists>s'. page_table_add full_vm 0xc0100000 0x305000 = Inr s' \<and> ptw s' (pde_ptr 0xc0100000) = 7"
    using page_table_add_window [of "0xc0100000" "0x305000" full_vm, OF _ _ ok(2)] m full by auto
  ultimately show ?thesis by blast
qed

text \<open>
  The entry addresses.  Two addresses have the same page table entry exactly when they lie
  in one page, the directory entry of an address is the table entry of its table entry, and
  below the window no word is both a table entry and a directory entry.  So removing the mapping
  of one page unmaps that page alone.
\<close>

theorem entry_addresses:
  assumes "v < 0xffc00000" and "w < 0xffc00000"
  shows "(pte_ptr v = pte_ptr w \<longleftrightarrow> drop_bit 12 v = drop_bit 12 w) \<and>
         pde_ptr v = pte_ptr (pte_ptr v) \<and> pte_ptr v \<noteq> pde_ptr w \<and>
         (mapped (page_table_pte_remove s v) w \<longleftrightarrow> mapped s w \<and> drop_bit 12 v \<noteq> drop_bit 12 w)"
proof -
  have page: "same_page v w \<longleftrightarrow> drop_bit 12 v = drop_bit 12 w"
  proof
    assume "same_page v w"
    show "drop_bit 12 v = drop_bit 12 w"
    proof (rule bit_word_eqI)
      fix n
      have "bit v (12 + n) \<longleftrightarrow> bit w (12 + n)"
        using \<open>same_page v w\<close> bit_imp_le_length [of v "12 + n"] bit_imp_le_length [of w "12 + n"]
        by (cases "12 + n < 32") (auto simp: same_page_bits)
      then show "bit (drop_bit 12 v) n \<longleftrightarrow> bit (drop_bit 12 w) n" by (simp add: bit_drop_bit_eq)
    qed
  next
    assume e: "drop_bit 12 v = drop_bit 12 w"
    have "bit v n = bit w n" if "12 \<le> n" for n
    proof -
      have "bit (drop_bit 12 v) (n - 12) = bit (drop_bit 12 w) (n - 12)" by (simp only: e)
      with that show ?thesis by (simp add: bit_drop_bit_eq)
    qed
    then show "same_page v w" by (simp add: same_page_bits)
  qed
  have off: "(x AND NOT PG_P_1) AND 1 = 0" for x
    by (simp add: PG_P_1_def and.assoc)
  have "mapped (page_table_pte_remove s v) w \<longleftrightarrow> mapped s w \<and> \<not> same_page v w"
    using pte_ptr_eq_iff [of v w] pte_not_pde [OF assms(1), of w] off
    by (auto simp: mapped_def table_present_def page_table_pte_remove_def)
  then show ?thesis
    using page pte_ptr_eq_iff [of v w] pde_ptr_recursive [of v] pte_not_pde [OF assms(1), of w] by simp
qed

theorem entry_addresses_witness:
  "pte_ptr 0xc0100abc = pte_ptr 0xc0100123 \<and> pde_ptr 0xc0100abc = 0xfffffc00"
  using entry_addresses [of "0xc0100abc" "0xc0100123" some_vm] by (simp add: pde_ptr_def PDE_IDX_def)

text \<open>
  C25: a pool of page frames.  As long as it has free pages, \<open>palloc\<close> hands out page-aligned
  frames inside the pool, never one that is in use and never one twice; after exactly as many
  calls as there were free pages it returns \<open>NULL\<close> and changes nothing.
\<close>

theorem palloc_frames:
  assumes "pool_ok p" and "phy_addr_start p AND 0xfff = 0"
    and "unat (phy_addr_start p) + 4096 * bm_size (pool_bitmap p) \<le> 2 ^ 32"
    and "n = card (free_bits (pool_bitmap p))"
  shows "\<exists>fs p'. alloc_many palloc n p = Inr (fs, p') \<and> length fs = n \<and> distinct fs \<and> palloc p' = Inr (NULL, p') \<and>
           (\<forall>f \<in> set fs. f AND 0xfff = 0 \<and> phy_addr_start p \<le> f \<and>
              (\<exists>i < bm_size (pool_bitmap p). f = page_of p i \<and> \<not> pool_used p i))"
proof -
  have ok: "bm_ok (pool_bitmap p)" using assms(1) by (simp add: pool_ok_def)
  obtain "is" p' where r: "alloc_many palloc n p = Inr (map (page_of p) is, p')" "length is = n" "distinct is"
    "set is \<subseteq> free_bits (pool_bitmap p)" "free_bits (pool_bitmap p') = free_bits (pool_bitmap p) - set is"
    "bm_ok (pool_bitmap p')"
    using frames.alloc_many_fresh [OF ok, of n] assms(4) by auto
  have pg: "unat (page_of p i) = unat (phy_addr_start p) + 4096 * i" if "i < bm_size (pool_bitmap p)" for i
  proof -
    have lim: "unat (phy_addr_start p) + 4096 * i < 2 ^ 32" using assms(3) that by linarith
    then have "unat (of_nat i :: u32) = i" by (intro unat_of_nat_small) simp
    then have "unat (of_nat i * 4096 :: u32) = 4096 * i"
      using lim by (subst unat_mult_no_wrap) simp_all
    then show ?thesis
      using lim unfolding page_of_def PG_SIZE_def by (subst unat_add_no_wrap) simp_all
  qed
  have "inj_on (page_of p) (free_bits (pool_bitmap p))"
  proof (rule inj_onI)
    fix i j assume ij: "i \<in> free_bits (pool_bitmap p)" "j \<in> free_bits (pool_bitmap p)" "page_of p i = page_of p j"
    then have "i < bm_size (pool_bitmap p)" "j < bm_size (pool_bitmap p)" by (simp_all add: free_bits_def)
    then have "unat (phy_addr_start p) + 4096 * i = unat (phy_addr_start p) + 4096 * j"
      using pg ij(3) by metis
    then show "i = j" by simp
  qed
  then have "distinct (map (page_of p) is)"
    using r(3,4) by (simp add: distinct_map inj_on_subset)
  moreover have "set is = free_bits (pool_bitmap p)"
    using r(2-4) assms(4) by (simp add: card_subset_eq distinct_card)
  then have "palloc p' = Inr (NULL, p')" using r(5,6) by (intro frames.alloc_full) auto
  moreover have "f AND 0xfff = 0 \<and> phy_addr_start p \<le> f \<and>
      (\<exists>i < bm_size (pool_bitmap p). f = page_of p i \<and> \<not> pool_used p i)" if mem: "f \<in> set (map (page_of p) is)" for f
  proof -
    obtain i where "i \<in> free_bits (pool_bitmap p)" and "f = page_of p i"
      using mem r(4) by auto
    then have i: "i < bm_size (pool_bitmap p)" "\<not> pool_used p i" "f = page_of p i"
      by (simp_all add: free_bits_def pool_used_def)
    have "take_bit 12 (phy_addr_start p) = 0"
      using assms(2) by (simp add: take_bit_eq_mask mask_eq_exp_minus_1)
    then have "unat (take_bit 12 (phy_addr_start p)) = 0" by simp
    then have "unat (phy_addr_start p) mod 2 ^ 12 = 0"
      unfolding unsigned_take_bit_eq unfolding take_bit_eq_mod .
    then have "unat f mod 2 ^ 12 = 0" using pg [OF i(1)] by (simp add: i(3) mod_add_eq [symmetric])
    then have "unat (take_bit 12 f) = 0"
      unfolding unsigned_take_bit_eq unfolding take_bit_eq_mod .
    then have "take_bit 12 f = 0" by (simp only: unat_eq_0)
    then have "f AND 0xfff = 0" by (simp add: take_bit_eq_mask mask_eq_exp_minus_1)
    moreover have "phy_addr_start p \<le> f" using pg [OF i(1)] by (simp add: i(3) unat_le_iff)
    ultimately show ?thesis using i by blast
  qed
  ultimately show ?thesis using r(1,2) by (intro exI [of _ "map (page_of p) is"] exI [of _ p']) auto
qed

definition small_pool :: pool where
  "small_pool = \<lparr>pool_bitmap = bitmap_of [0xfd] 1, phy_addr_start = 0x200000, pool_size = 0x8000\<rparr>"

lemma small_pool_facts:
  "pool_ok small_pool" "bm_size (pool_bitmap small_pool) = 8" "phy_addr_start small_pool = 0x200000"
  by (simp_all add: pool_ok_def bm_ok_def bm_size_def small_pool_def bitmap_of_def)

lemma small_pool_used: "i < 8 \<Longrightarrow> pool_used small_pool i \<longleftrightarrow> i \<noteq> 1"
proof -
  assume i: "i < 8"
  have "\<forall>i<8. bit (0xfd :: u8) i \<longleftrightarrow> i \<noteq> 1" by code_simp
  moreover have "pool_used small_pool i \<longleftrightarrow> bit (0xfd :: u8) i"
    using i by (simp add: pool_used_def small_pool_def bm_bit_def bitmap_of_def)
  ultimately show ?thesis using i by blast
qed

lemma small_pool_free: "free_bits (pool_bitmap small_pool) = {1}"
  using small_pool_used by (auto simp: free_bits_def small_pool_facts pool_used_def [symmetric])

theorem palloc_frames_witness:
  "\<exists>f p'. alloc_many palloc 1 small_pool = Inr ([f], p') \<and> palloc p' = Inr (NULL, p') \<and> f = 0x201000"
proof -
  from palloc_frames [of small_pool 1] obtain fs p' where
    r: "alloc_many palloc 1 small_pool = Inr (fs, p')" "length fs = 1" "palloc p' = Inr (NULL, p')"
      "\<forall>f \<in> set fs. \<exists>i < 8. f = page_of small_pool i \<and> \<not> pool_used small_pool i"
    by (auto simp: small_pool_facts small_pool_free)
  then obtain f where f: "fs = [f]" by (auto simp: length_Suc_conv)
  with r(4) obtain i where "i < 8" "f = page_of small_pool i" "\<not> pool_used small_pool i" by auto
  then have "f = page_of small_pool 1" using small_pool_used by auto
  then have "f = 0x201000" by (simp add: page_of_def PG_SIZE_def small_pool_facts)
  with r(1,3) f show ?thesis by blast
qed

end
