(* ===== verification/Thread.thy ===== *)
theory Thread
  imports Paging
begin

text \<open>
  The scheduler of \<open>thread/thread.c\<close>, with the context switch of \<open>thread/switch.S\<close> and
  the address space switch of \<open>userprog/process.c\<close> and \<open>userprog/tss.c\<close>.

  A task is known by the address of its PCB page, \<open>tasks\<close> maps it to its
  \<open>struct task_struct\<close>; \<open>cur\<close> is what \<open>running_thread()\<close> computes from the stack
  pointer.  Ready list and wait queues are the heap lists of theory \<open>Klist\<close>, linked through
  the field \<open>general_tag\<close> 68 bytes into the PCB.

  \<open>switch_to\<close> saves where the old thread goes on, here the field \<open>kont\<close>, and continues the
  new one where it left off: at its entry function, behind the call of \<open>schedule\<close> in
  \<open>thread_block\<close> or \<open>thread_yield\<close> (which then restores the interrupt status it had
  saved), or in the interrupt handler that preempted it (which returns with \<open>iret\<close> and so
  turns interrupts back on).  Each operation below runs up to the point where the next thread
  is back in its own code.

  The lemmas show that \<open>schedule\<close> refines round robin on abstract lists, that no assertion of
  the scheduler fires from a well-formed state, and that every ready thread gets the processor.
\<close>

section \<open>Tasks\<close>

datatype task_status =
  TASK_RUNNING | TASK_READY | TASK_BLOCKED | TASK_WAITING | TASK_HANGING | TASK_DIED

datatype resume_point = KernelThread | AfterSchedule intr_status | InHandler

record task_struct =
  self_kstack :: u32
  pid :: u16
  status :: task_status
  priority :: u8
  task_name :: "u8 list"
  ticks :: u8
  elapsed_ticks :: u32
  fd_table :: "i32 list"
  pgdir :: u32
  userprog_vaddr :: virtual_addr
  cwd_inode_nr :: u32
  parent_pid :: u16
  stack_magic :: u32
  kont :: resume_point

record sched = vm +
  tasks :: "u32 \<Rightarrow> task_struct"
  cur :: u32
  main_thread :: u32
  idle_thread :: u32
  next_pid :: u16
  cr3 :: u32
  esp0 :: u32

text \<open>The addresses of the two global lists, from \<open>build/kernel.map\<close>.\<close>

definition thread_ready_list :: u32 where
  "thread_ready_list = 0xc0015c60"

definition thread_all_list :: u32 where
  "thread_all_list = 0xc0015c70"

text \<open>Offsets of the two list elements in \<open>struct task_struct\<close>, and \<open>elem2entry\<close>.\<close>

definition general_tag :: "u32 \<Rightarrow> u32" where
  "general_tag t = t + 68"

definition all_list_tag :: "u32 \<Rightarrow> u32" where
  "all_list_tag t = t + 76"

definition elem2entry_general :: "u32 \<Rightarrow> u32" where
  "elem2entry_general elem = elem - 68"

definition upd_task :: "'a sched_scheme \<Rightarrow> u32 \<Rightarrow> (task_struct \<Rightarrow> task_struct) \<Rightarrow> 'a sched_scheme" where
  "upd_task s t f = s\<lparr>tasks := (tasks s)(t := f (tasks s t))\<rparr>"

definition set_status :: "'a sched_scheme \<Rightarrow> u32 \<Rightarrow> task_status \<Rightarrow> 'a sched_scheme" where
  "set_status s t w = upd_task s t (\<lambda>p. p\<lparr>status := w\<rparr>)"

section \<open>Switching\<close>

definition updata_tss_esp :: "'a sched_scheme \<Rightarrow> u32 \<Rightarrow> 'a sched_scheme" where
  "updata_tss_esp s pthread = s\<lparr>esp0 := pthread + PG_SIZE\<rparr>"

definition page_dir_activate :: "'a sched_scheme \<Rightarrow> u32 \<Rightarrow> 'a sched_scheme" where
  "page_dir_activate s p_thread =
     (let pagedir_phy_addr = (if pgdir (tasks s p_thread) \<noteq> NULL then addr_v2p s (pgdir (tasks s p_thread))
                              else 0x100000)
      in s\<lparr>cr3 := pagedir_phy_addr\<rparr>)"

definition process_activate :: "'a sched_scheme \<Rightarrow> u32 \<Rightarrow> 'a sched_scheme" where
  "process_activate s p_thread =
     (let s = page_dir_activate s p_thread
      in if pgdir (tasks s p_thread) \<noteq> NULL then updata_tss_esp s p_thread else s)"

definition switch_to :: "'a sched_scheme \<Rightarrow> u32 \<Rightarrow> u32 \<Rightarrow> resume_point \<Rightarrow> 'a sched_scheme" where
  "switch_to s old next ret = (upd_task s old (\<lambda>p. p\<lparr>kont := ret\<rparr>))\<lparr>cur := next\<rparr>"

text \<open>What the thread that got the processor does first.\<close>

definition resume :: "'a sched_scheme \<Rightarrow> 'a sched_scheme" where
  "resume s =
     (case kont (tasks s (cur s)) of
        KernelThread \<Rightarrow> snd (intr_enable s)
      | AfterSchedule old_status \<Rightarrow> snd (intr_set_status s old_status)
      | InHandler \<Rightarrow> sti s)"

definition blocked_status :: "task_status \<Rightarrow> bool" where
  "blocked_status w \<longleftrightarrow> w = TASK_BLOCKED \<or> w = TASK_WAITING \<or> w = TASK_HANGING"

definition thread_unblock :: "'a sched_scheme \<Rightarrow> u32 \<Rightarrow> 'a sched_scheme res" where
  "thread_unblock s pthread =
     (let (old_status, s) = intr_disable s
      in if \<not> blocked_status (status (tasks s pthread)) then Inl Panic
         else rbind
           (if status (tasks s pthread) \<noteq> TASK_READY then
              rbind (elem_find s thread_ready_list (general_tag pthread)) (\<lambda>found.
                if found then Inl Panic
                else let s = list_push s thread_ready_list (general_tag pthread)
                     in Inr (set_status s pthread TASK_READY))
            else Inr s)
           (\<lambda>s. Inr (snd (intr_set_status s old_status))))"

text \<open>\<open>ret\<close> is where the caller continues when its thread is switched back to.\<close>

definition schedule :: "'a sched_scheme \<Rightarrow> resume_point \<Rightarrow> 'a sched_scheme res" where
  "schedule s ret =
     (if intr_get_status s \<noteq> INTR_OFF then Inl Panic
      else
        let c = cur s
        in rbind
          (if status (tasks s c) = TASK_RUNNING then
             rbind (elem_find s thread_ready_list (general_tag c)) (\<lambda>found.
               if found then Inl Panic
               else let s = list_append s thread_ready_list (general_tag c)
                    in Inr (upd_task s c (\<lambda>p. p\<lparr>status := TASK_READY, ticks := priority p\<rparr>)))
           else Inr s)
          (\<lambda>s. rbind
            (if list_empty s thread_ready_list then thread_unblock s (idle_thread s) else Inr s)
            (\<lambda>s. if list_empty s thread_ready_list then Inl Panic
                 else rbind (list_pop s thread_ready_list) (\<lambda>(thread_tag, s).
                   let next = elem2entry_general thread_tag;
                       s = set_status s next TASK_RUNNING;
                       s = process_activate s next
                   in Inr (switch_to s c next ret)))))"

definition thread_block :: "'a sched_scheme \<Rightarrow> task_status \<Rightarrow> 'a sched_scheme res" where
  "thread_block s w =
     (if \<not> blocked_status w then Inl Panic
      else
        let (old_status, s) = intr_disable s;
            s = set_status s (cur s) w
        in rbind (schedule s (AfterSchedule old_status)) (\<lambda>s. Inr (resume s)))"

definition thread_yield :: "'a sched_scheme \<Rightarrow> 'a sched_scheme res" where
  "thread_yield s =
     (let c = cur s;
          (old_status, s) = intr_disable s
      in rbind (elem_find s thread_ready_list (general_tag c)) (\<lambda>found.
           if found then Inl Panic
           else let s = list_append s thread_ready_list (general_tag c);
                    s = set_status s c TASK_READY
                in rbind (schedule s (AfterSchedule old_status)) (\<lambda>s. Inr (resume s))))"

section \<open>Frame\<close>

named_theorems sched "what the scheduler's helpers leave alone"

lemma tag_inject [simp]: "general_tag t = general_tag u \<longleftrightarrow> t = u"
  by (simp add: general_tag_def)

lemma tag_entry [simp]: "elem2entry_general (general_tag t) = t"
  by (simp add: general_tag_def elem2entry_general_def)

lemma mem_tags [simp]: "general_tag t \<in> general_tag ` set ts \<longleftrightarrow> t \<in> set ts"
  by auto

lemma upd_task_frame [sched]:
  "nxt (upd_task s t f) = nxt s" "prv (upd_task s t f) = prv s" "eflags (upd_task s t f) = eflags s"
  "cur (upd_task s t f) = cur s" "idle_thread (upd_task s t f) = idle_thread s"
  "tasks (upd_task s t f) = (tasks s)(t := f (tasks s t))" "sched.more (upd_task s t f) = sched.more s"
  "main_thread (upd_task s t f) = main_thread s"
  by (simp_all add: upd_task_def)

lemma activate_frame [sched]:
  "nxt (process_activate s t) = nxt s" "prv (process_activate s t) = prv s"
  "eflags (process_activate s t) = eflags s" "cur (process_activate s t) = cur s"
  "idle_thread (process_activate s t) = idle_thread s" "tasks (process_activate s t) = tasks s"
  "sched.more (process_activate s t) = sched.more s" "main_thread (process_activate s t) = main_thread s"
  by (simp_all add: process_activate_def page_dir_activate_def updata_tss_esp_def Let_def)

lemma switch_frame [sched]:
  "nxt (switch_to s a b r) = nxt s" "prv (switch_to s a b r) = prv s"
  "eflags (switch_to s a b r) = eflags s" "cur (switch_to s a b r) = b"
  "idle_thread (switch_to s a b r) = idle_thread s"
  "tasks (switch_to s a b r) = (tasks s)(a := (tasks s a)\<lparr>kont := r\<rparr>)"
  "sched.more (switch_to s a b r) = sched.more s" "main_thread (switch_to s a b r) = main_thread s"
  by (simp_all add: switch_to_def sched)

text \<open>The flag and link operations leave the scheduler's own fields alone.\<close>

lemma list_ops_sched [sched]:
  "tasks (list_push s l e) = tasks s" "cur (list_push s l e) = cur s"
  "idle_thread (list_push s l e) = idle_thread s" "sched.more (list_push s l e) = sched.more s"
  "tasks (list_append s l e) = tasks s" "cur (list_append s l e) = cur s"
  "idle_thread (list_append s l e) = idle_thread s" "sched.more (list_append s l e) = sched.more s"
  "tasks (list_remove s e) = tasks s" "cur (list_remove s e) = cur s"
  "idle_thread (list_remove s e) = idle_thread s" "sched.more (list_remove s e) = sched.more s"
  by (simp_all add: list_push_def list_append_def list_insert_before_def list_remove_def Let_def
      case_prod_beta set_nxt_def set_prv_def intr_disable_def intr_set_status_def intr_enable_def
      sti_def cli_def)

lemma list_ops_eflags [sched]:
  "eflags (list_push s l e) = eflags s" "eflags (list_append s l e) = eflags s"
  "eflags (list_remove s e) = eflags s"
  by (simp_all add: list_push_def list_append_def klist)

lemma intr_sched [sched]:
  "tasks (snd (intr_disable s)) = tasks s" "cur (snd (intr_disable s)) = cur s"
  "idle_thread (snd (intr_disable s)) = idle_thread s" "sched.more (snd (intr_disable s)) = sched.more s"
  "tasks (snd (intr_set_status s w)) = tasks s" "cur (snd (intr_set_status s w)) = cur s"
  "idle_thread (snd (intr_set_status s w)) = idle_thread s"
  "sched.more (snd (intr_set_status s w)) = sched.more s"
  by (simp_all add: intr_disable_def intr_set_status_def intr_enable_def sti_def cli_def)

lemma resume_frame [sched]:
  "nxt (resume s) = nxt s" "prv (resume s) = prv s" "tasks (resume s) = tasks s"
  "cur (resume s) = cur s" "idle_thread (resume s) = idle_thread s" "sched.more (resume s) = sched.more s"
  by (simp_all add: resume_def sched klist intr_enable_def sti_def split: resume_point.split)

section \<open>Refinement of the scheduler\<close>

text \<open>\<open>ready_is A rs\<close>: the ready list holds the tasks \<open>rs\<close>.\<close>

definition ready_is :: "(u32 \<Rightarrow> u32 list option) \<Rightarrow> u32 list \<Rightarrow> bool" where
  "ready_is A rs \<longleftrightarrow> A thread_ready_list = Some (map general_tag rs)"

definition set_ready :: "(u32 \<Rightarrow> u32 list option) \<Rightarrow> u32 list \<Rightarrow> u32 \<Rightarrow> u32 list option" where
  "set_ready A rs = A(thread_ready_list \<mapsto> map general_tag rs)"

lemma ready_set [simp]: "ready_is (set_ready A rs) rs' \<longleftrightarrow> rs' = rs"
  by (auto simp: ready_is_def set_ready_def inj_map_eq_map inj_def)

lemma set_ready_twice [simp]: "set_ready (set_ready A rs) rs' = set_ready A rs'"
  by (simp add: set_ready_def)

lemma set_ready_same: "ready_is A rs \<Longrightarrow> set_ready A rs = A"
  by (auto simp: ready_is_def set_ready_def)

definition untouched :: "'a sched_scheme \<Rightarrow> 'a sched_scheme \<Rightarrow> bool" where
  "untouched s s' \<longleftrightarrow> eflags s' = eflags s \<and> idle_thread s' = idle_thread s \<and> sched.more s' = sched.more s"

text \<open>The scheduler on abstract lists: the tasks, the ready list and the task that runs next.\<close>

definition requeue :: "(u32 \<Rightarrow> task_struct) \<Rightarrow> u32 list \<Rightarrow> u32 \<Rightarrow> (u32 \<Rightarrow> task_struct) \<times> u32 list" where
  "requeue T rs c =
     (if status (T c) = TASK_RUNNING then (T(c := (T c)\<lparr>status := TASK_READY, ticks := priority (T c)\<rparr>), rs @ [c])
      else (T, rs))"

definition with_idle :: "(u32 \<Rightarrow> task_struct) \<Rightarrow> u32 list \<Rightarrow> u32 \<Rightarrow> (u32 \<Rightarrow> task_struct) \<times> u32 list" where
  "with_idle T rs idle =
     (if rs = [] then (T(idle := (T idle)\<lparr>status := TASK_READY\<rparr>), [idle]) else (T, rs))"

definition run_next :: "(u32 \<Rightarrow> task_struct) \<Rightarrow> u32 \<Rightarrow> u32 \<Rightarrow> resume_point \<Rightarrow> u32 \<Rightarrow> task_struct" where
  "run_next T c n ret =
     (let T = T(n := (T n)\<lparr>status := TASK_RUNNING\<rparr>) in T(c := (T c)\<lparr>kont := ret\<rparr>))"

definition schedule_spec ::
  "(u32 \<Rightarrow> task_struct) \<Rightarrow> u32 list \<Rightarrow> u32 \<Rightarrow> u32 \<Rightarrow> resume_point \<Rightarrow>
     (u32 \<Rightarrow> task_struct) \<times> u32 list \<times> u32" where
  "schedule_spec T rs c idle ret =
     (let (T, rs) = requeue T rs c; (T, rs) = with_idle T rs idle
      in (run_next T c (hd rs) ret, tl rs, hd rs))"

lemma list_push_ready:
  assumes "lists_rep s A" and "ready_is A rs" and "unlinked A (general_tag t)"
  shows "lists_rep (list_push s thread_ready_list (general_tag t)) (set_ready A (t # rs))"
  using lists_push [OF assms(1) _ assms(3)] assms(2) by (auto simp: ready_is_def set_ready_def)

lemma list_append_ready:
  assumes "lists_rep s A" and "ready_is A rs" and "unlinked A (general_tag t)"
  shows "lists_rep (list_append s thread_ready_list (general_tag t)) (set_ready A (rs @ [t]))"
  using lists_append [OF assms(1) _ assms(3)] assms(2) by (auto simp: ready_is_def set_ready_def)

lemma list_pop_ready:
  assumes "lists_rep s A" and "ready_is A (t # rs)"
  shows "list_pop s thread_ready_list = Inr (general_tag t, list_remove s (general_tag t)) \<and>
         lists_rep (list_remove s (general_tag t)) (set_ready A rs)"
  using lists_pop [OF assms(1)] assms(2) by (auto simp: ready_is_def set_ready_def)

lemma elem_find_ready:
  "lists_rep s A \<Longrightarrow> ready_is A rs \<Longrightarrow> elem_find s thread_ready_list (general_tag t) = Inr (t \<in> set rs)"
  by (simp add: ready_is_def lists_find [of s A] )

lemma list_empty_ready:
  "lists_rep s A \<Longrightarrow> ready_is A rs \<Longrightarrow> list_empty s thread_ready_list \<longleftrightarrow> rs = []"
  by (auto simp: ready_is_def lists_empty [of s A])

lemma unlinked_not_ready: "unlinked A (general_tag t) \<Longrightarrow> ready_is A rs \<Longrightarrow> t \<notin> set rs"
  unfolding unlinked_def ready_is_def by (fastforce simp: list_cells_def)

lemma lists_rep_sched [sched]:
  "lists_rep (upd_task s t f) A \<longleftrightarrow> lists_rep s A"
  "lists_rep (process_activate s t) A \<longleftrightarrow> lists_rep s A"
  "lists_rep (switch_to s a b r) A \<longleftrightarrow> lists_rep s A"
  "lists_rep (resume s) A \<longleftrightarrow> lists_rep s A"
  "lists_rep (snd (intr_disable s)) A \<longleftrightarrow> lists_rep s A"
  "lists_rep (snd (intr_set_status s w)) A \<longleftrightarrow> lists_rep s A"
  by (simp_all add: lists_rep_def list_rep_def sched klist)

lemma thread_unblock_ready:
  assumes "lists_rep s A" and "ready_is A rs" and "blocked_status (status (tasks s t))"
    and "unlinked A (general_tag t)"
  shows "\<exists>s'. thread_unblock s t = Inr s' \<and> lists_rep s' (set_ready A (t # rs)) \<and> cur s' = cur s \<and>
           tasks s' = (tasks s)(t := (tasks s t)\<lparr>status := TASK_READY\<rparr>) \<and> untouched s s'"
proof -
  let ?d = "snd (intr_disable s)"
  let ?e = "set_status (list_push ?d thread_ready_list (general_tag t)) t TASK_READY"
  have d: "lists_rep ?d A" using assms(1) by (simp add: sched)
  have "elem_find ?d thread_ready_list (general_tag t) = Inr False"
    using elem_find_ready [OF d assms(2)] unlinked_not_ready [OF assms(4,2)] by simp
  then have "thread_unblock s t = Inr (snd (intr_set_status ?e (fst (intr_disable s))))"
    using assms(3) by (auto simp: thread_unblock_def case_prod_beta Let_def sched blocked_status_def)
  moreover have "lists_rep ?e (set_ready A (t # rs))"
    using list_push_ready [OF d assms(2,4)] by (simp add: set_status_def sched)
  moreover have "eflags ?e = eflags ?d" by (simp add: set_status_def sched)
  ultimately show ?thesis
    using disable_restore_eflags(1) [of ?e s]
    by (auto simp: untouched_def sched set_status_def)
qed

text \<open>The three parts of \<open>schedule\<close>: requeue the running thread, fall back to idle, run the first.\<close>

definition requeue_step :: "'a sched_scheme \<Rightarrow> 'a sched_scheme res" where
  "requeue_step s =
     (if status (tasks s (cur s)) = TASK_RUNNING then
        rbind (elem_find s thread_ready_list (general_tag (cur s))) (\<lambda>found.
          if found then Inl Panic
          else Inr (upd_task (list_append s thread_ready_list (general_tag (cur s))) (cur s)
                 (\<lambda>p. p\<lparr>status := TASK_READY, ticks := priority p\<rparr>)))
      else Inr s)"

definition idle_step :: "'a sched_scheme \<Rightarrow> 'a sched_scheme res" where
  "idle_step s = (if list_empty s thread_ready_list then thread_unblock s (idle_thread s) else Inr s)"

definition run_step :: "'a sched_scheme \<Rightarrow> u32 \<Rightarrow> resume_point \<Rightarrow> 'a sched_scheme res" where
  "run_step s c ret =
     (if list_empty s thread_ready_list then Inl Panic
      else rbind (list_pop s thread_ready_list) (\<lambda>(tag, s).
        Inr (switch_to (process_activate (set_status s (elem2entry_general tag) TASK_RUNNING)
               (elem2entry_general tag)) c (elem2entry_general tag) ret)))"

lemma schedule_steps:
  "intr_get_status s = INTR_OFF \<Longrightarrow>
     schedule s ret = rbind (requeue_step s) (\<lambda>s'. rbind (idle_step s') (\<lambda>s''. run_step s'' (cur s) ret))"
  unfolding schedule_def requeue_step_def idle_step_def run_step_def Let_def by simp

lemma requeue_step_ready:
  assumes "lists_rep s A" and "ready_is A rs"
    and "status (tasks s (cur s)) = TASK_RUNNING \<Longrightarrow> unlinked A (general_tag (cur s))"
    and "requeue (tasks s) rs (cur s) = (T, rs')"
  shows "\<exists>s'. requeue_step s = Inr s' \<and> lists_rep s' (set_ready A rs') \<and> cur s' = cur s \<and>
           tasks s' = T \<and> untouched s s'"
proof (cases "status (tasks s (cur s)) = TASK_RUNNING")
  case True
  with elem_find_ready [OF assms(1,2)] unlinked_not_ready [OF assms(3,2)]
    list_append_ready [OF assms(1,2,3)] assms(4)
  show ?thesis by (auto simp: requeue_step_def requeue_def sched untouched_def)
next
  case False
  with assms show ?thesis by (simp add: requeue_step_def requeue_def untouched_def set_ready_same)
qed

lemma idle_step_ready:
  assumes "lists_rep s A" and "ready_is A rs"
    and "rs = [] \<Longrightarrow> blocked_status (status (tasks s (idle_thread s))) \<and> unlinked A (general_tag (idle_thread s))"
    and "with_idle (tasks s) rs (idle_thread s) = (T, rs')"
  shows "\<exists>s'. idle_step s = Inr s' \<and> lists_rep s' (set_ready A rs') \<and> cur s' = cur s \<and>
           tasks s' = T \<and> untouched s s'"
proof (cases "rs = []")
  case True
  with thread_unblock_ready [OF assms(1,2), of "idle_thread s"] list_empty_ready [OF assms(1,2)] assms(3,4)
  show ?thesis by (auto simp: idle_step_def with_idle_def)
next
  case False
  with list_empty_ready [OF assms(1,2)] assms show ?thesis
    by (simp add: idle_step_def with_idle_def untouched_def set_ready_same)
qed

lemma run_step_ready:
  assumes "lists_rep s A" and "ready_is A (n # rs)"
  shows "\<exists>s'. run_step s c ret = Inr s' \<and> lists_rep s' (set_ready A rs) \<and> cur s' = n \<and>
           tasks s' = run_next (tasks s) c n ret \<and> unlinked (set_ready A rs) (general_tag n) \<and> untouched s s'"
  using list_pop_ready [OF assms] list_empty_ready [OF assms]
    lists_rep_removed [OF assms(1), of thread_ready_list "[]" "general_tag n" "map general_tag rs"] assms(2)
  by (simp add: run_step_def sched set_status_def run_next_def Let_def untouched_def ready_is_def set_ready_def)

lemma with_idle_cases: "\<exists>T' n rs'. with_idle T rs idle = (T', n # rs')"
  by (cases rs) (auto simp: with_idle_def)

lemma schedule_ready:
  assumes "intr_get_status s = INTR_OFF" and "lists_rep s A" and "ready_is A rs"
    and "status (tasks s (cur s)) = TASK_RUNNING \<Longrightarrow> unlinked A (general_tag (cur s))"
    and "rs = [] \<Longrightarrow> status (tasks s (cur s)) \<noteq> TASK_RUNNING \<Longrightarrow>
           blocked_status (status (tasks s (idle_thread s))) \<and> unlinked A (general_tag (idle_thread s))"
    and "schedule_spec (tasks s) rs (cur s) (idle_thread s) ret = (T, rs', n)"
  shows "\<exists>s'. schedule s ret = Inr s' \<and> lists_rep s' (set_ready A rs') \<and> tasks s' = T \<and>
           cur s' = n \<and> unlinked (set_ready A rs') (general_tag n) \<and> untouched s s'"
proof -
  obtain T1 rs1 where rq: "requeue (tasks s) rs (cur s) = (T1, rs1)" by fastforce
  from requeue_step_ready [OF assms(2-4) rq] obtain s1 where s1: "requeue_step s = Inr s1"
    "lists_rep s1 (set_ready A rs1)" "cur s1 = cur s" "tasks s1 = T1" "untouched s s1" by blast
  obtain T2 m rs2 where wi: "with_idle T1 rs1 (idle_thread s) = (T2, m # rs2)"
    using with_idle_cases by blast
  have "rs1 = [] \<Longrightarrow> T1 = tasks s \<and> rs = [] \<and> status (tasks s (cur s)) \<noteq> TASK_RUNNING"
    using rq by (auto simp: requeue_def split: if_splits)
  then have idle: "rs1 = [] \<Longrightarrow> blocked_status (status (tasks s1 (idle_thread s1))) \<and>
      unlinked (set_ready A rs1) (general_tag (idle_thread s1))"
    using assms(3,5) s1(4,5) by (auto simp: untouched_def set_ready_same)
  have wi': "with_idle (tasks s1) rs1 (idle_thread s1) = (T2, m # rs2)"
    using wi s1(4,5) by (simp add: untouched_def)
  from idle_step_ready [OF s1(2) _ idle wi'] obtain s2 where s2: "idle_step s1 = Inr s2"
    "lists_rep s2 (set_ready A (m # rs2))" "cur s2 = cur s1" "tasks s2 = T2" "untouched s1 s2" by auto
  from run_step_ready [OF s2(2), of m rs2 "cur s" ret] obtain s3 where s3: "run_step s2 (cur s) ret = Inr s3"
    "lists_rep s3 (set_ready A rs2)" "cur s3 = m" "tasks s3 = run_next T2 (cur s) m ret" "untouched s2 s3"
    "unlinked (set_ready A rs2) (general_tag m)"
    using s2(4) by auto
  have "schedule s ret = Inr s3"
    using schedule_steps [OF assms(1)] s1(1) s2(1) s3(1) by simp
  moreover have "T = run_next T2 (cur s) m ret" "rs' = rs2" "n = m"
    using assms(6) rq wi by (auto simp: schedule_spec_def)
  ultimately show ?thesis using s3 s2(5) s1(5) by (auto simp: untouched_def)
qed

section \<open>The invariant\<close>

text \<open>
  Exactly the current task runs, exactly the tasks on the ready list are ready, the current task
  is in no list, and the idle thread, when it is blocked, is in none either.
\<close>

definition sched_inv :: "'a sched_scheme \<Rightarrow> (u32 \<Rightarrow> u32 list option) \<Rightarrow> u32 list \<Rightarrow> bool" where
  "sched_inv s A rs \<longleftrightarrow>
     lists_rep s A \<and> ready_is A rs \<and> unlinked A (general_tag (cur s)) \<and>
     (\<forall>t. status (tasks s t) = TASK_RUNNING \<longleftrightarrow> t = cur s) \<and>
     (\<forall>t. status (tasks s t) = TASK_READY \<longleftrightarrow> t \<in> set rs) \<and>
     (idle_thread s = cur s \<or> idle_thread s \<in> set rs \<or>
      blocked_status (status (tasks s (idle_thread s))) \<and> unlinked A (general_tag (idle_thread s)))"

definition next_of :: "u32 list \<Rightarrow> u32 \<Rightarrow> u32 list" where
  "next_of rs idle = (if rs = [] then [idle] else rs)"

lemma ready_distinct: "lists_rep s A \<Longrightarrow> ready_is A rs \<Longrightarrow> distinct rs"
  using lists_repD [of s A thread_ready_list "map general_tag rs"]
  by (auto simp: ready_is_def list_rep_def distinct_map)

lemma schedule_spec_blocked:
  assumes "status (T c) \<noteq> TASK_RUNNING" and "schedule_spec T rs c idle ret = (T', rs', n)"
  shows "n # rs' = next_of rs idle \<and>
         (\<forall>t. status (T' t) = (if t = n then TASK_RUNNING else status (T t))) \<and> kont (T' c) = ret"
  using assms by (cases rs) (auto simp: schedule_spec_def requeue_def with_idle_def run_next_def next_of_def Let_def)

lemma schedule_spec_running:
  assumes "status (T c) = TASK_RUNNING" and "schedule_spec T rs c idle ret = (T', rs', n)"
  shows "n # rs' = rs @ [c] \<and>
         (\<forall>t. status (T' t) = (if t = n then TASK_RUNNING else if t = c then TASK_READY else status (T t))) \<and>
         ticks (T' c) = priority (T c)"
  using assms by (cases rs) (auto simp: schedule_spec_def requeue_def with_idle_def run_next_def Let_def)

text \<open>\<open>schedule\<close> from a thread that is no longer running gives back the invariant.\<close>

lemma schedule_blocked_inv:
  assumes "intr_get_status s = INTR_OFF" and "lists_rep s A" and "ready_is A rs"
    and "status (tasks s (cur s)) \<noteq> TASK_RUNNING"
    and "\<forall>t. status (tasks s t) \<noteq> TASK_RUNNING"
    and "\<forall>t. status (tasks s t) = TASK_READY \<longleftrightarrow> t \<in> set rs"
    and "idle_thread s \<in> set rs \<or>
      blocked_status (status (tasks s (idle_thread s))) \<and> unlinked A (general_tag (idle_thread s))"
  shows "\<exists>s' rs'. schedule s ret = Inr s' \<and> sched_inv s' (set_ready A rs') rs' \<and>
           cur s' # rs' = next_of rs (idle_thread s) \<and> untouched s s' \<and> kont (tasks s' (cur s)) = ret \<and>
           (\<forall>t. status (tasks s' t) = (if t = cur s' then TASK_RUNNING else status (tasks s t)))"
proof -
  obtain T rs' n where sp: "schedule_spec (tasks s) rs (cur s) (idle_thread s) ret = (T, rs', n)"
    by (metis prod_cases3)
  have "rs = [] \<Longrightarrow> blocked_status (status (tasks s (idle_thread s))) \<and> unlinked A (general_tag (idle_thread s))"
    using assms(7) by auto
  with schedule_ready [OF assms(1-3) _ _ sp] assms(4) obtain s' where
    s': "schedule s ret = Inr s'" "lists_rep s' (set_ready A rs')" "tasks s' = T" "cur s' = n"
      "unlinked (set_ready A rs') (general_tag n)" "untouched s s'" by auto
  have n: "n # rs' = next_of rs (idle_thread s)"
    and st: "\<forall>t. status (T t) = (if t = n then TASK_RUNNING else status (tasks s t))"
    and k: "kont (T (cur s)) = ret"
    using schedule_spec_blocked [OF assms(4) sp] by auto
  have idle: "idle_thread s' = idle_thread s" using s'(6) by (simp add: untouched_def)
  have dist: "distinct (n # rs')"
    using n ready_distinct [OF assms(2,3)] by (cases rs) (auto simp: next_of_def)
  have "status (T t) = TASK_READY \<longleftrightarrow> t \<in> set rs'" for t
    using st assms(6) n dist by (cases rs) (auto simp: next_of_def)
  moreover have "idle_thread s = n \<or> idle_thread s \<in> set rs' \<or>
      blocked_status (status (T (idle_thread s))) \<and> unlinked (set_ready A rs') (general_tag (idle_thread s))"
  proof (cases "idle_thread s \<in> set (n # rs')")
    case False
    then have "rs = n # rs'" "idle_thread s \<notin> set rs" using n by (auto simp: next_of_def split: if_splits)
    with assms(3,7) st False have b: "blocked_status (status (T (idle_thread s)))"
      and u: "unlinked A (general_tag (idle_thread s))" by auto
    have "unlinked (set_ready A rs') (general_tag (idle_thread s))"
      using u assms(3) \<open>rs = n # rs'\<close>
      by (fastforce simp: set_ready_def unlinked_upd unlinked_def ready_is_def list_cells_def)
    with b show ?thesis by simp
  qed auto
  ultimately have "sched_inv s' (set_ready A rs') rs'"
    using s' st assms(5) idle by (auto simp: sched_inv_def)
  with s' n st k show ?thesis by auto
qed

text \<open>
  C8: \<open>schedule\<close> refines round robin.  With interrupts off it moves a thread that is still
  running to the end of the ready list with a fresh time slice, leaves a blocked one off it, falls
  back to the idle thread when nothing is ready, and runs the first thread of the list; the heap
  then holds the shortened list, all wait queues are as before, and no assertion fires.  With
  interrupts on it panics.
\<close>

theorem schedule_refines:
  assumes "lists_rep s A" and "ready_is A rs"
    and "status (tasks s (cur s)) = TASK_RUNNING \<Longrightarrow> unlinked A (general_tag (cur s))"
    and "rs = [] \<Longrightarrow> status (tasks s (cur s)) \<noteq> TASK_RUNNING \<Longrightarrow>
           blocked_status (status (tasks s (idle_thread s))) \<and> unlinked A (general_tag (idle_thread s))"
    and "schedule_spec (tasks s) rs (cur s) (idle_thread s) ret = (T, rs', n)"
  shows "if intr_get_status s = INTR_ON then schedule s ret = Inl Panic
         else \<exists>s'. schedule s ret = Inr s' \<and> lists_rep s' (set_ready A rs') \<and> tasks s' = T \<and>
                cur s' = n \<and> eflags s' = eflags s \<and> idle_thread s' = idle_thread s"
proof (cases "intr_get_status s")
  case INTR_ON
  then show ?thesis by (simp add: schedule_def)
next
  case INTR_OFF
  from schedule_ready [OF this assms] INTR_OFF show ?thesis by (auto simp: untouched_def)
qed

text \<open>A thread that is about to block may already stand in a wait queue.\<close>

definition may_block :: "'a sched_scheme \<Rightarrow> (u32 \<Rightarrow> u32 list option) \<Rightarrow> u32 list \<Rightarrow> bool" where
  "may_block s A rs \<longleftrightarrow>
     lists_rep s A \<and> ready_is A rs \<and>
     (\<forall>t. status (tasks s t) = TASK_RUNNING \<longleftrightarrow> t = cur s) \<and>
     (\<forall>t. status (tasks s t) = TASK_READY \<longleftrightarrow> t \<in> set rs) \<and>
     (idle_thread s \<in> set rs \<or>
      (idle_thread s = cur s \<or> blocked_status (status (tasks s (idle_thread s)))) \<and>
       unlinked A (general_tag (idle_thread s)))"

lemma sched_inv_may_block: "sched_inv s A rs \<Longrightarrow> may_block s A rs"
  by (auto simp: sched_inv_def may_block_def)

lemma thread_block_ready:
  assumes "may_block s A rs" and "blocked_status w"
  shows "\<exists>s' rs'. thread_block s w = Inr s' \<and> sched_inv s' (set_ready A rs') rs' \<and>
           cur s' # rs' = next_of rs (idle_thread s) \<and> idle_thread s' = idle_thread s \<and>
           sched.more s' = sched.more s \<and>
           kont (tasks s' (cur s)) = AfterSchedule (intr_get_status s) \<and>
           (\<forall>t. status (tasks s' t) =
              (if t = cur s' then TASK_RUNNING else if t = cur s then w else status (tasks s t)))"
proof -
  let ?d = "set_status (snd (intr_disable s)) (cur s) w"
  have w: "w \<noteq> TASK_RUNNING" "w \<noteq> TASK_READY" using assms(2) by (auto simp: blocked_status_def)
  have off: "intr_get_status ?d = INTR_OFF"
    using intr [of s] status_only_eflags [of ?d "snd (intr_disable s)"]
    by (simp add: set_status_def sched)
  have d: "lists_rep ?d A" "tasks ?d = (tasks s)(cur s := (tasks s (cur s))\<lparr>status := w\<rparr>)"
    "cur ?d = cur s" "idle_thread ?d = idle_thread s" "sched.more ?d = sched.more s"
    using assms(1) by (simp_all add: set_status_def sched may_block_def)
  have "status (tasks s (cur s)) = TASK_RUNNING" "status (tasks s (cur s)) = TASK_READY \<longleftrightarrow> cur s \<in> set rs"
    using assms(1) by (simp_all add: may_block_def)
  then have cur: "cur s \<notin> set rs" by simp
  have r: "ready_is A rs" "\<forall>t. status (tasks s t) = TASK_RUNNING \<longleftrightarrow> t = cur s"
    "\<forall>t. status (tasks s t) = TASK_READY \<longleftrightarrow> t \<in> set rs"
    using assms(1) by (simp_all add: may_block_def)
  have st: "status (tasks ?d t) = (if t = cur s then w else status (tasks s t))" for t by (simp add: d(2))
  have p1: "status (tasks ?d (cur ?d)) \<noteq> TASK_RUNNING" using w by (simp add: d(3) st)
  have p2: "\<forall>t. status (tasks ?d t) \<noteq> TASK_RUNNING" using w r(2) by (simp add: st)
  have p3: "\<forall>t. status (tasks ?d t) = TASK_READY \<longleftrightarrow> t \<in> set rs" using w r(3) cur by (auto simp: st)
  have p4: "idle_thread ?d \<in> set rs \<or>
      blocked_status (status (tasks ?d (idle_thread ?d))) \<and> unlinked A (general_tag (idle_thread ?d))"
    using assms by (auto simp: st d(4) may_block_def)
  from schedule_blocked_inv [OF off d(1) r(1) p1 p2 p3 p4, of "AfterSchedule (intr_get_status s)"] d(3,4)
  obtain s' rs' where s': "schedule ?d (AfterSchedule (intr_get_status s)) = Inr s'"
    "sched_inv s' (set_ready A rs') rs'" "cur s' # rs' = next_of rs (idle_thread s)" "untouched ?d s'"
    "kont (tasks s' (cur s)) = AfterSchedule (intr_get_status s)"
    "\<forall>t. status (tasks s' t) = (if t = cur s' then TASK_RUNNING else status (tasks ?d t))"
    by auto
  have "thread_block s w = Inr (resume s')"
    using assms(2) s'(1) by (simp add: thread_block_def case_prod_beta Let_def intr sched)
  moreover have "sched_inv (resume s') (set_ready A rs') rs'"
    using s'(2) by (simp add: sched_inv_def sched)
  moreover have "\<forall>t. status (tasks (resume s') t) =
      (if t = cur (resume s') then TASK_RUNNING else if t = cur s then w else status (tasks s t))"
    using s'(6) by (simp add: sched st)
  ultimately show ?thesis using s'(3-5) d by (intro exI [of _ "resume s'"] exI [of _ rs']) (simp add: sched untouched_def)
qed

text \<open>
  C9: \<open>thread_block\<close>.  From a state in which exactly the current thread runs and exactly the
  listed threads are ready, blocking never fails: the first ready thread runs (idle if there is
  none), the caller has the status it asked for and is in no ready list, it will find its
  interrupt status restored when it is run again, every other thread keeps its status, and the
  scheduler's invariant holds.  A status that is not a blocking one is a panic.
\<close>

theorem thread_block_inv:
  assumes "may_block s A rs"
  shows "if \<not> blocked_status w then thread_block s w = Inl Panic
         else \<exists>s' rs'. thread_block s w = Inr s' \<and> sched_inv s' (set_ready A rs') rs' \<and>
                cur s' # rs' = next_of rs (idle_thread s) \<and>
                kont (tasks s' (cur s)) = AfterSchedule (intr_get_status s) \<and>
                (\<forall>t. status (tasks s' t) =
                   (if t = cur s' then TASK_RUNNING else if t = cur s then w else status (tasks s t)))"
proof (cases "blocked_status w")
  case True
  with thread_block_ready [OF assms True] show ?thesis by (simp only: not_True_eq_False if_False) blast
qed (simp add: thread_block_def)

text \<open>Unblocking puts the thread in front of the ready list.\<close>

lemma unlinked_set_ready:
  assumes "unlinked A (general_tag u)" and "ready_is A rs" and "u \<notin> set rs'"
  shows "unlinked (set_ready A rs') (general_tag u)"
proof -
  have "general_tag u \<notin> list_cells thread_ready_list (map general_tag rs)"
    using assms(1,2) by (simp add: unlinked_def ready_is_def)
  then show ?thesis using assms(1,3) by (auto simp: set_ready_def unlinked_upd unlinked_def list_cells_def)
qed

lemma thread_unblock_sched:
  assumes "sched_inv s A rs" and "blocked_status (status (tasks s t))" and "unlinked A (general_tag t)"
  shows "\<exists>s'. thread_unblock s t = Inr s' \<and> sched_inv s' (set_ready A (t # rs)) (t # rs) \<and>
           cur s' = cur s \<and> tasks s' = (tasks s)(t := (tasks s t)\<lparr>status := TASK_READY\<rparr>) \<and> untouched s s'"
proof -
  have inv: "lists_rep s A" "ready_is A rs" using assms(1) by (simp_all add: sched_inv_def)
  from thread_unblock_ready [OF inv assms(2,3)] obtain s' where
    s': "thread_unblock s t = Inr s'" "lists_rep s' (set_ready A (t # rs))" "cur s' = cur s"
    "tasks s' = (tasks s)(t := (tasks s t)\<lparr>status := TASK_READY\<rparr>)" "untouched s s'" by blast
  have "status (tasks s t) = TASK_RUNNING \<longleftrightarrow> t = cur s" "status (tasks s t) = TASK_READY \<longleftrightarrow> t \<in> set rs"
    using assms(1) by (simp_all add: sched_inv_def)
  then have t: "t \<noteq> cur s" "t \<notin> set rs" using assms(2) by (auto simp: blocked_status_def)
  have notready: "cur s \<notin> set rs"
    using assms(1) unlinked_not_ready [of A "cur s" rs] by (simp add: sched_inv_def)
  with t have u: "unlinked (set_ready A (t # rs)) (general_tag (cur s))"
    using unlinked_set_ready [of A "cur s" rs "t # rs"] inv(2) notready assms(1) by (simp add: sched_inv_def)
  have "idle_thread s = cur s \<or> idle_thread s \<in> set (t # rs) \<or>
      blocked_status (status (tasks s' (idle_thread s))) \<and>
      unlinked (set_ready A (t # rs)) (general_tag (idle_thread s))"
  proof (cases "idle_thread s = cur s \<or> idle_thread s \<in> set (t # rs)")
    case False
    then have "blocked_status (status (tasks s (idle_thread s)))" "unlinked A (general_tag (idle_thread s))"
      using assms(1) by (auto simp: sched_inv_def)
    with False s'(4) inv(2) show ?thesis by (simp add: unlinked_set_ready)
  qed blast
  then have "sched_inv s' (set_ready A (t # rs)) (t # rs)"
    using s' u t assms(1) by (auto simp: sched_inv_def untouched_def)
  with s' show ?thesis by blast
qed

text \<open>
  \<open>thread_unblock\<close>.  A blocked thread that is in no list becomes ready and is the next one
  to run, the current thread goes on running with its interrupt status, every other thread keeps
  its status and the invariant is preserved; unblocking a thread that is not blocked panics.
\<close>

theorem thread_unblock_inv:
  assumes "sched_inv s A rs" and "blocked_status (status (tasks s t)) \<Longrightarrow> unlinked A (general_tag t)"
  shows "if \<not> blocked_status (status (tasks s t)) then thread_unblock s t = Inl Panic
         else \<exists>s'. thread_unblock s t = Inr s' \<and> sched_inv s' (set_ready A (t # rs)) (t # rs) \<and>
                cur s' = cur s \<and> eflags s' = eflags s \<and>
                (\<forall>u. u \<noteq> t \<longrightarrow> tasks s' u = tasks s u)"
proof (cases "blocked_status (status (tasks s t))")
  case False
  then show ?thesis by (simp add: thread_unblock_def case_prod_beta Let_def sched)
next
  case True
  with thread_unblock_sched [OF assms(1) True assms(2)] show ?thesis by (auto simp: untouched_def)
qed

section \<open>Every ready thread runs\<close>

lemma thread_yield_ready:
  assumes "sched_inv s A rs"
  shows "\<exists>s' rs'. thread_yield s = Inr s' \<and> sched_inv s' (set_ready A rs') rs' \<and>
           cur s' # rs' = rs @ [cur s] \<and> idle_thread s' = idle_thread s"
proof -
  let ?i = "snd (intr_disable s)"
  let ?d = "set_status (list_append ?i thread_ready_list (general_tag (cur s))) (cur s) TASK_READY"
  let ?rs = "rs @ [cur s]"
  have inv: "lists_rep s A" "ready_is A rs" "unlinked A (general_tag (cur s))"
    "\<forall>t. status (tasks s t) = TASK_RUNNING \<longleftrightarrow> t = cur s"
    "\<forall>t. status (tasks s t) = TASK_READY \<longleftrightarrow> t \<in> set rs"
    using assms by (simp_all add: sched_inv_def)
  have i: "lists_rep ?i A" using inv(1) by (simp add: sched)
  have nr: "cur s \<notin> set rs" by (rule unlinked_not_ready [OF inv(3,2)])
  have off: "intr_get_status ?d = INTR_OFF"
    using intr [of s] status_only_eflags [of ?d ?i] by (simp add: set_status_def sched)
  have d: "lists_rep ?d (set_ready A ?rs)" "cur ?d = cur s" "idle_thread ?d = idle_thread s"
    using list_append_ready [OF i inv(2,3)] by (simp_all add: set_status_def sched)
  have st: "status (tasks ?d t) = (if t = cur s then TASK_READY else status (tasks s t))" for t
    by (simp add: set_status_def sched)
  have p: "status (tasks ?d (cur ?d)) \<noteq> TASK_RUNNING" "\<forall>t. status (tasks ?d t) \<noteq> TASK_RUNNING"
    using inv(4) by (simp_all add: st d(2))
  have p3: "\<forall>t. status (tasks ?d t) = TASK_READY \<longleftrightarrow> t \<in> set ?rs" using inv(5) by (auto simp: st)
  have p4: "idle_thread ?d \<in> set ?rs \<or>
      blocked_status (status (tasks ?d (idle_thread ?d))) \<and>
      unlinked (set_ready A ?rs) (general_tag (idle_thread ?d))"
  proof (cases "idle_thread s \<in> set ?rs")
    case False
    with assms show ?thesis by (auto simp: st d(3) sched_inv_def intro: unlinked_set_ready)
  qed (simp add: d(3))
  from schedule_blocked_inv [OF off d(1) _ p p3 p4] obtain s' rs' where
    s': "schedule ?d (AfterSchedule (intr_get_status s)) = Inr s'" "sched_inv s' (set_ready A rs') rs'"
    "cur s' # rs' = next_of ?rs (idle_thread s)" "untouched ?d s'" using d(3) by fastforce
  have "thread_yield s = Inr (resume s')"
    using elem_find_ready [OF i inv(2)] nr s'(1) intr(7) [of s]
    by (simp add: thread_yield_def case_prod_beta Let_def sched)
  moreover have "sched_inv (resume s') (set_ready A rs') rs'" using s'(2) by (simp add: sched_inv_def sched)
  ultimately show ?thesis
    using s'(3,4) d(3) by (intro exI [of _ "resume s'"] exI [of _ rs']) (simp add: sched untouched_def next_of_def)
qed

text \<open>The same for a thread that is preempted: it keeps its place behind the others.\<close>

lemma schedule_running_inv:
  assumes "intr_get_status s = INTR_OFF" and "sched_inv s A rs"
  shows "\<exists>s' rs'. schedule s ret = Inr s' \<and> sched_inv s' (set_ready A rs') rs' \<and>
           cur s' # rs' = rs @ [cur s] \<and> untouched s s' \<and>
           ticks (tasks s' (cur s)) = priority (tasks s (cur s)) \<and>
           (\<forall>t. status (tasks s' t) = (if t = cur s' then TASK_RUNNING else if t = cur s then TASK_READY
                  else status (tasks s t)))"
proof -
  have inv: "lists_rep s A" "ready_is A rs" "unlinked A (general_tag (cur s))"
    "\<forall>t. status (tasks s t) = TASK_RUNNING \<longleftrightarrow> t = cur s"
    "\<forall>t. status (tasks s t) = TASK_READY \<longleftrightarrow> t \<in> set rs"
    using assms(2) by (simp_all add: sched_inv_def)
  have run: "status (tasks s (cur s)) = TASK_RUNNING" using inv(4) by simp
  obtain T rs' n where sp: "schedule_spec (tasks s) rs (cur s) (idle_thread s) ret = (T, rs', n)"
    by (metis prod_cases3)
  from schedule_ready [OF assms(1) inv(1,2) inv(3) _ sp] run obtain s' where
    s': "schedule s ret = Inr s'" "lists_rep s' (set_ready A rs')" "tasks s' = T" "cur s' = n"
      "unlinked (set_ready A rs') (general_tag n)" "untouched s s'" by auto
  have n: "n # rs' = rs @ [cur s]"
    and st: "\<forall>t. status (T t) = (if t = n then TASK_RUNNING else if t = cur s then TASK_READY else status (tasks s t))"
    and tk: "ticks (T (cur s)) = priority (tasks s (cur s))"
    using schedule_spec_running [OF run sp] by auto
  have idle: "idle_thread s' = idle_thread s" using s'(6) by (simp add: untouched_def)
  have "distinct (rs @ [cur s])"
    using ready_distinct [OF inv(1,2)] unlinked_not_ready [OF inv(3,2)] by simp
  then have dist: "distinct (n # rs')" unfolding n .
  have mem: "t \<in> set (n # rs') \<longleftrightarrow> t \<in> set rs \<or> t = cur s" for t unfolding n by auto
  have "status (T t) = TASK_READY \<longleftrightarrow> t \<in> set rs'" for t
    using st inv(5) mem [of t] dist by auto
  moreover have "idle_thread s = n \<or> idle_thread s \<in> set rs' \<or>
      blocked_status (status (T (idle_thread s))) \<and> unlinked (set_ready A rs') (general_tag (idle_thread s))"
  proof (cases "idle_thread s \<in> set (n # rs')")
    case False
    then have "idle_thread s \<notin> set rs" "idle_thread s \<noteq> cur s" using mem by auto
    then have "blocked_status (status (tasks s (idle_thread s)))" "unlinked A (general_tag (idle_thread s))"
      using assms(2) by (auto simp: sched_inv_def)
    with False st \<open>idle_thread s \<noteq> cur s\<close> inv(2) show ?thesis by (simp add: unlinked_set_ready)
  qed auto
  moreover have "status (T t) = TASK_RUNNING \<longleftrightarrow> t = n" for t using st inv(4) by auto
  ultimately have "sched_inv s' (set_ready A rs') rs'"
    using s' idle by (auto simp: sched_inv_def)
  with s' n st tk show ?thesis by auto
qed

fun yields :: "nat \<Rightarrow> 'a sched_scheme \<Rightarrow> 'a sched_scheme res" where
  "yields 0 s = Inr s"
| "yields (Suc k) s = rbind (thread_yield s) (yields k)"

text \<open>
  C7: round robin.  When the running threads keep giving up the processor, \<open>k\<close> calls of
  \<open>thread_yield\<close> rotate the current thread and the ready list by \<open>k\<close> places, without failing and
  with the invariant kept: every ready thread runs after as many calls as there are threads before
  it, and after one call for each thread the first one runs again.
\<close>

theorem yield_round_robin:
  assumes "sched_inv s A rs"
  shows "\<exists>s' rs'. yields k s = Inr s' \<and> sched_inv s' (set_ready A rs') rs' \<and>
           cur s' # rs' = rotate k (cur s # rs)"
  using assms
proof (induction k arbitrary: s A rs)
  case 0
  then show ?case by (auto simp: sched_inv_def set_ready_same)
next
  case (Suc k)
  from thread_yield_ready [OF Suc.prems] obtain s1 rs1 where
    s1: "thread_yield s = Inr s1" "sched_inv s1 (set_ready A rs1) rs1" "cur s1 # rs1 = rs @ [cur s]" by blast
  from Suc.IH [OF s1(2)] obtain s' rs' where
    "yields k s1 = Inr s'" "sched_inv s' (set_ready A rs') rs'" "cur s' # rs' = rotate k (cur s1 # rs1)"
    by auto
  moreover have "rotate k (cur s1 # rs1) = rotate (Suc k) (cur s # rs)"
    unfolding s1(3) rotate_Suc rotate1_rotate_swap by simp
  ultimately show ?case using s1(1) by auto
qed

section \<open>A concrete state\<close>

definition demo_task :: "task_status \<Rightarrow> task_struct" where
  "demo_task w = \<lparr>self_kstack = 0, pid = 1, status = w, priority = 31, task_name = replicate 16 0,
     ticks = 5, elapsed_ticks = 0, fd_table = [0, 1, 2, -1, -1, -1, -1, -1], pgdir = 0,
     userprog_vaddr = kernel_vaddr some_vm, cwd_inode_nr = 0, parent_pid = -1,
     stack_magic = 0x19870916, kont = AfterSchedule INTR_ON\<rparr>"

definition demo_empty :: sched where
  "demo_empty = vm.extend some_vm
     \<lparr>tasks = (\<lambda>_. demo_task TASK_DIED)(0xc009e000 := demo_task TASK_RUNNING,
        0xc0101000 := demo_task TASK_READY, 0xc0102000 := demo_task TASK_READY,
        0xc0103000 := demo_task TASK_BLOCKED),
      cur = 0xc009e000, main_thread = 0xc009e000, idle_thread = 0xc0102000, next_pid = 3,
      cr3 = 0x100000, esp0 = 0\<rparr>"

definition demo_sched :: sched where
  "demo_sched =
     (let s = list_init demo_empty thread_ready_list;
          s = list_append s thread_ready_list (general_tag 0xc0101000)
      in list_append s thread_ready_list (general_tag 0xc0102000))"

definition demo_lists :: "u32 \<Rightarrow> u32 list option" where
  "demo_lists = set_ready Map.empty [0xc0101000, 0xc0102000]"

lemma unlinked_only_ready:
  "unlinked (set_ready Map.empty rs) e \<longleftrightarrow> e \<notin> list_cells thread_ready_list (map general_tag rs)"
  by (simp add: set_ready_def unlinked_upd)

lemma demo_unlinked:
  "unlinked (set_ready Map.empty []) (general_tag 0xc0101000)"
  "unlinked (set_ready Map.empty [0xc0101000]) (general_tag 0xc0102000)"
  "unlinked demo_lists (general_tag 0xc009e000)"
  "unlinked demo_lists (general_tag 0xc0103000)"
  by (simp_all add: unlinked_only_ready demo_lists_def list_cells_def thread_ready_list_def TAIL_def general_tag_def)

lemma demo_lists_rep: "lists_rep demo_sched demo_lists"
proof -
  let ?s = "list_init demo_empty thread_ready_list"
  have 0: "lists_rep ?s (set_ready Map.empty [])"
    using list_init_rep [of demo_empty thread_ready_list] by (auto simp: lists_rep_def set_ready_def split: if_splits)
  have 1: "lists_rep (list_append ?s thread_ready_list (general_tag 0xc0101000)) (set_ready Map.empty [0xc0101000])"
    using list_append_ready [OF 0, of "[]" "0xc0101000"] demo_unlinked(1) by simp
  show ?thesis
    using list_append_ready [OF 1, of "[0xc0101000]" "0xc0102000"] demo_unlinked(2)
    by (simp add: demo_sched_def Let_def demo_lists_def)
qed

lemma demo_inv: "sched_inv demo_sched demo_lists [0xc0101000, 0xc0102000]"
proof -
  have f: "tasks demo_sched = tasks demo_empty" "cur demo_sched = 0xc009e000" "idle_thread demo_sched = 0xc0102000"
    by (simp_all add: demo_sched_def Let_def sched list_init_def set_prv_def set_nxt_def demo_empty_def vm.defs)
  have t: "tasks demo_empty = (\<lambda>_. demo_task TASK_DIED)(0xc009e000 := demo_task TASK_RUNNING,
        0xc0101000 := demo_task TASK_READY, 0xc0102000 := demo_task TASK_READY,
        0xc0103000 := demo_task TASK_BLOCKED)"
    by (simp add: demo_empty_def vm.defs)
  show ?thesis
    using demo_lists_rep demo_unlinked(3) f by (simp add: sched_inv_def t demo_lists_def demo_task_def)
qed

lemma demo_ready: "ready_is demo_lists [0xc0101000, 0xc0102000]"
  by (simp add: demo_lists_def)

theorem schedule_refines_witness:
  "\<exists>s'. schedule (cli demo_sched) InHandler = Inr s' \<and> cur s' = 0xc0101000"
proof -
  let ?s = "cli demo_sched"
  have f: "tasks ?s = tasks demo_sched" "cur ?s = cur demo_sched" "idle_thread ?s = idle_thread demo_sched"
    "lists_rep ?s demo_lists"
    using demo_lists_rep by (simp_all add: cli_def lists_rep_def list_rep_def)
  obtain T rs' n where sp: "schedule_spec (tasks ?s) [0xc0101000, 0xc0102000] (cur ?s) (idle_thread ?s) InHandler = (T, rs', n)"
    by (metis prod_cases3)
  have run: "status (tasks ?s (cur ?s)) = TASK_RUNNING" and u: "unlinked demo_lists (general_tag (cur ?s))"
    using demo_inv f by (auto simp: sched_inv_def)
  from schedule_refines [OF f(4) demo_ready u _ sp] obtain s' where
    "schedule ?s InHandler = Inr s'" "cur s' = n" by (auto simp: intr)
  moreover have "n = 0xc0101000" using schedule_spec_running [OF run sp] by simp
  ultimately show ?thesis by blast
qed

theorem thread_block_inv_witness:
  "\<exists>s'. thread_block demo_sched TASK_WAITING = Inr s' \<and> cur s' = 0xc0101000"
  using thread_block_inv [OF sched_inv_may_block [OF demo_inv], of TASK_WAITING]
  by (auto simp: blocked_status_def next_of_def)

theorem thread_unblock_inv_witness:
  "\<exists>s'. thread_unblock demo_sched 0xc0103000 = Inr s' \<and>
     sched_inv s' (set_ready demo_lists [0xc0103000, 0xc0101000, 0xc0102000]) [0xc0103000, 0xc0101000, 0xc0102000]"
proof -
  have "status (tasks demo_sched 0xc0103000) = TASK_BLOCKED"
    by (simp add: demo_sched_def Let_def sched list_init_def set_prv_def set_nxt_def demo_empty_def vm.defs demo_task_def)
  then show ?thesis
    using thread_unblock_inv [OF demo_inv demo_unlinked(4)] by (auto simp: blocked_status_def)
qed

theorem yield_round_robin_witness: "\<exists>s'. yields 2 demo_sched = Inr s' \<and> cur s' = 0xc0102000"
proof -
  have "cur demo_sched = 0xc009e000"
    by (simp add: demo_sched_def Let_def sched list_init_def set_prv_def set_nxt_def demo_empty_def vm.defs)
  then show ?thesis using yield_round_robin [OF demo_inv, of 2] by (auto simp: numeral_2_eq_2)
qed

end
