(* ===== verification/Sync.thy ===== *)
theory Sync
  imports Thread
begin

text \<open>
  Semaphores and locks, from \<open>thread/sync.c\<close>.

  A semaphore is known by its address: \<open>sem_value\<close> is its value and its wait queue is the
  heap list 4 bytes further on.  A lock has its holder, its semaphore 4 bytes further on and the
  number of nested acquisitions.  \<open>sema_down_pass\<close> is one round of the loop of
  \<open>sema_down\<close>: it takes the semaphore, or queues the thread and blocks it, and then another
  thread runs; when the thread is woken it makes the next round.

  The second half follows many threads that use one lock, in any interleaving the scheduler and
  the timer allow, and proves mutual exclusion, the absence of lost wake-ups, and that no
  assertion of these functions ever fires.
\<close>

section \<open>The operations\<close>

record sync = sched +
  sem_value :: "u32 \<Rightarrow> u8"
  lock_holder :: "u32 \<Rightarrow> u32"
  holder_repeat_nr :: "u32 \<Rightarrow> u32"

definition waiters :: "u32 \<Rightarrow> u32" where
  "waiters psema = psema + 4"

definition semaphore :: "u32 \<Rightarrow> u32" where
  "semaphore plock = plock + 4"

definition set_value :: "'a sync_scheme \<Rightarrow> u32 \<Rightarrow> u8 \<Rightarrow> 'a sync_scheme" where
  "set_value s psema v = s\<lparr>sem_value := (sem_value s)(psema := v)\<rparr>"

definition set_holder :: "'a sync_scheme \<Rightarrow> u32 \<Rightarrow> u32 \<Rightarrow> u32 \<Rightarrow> 'a sync_scheme" where
  "set_holder s plock t n =
     s\<lparr>lock_holder := (lock_holder s)(plock := t), holder_repeat_nr := (holder_repeat_nr s)(plock := n)\<rparr>"

definition sema_init :: "'a sync_scheme \<Rightarrow> u32 \<Rightarrow> u32 \<Rightarrow> 'a sync_scheme" where
  "sema_init s psema v = list_init (set_value s psema (ucast v)) (waiters psema)"

definition lock_init :: "'a sync_scheme \<Rightarrow> u32 \<Rightarrow> 'a sync_scheme" where
  "lock_init s plock = set_holder (sema_init s (semaphore plock) 1) plock NULL 0"

text \<open>One round of the loop, with interrupts off; \<open>True\<close> when the semaphore was taken.\<close>

definition sema_down_pass :: "'a sync_scheme \<Rightarrow> u32 \<Rightarrow> intr_status \<Rightarrow> (bool \<times> 'a sync_scheme) res" where
  "sema_down_pass s psema old_status =
     (if 0 = sem_value s psema then
        rbind (elem_find s (waiters psema) (general_tag (cur s))) (\<lambda>found.
          if found then Inl Panic
          else let s = list_append s (waiters psema) (general_tag (cur s))
               in rbind (thread_block s TASK_BLOCKED) (\<lambda>s. Inr (False, s)))
      else
        let s = set_value s psema (sem_value s psema - 1)
        in if 0 \<noteq> sem_value s psema then Inl Panic
           else Inr (True, snd (intr_set_status s old_status)))"

definition sema_down :: "'a sync_scheme \<Rightarrow> u32 \<Rightarrow> (bool \<times> 'a sync_scheme) res" where
  "sema_down s psema = (let (old_status, s) = intr_disable s in sema_down_pass s psema old_status)"

definition sema_up :: "'a sync_scheme \<Rightarrow> u32 \<Rightarrow> 'a sync_scheme res" where
  "sema_up s psema =
     (let (old_status, s) = intr_disable s
      in if 0 \<noteq> sem_value s psema then Inl Panic
         else rbind
           (if \<not> list_empty s (waiters psema) then
              rbind (list_pop s (waiters psema)) (\<lambda>(tag, s). thread_unblock s (tag AND 0xfffff000))
            else Inr s)
           (\<lambda>s. let s = set_value s psema (sem_value s psema + 1)
                in if sem_value s psema \<noteq> 1 then Inl Panic
                   else Inr (snd (intr_set_status s old_status))))"

text \<open>
  \<open>lock_acquire\<close> and \<open>lock_release\<close>, cut where interrupts are on and another thread may come
  in between: before and after \<open>sema_down\<close>, and before \<open>sema_up\<close>.
\<close>

definition lock_take :: "'a sync_scheme \<Rightarrow> u32 \<Rightarrow> 'a sync_scheme res" where
  "lock_take s plock =
     (let s = s\<lparr>lock_holder := (lock_holder s)(plock := cur s)\<rparr>
      in if 0 \<noteq> holder_repeat_nr s plock then Inl Panic
         else Inr (s\<lparr>holder_repeat_nr := (holder_repeat_nr s)(plock := 1)\<rparr>))"

definition lock_again :: "'a sync_scheme \<Rightarrow> u32 \<Rightarrow> 'a sync_scheme" where
  "lock_again s plock = s\<lparr>holder_repeat_nr := (holder_repeat_nr s)(plock := holder_repeat_nr s plock + 1)\<rparr>"

definition lock_acquire :: "'a sync_scheme \<Rightarrow> u32 \<Rightarrow> (bool \<times> 'a sync_scheme) res" where
  "lock_acquire s plock =
     (if lock_holder s plock \<noteq> cur s then
        rbind (sema_down s (semaphore plock)) (\<lambda>(got, s).
          if got then rbind (lock_take s plock) (\<lambda>s. Inr (True, s)) else Inr (False, s))
      else Inr (True, lock_again s plock))"

definition lock_drop :: "'a sync_scheme \<Rightarrow> u32 \<Rightarrow> (bool \<times> 'a sync_scheme) res" where
  "lock_drop s plock =
     (if lock_holder s plock \<noteq> cur s then Inl Panic
      else if holder_repeat_nr s plock > 1 then
        Inr (False, s\<lparr>holder_repeat_nr := (holder_repeat_nr s)(plock := holder_repeat_nr s plock - 1)\<rparr>)
      else if holder_repeat_nr s plock \<noteq> 1 then Inl Panic
      else Inr (True, set_holder s plock NULL 0))"

definition lock_release :: "'a sync_scheme \<Rightarrow> u32 \<Rightarrow> 'a sync_scheme res" where
  "lock_release s plock =
     rbind (lock_drop s plock) (\<lambda>(last, s). if last then sema_up s (semaphore plock) else Inr s)"

section \<open>Frame\<close>

lemma sync_more:
  assumes "sched.more s = sched.more (t :: 'a sync_scheme)"
  shows "sem_value s = sem_value t" "lock_holder s = lock_holder t"
    "holder_repeat_nr s = holder_repeat_nr t" "sync.more s = sync.more t"
  using assms by (cases s; cases t; simp)+

lemmas list_ops_sync [sched] =
  sync_more [OF list_ops_sched(4)] sync_more [OF list_ops_sched(8)] sync_more [OF list_ops_sched(12)]
  sync_more [OF intr_sched(4)] sync_more [OF intr_sched(8)]

lemma set_value_frame [sched]:
  "nxt (set_value s p v) = nxt s" "prv (set_value s p v) = prv s" "eflags (set_value s p v) = eflags s"
  "tasks (set_value s p v) = tasks s" "cur (set_value s p v) = cur s"
  "idle_thread (set_value s p v) = idle_thread s" "sync.more (set_value s p v) = sync.more s"
  "sem_value (set_value s p v) = (sem_value s)(p := v)" "lock_holder (set_value s p v) = lock_holder s"
  "holder_repeat_nr (set_value s p v) = holder_repeat_nr s"
  by (simp_all add: set_value_def)

lemma sched_inv_cong:
  assumes "nxt s' = nxt s" "prv s' = prv s" "tasks s' = tasks s" "cur s' = cur s" "idle_thread s' = idle_thread s"
  shows "sched_inv s' A rs \<longleftrightarrow> sched_inv s A rs"
  using assms by (simp add: sched_inv_def lists_rep_links [of s' s])

section \<open>Threads that use one lock\<close>

text \<open>
  Where each thread is with respect to the lock \<open>l\<close>: outside, past the test for a nested
  acquisition, in the loop of \<open>sema_down\<close> with the interrupt status it saved, holding the
  semaphore but not yet entered as holder, holder, or past the reset of the holder in
  \<open>lock_release\<close>.
\<close>

datatype pc = Out | Call | Down intr_status | Got | Held | Rel

record threads = sync +
  pc :: "u32 \<Rightarrow> pc"

definition set_pc :: "'a threads_scheme \<Rightarrow> pc \<Rightarrow> 'a threads_scheme" where
  "set_pc s p = s\<lparr>pc := (pc s)(cur s := p)\<rparr>"

datatype action =
  Acquire | EnterDown | Pass | Take | Release | Up
  | Preempt | Block task_status | Unblock u32

text \<open>
  What the current thread (or the timer) does next.  The first six are the pieces of
  \<open>lock_acquire\<close> and \<open>lock_release\<close>; \<open>Preempt\<close> is a timer interrupt at the end of the
  time slice; \<open>Block\<close> and \<open>Unblock\<close> stand for everything else a thread may wait for, also
  while it holds the lock.
\<close>

fun act :: "u32 \<Rightarrow> action \<Rightarrow> 'a threads_scheme \<Rightarrow> 'a threads_scheme res" where
  "act l Acquire s =
     (if lock_holder s l \<noteq> cur s then Inr (set_pc s Call) else Inr (lock_again s l))"
| "act l EnterDown s = (let (old_status, s) = intr_disable s in Inr (set_pc s (Down old_status)))"
| "act l Pass s =
     (case pc s (cur s) of
        Down old_status \<Rightarrow> rbind (sema_down_pass s (semaphore l) old_status)
          (\<lambda>(got, s). Inr (if got then set_pc s Got else s))
      | _ \<Rightarrow> Inr s)"
| "act l Take s = rbind (lock_take s l) (\<lambda>s. Inr (set_pc s Held))"
| "act l Release s = rbind (lock_drop s l) (\<lambda>(last, s). Inr (if last then set_pc s Rel else s))"
| "act l Up s = rbind (sema_up s (semaphore l)) (\<lambda>s. Inr (set_pc s Out))"
| "act l Preempt s = rbind (schedule (cli s) InHandler) (\<lambda>s. Inr (resume s))"
| "act l (Block w) s = thread_block s w"
| "act l (Unblock t) s = thread_unblock s t"

definition downs :: "pc \<Rightarrow> bool" where
  "downs p \<longleftrightarrow> (\<exists>w. p = Down w)"

definition owns :: "pc \<Rightarrow> bool" where
  "owns p \<longleftrightarrow> p = Got \<or> p = Held \<or> p = Rel"

text \<open>
  When an action is possible: the program counter says so, the nesting counter does not
  wrap around, interrupts are on for the timer, and \<open>Unblock\<close> is applied to a thread that
  blocked through \<open>Block\<close>.
\<close>

fun enabled :: "u32 \<Rightarrow> action \<Rightarrow> 'a threads_scheme \<Rightarrow> bool" where
  "enabled l Acquire s \<longleftrightarrow> cur s \<noteq> idle_thread s \<and>
     (pc s (cur s) = Out \<or> pc s (cur s) = Held \<and> holder_repeat_nr s l + 1 \<noteq> 0)"
| "enabled l EnterDown s \<longleftrightarrow> pc s (cur s) = Call"
| "enabled l Pass s \<longleftrightarrow> downs (pc s (cur s))"
| "enabled l Take s \<longleftrightarrow> pc s (cur s) = Got"
| "enabled l Release s \<longleftrightarrow> pc s (cur s) = Held"
| "enabled l Up s \<longleftrightarrow> pc s (cur s) = Rel"
| "enabled l Preempt s \<longleftrightarrow> intr_get_status s = INTR_ON"
| "enabled l (Block w) s \<longleftrightarrow> blocked_status w \<and> \<not> downs (pc s (cur s))"
| "enabled l (Unblock t) s \<longleftrightarrow> blocked_status (status (tasks s t)) \<and> \<not> downs (pc s t)"

text \<open>The initial states: a well-formed scheduler, the lock as \<open>lock_init\<close> leaves it, nobody near it.\<close>

definition pcb_ok :: "'a sched_scheme \<Rightarrow> bool" where
  "pcb_ok s \<longleftrightarrow> (\<forall>t. status (tasks s t) \<noteq> TASK_DIED \<longrightarrow> t \<noteq> NULL \<and> t AND 0xfff = 0)"

definition others_unlinked :: "'a sched_scheme \<Rightarrow> (u32 \<Rightarrow> u32 list option) \<Rightarrow> u32 list \<Rightarrow> bool" where
  "others_unlinked s A ws \<longleftrightarrow>
     (\<forall>t. blocked_status (status (tasks s t)) \<longrightarrow> t \<notin> set ws \<longrightarrow> unlinked A (general_tag t))"

definition lock_fresh :: "u32 \<Rightarrow> 'a threads_scheme \<Rightarrow> bool" where
  "lock_fresh l s \<longleftrightarrow>
     waiters (semaphore l) \<noteq> thread_ready_list \<and>
     (\<exists>A rs. sched_inv s A rs \<and> A (waiters (semaphore l)) = Some [] \<and> others_unlinked s A []) \<and>
     pcb_ok s \<and> sem_value s (semaphore l) = 1 \<and> lock_holder s l = NULL \<and> holder_repeat_nr s l = 0 \<and>
     (\<forall>t. pc s t = Out)"

inductive lock_reach :: "u32 \<Rightarrow> 'a threads_scheme \<Rightarrow> bool" for l where
  reach_init: "lock_fresh l s \<Longrightarrow> lock_reach l s"
| reach_step: "lock_reach l s \<Longrightarrow> enabled l a s \<Longrightarrow> act l a s = Inr s' \<Longrightarrow> lock_reach l s'"

section \<open>The invariant\<close>

definition queue_inv :: "u32 \<Rightarrow> 'a threads_scheme \<Rightarrow> (u32 \<Rightarrow> u32 list option) \<Rightarrow> u32 list \<Rightarrow> u32 list \<Rightarrow> bool" where
  "queue_inv l s A rs ws \<longleftrightarrow>
     waiters (semaphore l) \<noteq> thread_ready_list \<and> sched_inv s A rs \<and>
     A (waiters (semaphore l)) = Some (map general_tag ws) \<and> others_unlinked s A ws \<and> pcb_ok s \<and>
     (\<forall>t \<in> set ws. downs (pc s t) \<and> status (tasks s t) = TASK_BLOCKED) \<and>
     (\<forall>t. downs (pc s t) \<longrightarrow> t \<in> set ws \<or> t = cur s \<or> t \<in> set rs) \<and>
     (\<forall>t. pc s t \<noteq> Out \<longrightarrow> t \<noteq> idle_thread s \<and> t \<noteq> NULL)"

definition owner_is :: "u32 \<Rightarrow> 'a threads_scheme \<Rightarrow> u32 option \<Rightarrow> bool" where
  "owner_is l s ow \<longleftrightarrow>
     (\<forall>t. owns (pc s t) \<longleftrightarrow> ow = Some t) \<and>
     sem_value s (semaphore l) = (if ow = None then 1 else 0) \<and>
     (case ow of
        None \<Rightarrow> lock_holder s l = NULL \<and> holder_repeat_nr s l = 0
      | Some t \<Rightarrow> if pc s t = Held then lock_holder s l = t \<and> holder_repeat_nr s l \<noteq> 0
                   else lock_holder s l = NULL \<and> holder_repeat_nr s l = 0)"

definition wake_inv :: "u32 \<Rightarrow> 'a threads_scheme \<Rightarrow> u32 list \<Rightarrow> bool" where
  "wake_inv l s ws \<longleftrightarrow>
     (sem_value s (semaphore l) = 1 \<longrightarrow> ws \<noteq> [] \<longrightarrow> (\<exists>t. downs (pc s t) \<and> t \<notin> set ws))"

definition owner_inv :: "u32 \<Rightarrow> 'a threads_scheme \<Rightarrow> u32 list \<Rightarrow> bool" where
  "owner_inv l s ws \<longleftrightarrow> (\<exists>ow. owner_is l s ow) \<and> wake_inv l s ws"

definition lock_inv :: "u32 \<Rightarrow> 'a threads_scheme \<Rightarrow> bool" where
  "lock_inv l s \<longleftrightarrow> (\<exists>A rs ws. queue_inv l s A rs ws \<and> owner_inv l s ws)"

lemma threads_more:
  assumes "sched.more s = sched.more (t :: 'a threads_scheme)"
  shows "sem_value s = sem_value t" "lock_holder s = lock_holder t"
    "holder_repeat_nr s = holder_repeat_nr t" "pc s = pc t"
  using assms by (cases s; cases t; simp)+

lemma owner_inv_cong:
  assumes "sched.more s' = sched.more s"
  shows "owner_inv l s' ws \<longleftrightarrow> owner_inv l s ws"
  by (simp only: owner_inv_def owner_is_def wake_inv_def threads_more [OF assms])

lemma fresh_lock_inv: "lock_fresh l s \<Longrightarrow> lock_inv l s"
  unfolding lock_fresh_def lock_inv_def
  by (elim conjE exE, rule exI, rule exI, rule exI [of _ "[]"])
    (auto simp: queue_inv_def owner_inv_def owner_is_def wake_inv_def owns_def downs_def)

text \<open>Actions that change neither lists nor tasks nor the current thread.\<close>

lemma queue_inv_local:
  assumes "queue_inv l s A rs ws"
    and "nxt s' = nxt s" "prv s' = prv s" "tasks s' = tasks s" "cur s' = cur s" "idle_thread s' = idle_thread s"
    and "pc s' = (pc s)(cur s := p)" and "cur s \<noteq> idle_thread s"
  shows "queue_inv l s' A rs ws"
proof -
  have "status (tasks s (cur s)) = TASK_RUNNING"
    using assms(1) by (simp add: queue_inv_def sched_inv_def)
  then have "cur s \<notin> set ws" "cur s \<noteq> NULL"
    using assms(1) by (auto simp: queue_inv_def pcb_ok_def)
  then show ?thesis
    using assms sched_inv_cong [OF assms(2-6)]
    by (auto simp: queue_inv_def others_unlinked_def pcb_ok_def)
qed

lemma set_pc_frame [sched]:
  "nxt (set_pc s p) = nxt s" "prv (set_pc s p) = prv s" "eflags (set_pc s p) = eflags s"
  "tasks (set_pc s p) = tasks s" "cur (set_pc s p) = cur s" "idle_thread (set_pc s p) = idle_thread s"
  "sem_value (set_pc s p) = sem_value s" "lock_holder (set_pc s p) = lock_holder s"
  "holder_repeat_nr (set_pc s p) = holder_repeat_nr s" "pc (set_pc s p) = (pc s)(cur s := p)"
  by (simp_all add: set_pc_def)

lemmas threads_intr [sched] = threads_more(4) [OF intr_sched(4)] threads_more(4) [OF intr_sched(8)]
  threads_more(4) [OF list_ops_sched(8)] threads_more(4) [OF list_ops_sched(12)]

lemma set_value_pc [sched]: "pc (set_value s p v) = pc s"
  by (simp add: set_value_def)

lemma cur_facts:
  assumes "queue_inv l s A rs ws"
  shows "cur s \<noteq> NULL" "cur s \<notin> set ws" "cur s \<notin> set rs" "pc s (cur s) \<noteq> Out \<Longrightarrow> cur s \<noteq> idle_thread s"
proof -
  have st: "status (tasks s (cur s)) = TASK_RUNNING" "status (tasks s (cur s)) = TASK_READY \<longleftrightarrow> cur s \<in> set rs"
    using assms by (simp_all add: queue_inv_def sched_inv_def)
  then show "cur s \<noteq> NULL" "cur s \<notin> set ws" "cur s \<notin> set rs"
    using assms by (auto simp: queue_inv_def pcb_ok_def)
  show "pc s (cur s) \<noteq> Out \<Longrightarrow> cur s \<noteq> idle_thread s" using assms by (auto simp: queue_inv_def)
qed

text \<open>How the owner follows from the current thread's program counter.\<close>

lemma owner_cur:
  assumes "owner_is l s ow"
  shows "owns (pc s (cur s)) \<Longrightarrow> ow = Some (cur s)"
    and "lock_holder s l = cur s \<Longrightarrow> cur s \<noteq> NULL \<Longrightarrow> pc s (cur s) = Held"
    and "pc s (cur s) = Held \<Longrightarrow> lock_holder s l = cur s \<and> holder_repeat_nr s l \<noteq> 0"
    and "\<not> owns (pc s (cur s)) \<Longrightarrow> ow \<noteq> Some (cur s)"
proof -
  show o: "owns (pc s (cur s)) \<Longrightarrow> ow = Some (cur s)" using assms by (simp add: owner_is_def)
  show "pc s (cur s) = Held \<Longrightarrow> lock_holder s l = cur s \<and> holder_repeat_nr s l \<noteq> 0"
    using o assms by (simp add: owner_is_def owns_def)
  show "lock_holder s l = cur s \<Longrightarrow> cur s \<noteq> NULL \<Longrightarrow> pc s (cur s) = Held"
    using assms by (auto simp: owner_is_def split: option.splits if_splits)
  show "\<not> owns (pc s (cur s)) \<Longrightarrow> ow \<noteq> Some (cur s)" using assms by (auto simp: owner_is_def)
qed

text \<open>Owner and wake-up when only the current thread's program counter changes.\<close>

lemma owner_is_local:
  assumes "owner_is l s ow" and "pc s' = (pc s)(cur s := p)" and "owns p = owns (pc s (cur s))"
    and "sem_value s' = sem_value s" and "lock_holder s' = lock_holder s"
    and "holder_repeat_nr s' = holder_repeat_nr s" and "\<not> owns p"
  shows "owner_is l s' ow"
proof -
  have "ow \<noteq> Some (cur s)" using owner_cur(4) [OF assms(1)] assms(3,7) by simp
  then show ?thesis
    using assms by (cases ow) (auto simp: owner_is_def)
qed

lemma wake_inv_local:
  assumes "wake_inv l s ws" and "pc s' = (pc s)(cur s := p)" and "sem_value s' = sem_value s"
    and "downs p \<or> \<not> downs (pc s (cur s))"
  shows "wake_inv l s' ws"
proof -
  have "downs (pc s' t)" if "downs (pc s t)" for t
    using that assms(2,4) by (cases "t = cur s") auto
  then show ?thesis using assms(1,3) unfolding wake_inv_def by metis
qed

lemma step_acquire:
  assumes "queue_inv l s A rs ws" and "owner_inv l s ws" and "enabled l Acquire s"
  shows "\<exists>s'. act l Acquire s = Inr s' \<and> lock_inv l s'"
proof -
  from assms(2) obtain ow where ow: "owner_is l s ow" and wake: "wake_inv l s ws" by (auto simp: owner_inv_def)
  show ?thesis
  proof (cases "lock_holder s l = cur s")
    case True
    have held: "pc s (cur s) = Held" by (rule owner_cur(2) [OF ow True cur_facts(1) [OF assms(1)]])
    have o: "ow = Some (cur s)" using owner_cur(1) [OF ow] held by (simp add: owns_def)
    have "queue_inv l (lock_again s l) A rs ws"
      by (rule queue_inv_local [OF assms(1), where p = Held])
        (use held assms(3) in \<open>auto simp: lock_again_def\<close>)
    moreover have "owner_is l (lock_again s l) ow"
      using ow assms(3) held o by (simp add: owner_is_def lock_again_def)
    moreover have "wake_inv l (lock_again s l) ws" using wake by (simp add: wake_inv_def lock_again_def)
    ultimately show ?thesis using True by (auto simp: lock_inv_def owner_inv_def)
  next
    case False
    then have "pc s (cur s) = Out" using assms(3) owner_cur(3) [OF ow] by auto
    then have "owner_is l (set_pc s Call) ow" "wake_inv l (set_pc s Call) ws"
      by (intro owner_is_local [OF ow, where p = Call] wake_inv_local [OF wake, where p = Call];
          simp add: sched owns_def downs_def)+
    moreover have "queue_inv l (set_pc s Call) A rs ws"
      by (rule queue_inv_local [OF assms(1), where p = Call]) (use assms(3) in \<open>auto simp: sched\<close>)
    ultimately show ?thesis using False by (auto simp: lock_inv_def owner_inv_def)
  qed
qed

lemma step_enter:
  assumes "queue_inv l s A rs ws" and "owner_inv l s ws" and "enabled l EnterDown s"
  shows "\<exists>s'. act l EnterDown s = Inr s' \<and> lock_inv l s'"
proof -
  from assms(2) obtain ow where ow: "owner_is l s ow" and wake: "wake_inv l s ws" by (auto simp: owner_inv_def)
  let ?p = "Down (intr_get_status s)"
  let ?s = "set_pc (snd (intr_disable s)) ?p"
  have c: "pc s (cur s) = Call" using assms(3) by simp
  have "queue_inv l ?s A rs ws"
    by (rule queue_inv_local [OF assms(1), where p = ?p])
      (use c cur_facts(4) [OF assms(1)] in \<open>auto simp: sched klist\<close>)
  moreover have "owner_is l ?s ow" "wake_inv l ?s ws"
    by (intro owner_is_local [OF ow, where p = ?p] wake_inv_local [OF wake, where p = ?p];
        simp add: sched owns_def downs_def c)+
  ultimately show ?thesis by (auto simp: lock_inv_def owner_inv_def case_prod_beta intr)
qed

lemma step_take:
  assumes "queue_inv l s A rs ws" and "owner_inv l s ws" and "enabled l Take s"
  shows "\<exists>s'. act l Take s = Inr s' \<and> lock_inv l s'"
proof -
  from assms(2) obtain ow where ow: "owner_is l s ow" and wake: "wake_inv l s ws" by (auto simp: owner_inv_def)
  let ?s = "set_pc (set_holder s l (cur s) 1) Held"
  have got: "pc s (cur s) = Got" using assms(3) by simp
  then have o: "ow = Some (cur s)" using owner_cur(1) [OF ow] by (simp add: owns_def)
  then have r: "holder_repeat_nr s l = 0" using ow got by (simp add: owner_is_def)
  then have "act l Take s = Inr ?s" by (simp add: lock_take_def Let_def set_holder_def set_pc_def)
  moreover have "queue_inv l ?s A rs ws"
    by (rule queue_inv_local [OF assms(1), where p = Held])
      (use got cur_facts(4) [OF assms(1)] in \<open>auto simp: sched set_holder_def\<close>)
  moreover have "owner_is l ?s ow"
    using ow got o by (auto simp: owner_is_def sched owns_def set_holder_def)
  moreover have "wake_inv l ?s ws"
    by (rule wake_inv_local [OF wake, where p = Held]) (simp_all add: sched set_holder_def downs_def got)
  ultimately show ?thesis by (auto simp: lock_inv_def owner_inv_def)
qed

lemma step_release:
  assumes "queue_inv l s A rs ws" and "owner_inv l s ws" and "enabled l Release s"
  shows "\<exists>s'. act l Release s = Inr s' \<and> lock_inv l s'"
proof -
  from assms(2) obtain ow where ow: "owner_is l s ow" and wake: "wake_inv l s ws" by (auto simp: owner_inv_def)
  have held: "pc s (cur s) = Held" using assms(3) by simp
  then have o: "ow = Some (cur s)" using owner_cur(1) [OF ow] by (simp add: owns_def)
  have h: "lock_holder s l = cur s" "holder_repeat_nr s l \<noteq> 0" using owner_cur(3) [OF ow held] by auto
  have idle: "cur s \<noteq> idle_thread s" using held cur_facts(4) [OF assms(1)] by simp
  show ?thesis
  proof (cases "holder_repeat_nr s l > 1")
    case True
    let ?s = "s\<lparr>holder_repeat_nr := (holder_repeat_nr s)(l := holder_repeat_nr s l - 1)\<rparr>"
    have "act l Release s = Inr ?s" using True h by (simp add: lock_drop_def)
    moreover have "queue_inv l ?s A rs ws"
      by (rule queue_inv_local [OF assms(1), where p = Held]) (use held idle in auto)
    moreover have "holder_repeat_nr s l - 1 \<noteq> 0" using True by auto
    then have "owner_is l ?s ow" using ow h held o by (simp add: owner_is_def)
    moreover have "wake_inv l ?s ws" using wake by (simp add: wake_inv_def)
    ultimately show ?thesis by (auto simp: lock_inv_def owner_inv_def)
  next
    case False
    let ?s = "set_pc (set_holder s l NULL 0) Rel"
    have "unat (holder_repeat_nr s l) = 1"
      using False h(2) by (auto simp: unat_less_iff unat_eq_zero not_less le_Suc_eq)
    then have "holder_repeat_nr s l = 1" by (simp add: word_unat_eq_iff)
    then have "act l Release s = Inr ?s" using h by (simp add: lock_drop_def)
    moreover have "queue_inv l ?s A rs ws"
      by (rule queue_inv_local [OF assms(1), where p = Rel]) (use held idle in \<open>auto simp: sched set_holder_def\<close>)
    moreover have "owner_is l ?s ow"
      using ow held o by (auto simp: owner_is_def sched owns_def set_holder_def)
    moreover have "wake_inv l ?s ws"
      by (rule wake_inv_local [OF wake, where p = Rel]) (simp_all add: sched set_holder_def downs_def held)
    ultimately show ?thesis by (auto simp: lock_inv_def owner_inv_def)
  qed
qed

text \<open>One round of \<open>sema_down\<close>: the semaphore is free, or the thread queues up.\<close>

lemma step_pass_take:
  assumes "queue_inv l s A rs ws" and "owner_inv l s ws" and "pc s (cur s) = Down w"
    and "sem_value s (semaphore l) = 1"
  shows "\<exists>s'. act l Pass s = Inr s' \<and> lock_inv l s'"
proof -
  from assms(2) obtain ow where ow: "owner_is l s ow" by (auto simp: owner_inv_def)
  let ?s = "set_pc (snd (intr_set_status (set_value s (semaphore l) 0) w)) Got"
  have none: "ow = None" using ow assms(4) by (auto simp: owner_is_def split: if_splits)
  have "act l Pass s = Inr ?s"
    using assms(3,4) by (simp add: sema_down_pass_def Let_def sched)
  moreover have "queue_inv l ?s A rs ws"
    by (rule queue_inv_local [OF assms(1), where p = Got])
      (use assms(3) cur_facts(4) [OF assms(1)] in \<open>auto simp: sched klist\<close>)
  moreover have "owner_is l ?s (Some (cur s))"
    using ow none by (auto simp: owner_is_def sched owns_def)
  moreover have "wake_inv l ?s ws" by (simp add: wake_inv_def sched)
  ultimately show ?thesis by (auto simp: lock_inv_def owner_inv_def)
qed

lemma unlinked_other:
  assumes "unlinked A e" and "A m = Some xs" and "e \<noteq> x"
  shows "unlinked (A(m \<mapsto> xs @ [x])) e"
  using assms by (auto simp: unlinked_def list_cells_def)

lemma blocked_not_ready:
  assumes "sched_inv s A rs" and "blocked_status (status (tasks s t))"
  shows "t \<notin> set rs \<and> t \<noteq> cur s"
proof -
  have "status (tasks s t) = TASK_READY \<longleftrightarrow> t \<in> set rs" "status (tasks s t) = TASK_RUNNING \<longleftrightarrow> t = cur s"
    using assms(1) by (simp_all add: sched_inv_def)
  with assms(2) show ?thesis by (auto simp: blocked_status_def)
qed

lemma alive_next: "sched_inv s A rs \<Longrightarrow> t \<in> set (next_of rs (idle_thread s)) \<Longrightarrow> status (tasks s t) \<noteq> TASK_DIED"
  unfolding sched_inv_def next_of_def blocked_status_def
  by (metis empty_iff empty_set set_ConsD task_status.distinct(9,17,23,27,29))

lemma pcb_ok_mono:
  "pcb_ok s \<Longrightarrow> (\<And>t. status (tasks s' t) \<noteq> TASK_DIED \<Longrightarrow> status (tasks s t) \<noteq> TASK_DIED) \<Longrightarrow> pcb_ok s'"
  by (auto simp: pcb_ok_def)

lemma step_pass_block:
  assumes "queue_inv l s A rs ws" and "owner_inv l s ws" and "pc s (cur s) = Down w"
    and "sem_value s (semaphore l) = 0"
  shows "\<exists>s'. act l Pass s = Inr s' \<and> lock_inv l s'"
proof -
  let ?w = "waiters (semaphore l)" and ?c = "cur s"
  let ?s1 = "list_append s ?w (general_tag ?c)" and ?A = "A(?w \<mapsto> map general_tag (ws @ [?c]))"
  have q: "?w \<noteq> thread_ready_list" "sched_inv s A rs" "A ?w = Some (map general_tag ws)"
    "others_unlinked s A ws" "pcb_ok s" "\<forall>t \<in> set ws. downs (pc s t) \<and> status (tasks s t) = TASK_BLOCKED"
    "\<forall>t. downs (pc s t) \<longrightarrow> t \<in> set ws \<or> t = ?c \<or> t \<in> set rs"
    "\<forall>t. pc s t \<noteq> Out \<longrightarrow> t \<noteq> idle_thread s \<and> t \<noteq> NULL"
    using assms(1) unfolding queue_inv_def by blast+
  note sc = q(2) [unfolded sched_inv_def]
  note c = cur_facts [OF assms(1)]
  have ci: "?c \<noteq> idle_thread s" using c(4) assms(3) by simp
  have run: "status (tasks s ?c) = TASK_RUNNING" using sc by blast
  have nf: "elem_find s ?w (general_tag ?c) = Inr False"
    using lists_find [of s A ?w "map general_tag ws"] sc q(3) c(2) by simp
  have l1: "lists_rep ?s1 ?A" using lists_append [of s A ?w "map general_tag ws"] sc q(3) by simp
  have ul: "unlinked ?A (general_tag t)" if "unlinked A (general_tag t)" "t \<noteq> ?c" for t
    using unlinked_other [OF that(1) q(3)] that(2) by simp
  have f1: "tasks ?s1 = tasks s" "cur ?s1 = ?c" "idle_thread ?s1 = idle_thread s" "sched.more ?s1 = sched.more s"
    by (simp_all add: sched)
  have "may_block ?s1 ?A rs"
    using l1 sc f1 q(1) ul ci unfolding may_block_def by (auto simp: ready_is_def)
  from thread_block_ready [OF this, of TASK_BLOCKED] obtain s' rs' where
    s': "thread_block ?s1 TASK_BLOCKED = Inr s'" "sched_inv s' (set_ready ?A rs') rs'"
    "cur s' # rs' = next_of rs (idle_thread s)" "idle_thread s' = idle_thread s"
    "sched.more s' = sched.more s"
    "\<forall>t. status (tasks s' t) = (if t = cur s' then TASK_RUNNING else if t = ?c then TASK_BLOCKED else status (tasks s t))"
    unfolding f1 by (auto simp: blocked_status_def)
  note more = threads_more [OF s'(5)]
  have mem: "set (cur s' # rs') = set (next_of rs (idle_thread s))" by (simp only: s'(3))
  have nc: "?c \<notin> set (cur s' # rs')" using mem c(3) ci by (auto simp: next_of_def split: if_splits)
  have nw: "t \<noteq> cur s'" if "t \<in> set ws" for t
  proof -
    have "pc s t \<noteq> Out" "status (tasks s t) = TASK_BLOCKED" using q(6) that by (auto simp: downs_def)
    moreover have "status (tasks s t) = TASK_READY \<longleftrightarrow> t \<in> set rs" using sc by blast
    ultimately have "t \<noteq> idle_thread s" "t \<notin> set rs" using q(8) by auto
    then show ?thesis using mem by (auto simp: next_of_def split: if_splits)
  qed
  have dn: "t \<in> set (ws @ [?c]) \<or> t = cur s' \<or> t \<in> set rs'" if "downs (pc s t)" for t
    using that q(7) mem by (auto simp: next_of_def split: if_splits)
  have "queue_inv l s' (set_ready ?A rs') rs' (ws @ [?c])"
    unfolding queue_inv_def
  proof (intro conjI)
    show "set_ready ?A rs' ?w = Some (map general_tag (ws @ [?c]))" using q(1) by (simp add: set_ready_def)
    show "others_unlinked s' (set_ready ?A rs') (ws @ [?c])"
      unfolding others_unlinked_def
    proof (intro allI impI)
      fix t
      assume t: "blocked_status (status (tasks s' t))" "t \<notin> set (ws @ [?c])"
      then have "t \<noteq> cur s'" using blocked_not_ready [OF s'(2)] by blast
      with t have "blocked_status (status (tasks s t))" using s'(6) by simp
      then have u: "unlinked ?A (general_tag t)" using q(4) t(2) ul by (simp add: others_unlinked_def)
      have "ready_is ?A rs" using sc q(1) by (simp add: ready_is_def)
      moreover have "t \<notin> set rs'"
        using blocked_not_ready [OF s'(2) t(1)] by simp
      ultimately show "unlinked (set_ready ?A rs') (general_tag t)" using u by (intro unlinked_set_ready)
    qed
    show "pcb_ok s'"
      by (rule pcb_ok_mono [OF q(5)])
        (use s'(6) alive_next [OF q(2)] mem run in \<open>auto split: if_splits\<close>)
    show "\<forall>t\<in>set (ws @ [?c]). downs (pc s' t) \<and> status (tasks s' t) = TASK_BLOCKED"
      using q(6) s'(6) assms(3) nw nc more(4) by (auto simp: downs_def)
    show "\<forall>t. downs (pc s' t) \<longrightarrow> t \<in> set (ws @ [?c]) \<or> t = cur s' \<or> t \<in> set rs'"
      using dn more(4) by simp
  qed (use q s' more in auto)
  moreover have "owner_inv l s' (ws @ [?c])"
  proof -
    from assms(2) obtain ow where "owner_is l s ow" by (auto simp: owner_inv_def)
    then have "owner_is l s' ow" unfolding owner_is_def more .
    moreover have "wake_inv l s' (ws @ [?c])" using assms(4) by (simp add: wake_inv_def more)
    ultimately show ?thesis by (auto simp: owner_inv_def)
  qed
  moreover have "act l Pass s = Inr s'"
    using assms(3,4) nf s'(1) by (simp add: sema_down_pass_def Let_def sched)
  ultimately show ?thesis by (auto simp: lock_inv_def)
qed

text \<open>\<open>sema_up\<close>: the PCB of the first waiter is the page of its list element.\<close>

lemma tag_page:
  assumes "t AND 0xfff = 0"
  shows "general_tag t AND 0xfffff000 = t"
proof -
  have low: "\<not> bit t n" if "n < 12" for n
  proof -
    have "\<not> bit (t AND 0xfff) n" using assms by simp
    with that show ?thesis by (simp add: bit_and_iff bit_high_mask)
  qed
  have m: "bit (68 :: u32) n \<Longrightarrow> n < 12" for n
  proof -
    have "(68 :: u32) = 68 AND mask 12" by (simp add: mask_eq_exp_minus_1)
    then show "bit (68 :: u32) n \<Longrightarrow> n < 12" by (metis bit_and_iff bit_mask_iff)
  qed
  have "t AND 68 = 0" by (rule bit_word_eqI) (use low m in \<open>auto simp: bit_and_iff\<close>)
  then have "t + 68 = t OR 68" by (rule disjunctive_add_eq_or)
  moreover have "(t OR 68) AND 0xfffff000 = t"
  proof (rule bit_word_eqI)
    fix n
    assume "n < LENGTH(32)"
    then show "bit ((t OR 68) AND 0xfffff000) n \<longleftrightarrow> bit t n"
      using low [of n] m [of n] by (cases "n < 12") (auto simp: bit_and_iff bit_or_iff bit_high_mask)
  qed
  ultimately show ?thesis by (simp add: general_tag_def)
qed

lemma owner_drop:
  assumes "owner_is l s (Some (cur s))" and "pc s (cur s) = Rel" and "pc s' = (pc s)(cur s := Out)"
    and "sem_value s' (semaphore l) = 1" and "lock_holder s' = lock_holder s"
    and "holder_repeat_nr s' = holder_repeat_nr s"
  shows "owner_is l s' None"
proof -
  have "owns (pc s t) \<longleftrightarrow> t = cur s" for t using assms(1) by (auto simp: owner_is_def)
  then have "\<not> owns (pc s' t)" for t
    unfolding assms(3) by (cases "t = cur s") (simp_all, simp add: owns_def)
  then show ?thesis using assms by (simp add: owner_is_def)
qed

lemma step_up_none:
  assumes "queue_inv l s A rs []" and "owner_is l s (Some (cur s))" and "pc s (cur s) = Rel"
  shows "\<exists>s'. act l Up s = Inr s' \<and> lock_inv l s'"
proof -
  let ?d = "snd (intr_disable s)"
  let ?s = "set_pc (snd (intr_set_status (set_value ?d (semaphore l) 1) (intr_get_status s))) Out"
  have "lists_rep ?d A" "A (waiters (semaphore l)) = Some []"
    using assms(1) by (simp_all add: queue_inv_def sched_inv_def sched)
  then have "list_empty ?d (waiters (semaphore l))" by (simp add: lists_empty [of ?d A])
  then have "act l Up s = Inr ?s"
    using assms(2) by (simp add: sema_up_def case_prod_beta Let_def sched owner_is_def intr)
  moreover have "queue_inv l ?s A rs []"
    by (rule queue_inv_local [OF assms(1), where p = Out])
      (use assms(3) cur_facts(4) [OF assms(1)] in \<open>auto simp: sched klist\<close>)
  moreover have "owner_is l ?s None"
    by (rule owner_drop [OF assms(2,3)]) (simp_all add: sched)
  ultimately show ?thesis by (auto simp: lock_inv_def owner_inv_def wake_inv_def)
qed

lemma step_up_wake:
  assumes "queue_inv l s A rs (t # ws)" and "owner_is l s (Some (cur s))" and "pc s (cur s) = Rel"
  shows "\<exists>s'. act l Up s = Inr s' \<and> lock_inv l s'"
proof -
  let ?w = "waiters (semaphore l)" and ?d = "snd (intr_disable s)"
  let ?r = "list_remove ?d (general_tag t)" and ?A = "A(?w \<mapsto> map general_tag ws)"
  have q: "?w \<noteq> thread_ready_list" "sched_inv s A rs" "A ?w = Some (general_tag t # map general_tag ws)"
    "others_unlinked s A (t # ws)" "pcb_ok s"
    "\<forall>u \<in> set (t # ws). downs (pc s u) \<and> status (tasks s u) = TASK_BLOCKED"
    "\<forall>u. downs (pc s u) \<longrightarrow> u \<in> set (t # ws) \<or> u = cur s \<or> u \<in> set rs"
    "\<forall>u. pc s u \<noteq> Out \<longrightarrow> u \<noteq> idle_thread s \<and> u \<noteq> NULL"
    using assms(1) unfolding queue_inv_def by auto
  note sc = q(2) [unfolded sched_inv_def]
  have d: "lists_rep ?d A" using sc by (simp add: sched)
  have st: "blocked_status (status (tasks s t))" using q(6) by (simp add: blocked_status_def)
  have page: "general_tag t AND 0xfffff000 = t"
    using q(5,6) by (intro tag_page) (auto simp: pcb_ok_def)
  have dist: "t \<notin> set ws"
    using lists_repD [OF d q(3)] by (auto simp: list_rep_def)
  have f: "tasks ?r = tasks s" "cur ?r = cur s" "idle_thread ?r = idle_thread s" "sched.more ?r = sched.more s"
    by (simp_all add: sched)
  have mono: "unlinked ?A e" if "unlinked A e" for e
  proof -
    have "e \<notin> list_cells ?w (general_tag t # map general_tag ws)" using that q(3) by (simp add: unlinked_def)
    then show ?thesis using that by (auto simp: unlinked_upd unlinked_def list_cells_def)
  qed
  have pop: "list_pop ?d ?w = Inr (general_tag t, ?r)" and r: "lists_rep ?r ?A"
    using lists_pop [OF d q(3)] by auto
  have "sched_inv ?r ?A rs"
    using sc f r mono q(1) by (auto simp: sched_inv_def ready_is_def)
  moreover have ut: "unlinked ?A (general_tag t)"
    using lists_rep_removed [OF d, of ?w "[]"] q(3) by simp
  ultimately obtain u where u: "thread_unblock ?r t = Inr u" "sched_inv u (set_ready ?A (t # rs)) (t # rs)"
    "cur u = cur s" "tasks u = (tasks s)(t := (tasks s t)\<lparr>status := TASK_READY\<rparr>)" "untouched ?r u"
    using thread_unblock_sched [of ?r ?A rs t] st f by auto
  have more: "sched.more u = sched.more s" "idle_thread u = idle_thread s"
    using u(5) f by (simp_all add: untouched_def)
  note mo = threads_more [OF more(1)]
  let ?s = "set_pc (snd (intr_set_status (set_value u (semaphore l) 1) (intr_get_status s))) Out"
  have "\<not> list_empty ?d ?w" using lists_empty [OF d q(3)] by simp
  then have "act l Up s = Inr ?s"
    using assms(2) pop page u(1) mo by (simp add: sema_up_def case_prod_beta Let_def sched owner_is_def intr)
  moreover have "queue_inv l ?s (set_ready ?A (t # rs)) (t # rs) ws"
    unfolding queue_inv_def
  proof (intro conjI)
    show "sched_inv ?s (set_ready ?A (t # rs)) (t # rs)"
      using u(2) sched_inv_cong [of ?s u] by (simp add: sched klist)
    show "set_ready ?A (t # rs) ?w = Some (map general_tag ws)" using q(1) by (simp add: set_ready_def)
    show "others_unlinked ?s (set_ready ?A (t # rs)) ws"
      unfolding others_unlinked_def
    proof (intro allI impI)
      fix v
      assume v: "blocked_status (status (tasks ?s v))" "v \<notin> set ws"
      then have nt: "v \<notin> set (t # rs)" using blocked_not_ready [OF u(2), of v] by (simp add: sched)
      with v have "blocked_status (status (tasks s v))" using u(4) by (simp add: sched)
      with q(4) nt v(2) have "unlinked A (general_tag v)" by (simp add: others_unlinked_def)
      then have "unlinked ?A (general_tag v)" by (rule mono)
      moreover have "ready_is ?A rs" using sc q(1) by (simp add: ready_is_def)
      ultimately show "unlinked (set_ready ?A (t # rs)) (general_tag v)" using nt by (rule unlinked_set_ready)
    qed
    show "pcb_ok ?s" by (rule pcb_ok_mono [OF q(5)]) (use u(4) q(6) in \<open>auto simp: sched split: if_splits\<close>)
    show "\<forall>v\<in>set ws. downs (pc ?s v) \<and> status (tasks ?s v) = TASK_BLOCKED"
      using q(6) u(3,4) mo dist assms(3) by (auto simp: sched downs_def)
    show "\<forall>v. downs (pc ?s v) \<longrightarrow> v \<in> set ws \<or> v = cur ?s \<or> v \<in> set (t # rs)"
      using q(7) u(3) mo by (auto simp: sched)
  qed (use q u more mo in \<open>auto simp: sched\<close>)
  moreover have "owner_is l ?s None"
    by (rule owner_drop [OF assms(2,3)]) (simp_all add: sched mo u(3))
  moreover have "wake_inv l ?s ws"
  proof -
    have "t \<noteq> cur s" using q(6) assms(3) by (auto simp: downs_def)
    then have "downs (pc ?s t)" using q(6) mo u(3) by (simp add: sched)
    with dist show ?thesis by (auto simp: wake_inv_def)
  qed
  ultimately show ?thesis by (auto simp: lock_inv_def owner_inv_def)
qed

text \<open>Switches that have nothing to do with the lock.\<close>

lemma queue_inv_switch:
  assumes "queue_inv l s A rs ws" and "sched_inv s' (set_ready A rs') rs'"
    and "sched.more s' = sched.more s" and "idle_thread s' = idle_thread s"
    and st: "\<forall>t. status (tasks s' t) = (if t = cur s' then TASK_RUNNING else if t = cur s then w else status (tasks s t))"
    and sub: "set (cur s' # rs') \<subseteq> insert (cur s) (set (next_of rs (idle_thread s)))"
    and sup: "set rs \<subseteq> set (cur s' # rs')"
    and cur: "downs (pc s (cur s)) \<Longrightarrow> cur s \<in> set (cur s' # rs')"
  shows "queue_inv l s' (set_ready A rs') rs' ws"
proof -
  have q: "waiters (semaphore l) \<noteq> thread_ready_list" "sched_inv s A rs"
    "A (waiters (semaphore l)) = Some (map general_tag ws)" "others_unlinked s A ws" "pcb_ok s"
    "\<forall>t \<in> set ws. downs (pc s t) \<and> status (tasks s t) = TASK_BLOCKED"
    "\<forall>t. downs (pc s t) \<longrightarrow> t \<in> set ws \<or> t = cur s \<or> t \<in> set rs"
    "\<forall>t. pc s t \<noteq> Out \<longrightarrow> t \<noteq> idle_thread s \<and> t \<noteq> NULL"
    using assms(1) unfolding queue_inv_def by blast+
  note sc = q(2) [unfolded sched_inv_def]
  note more = threads_more [OF assms(3)]
  have run: "status (tasks s (cur s)) = TASK_RUNNING" using sc by blast
  have ws: "t \<noteq> cur s \<and> t \<noteq> cur s'" if "t \<in> set ws" for t
  proof -
    have "pc s t \<noteq> Out" "blocked_status (status (tasks s t))"
      using q(6) that by (auto simp: downs_def blocked_status_def)
    then have "t \<noteq> idle_thread s" "t \<notin> set rs" "t \<noteq> cur s"
      using q(8) blocked_not_ready [OF q(2), of t] by auto
    moreover have "cur s' \<in> insert (cur s) (set (next_of rs (idle_thread s)))" using sub by simp
    ultimately show ?thesis by (auto simp: next_of_def split: if_splits)
  qed
  show ?thesis
    unfolding queue_inv_def
  proof (intro conjI)
    show "set_ready A rs' (waiters (semaphore l)) = Some (map general_tag ws)"
      using q(1,3) by (simp add: set_ready_def)
    show "others_unlinked s' (set_ready A rs') ws"
      unfolding others_unlinked_def
    proof (intro allI impI)
      fix t
      assume t: "blocked_status (status (tasks s' t))" "t \<notin> set ws"
      then have n: "t \<noteq> cur s'" "t \<notin> set rs'" using blocked_not_ready [OF assms(2)] by auto
      have "unlinked A (general_tag t)"
        using t n(1) st q(4) sc by (cases "t = cur s") (auto simp: others_unlinked_def)
      then show "unlinked (set_ready A rs') (general_tag t)" using sc n(2) by (blast intro: unlinked_set_ready)
    qed
    show "pcb_ok s'"
    proof (rule pcb_ok_mono [OF q(5)])
      fix t
      assume t: "status (tasks s' t) \<noteq> TASK_DIED"
      show "status (tasks s t) \<noteq> TASK_DIED"
      proof (cases "t = cur s \<or> t = cur s'")
        case True
        then have "t = cur s \<or> t \<in> set (next_of rs (idle_thread s))" using sub by auto
        then show ?thesis using run alive_next [OF q(2)] by auto
      qed (use t st in auto)
    qed
    show "\<forall>t\<in>set ws. downs (pc s' t) \<and> status (tasks s' t) = TASK_BLOCKED"
      using q(6) st ws more(4) by auto
    show "\<forall>t. downs (pc s' t) \<longrightarrow> t \<in> set ws \<or> t = cur s' \<or> t \<in> set rs'"
      using q(7) more(4) sup cur by auto
  qed (use q assms(2,4) more in auto)
qed

lemma step_preempt:
  assumes "queue_inv l s A rs ws" and "owner_inv l s ws"
  shows "\<exists>s'. act l Preempt s = Inr s' \<and> lock_inv l s'"
proof -
  have sc: "sched_inv (cli s) A rs"
    using assms(1) sched_inv_cong [of "cli s" s] by (simp add: queue_inv_def cli_def)
  from schedule_running_inv [OF status_cli sc, of InHandler] obtain s1 rs' where
    s1: "schedule (cli s) InHandler = Inr s1" "sched_inv s1 (set_ready A rs') rs'" "cur s1 # rs' = rs @ [cur s]"
    "untouched (cli s) s1"
    "\<forall>t. status (tasks s1 t) = (if t = cur s1 then TASK_RUNNING else if t = cur s then TASK_READY
                  else status (tasks s t))"
    by (auto simp: cli_def)
  let ?s = "resume s1"
  have f: "sched.more ?s = sched.more s" "idle_thread ?s = idle_thread s" "cur ?s = cur s1" "tasks ?s = tasks s1"
    using s1(4) by (simp_all add: sched untouched_def cli_def)
  have mem: "set (cur s1 # rs') = insert (cur s) (set rs)" by (simp only: s1(3)) auto
  have "queue_inv l ?s (set_ready A rs') rs' ws"
  proof (rule queue_inv_switch [OF assms(1) _ f(1,2)])
    show "sched_inv ?s (set_ready A rs') rs'" using s1(2) by (simp add: sched_inv_def sched)
    show "set (cur ?s # rs') \<subseteq> insert (cur s) (set (next_of rs (idle_thread s)))"
      unfolding f mem by (auto simp: next_of_def)
  qed (use s1(5) f mem in auto)
  moreover have "act l Preempt s = Inr ?s" using s1(1) by simp
  ultimately show ?thesis using assms(2) owner_inv_cong [OF f(1)] by (auto simp: lock_inv_def)
qed

lemma step_block:
  assumes "queue_inv l s A rs ws" and "owner_inv l s ws" and "enabled l (Block w) s"
  shows "\<exists>s'. act l (Block w) s = Inr s' \<and> lock_inv l s'"
proof -
  have "sched_inv s A rs" using assms(1) by (simp add: queue_inv_def)
  from thread_block_ready [OF sched_inv_may_block [OF this], of w] assms(3) obtain s' rs' where
    s': "thread_block s w = Inr s'" "sched_inv s' (set_ready A rs') rs'" "cur s' # rs' = next_of rs (idle_thread s)"
    "idle_thread s' = idle_thread s" "sched.more s' = sched.more s"
    "\<forall>t. status (tasks s' t) = (if t = cur s' then TASK_RUNNING else if t = cur s then w else status (tasks s t))"
    by auto
  have "set (cur s' # rs') = set (next_of rs (idle_thread s))" by (simp only: s'(3))
  then have "queue_inv l s' (set_ready A rs') rs' ws"
    using assms(3) by (intro queue_inv_switch [OF assms(1) s'(2,5,4,6)]) (auto simp: next_of_def split: if_splits)
  then show ?thesis using s'(1) assms(2) owner_inv_cong [OF s'(5)] by (auto simp: lock_inv_def)
qed

lemma step_unblock:
  assumes "queue_inv l s A rs ws" and "owner_inv l s ws" and "enabled l (Unblock t) s"
  shows "\<exists>s'. act l (Unblock t) s = Inr s' \<and> lock_inv l s'"
proof -
  have q: "waiters (semaphore l) \<noteq> thread_ready_list" "sched_inv s A rs"
    "A (waiters (semaphore l)) = Some (map general_tag ws)" "others_unlinked s A ws" "pcb_ok s"
    "\<forall>t \<in> set ws. downs (pc s t) \<and> status (tasks s t) = TASK_BLOCKED"
    "\<forall>t. downs (pc s t) \<longrightarrow> t \<in> set ws \<or> t = cur s \<or> t \<in> set rs"
    "\<forall>t. pc s t \<noteq> Out \<longrightarrow> t \<noteq> idle_thread s \<and> t \<noteq> NULL"
    using assms(1) unfolding queue_inv_def by blast+
  have b: "blocked_status (status (tasks s t))" "t \<notin> set ws" using assms(3) q(6) by auto
  then have "unlinked A (general_tag t)" using q(4) by (simp add: others_unlinked_def)
  from thread_unblock_sched [OF q(2) b(1) this] obtain s' where
    s': "thread_unblock s t = Inr s'" "sched_inv s' (set_ready A (t # rs)) (t # rs)" "cur s' = cur s"
    "tasks s' = (tasks s)(t := (tasks s t)\<lparr>status := TASK_READY\<rparr>)" "untouched s s'" by blast
  have more: "sched.more s' = sched.more s" "idle_thread s' = idle_thread s" using s'(5) by (simp_all add: untouched_def)
  note mo = threads_more [OF more(1)]
  have "queue_inv l s' (set_ready A (t # rs)) (t # rs) ws"
    unfolding queue_inv_def
  proof (intro conjI)
    show "set_ready A (t # rs) (waiters (semaphore l)) = Some (map general_tag ws)"
      using q(1,3) by (simp add: set_ready_def)
    show "others_unlinked s' (set_ready A (t # rs)) ws"
      unfolding others_unlinked_def
    proof (intro allI impI)
      fix v
      assume v: "blocked_status (status (tasks s' v))" "v \<notin> set ws"
      then have n: "v \<notin> set (t # rs)" using blocked_not_ready [OF s'(2), of v] by simp
      with v s'(4) q(4) have "unlinked A (general_tag v)" by (simp add: others_unlinked_def)
      moreover have "ready_is A rs" using q(2) by (simp add: sched_inv_def)
      ultimately show "unlinked (set_ready A (t # rs)) (general_tag v)" using n by (rule unlinked_set_ready)
    qed
    show "pcb_ok s'" by (rule pcb_ok_mono [OF q(5)]) (use s'(4) b(1) in \<open>auto simp: blocked_status_def split: if_splits\<close>)
    show "\<forall>v\<in>set ws. downs (pc s' v) \<and> status (tasks s' v) = TASK_BLOCKED"
      using q(6) s'(4) mo(4) b(2) by auto
  qed (use q s' more mo in auto)
  then show ?thesis using s'(1) assms(2) owner_inv_cong [OF more(1)] by (auto simp: lock_inv_def)
qed

lemma lock_step:
  assumes "lock_inv l s" and "enabled l a s"
  shows "\<exists>s'. act l a s = Inr s' \<and> lock_inv l s'"
proof -
  from assms(1) obtain A rs ws where inv: "queue_inv l s A rs ws" "owner_inv l s ws" by (auto simp: lock_inv_def)
  show ?thesis
  proof (cases a)
    case Pass
    then obtain w where "pc s (cur s) = Down w" using assms(2) by (auto simp: downs_def)
    moreover have "sem_value s (semaphore l) = 1 \<or> sem_value s (semaphore l) = 0"
      using inv(2) by (auto simp: owner_inv_def owner_is_def split: if_splits)
    ultimately show ?thesis using step_pass_take [OF inv] step_pass_block [OF inv] Pass by blast
  next
    case Up
    then have rel: "pc s (cur s) = Rel" using assms(2) by simp
    obtain ow where "owner_is l s ow" using inv(2) by (auto simp: owner_inv_def)
    then have "owner_is l s (Some (cur s))" using owner_cur(1) [of l s ow] rel by (simp add: owns_def)
    then show ?thesis using step_up_none [of l s A rs] step_up_wake [of l s A rs] inv(1) rel Up by (cases ws) auto
  qed (use assms(2) step_acquire [OF inv] step_enter [OF inv] step_take [OF inv] step_release [OF inv]
      step_preempt [OF inv] step_block [OF inv] step_unblock [OF inv] in blast)+
qed

lemma lock_reach_inv: "lock_reach l s \<Longrightarrow> lock_inv l s"
proof (induction rule: lock_reach.induct)
  case (reach_init s)
  then show ?case by (rule fresh_lock_inv)
next
  case (reach_step s a s')
  then show ?case using lock_step [of l s a] by auto
qed

section \<open>A concrete run\<close>

definition demo_lock :: u32 where
  "demo_lock = 0xc0015c80"

definition demo_threads :: threads where
  "demo_threads = list_init (sched.extend demo_sched
     \<lparr>sem_value = \<lambda>_. 1, lock_holder = \<lambda>_. 0, holder_repeat_nr = \<lambda>_. 0, pc = \<lambda>_. Out\<rparr>)
     (waiters (semaphore demo_lock))"

lemma demo_threads_fields:
  "tasks demo_threads = tasks demo_sched" "cur demo_threads = cur demo_sched"
  "idle_thread demo_threads = idle_thread demo_sched" "sem_value demo_threads = (\<lambda>_. 1)"
  "lock_holder demo_threads = (\<lambda>_. 0)" "holder_repeat_nr demo_threads = (\<lambda>_. 0)" "pc demo_threads = (\<lambda>_. Out)"
  by (simp_all add: demo_threads_def list_init_def Let_def set_nxt_def set_prv_def sched.defs)

lemma demo_statuses:
  "status (tasks demo_sched t) =
     (if t = 0xc009e000 then TASK_RUNNING else if t = 0xc0101000 \<or> t = 0xc0102000 then TASK_READY
      else if t = 0xc0103000 then TASK_BLOCKED else TASK_DIED)"
  by (auto simp: demo_sched_def Let_def sched list_init_def set_prv_def set_nxt_def demo_empty_def vm.defs demo_task_def)

lemma demo_threads_fresh: "lock_fresh demo_lock demo_threads"
proof -
  let ?w = "waiters (semaphore demo_lock)" and ?A = "demo_lists(waiters (semaphore demo_lock) \<mapsto> [])"
  let ?b = "sched.extend demo_sched
     \<lparr>sem_value = \<lambda>_. 1, lock_holder = \<lambda>_. 0, holder_repeat_nr = \<lambda>_. 0, pc = \<lambda>_. Out\<rparr> :: threads"
  have w: "?w = 0xc0015c88" by (simp add: waiters_def semaphore_def demo_lock_def)
  have c: "list_cells thread_ready_list (map general_tag [0xc0101000, 0xc0102000]) \<inter> list_cells ?w [] = {}"
    by (simp add: list_cells_def w thread_ready_list_def TAIL_def general_tag_def)
  have "list_rep demo_sched thread_ready_list (map general_tag [0xc0101000, 0xc0102000])"
    using lists_repD [OF demo_lists_rep] demo_ready by (simp add: ready_is_def)
  then have "list_rep ?b thread_ready_list (map general_tag [0xc0101000, 0xc0102000])"
    by (simp add: list_rep_def sched.defs)
  then have l1: "list_rep demo_threads thread_ready_list (map general_tag [0xc0101000, 0xc0102000])"
    unfolding demo_threads_def by (rule list_init_other [OF _ c])
  have l2: "list_rep demo_threads ?w []" unfolding demo_threads_def by (rule list_init_rep)
  have A: "?A m = Some xs \<Longrightarrow> m = thread_ready_list \<and> xs = map general_tag [0xc0101000, 0xc0102000] \<or> m = ?w \<and> xs = []" for m xs
    by (auto simp: demo_lists_def set_ready_def split: if_splits)
  have "lists_rep demo_threads ?A"
    unfolding lists_rep_def
  proof (intro conjI allI impI)
    show "list_rep demo_threads m xs" if "?A m = Some xs" for m xs using A [OF that] l1 l2 by auto
    show "list_cells m xs \<inter> list_cells k ys = {}" if "?A m = Some xs" "?A k = Some ys" "m \<noteq> k" for m k xs ys
      using A [OF that(1)] A [OF that(2)] that(3) c by (elim disjE) (simp_all add: Int_commute)
  qed
  moreover have u: "unlinked ?A (general_tag t)" if "unlinked demo_lists (general_tag t)" "t \<in> {0xc009e000, 0xc0103000}" for t
    using that by (auto simp: unlinked_def list_cells_def w TAIL_def general_tag_def)
  moreover have rl: "?w \<noteq> thread_ready_list" by (simp add: w thread_ready_list_def)
  then have "ready_is ?A [0xc0101000, 0xc0102000]" using demo_ready by (simp add: ready_is_def)
  moreover have cur: "cur demo_sched = 0xc009e000" "idle_thread demo_sched = 0xc0102000"
    by (simp_all add: demo_sched_def Let_def sched list_init_def set_prv_def set_nxt_def demo_empty_def vm.defs)
  ultimately have "sched_inv demo_threads ?A [0xc0101000, 0xc0102000]"
    using demo_unlinked(3) by (simp add: sched_inv_def demo_threads_fields demo_statuses)
  moreover have "others_unlinked demo_threads ?A []"
    using u demo_unlinked(4) by (simp add: others_unlinked_def demo_threads_fields demo_statuses blocked_status_def)
  moreover have "pcb_ok demo_threads"
    by (simp add: pcb_ok_def demo_threads_fields demo_statuses)
  ultimately show ?thesis
    using rl by (auto simp: lock_fresh_def demo_threads_fields intro!: exI [of _ ?A])
qed

text \<open>The current thread gets the free lock in four steps.\<close>

lemma demo_cur: "cur demo_threads = 0xc009e000" "idle_thread demo_threads = 0xc0102000"
  by (simp_all add: demo_threads_fields demo_sched_def Let_def sched list_init_def set_prv_def set_nxt_def
      demo_empty_def vm.defs)

definition demo_in_down :: threads where
  "demo_in_down = set_pc (snd (intr_disable (set_pc demo_threads Call))) (Down INTR_ON)"

lemma demo_down: "lock_reach demo_lock demo_in_down"
proof -
  have r0: "lock_reach demo_lock demo_threads" by (rule reach_init [OF demo_threads_fresh])
  have r1: "lock_reach demo_lock (set_pc demo_threads Call)"
    by (rule reach_step [OF r0, of Acquire]) (simp_all add: demo_threads_fields(4-7) demo_cur)
  have "eflags demo_threads = 0x202"
    by (simp add: demo_threads_def list_init_def Let_def set_nxt_def set_prv_def sched.defs demo_sched_def sched
        demo_empty_def vm.defs some_vm_def)
  then have "intr_get_status (set_pc demo_threads Call) = INTR_ON"
    by (simp add: intr_get_status_def sched EFLAGS_IF_def)
  then show ?thesis
    by (intro reach_step [OF r1, of EnterDown]) (simp_all add: sched case_prod_beta intr demo_in_down_def)
qed

lemma demo_held:
  "\<exists>s :: threads. lock_reach demo_lock s \<and> pc s 0xc009e000 = Held \<and> cur s = 0xc009e000"
proof -
  obtain s3 where s3: "act demo_lock Pass demo_in_down = Inr s3" "pc s3 (cur s3) = Got" "cur s3 = 0xc009e000"
    by (simp add: sched sema_down_pass_def Let_def demo_threads_fields(4) demo_cur demo_in_down_def)
  have "enabled demo_lock Pass demo_in_down" by (simp add: sched downs_def demo_in_down_def)
  then have r3: "lock_reach demo_lock s3" using s3(1) by (rule reach_step [OF demo_down])
  have e: "enabled demo_lock Take s3" using s3(2) by simp
  from lock_step [OF lock_reach_inv [OF r3] e] obtain s4 where s4: "act demo_lock Take s3 = Inr s4" by blast
  then have "pc s4 0xc009e000 = Held" "cur s4 = 0xc009e000"
    using s3(3) by (auto simp: lock_take_def Let_def set_pc_def split: if_splits)
  moreover have "lock_reach demo_lock s4" by (rule reach_step [OF r3 e s4])
  ultimately show ?thesis by blast
qed

section \<open>What the lock promises\<close>

text \<open>
  C1: mutual exclusion.  In every state the threads can reach, by any interleaving of their
  calls on the lock with time slices ending, threads blocking for other reasons (also inside the
  critical section) and being woken, at most one thread is between the return of \<open>sema_down\<close> and
  the call of \<open>sema_up\<close>; the semaphore is 1 exactly when there is none; and the lock's holder is
  the thread inside the critical section.
\<close>

theorem lock_mutual_exclusion:
  assumes "lock_reach l s"
  shows "(owns (pc s t) \<and> owns (pc s u) \<longrightarrow> t = u) \<and>
         (sem_value s (semaphore l) = 1 \<longleftrightarrow> (\<forall>t. \<not> owns (pc s t))) \<and>
         (pc s t = Held \<longrightarrow> lock_holder s l = t \<and> holder_repeat_nr s l \<noteq> 0)"
proof -
  obtain ow where ow: "owner_is l s ow"
    using lock_reach_inv [OF assms] by (auto simp: lock_inv_def owner_inv_def)
  have "pc s t = Held \<Longrightarrow> ow = Some t" using ow by (auto simp: owner_is_def owns_def)
  then have "pc s t = Held \<longrightarrow> lock_holder s l = t \<and> holder_repeat_nr s l \<noteq> 0"
    using ow by (auto simp: owner_is_def)
  then show ?thesis using ow by (auto simp: owner_is_def split: if_splits)
qed

theorem lock_mutual_exclusion_witness:
  "\<exists>s :: threads. lock_reach demo_lock s \<and> lock_holder s demo_lock = 0xc009e000 \<and>
     sem_value s (semaphore demo_lock) \<noteq> 1"
proof -
  from demo_held obtain s :: threads where "lock_reach demo_lock s" "pc s 0xc009e000 = Held" by blast
  with lock_mutual_exclusion [OF this(1), of "0xc009e000" "0xc009e000"] show ?thesis by (auto simp: owns_def)
qed

text \<open>
  C2: none of the assertions in \<open>sema_down\<close>, \<open>sema_up\<close>, \<open>lock_acquire\<close>, \<open>lock_release\<close>,
  \<open>thread_block\<close>, \<open>thread_unblock\<close> and \<open>schedule\<close> fires in a reachable state: every action that
  the threads may take next succeeds.
\<close>

theorem lock_never_panics:
  assumes "lock_reach l s" and "enabled l a s"
  shows "\<exists>s'. act l a s = Inr s' \<and> lock_reach l s'"
  using lock_step [OF lock_reach_inv [OF assms(1)] assms(2)] reach_step [OF assms] by blast

theorem lock_never_panics_witness:
  "\<exists>s s' :: threads. lock_reach demo_lock s \<and> act demo_lock Release s = Inr s' \<and> lock_reach demo_lock s'"
proof -
  from demo_held obtain s :: threads where
    "lock_reach demo_lock s" "pc s 0xc009e000 = Held" "cur s = 0xc009e000" by blast
  with lock_never_panics [OF this(1), of Release] show ?thesis by auto
qed

text \<open>
  C3: no wake-up is lost.  When the semaphore of the lock is free and some thread is still in the
  loop of \<open>sema_down\<close>, one such thread is ready or running and will test the semaphore again; and
  a thread in the loop that is neither is linked in the wait queue, where \<open>sema_up\<close> finds it.
\<close>

theorem no_lost_wakeup:
  assumes "lock_reach l s" and "downs (pc s t)"
  shows "(sem_value s (semaphore l) = 1 \<longrightarrow>
            (\<exists>u. downs (pc s u) \<and> status (tasks s u) \<in> {TASK_READY, TASK_RUNNING})) \<and>
         (status (tasks s t) \<in> {TASK_READY, TASK_RUNNING} \<or>
            (\<exists>ws. list_rep s (waiters (semaphore l)) (map general_tag ws) \<and> t \<in> set ws))"
proof -
  obtain A rs ws where q: "queue_inv l s A rs ws" "owner_inv l s ws"
    using lock_reach_inv [OF assms(1)] by (auto simp: lock_inv_def)
  have sc: "sched_inv s A rs" and A: "A (waiters (semaphore l)) = Some (map general_tag ws)"
    and loop: "\<forall>t. downs (pc s t) \<longrightarrow> t \<in> set ws \<or> t = cur s \<or> t \<in> set rs"
    using q(1) by (simp_all add: queue_inv_def)
  have live: "status (tasks s u) \<in> {TASK_READY, TASK_RUNNING}" if "downs (pc s u)" "u \<notin> set ws" for u
    using loop sc that by (auto simp: sched_inv_def)
  have "list_rep s (waiters (semaphore l)) (map general_tag ws)"
    using lists_repD [of s A] sc A by (simp add: sched_inv_def)
  moreover have "\<exists>u. downs (pc s u) \<and> u \<notin> set ws" if "sem_value s (semaphore l) = 1"
    using that q(2) assms(2) by (cases "ws = []") (auto simp: owner_inv_def wake_inv_def)
  ultimately show ?thesis using live assms(2) by blast
qed

theorem no_lost_wakeup_witness:
  "\<exists>u. downs (pc demo_in_down u) \<and> status (tasks demo_in_down u) \<in> {TASK_READY, TASK_RUNNING}"
proof -
  have "downs (pc demo_in_down 0xc009e000)" "sem_value demo_in_down (semaphore demo_lock) = 1"
    by (simp_all add: demo_in_down_def sched downs_def demo_cur demo_threads_fields(4))
  with no_lost_wakeup [OF demo_down this(1)] show ?thesis by blast
qed

text \<open>A change of the value with interrupts off in between is the change alone.\<close>

lemma set_value_bracket:
  "snd (intr_set_status (set_value (snd (intr_disable s)) p v) (intr_get_status s)) = set_value s p v"
proof (cases "intr_get_status s")
  case INTR_ON
  have "intr_get_status (set_value (cli s) p v) = INTR_OFF"
    using status_only_eflags [of "set_value (cli s) p v" "cli s"] by (simp add: sched intr)
  moreover have "sti (set_value (cli s) p v) = set_value (sti (cli s)) p v"
    by (simp add: sti_def set_value_def)
  ultimately show ?thesis
    using INTR_ON by (simp add: intr_disable_def intr_set_status_def intr_enable_def cli_sti)
next
  case INTR_OFF
  then have "intr_get_status (set_value s p v) = INTR_OFF"
    using status_only_eflags [of "set_value s p v" s] by (simp add: sched)
  then show ?thesis using INTR_OFF by (simp add: intr_disable_def intr_set_status_def)
qed

lemma sema_down_free:
  "sem_value s p = 1 \<Longrightarrow> sema_down s p = Inr (True, set_value s p 0)"
  using set_value_bracket [of s p 0]
  by (simp add: sema_down_def sema_down_pass_def case_prod_beta Let_def sched intr)

lemma sema_up_nobody:
  assumes "sem_value s p = 0" and "list_rep s (waiters p) []"
  shows "sema_up s p = Inr (set_value s p 1)"
proof -
  have "list_rep (snd (intr_disable s)) (waiters p) []"
    using assms(2) by (simp add: list_rep_def klist)
  then show ?thesis
    using assms(1) set_value_bracket [of s p 1]
    by (simp add: sema_up_def case_prod_beta Let_def sched intr list_empty_iff)
qed

text \<open>
  Nested acquisition and release.  \<open>lock_acquire\<close> of a free lock succeeds at once and
  makes the caller the holder; acquiring it again while holding it only counts, and
  \<open>lock_release\<close> is the inverse of the last acquisition in both cases: with nobody waiting the
  whole state is as before.  Releasing a lock one does not hold is a panic.
\<close>

theorem lock_acquire_release:
  assumes "list_rep s (waiters (semaphore l)) []" and "cur s \<noteq> NULL"
    and "lock_holder s l = NULL \<and> holder_repeat_nr s l = 0 \<and> sem_value s (semaphore l) = 1 \<or>
         lock_holder s l = cur s \<and> holder_repeat_nr s l \<noteq> 0 \<and> holder_repeat_nr s l + 1 \<noteq> 0"
  shows "\<exists>s'. lock_acquire s l = Inr (True, s') \<and> lock_holder s' l = cur s \<and>
           holder_repeat_nr s' l = holder_repeat_nr s l + 1 \<and> lock_release s' l = Inr s \<and>
           (lock_holder s l \<noteq> cur s \<longrightarrow> lock_release s l = Inl Panic)"
  using assms(3)
proof (elim disjE conjE)
  assume free: "lock_holder s l = NULL" "holder_repeat_nr s l = 0" "sem_value s (semaphore l) = 1"
  let ?p = "semaphore l"
  let ?t = "set_holder (set_value s ?p 0) l (cur s) 1"
  let ?r = "set_holder (set_value s ?p 0) l NULL 0"
  have "lock_acquire s l = Inr (True, ?t)"
    using free assms(2) by (simp add: lock_acquire_def sema_down_free lock_take_def Let_def sched set_holder_def)
  moreover have "lock_drop ?t l = Inr (True, ?r)"
    by (simp add: lock_drop_def set_holder_def sched)
  moreover have "sema_up ?r ?p = Inr (set_value ?r ?p 1)"
    using assms(1) by (intro sema_up_nobody) (simp_all add: set_holder_def sched list_rep_def)
  moreover have "set_value ?r ?p 1 = s"
    using free by (auto simp: set_value_def set_holder_def intro!: sync.equality)
  ultimately show ?thesis
    using free assms(2) by (simp add: lock_release_def set_holder_def lock_drop_def)
next
  assume held: "lock_holder s l = cur s" "holder_repeat_nr s l \<noteq> 0" "holder_repeat_nr s l + 1 \<noteq> 0"
  then have "unat (holder_repeat_nr s l + 1) = Suc (unat (holder_repeat_nr s l))" "unat (holder_repeat_nr s l) \<noteq> 0"
    by (simp_all add: unatSuc unat_eq_zero add.commute)
  then have "holder_repeat_nr s l + 1 > 1" by (simp add: unat_less_iff)
  then show ?thesis
    using held by (auto simp: lock_acquire_def lock_again_def lock_release_def lock_drop_def intro!: sync.equality)
qed

theorem lock_acquire_release_witness:
  "\<exists>s'. lock_acquire demo_threads demo_lock = Inr (True, s') \<and> lock_release s' demo_lock = Inr demo_threads"
proof -
  have "list_rep demo_threads (waiters (semaphore demo_lock)) []"
    unfolding demo_threads_def by (rule list_init_rep)
  from lock_acquire_release [OF this] show ?thesis by (auto simp: demo_cur demo_threads_fields(4-6))
qed

end
