(* ===== verification/Ioqueue.thy ===== *)
theory Ioqueue
  imports Sync
begin

text \<open>
  The ring buffer of \<open>device/ioqueue.c\<close> between the keyboard driver and its readers.

  \<open>ioq_load\<close> and \<open>ioq_store\<close> are the buffer part of \<open>ioq_getchar\<close> and \<open>ioq_putchar\<close>;
  they provide the contract of theory \<open>Fifo\<close>.  The whole operations run on the scheduler's state
  with the one queue \<open>kb_buf\<close> of the kernel: a round of their loop either does the work and
  wakes the other side, or takes the queue's lock, enters the thread as waiter and blocks it,
  and then the result is \<open>None\<close>; when it is woken it calls \<open>ioq_resume\<close> and makes the next
  round.
\<close>

section \<open>The buffer\<close>

record ioqueue =
  ioq_consumer :: u32
  ioq_producer :: u32
  ioq_buf :: "u8 list"
  ioq_head :: u32
  ioq_tail :: u32

definition bufsize :: u32 where
  "bufsize = 64"

definition next_pos :: "u32 \<Rightarrow> u32" where
  "next_pos pos = (pos + 1) mod bufsize"

definition is_full :: "ioqueue \<Rightarrow> bool" where
  "is_full ioq \<longleftrightarrow> next_pos (ioq_head ioq) = ioq_tail ioq"

definition is_empty :: "ioqueue \<Rightarrow> bool" where
  "is_empty ioq \<longleftrightarrow> ioq_head ioq = ioq_tail ioq"

definition ioq_load :: "ioqueue \<Rightarrow> (u8 \<times> ioqueue) res" where
  "ioq_load ioq =
     rbind (ld (ioq_buf ioq) (ioq_tail ioq)) (\<lambda>c. Inr (c, ioq\<lparr>ioq_tail := next_pos (ioq_tail ioq)\<rparr>))"

definition ioq_store :: "ioqueue \<Rightarrow> u8 \<Rightarrow> ioqueue res" where
  "ioq_store ioq chr =
     rbind (st (ioq_buf ioq) (ioq_head ioq) chr)
       (\<lambda>b. Inr (ioq\<lparr>ioq_buf := b, ioq_head := next_pos (ioq_head ioq)\<rparr>))"

section \<open>The operations on the kernel's state\<close>

record iostate = sync +
  kb_buf :: ioqueue
  kb_lock :: u32

definition init_ioqueue :: "'a iostate_scheme \<Rightarrow> 'a iostate_scheme" where
  "init_ioqueue s =
     (lock_init s (kb_lock s))\<lparr>kb_buf := (kb_buf s)\<lparr>ioq_consumer := NULL, ioq_producer := NULL,
        ioq_head := 0, ioq_tail := 0\<rparr>\<rparr>"

definition ioq_full :: "'a iostate_scheme \<Rightarrow> bool res" where
  "ioq_full s = (if intr_get_status s \<noteq> INTR_OFF then Inl Panic else Inr (is_full (kb_buf s)))"

definition ioq_empty :: "'a iostate_scheme \<Rightarrow> bool res" where
  "ioq_empty s = (if intr_get_status s \<noteq> INTR_OFF then Inl Panic else Inr (is_empty (kb_buf s)))"

definition set_consumer :: "'a iostate_scheme \<Rightarrow> u32 \<Rightarrow> 'a iostate_scheme" where
  "set_consumer s t = s\<lparr>kb_buf := (kb_buf s)\<lparr>ioq_consumer := t\<rparr>\<rparr>"

definition set_producer :: "'a iostate_scheme \<Rightarrow> u32 \<Rightarrow> 'a iostate_scheme" where
  "set_producer s t = s\<lparr>kb_buf := (kb_buf s)\<lparr>ioq_producer := t\<rparr>\<rparr>"

text \<open>\<open>get\<close> and \<open>set\<close> stand for the pointer to the waiter field the caller passes.\<close>

definition ioq_wait ::
  "'a iostate_scheme \<Rightarrow> (ioqueue \<Rightarrow> u32) \<Rightarrow> ('a iostate_scheme \<Rightarrow> u32 \<Rightarrow> 'a iostate_scheme) \<Rightarrow> 'a iostate_scheme res" where
  "ioq_wait s get set_waiter =
     (if get (kb_buf s) \<noteq> NULL then Inl Panic
      else thread_block (set_waiter s (cur s)) TASK_BLOCKED)"

definition wakeup ::
  "'a iostate_scheme \<Rightarrow> (ioqueue \<Rightarrow> u32) \<Rightarrow> ('a iostate_scheme \<Rightarrow> u32 \<Rightarrow> 'a iostate_scheme) \<Rightarrow> 'a iostate_scheme res" where
  "wakeup s get set_waiter =
     (if get (kb_buf s) = NULL then Inl Panic
      else rbind (thread_unblock s (get (kb_buf s))) (\<lambda>s. Inr (set_waiter s NULL)))"

definition ioq_getchar :: "'a iostate_scheme \<Rightarrow> (u8 option \<times> 'a iostate_scheme) res" where
  "ioq_getchar s =
     (if intr_get_status s \<noteq> INTR_OFF then Inl Panic
      else rbind (ioq_empty s) (\<lambda>empty.
        if empty then
          rbind (lock_acquire s (kb_lock s)) (\<lambda>(got, s).
            if got then rbind (ioq_wait s ioq_consumer set_consumer) (\<lambda>s. Inr (None, s)) else Inr (None, s))
        else
          rbind (ioq_load (kb_buf s)) (\<lambda>(retchr, q).
            let s = s\<lparr>kb_buf := q\<rparr>
            in if ioq_producer (kb_buf s) \<noteq> NULL then
                 rbind (wakeup s ioq_producer set_producer) (\<lambda>s. Inr (Some retchr, s))
               else Inr (Some retchr, s))))"

definition ioq_putchar :: "'a iostate_scheme \<Rightarrow> u8 \<Rightarrow> (unit option \<times> 'a iostate_scheme) res" where
  "ioq_putchar s chr =
     (if intr_get_status s \<noteq> INTR_OFF then Inl Panic
      else rbind (ioq_full s) (\<lambda>full.
        if full then
          rbind (lock_acquire s (kb_lock s)) (\<lambda>(got, s).
            if got then rbind (ioq_wait s ioq_producer set_producer) (\<lambda>s. Inr (None, s)) else Inr (None, s))
        else
          rbind (ioq_store (kb_buf s) chr) (\<lambda>q.
            let s = s\<lparr>kb_buf := q\<rparr>
            in if ioq_consumer (kb_buf s) \<noteq> NULL then
                 rbind (wakeup s ioq_consumer set_consumer) (\<lambda>s. Inr (Some (), s))
               else Inr (Some (), s))))"

text \<open>What a thread that was woken in \<open>ioq_wait\<close> does before it looks at the buffer again.\<close>

definition ioq_resume :: "'a iostate_scheme \<Rightarrow> 'a iostate_scheme res" where
  "ioq_resume s = lock_release s (kb_lock s)"

section \<open>The buffer is a queue\<close>

definition ioq_rep :: "ioqueue \<Rightarrow> u8 list \<Rightarrow> bool" where
  "ioq_rep q xs \<longleftrightarrow>
     length (ioq_buf q) = 64 \<and> unat (ioq_tail q) < 64 \<and> length xs \<le> 63 \<and>
     unat (ioq_head q) = (unat (ioq_tail q) + length xs) mod 64 \<and>
     (\<forall>i < length xs. xs ! i = ioq_buf q ! ((unat (ioq_tail q) + i) mod 64))"

lemma unat_next_pos: "unat p < 64 \<Longrightarrow> unat (next_pos p) = (unat p + 1) mod 64"
  by (simp add: next_pos_def bufsize_def wordnat)

lemma ioq_rep_empty:
  assumes "ioq_rep q xs"
  shows "is_empty q \<longleftrightarrow> xs = []"
proof -
  have "(unat (ioq_tail q) + length xs) mod 64 = unat (ioq_tail q) \<longleftrightarrow> length xs = 0"
    using assms by (auto simp: ioq_rep_def mod_if)
  then show ?thesis using assms by (simp add: is_empty_def word_unat_eq_iff ioq_rep_def)
qed

lemma ioq_rep_full:
  assumes "ioq_rep q xs"
  shows "is_full q \<longleftrightarrow> length xs = 63"
proof -
  have h: "unat (ioq_head q) = (unat (ioq_tail q) + length xs) mod 64" "unat (ioq_tail q) < 64" "length xs \<le> 63"
    using assms by (simp_all add: ioq_rep_def)
  then have "unat (next_pos (ioq_head q)) = ((unat (ioq_tail q) + length xs) mod 64 + 1) mod 64"
    by (simp add: unat_next_pos)
  also have "\<dots> = (unat (ioq_tail q) + length xs + 1) mod 64" by (simp add: mod_simps)
  finally have "unat (next_pos (ioq_head q)) = unat (ioq_tail q) \<longleftrightarrow> length xs = 63"
    using h(2,3) by (auto simp: mod_if)
  then show ?thesis by (simp add: is_full_def word_unat_eq_iff)
qed

lemma ring_distinct:
  fixes t i n :: nat
  assumes "t < 64" and "i < n" and "n < 63"
  shows "(t + i) mod 64 \<noteq> (t + n) mod 64"
proof
  assume "(t + i) mod 64 = (t + n) mod 64"
  then have "64 dvd (t + n) - (t + i)" using assms(2) by (metis add_le_cancel_left less_imp_le mod_eq_dvd_iff_nat)
  then have "64 dvd n - i" by simp
  then show False using assms(2,3) by (auto dest: dvd_imp_le)
qed

lemma ioq_store_rep:
  assumes "ioq_rep q xs" and "length xs < 63"
  shows "\<exists>q'. ioq_store q c = Inr q' \<and> ioq_rep q' (xs @ [c]) \<and>
           ioq_consumer q' = ioq_consumer q \<and> ioq_producer q' = ioq_producer q"
proof -
  let ?t = "unat (ioq_tail q)" and ?h = "unat (ioq_head q)"
  have r: "length (ioq_buf q) = 64" "?t < 64" "?h = (?t + length xs) mod 64"
    "\<forall>i < length xs. xs ! i = ioq_buf q ! ((?t + i) mod 64)"
    using assms(1) by (simp_all add: ioq_rep_def)
  have h: "?h < 64" using r(3) by simp
  let ?q = "q\<lparr>ioq_buf := (ioq_buf q)[?h := c], ioq_head := next_pos (ioq_head q)\<rparr>"
  have hd: "unat (next_pos (ioq_head q)) = (?t + length (xs @ [c])) mod 64"
    unfolding unat_next_pos [OF h] unfolding r(3) by (simp add: mod_simps)
  have nth: "(xs @ [c]) ! i = (ioq_buf q)[?h := c] ! ((?t + i) mod 64)" if "i < length (xs @ [c])" for i
  proof (cases "i = length xs")
    case True
    have "(xs @ [c]) ! i = c" using True by simp
    moreover have "(ioq_buf q)[?h := c] ! ?h = c" using h r(1) by simp
    ultimately show ?thesis unfolding True r(3) [symmetric] by simp
  next
    case False
    then have i: "i < length xs" using that by simp
    then have "(?t + i) mod 64 \<noteq> ?h" unfolding r(3) by (rule ring_distinct [OF r(2) _ assms(2)])
    have "(xs @ [c]) ! i = xs ! i" using i by (simp add: nth_append)
    also have "\<dots> = ioq_buf q ! ((?t + i) mod 64)" using r(4) i by blast
    also have "\<dots> = (ioq_buf q)[?h := c] ! ((?t + i) mod 64)"
      using \<open>(?t + i) mod 64 \<noteq> ?h\<close> by (metis nth_list_update_neq)
    finally show ?thesis .
  qed
  have "ioq_rep ?q (xs @ [c])"
    unfolding ioq_rep_def
  proof (intro conjI allI impI)
    show "unat (ioq_head ?q) = (unat (ioq_tail ?q) + length (xs @ [c])) mod 64" using hd by simp
    show "\<And>i. i < length (xs @ [c]) \<Longrightarrow> (xs @ [c]) ! i = ioq_buf ?q ! ((unat (ioq_tail ?q) + i) mod 64)"
      using nth by (simp only: ioqueue.select_convs) simp
  qed (use r(1,2) assms(2) in simp_all)
  then show ?thesis using h r(1) by (simp add: ioq_store_def)
qed

lemma ioq_load_rep:
  assumes "ioq_rep q (x # xs)"
  shows "\<exists>q'. ioq_load q = Inr (x, q') \<and> ioq_rep q' xs \<and>
           ioq_consumer q' = ioq_consumer q \<and> ioq_producer q' = ioq_producer q"
proof -
  let ?t = "unat (ioq_tail q)"
  have r: "length (ioq_buf q) = 64" "?t < 64" "length xs < 63" "unat (ioq_head q) = (?t + length (x # xs)) mod 64"
    "\<forall>i < length (x # xs). (x # xs) ! i = ioq_buf q ! ((?t + i) mod 64)"
    using assms by (simp_all add: ioq_rep_def)
  let ?q = "q\<lparr>ioq_tail := next_pos (ioq_tail q)\<rparr>"
  have "(x # xs) ! 0 = ioq_buf q ! ((?t + 0) mod 64)" by (rule r(5) [rule_format]) simp
  then have x: "ioq_buf q ! ?t = x" unfolding add_0_right mod_less [OF r(2)] nth_Cons_0 by (rule sym)
  have n: "unat (next_pos (ioq_tail q)) = (?t + 1) mod 64" using r(2) by (rule unat_next_pos)
  have "xs ! i = ioq_buf q ! (((?t + 1) mod 64 + i) mod 64)" if "i < length xs" for i
  proof -
    have "(x # xs) ! Suc i = ioq_buf q ! ((?t + Suc i) mod 64)"
      by (rule r(5) [rule_format]) (use that in simp)
    then show ?thesis by (simp add: mod_simps)
  qed
  then have nth: "\<forall>i < length xs. xs ! i = ioq_buf q ! ((unat (next_pos (ioq_tail q)) + i) mod 64)"
    unfolding n by blast
  have "unat (ioq_head q) = (unat (next_pos (ioq_tail q)) + length xs) mod 64"
    unfolding n r(4) by (simp add: mod_simps)
  moreover have "unat (next_pos (ioq_tail q)) < 64" unfolding n by simp
  ultimately have "ioq_rep ?q xs" using r(1,3) nth by (simp add: ioq_rep_def)
  then show ?thesis using r(1,2) x by (simp add: ioq_load_def)
qed

interpretation ring: fifo ioq_rep "\<lambda>xs x. length xs < 63" ioq_store ioq_load
  using ioq_store_rep ioq_load_rep by unfold_locales blast+

lemma room_all_63: "length xs + length ys \<le> 63 \<Longrightarrow> room_all (\<lambda>xs x. length xs < 63) xs ys"
  by (induction ys arbitrary: xs) auto

text \<open>
  C31: the ring buffer.  It holds 63 characters: it reports full exactly at 63 and empty exactly
  at 0, and as long as that bound is kept, characters stored in it come out in the order they
  went in, behind those that were there, wherever head and tail stand and across the wrap-around.
\<close>

theorem ring_buffer_order:
  assumes "ioq_rep q xs" and "length xs + length ys \<le> 63"
  shows "(is_full q \<longleftrightarrow> length xs = 63) \<and> (is_empty q \<longleftrightarrow> xs = []) \<and>
         (\<exists>q1 q2. put_all ioq_store q ys = Inr q1 \<and>
            get_all ioq_load q1 (length xs + length ys) = Inr (xs @ ys, q2) \<and> is_empty q2)"
  using ring.first_in_first_out [OF assms(1) room_all_63 [OF assms(2)]]
    ioq_rep_full [OF assms(1)] ioq_rep_empty [OF assms(1)] ioq_rep_empty by blast

definition demo_ioq :: ioqueue where
  "demo_ioq = \<lparr>ioq_consumer = 0, ioq_producer = 0, ioq_buf = (replicate 64 0)[63 := 0x61],
     ioq_head = 0, ioq_tail = 63\<rparr>"

lemma demo_ioq_rep: "ioq_rep demo_ioq [0x61]"
  by (simp add: ioq_rep_def demo_ioq_def)

theorem ring_buffer_order_witness:
  "\<exists>q1 q2. put_all ioq_store demo_ioq [0x62, 0x63] = Inr q1 \<and>
     get_all ioq_load q1 (length [0x61 :: u8, 0x62, 0x63]) = Inr ([0x61, 0x62, 0x63], q2) \<and> is_empty q2"
  using ring_buffer_order [OF demo_ioq_rep, of "[0x62, 0x63]"] by simp

end
