(* ===== verification/Keyboard.thy ===== *)
theory Keyboard
  imports Ioqueue
begin

text \<open>
  The keyboard driver \<open>device/keyboard.c\<close>: a state machine over scan codes that keeps the
  modifier keys in five flags and puts characters into the ring buffer of theory \<open>Ioqueue\<close>.
  The byte read from port 0x60 is an argument; the handler runs in an interrupt, so with
  interrupts off.  The second result is \<open>True\<close> when \<open>unknown key\<close> is printed.
\<close>

section \<open>The driver\<close>

record kbd = iostate +
  ctrl_status :: bool
  shift_status :: bool
  alt_status :: bool
  caps_lock_status :: bool
  ext_scancode :: bool

definition shift_l_make :: u16 where
  "shift_l_make = 0x2a"

definition shift_r_make :: u16 where
  "shift_r_make = 0x36"

definition alt_l_make :: u16 where
  "alt_l_make = 0x38"

definition alt_r_make :: u16 where
  "alt_r_make = 0xe038"

definition ctrl_l_make :: u16 where
  "ctrl_l_make = 0x1d"

definition ctrl_r_make :: u16 where
  "ctrl_r_make = 0xe01d"

definition caps_lock_make :: u16 where
  "caps_lock_make = 0x3a"

text \<open>The table, in the code's order: the character without and with shift, as ASCII codes.\<close>

definition keymap :: "(u8 \<times> u8) list" where
  "keymap = [
    (0, 0), (27, 27), (49, 33), (50, 64), (51, 35), (52, 36),
    (53, 37), (54, 94), (55, 38), (56, 42), (57, 40), (48, 41),
    (45, 95), (61, 43), (8, 8), (9, 9), (113, 81), (119, 87),
    (101, 69), (114, 82), (116, 84), (121, 89), (117, 85), (105, 73),
    (111, 79), (112, 80), (91, 123), (93, 125), (13, 13), (0, 0),
    (97, 65), (115, 83), (100, 68), (102, 70), (103, 71), (104, 72),
    (106, 74), (107, 75), (108, 76), (59, 58), (39, 34), (96, 126),
    (0, 0), (92, 124), (122, 90), (120, 88), (99, 67), (118, 86),
    (98, 66), (110, 78), (109, 77), (44, 60), (46, 62), (47, 63),
    (0, 0), (42, 42), (0, 0), (32, 32), (0, 0)]"

text \<open>The two-character keys, whose second character caps lock does not select.\<close>

definition double_key :: "u16 \<Rightarrow> bool" where
  "double_key scancode \<longleftrightarrow>
     scancode < 0x0e \<or> scancode = 0x29 \<or> scancode = 0x1a \<or> scancode = 0x1b \<or> scancode = 0x2b \<or>
     scancode = 0x27 \<or> scancode = 0x28 \<or> scancode = 0x33 \<or> scancode = 0x34 \<or> scancode = 0x35"

definition use_shift :: "u16 \<Rightarrow> bool \<Rightarrow> bool \<Rightarrow> bool" where
  "use_shift scancode shift_down_last caps_lock_last =
     (if double_key scancode then if shift_down_last then True else False
      else if shift_down_last \<and> caps_lock_last then False
      else if shift_down_last \<or> caps_lock_last then True else False)"

definition key_char :: "u16 \<Rightarrow> bool \<Rightarrow> bool \<Rightarrow> bool \<Rightarrow> u8 res" where
  "key_char scancode ctrl_down_last shift_down_last caps_lock_last =
     (let shift = use_shift scancode shift_down_last caps_lock_last;
          index = ucast (scancode AND 0x00ff) :: u8
      in rbind (ld keymap (ucast index)) (\<lambda>(plain, shifted).
           let cur_char = (if shift then shifted else plain)
           in Inr (if (ctrl_down_last \<and> cur_char = 0x6c) \<or> (ctrl_down_last \<and> cur_char = 0x75)
                   then cur_char - 0x61 else cur_char)))"

definition release_key :: "'a kbd_scheme \<Rightarrow> u16 \<Rightarrow> 'a kbd_scheme" where
  "release_key s make_code =
     (if make_code = ctrl_l_make \<or> make_code = ctrl_r_make then s\<lparr>ctrl_status := False\<rparr>
      else if make_code = shift_l_make \<or> make_code = shift_r_make then s\<lparr>shift_status := False\<rparr>
      else if make_code = alt_l_make \<or> make_code = 0xe038 then s\<lparr>alt_status := False\<rparr>
      else s)"

definition press_control :: "'a kbd_scheme \<Rightarrow> u16 \<Rightarrow> bool \<times> 'a kbd_scheme" where
  "press_control s scancode =
     (if scancode = ctrl_l_make \<or> scancode = ctrl_r_make then (False, s\<lparr>ctrl_status := True\<rparr>)
      else if scancode = shift_l_make \<or> scancode = shift_r_make then (False, s\<lparr>shift_status := True\<rparr>)
      else if scancode = alt_l_make \<or> scancode = alt_r_make then (False, s\<lparr>alt_status := True\<rparr>)
      else if scancode = caps_lock_make then (False, s\<lparr>caps_lock_status := \<not> caps_lock_status s\<rparr>)
      else (True, s))"

definition valid_make :: "u16 \<Rightarrow> bool" where
  "valid_make scancode \<longleftrightarrow>
     (scancode > 0x00 \<and> scancode < 0x3b) \<or> scancode = alt_r_make \<or> scancode = ctrl_r_make"

definition press_key :: "'a kbd_scheme \<Rightarrow> u16 \<Rightarrow> (bool \<times> 'a kbd_scheme) res" where
  "press_key s scancode =
     rbind (key_char scancode (ctrl_status s) (shift_status s) (caps_lock_status s)) (\<lambda>cur_char.
       if cur_char \<noteq> 0 then
         rbind (ioq_full s) (\<lambda>full.
           if \<not> full then rbind (ioq_putchar s cur_char) (\<lambda>(_, s). Inr (False, s)) else Inr (False, s))
       else Inr (press_control s scancode))"

definition intr_keyboard_handler :: "'a kbd_scheme \<Rightarrow> u8 \<Rightarrow> (bool \<times> 'a kbd_scheme) res" where
  "intr_keyboard_handler s byte =
     (let scancode = ucast byte :: u16
      in if scancode = 0xe0 then Inr (False, s\<lparr>ext_scancode := True\<rparr>)
         else
           let (scancode, s) =
                 (if ext_scancode s then (0xe000 OR scancode, s\<lparr>ext_scancode := False\<rparr>) else (scancode, s))
           in if scancode AND 0x0080 \<noteq> 0 then Inr (False, release_key s (scancode AND 0xff7f))
              else if valid_make scancode then press_key s scancode
              else Inr (False, s))"

fun keyboard_input :: "'a kbd_scheme \<Rightarrow> u8 list \<Rightarrow> 'a kbd_scheme res" where
  "keyboard_input s [] = Inr s"
| "keyboard_input s (b # bs) = rbind (intr_keyboard_handler s b) (\<lambda>(_, s). keyboard_input s bs)"

section \<open>The driver never blocks\<close>

definition kbd_ready :: "'a kbd_scheme \<Rightarrow> u8 list \<Rightarrow> bool" where
  "kbd_ready s xs \<longleftrightarrow>
     intr_get_status s = INTR_OFF \<and> ioq_consumer (kb_buf s) = NULL \<and> ioq_rep (kb_buf s) xs"

lemma kbd_ready_flags [simp]:
  "kbd_ready (s\<lparr>ctrl_status := b\<rparr>) xs = kbd_ready s xs" "kbd_ready (s\<lparr>shift_status := b\<rparr>) xs = kbd_ready s xs"
  "kbd_ready (s\<lparr>alt_status := b\<rparr>) xs = kbd_ready s xs" "kbd_ready (s\<lparr>caps_lock_status := b\<rparr>) xs = kbd_ready s xs"
  "kbd_ready (s\<lparr>ext_scancode := b\<rparr>) xs = kbd_ready s xs"
  by (simp_all add: kbd_ready_def intr_get_status_def)

lemma putchar_ready:
  assumes "kbd_ready s xs" and "length xs < 63"
  shows "\<exists>q. ioq_putchar s c = Inr (Some (), s\<lparr>kb_buf := q\<rparr>) \<and> kbd_ready (s\<lparr>kb_buf := q\<rparr>) (xs @ [c])"
proof -
  have r: "intr_get_status s = INTR_OFF" "ioq_consumer (kb_buf s) = NULL" "ioq_rep (kb_buf s) xs"
    using assms(1) by (simp_all add: kbd_ready_def)
  from ioq_store_rep [OF r(3) assms(2)] obtain q where
    q: "ioq_store (kb_buf s) c = Inr q" "ioq_rep q (xs @ [c])" "ioq_consumer q = NULL"
    using r(2) by auto
  moreover have "\<not> is_full (kb_buf s)" using ioq_rep_full [OF r(3)] assms(2) by simp
  moreover have "intr_get_status (s\<lparr>kb_buf := q\<rparr>) = INTR_OFF" using r(1) by (simp add: intr_get_status_def)
  ultimately show ?thesis
    using r(1) by (intro exI [of _ q]) (simp add: ioq_putchar_def ioq_full_def kbd_ready_def)
qed

text \<open>What a key with a character does: store it, or drop it when the buffer is full.\<close>

definition stored :: "u8 list \<Rightarrow> u8 \<Rightarrow> u8 list" where
  "stored xs c = (if length xs < 63 then xs @ [c] else xs)"

lemma press_char:
  assumes "kbd_ready s xs" and "key_char k (ctrl_status s) (shift_status s) (caps_lock_status s) = Inr c" and "c \<noteq> 0"
  shows "\<exists>q. press_key s k = Inr (False, s\<lparr>kb_buf := q\<rparr>) \<and> kbd_ready (s\<lparr>kb_buf := q\<rparr>) (stored xs c)"
proof (cases "length xs < 63")
  case True
  have "\<not> is_full (kb_buf s)" and "intr_get_status s = INTR_OFF"
    using assms(1) True ioq_rep_full [of "kb_buf s" xs] by (auto simp: kbd_ready_def)
  with putchar_ready [OF assms(1) True, of c] assms(2,3) True show ?thesis
    by (auto simp: press_key_def ioq_full_def stored_def)
next
  case False
  then have "is_full (kb_buf s)" and "intr_get_status s = INTR_OFF"
    using assms(1) ioq_rep_full [of "kb_buf s" xs] by (auto simp: kbd_ready_def ioq_rep_def)
  then show ?thesis using assms False
    by (intro exI [of _ "kb_buf s"]) (simp add: press_key_def ioq_full_def stored_def)
qed

lemma valid_index:
  assumes "valid_make k"
  shows "unat (ucast (ucast (k AND 0x00ff) :: u8) :: u32) < length keymap"
proof -
  have "unat (k AND 0x00ff) < 59"
  proof (cases "k < 0x3b")
    case True
    have "k AND 0x00ff \<le> k" by (rule word_and_le2)
    then have "unat (k AND 0x00ff) \<le> unat k" by (simp add: unat_le_iff)
    with True show ?thesis by (simp add: unat_less_iff)
  next
    case False
    then have "k = 0xe038 \<or> k = 0xe01d"
      using assms by (auto simp: valid_make_def alt_r_make_def ctrl_r_make_def)
    then show ?thesis by auto
  qed
  moreover from this have "unat (ucast (k AND 0x00ff) :: u8) = unat (k AND 0x00ff)"
    by (simp add: unsigned_ucast_eq take_bit_nat_eq_self)
  ultimately show ?thesis by (simp add: keymap_def)
qed

lemma key_char_total: "valid_make k \<Longrightarrow> \<exists>c. key_char k a b d = Inr c"
  using valid_index [of k] by (simp add: key_char_def Let_def case_prod_beta)

lemma release_ready [simp]: "kbd_ready (release_key s k) xs = kbd_ready s xs"
  by (simp add: release_key_def)

lemma press_key_total:
  assumes "kbd_ready s xs" and "valid_make k"
  shows "\<exists>u s' c. press_key s k = Inr (u, s') \<and> (kbd_ready s' xs \<or> kbd_ready s' (stored xs c))"
proof -
  obtain c where c: "key_char k (ctrl_status s) (shift_status s) (caps_lock_status s) = Inr c"
    using key_char_total [OF assms(2)] by blast
  show ?thesis
  proof (cases "c = 0")
    case True
    have "kbd_ready (snd (press_control s k)) xs" using assms(1) by (simp add: press_control_def)
    moreover have "press_key s k = Inr (press_control s k)" using c True by (simp add: press_key_def)
    ultimately show ?thesis by (cases "press_control s k") auto
  next
    case False
    with press_char [OF assms(1) c] show ?thesis by blast
  qed
qed

text \<open>
  The driver is total and never blocks.  With interrupts off and no reader asleep, every byte
  the controller can send is handled without an assertion, an access outside the key table or a
  sleep, and the buffer afterwards holds what it held, or that and one more character when there
  was room: input that does not fit is dropped, nothing stored is lost.
\<close>

theorem keyboard_never_blocks:
  assumes "kbd_ready s xs"
  shows "\<exists>u s' ys. intr_keyboard_handler s b = Inr (u, s') \<and> kbd_ready s' ys \<and>
           (ys = xs \<or> (\<exists>c. ys = xs @ [c] \<and> length xs < 63))"
proof -
  let ?e = "ucast b = (0xe0 :: u16)"
  obtain k s1 where ks: "(if ext_scancode s then (0xe000 OR ucast b, s\<lparr>ext_scancode := False\<rparr>) else (ucast b, s)) = (k :: u16, s1)"
    by (metis prod.exhaust)
  then have r1: "kbd_ready s1 xs" using assms by (auto split: if_splits)
  have "\<exists>u s'. intr_keyboard_handler s b = Inr (u, s') \<and> (kbd_ready s' xs \<or> (\<exists>c. kbd_ready s' (stored xs c)))"
  proof (cases ?e)
    case True
    then show ?thesis using assms by (intro exI [of _ False]) (simp add: intr_keyboard_handler_def)
  next
    case False
    then have h: "intr_keyboard_handler s b =
        (if k AND 0x0080 \<noteq> 0 then Inr (False, release_key s1 (k AND 0xff7f))
         else if valid_make k then press_key s1 k else Inr (False, s1))"
      unfolding intr_keyboard_handler_def Let_def by (simp only: if_False ks prod.case)
    show ?thesis
    proof (cases "k AND 0x0080 \<noteq> 0 \<or> \<not> valid_make k")
      case True
      then show ?thesis unfolding h using r1 by auto
    next
      case False
      then have "valid_make k" "k AND 0x0080 = 0" by simp_all
      with press_key_total [OF r1 this(1)] show ?thesis unfolding h by auto
    qed
  qed
  then show ?thesis by (auto simp: stored_def split: if_splits)
qed

definition demo_kbd :: kbd where
  "demo_kbd = cli (sched.extend demo_sched
     \<lparr>sem_value = \<lambda>_. 1, lock_holder = \<lambda>_. 0, holder_repeat_nr = \<lambda>_. 0, kb_buf = demo_ioq, kb_lock = 0xc0016000,
       ctrl_status = False, shift_status = False, alt_status = False, caps_lock_status = False, ext_scancode = False\<rparr>)"

lemma demo_kbd_fields:
  "kb_buf demo_kbd = demo_ioq" "ctrl_status demo_kbd = False" "shift_status demo_kbd = False"
  "alt_status demo_kbd = False" "caps_lock_status demo_kbd = False" "ext_scancode demo_kbd = False"
  by (simp_all add: demo_kbd_def cli_def sched.defs)

lemma demo_kbd_ready: "kbd_ready demo_kbd [0x61]"
  using demo_ioq_rep
  by (simp add: kbd_ready_def demo_kbd_fields demo_ioq_def) (simp add: demo_kbd_def intr)

theorem keyboard_never_blocks_witness:
  "\<exists>u s' ys. intr_keyboard_handler demo_kbd 0x1e = Inr (u, s') \<and> kbd_ready s' ys \<and>
     (ys = [0x61] \<or> (\<exists>c. ys = [0x61] @ [c] \<and> length [0x61 :: u8] < 63))"
  by (rule keyboard_never_blocks [OF demo_kbd_ready])

section \<open>Typing\<close>

text \<open>
  A key is a make code with a character; it is typed alone or with a shift key held, and the
  release of a key is its make code with the high bit set.
\<close>

definition text_key :: "u8 \<Rightarrow> bool" where
  "text_key k \<longleftrightarrow> 0 < unat k \<and> unat k < 59 \<and> fst (keymap ! unat k) \<noteq> 0"

definition press :: "u8 \<times> bool \<Rightarrow> u8 list" where
  "press ks = (if snd ks then [0x2a, fst ks, fst ks + 0x80, 0xaa] else [fst ks, fst ks + 0x80])"

definition typed :: "bool \<Rightarrow> u8 \<times> bool \<Rightarrow> u8" where
  "typed caps ks =
     (if (if double_key (ucast (fst ks)) then snd ks else snd ks \<noteq> caps) then snd (keymap ! unat (fst ks))
      else fst (keymap ! unat (fst ks)))"

definition plain_key :: "u8 \<Rightarrow> bool" where
  "plain_key k \<longleftrightarrow>
     ucast k \<noteq> (0xe0 :: u16) \<and> ucast k AND 0x0080 = (0 :: u16) \<and> valid_make (ucast k) \<and>
     ucast (k + 0x80) \<noteq> (0xe0 :: u16) \<and> ucast (k + 0x80) AND 0x0080 \<noteq> (0 :: u16) \<and>
     ucast (k + 0x80) AND 0xff7f \<notin> {shift_l_make, shift_r_make, alt_l_make, 0xe038, ctrl_l_make, ctrl_r_make} \<and>
     (\<forall>sh \<in> {True, False}. \<forall>caps \<in> {True, False}.
        typed caps (k, sh) \<noteq> 0 \<and> key_char (ucast k) False sh caps = Inr (typed caps (k, sh)))"

lemma text_keys_plain: "list_all (\<lambda>n. fst (keymap ! n) \<noteq> 0 \<longrightarrow> plain_key (of_nat n)) [1..<59]"
  by code_simp

lemma text_key_plain:
  assumes "text_key k"
  shows "plain_key k"
proof -
  have "unat k \<in> set [1..<59]" using assms by (simp add: text_key_def)
  then have "plain_key (of_nat (unat k))"
    using text_keys_plain assms unfolding list_all_iff text_key_def by blast
  then show ?thesis by simp
qed

definition kbd_idle :: "'a kbd_scheme \<Rightarrow> bool \<Rightarrow> bool \<Rightarrow> u8 list \<Rightarrow> bool" where
  "kbd_idle s caps sh xs \<longleftrightarrow> kbd_ready s xs \<and> \<not> ctrl_status s \<and> \<not> ext_scancode s \<and>
     (shift_status s \<longleftrightarrow> sh) \<and> (caps_lock_status s \<longleftrightarrow> caps)"

lemma kbd_idle_buf: "kbd_idle s caps sh xs \<Longrightarrow> kbd_ready (s\<lparr>kb_buf := q\<rparr>) ys \<Longrightarrow> kbd_idle (s\<lparr>kb_buf := q\<rparr>) caps sh ys"
  by (simp add: kbd_idle_def)

lemma key_down:
  assumes "kbd_idle s caps sh xs" and "text_key k" and "length xs < 63"
  shows "\<exists>s'. intr_keyboard_handler s k = Inr (False, s') \<and> kbd_idle s' caps sh (xs @ [typed caps (k, sh)])"
proof -
  have p: "plain_key k" using assms(2) by (rule text_key_plain)
  have f: "kbd_ready s xs" "\<not> ctrl_status s" "\<not> ext_scancode s" "shift_status s \<longleftrightarrow> sh" "caps_lock_status s \<longleftrightarrow> caps"
    using assms(1) by (simp_all add: kbd_idle_def)
  have "intr_keyboard_handler s k = press_key s (ucast k)"
    using p f(3) by (simp add: intr_keyboard_handler_def plain_key_def)
  moreover have c: "key_char (ucast k) (ctrl_status s) (shift_status s) (caps_lock_status s) = Inr (typed caps (k, sh))"
    "typed caps (k, sh) \<noteq> 0"
    using p f(2,4,5) by (auto simp: plain_key_def)
  ultimately show ?thesis
    using press_char [OF f(1) c] kbd_idle_buf [OF assms(1)] assms(3) by (auto simp: stored_def)
qed

lemma key_up:
  assumes "kbd_idle s caps sh xs" and "text_key k"
  shows "intr_keyboard_handler s (k + 0x80) = Inr (False, s)"
proof -
  have p: "plain_key k" using assms(2) by (rule text_key_plain)
  have "release_key s (ucast (k + 0x80) AND 0xff7f) = s"
    using p by (simp add: plain_key_def release_key_def)
  then show ?thesis
    using p assms(1) by (simp add: intr_keyboard_handler_def plain_key_def kbd_idle_def)
qed

lemma shift_down:
  "kbd_idle s caps False xs \<Longrightarrow> \<exists>s'. intr_keyboard_handler s 0x2a = Inr (False, s') \<and> kbd_idle s' caps True xs"
  by (simp add: intr_keyboard_handler_def kbd_idle_def valid_make_def press_key_def key_char_def keymap_def
      use_shift_def double_key_def press_control_def ctrl_l_make_def ctrl_r_make_def shift_l_make_def)

lemma shift_up:
  "kbd_idle s caps True xs \<Longrightarrow> \<exists>s'. intr_keyboard_handler s 0xaa = Inr (False, s') \<and> kbd_idle s' caps False xs"
  by (simp add: intr_keyboard_handler_def kbd_idle_def release_key_def ctrl_l_make_def ctrl_r_make_def shift_l_make_def)

lemma press_idle:
  assumes "kbd_idle s caps False xs" and "text_key (fst k)" and "length xs < 63"
  shows "\<exists>s'. keyboard_input s (press k @ bs) = keyboard_input s' bs \<and> kbd_idle s' caps False (xs @ [typed caps k])"
proof (cases "snd k")
  case True
  from shift_down [OF assms(1)] obtain s1 where
    s1: "intr_keyboard_handler s 0x2a = Inr (False, s1)" "kbd_idle s1 caps True xs" by blast
  from key_down [OF s1(2) assms(2,3)] obtain s2 where
    s2: "intr_keyboard_handler s1 (fst k) = Inr (False, s2)" "kbd_idle s2 caps True (xs @ [typed caps (fst k, True)])"
    by blast
  from shift_up [OF s2(2)] obtain s3 where
    s3: "intr_keyboard_handler s2 0xaa = Inr (False, s3)" "kbd_idle s3 caps False (xs @ [typed caps (fst k, True)])"
    by blast
  have "(fst k, True) = k" using True by (metis prod.collapse)
  then show ?thesis
    using True s1(1) s2(1) s3 key_up [OF s2(2) assms(2)] by (auto simp: press_def)
next
  case False
  from key_down [OF assms(1-3)] obtain s1 where
    s1: "intr_keyboard_handler s (fst k) = Inr (False, s1)" "kbd_idle s1 caps False (xs @ [typed caps (fst k, False)])"
    by blast
  have "(fst k, False) = k" using False by (metis prod.collapse)
  then show ?thesis
    using False s1 key_up [OF s1(2) assms(2)] by (auto simp: press_def)
qed

text \<open>
  C33: typing.  From the idle state, with caps lock on or off, pressing and releasing any
  sequence of text keys, each with or without shift, puts exactly the characters of the key table
  into the buffer, in order, as long as they fit: the shifted one under shift for the
  two-character keys, and under shift or caps lock but not both for the others.  The driver is
  idle again afterwards.
\<close>

theorem typing_fills_buffer:
  assumes "kbd_idle s caps False xs" and "\<forall>k \<in> set ks. text_key (fst k)" and "length xs + length ks \<le> 63"
  shows "\<exists>s'. keyboard_input s (concat (map press ks)) = Inr s' \<and>
           kbd_idle s' caps False (xs @ map (typed caps) ks)"
  using assms
proof (induction ks arbitrary: s xs)
  case (Cons k ks)
  then obtain s1 where s1: "keyboard_input s (press k @ concat (map press ks)) = keyboard_input s1 (concat (map press ks))"
    "kbd_idle s1 caps False (xs @ [typed caps k])"
    using press_idle [of s caps xs k "concat (map press ks)"] by auto
  with Cons.IH [OF s1(2)] Cons.prems show ?case by auto
qed simp

theorem typing_fills_buffer_witness:
  "\<exists>s'. keyboard_input demo_kbd [0x2a, 0x23, 0xa3, 0xaa, 0x17, 0x97] = Inr s' \<and> kbd_ready s' [0x61, 0x48, 0x69]"
proof -
  have "kbd_idle demo_kbd False False [0x61]"
    using demo_kbd_ready by (simp add: kbd_idle_def demo_kbd_fields)
  moreover have "text_key 0x23" "text_key 0x17" "\<not> double_key 0x23" "\<not> double_key 0x17"
    by code_simp+
  ultimately show ?thesis
    using typing_fills_buffer [of demo_kbd False "[0x61]" "[(0x23, True), (0x17, False)]"]
    by (auto simp: press_def typed_def keymap_def kbd_idle_def)
qed

end
