(* ===== verification/Bytes.thy ===== *)
theory Bytes
  imports Prelude
begin

text \<open>
  Memory images: how the words and structures the kernel writes to disk lie in byte buffers.

  \<open>le32\<close> is the little-endian layout of the i386, \<open>rd32\<close> a load of a word from a buffer,
  \<open>words\<close> a buffer read as an array of words and \<open>blit\<close> a copy into the middle of a buffer
  (\<open>memcpy(buf + off, src, n)\<close>); a load or copy that leaves the buffer is \<open>OutOfBounds\<close>.
  The lemmas are the round trips between words and bytes and the laws of \<open>blit\<close> and \<open>slice\<close>.
\<close>

section \<open>Words in memory\<close>

definition le32 :: "u32 \<Rightarrow> u8 list" where
  "le32 w = [ucast w, ucast (drop_bit 8 w), ucast (drop_bit 16 w), ucast (drop_bit 24 w)]"

definition word_of :: "u8 \<Rightarrow> u8 \<Rightarrow> u8 \<Rightarrow> u8 \<Rightarrow> u32" where
  "word_of a b c d = ucast a OR push_bit 8 (ucast b) OR push_bit 16 (ucast c) OR push_bit 24 (ucast d)"

fun words :: "u8 list \<Rightarrow> u32 list" where
  "words (a # b # c # d # bs) = word_of a b c d # words bs"
| "words bs = []"

definition bytes_of :: "u32 list \<Rightarrow> u8 list" where
  "bytes_of ws = concat (map le32 ws)"

lemma length_le32 [simp]: "length (le32 w) = 4"
  by (simp add: le32_def)

lemma word_of_le32 [simp]: "word_of (ucast w) (ucast (drop_bit 8 w)) (ucast (drop_bit 16 w)) (ucast (drop_bit 24 w)) = w"
proof (rule bit_word_eqI)
  fix n assume "n < LENGTH(32)"
  then have n: "n < 32" by simp
  have "n < 8 \<or> 8 \<le> n \<and> n < 16 \<or> 16 \<le> n \<and> n < 24 \<or> 24 \<le> n" by linarith
  then show "bit (word_of (ucast w) (ucast (drop_bit 8 w)) (ucast (drop_bit 16 w)) (ucast (drop_bit 24 w))) n = bit w n"
    using n by (elim disjE; auto simp: word_of_def bit_simps)
qed

lemma words_le32 [simp]: "words (le32 w @ bs) = w # words bs"
  by (simp add: le32_def)

lemma words_bytes_of [simp]: "words (bytes_of ws @ bs) = ws @ words bs"
  by (induction ws) (simp_all add: bytes_of_def)

lemma words_bytes [simp]: "words (bytes_of ws) = ws"
  using words_bytes_of [of ws "[]"] by simp

lemma length_bytes_of [simp]: "length (bytes_of ws) = 4 * length ws"
  by (induction ws) (simp_all add: bytes_of_def)

lemma length_words [simp]: "length (words bs) = length bs div 4"
  by (induction bs rule: words.induct) simp_all

lemma bytes_of_word_of: "le32 (word_of a b c d) = [a, b, c, d]"
proof -
  have "ucast (word_of a b c d) = a" "ucast (drop_bit 8 (word_of a b c d)) = b"
    "ucast (drop_bit 16 (word_of a b c d)) = c" "ucast (drop_bit 24 (word_of a b c d)) = d"
    by (rule bit_word_eqI; auto simp: word_of_def bit_simps dest: bit_imp_le_length)+
  then show ?thesis by (simp add: le32_def)
qed

lemma bytes_of_words: "length bs mod 4 = 0 \<Longrightarrow> bytes_of (words bs) = bs"
  by (induction bs rule: words.induct) (auto simp: bytes_of_def bytes_of_word_of)

lemma words_zero [simp]: "words (replicate (4 * n) 0) = replicate n 0"
proof (induction n)
  case (Suc n)
  have "replicate (4 * Suc n) (0 :: u8) = 0 # 0 # 0 # 0 # replicate (4 * n) 0"
    by (simp add: numeral_eq_Suc)
  then show ?case using Suc by (simp add: word_of_def)
qed simp

section \<open>Pieces of a buffer\<close>

definition slice :: "'a list \<Rightarrow> nat \<Rightarrow> nat \<Rightarrow> 'a list" where
  "slice xs off n = take n (drop off xs)"

definition blit :: "'a list \<Rightarrow> nat \<Rightarrow> 'a list \<Rightarrow> 'a list res" where
  "blit xs off ys =
     (if off + length ys \<le> length xs then Inr (take off xs @ ys @ drop (off + length ys) xs) else Inl OutOfBounds)"

definition overlay :: "'a list \<Rightarrow> nat \<Rightarrow> 'a list \<Rightarrow> 'a list" where
  "overlay xs off ys = take off xs @ ys @ drop (off + length ys) xs"

definition rd32 :: "u8 list \<Rightarrow> nat \<Rightarrow> u32 res" where
  "rd32 bs off =
     (if off + 4 \<le> length bs then Inr (word_of (bs ! off) (bs ! (off + 1)) (bs ! (off + 2)) (bs ! (off + 3)))
      else Inl OutOfBounds)"

lemma length_slice [simp]: "off + n \<le> length xs \<Longrightarrow> length (slice xs off n) = n"
  by (simp add: slice_def)

lemma blit_in [simp]: "off + length ys \<le> length xs \<Longrightarrow> blit xs off ys = Inr (overlay xs off ys)"
  by (simp add: blit_def overlay_def)

lemma blit_append:
  "off = length xs \<Longrightarrow> length ys \<le> length zs \<Longrightarrow> blit (xs @ zs) off ys = Inr (xs @ ys @ drop (length ys) zs)"
  by (simp add: blit_def)

lemma blit_out: "\<not> off + length ys \<le> length xs \<Longrightarrow> blit xs off ys = Inl OutOfBounds"
  by (simp add: blit_def)

lemma length_overlay [simp]: "off + length ys \<le> length xs \<Longrightarrow> length (overlay xs off ys) = length xs"
  by (simp add: overlay_def)

lemma slice_overlay_same [simp]:
  "off + length ys \<le> length xs \<Longrightarrow> n = length ys \<Longrightarrow> slice (overlay xs off ys) off n = ys"
  by (simp add: overlay_def slice_def)

lemma nth_overlay:
  "off + length ys \<le> length xs \<Longrightarrow> i < length xs \<Longrightarrow>
   overlay xs off ys ! i = (if off \<le> i \<and> i < off + length ys then ys ! (i - off) else xs ! i)"
  by (auto simp: overlay_def nth_append min_def)

lemma nth_slice: "off + n \<le> length xs \<Longrightarrow> i < n \<Longrightarrow> slice xs off n ! i = xs ! (off + i)"
  by (simp add: slice_def)

lemma slice_overlay_other:
  assumes "off + length ys \<le> length xs" and "o' + n \<le> length xs" and "o' + n \<le> off \<or> off + length ys \<le> o'"
  shows "slice (overlay xs off ys) o' n = slice xs o' n"
  using assms by (intro nth_equalityI) (auto simp: nth_slice nth_overlay)

lemma overlay_slice [simp]: "off + n \<le> length xs \<Longrightarrow> overlay xs off (slice xs off n) = xs"
  by (simp add: overlay_def slice_def) (metis append_take_drop_id drop_drop add.commute)

lemma slice_slice: "o2 + n2 \<le> n1 \<Longrightarrow> slice (slice xs o1 n1) o2 n2 = slice xs (o1 + o2) n2"
  by (simp add: slice_def take_drop add.commute)

lemma slice_all [simp]: "n = length xs \<Longrightarrow> slice xs 0 n = xs"
  by (simp add: slice_def)

lemma rd32_le32: "off + 4 \<le> length bs \<Longrightarrow> slice bs off 4 = le32 w \<Longrightarrow> rd32 bs off = Inr w"
proof -
  assume l: "off + 4 \<le> length bs" and s: "slice bs off 4 = le32 w"
  have "bs ! (off + i) = le32 w ! i" if "i < 4" for i
    using nth_slice [OF l that] s by simp
  from this [of 0] this [of 1] this [of 2] this [of 3] l show ?thesis
    by (simp add: rd32_def le32_def)
qed

lemma take_overlay:
  "off + length ys \<le> n \<Longrightarrow> n \<le> length xs \<Longrightarrow> take n (overlay xs off ys) = overlay (take n xs) off ys"
  by (intro nth_equalityI) (simp_all add: nth_overlay)

lemma overlay_overlay_front:
  "length ys \<le> length xs \<Longrightarrow> off + length zs \<le> length ys \<Longrightarrow>
   take (length ys) (overlay (overlay xs 0 ys) off zs) = overlay ys off zs"
  by (subst take_overlay) (simp_all add: overlay_def)

lemma rd32_cong: "off + 4 \<le> length bs \<Longrightarrow> off + 4 \<le> length bs' \<Longrightarrow> slice bs off 4 = slice bs' off 4 \<Longrightarrow> rd32 bs off = rd32 bs' off"
proof -
  assume l: "off + 4 \<le> length bs" "off + 4 \<le> length bs'" and s: "slice bs off 4 = slice bs' off 4"
  have "bs ! (off + i) = bs' ! (off + i)" if "i < 4" for i
    using nth_slice [OF l(1) that] nth_slice [OF l(2) that] s by simp
  from this [of 0] this [of 1] this [of 2] this [of 3] l show ?thesis by (simp add: rd32_def)
qed

lemma rd32_zero: "off + 4 \<le> length bs \<Longrightarrow> slice bs off 4 = replicate 4 0 \<Longrightarrow> rd32 bs off = Inr 0"
  by (rule rd32_le32) (simp_all add: le32_def numeral_eq_Suc)

lemma rd32_in: "off + 4 \<le> length bs \<Longrightarrow> \<exists>w. rd32 bs off = Inr w"
  by (simp add: rd32_def)

end
