(* ===== verification/Disk.thy ===== *)
theory Disk
  imports Bytes
begin

text \<open>
  The disk as the file system sees it: what \<open>ide_read\<close> and \<open>ide_write\<close> of \<open>device/ide.c\<close>
  do to the sectors.

  \<open>sectors\<close> gives the 512 bytes of every sector.  \<open>disk_read\<close> and \<open>disk_write\<close> are the
  specification of the driver: both refuse an empty transfer and one with a chunk of 256 sectors
  that begins behind \<open>max_lba\<close>.  Theory \<open>Ata\<close> proves that the driver implements them for one sector, on
  a drive that keeps to the protocol and is not busy when the driver first looks at it; for
  more sectors the driver relies on more than the protocol promises, and what the file system's
  theories show rests on the specification itself.  \<open>byte_at\<close> numbers the bytes of the disk from a sector on; the lemmas say which of
  them a transfer returns and which it changes.
\<close>

record disk =
  sectors :: "u32 \<Rightarrow> u8 list"

definition max_lba :: u32 where
  "max_lba = 80 * 1024 * 1024 div 512 - 1"

definition span_ok :: "u32 \<Rightarrow> u32 \<Rightarrow> bool" where
  "span_ok lba n \<longleftrightarrow> 0 < n \<and> unat lba + 256 * ((unat n - 1) div 256) \<le> unat max_lba"

definition disk_read :: "'a disk_scheme \<Rightarrow> u32 \<Rightarrow> u32 \<Rightarrow> u8 list res" where
  "disk_read s lba n =
     (if span_ok lba n then Inr (concat (map (\<lambda>i. sectors s (lba + of_nat i)) [0..<unat n])) else Inl Panic)"

definition disk_write :: "'a disk_scheme \<Rightarrow> u32 \<Rightarrow> u8 list \<Rightarrow> u32 \<Rightarrow> 'a disk_scheme res" where
  "disk_write s lba buf n =
     (if \<not> span_ok lba n then Inl Panic
      else if length buf < 512 * unat n then Inl OutOfBounds
      else Inr (s\<lparr>sectors := (\<lambda>l. if l - lba < n then slice buf (512 * unat (l - lba)) 512 else sectors s l)\<rparr>))"

section \<open>Bytes of the disk\<close>

definition disk_ok :: "'a disk_scheme \<Rightarrow> bool" where
  "disk_ok s \<longleftrightarrow> (\<forall>l. length (sectors s l) = 512)"

definition byte_at :: "'a disk_scheme \<Rightarrow> u32 \<Rightarrow> nat \<Rightarrow> u8" where
  "byte_at s base k = sectors s (base + of_nat (k div 512)) ! (k mod 512)"

definition region :: "'a disk_scheme \<Rightarrow> u32 \<Rightarrow> nat \<Rightarrow> nat \<Rightarrow> u8 list" where
  "region s base off n = map (\<lambda>k. byte_at s base (off + k)) [0..<n]"

lemma disk_ok_length [simp]: "disk_ok s \<Longrightarrow> length (sectors s l) = 512"
  by (simp add: disk_ok_def)

lemma length_concat_same:
  "(\<And>x. x \<in> set xs \<Longrightarrow> length x = m) \<Longrightarrow> length (concat xs) = m * length xs"
  by (induction xs) auto

lemma nth_concat_same:
  "(\<And>x. x \<in> set xs \<Longrightarrow> length x = m) \<Longrightarrow> k < m * length xs \<Longrightarrow> concat xs ! k = xs ! (k div m) ! (k mod m)"
proof (induction xs arbitrary: k)
  case (Cons x xs)
  have len: "length x = m" using Cons.prems by simp
  have m: "0 < m" using Cons.prems(2) by (cases m) auto
  show ?case
  proof (cases "k < m")
    case True
    then show ?thesis using len by (simp add: nth_append)
  next
    case False
    then have "(k - m) div m = k div m - 1" "(k - m) mod m = k mod m" "0 < k div m"
      using m by (auto simp: le_div_geq le_mod_geq not_less div_greater_zero_iff)
    moreover have "k - m < m * length xs" using Cons.prems(2) False m by (simp add: algebra_simps)
    ultimately show ?thesis
      using Cons.IH [of "k - m"] Cons.prems(1) len False by (simp add: nth_append nth_Cons')
  qed
qed simp

lemma disk_read_ok:
  assumes "disk_ok s" and "span_ok lba n"
  shows "disk_read s lba n = Inr (region s lba 0 (512 * unat n))"
proof -
  let ?c = "concat (map (\<lambda>i. sectors s (lba + of_nat i)) [0..<unat n])"
  have "length ?c = 512 * unat n"
    by (subst length_concat_same [of _ 512]) (use assms(1) in auto)
  moreover have "?c ! k = byte_at s lba k" if "k < 512 * unat n" for k
  proof -
    have "k div 512 < unat n" using that by (simp add: less_mult_imp_div_less mult.commute)
    then show ?thesis
      by (subst nth_concat_same [of _ 512]) (use assms(1) that in \<open>auto simp: byte_at_def\<close>)
  qed
  ultimately have "?c = region s lba 0 (512 * unat n)"
    by (intro nth_equalityI) (simp_all add: region_def)
  then show ?thesis using assms(2) by (simp add: disk_read_def)
qed

lemma disk_read_one: "span_ok lba 1 \<Longrightarrow> disk_read s lba 1 = Inr (sectors s lba)"
  by (simp add: disk_read_def)

lemma span_ok_one [simp]: "span_ok lba 1 \<longleftrightarrow> lba \<le> max_lba"
  by (simp add: span_ok_def unat_le_iff)

lemma disk_write_ok:
  assumes "span_ok lba n" and "512 * unat n \<le> length buf"
  shows "disk_write s lba buf n =
    Inr (s\<lparr>sectors := (\<lambda>l. if l - lba < n then slice buf (512 * unat (l - lba)) 512 else sectors s l)\<rparr>)"
  using assms by (simp add: disk_write_def)

lemma disk_write_first:
  assumes "lba \<le> max_lba" and "512 \<le> length buf"
  shows "disk_write s lba buf 1 = Inr (s\<lparr>sectors := (sectors s)(lba := take 512 buf)\<rparr>)"
proof -
  have "l - lba < 1 \<longleftrightarrow> l = lba" for l :: u32 by (simp add: word_less_1)
  then have "(\<lambda>l. if l - lba < 1 then slice buf (512 * unat (l - lba)) 512 else sectors s l) = (sectors s)(lba := take 512 buf)"
    by (auto simp: fun_eq_iff slice_def)
  then show ?thesis using assms by (simp add: disk_write_ok)
qed

lemma disk_write_keeps_ok:
  assumes "disk_ok s" and "disk_write s lba buf n = Inr s'"
  shows "disk_ok s'"
proof -
  have "512 * unat (l - lba) + 512 \<le> length buf" if "l - lba < n" "512 * unat n \<le> length buf" for l
  proof -
    have "Suc (unat (l - lba)) \<le> unat n" using that(1) by (simp add: unat_less_iff)
    then have "512 * Suc (unat (l - lba)) \<le> 512 * unat n" by (rule mult_le_mono2)
    with that(2) show ?thesis by simp
  qed
  then show ?thesis
    using assms by (auto simp: disk_ok_def disk_write_def split: if_splits)
qed

lemma wrap_beyond: "d + n < (2 :: nat) ^ 32 \<Longrightarrow> \<not> q + 2 ^ 32 - d < n"
  by simp

lemma chunk_le: "d \<le> q \<Longrightarrow> q < d + n \<Longrightarrow> 512 * (q - d) + 512 \<le> 512 * (n :: nat)"
  by arith

text \<open>A write seen through the bytes behind another sector.\<close>

lemma byte_at_write:
  assumes "disk_write s lba buf n = Inr s'" and "lba = base + of_nat d" and "d + unat n < 2 ^ 32" and "k div 512 < 2 ^ 32"
  shows "byte_at s' base k =
    (if 512 * d \<le> k \<and> k < 512 * (d + unat n) then buf ! (k - 512 * d) else byte_at s base k)"
proof -
  let ?q = "k div 512"
  have len: "512 * unat n \<le> length buf" and s': "s' = s\<lparr>sectors := (\<lambda>l. if l - lba < n
      then slice buf (512 * unat (l - lba)) 512 else sectors s l)\<rparr>"
    using assms(1) by (auto simp: disk_write_def split: if_splits)
  have q: "base + of_nat ?q - lba = of_nat ?q - of_nat d" using assms(2) by simp
  have inside: "base + of_nat ?q - lba < n \<longleftrightarrow> d \<le> ?q \<and> ?q < d + unat n"
  proof (cases "d \<le> ?q")
    case True
    then have "(of_nat ?q - of_nat d :: u32) = of_nat (?q - d)" by (simp add: of_nat_diff)
    moreover have "unat (of_nat (?q - d) :: u32) = ?q - d" using assms(4) by (intro unat_of_nat_small) simp
    ultimately show ?thesis unfolding q unat_less_iff using True by (simp only:) auto
  next
    case False
    have "unat (of_nat ?q :: u32) = ?q" "unat (of_nat d :: u32) = d"
      using assms(3,4) by (simp_all add: unat_of_nat_small)
    then have "unat (of_nat ?q - of_nat d :: u32) = ?q + 2 ^ 32 - d"
      using False by (simp add: unat_sub_if_size word_size)
    then have "\<not> unat (of_nat ?q - of_nat d :: u32) < unat n"
      using wrap_beyond [OF assms(3), of ?q] by (simp only: not_False_eq_True)
    then show ?thesis unfolding q unat_less_iff using False by simp
  qed
  show ?thesis
  proof (cases "d \<le> ?q \<and> ?q < d + unat n")
    case True
    have u: "unat (base + of_nat ?q - lba) = ?q - d"
    proof -
      have "(of_nat ?q - of_nat d :: u32) = of_nat (?q - d)" using True by (simp add: of_nat_diff)
      moreover have "unat (of_nat (?q - d) :: u32) = ?q - d" using assms(4) by (intro unat_of_nat_small) simp
      ultimately show ?thesis unfolding q by (simp only:)
    qed
    have "512 * (?q - d) + 512 \<le> 512 * unat n" using True by (intro chunk_le) simp_all
    then have "byte_at s' base k = buf ! (512 * (?q - d) + k mod 512)"
      using inside True len by (simp add: s' byte_at_def u nth_slice)
    moreover have "512 * (?q - d) + k mod 512 = k - 512 * d"
    proof -
      have "512 * ?q + k mod 512 = k" by simp
      then show ?thesis using True by (simp add: diff_mult_distrib2)
    qed
    moreover have "512 * d \<le> k \<and> k < 512 * (d + unat n)" using True by (auto simp: less_eq_div_iff_mult_less_eq div_less_iff_less_mult mult.commute)
    ultimately show ?thesis by simp
  next
    case False
    then have "\<not> (512 * d \<le> k \<and> k < 512 * (d + unat n))"
      by (auto simp: less_eq_div_iff_mult_less_eq div_less_iff_less_mult mult.commute)
    moreover have "byte_at s' base k = byte_at s base k" using inside False by (simp add: s' byte_at_def)
    ultimately show ?thesis by (simp only: if_False)
  qed
qed

lemma region_nth [simp]: "k < n \<Longrightarrow> region s base off n ! k = byte_at s base (off + k)"
  by (simp add: region_def)

lemma length_region [simp]: "length (region s base off n) = n"
  by (simp add: region_def)

lemma slice_region: "o2 + m \<le> n \<Longrightarrow> slice (region s base off n) o2 m = region s base (off + o2) m"
  by (rule nth_equalityI) (simp_all add: nth_slice add.assoc)

lemma byte_at_shift: "byte_at s (base + of_nat d) k = byte_at s base (512 * d + k)"
  by (simp add: byte_at_def add.assoc)

lemma region_shift: "region s (base + of_nat d) off n = region s base (512 * d + off) n"
  by (rule nth_equalityI) (simp_all add: byte_at_shift add.assoc)

end
