(* ===== verification/Inode.thy ===== *)
theory Inode
  imports Disk Thread
begin

text \<open>
  The state of the file system and its inodes: \<open>fs/inode.c\<close>, the allocation bitmaps of
  \<open>fs/file.c\<close> and the structures of \<open>fs/inode.h\<close>, \<open>fs/super_block.h\<close>, \<open>fs/dir.h\<close>, \<open>fs/file.h\<close>
  and \<open>device/ide.h\<close>.

  \<open>part\<close> is the mounted partition \<open>cur_part\<close>; its list of open inodes holds their addresses (the
  intrusive list of theory \<open>Klist\<close>, whose operations refine those on lists).  In-core inodes
  and directories live on the kernel heap: \<open>inodes\<close> and \<open>dirs\<close> give their contents by address,
  \<open>allocated\<close> the addresses in use, and using one that was freed is \<open>WildPointer\<close>.
  \<open>mallocs\<close> lists what the coming calls of \<open>sys_malloc\<close> return, \<open>NULL\<close> for a failure (the
  allocator itself is theory \<open>Memory\<close>'s matter); memory comes zeroed.  \<open>me\<close> is the PCB of the
  running thread.  Messages printed with \<open>printk\<close> are left out.

  The disk image of an inode is its 76 bytes in memory.  The lemmas show where the images lie,
  that they never overlap, and what a synchronised inode reads back as.
\<close>

section \<open>State\<close>

record super_block =
  sb_magic :: u32
  sb_sec_cnt :: u32
  inode_cnt :: u32
  part_lba_base :: u32
  block_bitmap_lba :: u32
  block_bitmap_sects :: u32
  inode_bitmap_lba :: u32
  inode_bitmap_sects :: u32
  inode_table_lba :: u32
  inode_table_sects :: u32
  data_start_lba :: u32
  root_inode_no :: u32
  dir_entry_size :: u32

record partition =
  start_lba :: u32
  sec_cnt :: u32
  part_name :: "u8 list"
  sb :: super_block
  block_bitmap :: bitmap
  inode_bitmap :: bitmap
  open_inodes :: "u32 list"

record inode =
  i_no :: u32
  i_size :: u32
  i_open_cnts :: u32
  write_deny :: bool
  i_sectors :: "u32 list"

record inode_position =
  two_sec :: bool
  sec_lba :: u32
  off_size :: u32

record dir =
  dir_inode :: u32
  dir_pos :: u32
  dir_buf :: "u8 list"

record open_file =
  fd_pos :: u32
  fd_flag :: u32
  fd_inode :: u32

record fsys = disk +
  part :: partition
  inodes :: "u32 \<Rightarrow> inode"
  dirs :: "u32 \<Rightarrow> dir"
  file_table :: "open_file list"
  me :: task_struct
  mallocs :: "u32 list"
  allocated :: "u32 set"

definition upd_part :: "'a fsys_scheme \<Rightarrow> (partition \<Rightarrow> partition) \<Rightarrow> 'a fsys_scheme" where
  "upd_part s f = s\<lparr>part := f (part s)\<rparr>"

definition upd_inode :: "'a fsys_scheme \<Rightarrow> u32 \<Rightarrow> (inode \<Rightarrow> inode) \<Rightarrow> 'a fsys_scheme" where
  "upd_inode s p f = s\<lparr>inodes := (inodes s)(p := f (inodes s p))\<rparr>"

text \<open>\<open>sys_malloc\<close> and \<open>sys_free\<close> as the file system sees them.\<close>

definition fs_malloc :: "'a fsys_scheme \<Rightarrow> u32 \<times> 'a fsys_scheme" where
  "fs_malloc s =
     (case mallocs s of
        [] \<Rightarrow> (NULL, s)
      | p # ps \<Rightarrow> (p, s\<lparr>mallocs := ps, allocated := if p = NULL then allocated s else insert p (allocated s)\<rparr>))"

definition fs_free :: "'a fsys_scheme \<Rightarrow> u32 \<Rightarrow> 'a fsys_scheme res" where
  "fs_free s p =
     (if p = NULL then Inl Panic
      else if p \<notin> allocated s then Inl WildPointer
      else Inr (s\<lparr>allocated := allocated s - {p}\<rparr>))"

definition get_inode :: "'a fsys_scheme \<Rightarrow> u32 \<Rightarrow> inode res" where
  "get_inode s p = (if p \<in> allocated s then Inr (inodes s p) else Inl WildPointer)"

section \<open>Inode images\<close>

definition INODE_SIZE :: u32 where
  "INODE_SIZE = 76"

definition enc_inode :: "inode \<Rightarrow> u8 list" where
  "enc_inode i =
     bytes_of ([i_no i, i_size i, i_open_cnts i, if write_deny i then 1 else 0] @ i_sectors i @ [NULL, NULL])"

definition dec_inode :: "u8 list \<Rightarrow> inode" where
  "dec_inode bs =
     (let ws = words bs
      in \<lparr>i_no = ws ! 0, i_size = ws ! 1, i_open_cnts = ws ! 2, write_deny = ws ! 3 \<noteq> 0, i_sectors = slice ws 4 13\<rparr>)"

definition inode_locate :: "super_block \<Rightarrow> u32 \<Rightarrow> inode_position res" where
  "inode_locate b inode_no =
     (if \<not> inode_no < 4096 then Inl Panic
      else
        let off_bytes = inode_no * INODE_SIZE;
            off_sec = off_bytes div 512;
            off_size_in_sec = off_bytes mod 512;
            left_in_sec = 512 - off_size_in_sec
        in Inr \<lparr>two_sec = left_in_sec < INODE_SIZE, sec_lba = inode_table_lba b + off_sec, off_size = off_size_in_sec\<rparr>)"

definition inode_secs :: "inode_position \<Rightarrow> u32" where
  "inode_secs pos = (if two_sec pos then 2 else 1)"

text \<open>\<open>io_buf\<close> is the caller's buffer; what is left in it is not used afterwards.\<close>

definition put_inode_image :: "'a fsys_scheme \<Rightarrow> inode_position \<Rightarrow> u8 list \<Rightarrow> u8 list \<Rightarrow> 'a fsys_scheme res" where
  "put_inode_image s pos img io_buf =
     (if \<not> sec_lba pos \<le> start_lba (part s) + sec_cnt (part s) then Inl Panic
      else rbind (disk_read s (sec_lba pos) (inode_secs pos)) (\<lambda>data.
        rbind (blit io_buf 0 data) (\<lambda>inode_buf.
        rbind (blit inode_buf (unat (off_size pos)) img) (\<lambda>inode_buf.
        disk_write s (sec_lba pos) inode_buf (inode_secs pos)))))"

definition inode_sync :: "'a fsys_scheme \<Rightarrow> inode \<Rightarrow> u8 list \<Rightarrow> 'a fsys_scheme res" where
  "inode_sync s i io_buf =
     (let inode_no = ucast (ucast (i_no i) :: u8) :: u32
      in rbind (inode_locate (sb (part s)) inode_no) (\<lambda>inode_pos.
           put_inode_image s inode_pos (enc_inode (i\<lparr>i_open_cnts := 0, write_deny := False\<rparr>)) io_buf))"

definition inode_delete :: "'a fsys_scheme \<Rightarrow> u32 \<Rightarrow> u8 list \<Rightarrow> 'a fsys_scheme res" where
  "inode_delete s inode_no io_buf =
     (if \<not> inode_no < 4096 then Inl Panic
      else rbind (inode_locate (sb (part s)) inode_no) (\<lambda>inode_pos.
           put_inode_image s inode_pos (replicate 76 0) io_buf))"

definition inode_init :: "u32 \<Rightarrow> inode" where
  "inode_init inode_no =
     \<lparr>i_no = inode_no, i_size = 0, i_open_cnts = 0, write_deny = False, i_sectors = replicate 13 0\<rparr>"

section \<open>Opening and closing\<close>

text \<open>The walk over the list of open inodes.\<close>

fun find_open :: "'a fsys_scheme \<Rightarrow> u32 list \<Rightarrow> u32 \<Rightarrow> u32 option res" where
  "find_open s [] inode_no = Inr None"
| "find_open s (elem # elems) inode_no =
     rbind (get_inode s elem) (\<lambda>i. if i_no i = inode_no then Inr (Some elem) else find_open s elems inode_no)"

definition inode_open :: "'a fsys_scheme \<Rightarrow> u32 \<Rightarrow> (u32 \<times> 'a fsys_scheme) res" where
  "inode_open s inode_no =
     rbind (find_open s (open_inodes (part s)) inode_no) (\<lambda>found.
       case found of
         Some p \<Rightarrow> Inr (p, upd_inode s p (\<lambda>i. i\<lparr>i_open_cnts := i_open_cnts i + 1\<rparr>))
       | None \<Rightarrow>
           rbind (inode_locate (sb (part s)) inode_no) (\<lambda>inode_pos.
             let (inode_found, s) = fs_malloc s;
                 (inode_buf, s) = fs_malloc s
             in if inode_buf = NULL then Inl WildPointer
                else rbind (disk_read s (sec_lba inode_pos) (inode_secs inode_pos)) (\<lambda>data.
                  if inode_found = NULL then Inl Panic
                  else if unat (off_size inode_pos) + 76 > length data then Inl OutOfBounds
                  else
                    let s = upd_inode s inode_found (\<lambda>_. dec_inode (slice data (unat (off_size inode_pos)) 76));
                        s = upd_part s (\<lambda>p. p\<lparr>open_inodes := inode_found # open_inodes p\<rparr>);
                        s = upd_inode s inode_found (\<lambda>i. i\<lparr>i_open_cnts := 1\<rparr>)
                    in rbind (fs_free s inode_buf) (\<lambda>s. Inr (inode_found, s)))))"

text \<open>The last close frees the inode; it stays in the list of open inodes.\<close>

definition inode_close :: "'a fsys_scheme \<Rightarrow> u32 \<Rightarrow> 'a fsys_scheme res" where
  "inode_close s p =
     rbind (get_inode s p) (\<lambda>i.
       let s = upd_inode s p (\<lambda>i. i\<lparr>i_open_cnts := i_open_cnts i - 1\<rparr>)
       in if i_open_cnts (inodes s p) = 0 then fs_free s p else Inr s)"

section \<open>Allocation bitmaps\<close>

datatype bitmap_type = INODE_BITMAP | BLOCK_BITMAP

definition bitmap_sync :: "'a fsys_scheme \<Rightarrow> u32 \<Rightarrow> bitmap_type \<Rightarrow> 'a fsys_scheme res" where
  "bitmap_sync s bit_idx btmp =
     (let off_sec = bit_idx div 4096;
          off_bytes = unat (off_sec * 512);
          (lba, bitmap_off) =
            (case btmp of
               INODE_BITMAP \<Rightarrow> (inode_bitmap_lba (sb (part s)) + off_sec, drop off_bytes (bits (inode_bitmap (part s))))
             | BLOCK_BITMAP \<Rightarrow> (block_bitmap_lba (sb (part s)) + off_sec, drop off_bytes (bits (block_bitmap (part s)))))
      in disk_write s lba bitmap_off 1)"

definition inode_bitmap_set :: "'a fsys_scheme \<Rightarrow> u32 \<Rightarrow> u8 \<Rightarrow> 'a fsys_scheme res" where
  "inode_bitmap_set s bit_idx v =
     rbind (bitmap_set (inode_bitmap (part s)) bit_idx v) (\<lambda>b. Inr (upd_part s (\<lambda>p. p\<lparr>inode_bitmap := b\<rparr>)))"

definition block_bitmap_set :: "'a fsys_scheme \<Rightarrow> u32 \<Rightarrow> u8 \<Rightarrow> 'a fsys_scheme res" where
  "block_bitmap_set s bit_idx v =
     rbind (bitmap_set (block_bitmap (part s)) bit_idx v) (\<lambda>b. Inr (upd_part s (\<lambda>p. p\<lparr>block_bitmap := b\<rparr>)))"

definition inode_bitmap_alloc :: "'a fsys_scheme \<Rightarrow> (i32 \<times> 'a fsys_scheme) res" where
  "inode_bitmap_alloc s =
     rbind (bitmap_scan (inode_bitmap (part s)) 1) (\<lambda>bit_idx.
       if bit_idx = -1 then Inr (-1, s)
       else rbind (inode_bitmap_set s bit_idx 1) (\<lambda>s. Inr (bit_idx, s)))"

definition block_bitmap_alloc :: "'a fsys_scheme \<Rightarrow> (i32 \<times> 'a fsys_scheme) res" where
  "block_bitmap_alloc s =
     rbind (bitmap_scan (block_bitmap (part s)) 1) (\<lambda>bit_idx.
       if bit_idx = -1 then Inr (-1, s)
       else rbind (block_bitmap_set s bit_idx 1) (\<lambda>s. Inr (data_start_lba (sb (part s)) + bit_idx, s)))"

section \<open>Releasing an inode\<close>

text \<open>The 140 block addresses of an inode: its direct blocks, and the indirect ones when it has a table.\<close>

definition all_blocks_of :: "'a fsys_scheme \<Rightarrow> inode \<Rightarrow> u32 list res" where
  "all_blocks_of s i =
     (if i_sectors i ! 12 \<noteq> 0 then
        rbind (disk_read s (i_sectors i ! 12) 1) (\<lambda>data. Inr (take 12 (i_sectors i) @ words data))
      else Inr (take 12 (i_sectors i) @ replicate 128 0))"

definition release_block :: "'a fsys_scheme \<Rightarrow> u32 \<Rightarrow> 'a fsys_scheme res" where
  "release_block s block =
     (let block_bitmap_idx = block - data_start_lba (sb (part s))
      in if \<not> block_bitmap_idx > 0 then Inl Panic
         else rbind (block_bitmap_set s block_bitmap_idx 0) (\<lambda>s. bitmap_sync s block_bitmap_idx BLOCK_BITMAP))"

fun release_blocks :: "'a fsys_scheme \<Rightarrow> u32 list \<Rightarrow> 'a fsys_scheme res" where
  "release_blocks s [] = Inr s"
| "release_blocks s (b # bs) = rbind (if b \<noteq> 0 then release_block s b else Inr s) (\<lambda>s. release_blocks s bs)"

definition inode_release :: "'a fsys_scheme \<Rightarrow> u32 \<Rightarrow> 'a fsys_scheme res" where
  "inode_release s inode_no =
     rbind (inode_open s inode_no) (\<lambda>(p, s).
       let i = inodes s p
       in if i_no i \<noteq> inode_no then Inl Panic
          else rbind (all_blocks_of s i) (\<lambda>all_blocks.
            rbind (if i_sectors i ! 12 \<noteq> 0 then release_block s (i_sectors i ! 12) else Inr s) (\<lambda>s.
            rbind (release_blocks s (if i_sectors i ! 12 \<noteq> 0 then all_blocks else take 12 all_blocks)) (\<lambda>s.
            rbind (inode_bitmap_set s inode_no 0) (\<lambda>s.
            rbind (bitmap_sync s inode_no INODE_BITMAP) (\<lambda>s.
            let (io_buf, s) = fs_malloc s
            in rbind (inode_delete s inode_no (if io_buf = NULL then [] else replicate 1024 0)) (\<lambda>s.
               rbind (fs_free s io_buf) (\<lambda>s. inode_close s p))))))))"

section \<open>Where the images lie\<close>

text \<open>\<open>inode_slot s k\<close> is the image of inode \<open>k\<close> in the table on disk.\<close>

definition table_ok :: "'a fsys_scheme \<Rightarrow> bool" where
  "table_ok s \<longleftrightarrow> disk_ok s \<and> inode_table_lba (sb (part s)) \<le> max_lba - 608 \<and>
     unat (inode_table_lba (sb (part s))) + 608 \<le> unat (start_lba (part s) + sec_cnt (part s))"

definition inode_slot :: "'a fsys_scheme \<Rightarrow> u32 \<Rightarrow> u8 list" where
  "inode_slot s k = region s (inode_table_lba (sb (part s))) (76 * unat k) 76"

lemma inode_locate_spec:
  assumes "k < 4096"
  shows "\<exists>pos q. inode_locate b k = Inr pos \<and> sec_lba pos = inode_table_lba b + of_nat q \<and>
           512 * q + unat (off_size pos) = 76 * unat k \<and> unat (off_size pos) < 512 \<and>
           unat (off_size pos) + 76 \<le> 512 * unat (inode_secs pos) \<and> q + unat (inode_secs pos) \<le> 608 \<and>
           (two_sec pos \<longleftrightarrow> 512 < unat (off_size pos) + 76)"
proof -
  have k: "unat k < 4096" using assms by (simp add: unat_less_iff)
  let ?o = "k * INODE_SIZE"
  define n where "n = 76 * unat k"
  have n: "n + 76 \<le> 512 * 608" using k by (simp add: n_def)
  have o: "unat ?o = n"
    using k by (simp add: INODE_SIZE_def unat_mult_no_wrap mult.commute n_def)
  have m: "unat (?o mod 512) = n mod 512" and d: "unat (?o div 512) = n div 512"
    by (simp_all add: unat_mod_word unat_div_word o)
  have mlt: "n mod 512 < 512" by simp
  have left: "unat (512 - ?o mod 512) = 512 - n mod 512"
    using mlt by (subst unat_sub_no_wrap) (simp_all add: m)
  have two: "512 - ?o mod 512 < INODE_SIZE \<longleftrightarrow> 512 < n mod 512 + 76"
    unfolding unat_less_iff left using mlt by (simp add: INODE_SIZE_def) linarith
  have dm: "512 * (n div 512) + n mod 512 = n" by (rule mult_div_mod_eq)
  have dle: "n div 512 + 1 \<le> 608" and dle2: "512 < n mod 512 + 76 \<Longrightarrow> n div 512 + 2 \<le> 608"
    using n dm by linarith+
  let ?pos = "\<lparr>two_sec = 512 - ?o mod 512 < INODE_SIZE, sec_lba = inode_table_lba b + ?o div 512, off_size = ?o mod 512\<rparr>"
  have "inode_locate b k = Inr ?pos" using assms by (simp add: inode_locate_def Let_def)
  moreover have "?o div 512 = of_nat (n div 512)"
    unfolding d [symmetric] by simp
  ultimately show ?thesis
    unfolding n_def [symmetric] using dm dle dle2 mlt
    by (intro exI [of _ ?pos] exI [of _ "n div 512"]) (auto simp: inode_secs_def two m)
qed

lemma table_span:
  assumes "table_ok s" and "q + m \<le> 608" and "0 < m" and "m \<le> 2"
  shows "span_ok (inode_table_lba (sb (part s)) + of_nat q) (of_nat m)" (is ?span)
    and "inode_table_lba (sb (part s)) + of_nat q \<le> start_lba (part s) + sec_cnt (part s)" (is ?inside)
proof -
  let ?t = "inode_table_lba (sb (part s))"
  have t: "unat ?t \<le> unat (max_lba - 608)" and e: "unat ?t + 608 \<le> unat (start_lba (part s) + sec_cnt (part s))"
    using assms(1) by (simp_all add: table_ok_def unat_le_iff)
  have t': "unat ?t \<le> 163231" using t by (simp add: max_lba_def)
  have "unat (?t + of_nat q) = unat ?t + q"
    using t' assms(2) by (subst unat_add_no_wrap) (simp_all add: unat_of_nat_small)
  moreover have "unat (of_nat m :: u32) = m" using assms(2) by (intro unat_of_nat_small) simp
  ultimately show ?span ?inside
    using t' e assms(2-4) by (simp_all add: span_ok_def unat_le_iff max_lba_def unat_less_iff)
qed

text \<open>Writing an image changes its bytes of the table and nothing else.\<close>

lemma put_inode_image_spec:
  assumes "table_ok s" and "inode_locate (sb (part s)) k = Inr pos" and "k < 4096"
    and "length img = 76" and "512 * unat (inode_secs pos) \<le> length io_buf"
  shows "\<exists>f. put_inode_image s pos img io_buf = Inr (s\<lparr>sectors := f\<rparr>) \<and> disk_ok (s\<lparr>sectors := f\<rparr>) \<and>
           (\<forall>j < 512 * 608. byte_at (s\<lparr>sectors := f\<rparr>) (inode_table_lba (sb (part s))) j =
              (if 76 * unat k \<le> j \<and> j < 76 * unat k + 76 then img ! (j - 76 * unat k)
               else byte_at s (inode_table_lba (sb (part s))) j)) \<and>
           (\<forall>l. 608 \<le> l - inode_table_lba (sb (part s)) \<longrightarrow> f l = sectors s l)"
proof -
  let ?t = "inode_table_lba (sb (part s))" and ?n = "unat (inode_secs pos)" and ?o = "unat (off_size pos)"
  obtain q where q: "sec_lba pos = ?t + of_nat q" "512 * q + ?o = 76 * unat k" "?o + 76 \<le> 512 * ?n" "q + ?n \<le> 608"
    using inode_locate_spec [OF assms(3), of "sb (part s)"] assms(2) by auto
  have n: "0 < ?n" "?n \<le> 2" "inode_secs pos = of_nat ?n" by (simp_all add: inode_secs_def)
  have span: "span_ok (sec_lba pos) (inode_secs pos)" "sec_lba pos \<le> start_lba (part s) + sec_cnt (part s)"
    using table_span [OF assms(1) q(4) n(1,2)] n(3) q(1) by (simp_all)
  have dok: "disk_ok s" using assms(1) by (simp add: table_ok_def)
  let ?data = "region s (sec_lba pos) 0 (512 * ?n)"
  let ?b1 = "overlay io_buf 0 ?data"
  let ?b2 = "overlay ?b1 ?o img"
  have read: "disk_read s (sec_lba pos) (inode_secs pos) = Inr ?data"
    using disk_read_ok [OF dok span(1)] .
  have l1: "length ?b1 = length io_buf" using assms(5) by simp
  have l2: "length ?b2 = length io_buf" using l1 q(3) assms(4,5) by simp
  let ?f = "\<lambda>l. if l - sec_lba pos < inode_secs pos then slice ?b2 (512 * unat (l - sec_lba pos)) 512 else sectors s l"
  have wr: "disk_write s (sec_lba pos) ?b2 (inode_secs pos) = Inr (s\<lparr>sectors := ?f\<rparr>)"
    using span(1) l2 assms(5) by (intro disk_write_ok) simp_all
  have run: "put_inode_image s pos img io_buf = Inr (s\<lparr>sectors := ?f\<rparr>)"
    using span(2) read l1 q(3) assms(4,5) wr by (simp add: put_inode_image_def)
  have "byte_at (s\<lparr>sectors := ?f\<rparr>) ?t j =
      (if 76 * unat k \<le> j \<and> j < 76 * unat k + 76 then img ! (j - 76 * unat k) else byte_at s ?t j)"
    if "j < 512 * 608" for j
  proof -
    have "j div 512 < 2 ^ 32" using that by simp
    with wr q(1) q(4) have w: "byte_at (s\<lparr>sectors := ?f\<rparr>) ?t j =
        (if 512 * q \<le> j \<and> j < 512 * (q + ?n) then ?b2 ! (j - 512 * q) else byte_at s ?t j)"
      by (intro byte_at_write) simp_all
    show ?thesis
    proof (cases "512 * q \<le> j \<and> j < 512 * (q + ?n)")
      case True
      then have j: "j - 512 * q < 512 * ?n" by auto
      then have "?b2 ! (j - 512 * q) =
          (if ?o \<le> j - 512 * q \<and> j - 512 * q < ?o + 76 then img ! (j - 512 * q - ?o) else ?data ! (j - 512 * q))"
        using assms(4,5) q(3) l1 by (simp add: nth_overlay)
      moreover have "?data ! (j - 512 * q) = byte_at s ?t j"
        using j True by (simp add: q(1) byte_at_shift)
      moreover have "?o \<le> j - 512 * q \<longleftrightarrow> 76 * unat k \<le> j" "j - 512 * q < ?o + 76 \<longleftrightarrow> j < 76 * unat k + 76"
        "j - 512 * q - ?o = j - 76 * unat k"
        using True q(2) by linarith+
      ultimately show ?thesis using w True by simp
    next
      case False
      then have "\<not> (76 * unat k \<le> j \<and> j < 76 * unat k + 76)"
        unfolding q(2) [symmetric] using q(3) by auto
      then show ?thesis unfolding w using False by (simp only: if_False)
    qed
  qed
  moreover have "?f l = sectors s l" if "608 \<le> l - ?t" for l
  proof -
    have l: "l - sec_lba pos = (l - ?t) - of_nat q" by (simp add: q(1))
    have u: "unat (of_nat q :: u32) = q" using q(4) by (intro unat_of_nat_small) simp
    have "608 \<le> unat (l - ?t)" using that by (simp add: unat_le_iff)
    then have "unat (l - sec_lba pos) = unat (l - ?t) - q"
      unfolding l using q(4) by (subst unat_sub_no_wrap) (simp_all add: u)
    then have "\<not> l - sec_lba pos < inode_secs pos"
      using q(4) \<open>608 \<le> unat (l - ?t)\<close> by (simp add: unat_less_iff)
    then show ?thesis by simp
  qed
  moreover have "disk_ok (s\<lparr>sectors := ?f\<rparr>)" using disk_write_keeps_ok [OF dok wr] .
  ultimately show ?thesis using run by blast
qed

text \<open>In terms of slots.\<close>

definition others_kept :: "'a fsys_scheme \<Rightarrow> 'a fsys_scheme \<Rightarrow> u32 \<Rightarrow> bool" where
  "others_kept s s' k \<longleftrightarrow>
     (\<forall>j < 4096. j \<noteq> k \<longrightarrow> inode_slot s' j = inode_slot s j) \<and>
     (\<forall>l. 608 \<le> l - inode_table_lba (sb (part s)) \<longrightarrow> sectors s' l = sectors s l) \<and>
     s' = s\<lparr>sectors := sectors s'\<rparr> \<and> table_ok s'"

lemma put_inode_slot:
  assumes "table_ok s" and "inode_locate (sb (part s)) k = Inr pos" and "k < 4096"
    and "length img = 76" and "512 * unat (inode_secs pos) \<le> length io_buf"
  shows "\<exists>s'. put_inode_image s pos img io_buf = Inr s' \<and> inode_slot s' k = img \<and> others_kept s s' k"
proof -
  obtain f where f: "put_inode_image s pos img io_buf = Inr (s\<lparr>sectors := f\<rparr>)" "disk_ok (s\<lparr>sectors := f\<rparr>)"
    "\<And>j. j < 512 * 608 \<Longrightarrow> byte_at (s\<lparr>sectors := f\<rparr>) (inode_table_lba (sb (part s))) j =
       (if 76 * unat k \<le> j \<and> j < 76 * unat k + 76 then img ! (j - 76 * unat k)
        else byte_at s (inode_table_lba (sb (part s))) j)"
    "\<And>l. 608 \<le> l - inode_table_lba (sb (part s)) \<Longrightarrow> f l = sectors s l"
    using put_inode_image_spec [OF assms] by blast
  have lt: "76 * unat j + i < 512 * 608" if "j < 4096" "i < 76" for j :: u32 and i
    using that by (simp add: unat_less_iff)
  have slot: "inode_slot (s\<lparr>sectors := f\<rparr>) j ! i =
      (if 76 * unat k \<le> 76 * unat j + i \<and> 76 * unat j + i < 76 * unat k + 76
       then img ! (76 * unat j + i - 76 * unat k) else inode_slot s j ! i)"
    if "j < 4096" "i < 76" for j i
    using f(3) [OF lt [OF that]] that(2) by (simp add: inode_slot_def)
  have "inode_slot (s\<lparr>sectors := f\<rparr>) k = img"
    using slot [OF assms(3)] assms(4) by (intro nth_equalityI) (simp_all add: inode_slot_def)
  moreover have "inode_slot (s\<lparr>sectors := f\<rparr>) j = inode_slot s j" if "j < 4096" "j \<noteq> k" for j
  proof (rule nth_equalityI)
    fix i assume "i < length (inode_slot (s\<lparr>sectors := f\<rparr>) j)"
    then have i: "i < 76" by (simp add: inode_slot_def)
    have "unat j \<noteq> unat k" using that(2) by (simp add: word_unat_eq_iff)
    then have "\<not> (76 * unat k \<le> 76 * unat j + i \<and> 76 * unat j + i < 76 * unat k + 76)"
      using i by linarith
    then show "inode_slot (s\<lparr>sectors := f\<rparr>) j ! i = inode_slot s j ! i"
      using slot [OF that(1) i] by (simp only: if_False)
  qed (simp add: inode_slot_def)
  ultimately show ?thesis
    using f(1,2,4) assms(1) by (intro exI [of _ "s\<lparr>sectors := f\<rparr>"]) (simp add: others_kept_def table_ok_def)
qed

lemma length_enc_inode [simp]: "length (i_sectors i) = 13 \<Longrightarrow> length (enc_inode i) = 76"
  by (simp add: enc_inode_def)

lemma dec_enc_inode:
  assumes "length (i_sectors i) = 13"
  shows "dec_inode (enc_inode i) = i"
proof -
  have "slice ([a, b, c, d] @ i_sectors i @ [e, f]) 4 13 = i_sectors i" for a b c d e f
    using assms by (simp add: slice_def)
  then show ?thesis using assms by (simp add: dec_inode_def enc_inode_def Let_def)
qed

lemma slot_number: "ucast (ucast (n :: u32) :: u8) = n mod 256"
proof -
  have "ucast (ucast n :: u8) = take_bit 8 n"
    by (rule bit_word_eqI) (auto simp: bit_simps)
  then show ?thesis by (simp add: take_bit_eq_mod)
qed

lemma slot_number_less: "(n :: u32) mod 256 < 4096"
proof -
  have "unat (n mod 256) < 256" by (simp add: unat_mod_word)
  then show ?thesis by (simp add: unat_less_iff)
qed

lemma secs_le_two: "unat (inode_secs pos) \<le> 2"
  by (simp add: inode_secs_def)

lemma inode_sync_slot:
  assumes "table_ok s" and "length (i_sectors i) = 13" and "1024 \<le> length io_buf"
  shows "\<exists>s'. inode_sync s i io_buf = Inr s' \<and> others_kept s s' (i_no i mod 256) \<and>
           inode_slot s' (i_no i mod 256) = enc_inode (i\<lparr>i_open_cnts := 0, write_deny := False\<rparr>)"
proof -
  obtain pos where pos: "inode_locate (sb (part s)) (i_no i mod 256) = Inr pos"
    using inode_locate_spec [OF slot_number_less] by blast
  have "512 * unat (inode_secs pos) \<le> length io_buf" using secs_le_two [of pos] assms(3) by linarith
  with put_inode_slot [OF assms(1) pos slot_number_less, of "enc_inode (i\<lparr>i_open_cnts := 0, write_deny := False\<rparr>)" io_buf]
  show ?thesis using assms(2) pos by (auto simp: inode_sync_def slot_number)
qed

text \<open>
  Where inodes lie on disk.  Every inode number below 4096 has a place of 76 bytes within
  the 608 sectors of the inode table, in the one or two sectors the code reads for it, and the
  places of different inodes do not overlap.
\<close>

theorem inode_places_disjoint:
  assumes "j < 4096" and "k < 4096"
  shows "\<exists>p q a b. inode_locate blk j = Inr p \<and> inode_locate blk k = Inr q \<and>
           sec_lba p = inode_table_lba blk + of_nat a \<and> sec_lba q = inode_table_lba blk + of_nat b \<and>
           a + unat (inode_secs p) \<le> 608 \<and> unat (off_size p) + 76 \<le> 512 * unat (inode_secs p) \<and>
           (j \<noteq> k \<longrightarrow> 512 * a + unat (off_size p) + 76 \<le> 512 * b + unat (off_size q) \<or>
                     512 * b + unat (off_size q) + 76 \<le> 512 * a + unat (off_size p))"
proof -
  obtain p a where p: "inode_locate blk j = Inr p" "sec_lba p = inode_table_lba blk + of_nat a"
    "512 * a + unat (off_size p) = 76 * unat j" "a + unat (inode_secs p) \<le> 608"
    "unat (off_size p) + 76 \<le> 512 * unat (inode_secs p)"
    using inode_locate_spec [OF assms(1), of blk] by auto
  obtain q b where q: "inode_locate blk k = Inr q" "sec_lba q = inode_table_lba blk + of_nat b"
    "512 * b + unat (off_size q) = 76 * unat k"
    using inode_locate_spec [OF assms(2), of blk] by auto
  have "j \<noteq> k \<Longrightarrow> unat j < unat k \<or> unat k < unat j" by (auto simp: word_unat_eq_iff)
  then have "j \<noteq> k \<Longrightarrow> 76 * unat j + 76 \<le> 76 * unat k \<or> 76 * unat k + 76 \<le> 76 * unat j" by auto
  with p q show ?thesis
    by (intro exI [of _ p] exI [of _ q] exI [of _ a] exI [of _ b]) auto
qed

definition some_super :: super_block where
  "some_super = \<lparr>sb_magic = 0x19590318, sb_sec_cnt = 0x4fc1, inode_cnt = 4096, part_lba_base = 0x3f,
     block_bitmap_lba = 0x41, block_bitmap_sects = 5, inode_bitmap_lba = 0x46, inode_bitmap_sects = 1,
     inode_table_lba = 0x47, inode_table_sects = 608, data_start_lba = 0x2a7, root_inode_no = 0, dir_entry_size = 24\<rparr>"

theorem inode_places_disjoint_witness:
  "\<exists>p. inode_locate some_super 6 = Inr p \<and> unat (off_size p) + 76 \<le> 512 * unat (inode_secs p)"
  using inode_places_disjoint [of 6 7 some_super] by auto

text \<open>
  C18: \<open>inode_sync\<close> writes the inode into the slot of its number modulo 256, because the number
  is cut to a byte: for numbers below 256 into its own slot, for the others into the slot of
  another inode, whose contents are lost.  In either case all other slots and all sectors outside
  the inode table stay as they are, and only the disk changes.
\<close>

theorem inode_sync_writes_slot:
  assumes "table_ok s" and "length (i_sectors i) = 13" and "1024 \<le> length io_buf" and "i_no i < 4096"
  shows "\<exists>s'. inode_sync s i io_buf = Inr s' \<and>
           inode_slot s' (i_no i mod 256) = enc_inode (i\<lparr>i_open_cnts := 0, write_deny := False\<rparr>) \<and>
           (\<forall>j < 4096. j \<noteq> i_no i mod 256 \<longrightarrow> inode_slot s' j = inode_slot s j) \<and>
           (i_no i < 256 \<longleftrightarrow> i_no i mod 256 = i_no i) \<and>
           (\<forall>l. 608 \<le> l - inode_table_lba (sb (part s)) \<longrightarrow> sectors s' l = sectors s l) \<and>
           s' = s\<lparr>sectors := sectors s'\<rparr>"
proof -
  have "i_no i < 256 \<longleftrightarrow> i_no i mod 256 = i_no i"
  proof -
    have "i_no i mod 256 = i_no i \<longleftrightarrow> unat (i_no i) mod 256 = unat (i_no i)"
      by (simp add: word_unat_eq_iff unat_mod_word)
    moreover have "unat (i_no i) mod 256 = unat (i_no i) \<longleftrightarrow> unat (i_no i) < 256"
      by (metis mod_less mod_less_divisor zero_less_numeral)
    ultimately show ?thesis by (simp add: unat_less_iff)
  qed
  with inode_sync_slot [OF assms(1-3)] show ?thesis by (auto simp: others_kept_def)
qed

definition some_part :: partition where
  "some_part = \<lparr>start_lba = 0x3f, sec_cnt = 0x4fc1, part_name = [], sb = some_super,
     block_bitmap = bitmap_of (replicate 2560 0) 2560, inode_bitmap = bitmap_of (replicate 512 0) 512, open_inodes = []\<rparr>"

definition some_fs :: fsys where
  "some_fs = \<lparr>sectors = (\<lambda>_. replicate 512 0), part = some_part, inodes = (\<lambda>_. inode_init 0),
     dirs = (\<lambda>_. \<lparr>dir_inode = 0, dir_pos = 0, dir_buf = []\<rparr>),
     file_table = replicate 32 \<lparr>fd_pos = 0, fd_flag = 0, fd_inode = 0\<rparr>,
     me = demo_task TASK_RUNNING, mallocs = [0xc0110000, 0xc0120000, 0xc0130000], allocated = {}\<rparr>"

lemma some_fs_table: "table_ok some_fs"
  by (simp add: table_ok_def disk_ok_def some_fs_def some_part_def some_super_def max_lba_def)

theorem inode_sync_writes_slot_witness:
  "\<exists>s'. inode_sync some_fs (inode_init 256) (replicate 1024 0) = Inr s' \<and>
     inode_slot s' 0 = enc_inode (inode_init 256)"
  using inode_sync_writes_slot [OF some_fs_table, of "inode_init 256" "replicate 1024 0"]
  by (auto simp: inode_init_def)

section \<open>Opening\<close>

text \<open>The inodes in the list are live.\<close>

definition open_ok :: "'a fsys_scheme \<Rightarrow> bool" where
  "open_ok s \<longleftrightarrow> set (open_inodes (part s)) \<subseteq> allocated s"

definition not_open :: "'a fsys_scheme \<Rightarrow> u32 \<Rightarrow> bool" where
  "not_open s k \<longleftrightarrow> (\<forall>p \<in> set (open_inodes (part s)). i_no (inodes s p) \<noteq> k)"

lemma find_open_none:
  "set ps \<subseteq> allocated s \<Longrightarrow> \<forall>p \<in> set ps. i_no (inodes s p) \<noteq> k \<Longrightarrow> find_open s ps k = Inr None"
  by (induction ps) (auto simp: get_inode_def)

lemma find_open_some:
  "set ps \<subseteq> allocated s \<Longrightarrow> \<exists>p \<in> set ps. i_no (inodes s p) = k \<Longrightarrow>
   \<exists>p. find_open s ps k = Inr (Some p) \<and> p \<in> set ps \<and> i_no (inodes s p) = k"
  by (induction ps) (auto simp: get_inode_def)

lemma find_open_dangling:
  "set ps \<subseteq> allocated s \<Longrightarrow> \<forall>p \<in> set ps. i_no (inodes s p) \<noteq> k \<Longrightarrow> q \<notin> allocated s \<Longrightarrow>
   find_open s (ps @ q # qs) k = Inl WildPointer"
  by (induction ps) (auto simp: get_inode_def)

text \<open>Enough memory for two objects that are new.\<close>

definition two_mallocs :: "'a fsys_scheme \<Rightarrow> u32 \<Rightarrow> u32 \<Rightarrow> u32 list \<Rightarrow> bool" where
  "two_mallocs s p b ms \<longleftrightarrow> mallocs s = p # b # ms \<and> p \<noteq> NULL \<and> b \<noteq> NULL \<and> p \<noteq> b \<and> b \<notin> allocated s"

lemma disk_read_slot:
  assumes "table_ok s" and "k < 4096"
  shows "\<exists>pos data. inode_locate (sb (part s)) k = Inr pos \<and> disk_read s (sec_lba pos) (inode_secs pos) = Inr data \<and>
           unat (off_size pos) + 76 \<le> length data \<and> slice data (unat (off_size pos)) 76 = inode_slot s k"
proof -
  obtain pos q where pos: "inode_locate (sb (part s)) k = Inr pos" "sec_lba pos = inode_table_lba (sb (part s)) + of_nat q"
    "512 * q + unat (off_size pos) = 76 * unat k" "unat (off_size pos) + 76 \<le> 512 * unat (inode_secs pos)"
    "q + unat (inode_secs pos) \<le> 608"
    using inode_locate_spec [OF assms(2), of "sb (part s)"] by auto
  have "span_ok (sec_lba pos) (of_nat (unat (inode_secs pos)))"
    unfolding pos(2) by (rule table_span [OF assms(1) pos(5)]) (simp_all add: inode_secs_def)
  then have "disk_read s (sec_lba pos) (inode_secs pos) = Inr (region s (sec_lba pos) 0 (512 * unat (inode_secs pos)))"
    using assms(1) by (intro disk_read_ok) (simp_all add: table_ok_def)
  moreover have "slice (region s (sec_lba pos) 0 (512 * unat (inode_secs pos))) (unat (off_size pos)) 76 = inode_slot s k"
    using pos(4) by (simp add: slice_region pos(2) region_shift pos(3) inode_slot_def)
  ultimately show ?thesis using pos(1,4) by auto
qed

lemma inode_open_reads:
  assumes "table_ok s" and "open_ok s" and "not_open s k" and "k < 4096" and "two_mallocs s p b ms"
  shows "inode_open s k = Inr (p, s\<lparr>inodes := (inodes s)(p := (dec_inode (inode_slot s k))\<lparr>i_open_cnts := 1\<rparr>),
           part := (part s)\<lparr>open_inodes := p # open_inodes (part s)\<rparr>,
           mallocs := ms, allocated := insert p (allocated s)\<rparr>)"
proof -
  obtain pos data where "inode_locate (sb (part s)) k = Inr pos" "disk_read s (sec_lba pos) (inode_secs pos) = Inr data"
    "unat (off_size pos) + 76 \<le> length data" "slice data (unat (off_size pos)) 76 = inode_slot s k"
    using disk_read_slot [OF assms(1,4)] by blast
  moreover have "find_open s (open_inodes (part s)) k = Inr None"
    using assms(2,3) by (intro find_open_none) (auto simp: open_ok_def not_open_def)
  moreover have "disk_read (s\<lparr>mallocs := ms, allocated := A\<rparr>) l n = disk_read s l n" for A l n
    by (simp add: disk_read_def)
  moreover have "insert b (insert p (allocated s)) - {b} = insert p (allocated s)"
    using assms(5) by (auto simp: two_mallocs_def)
  ultimately show ?thesis
    using assms(5)
    by (simp add: inode_open_def two_mallocs_def fs_malloc_def Let_def upd_inode_def upd_part_def fs_free_def)
qed

text \<open>
  C15: an inode comes back from disk as it was written.  After \<open>inode_sync\<close> of an inode with a
  number below 256 that is not open, \<open>inode_open\<close> yields a new in-core inode with the same
  number, size and block addresses, opened once and with writing allowed, in front of the list
  of open inodes.
\<close>

theorem inode_sync_open:
  assumes "table_ok s" and "length (i_sectors i) = 13" and "1024 \<le> length io_buf" and "i_no i < 256"
    and "open_ok s" and "not_open s (i_no i)" and "two_mallocs s p b ms"
  shows "\<exists>s1 s2. inode_sync s i io_buf = Inr s1 \<and> inode_open s1 (i_no i) = Inr (p, s2) \<and>
           inodes s2 p = i\<lparr>i_open_cnts := 1, write_deny := False\<rparr> \<and>
           open_inodes (part s2) = p # open_inodes (part s) \<and> allocated s2 = insert p (allocated s)"
proof -
  have n: "i_no i mod 256 = i_no i" and small: "i_no i < 4096"
    using assms(4) by (simp_all add: word_unat_eq_iff unat_mod_word unat_less_iff)
  let ?i = "i\<lparr>i_open_cnts := 0, write_deny := False\<rparr>"
  obtain s1 where s1: "inode_sync s i io_buf = Inr s1" "others_kept s s1 (i_no i)" "inode_slot s1 (i_no i) = enc_inode ?i"
    using inode_sync_slot [OF assms(1-3)] unfolding n by blast
  then have eq: "s1 = s\<lparr>sectors := sectors s1\<rparr>" and tab: "table_ok s1" by (simp_all add: others_kept_def)
  have f: "part s1 = part s" "allocated s1 = allocated s" "inodes s1 = inodes s" "mallocs s1 = mallocs s"
    by (subst eq, simp)+
  have "inode_open s1 (i_no i) = Inr (p, s1\<lparr>inodes := (inodes s1)(p := (dec_inode (inode_slot s1 (i_no i)))\<lparr>i_open_cnts := 1\<rparr>),
           part := (part s1)\<lparr>open_inodes := p # open_inodes (part s1)\<rparr>,
           mallocs := ms, allocated := insert p (allocated s1)\<rparr>)"
    using assms(5-7) small by (intro inode_open_reads [OF tab]) (auto simp: open_ok_def not_open_def two_mallocs_def f)
  then show ?thesis using s1(1,3) assms(2) by (simp add: f dec_enc_inode)
qed

theorem inode_sync_open_witness:
  "\<exists>s1 s2. inode_sync some_fs (inode_init 7) (replicate 1024 0) = Inr s1 \<and>
     inode_open s1 7 = Inr (0xc0110000, s2) \<and> inodes s2 0xc0110000 = (inode_init 7)\<lparr>i_open_cnts := 1\<rparr>"
  using inode_sync_open [OF some_fs_table, of "inode_init 7" "replicate 1024 0" "0xc0110000" "0xc0120000" "[0xc0130000]"]
  by (auto simp: inode_init_def open_ok_def not_open_def two_mallocs_def some_fs_def some_part_def)

text \<open>
  C27: a closed inode stays in the list.  The close that brings the open count to zero frees the
  inode without unlinking it; any later \<open>inode_open\<close> of a number that does not come before it in
  the list follows the link into freed memory.
\<close>

theorem inode_close_leaves_dangling:
  assumes "open_inodes (part s) = ps @ p # qs" and "set ps \<subseteq> allocated s - {p}" and "p \<in> allocated s" and "p \<noteq> NULL"
    and "i_open_cnts (inodes s p) = 1" and "\<forall>q \<in> set ps. i_no (inodes s q) \<noteq> k"
  shows "\<exists>s'. inode_close s p = Inr s' \<and> p \<notin> allocated s' \<and> open_inodes (part s') = open_inodes (part s) \<and>
           inode_open s' k = Inl WildPointer"
proof -
  let ?s = "(upd_inode s p (\<lambda>i. i\<lparr>i_open_cnts := i_open_cnts i - 1\<rparr>))\<lparr>allocated := allocated s - {p}\<rparr>"
  have "inode_close s p = Inr ?s"
    using assms(3-5) by (simp add: inode_close_def get_inode_def fs_free_def upd_inode_def Let_def)
  moreover have "find_open ?s (ps @ p # qs) k = Inl WildPointer"
    using assms(2,6) by (intro find_open_dangling) (auto simp: upd_inode_def)
  ultimately show ?thesis
    using assms(1) by (intro exI [of _ ?s]) (simp add: inode_open_def upd_inode_def)
qed

theorem inode_close_leaves_dangling_witness:
  "\<exists>s'. inode_close (some_fs\<lparr>part := some_part\<lparr>open_inodes := [0xc0110000]\<rparr>, allocated := {0xc0110000},
        inodes := (\<lambda>_. (inode_init 3)\<lparr>i_open_cnts := 1\<rparr>)\<rparr>) 0xc0110000 = Inr s' \<and>
     inode_open s' 0 = Inl WildPointer"
  using inode_close_leaves_dangling [of "some_fs\<lparr>part := some_part\<lparr>open_inodes := [0xc0110000]\<rparr>, allocated := {0xc0110000},
        inodes := (\<lambda>_. (inode_init 3)\<lparr>i_open_cnts := 1\<rparr>)\<rparr>" "[]" "0xc0110000" "[]" 0]
  by auto

section \<open>Inodes and blocks are allocated once\<close>

interpretation block_alloc: bit_allocator "\<lambda>s :: 'a fsys_scheme. block_bitmap (part s)"
  "\<lambda>s i. data_start_lba (sb (part s)) + of_nat i" "-1" block_bitmap_alloc
proof unfold_locales
  fix s :: "'a fsys_scheme" and i
  assume "bm_ok (block_bitmap (part s))" and "first_free (block_bitmap (part s)) i"
  with scan_set_first show "\<exists>s'. block_bitmap_alloc s = Inr (data_start_lba (sb (part s)) + of_nat i, s') \<and>
      bm_upd (block_bitmap (part s)) {i} True (block_bitmap (part s')) \<and>
      (\<lambda>i. data_start_lba (sb (part s')) + of_nat i) = (\<lambda>i. data_start_lba (sb (part s)) + of_nat i)"
    by (fastforce simp: block_bitmap_alloc_def block_bitmap_set_def upd_part_def)
next
  fix s :: "'a fsys_scheme"
  assume "bm_ok (block_bitmap (part s))" and "free_bits (block_bitmap (part s)) = {}"
  then show "block_bitmap_alloc s = Inr (- 1, s)" by (simp add: block_bitmap_alloc_def scan_set_full)
qed

interpretation inode_alloc: bit_allocator "\<lambda>s :: 'a fsys_scheme. inode_bitmap (part s)"
  "\<lambda>s i. of_nat i" "-1" inode_bitmap_alloc
proof unfold_locales
  fix s :: "'a fsys_scheme" and i
  assume "bm_ok (inode_bitmap (part s))" and "first_free (inode_bitmap (part s)) i"
  with scan_set_first show "\<exists>s'. inode_bitmap_alloc s = Inr (of_nat i, s') \<and>
      bm_upd (inode_bitmap (part s)) {i} True (inode_bitmap (part s')) \<and> of_nat = (of_nat :: nat \<Rightarrow> u32)"
    by (fastforce simp: inode_bitmap_alloc_def inode_bitmap_set_def upd_part_def)
next
  fix s :: "'a fsys_scheme"
  assume "bm_ok (inode_bitmap (part s))" and "free_bits (inode_bitmap (part s)) = {}"
  then show "inode_bitmap_alloc s = Inr (- 1, s)" by (simp add: inode_bitmap_alloc_def scan_set_full)
qed

end
