(* ===== verification/Fsinv.thy ===== *)
theory Fsinv
  imports Inode
begin

text \<open>
  The well-formed mounted partition, and what the operations on blocks do to it.

  \<open>fs_ok\<close> is the layout \<open>partition_format\<close> makes and \<open>mount_partition\<close> loads: block bitmap, inode
  bitmap, inode table and data area follow one another, the in-core bitmaps are whole sectors,
  and every block the bitmap can hand out is a sector of the disk.  The data area is what files
  and directories are stored in; \<open>data_kept\<close> says that an operation leaves it alone.
\<close>

definition data_start :: "'a fsys_scheme \<Rightarrow> u32" where
  "data_start s = data_start_lba (sb (part s))"

definition blocks :: "'a fsys_scheme \<Rightarrow> bitmap" where
  "blocks s = block_bitmap (part s)"

definition fs_ok :: "'a fsys_scheme \<Rightarrow> bool" where
  "fs_ok s \<longleftrightarrow>
     disk_ok s \<and> dir_entry_size (sb (part s)) = 24 \<and>
     bm_ok (blocks s) \<and> 512 dvd length (bits (blocks s)) \<and>
     bm_ok (inode_bitmap (part s)) \<and> 512 dvd length (bits (inode_bitmap (part s))) \<and>
     unat (block_bitmap_lba (sb (part s))) + length (bits (blocks s)) div 512 \<le> unat (inode_bitmap_lba (sb (part s))) \<and>
     unat (inode_bitmap_lba (sb (part s))) + length (bits (inode_bitmap (part s))) div 512 \<le> unat (inode_table_lba (sb (part s))) \<and>
     unat (inode_table_lba (sb (part s))) + 608 \<le> unat (data_start s) \<and>
     0 < unat (data_start s) \<and>
     unat (data_start s) + bm_size (blocks s) \<le> unat max_lba \<and>
     data_start s \<le> start_lba (part s) + sec_cnt (part s)"

lemma fs_ok_table: "fs_ok s \<Longrightarrow> table_ok s"
  by (simp add: fs_ok_def table_ok_def unat_le_iff max_lba_def)

lemma fs_ok_disk: "fs_ok s \<Longrightarrow> disk_ok s"
  by (simp add: fs_ok_def)

definition data_kept :: "'a fsys_scheme \<Rightarrow> 'a fsys_scheme \<Rightarrow> bool" where
  "data_kept s s' \<longleftrightarrow> (\<forall>l \<ge> data_start s. sectors s' l = sectors s l)"

definition block_addr :: "'a fsys_scheme \<Rightarrow> nat \<Rightarrow> u32" where
  "block_addr s i = data_start s + of_nat i"

definition block_used :: "'a fsys_scheme \<Rightarrow> u32 \<Rightarrow> bool" where
  "block_used s b \<longleftrightarrow> (\<exists>i < bm_size (blocks s). b = block_addr s i \<and> bm_bit (blocks s) i)"

lemma unat_max_lba: "unat max_lba = 163839"
  by (simp add: max_lba_def)

lemma unat_block_addr:
  assumes "fs_ok s" and "i < bm_size (blocks s)"
  shows "unat (block_addr s i) = unat (data_start s) + i"
proof -
  have le: "unat (data_start s) + bm_size (blocks s) \<le> 163839" using assms(1) by (simp add: fs_ok_def unat_max_lba)
  then have i: "unat (of_nat i :: u32) = i" using assms(2) by (intro unat_of_nat_small) simp
  then show ?thesis
    unfolding block_addr_def using le assms(2) by (subst unat_add_no_wrap) simp_all
qed

lemma block_addr_inj:
  "fs_ok s \<Longrightarrow> i < bm_size (blocks s) \<Longrightarrow> j < bm_size (blocks s) \<Longrightarrow> block_addr s i = block_addr s j \<longleftrightarrow> i = j"
  by (metis add_left_cancel unat_block_addr)

lemma block_addr_bounds:
  assumes "fs_ok s" and "i < bm_size (blocks s)"
  shows "data_start s \<le> block_addr s i" "block_addr s i \<le> max_lba" "block_addr s i \<noteq> 0"
    "block_addr s i \<noteq> -1"
proof -
  have u: "unat (block_addr s i) = unat (data_start s) + i" by (rule unat_block_addr [OF assms])
  have lim: "unat (data_start s) + bm_size (blocks s) \<le> unat max_lba" "0 < unat (data_start s)"
    using assms(1) by (simp_all add: fs_ok_def)
  show "data_start s \<le> block_addr s i" using u by (simp add: unat_le_iff)
  show b: "block_addr s i \<le> max_lba" using u lim assms(2) by (simp add: unat_le_iff)
  show "block_addr s i \<noteq> 0" using u lim by auto
  show "block_addr s i \<noteq> -1"
  proof
    assume "block_addr s i = -1"
    with b have "unat (-1 :: u32) \<le> 163839" by (simp add: unat_le_iff unat_max_lba)
    then show False by (simp add: unsigned_minus_1_eq_mask mask_eq_exp_minus_1)
  qed
qed

lemma block_used_bounds:
  assumes "fs_ok s" and "block_used s b"
  shows "data_start s \<le> b" "b \<le> max_lba" "b \<noteq> 0"
proof -
  obtain i where i: "i < bm_size (blocks s)" "b = block_addr s i" using assms(2) by (auto simp: block_used_def)
  show "data_start s \<le> b" "b \<le> max_lba" "b \<noteq> 0"
    unfolding i(2) by (rule block_addr_bounds [OF assms(1) i(1)])+
qed

section \<open>Writing the bitmaps back\<close>

text \<open>\<open>meta\<close> is the state with another disk and the same everything else.\<close>

lemma block_sync_spec:
  assumes "fs_ok s" and "i < bm_size (blocks s)"
  shows "\<exists>f. bitmap_sync s (of_nat i) BLOCK_BITMAP = Inr (s\<lparr>sectors := f\<rparr>) \<and> fs_ok (s\<lparr>sectors := f\<rparr>) \<and>
           (\<forall>l. unat (data_start s) \<le> unat l + 608 \<longrightarrow> f l = sectors s l)"
proof -
  let ?b = "bits (blocks s)" and ?d = "block_bitmap_lba (sb (part s))"
  have len: "bm_size (blocks s) \<le> 8 * length ?b" "512 dvd length ?b"
    using assms(1) by (auto simp: fs_ok_def bm_ok_def bm_size_def)
  have geo: "unat ?d + length ?b div 512 + 608 \<le> unat (data_start s)" "unat (data_start s) + bm_size (blocks s) \<le> 163839"
    using assms(1) by (simp_all add: fs_ok_def unat_max_lba)
  have iu: "unat (of_nat i :: u32) = i" using geo(2) assms(2) by (intro unat_of_nat_small) simp
  have q: "i div 4096 < length ?b div 512"
  proof -
    have "i < 4096 * (length ?b div 512)" using assms(2) len by (auto elim!: dvdE)
    then show ?thesis by (simp add: less_mult_imp_div_less mult.commute)
  qed
  have qs: "(of_nat i :: u32) div 4096 = of_nat (i div 4096)"
  proof -
    have "unat ((of_nat i :: u32) div 4096) = i div 4096" by (simp add: unat_div_word iu)
    from this [symmetric] show ?thesis by simp
  qed
  let ?l = "?d + of_nat (i div 4096)"
  have qu: "unat (of_nat (i div 4096) :: u32) = i div 4096"
    using q geo by (intro unat_of_nat_small) simp
  have lu: "unat ?l = unat ?d + i div 4096"
    using q geo qu by (subst unat_add_no_wrap) simp_all
  have off: "unat (of_nat (i div 4096) * 512 :: u32) = 512 * (i div 4096)"
    using q geo qu by (subst unat_mult_no_wrap) simp_all
  let ?data = "drop (512 * (i div 4096)) ?b"
  have "512 * (i div 4096) + 512 \<le> length ?b" using q by linarith
  then have dl: "512 \<le> length ?data" by simp
  have span: "span_ok ?l 1" using lu q geo by (simp add: unat_le_iff unat_max_lba)
  let ?f = "\<lambda>l. if l - ?l < 1 then slice ?data (512 * unat (l - ?l)) 512 else sectors s l"
  have wr: "disk_write s ?l ?data 1 = Inr (s\<lparr>sectors := ?f\<rparr>)"
    using span dl by (intro disk_write_ok) simp_all
  then have run: "bitmap_sync s (of_nat i) BLOCK_BITMAP = Inr (s\<lparr>sectors := ?f\<rparr>)"
    by (simp only: bitmap_sync_def Let_def bitmap_type.case prod.case off qs blocks_def)
  have "disk_ok (s\<lparr>sectors := ?f\<rparr>)"
    using disk_write_keeps_ok [OF _ wr] assms(1) by (simp add: fs_ok_def)
  then have "fs_ok (s\<lparr>sectors := ?f\<rparr>)" using assms(1) by (simp add: fs_ok_def blocks_def data_start_def)
  moreover have "?f l = sectors s l" if "unat (data_start s) \<le> unat l + 608" for l
  proof -
    have "unat l \<noteq> unat ?l" using that lu q geo by linarith
    then have "l - ?l \<noteq> 0" by auto
    then show ?thesis by (simp add: word_less_1)
  qed
  ultimately show ?thesis using run by blast
qed

section \<open>Taking a block\<close>

text \<open>\<open>took s i s'\<close>: bit \<open>i\<close> of the block bitmap was free and is now set, in core and on disk.\<close>

definition took :: "'a fsys_scheme \<Rightarrow> nat \<Rightarrow> 'a fsys_scheme \<Rightarrow> bool" where
  "took s i s' \<longleftrightarrow>
     i \<in> free_bits (blocks s) \<and> bm_upd (blocks s) {i} True (blocks s') \<and> fs_ok s' \<and>
     (\<exists>b f. s' = s\<lparr>part := (part s)\<lparr>block_bitmap := b\<rparr>, sectors := f\<rparr>) \<and>
     (\<forall>l. unat (data_start s) \<le> unat l + 608 \<longrightarrow> sectors s' l = sectors s l)"

lemma fs_ok_blocks:
  assumes "fs_ok s" and "bm_upd (blocks s) {i} v b"
  shows "fs_ok (s\<lparr>part := (part s)\<lparr>block_bitmap := b\<rparr>\<rparr>)"
proof -
  have "bm_ok b = bm_ok (blocks s)" "bm_size b = bm_size (blocks s)" "length (bits b) = length (bits (blocks s))"
    using bm_upd_ok [OF assms(2)] bm_upd_size [OF assms(2)] assms(2) by (simp_all add: bm_upd_def)
  then show ?thesis using assms(1) by (simp add: fs_ok_def blocks_def data_start_def disk_ok_def)
qed

lemma take_block:
  assumes "fs_ok s" and "free_bits (blocks s) \<noteq> {}"
  shows "\<exists>i s1 s2. block_bitmap_alloc s = Inr (block_addr s i, s1) \<and> data_start_lba (sb (part s1)) = data_start s \<and>
           s1 = s\<lparr>part := part s2\<rparr> \<and>
           bitmap_sync s1 (block_addr s i - data_start s) BLOCK_BITMAP = Inr s2 \<and> took s i s2"
proof -
  have bok: "bm_ok (blocks s)" using assms(1) by (simp add: fs_ok_def)
  have "\<not> (\<forall>i < bm_size (blocks s). bm_bit (blocks s) i)" using assms(2) by (auto simp: free_bits_def)
  then obtain i where ff: "first_free (blocks s) i" unfolding no_free_iff by blast
  from scan_set_first [OF bok ff] obtain b where
    b: "bitmap_scan (blocks s) 1 = Inr (of_nat i)" "(of_nat i :: u32) \<noteq> -1"
      "bitmap_set (blocks s) (of_nat i) 1 = Inr b" "bm_upd (blocks s) {i} True b" by blast
  let ?s1 = "s\<lparr>part := (part s)\<lparr>block_bitmap := b\<rparr>\<rparr>"
  have al: "block_bitmap_alloc s = Inr (block_addr s i, ?s1)"
    using b by (simp add: block_bitmap_alloc_def block_bitmap_set_def upd_part_def blocks_def block_addr_def data_start_def)
  have ok1: "fs_ok ?s1" by (rule fs_ok_blocks [OF assms(1) b(4)])
  have sz: "bm_size (blocks ?s1) = bm_size (blocks s)" using bm_upd_size [OF b(4)] by (simp add: blocks_def)
  have i: "i < bm_size (blocks ?s1)" using ff by (simp add: first_free_def sz)
  from block_sync_spec [OF ok1 i] obtain f where
    f: "bitmap_sync ?s1 (of_nat i) BLOCK_BITMAP = Inr (?s1\<lparr>sectors := f\<rparr>)" "fs_ok (?s1\<lparr>sectors := f\<rparr>)"
      "\<And>l. unat (data_start s) \<le> unat l + 608 \<Longrightarrow> f l = sectors s l"
    by (auto simp: data_start_def)
  have "took s i (?s1\<lparr>sectors := f\<rparr>)"
    unfolding took_def
  proof (intro conjI allI impI)
    show "i \<in> free_bits (blocks s)" by (rule first_free_bits [OF ff])
    show "bm_upd (blocks s) {i} True (blocks (?s1\<lparr>sectors := f\<rparr>))" using b(4) by (simp add: blocks_def)
    show "\<exists>b' f'. ?s1\<lparr>sectors := f\<rparr> = s\<lparr>part := (part s)\<lparr>block_bitmap := b'\<rparr>, sectors := f'\<rparr>" by blast
    show "fs_ok (?s1\<lparr>sectors := f\<rparr>)" by (rule f(2))
    show "sectors (?s1\<lparr>sectors := f\<rparr>) l = sectors s l" if "unat (data_start s) \<le> unat l + 608" for l
      using f(3) [OF that] by simp
  qed
  moreover have "block_addr s i - data_start s = of_nat i" by (simp add: block_addr_def)
  ultimately show ?thesis
    using al f(1) by (intro exI [of _ i] exI [of _ ?s1] exI [of _ "?s1\<lparr>sectors := f\<rparr>"]) (simp add: data_start_def)
qed

lemma no_block:
  assumes "fs_ok s" and "free_bits (blocks s) = {}"
  shows "block_bitmap_alloc s = Inr (-1, s)"
  using assms by (intro block_alloc.alloc_full) (simp_all add: fs_ok_def blocks_def)

lemma tookD:
  assumes "took s i s'"
  shows "part s' = (part s)\<lparr>block_bitmap := blocks s'\<rparr>" "inodes s' = inodes s" "dirs s' = dirs s"
    "file_table s' = file_table s" "me s' = me s" "mallocs s' = mallocs s" "allocated s' = allocated s"
    "fs_ok s'" "data_start s' = data_start s" "block_addr s' = block_addr s"
    "i < bm_size (blocks s)" "\<not> block_used s (block_addr s i) \<or> \<not> fs_ok s"
proof -
  obtain b f where s': "s' = s\<lparr>part := (part s)\<lparr>block_bitmap := b\<rparr>, sectors := f\<rparr>"
    using assms by (auto simp: took_def)
  show "part s' = (part s)\<lparr>block_bitmap := blocks s'\<rparr>" "inodes s' = inodes s" "dirs s' = dirs s"
    "file_table s' = file_table s" "me s' = me s" "mallocs s' = mallocs s" "allocated s' = allocated s"
    "data_start s' = data_start s" "block_addr s' = block_addr s"
    by (simp_all add: s' blocks_def data_start_def block_addr_def fun_eq_iff)
  show "fs_ok s'" using assms by (simp add: took_def)
  have i: "i < bm_size (blocks s)" "\<not> bm_bit (blocks s) i" using assms by (simp_all add: took_def free_bits_def)
  show "i < bm_size (blocks s)" by (rule i(1))
  show "\<not> block_used s (block_addr s i) \<or> \<not> fs_ok s"
    using i block_addr_inj [of s i] by (auto simp: block_used_def)
qed

lemma took_used: "took s i s' \<Longrightarrow> fs_ok s \<Longrightarrow> block_used s' b \<longleftrightarrow> b = block_addr s i \<or> block_used s b"
  using tookD(10,11) [of s i s'] bm_upd_size [of "blocks s" "{i}" True "blocks s'"]
  by (auto simp: took_def block_used_def bm_upd_def)

lemma took_data: "took s i s' \<Longrightarrow> data_kept s s'"
  by (auto simp: took_def data_kept_def unat_le_iff)

lemma took_free: "took s i s' \<Longrightarrow> free_bits (blocks s') = free_bits (blocks s) - {i}"
  using free_bits_upd by (auto simp: took_def)

lemma fs_ok_congs:
  assumes "sectors s' = sectors s" and "part s' = part s"
  shows "fs_ok s' = fs_ok s"
  using assms by (simp add: fs_ok_def disk_ok_def blocks_def data_start_def)

lemma fs_ok_simps [simp]:
  "fs_ok (s\<lparr>inodes := x1\<rparr>) = fs_ok s" "fs_ok (s\<lparr>dirs := x2\<rparr>) = fs_ok s" "fs_ok (s\<lparr>file_table := x3\<rparr>) = fs_ok s"
  "fs_ok (s\<lparr>me := x4\<rparr>) = fs_ok s" "fs_ok (s\<lparr>mallocs := x5\<rparr>) = fs_ok s" "fs_ok (s\<lparr>allocated := x6\<rparr>) = fs_ok s"
  "fs_ok (upd_inode s p g) = fs_ok s"
  by (rule fs_ok_congs; simp add: upd_inode_def)+

lemma fs_ok_write:
  "fs_ok s \<Longrightarrow> disk_ok (s\<lparr>sectors := f\<rparr>) \<Longrightarrow> fs_ok (s\<lparr>sectors := f\<rparr>)"
  by (simp add: fs_ok_def blocks_def data_start_def)

lemma fs_ok_sector:
  "fs_ok s \<Longrightarrow> length bs = 512 \<Longrightarrow> fs_ok (s\<lparr>sectors := (sectors s)(l := bs)\<rparr>)"
  using fs_ok_disk [of s] by (intro fs_ok_write) (simp_all add: disk_ok_def)

lemma geometry_simps [simp]:
  "blocks (s\<lparr>sectors := f\<rparr>) = blocks s" "data_start (s\<lparr>sectors := f\<rparr>) = data_start s"
  "blocks (s\<lparr>inodes := x1\<rparr>) = blocks s" "data_start (s\<lparr>inodes := x1\<rparr>) = data_start s"
  "blocks (upd_inode s p g) = blocks s" "data_start (upd_inode s p g) = data_start s"
  by (simp_all add: blocks_def data_start_def upd_inode_def)

end
