(* ===== verification/Dir.thy ===== *)
theory Dir
  imports Fsinv Cstring
begin

text \<open>
  Directories, from \<open>fs/dir.c\<close>.

  A directory is a file of 24-byte entries, 21 to a sector, none across two sectors; an entry of
  type \<open>FT_UNKNOWN\<close> is free.  Entries are handled as the bytes they are on disk: \<open>enc_entry\<close>
  is the layout of \<open>struct dir_entry\<close>, and \<open>strcmp\<close> on an entry's name walks on through the
  bytes behind it, as the code does.  \<open>ROOT_DIR\<close> is the address of the object \<open>root_dir\<close> (from
  \<open>build/kernel.map\<close>), which is not on the heap.
\<close>

section \<open>Entries\<close>

definition ROOT_DIR :: u32 where
  "ROOT_DIR = 0xc0016cc0"

definition FT_UNKNOWN :: u32 where
  "FT_UNKNOWN = 0"

definition FT_REGULAR :: u32 where
  "FT_REGULAR = 1"

definition FT_DIRECTORY :: u32 where
  "FT_DIRECTORY = 2"

record dir_entry =
  filename :: "u8 list"
  de_ino :: u32
  f_type :: u32

definition enc_entry :: "dir_entry \<Rightarrow> u8 list" where
  "enc_entry e = filename e @ le32 (de_ino e) @ le32 (f_type e)"

definition dec_entry :: "u8 list \<Rightarrow> dir_entry" where
  "dec_entry bs = \<lparr>filename = take 16 bs, de_ino = words (drop 16 bs) ! 0, f_type = words (drop 16 bs) ! 1\<rparr>"

text \<open>\<open>(dir_e + k)->f_type\<close> and \<open>(dir_e + k)->i_no\<close> for a buffer of entries.\<close>

definition entry_type :: "u8 list \<Rightarrow> nat \<Rightarrow> u32 res" where
  "entry_type buf k = rd32 buf (24 * k + 20)"

definition entry_ino :: "u8 list \<Rightarrow> nat \<Rightarrow> u32 res" where
  "entry_ino buf k = rd32 buf (24 * k + 16)"

definition get_dir :: "'a fsys_scheme \<Rightarrow> u32 \<Rightarrow> dir res" where
  "get_dir s p = (if p = ROOT_DIR \<or> p \<in> allocated s then Inr (dirs s p) else Inl WildPointer)"

definition upd_dir :: "'a fsys_scheme \<Rightarrow> u32 \<Rightarrow> (dir \<Rightarrow> dir) \<Rightarrow> 'a fsys_scheme" where
  "upd_dir s p f = s\<lparr>dirs := (dirs s)(p := f (dirs s p))\<rparr>"

section \<open>Opening and closing directories\<close>

definition open_root_dir :: "'a fsys_scheme \<Rightarrow> 'a fsys_scheme res" where
  "open_root_dir s =
     rbind (inode_open s (root_inode_no (sb (part s)))) (\<lambda>(p, s).
       Inr (upd_dir s ROOT_DIR (\<lambda>d. d\<lparr>dir_inode := p, dir_pos := 0\<rparr>)))"

definition dir_open :: "'a fsys_scheme \<Rightarrow> u32 \<Rightarrow> (u32 \<times> 'a fsys_scheme) res" where
  "dir_open s inode_no =
     (let (pdir, s) = fs_malloc s
      in rbind (inode_open s inode_no) (\<lambda>(p, s).
           if pdir = NULL then Inl WildPointer
           else Inr (pdir, upd_dir s pdir (\<lambda>d. \<lparr>dir_inode = p, dir_pos = 0, dir_buf = replicate 512 0\<rparr>))))"

definition dir_close :: "'a fsys_scheme \<Rightarrow> u32 \<Rightarrow> 'a fsys_scheme res" where
  "dir_close s d =
     (if d = ROOT_DIR then Inr s
      else rbind (get_dir s d) (\<lambda>dr. rbind (inode_close s (dir_inode dr)) (\<lambda>s. fs_free s d)))"

section \<open>Searching\<close>

text \<open>
  One block, from the entry at the head of \<open>buf\<close>.  A hit copies \<open>esz\<close> bytes into the caller's
  24-byte entry; its type is read right afterwards, so a shorter copy leaves it unwritten.
\<close>

fun search_block :: "u8 list \<Rightarrow> nat \<Rightarrow> u8 list \<Rightarrow> u32 \<Rightarrow> u8 list option res" where
  "search_block buf 0 name esz = Inr None"
| "search_block buf (Suc n) name esz =
     rbind (strcmp (Some buf) (Some name)) (\<lambda>r.
       if r = 0 then
         if unat esz > 24 \<or> length buf < unat esz then Inl OutOfBounds
         else if unat esz < 24 then Inl Uninitialised
         else Inr (Some (take 24 buf))
       else search_block (drop 24 buf) n name esz)"

fun search_blocks :: "'a fsys_scheme \<Rightarrow> u32 list \<Rightarrow> u8 list \<Rightarrow> u32 \<Rightarrow> u8 list option res" where
  "search_blocks s [] name esz = Inr None"
| "search_blocks s (b # bs) name esz =
     (if b = 0 then search_blocks s bs name esz
      else rbind (disk_read s b 1) (\<lambda>buf.
        rbind (search_block buf (512 div unat esz) name esz) (\<lambda>r.
          case r of Some e \<Rightarrow> Inr (Some e) | None \<Rightarrow> search_blocks s bs name esz)))"

definition search_dir_entry :: "'a fsys_scheme \<Rightarrow> u32 \<Rightarrow> u8 list \<Rightarrow> (u8 list option \<times> 'a fsys_scheme) res" where
  "search_dir_entry s pdir name =
     (let (all_blocks_p, s) = fs_malloc s
      in if all_blocks_p = NULL then Inr (None, s)
         else rbind (get_dir s pdir) (\<lambda>d. rbind (get_inode s (dir_inode d)) (\<lambda>i.
           rbind (all_blocks_of s i) (\<lambda>all_blocks.
           let (buf, s) = fs_malloc s; esz = dir_entry_size (sb (part s))
           in if esz = 0 then Inl DivideError
              else if buf = NULL then Inl WildPointer
              else rbind (search_blocks s all_blocks name esz) (\<lambda>r.
                rbind (fs_free s buf) (\<lambda>s. rbind (fs_free s all_blocks_p) (\<lambda>s. Inr (r, s))))))))"

section \<open>Adding an entry\<close>

text \<open>\<open>p_de\<close> is the caller's entry, 24 bytes.\<close>

definition create_dir_entry :: "u8 list \<Rightarrow> u32 \<Rightarrow> u8 \<Rightarrow> u8 list \<Rightarrow> u8 list res" where
  "create_dir_entry fname inode_no file_type p_de =
     rbind (strlen (Some fname)) (\<lambda>len.
       if \<not> len \<le> 16 then Inl Panic
       else rbind (blit p_de 0 (take (unat len) fname)) (\<lambda>p_de.
         rbind (blit p_de 16 (le32 inode_no)) (\<lambda>p_de. blit p_de 20 (le32 (ucast file_type)))))"

fun free_entry :: "u8 list \<Rightarrow> nat \<Rightarrow> nat \<Rightarrow> nat option res" where
  "free_entry buf k 0 = Inr None"
| "free_entry buf k (Suc n) =
     rbind (entry_type buf k) (\<lambda>t. if t = FT_UNKNOWN then Inr (Some k) else free_entry buf (Suc k) n)"

definition set_sector :: "'a fsys_scheme \<Rightarrow> u32 \<Rightarrow> nat \<Rightarrow> u32 \<Rightarrow> 'a fsys_scheme" where
  "set_sector s ip k lba = upd_inode s ip (\<lambda>i. i\<lparr>i_sectors := (i_sectors i)[k := lba]\<rparr>)"

definition grow_inode :: "'a fsys_scheme \<Rightarrow> u32 \<Rightarrow> u32 \<Rightarrow> 'a fsys_scheme" where
  "grow_inode s ip n = upd_inode s ip (\<lambda>i. i\<lparr>i_size := i_size i + n\<rparr>)"

text \<open>The table of indirect blocks is written from \<open>all_blocks + 12\<close>.\<close>

definition write_table :: "'a fsys_scheme \<Rightarrow> u32 \<Rightarrow> u32 list \<Rightarrow> 'a fsys_scheme res" where
  "write_table s ip all_blocks = disk_write s (i_sectors (inodes s ip) ! 12) (bytes_of (drop 12 all_blocks)) 1"

text \<open>
  Attaching the newly allocated block \<open>lba\<close> to the directory as its block \<open>idx\<close>; \<open>None\<close> when the
  second block needed for an indirect table is not there.
\<close>

definition attach_block ::
  "'a fsys_scheme \<Rightarrow> u32 \<Rightarrow> u32 list \<Rightarrow> nat \<Rightarrow> u32 \<Rightarrow> (u32 list option \<times> 'a fsys_scheme) res" where
  "attach_block s ip all_blocks idx lba =
     (if idx < 12 then Inr (Some (all_blocks[idx := lba]), set_sector s ip idx lba)
      else if idx = 12 then
        let s = set_sector s ip 12 lba
        in rbind (block_bitmap_alloc s) (\<lambda>(lba2, s).
             if lba2 = -1 then
               let block_bitmap_idx = i_sectors (inodes s ip) ! 12 - data_start_lba (sb (part s))
               in rbind (block_bitmap_set s block_bitmap_idx 0) (\<lambda>s. Inr (None, set_sector s ip 12 0))
             else
               let block_bitmap_idx = lba2 - data_start_lba (sb (part s))
               in if block_bitmap_idx = -1 then Inl Panic
                  else rbind (bitmap_sync s block_bitmap_idx BLOCK_BITMAP) (\<lambda>s.
                    let all_blocks = all_blocks[12 := lba2]
                    in rbind (write_table s ip all_blocks) (\<lambda>s. Inr (Some all_blocks, s))))
      else
        let all_blocks = all_blocks[idx := lba]
        in rbind (write_table s ip all_blocks) (\<lambda>s. Inr (Some all_blocks, s)))"

definition new_dir_block ::
  "'a fsys_scheme \<Rightarrow> u32 \<Rightarrow> u8 list \<Rightarrow> u8 list \<Rightarrow> u32 list \<Rightarrow> nat \<Rightarrow> (bool \<times> 'a fsys_scheme) res" where
  "new_dir_block s ip p_de io_buf all_blocks idx =
     rbind (block_bitmap_alloc s) (\<lambda>(lba, s).
       if lba = -1 then Inr (False, s)
       else rbind (bitmap_sync s (lba - data_start_lba (sb (part s))) BLOCK_BITMAP) (\<lambda>s.
         rbind (attach_block s ip all_blocks idx lba) (\<lambda>(r, s).
           case r of
             None \<Rightarrow> Inr (False, s)
           | Some all_blocks \<Rightarrow>
               let esz = dir_entry_size (sb (part s))
               in rbind (blit io_buf 0 (replicate 512 0)) (\<lambda>io_buf.
                  if length p_de < unat esz then Inl OutOfBounds
                  else rbind (blit io_buf 0 (take (unat esz) p_de)) (\<lambda>io_buf.
                    rbind (disk_write s (all_blocks ! idx) io_buf 1) (\<lambda>s. Inr (True, grow_inode s ip esz)))))))"

fun sync_loop ::
  "'a fsys_scheme \<Rightarrow> u32 \<Rightarrow> u8 list \<Rightarrow> u8 list \<Rightarrow> u32 list \<Rightarrow> nat \<Rightarrow> nat \<Rightarrow> (bool \<times> 'a fsys_scheme) res" where
  "sync_loop s ip p_de io_buf all_blocks idx 0 = Inr (False, s)"
| "sync_loop s ip p_de io_buf all_blocks idx (Suc n) =
     (if all_blocks ! idx = 0 then new_dir_block s ip p_de io_buf all_blocks idx
      else
        let esz = dir_entry_size (sb (part s))
        in rbind (disk_read s (all_blocks ! idx) 1) (\<lambda>data. rbind (blit io_buf 0 data) (\<lambda>io_buf.
             rbind (free_entry io_buf 0 (512 div unat esz)) (\<lambda>f.
               case f of
                 Some k \<Rightarrow>
                   if length p_de < unat esz then Inl OutOfBounds
                   else rbind (blit io_buf (24 * k) (take (unat esz) p_de)) (\<lambda>io_buf.
                     rbind (disk_write s (all_blocks ! idx) io_buf 1) (\<lambda>s. Inr (True, grow_inode s ip esz)))
               | None \<Rightarrow> sync_loop s ip p_de io_buf all_blocks (Suc idx) n))))"

definition sync_dir_entry :: "'a fsys_scheme \<Rightarrow> u32 \<Rightarrow> u8 list \<Rightarrow> u8 list \<Rightarrow> (bool \<times> 'a fsys_scheme) res" where
  "sync_dir_entry s parent_dir p_de io_buf =
     rbind (get_dir s parent_dir) (\<lambda>d. rbind (get_inode s (dir_inode d)) (\<lambda>i.
       let esz = dir_entry_size (sb (part s))
       in if esz = 0 then Inl DivideError
          else if i_size i mod esz \<noteq> 0 then Inl Panic
          else sync_loop s (dir_inode d) p_de io_buf (take 12 (i_sectors i) @ replicate 128 0) 0 140))"

section \<open>Deleting an entry\<close>

text \<open>
  One block: whether it is the directory's first, how many entries it has besides \<open>.\<close> and \<open>..\<close>,
  and where the wanted one is.
\<close>

fun scan_entries ::
  "u8 list \<Rightarrow> nat \<Rightarrow> nat \<Rightarrow> u32 \<Rightarrow> bool \<times> u8 \<times> nat option \<Rightarrow> (bool \<times> u8 \<times> nat option) res" where
  "scan_entries buf k 0 inode_no acc = Inr acc"
| "scan_entries buf k (Suc n) inode_no (is_first, cnt, found) =
     rbind (entry_type buf k) (\<lambda>t.
       if t \<noteq> FT_UNKNOWN then
         rbind (strcmp (Some (drop (24 * k) buf)) (Some [46, 0])) (\<lambda>dot.
           if dot = 0 then scan_entries buf (Suc k) n inode_no (True, cnt, found)
           else rbind (strcmp (Some (drop (24 * k) buf)) (Some [46, 46, 0])) (\<lambda>dotdot.
             if dotdot = 0 then scan_entries buf (Suc k) n inode_no (is_first, cnt, found)
             else rbind (entry_ino buf k) (\<lambda>ino.
               if ino = inode_no then
                 if found \<noteq> None then Inl Panic
                 else scan_entries buf (Suc k) n inode_no (is_first, cnt + 1, Some k)
               else scan_entries buf (Suc k) n inode_no (is_first, cnt + 1, found))))
       else scan_entries buf (Suc k) n inode_no (is_first, cnt, found))"

text \<open>The loop that counts the indirect blocks; its index is never advanced.\<close>

partial_function (option) count_indirect :: "u32 list \<Rightarrow> nat \<Rightarrow> u32 \<Rightarrow> u32 option" where
  "count_indirect all_blocks indirect_block_idx n =
     (if indirect_block_idx < 140 then
        count_indirect all_blocks indirect_block_idx (if all_blocks ! indirect_block_idx \<noteq> 0 then n + 1 else n)
      else Some n)"

definition drop_dir_block :: "'a fsys_scheme \<Rightarrow> u32 \<Rightarrow> u32 list \<Rightarrow> nat \<Rightarrow> 'a fsys_scheme res" where
  "drop_dir_block s ip all_blocks idx =
     (let block_bitmap_idx = all_blocks ! idx - data_start_lba (sb (part s))
      in rbind (block_bitmap_set s block_bitmap_idx 0) (\<lambda>s.
         rbind (bitmap_sync s block_bitmap_idx BLOCK_BITMAP) (\<lambda>s.
           if idx < 12 then Inr (set_sector s ip idx 0)
           else case count_indirect all_blocks 12 0 of
               None \<Rightarrow> Inl Hang
             | Some indirect_blocks \<Rightarrow>
                 if \<not> indirect_blocks \<ge> 1 then Inl Panic
                 else if indirect_blocks > 1 then write_table s ip (all_blocks[idx := 0])
                 else
                   let block_bitmap_idx = i_sectors (inodes s ip) ! 12 - data_start_lba (sb (part s))
                   in rbind (block_bitmap_set s block_bitmap_idx 0) (\<lambda>s.
                      rbind (bitmap_sync s block_bitmap_idx BLOCK_BITMAP) (\<lambda>s. Inr (set_sector s ip 12 0))))))"

fun delete_loop ::
  "'a fsys_scheme \<Rightarrow> u32 \<Rightarrow> u32 \<Rightarrow> u8 list \<Rightarrow> u32 list \<Rightarrow> nat \<Rightarrow> nat \<Rightarrow> (bool \<times> 'a fsys_scheme) res" where
  "delete_loop s ip inode_no io_buf all_blocks idx 0 = Inr (False, s)"
| "delete_loop s ip inode_no io_buf all_blocks idx (Suc n) =
     (if all_blocks ! idx = 0 then delete_loop s ip inode_no io_buf all_blocks (Suc idx) n
      else
        let esz = dir_entry_size (sb (part s))
        in rbind (disk_read s (all_blocks ! idx) 1) (\<lambda>data. rbind (blit io_buf 0 data) (\<lambda>io_buf.
           rbind (scan_entries io_buf 0 (512 div unat esz) inode_no (False, 0, None)) (\<lambda>(is_first, cnt, found).
             case found of
               None \<Rightarrow> delete_loop s ip inode_no io_buf all_blocks (Suc idx) n
             | Some k \<Rightarrow>
                 if \<not> cnt \<ge> 1 then Inl Panic
                 else rbind
                   (if cnt = 1 \<and> \<not> is_first then drop_dir_block s ip all_blocks idx
                    else rbind (blit io_buf (24 * k) (replicate (unat esz) 0)) (\<lambda>io_buf.
                      disk_write s (all_blocks ! idx) io_buf 1))
                   (\<lambda>s. if \<not> i_size (inodes s ip) \<ge> esz then Inl Panic
                     else
                       let s = grow_inode s ip (- esz)
                       in rbind (blit io_buf 0 (replicate 1024 0)) (\<lambda>io_buf.
                          rbind (inode_sync s (inodes s ip) io_buf) (\<lambda>s. Inr (True, s))))))))"

definition delete_dir_entry :: "'a fsys_scheme \<Rightarrow> u32 \<Rightarrow> u32 \<Rightarrow> u8 list \<Rightarrow> (bool \<times> 'a fsys_scheme) res" where
  "delete_dir_entry s pdir inode_no io_buf =
     rbind (get_dir s pdir) (\<lambda>d. rbind (get_inode s (dir_inode d)) (\<lambda>i.
       rbind (all_blocks_of s i) (\<lambda>all_blocks.
         if dir_entry_size (sb (part s)) = 0 then Inl DivideError
         else delete_loop s (dir_inode d) inode_no io_buf all_blocks 0 140)))"

section \<open>Reading entries one by one\<close>

text \<open>One block: either the entry to return, or the position reached.\<close>

fun read_entries :: "u8 list \<Rightarrow> nat \<Rightarrow> nat \<Rightarrow> u32 \<Rightarrow> u32 \<Rightarrow> u32 \<Rightarrow> (nat option \<times> u32) res" where
  "read_entries buf k 0 esz pos cur_pos = Inr (None, cur_pos)"
| "read_entries buf k (Suc n) esz pos cur_pos =
     rbind (entry_type buf k) (\<lambda>t.
       if t \<noteq> FT_UNKNOWN then
         if cur_pos < pos then read_entries buf (Suc k) n esz pos (cur_pos + esz)
         else if cur_pos \<noteq> pos then Inl Panic
         else Inr (Some k, cur_pos)
       else read_entries buf (Suc k) n esz pos cur_pos)"

text \<open>Behind the 140 addresses the loop reads past the array.\<close>

fun read_blocks :: "'a fsys_scheme \<Rightarrow> u32 \<Rightarrow> u32 list \<Rightarrow> u32 \<Rightarrow> u32 \<Rightarrow> (nat \<times> u8 list) res" where
  "read_blocks s dirp [] pos cur_pos = Inl OutOfBounds"
| "read_blocks s dirp (b # bs) pos cur_pos =
     (if b = 0 then read_blocks s dirp bs pos cur_pos
      else
        let esz = dir_entry_size (sb (part s))
        in rbind (disk_read s b 1) (\<lambda>buf.
           rbind (read_entries buf 0 (512 div unat esz) esz pos cur_pos) (\<lambda>(r, cur_pos).
             case r of Some k \<Rightarrow> Inr (k, buf) | None \<Rightarrow> read_blocks s dirp bs pos cur_pos)))"

definition dir_read :: "'a fsys_scheme \<Rightarrow> u32 \<Rightarrow> (nat option \<times> 'a fsys_scheme) res" where
  "dir_read s dirp =
     rbind (get_dir s dirp) (\<lambda>d. rbind (get_inode s (dir_inode d)) (\<lambda>i.
       rbind (all_blocks_of s i) (\<lambda>all_blocks.
         let esz = dir_entry_size (sb (part s))
         in if esz = 0 then Inl DivideError
            else if \<not> dir_pos d < i_size i then Inr (None, s)
            else rbind (read_blocks s dirp all_blocks (dir_pos d) 0) (\<lambda>(k, buf).
              Inr (Some k, upd_dir s dirp (\<lambda>d. d\<lparr>dir_pos := dir_pos d + esz, dir_buf := buf\<rparr>))))))"

section \<open>Empty directories\<close>

definition dir_is_empty :: "'a fsys_scheme \<Rightarrow> u32 \<Rightarrow> bool res" where
  "dir_is_empty s d =
     (if d = NULL then Inr False
      else rbind (get_dir s d) (\<lambda>dr. rbind (get_inode s (dir_inode dr)) (\<lambda>i.
        Inr (i_size i = dir_entry_size (sb (part s)) * 2))))"

definition dir_remove :: "'a fsys_scheme \<Rightarrow> u32 \<Rightarrow> u32 \<Rightarrow> (i32 \<times> 'a fsys_scheme) res" where
  "dir_remove s parent_dir child_dir =
     rbind (get_dir s child_dir) (\<lambda>d. rbind (get_inode s (dir_inode d)) (\<lambda>i.
       if \<exists>b \<in> set (slice (i_sectors i) 1 12). b \<noteq> 0 then Inl Panic
       else
         let (io_buf, s) = fs_malloc s
         in if io_buf = NULL then Inr (-1, s)
            else rbind (delete_dir_entry s parent_dir (i_no i) (replicate 1024 0)) (\<lambda>(_, s).
              rbind (inode_release s (i_no i)) (\<lambda>s. rbind (fs_free s io_buf) (\<lambda>s. Inr (0, s))))))"

section \<open>What a search finds\<close>

text \<open>
  \<open>hit buf name k\<close>: from entry \<open>k\<close> on the buffer reads as the string \<open>name\<close>, final zero included.
  For a name of 16 characters that zero would have to be the first byte of the inode number.
\<close>

definition hit :: "u8 list \<Rightarrow> u8 list \<Rightarrow> nat \<Rightarrow> bool" where
  "hit buf name k \<longleftrightarrow> take (Suc (length name)) (drop (24 * k) buf) = name @ [0]"

definition find_in :: "u8 list \<Rightarrow> u8 list \<Rightarrow> u8 list option" where
  "find_in buf name = map_option (\<lambda>k. slice buf (24 * k) 24) (List.find (hit buf name) [0..<21])"

fun lookup :: "'a fsys_scheme \<Rightarrow> u32 list \<Rightarrow> u8 list \<Rightarrow> u8 list option" where
  "lookup s [] name = None"
| "lookup s (b # bs) name =
     (if b = 0 then lookup s bs name
      else case find_in (sectors s b) name of Some e \<Rightarrow> Some e | None \<Rightarrow> lookup s bs name)"

lemma strcmp_bounded:
  assumes "terminated b" and "length (cstr b) < length a"
  shows "\<exists>r. strcmp (Some a) (Some b) = Inr r \<and> (r = 0 \<longleftrightarrow> take (Suc (length (cstr b))) a = cstr b @ [0])"
proof -
  have "\<exists>r. strcmp_loop a b = Inr r \<and> (r = 0 \<longleftrightarrow> take (Suc (length (cstr b))) a = cstr b @ [0])"
    using assms
  proof (induction a b rule: strcmp_loop.induct)
    case (1 a as b bs)
    show ?case
    proof (cases "a \<noteq> 0 \<and> a = b")
      case True
      with 1 show ?thesis by auto
    next
      case False
      have "\<not> sint a < sint b \<and> \<not> sint a > sint b \<longleftrightarrow> a = b"
        by (metis linorder_neqE_linordered_idom order_less_irrefl sint_eq_iff_word)
      with False show ?thesis by auto
    qed
  qed auto
  then show ?thesis by simp
qed

lemma find_shift: "List.find P (map f xs) = map_option f (List.find (P \<circ> f) xs)"
  by (induction xs) auto

lemma search_block_spec:
  assumes "terminated name" and "length (cstr name) < 24" and "24 * n \<le> length buf"
  shows "search_block buf n name 24 =
           Inr (map_option (\<lambda>k. slice buf (24 * k) 24) (List.find (hit buf (cstr name)) [0..<n]))"
  using assms(3)
proof (induction n arbitrary: buf)
  case (Suc n)
  have len: "24 \<le> length buf" using Suc.prems by simp
  then obtain r where r: "strcmp (Some buf) (Some name) = Inr r"
    "r = 0 \<longleftrightarrow> take (Suc (length (cstr name))) buf = cstr name @ [0]"
    using strcmp_bounded [OF assms(1), of buf] assms(2) by auto
  have upt: "[0..<Suc n] = 0 # map Suc [0..<n]" by (simp add: upt_conv_Cons map_Suc_upt del: upt_Suc)
  have h: "hit buf (cstr name) \<circ> Suc = hit (drop 24 buf) (cstr name)"
    by (simp add: fun_eq_iff hit_def add.commute)
  have sl: "(\<lambda>k. slice buf (24 * k) 24) \<circ> Suc = (\<lambda>k. slice (drop 24 buf) (24 * k) 24)"
    by (simp add: fun_eq_iff slice_def add.commute)
  show ?case
  proof (cases "r = 0")
    case True
    then show ?thesis
      using r len by (simp add: upt hit_def slice_def del: strcmp.simps upt_Suc)
  next
    case False
    then have "search_block buf (Suc n) name 24 = search_block (drop 24 buf) n name 24"
      using r(1) by (simp del: strcmp.simps)
    also have "\<dots> = Inr (map_option (\<lambda>k. slice (drop 24 buf) (24 * k) 24)
        (List.find (hit (drop 24 buf) (cstr name)) [0..<n]))"
      using Suc.prems by (intro Suc.IH) simp
    also have "\<dots> = Inr (map_option (\<lambda>k. slice buf (24 * k) 24) (List.find (hit buf (cstr name)) (map Suc [0..<n])))"
      by (simp add: find_shift h sl option.map_comp)
    also have "\<dots> = Inr (map_option (\<lambda>k. slice buf (24 * k) 24) (List.find (hit buf (cstr name)) [0..<Suc n]))"
      using False r(2) by (simp add: upt hit_def del: upt_Suc)
    finally show ?thesis .
  qed
qed simp

lemma search_blocks_spec:
  assumes "disk_ok s" and "terminated name" and "length (cstr name) < 24" and "\<forall>b \<in> set bs. b \<noteq> 0 \<longrightarrow> b \<le> max_lba"
  shows "search_blocks s bs name 24 = Inr (lookup s bs (cstr name))"
  using assms(4)
proof (induction bs)
  case (Cons b bs)
  show ?case
  proof (cases "b = 0")
    case False
    then have rd: "disk_read s b 1 = Inr (sectors s b)" using Cons.prems by (intro disk_read_one) simp
    have "search_block (sectors s b) 21 name 24 = Inr (find_in (sectors s b) (cstr name))"
      using search_block_spec [OF assms(2,3), of 21 "sectors s b"] assms(1) by (simp add: find_in_def)
    with False rd Cons show ?thesis by (auto split: option.split)
  qed (use Cons in simp)
qed simp

lemma find_in_None: "find_in buf name = None \<longleftrightarrow> (\<forall>k<21. \<not> hit buf name k)"
  by (auto simp: find_in_def find_None_iff)

lemma find_in_cong: "(\<And>k. k < 21 \<Longrightarrow> hit buf name k \<longleftrightarrow> hit buf' name k) \<Longrightarrow>
    (\<And>k. k < 21 \<Longrightarrow> hit buf name k \<Longrightarrow> slice buf (24 * k) 24 = slice buf' (24 * k) 24) \<Longrightarrow>
    find_in buf name = find_in buf' name"
proof -
  assume h: "\<And>k. k < 21 \<Longrightarrow> hit buf name k \<longleftrightarrow> hit buf' name k"
    and sl: "\<And>k. k < 21 \<Longrightarrow> hit buf name k \<Longrightarrow> slice buf (24 * k) 24 = slice buf' (24 * k) 24"
  have f: "List.find (hit buf name) [0..<21] = List.find (hit buf' name) [0..<21]"
    using h by (intro find_cong) auto
  show ?thesis
  proof (cases "List.find (hit buf name) [0..<21]")
    case (Some k)
    then have "k < 21" "hit buf name k" by (auto simp: find_Some_iff)
    with Some f sl show ?thesis by (simp add: find_in_def)
  qed (use f in \<open>simp add: find_in_def\<close>)
qed

lemma find_in_only:
  assumes "hit buf name k" and "k < 21" and "\<And>j. j < 21 \<Longrightarrow> j \<noteq> k \<Longrightarrow> \<not> hit buf name j"
  shows "find_in buf name = Some (slice buf (24 * k) 24)"
proof -
  have "List.find (hit buf name) [0..<21] = Some k"
    unfolding find_Some_iff using assms by (intro exI [of _ k]) auto
  then show ?thesis by (simp add: find_in_def)
qed

lemma lookup_cong:
  "(\<And>b. b \<in> set bs \<Longrightarrow> b \<noteq> 0 \<Longrightarrow> find_in (sectors s b) name = find_in (sectors s' b) name) \<Longrightarrow>
   lookup s bs name = lookup s' bs name"
  by (induction bs) (auto split: option.split)

lemma lookup_append: "lookup s (xs @ ys) name = (case lookup s xs name of Some e \<Rightarrow> Some e | None \<Rightarrow> lookup s ys name)"
  by (induction xs) (auto split: option.split)

lemma lookup_None: "lookup s bs name = None \<longleftrightarrow> (\<forall>b \<in> set bs. b \<noteq> 0 \<longrightarrow> find_in (sectors s b) name = None)"
  by (induction bs) (auto split: option.split)

lemma lookup_zeros [simp]: "lookup s (replicate n 0) name = None"
  by (simp add: lookup_None)

section \<open>A new entry is found again\<close>

text \<open>The entries of a block and which of them are free.\<close>

definition slot_free :: "u8 list \<Rightarrow> nat \<Rightarrow> bool" where
  "slot_free buf k \<longleftrightarrow> entry_type buf k = Inr FT_UNKNOWN"

definition roomy :: "'a fsys_scheme \<Rightarrow> u32 \<Rightarrow> bool" where
  "roomy s b \<longleftrightarrow> b = 0 \<or> (\<exists>k<21. slot_free (sectors s b) k)"

lemma free_entry_spec:
  assumes "24 * (k + n) \<le> length buf"
  shows "free_entry buf k n = Inr (List.find (slot_free buf) [k..<k + n])"
  using assms
proof (induction n arbitrary: k)
  case (Suc n)
  obtain t where t: "entry_type buf k = Inr t"
    using rd32_in [of "24 * k + 20" buf] Suc.prems by (auto simp: entry_type_def)
  have "[k..<k + Suc n] = k # [Suc k..<Suc k + n]" by (simp add: upt_conv_Cons del: upt_Suc)
  with t Suc.IH [of "Suc k"] Suc.prems show ?case by (simp add: slot_free_def del: upt_Suc)
qed simp

lemma slot_free_cong:
  "24 * Suc k \<le> length buf \<Longrightarrow> 24 * Suc k \<le> length buf' \<Longrightarrow> slice buf (24 * k) 24 = slice buf' (24 * k) 24 \<Longrightarrow>
   entry_type buf k = entry_type buf' k"
  unfolding entry_type_def
proof (rule rd32_cong)
  assume l: "24 * Suc k \<le> length buf" "24 * Suc k \<le> length buf'" and s: "slice buf (24 * k) 24 = slice buf' (24 * k) 24"
  then show "24 * k + 20 + 4 \<le> length buf" "24 * k + 20 + 4 \<le> length buf'" by simp_all
  have "slice buf (24 * k + 20) 4 = slice (slice buf (24 * k) 24) 20 4" by (simp add: slice_slice)
  also have "\<dots> = slice buf' (24 * k + 20) 4" by (simp add: s slice_slice)
  finally show "slice buf (24 * k + 20) 4 = slice buf' (24 * k + 20) 4" .
qed

text \<open>The names stored in a directory's entries: no zero byte, not empty, at most 16 characters.\<close>

definition name_ok :: "u8 list \<Rightarrow> bool" where
  "name_ok nm \<longleftrightarrow> nm \<noteq> [] \<and> 0 \<notin> set nm \<and> length nm \<le> 16"

definition new_entry :: "u8 list \<Rightarrow> u32 \<Rightarrow> u32 \<Rightarrow> u8 list" where
  "new_entry nm ino t = enc_entry \<lparr>filename = nm @ replicate (16 - length nm) 0, de_ino = ino, f_type = t\<rparr>"

definition visible :: "u8 list \<Rightarrow> u32 \<Rightarrow> bool" where
  "visible nm ino \<longleftrightarrow> length nm \<le> 15 \<or> (ucast ino :: u8) = 0"

lemma length_new_entry [simp]: "length nm \<le> 16 \<Longrightarrow> length (new_entry nm ino t) = 24"
  by (simp add: new_entry_def enc_entry_def)

text \<open>A hit depends on the 24 bytes of the entry alone.\<close>

definition hit_entry :: "u8 list \<Rightarrow> u8 list \<Rightarrow> bool" where
  "hit_entry e nm \<longleftrightarrow> take (Suc (length nm)) e = nm @ [0]"

lemma hit_slice: "length nm \<le> 16 \<Longrightarrow> hit buf nm k \<longleftrightarrow> hit_entry (slice buf (24 * k) 24) nm"
  by (simp add: hit_def hit_entry_def slice_def min_def)

lemma hit_zero: "name_ok nm \<Longrightarrow> \<not> hit_entry (replicate 24 0) nm"
  by (cases nm) (auto simp: hit_entry_def name_ok_def)

lemma take_Suc_nth_eq: "n < length e \<Longrightarrow> take (Suc n) e = nm @ [c] \<longleftrightarrow> take n e = nm \<and> e ! n = c"
  by (simp add: take_Suc_conv_app_nth)

lemma hit_new_entry:
  assumes "name_ok nm" and "name_ok nm'"
  shows "hit_entry (new_entry nm ino t) nm' \<longleftrightarrow> nm' = nm \<and> visible nm ino"
proof -
  let ?n = "length nm" and ?n' = "length nm'" and ?e = "new_entry nm ino t"
  have l: "?n \<le> 16" "?n' \<le> 16" using assms by (simp_all add: name_ok_def)
  have e: "?e = nm @ replicate (16 - ?n) 0 @ le32 ino @ le32 t" by (simp add: new_entry_def enc_entry_def)
  have nz: "nm ! j \<noteq> 0" if "j < ?n" for j using that assms(1) by (auto simp: name_ok_def in_set_conv_nth)
  have nz': "nm' ! j \<noteq> 0" if "j < ?n'" for j using that assms(2) by (auto simp: name_ok_def in_set_conv_nth)
  have "hit_entry ?e nm' \<longleftrightarrow> take ?n' ?e = nm' \<and> ?e ! ?n' = 0"
    unfolding hit_entry_def using l by (intro take_Suc_nth_eq) simp
  also have "\<dots> \<longleftrightarrow> nm' = nm \<and> ?e ! ?n = 0"
  proof
    assume h: "take ?n' ?e = nm' \<and> ?e ! ?n' = 0"
    consider "?n' < ?n" | "?n < ?n'" | "?n' = ?n" by linarith
    then show "nm' = nm \<and> ?e ! ?n = 0"
    proof cases
      case 1
      then have "?e ! ?n' = nm ! ?n'" by (simp add: e nth_append)
      with h nz [OF 1] show ?thesis by simp
    next
      case 2
      then have "?e ! ?n = 0" using l by (simp add: e nth_append)
      moreover have "?e ! ?n = nm' ! ?n" using h 2 by (metis nth_take)
      ultimately show ?thesis using nz' [OF 2] by simp
    next
      case 3
      moreover have "take ?n ?e = nm" by (simp add: e)
      ultimately show ?thesis using h by metis
    qed
  next
    assume h: "nm' = nm \<and> ?e ! ?n = 0"
    moreover have "take ?n ?e = nm" by (simp add: e)
    ultimately show "take ?n' ?e = nm' \<and> ?e ! ?n' = 0" by blast
  qed
  also have "?e ! ?n = 0 \<longleftrightarrow> visible nm ino"
    using l by (cases "?n = 16") (simp_all add: e nth_append visible_def le32_def)
  finally show ?thesis .
qed

lemma slot_of_new_entry:
  "24 * k + 24 \<le> length buf \<Longrightarrow> length nm \<le> 16 \<Longrightarrow> slice buf (24 * k) 24 = new_entry nm ino t \<Longrightarrow> entry_type buf k = Inr t"
  unfolding entry_type_def
proof (rule rd32_le32)
  assume l: "24 * k + 24 \<le> length buf" "length nm \<le> 16" and e: "slice buf (24 * k) 24 = new_entry nm ino t"
  show "24 * k + 20 + 4 \<le> length buf" using l by simp
  have "slice buf (24 * k + 20) 4 = slice (slice buf (24 * k) 24) 20 4" by (simp add: slice_slice)
  also have "\<dots> = le32 t" using l(2) unfolding e by (simp add: new_entry_def enc_entry_def slice_def)
  finally show "slice buf (24 * k + 20) 4 = le32 t" .
qed

text \<open>Writing an entry into a free slot of a block.\<close>

lemma put_entry_hits:
  assumes "length buf = 512" and "k < 21" and "slice buf (24 * k) 24 = replicate 24 0"
    and "name_ok nm" and "name_ok nm'" and "j < 21"
  shows "hit (overlay buf (24 * k) (new_entry nm ino t)) nm' j \<longleftrightarrow>
           (if j = k then nm' = nm \<and> visible nm ino else hit buf nm' j)"
    and "j \<noteq> k \<Longrightarrow> slice (overlay buf (24 * k) (new_entry nm ino t)) (24 * j) 24 = slice buf (24 * j) 24"
proof -
  have l: "length nm \<le> 16" "length nm' \<le> 16" using assms(4,5) by (simp_all add: name_ok_def)
  show other: "j \<noteq> k \<Longrightarrow> slice (overlay buf (24 * k) (new_entry nm ino t)) (24 * j) 24 = slice buf (24 * j) 24"
  proof (rule slice_overlay_other)
    assume "j \<noteq> k"
    then have "j < k \<or> k < j" by auto
    then show "24 * j + 24 \<le> 24 * k \<or> 24 * k + length (new_entry nm ino t) \<le> 24 * j" using l by auto
  qed (use assms(1,2,6) l in simp_all)
  have here: "slice (overlay buf (24 * k) (new_entry nm ino t)) (24 * k) 24 = new_entry nm ino t"
    using assms(1,2) l by (intro slice_overlay_same) simp_all
  show "hit (overlay buf (24 * k) (new_entry nm ino t)) nm' j \<longleftrightarrow>
           (if j = k then nm' = nm \<and> visible nm ino else hit buf nm' j)"
    using other here l by (simp add: hit_slice hit_new_entry [OF assms(4,5)])
qed

lemma put_entry_find:
  assumes "length buf = 512" and "k < 21" and "slice buf (24 * k) 24 = replicate 24 0"
    and "name_ok nm" and "name_ok nm'" and "find_in buf nm = None"
  shows "find_in (overlay buf (24 * k) (new_entry nm ino t)) nm' =
           (if nm' = nm \<and> visible nm ino then Some (new_entry nm ino t) else find_in buf nm')"
proof (cases "nm' = nm \<and> visible nm ino")
  case True
  have "\<forall>j<21. \<not> hit buf nm j" using assms(6) by (simp add: find_in_None)
  then have "find_in (overlay buf (24 * k) (new_entry nm ino t)) nm' =
      Some (slice (overlay buf (24 * k) (new_entry nm ino t)) (24 * k) 24)"
    using True assms(2) put_entry_hits(1) [OF assms(1-5)] by (intro find_in_only) auto
  moreover have "slice (overlay buf (24 * k) (new_entry nm ino t)) (24 * k) 24 = new_entry nm ino t"
    using assms(1,2,4) by (intro slice_overlay_same) (simp_all add: name_ok_def)
  ultimately show ?thesis using True by simp
next
  case False
  have nk: "\<not> hit buf nm' k" using hit_slice [of nm' buf k] hit_zero [OF assms(5)] assms(3,5) by (simp add: name_ok_def)
  have "find_in (overlay buf (24 * k) (new_entry nm ino t)) nm' = find_in buf nm'"
  proof (rule find_in_cong)
    fix j assume j: "j < (21 :: nat)"
    show "hit (overlay buf (24 * k) (new_entry nm ino t)) nm' j \<longleftrightarrow> hit buf nm' j"
      using put_entry_hits(1) [OF assms(1-5) j] nk False by auto
    assume "hit (overlay buf (24 * k) (new_entry nm ino t)) nm' j"
    then have "j \<noteq> k" using put_entry_hits(1) [OF assms(1-5) j] False by auto
    then show "slice (overlay buf (24 * k) (new_entry nm ino t)) (24 * j) 24 = slice buf (24 * j) 24"
      using put_entry_hits(2) [OF assms(1-5) j] by blast
  qed
  with False show ?thesis by (simp only: if_False)
qed

lemma put_entry_lookup:
  assumes "b \<in> set bs" and "b \<noteq> 0" and "length (sectors s b) = 512" and "k < 21"
    and "slice (sectors s b) (24 * k) 24 = replicate 24 0" and "name_ok nm" and "name_ok nm'" and "lookup s bs nm = None"
    and "sectors s' b = overlay (sectors s b) (24 * k) (new_entry nm ino t)"
    and "\<And>c. c \<in> set bs \<Longrightarrow> c \<noteq> b \<Longrightarrow> sectors s' c = sectors s c"
  shows "lookup s' bs nm' = (if nm' = nm \<and> visible nm ino then Some (new_entry nm ino t) else lookup s bs nm')"
proof -
  have none: "find_in (sectors s b) nm = None" using assms(1,2,8) by (auto simp: lookup_None)
  note here = put_entry_find [OF assms(3-7) none, of ino t]
  show ?thesis
  proof (cases "nm' = nm \<and> visible nm ino")
    case True
    obtain xs ys where bs: "bs = xs @ b # ys" "b \<notin> set xs" using split_list_first [OF assms(1)] by blast
    have "lookup s xs nm = None" using assms(8) by (simp add: bs(1) lookup_append split: option.splits)
    moreover have "lookup s' xs nm = lookup s xs nm"
    proof (rule lookup_cong)
      fix c assume "c \<in> set xs"
      then have "c \<in> set bs" and "c \<noteq> b" using bs by auto
      then show "find_in (sectors s' c) nm = find_in (sectors s c) nm" using assms(10) by simp
    qed
    ultimately show ?thesis using True here assms(2,9) by (simp add: bs(1) lookup_append)
  next
    case False
    have "lookup s' bs nm' = lookup s bs nm'"
    proof (rule lookup_cong)
      fix c assume c: "c \<in> set bs"
      show "find_in (sectors s' c) nm' = find_in (sectors s c) nm'"
      proof (cases "c = b")
        case True
        then show ?thesis using assms(9) here False by (simp only: if_False)
      next
        case False
        then show ?thesis using assms(10) [OF c] by simp
      qed
    qed
    with False show ?thesis by (simp only: if_False)
  qed
qed

section \<open>Adding entries keeps directories well-formed\<close>

definition dir_blocks :: "inode \<Rightarrow> u32 list" where
  "dir_blocks i = take 12 (i_sectors i)"

definition clean :: "u8 list \<Rightarrow> bool" where
  "clean buf \<longleftrightarrow> (\<forall>k<21. slot_free buf k \<longrightarrow> slice buf (24 * k) 24 = replicate 24 0)"

definition dir_ok :: "'a fsys_scheme \<Rightarrow> inode \<Rightarrow> bool" where
  "dir_ok s i \<longleftrightarrow>
     length (i_sectors i) = 13 \<and> i_sectors i ! 12 = 0 \<and>
     (\<forall>b \<in> set (dir_blocks i). b \<noteq> 0 \<longrightarrow> block_used s b \<and> clean (sectors s b))"

lemma clean_put:
  assumes "clean buf" and "length buf = 512" and "k < 21" and "length nm \<le> 16" and "t \<noteq> 0"
  shows "clean (overlay buf (24 * k) (new_entry nm ino t))"
  unfolding clean_def
proof (intro allI impI)
  let ?o = "overlay buf (24 * k) (new_entry nm ino t)"
  fix j assume j: "j < 21" and f: "slot_free ?o j"
  have here: "slice ?o (24 * k) 24 = new_entry nm ino t"
    using assms(2-4) by (intro slice_overlay_same) simp_all
  have "entry_type ?o k = Inr t" using assms(2-4) here by (intro slot_of_new_entry) simp_all
  then have jk: "j \<noteq> k" using f assms(5) by (auto simp: slot_free_def FT_UNKNOWN_def)
  then have "j < k \<or> k < j" by auto
  then have sl: "slice ?o (24 * j) 24 = slice buf (24 * j) 24"
    using assms(2-4) j by (intro slice_overlay_other) auto
  have "entry_type ?o j = entry_type buf j"
    using assms(2-4) j sl by (intro slot_free_cong) simp_all
  with f have "slot_free buf j" by (simp add: slot_free_def)
  with assms(1) j sl show "slice ?o (24 * j) 24 = replicate 24 0" by (simp add: clean_def)
qed

lemma clean_zero [simp]: "clean (replicate 512 0)"
  by (simp add: clean_def slice_def)

lemma find_in_zero: "name_ok nm \<Longrightarrow> find_in (replicate 512 0) nm = None"
  using hit_zero [of nm] by (auto simp: find_in_None hit_slice name_ok_def slice_def)

text \<open>The search as the code performs it, on a directory without indirect blocks.\<close>

lemma dir_ok_blocks:
  "fs_ok s \<Longrightarrow> dir_ok s i \<Longrightarrow> b \<in> set (dir_blocks i) \<Longrightarrow> b \<noteq> 0 \<Longrightarrow> b \<le> max_lba \<and> data_start s \<le> b \<and> clean (sectors s b) \<and> block_used s b"
  unfolding dir_ok_def by (blast intro: block_used_bounds)

lemma name_string: "name_ok nm \<Longrightarrow> terminated (nm @ [0]) \<and> cstr (nm @ [0]) = nm \<and> length nm < 24"
  using cstr_append_zero [of nm "[]"] terminated_append_zero [of nm "[]"] by (simp add: name_ok_def)

lemma search_finds_lookup:
  assumes "fs_ok s" and "get_dir s dp = Inr d" and "get_inode s (dir_inode d) = Inr i" and "dir_ok s i"
    and "two_mallocs s p b ms" and "p \<notin> allocated s" and "name_ok nm"
  shows "search_dir_entry s dp (nm @ [0]) = Inr (lookup s (dir_blocks i) nm, s\<lparr>mallocs := ms\<rparr>)"
proof -
  let ?s = "s\<lparr>mallocs := ms, allocated := insert b (insert p (allocated s))\<rparr>"
  let ?ab = "dir_blocks i @ replicate 128 0"
  have ms: "mallocs s = p # b # ms" "p \<noteq> NULL" "b \<noteq> NULL" "p \<noteq> b" "b \<notin> allocated s"
    using assms(5) by (simp_all add: two_mallocs_def)
  have ab: "all_blocks_of x i = Inr ?ab" for x :: "'a fsys_scheme"
    using assms(4) by (simp add: all_blocks_of_def dir_blocks_def dir_ok_def)
  have gd: "get_dir (s\<lparr>mallocs := m, allocated := insert p (allocated s)\<rparr>) dp = Inr d" for m
    using assms(2) by (auto simp: get_dir_def split: if_splits)
  have gi: "get_inode (s\<lparr>mallocs := m, allocated := insert p (allocated s)\<rparr>) (dir_inode d) = Inr i" for m
    using assms(3) by (auto simp: get_inode_def split: if_splits)
  have "\<forall>c \<in> set ?ab. c \<noteq> 0 \<longrightarrow> c \<le> max_lba"
    using dir_ok_blocks [OF assms(1,4)] by auto
  moreover have "disk_ok ?s" using fs_ok_disk [OF assms(1)] by (simp add: disk_ok_def)
  ultimately have sb: "search_blocks ?s ?ab (nm @ [0]) 24 = Inr (lookup ?s ?ab nm)"
    using search_blocks_spec [of ?s "nm @ [0]" ?ab] name_string [OF assms(7)] by simp
  have lk: "lookup ?s ?ab nm = lookup s (dir_blocks i) nm"
  proof -
    have "lookup ?s ?ab nm = lookup ?s (dir_blocks i) nm" by (simp add: lookup_append split: option.split)
    also have "\<dots> = lookup s (dir_blocks i) nm" by (rule lookup_cong) simp
    finally show ?thesis .
  qed
  have esz: "dir_entry_size (sb (part s)) = 24" using assms(1) by (simp add: fs_ok_def)
  have fr: "insert b (insert p (allocated s)) - {b} - {p} = allocated s"
    using ms(4,5) assms(6) by auto
  show ?thesis
    using sb esz ms gd gi fr assms(6)
    by (simp add: search_dir_entry_def fs_malloc_def ab Let_def lk fs_free_def)
qed

text \<open>The loop of \<open>sync_dir_entry\<close> passes over the blocks that are full.\<close>

lemma sync_loop_skips:
  assumes "disk_ok s" and "dir_entry_size (sb (part s)) = 24" and "512 \<le> length io_buf"
    and "\<forall>j<m. bs ! (idx + j) \<noteq> 0 \<and> bs ! (idx + j) \<le> max_lba \<and> \<not> roomy s (bs ! (idx + j))"
  shows "\<exists>io. length io = length io_buf \<and>
           sync_loop s ip p_de io_buf bs idx (m + n) = sync_loop s ip p_de io bs (idx + m) n"
  using assms(3,4)
proof (induction m arbitrary: idx io_buf)
  case (Suc m)
  let ?b = "bs ! idx"
  have b: "?b \<noteq> 0" "?b \<le> max_lba" "\<not> roomy s ?b" using Suc.prems(2) by (auto dest: spec [of _ 0])
  let ?io = "overlay io_buf 0 (sectors s ?b)"
  have sl: "length (sectors s ?b) = 512" using assms(1) by simp
  have len: "length ?io = length io_buf" using Suc.prems(1) sl by simp
  have full: "free_entry ?io 0 21 = Inr None"
  proof -
    have "\<not> slot_free ?io k" if "k < 21" for k
    proof -
      have "slice ?io (24 * k) 24 = slice (take 512 ?io) (24 * k) 24"
        using that by (simp add: slice_def take_drop min_def)
      also have "take 512 ?io = sectors s ?b" using sl by (simp add: overlay_def)
      finally have "entry_type ?io k = entry_type (sectors s ?b) k"
        using that len Suc.prems(1) sl by (intro slot_free_cong) simp_all
      with b that show ?thesis by (auto simp: roomy_def slot_free_def)
    qed
    then show ?thesis using free_entry_spec [of 0 21 ?io] len Suc.prems(1) by (simp add: find_None_iff)
  qed
  have "sync_loop s ip p_de io_buf bs idx (Suc m + n) = sync_loop s ip p_de ?io bs (Suc idx) (m + n)"
    using b assms(2) full Suc.prems(1) sl by (simp add: disk_read_one)
  moreover have "\<forall>j<m. bs ! (Suc idx + j) \<noteq> 0 \<and> bs ! (Suc idx + j) \<le> max_lba \<and> \<not> roomy s (bs ! (Suc idx + j))"
  proof (intro allI impI)
    fix j assume "j < m"
    then show "bs ! (Suc idx + j) \<noteq> 0 \<and> bs ! (Suc idx + j) \<le> max_lba \<and> \<not> roomy s (bs ! (Suc idx + j))"
      using Suc.prems(2) [rule_format, of "Suc j"] by simp
  qed
  moreover obtain io where "length io = length ?io"
    "sync_loop s ip p_de ?io bs (Suc idx) (m + n) = sync_loop s ip p_de io bs (Suc idx + m) n"
    using Suc.IH [of ?io "Suc idx"] Suc.prems(1) len calculation(2) by auto
  ultimately show ?case using len by auto
qed auto

text \<open>The first block with room: an entry of an existing block is overwritten, or a new block begins with it.\<close>

lemma sync_existing:
  assumes "fs_ok s" and "bs ! k = b" and "b \<noteq> 0" and "b \<le> max_lba" and "clean (sectors s b)" and "roomy s b"
    and "512 \<le> length io_buf" and "length e = 24"
  shows "\<exists>j<21. slice (sectors s b) (24 * j) 24 = replicate 24 0 \<and>
           sync_loop s ip e io_buf bs k (Suc n) =
             Inr (True, grow_inode (s\<lparr>sectors := (sectors s)(b := overlay (sectors s b) (24 * j) e)\<rparr>) ip 24)"
proof -
  have esz: "dir_entry_size (sb (part s)) = 24" and sl: "length (sectors s b) = 512"
    using assms(1) fs_ok_disk [OF assms(1)] by (simp_all add: fs_ok_def)
  let ?io = "overlay io_buf 0 (sectors s b)"
  have len: "length ?io = length io_buf" and tk: "take 512 ?io = sectors s b"
    using assms(7) sl by (simp_all add: overlay_def)
  have same: "slot_free ?io j \<longleftrightarrow> slot_free (sectors s b) j" if "j < 21" for j
  proof -
    have "slice ?io (24 * j) 24 = slice (take 512 ?io) (24 * j) 24"
      using that by (simp add: slice_def take_drop min_def)
    then have "entry_type ?io j = entry_type (sectors s b) j"
      unfolding tk using that len assms(7) sl by (intro slot_free_cong) simp_all
    then show ?thesis by (simp add: slot_free_def)
  qed
  have "\<exists>j<21. slot_free (sectors s b) j" using assms(3,6) by (auto simp: roomy_def)
  then have "List.find (slot_free ?io) [0..<21] \<noteq> None" using same by (auto simp: find_None_iff)
  then obtain j where j: "List.find (slot_free ?io) [0..<21] = Some j" by blast
  then have j21: "j < 21" and jf: "slot_free ?io j" by (auto simp: find_Some_iff)
  have fe: "free_entry ?io 0 21 = Inr (Some j)"
    using free_entry_spec [of 0 21 ?io] len assms(7) j by simp
  have "take 512 (overlay ?io (24 * j) e) = overlay (sectors s b) (24 * j) e"
    using overlay_overlay_front [of "sectors s b" io_buf "24 * j" e] sl assms(7,8) j21 by simp
  moreover have "disk_write s b (overlay ?io (24 * j) e) 1 = Inr (s\<lparr>sectors := (sectors s)(b := take 512 (overlay ?io (24 * j) e))\<rparr>)"
    using assms(4,7,8) len j21 by (intro disk_write_first) simp_all
  ultimately have wr: "disk_write s b (overlay ?io (24 * j) e) 1 = Inr (s\<lparr>sectors := (sectors s)(b := overlay (sectors s b) (24 * j) e)\<rparr>)"
    by simp
  have "sync_loop s ip e io_buf bs k (Suc n) =
      Inr (True, grow_inode (s\<lparr>sectors := (sectors s)(b := overlay (sectors s b) (24 * j) e)\<rparr>) ip 24)"
    using assms(2-4,7,8) esz fe sl len j21 wr by (simp add: disk_read_one)
  moreover have "slice (sectors s b) (24 * j) 24 = replicate 24 0"
    using assms(5) same [OF j21] jf j21 by (simp add: clean_def)
  ultimately show ?thesis using j21 by blast
qed

lemma sync_new_block:
  assumes "fs_ok s" and "free_bits (blocks s) \<noteq> {}" and "bs ! k = 0" and "k < 12" and "k < length bs"
    and "512 \<le> length io_buf" and "length e = 24"
  shows "\<exists>m s2. took s m s2 \<and>
           sync_loop s ip e io_buf bs k (Suc n) =
             Inr (True, grow_inode ((set_sector s2 ip k (block_addr s m))
               \<lparr>sectors := (sectors s2)(block_addr s m := overlay (replicate 512 0) 0 e)\<rparr>) ip 24)"
proof -
  obtain m s1 s2 where al: "block_bitmap_alloc s = Inr (block_addr s m, s1)" "data_start_lba (sb (part s1)) = data_start s"
    "bitmap_sync s1 (block_addr s m - data_start s) BLOCK_BITMAP = Inr s2" "took s m s2"
    using take_block [OF assms(1,2)] by blast
  let ?b = "block_addr s m" and ?s3 = "set_sector s2 ip k (block_addr s m)"
  have b: "?b \<noteq> -1" "?b \<le> max_lba" using block_addr_bounds [OF assms(1) tookD(11) [OF al(4)]] by simp_all
  have esz: "dir_entry_size (sb (part ?s3)) = 24"
    using tookD(8) [OF al(4)] by (simp add: fs_ok_def set_sector_def upd_inode_def)
  let ?io = "overlay (overlay io_buf 0 (replicate 512 0)) 0 e"
  have len: "length ?io = length io_buf" using assms(6,7) by simp
  have tk: "take 512 ?io = overlay (replicate 512 0) 0 e"
    using overlay_overlay_front [of "replicate 512 0" io_buf 0 e] assms(6,7) by simp
  have wr: "disk_write ?s3 ?b ?io 1 = Inr (?s3\<lparr>sectors := (sectors ?s3)(?b := overlay (replicate 512 0) 0 e)\<rparr>)"
    using disk_write_first [of ?b ?io ?s3] b(2) assms(6) len tk by simp
  have sec: "sectors ?s3 = sectors s2" by (simp add: set_sector_def upd_inode_def)
  show ?thesis
    using al assms(3-7) b(1) esz wr len sec
    by (intro exI [of _ m] exI [of _ s2]) (simp add: new_dir_block_def attach_block_def)
qed

lemma lookup_fresh_block:
  assumes "k < length bs" and "bs ! k = 0" and "find_in (sectors s' b) nm = None"
    and "\<And>c. c \<in> set bs \<Longrightarrow> c \<noteq> 0 \<Longrightarrow> find_in (sectors s' c) nm = find_in (sectors s c) nm"
  shows "lookup s' (bs[k := b]) nm = lookup s bs nm"
proof -
  have bs: "bs = take k bs @ 0 # drop (Suc k) bs" using id_take_nth_drop [OF assms(1)] assms(2) by simp
  have upd: "bs[k := b] = take k bs @ b # drop (Suc k) bs" by (rule upd_conv_take_nth_drop [OF assms(1)])
  have c1: "lookup s' (take k bs) nm = lookup s (take k bs) nm"
    by (rule lookup_cong) (use assms(4) in \<open>auto dest: in_set_takeD\<close>)
  have c2: "lookup s' (drop (Suc k) bs) nm = lookup s (drop (Suc k) bs) nm"
    by (rule lookup_cong) (use assms(4) in \<open>auto dest: in_set_dropD\<close>)
  have "lookup s bs nm = lookup s (take k bs @ 0 # drop (Suc k) bs) nm" using bs by simp
  then show ?thesis using assms(3) c1 c2 unfolding upd by (simp add: lookup_append split: option.split)
qed

definition gained :: "'a fsys_scheme \<Rightarrow> inode \<Rightarrow> 'a fsys_scheme \<Rightarrow> inode \<Rightarrow> u8 list \<Rightarrow> u32 \<Rightarrow> u32 \<Rightarrow> bool" where
  "gained s i s' i' nm ino t \<longleftrightarrow>
     fs_ok s' \<and> dir_ok s' i' \<and> i_size i' = i_size i + 24 \<and> i_no i' = i_no i \<and>
     (\<forall>nm'. name_ok nm' \<longrightarrow> lookup s' (dir_blocks i') nm' =
        (if nm' = nm \<and> visible nm ino then Some (new_entry nm ino t) else lookup s (dir_blocks i) nm'))"

lemma length_dir_blocks: "dir_ok s i \<Longrightarrow> length (dir_blocks i) = 12"
  by (simp add: dir_ok_def dir_blocks_def)

lemma gain_existing:
  assumes "fs_ok s" and "dir_ok s i" and "b \<in> set (dir_blocks i)" and "b \<noteq> 0" and "j < 21"
    and "slice (sectors s b) (24 * j) 24 = replicate 24 0" and "name_ok nm" and "t \<noteq> 0" and "lookup s (dir_blocks i) nm = None"
  shows "gained s i (grow_inode (s\<lparr>sectors := (sectors s)(b := overlay (sectors s b) (24 * j) (new_entry nm ino t))\<rparr>) ip 24)
           (i\<lparr>i_size := i_size i + 24\<rparr>) nm ino t"
proof -
  let ?o = "overlay (sectors s b) (24 * j) (new_entry nm ino t)"
  let ?s = "grow_inode (s\<lparr>sectors := (sectors s)(b := ?o)\<rparr>) ip 24"
  have nl: "length nm \<le> 16" using assms(7) by (simp add: name_ok_def)
  have sl: "length (sectors s b) = 512" using fs_ok_disk [OF assms(1)] by simp
  have lo: "length ?o = 512" using sl assms(5) nl by simp
  have sec: "sectors ?s = (sectors s)(b := ?o)" by (simp add: grow_inode_def upd_inode_def)
  have fs: "fs_ok ?s" using fs_ok_sector [OF assms(1) lo] by (simp add: grow_inode_def)
  have used: "block_used ?s c = block_used s c" for c
    by (simp add: block_used_def block_addr_def grow_inode_def)
  have "clean ?o" using dir_ok_blocks [OF assms(1,2,3,4)] clean_put [OF _ sl assms(5) nl assms(8), of ino] by simp
  then have "clean (sectors ?s c)" if "c \<in> set (dir_blocks i)" "c \<noteq> 0" for c
    using dir_ok_blocks [OF assms(1,2)] that by (simp add: sec)
  then have ok: "dir_ok ?s (i\<lparr>i_size := i_size i + 24\<rparr>)"
    using assms(2) by (simp add: dir_ok_def dir_blocks_def used)
  have "lookup ?s (dir_blocks i) nm' = (if nm' = nm \<and> visible nm ino then Some (new_entry nm ino t) else lookup s (dir_blocks i) nm')"
    if "name_ok nm'" for nm'
    by (rule put_entry_lookup [OF assms(3,4) sl assms(5,6,7) that assms(9)]) (simp_all add: sec)
  then show ?thesis using fs ok by (simp add: gained_def dir_blocks_def)
qed

lemma gain_new:
  assumes "fs_ok s" and "dir_ok s i" and "k < 12" and "i_sectors i ! k = 0" and "took s m s2"
    and "name_ok nm" and "t \<noteq> 0" and "lookup s (dir_blocks i) nm = None"
  shows "gained s i (grow_inode ((set_sector s2 ip k (block_addr s m))
               \<lparr>sectors := (sectors s2)(block_addr s m := overlay (replicate 512 0) 0 (new_entry nm ino t))\<rparr>) ip 24)
           (i\<lparr>i_sectors := (i_sectors i)[k := block_addr s m], i_size := i_size i + 24\<rparr>) nm ino t"
proof -
  let ?b = "block_addr s m" and ?o = "overlay (replicate 512 0) 0 (new_entry nm ino t)"
  let ?s = "grow_inode ((set_sector s2 ip k ?b)\<lparr>sectors := (sectors s2)(?b := ?o)\<rparr>) ip 24"
  let ?i = "i\<lparr>i_sectors := (i_sectors i)[k := ?b], i_size := i_size i + 24\<rparr>"
  let ?z = "s2\<lparr>sectors := (sectors s2)(?b := replicate 512 0)\<rparr>"
  have nl: "length nm \<le> 16" using assms(6) by (simp add: name_ok_def)
  have lo: "length ?o = 512" using nl by simp
  have sec: "sectors ?s = (sectors s2)(?b := ?o)" by (simp add: grow_inode_def set_sector_def upd_inode_def)
  have ok2: "fs_ok s2" by (rule tookD(8) [OF assms(5)])
  have "fs_ok ?s = fs_ok (s2\<lparr>sectors := (sectors s2)(?b := ?o)\<rparr>)"
    by (rule fs_ok_congs) (simp_all add: grow_inode_def set_sector_def upd_inode_def)
  then have fs: "fs_ok ?s" using fs_ok_sector [OF ok2 lo] by simp
  have used: "block_used ?s c \<longleftrightarrow> c = ?b \<or> block_used s c" for c
    using took_used [OF assms(5,1)] by (simp add: block_used_def block_addr_def grow_inode_def set_sector_def upd_inode_def blocks_def data_start_def)
  have new: "\<not> block_used s ?b" "?b \<noteq> 0"
    using tookD(12) [OF assms(5)] assms(1) block_addr_bounds [OF assms(1) tookD(11) [OF assms(5)]] by simp_all
  have db: "dir_blocks ?i = (dir_blocks i)[k := ?b]" by (simp add: dir_blocks_def take_update_swap)
  have kl: "k < length (dir_blocks i)" "dir_blocks i ! k = 0"
    using assms(2-4) by (simp_all add: length_dir_blocks) (simp add: dir_blocks_def)
  have old: "c \<noteq> ?b \<and> sectors s2 c = sectors s c \<and> clean (sectors s c) \<and> block_used s c" if "c \<in> set (dir_blocks i)" "c \<noteq> 0" for c
    using dir_ok_blocks [OF assms(1,2) that] new(1) took_data [OF assms(5)] by (auto simp: data_kept_def)
  have inb: "?b \<in> set (dir_blocks ?i)" unfolding db using kl(1) by (simp add: set_update_memI)
  have "clean ?o" using clean_put [of "replicate 512 0" 0 nm t ino] nl assms(7) by simp
  then have "block_used ?s c \<and> clean (sectors ?s c)" if "c \<in> set (dir_blocks ?i)" "c \<noteq> 0" for c
    using that old used set_update_subset_insert [of "dir_blocks i" k ?b] unfolding db sec by auto
  then have ok: "dir_ok ?s ?i" using assms(2,3) by (simp add: dir_ok_def)
  have z: "lookup ?z (dir_blocks ?i) nm' = lookup s (dir_blocks i) nm'" if "name_ok nm'" for nm'
    unfolding db by (rule lookup_fresh_block [OF kl]) (use old find_in_zero [OF that] in simp_all)
  have "lookup ?s (dir_blocks ?i) nm' = (if nm' = nm \<and> visible nm ino then Some (new_entry nm ino t) else lookup s (dir_blocks i) nm')"
    if "name_ok nm'" for nm'
    unfolding z [OF that, symmetric]
    by (rule put_entry_lookup [OF inb new(2), where k = 0]) (use that assms(6,8) z sec in \<open>simp_all add: slice_def\<close>)
  then show ?thesis using fs ok by (simp add: gained_def)
qed

lemma create_dir_entry_new:
  assumes "name_ok nm"
  shows "create_dir_entry (nm @ [0]) ino ft (replicate 24 0) = Inr (new_entry nm ino (ucast ft))"
proof -
  have l: "length nm \<le> 16" and s: "strlen (Some (nm @ [0])) = Inr (of_nat (length nm))"
    using assms name_string [OF assms] strlen_eq [of "nm @ [0]"] by (simp_all add: name_ok_def)
  have u: "unat (of_nat (length nm) :: u32) = length nm" using l by (intro unat_of_nat_small) simp
  have le: "(of_nat (length nm) :: u32) \<le> 16" using l by (simp add: unat_le_iff u)
  let ?f = "nm @ replicate (16 - length nm) 0"
  have f: "length ?f = 16" using l by simp
  have "blit (replicate 24 0) 0 (take (length nm) (nm @ [0])) = Inr (?f @ replicate 8 0)"
    using l by (simp add: overlay_def flip: replicate_add)
  moreover have "blit (?f @ replicate 8 0) 16 (le32 ino) = Inr (?f @ le32 ino @ replicate 4 0)"
    using f by (subst blit_append) simp_all
  moreover have "blit (?f @ le32 ino @ replicate 4 0) 20 (le32 w) = Inr (?f @ le32 ino @ le32 w)" for w
    using blit_append [of 20 "?f @ le32 ino" "le32 w" "replicate 4 0"] f by simp
  ultimately show ?thesis
    unfolding create_dir_entry_def s new_entry_def enc_entry_def by (simp add: le u del: append_assoc)
qed

lemma sync_dir_entry_gains:
  assumes "fs_ok s" and "get_dir s dp = Inr d" and "get_inode s (dir_inode d) = Inr i" and "dir_ok s i" and "i_size i mod 24 = 0"
    and "name_ok nm" and "t \<noteq> 0" and "lookup s (dir_blocks i) nm = None"
    and "\<exists>c \<in> set (dir_blocks i). roomy s c" and "free_bits (blocks s) \<noteq> {}" and "512 \<le> length io_buf"
  shows "\<exists>s' i'. sync_dir_entry s dp (new_entry nm ino t) io_buf = Inr (True, s') \<and> gained s i s' i' nm ino t \<and>
           get_inode s' (dir_inode d) = Inr i' \<and> dirs s' = dirs s \<and> mallocs s' = mallocs s \<and> allocated s' = allocated s"
proof -
  let ?ip = "dir_inode d" and ?e = "new_entry nm ino t" and ?ab = "dir_blocks i @ replicate 128 0"
  have i: "inodes s ?ip = i" "?ip \<in> allocated s" using assms(3) by (auto simp: get_inode_def split: if_splits)
  have esz: "dir_entry_size (sb (part s)) = 24" using assms(1) by (simp add: fs_ok_def)
  have le: "length ?e = 24" using assms(6) by (simp add: name_ok_def)
  have l12: "length (dir_blocks i) = 12" by (rule length_dir_blocks [OF assms(4)])
  have "\<exists>k<12. roomy s (dir_blocks i ! k)" using assms(9) l12 by (auto simp: in_set_conv_nth)
  then obtain k where "k < 12 \<and> roomy s (dir_blocks i ! k) \<and> (\<forall>j<k. \<not> (j < 12 \<and> roomy s (dir_blocks i ! j)))"
    by (subst (asm) exists_least_iff) blast
  then have k: "k < 12" "roomy s (dir_blocks i ! k)" "\<forall>j<k. \<not> roomy s (dir_blocks i ! j)" by auto
  have ab: "?ab ! j = dir_blocks i ! j" if "j < 12" for j using that l12 by (simp add: nth_append)
  have mem: "dir_blocks i ! j \<in> set (dir_blocks i)" if "j < 12" for j using that l12 by simp
  have full: "\<forall>j<k. ?ab ! (0 + j) \<noteq> 0 \<and> ?ab ! (0 + j) \<le> max_lba \<and> \<not> roomy s (?ab ! (0 + j))"
    using k(1,3) dir_ok_blocks [OF assms(1,4) mem] by (auto simp: ab roomy_def)
  have cnt: "k + Suc (139 - k) = 140" using k(1) by simp
  obtain io where io: "length io = length io_buf"
    "sync_loop s ?ip ?e io_buf ?ab 0 140 = sync_loop s ?ip ?e io ?ab k (Suc (139 - k))"
    using sync_loop_skips [OF fs_ok_disk [OF assms(1)] esz assms(11) full, of ?ip ?e "Suc (139 - k)"] cnt by auto
  have run: "sync_dir_entry s dp ?e io_buf = sync_loop s ?ip ?e io ?ab k (Suc (139 - k))"
    using assms(2,3,5) esz io(2) by (simp add: sync_dir_entry_def dir_blocks_def)
  have io512: "512 \<le> length io" using io(1) assms(11) by simp
  show ?thesis
  proof (cases "dir_blocks i ! k = 0")
    case False
    let ?b = "dir_blocks i ! k"
    have b: "?b \<le> max_lba" "clean (sectors s ?b)" using dir_ok_blocks [OF assms(1,4) mem [OF k(1)] False] by simp_all
    obtain j where j: "j < 21" "slice (sectors s ?b) (24 * j) 24 = replicate 24 0"
      "sync_loop s ?ip ?e io ?ab k (Suc (139 - k)) =
         Inr (True, grow_inode (s\<lparr>sectors := (sectors s)(?b := overlay (sectors s ?b) (24 * j) ?e)\<rparr>) ?ip 24)"
      using sync_existing [OF assms(1) ab [OF k(1)] False b k(2) io512 le] by blast
    let ?s = "grow_inode (s\<lparr>sectors := (sectors s)(?b := overlay (sectors s ?b) (24 * j) ?e)\<rparr>) ?ip 24"
    have "gained s i ?s (i\<lparr>i_size := i_size i + 24\<rparr>) nm ino t"
      by (rule gain_existing [OF assms(1,4) mem [OF k(1)] False j(1,2) assms(6-8)])
    moreover have "get_inode ?s ?ip = Inr (i\<lparr>i_size := i_size i + 24\<rparr>)" "dirs ?s = dirs s" "mallocs ?s = mallocs s" "allocated ?s = allocated s"
      using i by (simp_all add: get_inode_def grow_inode_def upd_inode_def)
    ultimately show ?thesis using run j(3) by metis
  next
    case True
    have z: "?ab ! k = 0" "k < length ?ab" "i_sectors i ! k = 0"
      using ab [OF k(1)] True k(1) l12 by (simp_all add: dir_blocks_def)
    obtain m s2 where m: "took s m s2" "sync_loop s ?ip ?e io ?ab k (Suc (139 - k)) =
        Inr (True, grow_inode ((set_sector s2 ?ip k (block_addr s m))
          \<lparr>sectors := (sectors s2)(block_addr s m := overlay (replicate 512 0) 0 ?e)\<rparr>) ?ip 24)"
      using sync_new_block [OF assms(1,10) z(1) k(1) z(2) io512 le] by blast
    let ?s = "grow_inode ((set_sector s2 ?ip k (block_addr s m))
          \<lparr>sectors := (sectors s2)(block_addr s m := overlay (replicate 512 0) 0 ?e)\<rparr>) ?ip 24"
    let ?i = "i\<lparr>i_sectors := (i_sectors i)[k := block_addr s m], i_size := i_size i + 24\<rparr>"
    have "gained s i ?s ?i nm ino t"
      by (rule gain_new [OF assms(1,4) k(1) z(3) m(1) assms(6-8)])
    moreover have "get_inode ?s ?ip = Inr ?i" "dirs ?s = dirs s" "mallocs ?s = mallocs s" "allocated ?s = allocated s"
      using i tookD(2,3,6,7) [OF m(1)] by (simp_all add: get_inode_def grow_inode_def set_sector_def upd_inode_def)
    ultimately show ?thesis using run m(2) by metis
  qed
qed

text \<open>
  C14: an entry put into a directory is found by its name, and so is every other.  The directory
  has no indirect blocks and room in or for one of its twelve direct blocks, the disk has a free
  block.  Then the entry \<open>create_dir_entry\<close> makes for a new name is stored by \<open>sync_dir_entry\<close>, the
  directory grows by one entry and stays well-formed, the search for the new name returns exactly
  that entry, and the search for any other name returns what it did before.  The one exception:
  a name of 16 characters leaves no room for the final zero, and is found only when the lowest
  byte of the inode number happens to be zero.
\<close>

theorem new_entry_found:
  assumes "fs_ok s" and "get_dir s dp = Inr d" and "get_inode s (dir_inode d) = Inr i" and "dir_ok s i" and "i_size i mod 24 = 0"
    and "two_mallocs s p b ms" and "p \<notin> allocated s" and "name_ok nm" and "ft \<noteq> 0"
    and "search_dir_entry s dp (nm @ [0]) = Inr (None, s0)"
    and "\<exists>c \<in> set (dir_blocks i). roomy s c" and "free_bits (blocks s) \<noteq> {}" and "512 \<le> length io_buf"
  shows "\<exists>e s' i'. create_dir_entry (nm @ [0]) ino ft (replicate 24 0) = Inr e \<and>
           sync_dir_entry s dp e io_buf = Inr (True, s') \<and>
           get_inode s' (dir_inode d) = Inr i' \<and> fs_ok s' \<and> dir_ok s' i' \<and> i_size i' = i_size i + 24 \<and>
           (\<forall>nm' r s1. name_ok nm' \<longrightarrow> search_dir_entry s dp (nm' @ [0]) = Inr (r, s1) \<longrightarrow>
              (\<exists>s2. search_dir_entry s' dp (nm' @ [0]) =
                 Inr (if nm' = nm \<and> (length nm \<le> 15 \<or> (ucast ino :: u8) = 0) then Some e else r, s2)))"
proof -
  let ?e = "new_entry nm ino (ucast ft)"
  have find: "search_dir_entry s dp (nm' @ [0]) = Inr (lookup s (dir_blocks i) nm', s\<lparr>mallocs := ms\<rparr>)" if "name_ok nm'" for nm'
    by (rule search_finds_lookup [OF assms(1-4,6,7) that])
  have none: "lookup s (dir_blocks i) nm = None" using find [OF assms(8)] assms(10) by simp
  have t: "(ucast ft :: u32) \<noteq> 0"
  proof
    assume "(ucast ft :: u32) = 0"
    then have "unat ft = 0" using unat_ucast_u8_u32 [of ft] by simp
    with assms(9) show False by (simp add: word_unat_eq_iff)
  qed
  obtain s' i' where s': "sync_dir_entry s dp ?e io_buf = Inr (True, s')" "gained s i s' i' nm ino (ucast ft)"
    "get_inode s' (dir_inode d) = Inr i'" "dirs s' = dirs s" "mallocs s' = mallocs s" "allocated s' = allocated s"
    using sync_dir_entry_gains [OF assms(1-5,8) t none assms(11-13)] by blast
  have g: "fs_ok s'" "dir_ok s' i'" "i_size i' = i_size i + 24"
    "\<And>nm'. name_ok nm' \<Longrightarrow> lookup s' (dir_blocks i') nm' =
       (if nm' = nm \<and> visible nm ino then Some ?e else lookup s (dir_blocks i) nm')"
    using s'(2) by (simp_all add: gained_def)
  have gd: "get_dir s' dp = Inr d" using assms(2) s'(4,6) by (auto simp: get_dir_def split: if_splits)
  have tm: "two_mallocs s' p b ms" "p \<notin> allocated s'" using assms(6,7) s'(5,6) by (simp_all add: two_mallocs_def)
  have "\<exists>s2. search_dir_entry s' dp (nm' @ [0]) = Inr (if nm' = nm \<and> (length nm \<le> 15 \<or> (ucast ino :: u8) = 0) then Some ?e else r, s2)"
    if "name_ok nm'" "search_dir_entry s dp (nm' @ [0]) = Inr (r, s1)" for nm' r s1
    using search_finds_lookup [OF g(1) gd s'(3) g(2) tm that(1)] g(4) [OF that(1)] find [OF that(1)] that(2)
    unfolding visible_def by auto
  with create_dir_entry_new [OF assms(8)] s'(1,3) g(1-3) show ?thesis by blast
qed

text \<open>A mounted partition whose root directory has its first block and nothing else in it.\<close>

definition some_root :: inode where
  "some_root = (inode_init 0)\<lparr>i_size := 48, i_sectors := 0x2a7 # replicate 12 0\<rparr>"

definition dir_fs :: fsys where
  "dir_fs = some_fs\<lparr>part := some_part\<lparr>block_bitmap := bitmap_of (1 # replicate 2559 0) 2560\<rparr>,
     inodes := (\<lambda>_. some_root), dirs := (\<lambda>_. \<lparr>dir_inode = 0xc0200000, dir_pos = 0, dir_buf = []\<rparr>),
     allocated := {0xc0200000}\<rparr>"

lemma dir_fs_ok: "fs_ok dir_fs"
  by (simp add: fs_ok_def disk_ok_def dir_fs_def some_fs_def some_part_def some_super_def blocks_def data_start_def
      max_lba_def bm_ok_def bm_size_def bitmap_of_def unat_le_iff)

lemma dir_fs_dir_ok: "dir_ok dir_fs some_root"
proof -
  have "block_used dir_fs 0x2a7"
    unfolding block_used_def
    by (rule exI [of _ 0])
      (simp add: block_addr_def data_start_def blocks_def dir_fs_def some_fs_def some_part_def some_super_def bm_bit_def bm_size_def bitmap_of_def)
  then show ?thesis
    by (simp add: dir_ok_def some_root_def dir_blocks_def dir_fs_def some_fs_def inode_init_def)
qed

theorem new_entry_found_witness:
  "\<exists>e s' s2. create_dir_entry [97, 0] 5 1 (replicate 24 0) = Inr e \<and>
     sync_dir_entry dir_fs ROOT_DIR e (replicate 1024 0) = Inr (True, s') \<and>
     search_dir_entry s' ROOT_DIR [97, 0] = Inr (Some e, s2)"
proof -
  let ?d = "\<lparr>dir_inode = 0xc0200000, dir_pos = 0, dir_buf = []\<rparr> :: dir"
  have gd: "get_dir dir_fs ROOT_DIR = Inr ?d" by (simp add: get_dir_def dir_fs_def)
  have gi: "get_inode dir_fs (dir_inode ?d) = Inr some_root" by (simp add: get_inode_def dir_fs_def)
  have tm: "two_mallocs dir_fs 0xc0110000 0xc0120000 [0xc0130000]" "0xc0110000 \<notin> allocated dir_fs"
    by (simp_all add: two_mallocs_def dir_fs_def some_fs_def)
  have nm: "name_ok [97]" by (simp add: name_ok_def)
  have "lookup dir_fs (dir_blocks some_root) [97] = None"
    using find_in_zero [OF nm] by (simp add: lookup_None dir_fs_def some_fs_def)
  with search_finds_lookup [OF dir_fs_ok gd gi dir_fs_dir_ok tm nm]
  have none: "search_dir_entry dir_fs ROOT_DIR ([97] @ [0]) = Inr (None, dir_fs\<lparr>mallocs := [0xc0130000]\<rparr>)" by simp
  have room: "\<exists>c \<in> set (dir_blocks some_root). roomy dir_fs c"
    by (simp add: some_root_def dir_blocks_def roomy_def)
  have "bm_bit (blocks dir_fs) 1 = False" "1 < bm_size (blocks dir_fs)"
    by (simp_all add: blocks_def dir_fs_def bm_bit_def bm_size_def bitmap_of_def bit_1_iff)
  then have free: "free_bits (blocks dir_fs) \<noteq> {}" by (auto simp: free_bits_def)
  have "i_size some_root mod 24 = 0" by (simp add: some_root_def)
  from new_entry_found [OF dir_fs_ok gd gi dir_fs_dir_ok this tm nm _ none room free, of 1 "replicate 1024 0" 5]
  show ?thesis using nm none by fastforce
qed

end
