(* ===== verification/File.thy ===== *)
theory File
  imports Dir
begin

text \<open>
  Open files, from \<open>fs/file.c\<close>.

  An entry of the global table \<open>file_table\<close> (32 entries) is addressed by its index, which for the
  code is a pointer to it; the running thread's \<open>fd_table\<close> maps descriptors to indices.
  Loads through an index are checked, because \<open>fd_local2global\<close> lets the index 32 pass.
  The buffers the functions allocate are zeroed 512, 560 or 1024 bytes; the loops keep
  \<open>size_left = count - bytes_written\<close> (or \<open>size - bytes_read\<close>), so the model derives it.
  Turning interrupts off around the test of \<open>write_deny\<close> is left out: every step is sequential here.
\<close>

section \<open>The tables of open files\<close>

definition MAX_FILE_OPEN :: nat where
  "MAX_FILE_OPEN = 32"

definition MAX_FILES_OPEN_PER_PROC :: nat where
  "MAX_FILES_OPEN_PER_PROC = 8"

definition O_RDONLY :: u8 where "O_RDONLY = 0"
definition O_WRONLY :: u8 where "O_WRONLY = 1"
definition O_RDWR :: u8 where "O_RDWR = 2"
definition O_CREAT :: u8 where "O_CREAT = 4"

definition no_file :: open_file where
  "no_file = \<lparr>fd_pos = 0, fd_flag = 0, fd_inode = NULL\<rparr>"

definition upd_file :: "'a fsys_scheme \<Rightarrow> u32 \<Rightarrow> (open_file \<Rightarrow> open_file) \<Rightarrow> 'a fsys_scheme" where
  "upd_file s k f = s\<lparr>file_table := (file_table s)[unat k := f (file_table s ! unat k)]\<rparr>"

definition get_free_slot_in_global :: "'a fsys_scheme \<Rightarrow> u32" where
  "get_free_slot_in_global s =
     (case List.find (\<lambda>fd_idx. fd_inode (file_table s ! fd_idx) = NULL) [3..<MAX_FILE_OPEN] of
        Some fd_idx \<Rightarrow> of_nat fd_idx
      | None \<Rightarrow> -1)"

definition pcb_fd_install :: "'a fsys_scheme \<Rightarrow> i32 \<Rightarrow> u32 \<times> 'a fsys_scheme" where
  "pcb_fd_install s global_fd_idx =
     (case List.find (\<lambda>local_fd_idx. fd_table (me s) ! local_fd_idx = -1) [3..<MAX_FILES_OPEN_PER_PROC] of
        Some local_fd_idx \<Rightarrow>
          (of_nat local_fd_idx, s\<lparr>me := (me s)\<lparr>fd_table := (fd_table (me s))[local_fd_idx := global_fd_idx]\<rparr>\<rparr>)
      | None \<Rightarrow> (-1, s))"

section \<open>Creating, opening and closing\<close>

definition create_rollback ::
  "'a fsys_scheme \<Rightarrow> nat \<Rightarrow> u32 \<Rightarrow> u32 \<Rightarrow> u32 \<Rightarrow> u32 \<Rightarrow> (i32 \<times> 'a fsys_scheme) res" where
  "create_rollback s rollback_step fd_idx new_file_inode inode_no io_buf =
     (let s = if rollback_step = 3 then upd_file s fd_idx (\<lambda>_. no_file) else s
      in rbind (if rollback_step \<ge> 2 then fs_free s new_file_inode else Inr s) (\<lambda>s.
         rbind (inode_bitmap_set s inode_no 0) (\<lambda>s.
         rbind (fs_free s io_buf) (\<lambda>s. Inr (-1, s)))))"

definition file_create :: "'a fsys_scheme \<Rightarrow> u32 \<Rightarrow> u8 list \<Rightarrow> u8 \<Rightarrow> (i32 \<times> 'a fsys_scheme) res" where
  "file_create s parent_dir fname flag =
     (let (io_buf, s) = fs_malloc s
      in if io_buf = NULL then Inr (-1, s)
         else rbind (inode_bitmap_alloc s) (\<lambda>(inode_no, s).
           if inode_no = -1 then Inr (-1, s)
           else
             let (new_file_inode, s) = fs_malloc s
             in if new_file_inode = NULL then create_rollback s 1 0 new_file_inode inode_no io_buf
                else
                  let s = upd_inode s new_file_inode (\<lambda>_. inode_init inode_no);
                      fd_idx = get_free_slot_in_global s
                  in if fd_idx = -1 then create_rollback s 2 fd_idx new_file_inode inode_no io_buf
                     else
                       let s = upd_file s fd_idx (\<lambda>_. \<lparr>fd_pos = 0, fd_flag = ucast flag, fd_inode = new_file_inode\<rparr>);
                           s = upd_inode s new_file_inode (\<lambda>i. i\<lparr>write_deny := False\<rparr>)
                       in rbind (create_dir_entry fname inode_no (ucast FT_REGULAR) (replicate 24 0)) (\<lambda>new_dir_entry.
                          rbind (sync_dir_entry s parent_dir new_dir_entry (replicate 1024 0)) (\<lambda>(synced, s).
                            if \<not> synced then create_rollback s 3 fd_idx new_file_inode inode_no io_buf
                            else
                              rbind (get_dir s parent_dir) (\<lambda>d.
                              rbind (inode_sync s (inodes s (dir_inode d)) (replicate 1024 0)) (\<lambda>s.
                              rbind (inode_sync s (inodes s new_file_inode) (replicate 1024 0)) (\<lambda>s.
                              rbind (bitmap_sync s inode_no INODE_BITMAP) (\<lambda>s.
                              let s = upd_part s (\<lambda>p. p\<lparr>open_inodes := new_file_inode # open_inodes p\<rparr>);
                                  s = upd_inode s new_file_inode (\<lambda>i. i\<lparr>i_open_cnts := 1\<rparr>)
                              in rbind (fs_free s io_buf) (\<lambda>s. Inr (pcb_fd_install s fd_idx))))))))))"

definition file_open :: "'a fsys_scheme \<Rightarrow> u32 \<Rightarrow> u8 \<Rightarrow> (i32 \<times> 'a fsys_scheme) res" where
  "file_open s inode_no flag =
     (let fd_idx = get_free_slot_in_global s
      in if fd_idx = -1 then Inr (-1, s)
         else
           let s = upd_file s fd_idx (\<lambda>f. f\<lparr>fd_pos := 0, fd_flag := ucast flag\<rparr>)
           in rbind (inode_open s inode_no) (\<lambda>(p, s).
                let s = upd_file s fd_idx (\<lambda>f. f\<lparr>fd_inode := p\<rparr>)
                in if flag AND O_WRONLY \<noteq> 0 \<or> flag AND O_RDWR \<noteq> 0 then
                     if \<not> write_deny (inodes s p) then
                       let s = upd_inode s p (\<lambda>i. i\<lparr>write_deny := True\<rparr>)
                       in Inr (pcb_fd_install s fd_idx)
                     else Inr (-1, s)
                   else Inr (pcb_fd_install s fd_idx)))"

definition file_close :: "'a fsys_scheme \<Rightarrow> u32 option \<Rightarrow> (i32 \<times> 'a fsys_scheme) res" where
  "file_close s file_ptr =
     (case file_ptr of
        None \<Rightarrow> Inr (-1, s)
      | Some k \<Rightarrow>
          rbind (ld (file_table s) k) (\<lambda>f. rbind (get_inode s (fd_inode f)) (\<lambda>_.
            let s = upd_inode s (fd_inode f) (\<lambda>i. i\<lparr>write_deny := False\<rparr>)
            in rbind (inode_close s (fd_inode f)) (\<lambda>s.
               Inr (0, upd_file s k (\<lambda>f. f\<lparr>fd_inode := NULL\<rparr>))))))"

section \<open>Writing\<close>

definition BLOCK_SIZE :: u32 where
  "BLOCK_SIZE = 512"

definition sync_block :: "'a fsys_scheme \<Rightarrow> u32 \<Rightarrow> 'a fsys_scheme res" where
  "sync_block s block_lba =
     (let block_bitmap_idx = block_lba - data_start_lba (sb (part s)) in bitmap_sync s block_bitmap_idx BLOCK_BITMAP)"

text \<open>A file that has no block yet gets its first one; \<open>False\<close> when there is none.\<close>

definition first_block :: "'a fsys_scheme \<Rightarrow> u32 \<Rightarrow> (bool \<times> 'a fsys_scheme) res" where
  "first_block s ip =
     (if i_sectors (inodes s ip) ! 0 = 0 then
        rbind (block_bitmap_alloc s) (\<lambda>(block_lba, s).
          if block_lba = -1 then Inr (False, s)
          else
            let s = set_sector s ip 0 block_lba;
                block_bitmap_idx = block_lba - data_start_lba (sb (part s))
            in if block_bitmap_idx = 0 then Inl Panic
               else rbind (bitmap_sync s block_bitmap_idx BLOCK_BITMAP) (\<lambda>s. Inr (True, s)))
      else Inr (True, s))"

text \<open>The three loops that add blocks, for \<open>n\<close> blocks from \<open>block_idx\<close> on; \<open>None\<close> when the disk is full.\<close>

fun extend_direct ::
  "'a fsys_scheme \<Rightarrow> u32 \<Rightarrow> u32 list \<Rightarrow> nat \<Rightarrow> nat \<Rightarrow> (u32 list option \<times> 'a fsys_scheme) res" where
  "extend_direct s ip all_blocks block_idx 0 = Inr (Some all_blocks, s)"
| "extend_direct s ip all_blocks block_idx (Suc n) =
     rbind (block_bitmap_alloc s) (\<lambda>(block_lba, s).
       if block_lba = -1 then Inr (None, s)
       else if i_sectors (inodes s ip) ! block_idx \<noteq> 0 then Inl Panic
       else
         let s = set_sector s ip block_idx block_lba
         in rbind (sync_block s block_lba) (\<lambda>s. extend_direct s ip (all_blocks[block_idx := block_lba]) (Suc block_idx) n))"

fun extend_mixed ::
  "'a fsys_scheme \<Rightarrow> u32 \<Rightarrow> u32 list \<Rightarrow> nat \<Rightarrow> nat \<Rightarrow> (u32 list option \<times> 'a fsys_scheme) res" where
  "extend_mixed s ip all_blocks block_idx 0 = Inr (Some all_blocks, s)"
| "extend_mixed s ip all_blocks block_idx (Suc n) =
     rbind (block_bitmap_alloc s) (\<lambda>(block_lba, s).
       if block_lba = -1 then Inr (None, s)
       else
         rbind (if block_idx < 12 then
                  rbind (ld (i_sectors (inodes s ip)) block_lba) (\<lambda>v.
                    if v \<noteq> 0 then Inl Panic else Inr (set_sector s ip (unat block_lba) block_lba))
                else Inr s) (\<lambda>s.
         rbind (sync_block s block_lba) (\<lambda>s. extend_mixed s ip (all_blocks[block_idx := block_lba]) (Suc block_idx) n)))"

fun extend_indirect ::
  "'a fsys_scheme \<Rightarrow> u32 list \<Rightarrow> nat \<Rightarrow> nat \<Rightarrow> (u32 list option \<times> 'a fsys_scheme) res" where
  "extend_indirect s all_blocks block_idx 0 = Inr (Some all_blocks, s)"
| "extend_indirect s all_blocks block_idx (Suc n) =
     rbind (block_bitmap_alloc s) (\<lambda>(block_lba, s).
       if block_lba = -1 then Inr (None, s)
       else rbind (sync_block s block_lba) (\<lambda>s. extend_indirect s (all_blocks[block_idx := block_lba]) (Suc block_idx) n))"

text \<open>Reading the indirect table into \<open>all_blocks + 12\<close>.\<close>

definition read_table :: "'a fsys_scheme \<Rightarrow> u32 \<Rightarrow> u32 list \<Rightarrow> u32 list res" where
  "read_table s indirect_block_table all_blocks =
     rbind (disk_read s indirect_block_table 1) (\<lambda>data. Inr (take 12 all_blocks @ words data))"

text \<open>The block addresses the data is going to, with new blocks where the file grows.\<close>

definition write_blocks ::
  "'a fsys_scheme \<Rightarrow> u32 \<Rightarrow> u32 \<Rightarrow> (u32 list option \<times> 'a fsys_scheme) res" where
  "write_blocks s ip count =
     (let i = inodes s ip;
          all_blocks = replicate 140 0;
          file_has_used_blocks = i_size i div BLOCK_SIZE + 1;
          file_will_use_blocks = (i_size i + count) div BLOCK_SIZE + 1;
          add_blocks = file_will_use_blocks - file_has_used_blocks;
          has = unat file_has_used_blocks;
          n = unat file_will_use_blocks - has
      in if \<not> file_will_use_blocks \<le> 140 then Inl Panic
         else if add_blocks = 0 then
           if file_has_used_blocks \<le> 12 then Inr (Some (all_blocks[has - 1 := i_sectors i ! (has - 1)]), s)
           else if i_sectors i ! 12 = 0 then Inl Panic
           else rbind (read_table s (i_sectors i ! 12) all_blocks) (\<lambda>all_blocks. Inr (Some all_blocks, s))
         else if file_will_use_blocks \<le> 12 then
           if i_sectors i ! (has - 1) = 0 then Inl Panic
           else extend_direct s ip (all_blocks[has - 1 := i_sectors i ! (has - 1)]) has n
         else if file_has_used_blocks \<le> 12 then
           let all_blocks = all_blocks[has - 1 := i_sectors i ! (has - 1)]
           in rbind (block_bitmap_alloc s) (\<lambda>(block_lba, s).
                if block_lba = -1 then Inr (None, s)
                else if i_sectors (inodes s ip) ! 12 \<noteq> 0 then Inl Panic
                else
                  let s = set_sector s ip 12 block_lba
                  in rbind (sync_block s block_lba) (\<lambda>s.
                     rbind (extend_mixed s ip all_blocks has n) (\<lambda>(r, s).
                       case r of
                         None \<Rightarrow> Inr (None, s)
                       | Some all_blocks \<Rightarrow>
                           rbind (disk_write s block_lba (bytes_of (drop 12 all_blocks)) 1) (\<lambda>s. Inr (Some all_blocks, s)))))
         else
           if i_sectors i ! 12 = 0 then Inl Panic
           else
             rbind (extend_indirect s all_blocks has n) (\<lambda>(r, s).
               case r of
                 None \<Rightarrow> Inr (None, s)
               | Some all_blocks \<Rightarrow>
                   rbind (disk_write s (i_sectors i ! 12) (bytes_of (drop 12 all_blocks)) 1) (\<lambda>s. Inr (Some all_blocks, s))))"

lemma chunk_bounds:
  assumes "bw < (count :: u32)"
  shows "0 < min (unat (count - bw)) (512 - unat (sz mod 512 :: u32))"
    and "unat (bw + (if count - bw < 512 - sz mod 512 then count - bw else 512 - sz mod 512)) =
         unat bw + min (unat (count - bw)) (512 - unat (sz mod 512))"
    and "unat (if count - bw < 512 - sz mod 512 then count - bw else 512 - sz mod 512) =
         min (unat (count - bw)) (512 - unat (sz mod 512))"
proof -
  have lt: "unat bw < unat count" using assms by (simp add: unat_less_iff)
  have d: "unat (count - bw) = unat count - unat bw" using lt by (intro unat_sub_no_wrap) simp
  have m: "unat (sz mod 512) < 512" by (simp add: unat_mod_word)
  then show "0 < min (unat (count - bw)) (512 - unat (sz mod 512))" using lt d by simp
  have "unat (512 - sz mod 512) = 512 - unat (sz mod 512)" using m by (subst unat_sub_no_wrap) simp_all
  then show c: "unat (if count - bw < 512 - sz mod 512 then count - bw else 512 - sz mod 512) =
      min (unat (count - bw)) (512 - unat (sz mod 512))" by (auto simp: unat_less_iff)
  show "unat (bw + (if count - bw < 512 - sz mod 512 then count - bw else 512 - sz mod 512)) =
      unat bw + min (unat (count - bw)) (512 - unat (sz mod 512))"
    using lt d c unat_u32_bound [of count] by (subst unat_add_no_wrap) simp_all
qed

lemma chunk_less:
  "bw < (count :: u32) \<Longrightarrow>
   unat count - unat (bw + (if count - bw < 512 - sz mod 512 then count - bw else 512 - sz mod 512)) < unat count - unat bw"
  using chunk_bounds(1,2) [of bw count sz] unfolding unat_less_iff by linarith

text \<open>The loop that writes the data, sector by sector.\<close>

function write_loop ::
  "'a fsys_scheme \<Rightarrow> u32 \<Rightarrow> u32 \<Rightarrow> u8 list \<Rightarrow> u32 \<Rightarrow> u32 list \<Rightarrow> bool \<Rightarrow> u32 \<Rightarrow> 'a fsys_scheme res" where
  "write_loop s k ip buf count all_blocks first_write_block bytes_written =
     (if bytes_written < count then
        let size_left = count - bytes_written;
            sec_idx = i_size (inodes s ip) div BLOCK_SIZE;
            sec_off_bytes = i_size (inodes s ip) mod BLOCK_SIZE;
            sec_left_bytes = BLOCK_SIZE - sec_off_bytes;
            chunk_size = if size_left < sec_left_bytes then size_left else sec_left_bytes
        in rbind (ld all_blocks sec_idx) (\<lambda>sec_lba.
           rbind (if first_write_block then disk_read s sec_lba 1 else Inr (replicate 512 0)) (\<lambda>io_buf.
           if length buf < unat bytes_written + unat chunk_size then Inl OutOfBounds
           else rbind (blit io_buf (unat sec_off_bytes) (slice buf (unat bytes_written) (unat chunk_size))) (\<lambda>io_buf.
           rbind (disk_write s sec_lba io_buf 1) (\<lambda>s.
             write_loop (upd_file (grow_inode s ip chunk_size) k (\<lambda>f. f\<lparr>fd_pos := fd_pos f + chunk_size\<rparr>))
               k ip buf count all_blocks False (bytes_written + chunk_size)))))
      else Inr s)"
  by pat_completeness auto

termination
proof (relation "measure (\<lambda>(s, k, ip, buf, count, all_blocks, first, bw). unat count - unat bw)", goal_cases)
  case 1
  then show ?case by simp
next
  case (2 s k ip buf count all_blocks first bw)
  then show ?case
    using chunk_less [of bw count "i_size (inodes s ip)"]
    by (simp only: BLOCK_SIZE_def in_measure case_prod_conv)
qed

declare write_loop.simps [simp del]

definition file_write :: "'a fsys_scheme \<Rightarrow> u32 \<Rightarrow> u8 list \<Rightarrow> u32 \<Rightarrow> (i32 \<times> 'a fsys_scheme) res" where
  "file_write s k buf count =
     rbind (ld (file_table s) k) (\<lambda>f. rbind (get_inode s (fd_inode f)) (\<lambda>i.
       if i_size i + count > BLOCK_SIZE * 140 then Inr (-1, s)
       else
         let (io_buf, s) = fs_malloc s
         in if io_buf = NULL then Inr (-1, s)
            else
              let (all_blocks_p, s) = fs_malloc s
              in if all_blocks_p = NULL then Inr (-1, s)
                 else rbind (first_block s (fd_inode f)) (\<lambda>(got, s).
                   if \<not> got then
                     rbind (fs_free s all_blocks_p) (\<lambda>s. rbind (fs_free s io_buf) (\<lambda>s. Inr (-1, s)))
                   else rbind (write_blocks s (fd_inode f) count) (\<lambda>(r, s).
                     case r of
                       None \<Rightarrow> rbind (fs_free s all_blocks_p) (\<lambda>s. rbind (fs_free s io_buf) (\<lambda>s. Inr (-1, s)))
                     | Some all_blocks \<Rightarrow>
                         let s = upd_file s k (\<lambda>g. g\<lparr>fd_pos := i_size (inodes s (fd_inode f)) - 1\<rparr>)
                         in rbind (write_loop s k (fd_inode f) buf count all_blocks True 0) (\<lambda>s.
                            rbind (inode_sync s (inodes s (fd_inode f)) (replicate 512 0)) (\<lambda>s.
                            rbind (fs_free s all_blocks_p) (\<lambda>s.
                            rbind (fs_free s io_buf) (\<lambda>s. Inr (count, s)))))))))"

section \<open>Reading\<close>

text \<open>\<open>all_blocks[k] = i_sectors[k]\<close> for \<open>k\<close> from \<open>a\<close> to \<open>b - 1\<close>.\<close>

definition copy_direct :: "inode \<Rightarrow> u32 list \<Rightarrow> nat \<Rightarrow> nat \<Rightarrow> u32 list" where
  "copy_direct i all_blocks a b = foldl (\<lambda>bs k. bs[k := i_sectors i ! k]) all_blocks [a..<b]"

definition read_addresses :: "'a fsys_scheme \<Rightarrow> inode \<Rightarrow> u32 \<Rightarrow> u32 \<Rightarrow> u32 list res" where
  "read_addresses s i block_read_start_idx block_read_end_idx =
     (let all_blocks = replicate 140 0;
          read_blocks = block_read_end_idx - block_read_start_idx
      in if \<not> (block_read_start_idx < 139 \<and> block_read_end_idx < 139) then Inl Panic
         else if block_read_end_idx < 12 then
           if read_blocks = 0 then
             Inr (all_blocks[unat block_read_end_idx := i_sectors i ! unat block_read_end_idx])
           else Inr (copy_direct i all_blocks (unat block_read_start_idx) (Suc (unat block_read_end_idx)))
         else if read_blocks \<noteq> 0 \<and> block_read_start_idx < 12 then
           read_table s (i_sectors i ! 12) (copy_direct i all_blocks (unat block_read_start_idx) 12)
         else if i_sectors i ! 12 = 0 then Inl Panic
         else read_table s (i_sectors i ! 12) all_blocks)"

function read_loop ::
  "'a fsys_scheme \<Rightarrow> u32 \<Rightarrow> u8 list \<Rightarrow> u32 \<Rightarrow> u32 list \<Rightarrow> u32 \<Rightarrow> (u8 list \<times> 'a fsys_scheme) res" where
  "read_loop s k buf rsize all_blocks bytes_read =
     (if bytes_read < rsize then
        let size_left = rsize - bytes_read;
            fdpos = fd_pos (file_table s ! unat k);
            sec_idx = fdpos div BLOCK_SIZE;
            sec_off_bytes = fdpos mod BLOCK_SIZE;
            sec_left_bytes = BLOCK_SIZE - sec_off_bytes;
            chunk_size = if size_left < sec_left_bytes then size_left else sec_left_bytes
        in rbind (ld all_blocks sec_idx) (\<lambda>sec_lba.
           rbind (disk_read s sec_lba 1) (\<lambda>io_buf.
           rbind (blit buf (unat bytes_read) (slice io_buf (unat sec_off_bytes) (unat chunk_size))) (\<lambda>buf.
             read_loop (upd_file s k (\<lambda>f. f\<lparr>fd_pos := fd_pos f + chunk_size\<rparr>))
               k buf rsize all_blocks (bytes_read + chunk_size))))
      else Inr (buf, s))"
  by pat_completeness auto

termination
proof (relation "measure (\<lambda>(s, k, buf, rsize, all_blocks, br). unat rsize - unat br)", goal_cases)
  case 1
  then show ?case by simp
next
  case (2 s k buf sz all_blocks br)
  then show ?case
    using chunk_less [of br sz "fd_pos (file_table s ! unat k)"]
    by (simp only: BLOCK_SIZE_def in_measure case_prod_conv)
qed

declare read_loop.simps [simp del]

text \<open>\<open>buf\<close> is the caller's buffer, returned with what was read.\<close>

definition file_read :: "'a fsys_scheme \<Rightarrow> u32 \<Rightarrow> u8 list \<Rightarrow> u32 \<Rightarrow> (i32 \<times> u8 list \<times> 'a fsys_scheme) res" where
  "file_read s k buf count =
     rbind (ld (file_table s) k) (\<lambda>f. rbind (get_inode s (fd_inode f)) (\<lambda>i.
       let past_end = fd_pos f + count > i_size i;
           rsize = if past_end then i_size i - fd_pos f else count
       in if past_end \<and> rsize = 0 then Inr (-1, buf, s)
          else
            let (io_buf, s) = fs_malloc s
            in if io_buf = NULL then Inr (-1, buf, s)
               else
                 let (all_blocks_p, s) = fs_malloc s
                 in if all_blocks_p = NULL then Inr (-1, buf, s)
                    else rbind (read_addresses s i (fd_pos f div BLOCK_SIZE) ((fd_pos f + count) div BLOCK_SIZE)) (\<lambda>all_blocks.
                      rbind (read_loop s k buf rsize all_blocks 0) (\<lambda>(buf, s).
                      rbind (fs_free s all_blocks_p) (\<lambda>s.
                      rbind (fs_free s io_buf) (\<lambda>s. Inr (rsize, buf, s)))))))"

end
