(* ===== verification/Content.thy ===== *)
theory Content
  imports File
begin

text \<open>
  What a file holds, and what \<open>file_write\<close> and \<open>file_read\<close> do to it.

  The contents of a file whose data lies in its direct blocks is the list of its bytes.
  \<open>has_blocks\<close> says that exactly the first \<open>n\<close> direct blocks are there, in the data area and
  pairwise different; a file of \<open>k\<close> bytes that was ever written to has \<open>k div 512 + 1\<close> of them.
  The lemmas follow \<open>file_write\<close>: adding one block, adding several, writing one chunk, writing all.
\<close>

definition file_byte :: "'a fsys_scheme \<Rightarrow> inode \<Rightarrow> nat \<Rightarrow> u8" where
  "file_byte s i k = sectors s (i_sectors i ! (k div 512)) ! (k mod 512)"

definition contents :: "'a fsys_scheme \<Rightarrow> inode \<Rightarrow> u8 list" where
  "contents s i = map (file_byte s i) [0..<unat (i_size i)]"

definition has_blocks :: "'a fsys_scheme \<Rightarrow> inode \<Rightarrow> nat \<Rightarrow> bool" where
  "has_blocks s i n \<longleftrightarrow>
     length (i_sectors i) = 13 \<and> n \<le> 12 \<and> (\<forall>k<n. block_used s (i_sectors i ! k)) \<and>
     (\<forall>k\<le>12. n \<le> k \<longrightarrow> i_sectors i ! k = 0) \<and> distinct (take n (i_sectors i))"

definition used_blocks :: "inode \<Rightarrow> nat" where
  "used_blocks i = (if i_sectors i ! 0 = 0 then 0 else unat (i_size i) div 512 + 1)"

definition file_ok :: "'a fsys_scheme \<Rightarrow> inode \<Rightarrow> bool" where
  "file_ok s i \<longleftrightarrow> has_blocks s i (used_blocks i) \<and> (i_sectors i ! 0 = 0 \<longrightarrow> i_size i = 0)"

lemma length_contents [simp]: "length (contents s i) = unat (i_size i)"
  by (simp add: contents_def)

lemma block_distinct:
  "has_blocks s i n \<Longrightarrow> j < n \<Longrightarrow> k < n \<Longrightarrow> i_sectors i ! j = i_sectors i ! k \<longleftrightarrow> j = k"
  unfolding has_blocks_def using nth_eq_iff_index_eq [of "take n (i_sectors i)" j k] by auto

lemma contents_heap [simp]:
  "contents (s\<lparr>allocated := a\<rparr>) i = contents s i" "contents (s\<lparr>mallocs := ms\<rparr>) i = contents s i"
  by (simp_all add: contents_def file_byte_def)

section \<open>Adding blocks\<close>

lemma bitmap_sync_inodes:
  fixes s :: "'a fsys_scheme"
  assumes "bitmap_sync s a t = Inr s'"
  shows "bitmap_sync (s\<lparr>inodes := f\<rparr>) a t = Inr (s'\<lparr>inodes := f\<rparr>)"
  using assms by (cases t) (auto simp: bitmap_sync_def Let_def disk_write_def split: if_splits cong: if_cong)

text \<open>
  \<open>grown s s' ip n\<close>: from \<open>s\<close> to \<open>s'\<close> the inode at \<open>ip\<close> has got more blocks and has \<open>n\<close> now;
  the data area is untouched, blocks in use stay in use, and nothing else changes.
\<close>

definition grown :: "'a fsys_scheme \<Rightarrow> 'a fsys_scheme \<Rightarrow> u32 \<Rightarrow> nat \<Rightarrow> bool" where
  "grown s s' ip n \<longleftrightarrow>
     fs_ok s' \<and> has_blocks s' (inodes s' ip) n \<and> data_kept s s' \<and> (\<forall>b. block_used s b \<longrightarrow> block_used s' b) \<and>
     (\<forall>b. block_used s' b \<longrightarrow> block_used s b \<or> b \<in> set (i_sectors (inodes s' ip))) \<and>
     (\<forall>b \<in> set (i_sectors (inodes s' ip)). b = 0 \<or> b \<in> set (i_sectors (inodes s ip)) \<or> \<not> block_used s b) \<and>
     (\<exists>b f bs. s' = s\<lparr>part := (part s)\<lparr>block_bitmap := b\<rparr>, sectors := f,
        inodes := (inodes s)(ip := (inodes s ip)\<lparr>i_sectors := bs\<rparr>)\<rparr>) \<and>
     (\<forall>k<13. i_sectors (inodes s ip) ! k \<noteq> 0 \<longrightarrow> i_sectors (inodes s' ip) ! k = i_sectors (inodes s ip) ! k)"

lemma grown_same: "fs_ok s \<Longrightarrow> has_blocks s (inodes s ip) n \<Longrightarrow> grown s s ip n"
  unfolding grown_def data_kept_def
  by (auto intro!: exI [of _ "block_bitmap (part s)"] exI [of _ "sectors s"] exI [of _ "i_sectors (inodes s ip)"])

lemma add_block:
  assumes "fs_ok s" and "has_blocks s (inodes s ip) n" and "n < 12" and "free_bits (blocks s) \<noteq> {}"
  shows "\<exists>m s1 s2. block_bitmap_alloc s = Inr (block_addr s m, s1) \<and> block_addr s m \<noteq> -1 \<and> m \<in> free_bits (blocks s) \<and>
           i_sectors (inodes s1 ip) ! n = 0 \<and> data_start_lba (sb (part s1)) = data_start s \<and>
           bitmap_sync (set_sector s1 ip n (block_addr s m)) (block_addr s m - data_start s) BLOCK_BITMAP = Inr s2 \<and>
           grown s s2 ip (Suc n) \<and> free_bits (blocks s2) = free_bits (blocks s) - {m} \<and>
           i_sectors (inodes s2 ip) = (i_sectors (inodes s ip))[n := block_addr s m]"
proof -
  obtain m s1 s2 where al: "block_bitmap_alloc s = Inr (block_addr s m, s1)" "data_start_lba (sb (part s1)) = data_start s"
    "s1 = s\<lparr>part := part s2\<rparr>"
    "bitmap_sync s1 (block_addr s m - data_start s) BLOCK_BITMAP = Inr s2" "took s m s2"
    using take_block [OF assms(1,4)] by blast
  let ?b = "block_addr s m"
  let ?f = "(inodes s)(ip := (inodes s ip)\<lparr>i_sectors := (i_sectors (inodes s ip))[n := ?b]\<rparr>)"
  let ?s2 = "s2\<lparr>inodes := ?f\<rparr>"
  have set: "set_sector s1 ip n ?b = s1\<lparr>inodes := ?f\<rparr>" by (simp add: al(3) set_sector_def upd_inode_def)
  have sync: "bitmap_sync (set_sector s1 ip n ?b) (?b - data_start s) BLOCK_BITMAP = Inr ?s2"
    unfolding set by (rule bitmap_sync_inodes [OF al(4)])
  have hb: "length (i_sectors (inodes s ip)) = 13" "\<forall>k<n. block_used s (i_sectors (inodes s ip) ! k)"
    "\<forall>k\<le>12. n \<le> k \<longrightarrow> i_sectors (inodes s ip) ! k = 0" "distinct (take n (i_sectors (inodes s ip)))"
    using assms(2) by (simp_all add: has_blocks_def)
  have mb: "m < bm_size (blocks s)" using tookD(11) [OF al(5)] .
  have bn: "\<not> block_used s ?b" "?b \<noteq> -1" "?b \<noteq> 0"
    using tookD(12) [OF al(5)] assms(1) block_addr_bounds [OF assms(1) mb] by simp_all
  have used: "block_used ?s2 c \<longleftrightarrow> c = ?b \<or> block_used s c" for c
    using took_used [OF al(5) assms(1)] by (simp add: block_used_def block_addr_def)
  have "?b \<notin> set (take n (i_sectors (inodes s ip)))"
    using hb(2) bn(1) by (auto simp: in_set_conv_nth)
  moreover have "take (Suc n) ((i_sectors (inodes s ip))[n := ?b]) = take n (i_sectors (inodes s ip)) @ [?b]"
    using hb(1) assms(3) by (subst take_Suc_conv_app_nth) simp_all
  ultimately have d: "distinct (take (Suc n) ((i_sectors (inodes s ip))[n := ?b]))"
    using hb(4) by simp
  have "has_blocks ?s2 (?f ip) (Suc n)"
    using hb(1-3) d assms(3) by (auto simp: has_blocks_def used nth_list_update less_Suc_eq)
  then have "grown s ?s2 ip (Suc n)"
    unfolding grown_def
  proof (intro conjI)
    show "fs_ok ?s2" using tookD(8) [OF al(5)] by simp
    show "data_kept s ?s2" using took_data [OF al(5)] by (simp add: data_kept_def)
    show "\<forall>b. block_used s b \<longrightarrow> block_used ?s2 b" by (simp add: used)
    show "\<forall>b. block_used ?s2 b \<longrightarrow> block_used s b \<or> b \<in> set (i_sectors (inodes ?s2 ip))"
      using hb(1) assms(3) by (auto simp: used intro: set_update_memI)
    show "\<forall>b \<in> set (i_sectors (inodes ?s2 ip)). b = 0 \<or> b \<in> set (i_sectors (inodes s ip)) \<or> \<not> block_used s b"
      using set_update_subset_insert [of "i_sectors (inodes s ip)" n ?b] bn(1) by auto
    obtain bb f where "s2 = s\<lparr>part := (part s)\<lparr>block_bitmap := bb\<rparr>, sectors := f\<rparr>" using al(5) by (auto simp: took_def)
    then show "\<exists>b f bs. ?s2 = s\<lparr>part := (part s)\<lparr>block_bitmap := b\<rparr>, sectors := f,
        inodes := (inodes s)(ip := (inodes s ip)\<lparr>i_sectors := bs\<rparr>)\<rparr>"
      by (intro exI [of _ bb] exI [of _ f] exI [of _ "(i_sectors (inodes s ip))[n := ?b]"]) simp
    show "\<forall>k<13. i_sectors (inodes s ip) ! k \<noteq> 0 \<longrightarrow> i_sectors (inodes ?s2 ip) ! k = i_sectors (inodes s ip) ! k"
    proof (intro allI impI)
      fix k assume k: "k < 13" "i_sectors (inodes s ip) ! k \<noteq> 0"
      then have "k \<noteq> n" using hb(3) assms(3) by auto
      then show "i_sectors (inodes ?s2 ip) ! k = i_sectors (inodes s ip) ! k" by simp
    qed
  qed simp
  moreover have "free_bits (blocks ?s2) = free_bits (blocks s) - {m}" using took_free [OF al(5)] by simp
  moreover have "m \<in> free_bits (blocks s)" using al(5) by (simp add: took_def)
  ultimately show ?thesis
    using al(1,2) sync bn(2) hb(3) assms(3) by (intro exI [of _ m] exI [of _ s1] exI [of _ ?s2]) (simp add: al(3))
qed

lemma grown_trans:
  assumes "grown s s1 ip n" and "grown s1 s2 ip m"
  shows "grown s s2 ip m"
proof -
  obtain b f bs where s1: "s1 = s\<lparr>part := (part s)\<lparr>block_bitmap := b\<rparr>, sectors := f,
      inodes := (inodes s)(ip := (inodes s ip)\<lparr>i_sectors := bs\<rparr>)\<rparr>"
    using assms(1) unfolding grown_def by blast
  obtain b' f' bs' where s2: "s2 = s1\<lparr>part := (part s1)\<lparr>block_bitmap := b'\<rparr>, sectors := f',
      inodes := (inodes s1)(ip := (inodes s1 ip)\<lparr>i_sectors := bs'\<rparr>)\<rparr>"
    using assms(2) unfolding grown_def by blast
  have ds: "data_start s1 = data_start s" by (simp add: s1 data_start_def)
  have keep: "i_sectors (inodes s2 ip) ! k = i_sectors (inodes s1 ip) ! k" if "k < 13" "i_sectors (inodes s1 ip) ! k \<noteq> 0" for k
    using assms(2) that unfolding grown_def by blast
  have mem: "b \<in> set (i_sectors (inodes s2 ip))" if mem: "b \<in> set (i_sectors (inodes s1 ip))" "block_used s1 b" for b
  proof -
    have len: "length (i_sectors (inodes s1 ip)) = 13" "length (i_sectors (inodes s2 ip)) = 13"
      using assms by (simp_all add: grown_def has_blocks_def)
    obtain k where k: "k < 13" "i_sectors (inodes s1 ip) ! k = b" using mem(1) len(1) by (auto simp: in_set_conv_nth)
    have "fs_ok s1" using assms(1) by (simp add: grown_def)
    then have "b \<noteq> 0" using mem(2) block_used_bounds(3) by blast
    then have "i_sectors (inodes s2 ip) ! k = b" using keep [OF k(1)] k(2) by simp
    then show ?thesis using k(1) len(2) by (metis nth_mem)
  qed
  show ?thesis
    unfolding grown_def
  proof (intro conjI)
    show "fs_ok s2" "has_blocks s2 (inodes s2 ip) m" using assms(2) by (simp_all add: grown_def)
    show "data_kept s s2" using assms by (simp add: grown_def data_kept_def ds)
    show "\<forall>b. block_used s b \<longrightarrow> block_used s2 b" using assms by (simp add: grown_def)
    show "\<forall>b. block_used s2 b \<longrightarrow> block_used s b \<or> b \<in> set (i_sectors (inodes s2 ip))"
    proof (intro allI impI)
      fix b assume "block_used s2 b"
      then have "block_used s1 b \<or> b \<in> set (i_sectors (inodes s2 ip))" using assms(2) unfolding grown_def by blast
      moreover have "block_used s1 b \<Longrightarrow> block_used s b \<or> b \<in> set (i_sectors (inodes s1 ip))"
        using assms(1) unfolding grown_def by blast
      ultimately show "block_used s b \<or> b \<in> set (i_sectors (inodes s2 ip))" using mem by blast
    qed
    show "\<forall>b \<in> set (i_sectors (inodes s2 ip)). b = 0 \<or> b \<in> set (i_sectors (inodes s ip)) \<or> \<not> block_used s b"
      using assms unfolding grown_def by blast
    show "\<exists>b f bs. s2 = s\<lparr>part := (part s)\<lparr>block_bitmap := b\<rparr>, sectors := f,
        inodes := (inodes s)(ip := (inodes s ip)\<lparr>i_sectors := bs\<rparr>)\<rparr>"
      unfolding s2 s1 by (intro exI [of _ b'] exI [of _ f'] exI [of _ bs']) simp
    show "\<forall>k<13. i_sectors (inodes s ip) ! k \<noteq> 0 \<longrightarrow> i_sectors (inodes s2 ip) ! k = i_sectors (inodes s ip) ! k"
      using assms unfolding grown_def by metis
  qed
qed

lemma extend_direct_grows:
  fixes s :: "'a fsys_scheme"
  assumes "fs_ok s" and "has_blocks s (inodes s ip) n" and "n + c \<le> 12" and "c \<le> card (free_bits (blocks s))"
    and "length ab = 140" and "\<forall>k. a \<le> k \<longrightarrow> k < n \<longrightarrow> ab ! k = i_sectors (inodes s ip) ! k"
  shows "\<exists>ab' s'. extend_direct s ip ab n c = Inr (Some ab', s') \<and> grown s s' ip (n + c) \<and> length ab' = 140 \<and>
           (\<forall>k. a \<le> k \<longrightarrow> k < n + c \<longrightarrow> ab' ! k = i_sectors (inodes s' ip) ! k)"
  using assms
proof (induction c arbitrary: s ab n)
  case 0
  then show ?case using grown_same [of s ip n] by auto
next
  case (Suc c)
  have "free_bits (blocks s) \<noteq> {}" and n12: "n < 12" using Suc.prems(3,4) by auto
  from add_block [OF Suc.prems(1,2) n12 this(1)] obtain m s1 s2 where
    al: "block_bitmap_alloc s = Inr (block_addr s m, s1)" "block_addr s m \<noteq> -1" "m \<in> free_bits (blocks s)"
      "i_sectors (inodes s1 ip) ! n = 0" "data_start_lba (sb (part s1)) = data_start s"
      "bitmap_sync (set_sector s1 ip n (block_addr s m)) (block_addr s m - data_start s) BLOCK_BITMAP = Inr s2"
      "grown s s2 ip (Suc n)" "free_bits (blocks s2) = free_bits (blocks s) - {m}"
      "i_sectors (inodes s2 ip) = (i_sectors (inodes s ip))[n := block_addr s m]" by blast
  let ?ab = "ab[n := block_addr s m]"
  have ds: "data_start_lba (sb (part (set_sector s1 ip n (block_addr s m)))) = data_start s"
    using al(5) by (simp add: set_sector_def upd_inode_def)
  have step: "extend_direct s ip ab n (Suc c) = extend_direct s2 ip ?ab (Suc n) c"
    using al(1,2,4,6) by (simp add: sync_block_def ds)
  have g: "fs_ok s2" "has_blocks s2 (inodes s2 ip) (Suc n)" using al(7) by (simp_all add: grown_def)
  have "card (free_bits (blocks s2)) = card (free_bits (blocks s)) - 1" using al(3,8) by simp
  then have cd: "c \<le> card (free_bits (blocks s2))" using Suc.prems(4) by simp
  have len: "length (i_sectors (inodes s ip)) = 13" using Suc.prems(2) by (simp add: has_blocks_def)
  have "\<forall>k. a \<le> k \<longrightarrow> k < Suc n \<longrightarrow> ?ab ! k = i_sectors (inodes s2 ip) ! k"
    using Suc.prems(5,6) len n12 by (auto simp: al(9) nth_list_update less_Suc_eq)
  moreover have "Suc n + c \<le> 12" "length ?ab = 140" using Suc.prems(3,5) by simp_all
  ultimately obtain ab' s' where r: "extend_direct s2 ip ?ab (Suc n) c = Inr (Some ab', s')" "grown s2 s' ip (Suc n + c)"
    "length ab' = 140" "\<forall>k. a \<le> k \<longrightarrow> k < Suc n + c \<longrightarrow> ab' ! k = i_sectors (inodes s' ip) ! k"
    using Suc.IH [OF g _ cd] by blast
  then show ?case unfolding step using grown_trans [OF al(7) r(2)] by (intro exI [of _ ab'] exI [of _ s']) simp
qed

text \<open>The first block of a file that has none, which must not be block 0 of the data area.\<close>

lemma first_block_grows:
  fixes s :: "'a fsys_scheme"
  assumes "fs_ok s" and "file_ok s (inodes s ip)" and "used_blocks (inodes s ip) = 0 \<longrightarrow> free_bits (blocks s) \<noteq> {}"
    and "0 \<notin> free_bits (blocks s)"
  shows "\<exists>s'. first_block s ip = Inr (True, s') \<and> grown s s' ip (unat (i_size (inodes s ip)) div 512 + 1) \<and>
           (if used_blocks (inodes s ip) = 0 then Suc (card (free_bits (blocks s'))) = card (free_bits (blocks s)) else s' = s)"
proof (cases "i_sectors (inodes s ip) ! 0 = 0")
  case False
  then show ?thesis
    using assms grown_same [of s ip "unat (i_size (inodes s ip)) div 512 + 1"]
    by (simp add: first_block_def file_ok_def used_blocks_def)
next
  case True
  have hb: "has_blocks s (inodes s ip) 0" "i_size (inodes s ip) = 0" "used_blocks (inodes s ip) = 0"
    using assms(2) True by (simp_all add: file_ok_def used_blocks_def)
  with assms(3) have ne: "free_bits (blocks s) \<noteq> {}" by simp
  from add_block [OF assms(1) hb(1) _ ne] obtain m s1 s2 where
    al: "block_bitmap_alloc s = Inr (block_addr s m, s1)" "block_addr s m \<noteq> -1" "m \<in> free_bits (blocks s)"
      "data_start_lba (sb (part s1)) = data_start s"
      "bitmap_sync (set_sector s1 ip 0 (block_addr s m)) (block_addr s m - data_start s) BLOCK_BITMAP = Inr s2"
      "grown s s2 ip (Suc 0)" "free_bits (blocks s2) = free_bits (blocks s) - {m}" by auto
  have ds: "data_start_lba (sb (part (set_sector s1 ip 0 (block_addr s m)))) = data_start s"
    using al(4) by (simp add: set_sector_def upd_inode_def)
  have mb: "m < bm_size (blocks s)" using al(3) by (simp add: free_bits_def)
  have "m \<noteq> 0" using al(3) assms(4) by metis
  then have "block_addr s m \<noteq> block_addr s 0" using block_addr_inj [OF assms(1) mb, of 0] mb by simp
  then have nz: "block_addr s m - data_start s \<noteq> 0" by (simp add: block_addr_def)
  have "first_block s ip = Inr (True, s2)" using True al(1,2,5) nz by (simp add: first_block_def ds)
  moreover have "Suc (card (free_bits (blocks s2))) = card (free_bits (blocks s))"
    unfolding al(7) by (rule card_Suc_Diff1 [OF _ al(3)]) simp
  ultimately show ?thesis using al(6) hb(2,3) by (intro exI [of _ s2]) simp
qed

lemma small_sum:
  assumes "unat (a :: u32) + unat c < 6144"
  shows "unat (a + c) = unat a + unat c" and "unat (a div 512 + 1) = unat a div 512 + 1"
    and "unat ((a + c) div 512 + 1) = (unat a + unat c) div 512 + 1"
proof -
  show s: "unat (a + c) = unat a + unat c" using assms by (intro unat_add_no_wrap) simp
  have "unat ((x :: u32) div 512 + 1) = unat x div 512 + 1" if "unat x < 6144" for x
  proof -
    have "unat x div 512 < 12" using that by (simp add: div_less_iff_less_mult)
    then show ?thesis by (subst unat_add_no_wrap) (simp_all add: unat_div_word)
  qed
  from this [of a] this [of "a + c"] show "unat (a div 512 + 1) = unat a div 512 + 1"
    "unat ((a + c) div 512 + 1) = (unat a + unat c) div 512 + 1" using assms s by simp_all
qed

lemma write_blocks_direct:
  fixes s :: "'a fsys_scheme"
  assumes "fs_ok s" and "has_blocks s (inodes s ip) (unat (i_size (inodes s ip)) div 512 + 1)"
    and "unat (i_size (inodes s ip)) + unat count < 6144"
    and "(unat (i_size (inodes s ip)) + unat count) div 512 - unat (i_size (inodes s ip)) div 512 \<le> card (free_bits (blocks s))"
  shows "\<exists>ab s'. write_blocks s ip count = Inr (Some ab, s') \<and> length ab = 140 \<and>
           grown s s' ip ((unat (i_size (inodes s ip)) + unat count) div 512 + 1) \<and>
           (\<forall>k. unat (i_size (inodes s ip)) div 512 \<le> k \<longrightarrow> k \<le> (unat (i_size (inodes s ip)) + unat count) div 512 \<longrightarrow>
              ab ! k = i_sectors (inodes s' ip) ! k)"
proof -
  let ?i = "inodes s ip"
  define z where "z = unat (i_size ?i)"
  define c where "c = unat count"
  note w = small_sum [OF assms(3)]
  have lim: "z div 512 < 12" "(z + c) div 512 < 12" "z div 512 \<le> (z + c) div 512"
    using assms(3) by (simp_all add: z_def c_def div_less_iff_less_mult div_le_mono)
  have will: "(i_size ?i + count) div BLOCK_SIZE + 1 \<le> 12"
    using lim(2) w(3) by (simp add: BLOCK_SIZE_def unat_le_iff z_def c_def)
  then have w140: "(i_size ?i + count) div BLOCK_SIZE + 1 \<le> 140" by (simp add: unat_le_iff)
  have has: "i_size ?i div BLOCK_SIZE + 1 \<le> 12"
    using lim(1) w(2) by (simp add: BLOCK_SIZE_def unat_le_iff z_def)
  have nz: "i_sectors ?i ! (z div 512) \<noteq> 0"
  proof -
    have "block_used s (i_sectors ?i ! (z div 512))" using assms(2) by (simp add: has_blocks_def z_def)
    then show ?thesis by (rule block_used_bounds(3) [OF assms(1)])
  qed
  let ?ab = "(replicate 140 0)[z div 512 := i_sectors ?i ! (z div 512)]"
  have uh: "unat (i_size ?i div BLOCK_SIZE + 1) = z div 512 + 1" "unat ((i_size ?i + count) div BLOCK_SIZE + 1) = (z + c) div 512 + 1"
    using w(2,3) by (simp_all add: BLOCK_SIZE_def z_def c_def)
  have ab: "?ab ! k = i_sectors ?i ! k" if "z div 512 \<le> k" "k < z div 512 + 1" for k
  proof -
    have "k = z div 512" using that by simp
    then show ?thesis using lim(1) by simp
  qed
  show ?thesis
  proof (cases "(z + c) div 512 = z div 512")
    case True
    then have "(i_size ?i + count) div BLOCK_SIZE + 1 = i_size ?i div BLOCK_SIZE + 1"
      using uh by (simp only: word_unat_eq_iff)
    then have "(i_size ?i + count) div BLOCK_SIZE + 1 - (i_size ?i div BLOCK_SIZE + 1) = 0"
      by (simp only: diff_self)
    then have "write_blocks s ip count = Inr (Some ?ab, s)"
      using w140 has uh(1) by (simp add: write_blocks_def Let_def del: right_minus_eq)
    then show ?thesis
      using grown_same [OF assms(1,2)] True ab unfolding z_def [symmetric] c_def [symmetric]
      by (intro exI [of _ ?ab] exI [of _ s]) auto
  next
    case False
    then have "unat ((i_size ?i + count) div BLOCK_SIZE + 1) \<noteq> unat (i_size ?i div BLOCK_SIZE + 1)"
      unfolding uh by simp
    then have "(i_size ?i + count) div BLOCK_SIZE + 1 \<noteq> i_size ?i div BLOCK_SIZE + 1" by metis
    then have "(i_size ?i + count) div BLOCK_SIZE + 1 - (i_size ?i div BLOCK_SIZE + 1) \<noteq> 0"
      by (simp only: right_minus_eq) simp
    then have run: "write_blocks s ip count = extend_direct s ip ?ab (z div 512 + 1) ((z + c) div 512 - z div 512)"
      using w140 will nz uh by (simp add: write_blocks_def Let_def del: right_minus_eq)
    have "\<exists>ab' s'. extend_direct s ip ?ab (z div 512 + 1) ((z + c) div 512 - z div 512) = Inr (Some ab', s') \<and>
        grown s s' ip (z div 512 + 1 + ((z + c) div 512 - z div 512)) \<and> length ab' = 140 \<and>
        (\<forall>k. z div 512 \<le> k \<longrightarrow> k < z div 512 + 1 + ((z + c) div 512 - z div 512) \<longrightarrow> ab' ! k = i_sectors (inodes s' ip) ! k)"
      using assms(2,4) lim ab unfolding z_def [symmetric] c_def [symmetric]
      by (intro extend_direct_grows [OF assms(1)]) simp_all
    then show ?thesis
      using lim(3) unfolding run z_def [symmetric] c_def [symmetric] by (auto simp: less_Suc_eq_le)
  qed
qed

section \<open>Writing the data\<close>

text \<open>One chunk into the sector the file ends in.\<close>

lemma write_chunk:
  assumes "has_blocks s i n" and "unat (i_size i) div 512 < n" and "length io = 512"
    and "\<forall>j < unat (i_size i) mod 512. io ! j = sectors s (i_sectors i ! (unat (i_size i) div 512)) ! j"
    and "length piece \<le> 512 - unat (i_size i) mod 512"
    and "sectors s' = (sectors s)(i_sectors i ! (unat (i_size i) div 512) := overlay io (unat (i_size i) mod 512) piece)"
    and "i_sectors i' = i_sectors i" and "unat (i_size i') = unat (i_size i) + length piece"
  shows "contents s' i' = contents s i @ piece"
proof (rule nth_equalityI)
  show "length (contents s' i') = length (contents s i @ piece)" using assms(8) by simp
  let ?z = "unat (i_size i)"
  fix k assume "k < length (contents s' i')"
  then have k: "k < ?z + length piece" using assms(8) by simp
  have m: "?z mod 512 < 512" by simp
  have fit: "?z mod 512 + length piece \<le> length io" using assms(3,5) m by simp
  have dm: "512 * (?z div 512) + ?z mod 512 = ?z" by simp
  have "file_byte s' i' k = (contents s i @ piece) ! k"
  proof (cases "k < ?z")
    case True
    show ?thesis
    proof (cases "k div 512 = ?z div 512")
      case same: True
      have "512 * (k div 512) + k mod 512 = k" by simp
      then have "k mod 512 < ?z mod 512" using True dm same by linarith
      then show ?thesis
        using True same assms(4,6,7) fit by (simp add: file_byte_def contents_def nth_append nth_overlay assms(3))
    next
      case False
      have "k div 512 \<le> ?z div 512" using True by (intro div_le_mono) simp
      then have "k div 512 < n" using assms(2) by simp
      then have "i_sectors i ! (k div 512) \<noteq> i_sectors i ! (?z div 512)"
        using block_distinct [OF assms(1) _ assms(2)] False by simp
      then show ?thesis using True assms(6,7) by (simp add: file_byte_def contents_def nth_append)
    qed
  next
    case False
    then obtain j where j: "k = ?z + j" "j < length piece" using k by (metis add_less_cancel_left le_Suc_ex not_less)
    have "?z mod 512 + j < 512" using j(2) assms(5) m by simp
    moreover have "k = 512 * (?z div 512) + (?z mod 512 + j)" using j(1) dm by simp
    ultimately have "k div 512 = ?z div 512 \<and> k mod 512 = ?z mod 512 + j"
      by (metis div_mult_self4 mod_mult_self4 div_less mod_less add.right_neutral zero_neq_numeral)
    then show ?thesis using j assms(6,7) fit by (simp add: file_byte_def nth_append nth_overlay assms(3))
  qed
  then show "contents s' i' ! k = (contents s i @ piece) ! k" using k assms(8) by (simp add: contents_def)
qed

text \<open>\<open>wrote s s' k ip n d\<close>: \<open>s'\<close> differs from \<open>s\<close> in the blocks of the file, its size and its position only.\<close>

definition wrote :: "'a fsys_scheme \<Rightarrow> 'a fsys_scheme \<Rightarrow> u32 \<Rightarrow> u32 \<Rightarrow> nat \<Rightarrow> u32 \<Rightarrow> bool" where
  "wrote s s' k ip n d \<longleftrightarrow>
     (\<exists>f. s' = s\<lparr>sectors := f, inodes := (inodes s)(ip := (inodes s ip)\<lparr>i_size := i_size (inodes s ip) + d\<rparr>),
        file_table := (file_table s)[unat k := (file_table s ! unat k)\<lparr>fd_pos := fd_pos (file_table s ! unat k) + d\<rparr>]\<rparr>) \<and>
     fs_ok s' \<and> (\<forall>l. l \<notin> set (take n (i_sectors (inodes s ip))) \<longrightarrow> sectors s' l = sectors s l)"

lemma wrote_trans:
  fixes s :: "'a fsys_scheme"
  assumes "wrote s s1 k ip n d" and "wrote s1 s2 k ip n e" and "unat k < length (file_table s)"
  shows "wrote s s2 k ip n (d + e)"
proof -
  obtain f where s1: "s1 = s\<lparr>sectors := f, inodes := (inodes s)(ip := (inodes s ip)\<lparr>i_size := i_size (inodes s ip) + d\<rparr>),
        file_table := (file_table s)[unat k := (file_table s ! unat k)\<lparr>fd_pos := fd_pos (file_table s ! unat k) + d\<rparr>]\<rparr>"
    using assms(1) unfolding wrote_def by blast
  obtain g where s2: "s2 = s1\<lparr>sectors := g, inodes := (inodes s1)(ip := (inodes s1 ip)\<lparr>i_size := i_size (inodes s1 ip) + e\<rparr>),
        file_table := (file_table s1)[unat k := (file_table s1 ! unat k)\<lparr>fd_pos := fd_pos (file_table s1 ! unat k) + e\<rparr>]\<rparr>"
    using assms(2) unfolding wrote_def by blast
  have "s2 = s\<lparr>sectors := g, inodes := (inodes s)(ip := (inodes s ip)\<lparr>i_size := i_size (inodes s ip) + (d + e)\<rparr>),
        file_table := (file_table s)[unat k := (file_table s ! unat k)\<lparr>fd_pos := fd_pos (file_table s ! unat k) + (d + e)\<rparr>]\<rparr>"
    unfolding s2 unfolding s1 using assms(3) by (simp add: add.assoc)
  moreover have "i_sectors (inodes s1 ip) = i_sectors (inodes s ip)" by (simp add: s1)
  ultimately show ?thesis using assms(1,2) unfolding wrote_def by auto
qed

lemma wrote_none: "fs_ok s \<Longrightarrow> wrote s s k ip n 0"
  unfolding wrote_def by (auto intro!: exI [of _ "sectors s"])

lemma has_blocks_wrote:
  "wrote s s' k ip n d \<Longrightarrow> has_blocks s (inodes s ip) n \<Longrightarrow> has_blocks s' (inodes s' ip) n"
  by (auto simp: wrote_def has_blocks_def block_used_def block_addr_def blocks_def data_start_def)

lemma write_loop_step:
  fixes s :: "'a fsys_scheme"
  assumes "fs_ok s" and "has_blocks s (inodes s ip) n" and "length ab = 140" and "bw < count" and "unat count \<le> length buf"
    and "unat (i_size (inodes s ip)) div 512 < n" and "first \<or> unat (i_size (inodes s ip)) mod 512 = 0"
    and "ab ! (unat (i_size (inodes s ip)) div 512) = i_sectors (inodes s ip) ! (unat (i_size (inodes s ip)) div 512)"
    and "unat (i_size (inodes s ip)) + (unat count - unat bw) < 6144"
  shows "\<exists>d s1. write_loop s k ip buf count ab first bw = write_loop s1 k ip buf count ab False (bw + d) \<and>
           wrote s s1 k ip n d \<and> unat d = min (unat count - unat bw) (512 - unat (i_size (inodes s ip)) mod 512) \<and>
           unat (bw + d) = unat bw + unat d \<and> unat (i_size (inodes s1 ip)) = unat (i_size (inodes s ip)) + unat d \<and>
           contents s1 (inodes s1 ip) = contents s (inodes s ip) @ slice buf (unat bw) (unat d)"
proof -
  let ?i = "inodes s ip"
  define z where "z = unat (i_size ?i)"
  define d where "d = (if count - bw < 512 - i_size ?i mod 512 then count - bw else 512 - i_size ?i mod 512)"
  let ?b = "i_sectors ?i ! (z div 512)"
  have lt: "unat bw < unat count" using assms(4) by (simp add: unat_less_iff)
  have cb: "unat (count - bw) = unat count - unat bw" using lt by (intro unat_sub_no_wrap) simp
  have zm: "unat (i_size ?i mod 512) = z mod 512" "unat (i_size ?i div 512) = z div 512"
    by (simp_all add: unat_mod_word unat_div_word z_def)
  have m: "z mod 512 < 512" by simp
  have dm: "unat d = min (unat count - unat bw) (512 - z mod 512)"
    using chunk_bounds(3) [OF assms(4), of "i_size ?i"] by (simp only: cb zm d_def)
  have bd: "unat (bw + d) = unat bw + unat d"
    using chunk_bounds(2) [OF assms(4), of "i_size ?i"] dm by (simp only: cb zm d_def)
  have dle: "unat d \<le> unat count - unat bw" "unat d \<le> 512 - z mod 512" "0 < unat d" unfolding dm using lt m by simp_all
  have sz: "unat (i_size ?i + d) = z + unat d"
    using dle(1) assms(9) by (subst unat_add_no_wrap) (simp_all add: z_def)
  have bu: "block_used s ?b" using assms(2,6) by (simp add: has_blocks_def z_def)
  have bl: "?b \<le> max_lba" by (rule block_used_bounds(2) [OF assms(1) bu])
  have ld: "ld ab (i_size ?i div 512) = Inr ?b"
  proof -
    have "z div 512 < 140" using assms(2,6) by (simp add: has_blocks_def z_def)
    then have "unat (i_size ?i div 512) < length ab" using assms(3) by (simp add: zm)
    then show ?thesis using assms(8) by (simp add: zm z_def)
  qed
  define io where "io = (if first then sectors s ?b else replicate 512 0)"
  have iob: "(if first then disk_read s ?b 1 else Inr (replicate 512 0)) = Inr io" "length io = 512"
    using bl fs_ok_disk [OF assms(1)] by (simp_all add: disk_read_one io_def)
  let ?piece = "slice buf (unat bw) (unat d)"
  have pl: "length ?piece = unat d" using dle(1) lt assms(5) by simp
  let ?o = "overlay io (z mod 512) ?piece"
  have lo: "length ?o = 512" using iob(2) pl dle(2) m by simp
  have wr: "disk_write s ?b ?o 1 = Inr (s\<lparr>sectors := (sectors s)(?b := ?o)\<rparr>)"
    using disk_write_first [of ?b ?o s] bl lo by simp
  let ?s1 = "upd_file (grow_inode (s\<lparr>sectors := (sectors s)(?b := ?o)\<rparr>) ip d) k (\<lambda>f. f\<lparr>fd_pos := fd_pos f + d\<rparr>)"
  have run: "write_loop s k ip buf count ab first bw = write_loop ?s1 k ip buf count ab False (bw + d)"
  proof -
    have nb: "\<not> length buf < unat bw + unat d" using dle(1) lt assms(5) by simp
    have bl: "blit io (z mod 512) ?piece = Inr ?o" using iob(2) pl dle(2) m by (intro blit_in) simp
    show ?thesis
      by (subst write_loop.simps)
        (simp only: assms(4) if_True Let_def ld rbind_Inr iob(1) BLOCK_SIZE_def zm nb if_False bl wr flip: d_def)
  qed
  have w: "wrote s ?s1 k ip n d"
    unfolding wrote_def
  proof (intro conjI allI impI)
    show "\<exists>f. ?s1 = s\<lparr>sectors := f, inodes := (inodes s)(ip := (inodes s ip)\<lparr>i_size := i_size (inodes s ip) + d\<rparr>),
        file_table := (file_table s)[unat k := (file_table s ! unat k)\<lparr>fd_pos := fd_pos (file_table s ! unat k) + d\<rparr>]\<rparr>"
      by (intro exI [of _ "(sectors s)(?b := ?o)"]) (simp add: upd_file_def grow_inode_def upd_inode_def)
    have "fs_ok ?s1 = fs_ok (s\<lparr>sectors := (sectors s)(?b := ?o)\<rparr>)"
      by (rule fs_ok_congs) (simp_all add: upd_file_def grow_inode_def upd_inode_def)
    then show "fs_ok ?s1" using fs_ok_sector [OF assms(1) lo] by simp
    fix l assume "l \<notin> set (take n (i_sectors ?i))"
    moreover have "?b \<in> set (take n (i_sectors ?i))"
    proof -
      have "take n (i_sectors ?i) ! (z div 512) = ?b" "z div 512 < length (take n (i_sectors ?i))"
        using assms(2,6) by (simp_all add: has_blocks_def z_def)
      then show ?thesis by (metis nth_mem)
    qed
    ultimately show "sectors ?s1 l = sectors s l" by (auto simp: upd_file_def grow_inode_def upd_inode_def)
  qed
  have i1: "inodes ?s1 ip = ?i\<lparr>i_size := i_size ?i + d\<rparr>" by (simp add: upd_file_def grow_inode_def upd_inode_def)
  have "contents ?s1 (inodes ?s1 ip) = contents s ?i @ ?piece"
  proof (rule write_chunk [OF assms(2), where io = io])
    show "unat (i_size ?i) div 512 < n" by (rule assms(6))
    show "length io = 512" by (rule iob(2))
    show "\<forall>j<unat (i_size ?i) mod 512. io ! j = sectors s (i_sectors ?i ! (unat (i_size ?i) div 512)) ! j"
      using assms(7) by (auto simp: z_def io_def)
    show "length ?piece \<le> 512 - unat (i_size ?i) mod 512" using dle(2) unfolding pl z_def .
    show "sectors ?s1 = (sectors s)(i_sectors ?i ! (unat (i_size ?i) div 512) := overlay io (unat (i_size ?i) mod 512) ?piece)"
      by (simp add: upd_file_def grow_inode_def upd_inode_def z_def)
    show "i_sectors (inodes ?s1 ip) = i_sectors ?i" by (simp add: i1)
    show "unat (i_size (inodes ?s1 ip)) = unat (i_size ?i) + length ?piece" using sz unfolding i1 unfolding pl z_def by simp
  qed
  moreover have "unat (i_size (inodes ?s1 ip)) = z + unat d" using sz unfolding i1 by simp
  ultimately show ?thesis using run w bd dm unfolding z_def by blast
qed

lemma round_up:
  assumes "(d :: nat) = 512 - z mod 512"
  shows "z + d = 512 * (z div 512 + 1)"
proof -
  obtain q r where "z = 512 * q + r" "r < 512" by (metis mult_div_mod_eq mod_less_divisor zero_less_numeral)
  then show ?thesis using assms by simp
qed

lemma write_loop_appends:
  fixes s :: "'a fsys_scheme"
  assumes "fs_ok s" and "has_blocks s (inodes s ip) n" and "length ab = 140" and "bw \<le> count" and "unat count \<le> length buf"
    and "first \<or> unat (i_size (inodes s ip)) mod 512 = 0" and "unat k < length (file_table s)"
    and "\<forall>j. unat (i_size (inodes s ip)) div 512 \<le> j \<longrightarrow> j < n \<longrightarrow> ab ! j = i_sectors (inodes s ip) ! j"
    and "(unat (i_size (inodes s ip)) + (unat count - unat bw)) div 512 < n"
  shows "\<exists>s'. write_loop s k ip buf count ab first bw = Inr s' \<and> wrote s s' k ip n (count - bw) \<and>
           contents s' (inodes s' ip) = contents s (inodes s ip) @ slice buf (unat bw) (unat count - unat bw) \<and>
           unat (i_size (inodes s' ip)) = unat (i_size (inodes s ip)) + (unat count - unat bw)"
  using assms
proof (induction "unat count - unat bw" arbitrary: s bw first rule: less_induct)
  case less
  let ?i = "inodes s ip" and ?z = "unat (i_size (inodes s ip))"
  show ?case
  proof (cases "bw < count")
    case False
    then have "bw = count" using less.prems(4) by simp
    moreover have "write_loop s k ip buf count ab first bw = Inr s" using False by (subst write_loop.simps) simp
    ultimately show ?thesis using wrote_none [OF less.prems(1)] by (intro exI [of _ s]) (simp add: slice_def)
  next
    case True
    then have lt: "unat bw < unat count" by (simp add: unat_less_iff)
    have n12: "n \<le> 12" using less.prems(2) by (simp add: has_blocks_def)
    have zn: "?z div 512 < n" using less.prems(9) div_le_mono [of ?z "?z + (unat count - unat bw)" 512] by simp
    have lim: "?z + (unat count - unat bw) < 6144" using less.prems(9) n12 by (simp add: div_less_iff_less_mult)
    have abz: "ab ! (?z div 512) = i_sectors ?i ! (?z div 512)" using less.prems(8) zn by simp
    from write_loop_step [OF less.prems(1-3) True less.prems(5) zn less.prems(6) abz lim]
    obtain d s1 where
      st: "write_loop s k ip buf count ab first bw = write_loop s1 k ip buf count ab False (bw + d)" "wrote s s1 k ip n d"
        "unat d = min (unat count - unat bw) (512 - ?z mod 512)" "unat (bw + d) = unat bw + unat d"
        "unat (i_size (inodes s1 ip)) = ?z + unat d"
        "contents s1 (inodes s1 ip) = contents s ?i @ slice buf (unat bw) (unat d)" by blast
    have m: "?z mod 512 < 512" by simp
    have dpos: "0 < unat d" "unat d \<le> unat count - unat bw" using st(3) lt m by simp_all
    have sec: "i_sectors (inodes s1 ip) = i_sectors ?i" and ftl: "length (file_table s1) = length (file_table s)"
      using st(2) by (auto simp: wrote_def)
    have rest: "unat count - unat (bw + d) = unat count - unat bw - unat d" using st(4) by simp
    have le: "bw + d \<le> count" using st(4) dpos(2) lt by (simp add: unat_le_iff)
    show ?thesis
    proof (cases "bw + d = count")
      case True
      have "write_loop s1 k ip buf count ab False (bw + d) = Inr s1" using True by (subst write_loop.simps) simp
      moreover have "d = count - bw" using True by (simp add: algebra_simps)
      moreover have "unat d = unat count - unat bw" using True st(4) by simp
      ultimately show ?thesis using st(1,2,5,6) by (intro exI [of _ s1]) simp
    next
      case False
      then have "bw + d < count" using le by simp
      then have "unat d \<noteq> unat count - unat bw" using st(4) by (simp add: unat_less_iff)
      then have full: "unat d = 512 - ?z mod 512" using st(3) by (simp add: min_def split: if_splits)
      have "?z + unat d = 512 * (?z div 512 + 1)"
        by (rule round_up [OF full])
      then have al: "unat (i_size (inodes s1 ip)) = 512 * (?z div 512 + 1)" using st(5) by simp
      have m1: "unat (i_size (inodes s1 ip)) mod 512 = 0" unfolding al by simp
      have hb: "has_blocks s1 (inodes s1 ip) n" by (rule has_blocks_wrote [OF st(2) less.prems(2)])
      have sum: "unat (i_size (inodes s1 ip)) + (unat count - unat (bw + d)) = ?z + (unat count - unat bw)"
        using st(5) rest dpos(2) by simp
      have abs: "\<forall>j. unat (i_size (inodes s1 ip)) div 512 \<le> j \<longrightarrow> j < n \<longrightarrow> ab ! j = i_sectors (inodes s1 ip) ! j"
        using less.prems(8) unfolding al sec by simp
      have "unat count - unat (bw + d) < unat count - unat bw" using rest dpos lt by simp
      moreover have "fs_ok s1" using st(2) by (simp add: wrote_def)
      moreover have "unat k < length (file_table s1)" using less.prems(7) ftl by simp
      moreover have "(unat (i_size (inodes s1 ip)) + (unat count - unat (bw + d))) div 512 < n"
        unfolding sum by (rule less.prems(9))
      ultimately
      obtain s' where s': "write_loop s1 k ip buf count ab False (bw + d) = Inr s'" "wrote s1 s' k ip n (count - (bw + d))"
        "contents s' (inodes s' ip) = contents s1 (inodes s1 ip) @ slice buf (unat (bw + d)) (unat count - unat (bw + d))"
        "unat (i_size (inodes s' ip)) = ?z + (unat count - unat bw)"
        using less.hyps [of "bw + d" s1 False] hb less.prems(3) le less.prems(5) m1 abs unfolding sum by blast
      have "wrote s s' k ip n (d + (count - (bw + d)))" by (rule wrote_trans [OF st(2) s'(2) less.prems(7)])
      moreover have "d + (count - (bw + d)) = count - bw" by simp
      moreover have "slice buf (unat bw) (unat d) @ slice buf (unat (bw + d)) (unat count - unat (bw + d)) =
          slice buf (unat bw) (unat count - unat bw)"
        unfolding st(4) slice_def using dpos(2) lt
        by (metis (no_types, lifting) add.commute drop_drop le_add_diff_inverse diff_diff_left take_add)
      ultimately show ?thesis using st(1,6) s'(1,3,4) by (intro exI [of _ s']) simp
    qed
  qed
qed

section \<open>Writing a file\<close>

definition one_sector :: "'a fsys_scheme \<Rightarrow> inode \<Rightarrow> bool" where
  "one_sector s i \<longleftrightarrow> (76 * unat (i_no i mod 256)) mod 512 + 76 \<le> 512"

lemma data_behind_table:
  assumes "fs_ok s" and "data_start s \<le> l"
  shows "608 \<le> l - inode_table_lba (sb (part s))"
proof -
  have g: "unat (inode_table_lba (sb (part s))) + 608 \<le> unat (data_start s)" "unat (data_start s) \<le> unat l"
    using assms by (simp_all add: fs_ok_def unat_le_iff)
  then have "unat (l - inode_table_lba (sb (part s))) = unat l - unat (inode_table_lba (sb (part s)))"
    by (intro unat_sub_no_wrap) simp
  then show ?thesis using g by (simp add: unat_le_iff)
qed

text \<open>An inode whose image lies in one sector is written through a buffer of one sector.\<close>

lemma inode_sync_one_sector:
  fixes s :: "'a fsys_scheme"
  assumes "fs_ok s" and "length (i_sectors i) = 13" and "one_sector s i"
  shows "\<exists>f. inode_sync s i (replicate 512 0) = Inr (s\<lparr>sectors := f\<rparr>) \<and> fs_ok (s\<lparr>sectors := f\<rparr>) \<and>
           (\<forall>l \<ge> data_start s. f l = sectors s l) \<and>
           inode_slot (s\<lparr>sectors := f\<rparr>) (i_no i mod 256) = enc_inode (i\<lparr>i_open_cnts := 0, write_deny := False\<rparr>)"
proof -
  let ?k = "i_no i mod 256"
  obtain pos q where pos: "inode_locate (sb (part s)) ?k = Inr pos" "512 * q + unat (off_size pos) = 76 * unat ?k"
    "unat (off_size pos) < 512" "two_sec pos \<longleftrightarrow> 512 < unat (off_size pos) + 76"
    using inode_locate_spec [OF slot_number_less, of "sb (part s)"] by blast
  have "unat (off_size pos) = (76 * unat ?k) mod 512"
    using pos(3) unfolding pos(2) [symmetric] by simp
  then have "inode_secs pos = 1" using assms(3) pos(4) by (simp add: inode_secs_def one_sector_def)
  with put_inode_slot [OF fs_ok_table [OF assms(1)] pos(1) slot_number_less, of "enc_inode (i\<lparr>i_open_cnts := 0, write_deny := False\<rparr>)" "replicate 512 0"]
  obtain s' where s': "inode_sync s i (replicate 512 0) = Inr s'" "inode_slot s' ?k = enc_inode (i\<lparr>i_open_cnts := 0, write_deny := False\<rparr>)"
    "others_kept s s' ?k" using assms(2) pos(1) by (auto simp: inode_sync_def slot_number)
  then have eq: "s' = s\<lparr>sectors := sectors s'\<rparr>" and tab: "table_ok s'" by (simp_all add: others_kept_def)
  have "fs_ok (s\<lparr>sectors := sectors s'\<rparr>)"
    using tab assms(1) eq by (intro fs_ok_write) (simp_all add: table_ok_def)
  moreover have "\<forall>l \<ge> data_start s. sectors s' l = sectors s l"
    using s'(3) data_behind_table [OF assms(1)] by (simp add: others_kept_def)
  ultimately show ?thesis using s'(1,2) eq by (intro exI [of _ "sectors s'"]) simp
qed

lemma contents_cong:
  assumes "has_blocks s i n" and "unat (i_size i) div 512 < n" and "\<And>l. l \<in> set (take n (i_sectors i)) \<Longrightarrow> sectors s' l = sectors s l"
  shows "contents s' i = contents s i"
proof -
  have "file_byte s' i k = file_byte s i k" if "k < unat (i_size i)" for k
  proof -
    have "k div 512 \<le> unat (i_size i) div 512" using that by (intro div_le_mono) simp
    then have k: "k div 512 < n" using assms(2) by simp
    then have "take n (i_sectors i) ! (k div 512) = i_sectors i ! (k div 512)" "k div 512 < length (take n (i_sectors i))"
      using assms(1) by (simp_all add: has_blocks_def)
    then have "i_sectors i ! (k div 512) \<in> set (take n (i_sectors i))" by (metis nth_mem)
    then show ?thesis using assms(3) by (simp add: file_byte_def)
  qed
  then show ?thesis by (simp add: contents_def)
qed

lemma file_ok_div:
  "file_ok s i \<Longrightarrow> used_blocks i = 0 \<longrightarrow> unat (i_size i) = 0"
  by (auto simp: file_ok_def used_blocks_def split: if_splits)

text \<open>The first block, the further ones and the data, from the state behind the allocations on.\<close>

lemma write_core:
  fixes s :: "'a fsys_scheme"
  assumes "fs_ok s" and "file_ok s (inodes s ip)" and "unat (i_size (inodes s ip)) + unat count < 6144"
    and "unat count \<le> length buf" and "0 \<notin> free_bits (blocks s)" and "unat k < length (file_table s)"
    and "(unat (i_size (inodes s ip)) + unat count) div 512 + 1 - used_blocks (inodes s ip) \<le> card (free_bits (blocks s))"
  shows "\<exists>s1 s2 ab s3. first_block s ip = Inr (True, s1) \<and> write_blocks s1 ip count = Inr (Some ab, s2) \<and>
           write_loop (upd_file s2 k (\<lambda>f. f\<lparr>fd_pos := i_size (inodes s2 ip) - 1\<rparr>)) k ip buf count ab True 0 = Inr s3 \<and>
           fs_ok s3 \<and> file_ok s3 (inodes s3 ip) \<and> i_no (inodes s3 ip) = i_no (inodes s ip) \<and>
           contents s3 (inodes s3 ip) = contents s (inodes s ip) @ take (unat count) buf \<and>
           unat (i_size (inodes s3 ip)) = unat (i_size (inodes s ip)) + unat count \<and>
           allocated s3 = allocated s \<and> mallocs s3 = mallocs s \<and> data_start s3 = data_start s \<and> me s3 = me s \<and>
           file_table s3 = (file_table s)[unat k := (file_table s ! unat k)\<lparr>fd_pos := i_size (inodes s ip) - 1 + count\<rparr>] \<and>
           (\<forall>l. block_used s l \<longrightarrow> l \<notin> set (i_sectors (inodes s ip)) \<longrightarrow> sectors s3 l = sectors s l)"
proof -
  let ?i = "inodes s ip" and ?z = "unat (i_size (inodes s ip))"
  define z where "z = unat (i_size (inodes s ip))"
  define n where "n = (z + unat count) div 512 + 1"
  have zn: "z div 512 < n" by (simp add: n_def less_Suc_eq_le div_le_mono)
  have ub: "used_blocks ?i = 0 \<or> used_blocks ?i = z div 512 + 1" by (simp add: used_blocks_def z_def)
  have "used_blocks ?i = 0 \<longrightarrow> free_bits (blocks s) \<noteq> {}" using assms(7) by auto
  from first_block_grows [OF assms(1,2) this assms(5)] obtain s1 where
    s1: "first_block s ip = Inr (True, s1)" "grown s s1 ip (z div 512 + 1)"
      "if used_blocks ?i = 0 then Suc (card (free_bits (blocks s1))) = card (free_bits (blocks s)) else s1 = s"
    unfolding z_def by blast
  have i1: "i_size (inodes s1 ip) = i_size ?i" "i_no (inodes s1 ip) = i_no ?i" using s1(2) by (auto simp: grown_def)
  have g1: "fs_ok s1" "has_blocks s1 (inodes s1 ip) (z div 512 + 1)" using s1(2) by (simp_all add: grown_def)
  have "(z + unat count) div 512 - z div 512 \<le> card (free_bits (blocks s1))"
    using s1(3) assms(7) file_ok_div [OF assms(2)] ub unfolding z_def [symmetric] by (auto split: if_splits)
  from write_blocks_direct [OF g1(1), of ip count, unfolded i1, folded z_def, OF g1(2) assms(3) [folded z_def] this]
  obtain ab s2 where s2: "write_blocks s1 ip count = Inr (Some ab, s2)" "length ab = 140" "grown s1 s2 ip n"
    "\<forall>k. z div 512 \<le> k \<longrightarrow> k \<le> (z + unat count) div 512 \<longrightarrow> ab ! k = i_sectors (inodes s2 ip) ! k"
    unfolding n_def by blast
  have g: "grown s s2 ip n" by (rule grown_trans [OF s1(2) s2(3)])
  then have g2: "fs_ok s2" "has_blocks s2 (inodes s2 ip) n" by (simp_all add: grown_def)
  have i2: "i_size (inodes s2 ip) = i_size ?i" "i_no (inodes s2 ip) = i_no ?i" "file_table s2 = file_table s"
    "allocated s2 = allocated s" "mallocs s2 = mallocs s" "data_start s2 = data_start s" "me s2 = me s"
    using g by (auto simp: grown_def data_start_def)
  let ?s2 = "upd_file s2 k (\<lambda>f. f\<lparr>fd_pos := i_size (inodes s2 ip) - 1\<rparr>)"
  have u: "inodes ?s2 = inodes s2" "sectors ?s2 = sectors s2" "part ?s2 = part s2" by (simp_all add: upd_file_def)
  have p1: "fs_ok ?s2" using g2(1) u(2,3) fs_ok_congs by blast
  have p2: "has_blocks ?s2 (inodes ?s2 ip) n" using g2(2) u by (simp add: has_blocks_def block_used_def block_addr_def blocks_def data_start_def)
  have p3: "unat k < length (file_table ?s2)" using assms(6) i2(3) by (simp add: upd_file_def)
  have p4: "\<forall>j. unat (i_size (inodes ?s2 ip)) div 512 \<le> j \<longrightarrow> j < n \<longrightarrow> ab ! j = i_sectors (inodes ?s2 ip) ! j"
    using s2(4) i2(1) u(1) by (simp add: n_def z_def less_Suc_eq_le)
  have p5: "(unat (i_size (inodes ?s2 ip)) + (unat count - unat 0)) div 512 < n" using i2(1) u(1) by (simp add: n_def z_def)
  from write_loop_appends [OF p1 p2 s2(2) _ assms(4) _ p3 p4 p5, of True] obtain s3 where
    s3: "write_loop ?s2 k ip buf count ab True 0 = Inr s3" "wrote ?s2 s3 k ip n count"
      "contents s3 (inodes s3 ip) = contents ?s2 (inodes ?s2 ip) @ take (unat count) buf"
      "unat (i_size (inodes s3 ip)) = unat (i_size (inodes ?s2 ip)) + unat count"
    by (auto simp: slice_def)
  have hb3: "has_blocks s3 (inodes s3 ip) n" by (rule has_blocks_wrote [OF s3(2) p2])
  have w: "i_sectors (inodes s3 ip) = i_sectors (inodes s2 ip)" "i_no (inodes s3 ip) = i_no ?i" "allocated s3 = allocated s" "mallocs s3 = mallocs s"
    "fs_ok s3" "data_start s3 = data_start s" "me s3 = me s"
    "file_table s3 = (file_table s)[unat k := (file_table s ! unat k)\<lparr>fd_pos := i_size ?i - 1 + count\<rparr>]"
    "\<And>l. l \<notin> set (take n (i_sectors (inodes s2 ip))) \<Longrightarrow> sectors s3 l = sectors s2 l"
    using s3(2) i2 u assms(6) by (auto simp: wrote_def upd_file_def data_start_def)
  have fo: "file_ok s3 (inodes s3 ip)"
  proof -
    have "block_used s3 (i_sectors (inodes s3 ip) ! 0)" using hb3 by (simp add: has_blocks_def n_def)
    then have "i_sectors (inodes s3 ip) ! 0 \<noteq> 0" by (rule block_used_bounds(3) [OF w(5)])
    then show ?thesis using hb3 s3(4) i2(1) u(1) by (simp add: file_ok_def used_blocks_def n_def z_def)
  qed
  have old: "contents s2 (inodes s2 ip) = contents s ?i"
  proof -
    have "file_byte s2 (inodes s2 ip) j = file_byte s ?i j" if "j < z" for j
    proof -
      have nz: "used_blocks ?i = z div 512 + 1" using file_ok_div [OF assms(2)] ub that by (auto simp: z_def)
      then have hb: "has_blocks s ?i (z div 512 + 1)" using assms(2) by (simp add: file_ok_def)
      have "j div 512 \<le> z div 512" using that by (intro div_le_mono) simp
      then have bu: "block_used s (i_sectors ?i ! (j div 512))" and j13: "j div 512 < 13"
        using hb by (simp_all add: has_blocks_def)
      then have "i_sectors (inodes s2 ip) ! (j div 512) = i_sectors ?i ! (j div 512)"
        using g block_used_bounds(3) [OF assms(1) bu] unfolding grown_def by blast
      moreover have "sectors s2 (i_sectors ?i ! (j div 512)) = sectors s (i_sectors ?i ! (j div 512))"
        using g block_used_bounds(1) [OF assms(1) bu] by (simp add: grown_def data_kept_def)
      ultimately show ?thesis by (simp add: file_byte_def)
    qed
    then show ?thesis by (simp add: contents_def i2(1) z_def)
  qed
  have "sectors s3 l = sectors s l" if l: "block_used s l" "l \<notin> set (i_sectors ?i)" for l
  proof -
    have "l \<notin> set (i_sectors (inodes s2 ip))"
      using g l block_used_bounds(3) [OF assms(1) l(1)] unfolding grown_def by blast
    then have nin: "l \<notin> set (take n (i_sectors (inodes s2 ip)))" by (auto dest: in_set_takeD)
    then show ?thesis using w(9) [OF nin] g block_used_bounds(1) [OF assms(1) l(1)] by (simp add: grown_def data_kept_def)
  qed
  then show ?thesis
    using s1(1) s2(1) s3(1,3,4) w(2-8) fo old i2(1) u
    by (intro exI [of _ s1] exI [of _ s2] exI [of _ ab] exI [of _ s3]) (simp add: contents_def file_byte_def)
qed

text \<open>The state in which \<open>file_write\<close> and \<open>file_read\<close> run after their two allocations.\<close>

abbreviation working :: "'a fsys_scheme \<Rightarrow> u32 \<Rightarrow> u32 \<Rightarrow> u32 list \<Rightarrow> 'a fsys_scheme" where
  "working s p b ms \<equiv> s\<lparr>mallocs := ms, allocated := insert b (insert p (allocated s))\<rparr>"

lemma working_same [simp]:
  "fs_ok (working s p b ms) = fs_ok s" "block_used (working s p b ms) = block_used s"
  "blocks (working s p b ms) = blocks s" "data_start (working s p b ms) = data_start s" "has_blocks (working s p b ms) i n = has_blocks s i n"
  "file_ok (working s p b ms) i = file_ok s i" "contents (working s p b ms) i = contents s i"
  by (simp_all add: block_used_def block_addr_def blocks_def data_start_def has_blocks_def file_ok_def contents_def file_byte_def fun_eq_iff)

lemma file_write_effect:
  fixes s :: "'a fsys_scheme"
  assumes "fs_ok s" and "unat k < length (file_table s)" and "fd_inode (file_table s ! unat k) = ip"
    and "get_inode s ip = Inr i" and "file_ok s i" and "one_sector s i"
    and "unat (i_size i) + unat count < 12 * 512" and "unat count \<le> length buf"
    and "(unat (i_size i) + unat count) div 512 + 1 - used_blocks i \<le> card (free_bits (blocks s))" and "0 \<notin> free_bits (blocks s)"
    and "two_mallocs s p b ms" and "p \<notin> allocated s"
  shows "\<exists>s' i'. file_write s k buf count = Inr (count, s') \<and> get_inode s' ip = Inr i' \<and>
           contents s' i' = contents s i @ take (unat count) buf \<and> file_ok s' i' \<and> fs_ok s' \<and>
           inode_slot s' (i_no i mod 256) = enc_inode (i'\<lparr>i_open_cnts := 0, write_deny := False\<rparr>) \<and>
           (\<forall>l. block_used s l \<longrightarrow> l \<notin> set (i_sectors i) \<longrightarrow> sectors s' l = sectors s l) \<and> allocated s' = allocated s \<and>
           mallocs s' = ms \<and> me s' = me s \<and> unat (i_size i') = unat (i_size i) + unat count \<and>
           file_table s' = (file_table s)[unat k := (file_table s ! unat k)\<lparr>fd_pos := i_size i - 1 + count\<rparr>]"
proof -
  let ?w = "working s p b ms"
  have i: "inodes s ip = i" "ip \<in> allocated s" using assms(4) by (auto simp: get_inode_def split: if_splits)
  have ms: "mallocs s = p # b # ms" "p \<noteq> NULL" "b \<noteq> NULL" "p \<noteq> b" "b \<notin> allocated s"
    using assms(11) by (simp_all add: two_mallocs_def)
  have fits: "unat (i_size i) + unat count < 6144" using assms(7) by simp
  from write_core [of ?w ip count buf k] assms(1,2,5,8-10) fits i(1)
  obtain s1 s2 ab s3 where
    c: "first_block ?w ip = Inr (True, s1)" "write_blocks s1 ip count = Inr (Some ab, s2)"
      "write_loop (upd_file s2 k (\<lambda>f. f\<lparr>fd_pos := i_size (inodes s2 ip) - 1\<rparr>)) k ip buf count ab True 0 = Inr s3"
      "fs_ok s3" "file_ok s3 (inodes s3 ip)" "i_no (inodes s3 ip) = i_no i"
      "contents s3 (inodes s3 ip) = contents s i @ take (unat count) buf"
      "allocated s3 = insert b (insert p (allocated s))"
      "data_start s3 = data_start s" "me s3 = me s" "mallocs s3 = ms"
      "file_table s3 = (file_table s)[unat k := (file_table s ! unat k)\<lparr>fd_pos := i_size i - 1 + count\<rparr>]"
      "unat (i_size (inodes s3 ip)) = unat (i_size i) + unat count"
      "\<And>l. block_used s l \<Longrightarrow> l \<notin> set (i_sectors i) \<Longrightarrow> sectors s3 l = sectors s l"
    by auto
  let ?i = "inodes s3 ip"
  have hb: "has_blocks s3 ?i (used_blocks ?i)" using c(5) by (simp add: file_ok_def)
  then have len: "length (i_sectors ?i) = 13" by (simp add: has_blocks_def)
  have "one_sector s3 ?i" using assms(6) c(6) by (simp add: one_sector_def)
  from inode_sync_one_sector [OF c(4) len this] obtain f where
    f: "inode_sync s3 ?i (replicate 512 0) = Inr (s3\<lparr>sectors := f\<rparr>)" "fs_ok (s3\<lparr>sectors := f\<rparr>)"
      "\<And>l. data_start s3 \<le> l \<Longrightarrow> f l = sectors s3 l"
      "inode_slot (s3\<lparr>sectors := f\<rparr>) (i_no i mod 256) = enc_inode (?i\<lparr>i_open_cnts := 0, write_deny := False\<rparr>)"
    unfolding c(6) by blast
  let ?s' = "s3\<lparr>sectors := f, allocated := allocated s\<rparr>"
  have "\<not> i_size i + count > BLOCK_SIZE * 140"
    using small_sum(1) [OF fits] fits by (simp add: BLOCK_SIZE_def unat_less_iff)
  moreover have "insert b (insert p (allocated s)) - {b} - {p} = allocated s" using ms(4,5) assms(12) by auto
  ultimately have run: "file_write s k buf count = Inr (count, ?s')"
    using assms(2-4) ms c(1-3,8) f(1) i(1)
    by (simp add: file_write_def fs_malloc_def fs_free_def Let_def)
  have same: "contents (s3\<lparr>sectors := f\<rparr>) ?i = contents s3 ?i"
  proof (cases "used_blocks ?i = 0")
    case True
    then show ?thesis using file_ok_div [OF c(5)] by (simp add: contents_def)
  next
    case False
    then have "unat (i_size ?i) div 512 < used_blocks ?i" by (simp add: used_blocks_def split: if_splits)
    moreover have "f l = sectors s3 l" if "l \<in> set (take (used_blocks ?i) (i_sectors ?i))" for l
    proof -
      have "block_used s3 l" using that hb by (auto simp: has_blocks_def in_set_conv_nth)
      then show ?thesis using block_used_bounds(1) [OF c(4)] f(3) by blast
    qed
    ultimately show ?thesis by (intro contents_cong [OF hb]) simp_all
  qed
  have "sectors ?s' l = sectors s l" if "block_used s l" "l \<notin> set (i_sectors i)" for l
    using c(14) [OF that] f(3) block_used_bounds(1) [OF assms(1) that(1)] c(9) by simp
  moreover have "file_ok ?s' ?i" using c(5) by (simp add: file_ok_def has_blocks_def block_used_def block_addr_def blocks_def data_start_def)
  moreover have "fs_ok ?s'" using f(2) by simp
  moreover have "contents ?s' ?i = contents s i @ take (unat count) buf"
    using same c(7) by simp
  moreover have "inode_slot ?s' (i_no i mod 256) = enc_inode (?i\<lparr>i_open_cnts := 0, write_deny := False\<rparr>)"
    using f(4) by (simp add: inode_slot_def region_def byte_at_def)
  moreover have "get_inode ?s' ip = Inr ?i" using i(2) by (simp add: get_inode_def)
  ultimately show ?thesis using run c(10-13) by (intro exI [of _ ?s'] exI [of _ ?i]) simp
qed

text \<open>
  C11: \<open>file_write\<close> appends.  For a file kept in its direct blocks that will still fit into them,
  on a disk with enough free blocks, writing \<open>count\<close> bytes returns \<open>count\<close> and leaves a well-formed
  file whose contents are the old contents followed by these bytes, wherever the file position
  was; every sector in use that does not belong to the file keeps its bytes, the inode is in its
  slot of the table on disk, and the buffers are given back.  It is required that the image of
  the inode lies in one sector, because \<open>file_write\<close> hands \<open>inode_sync\<close> a buffer of one sector.
\<close>

theorem file_write_appends:
  fixes s :: "'a fsys_scheme"
  assumes "fs_ok s" and "unat k < length (file_table s)" and "fd_inode (file_table s ! unat k) = ip"
    and "get_inode s ip = Inr i" and "file_ok s i" and "one_sector s i"
    and "unat (i_size i) + unat count < 12 * 512" and "unat count \<le> length buf"
    and "(unat (i_size i) + unat count) div 512 + 1 - used_blocks i \<le> card (free_bits (blocks s))" and "0 \<notin> free_bits (blocks s)"
    and "two_mallocs s p b ms" and "p \<notin> allocated s"
  shows "\<exists>s' i'. file_write s k buf count = Inr (count, s') \<and> get_inode s' ip = Inr i' \<and>
           contents s' i' = contents s i @ take (unat count) buf \<and> file_ok s' i' \<and> fs_ok s' \<and>
           inode_slot s' (i_no i mod 256) = enc_inode (i'\<lparr>i_open_cnts := 0, write_deny := False\<rparr>) \<and>
           (\<forall>l. block_used s l \<longrightarrow> l \<notin> set (i_sectors i) \<longrightarrow> sectors s' l = sectors s l) \<and> allocated s' = allocated s"
  using file_write_effect [OF assms] by blast

text \<open>A mounted partition with one open file, in entry 3 of the file table.\<close>

definition file_fs :: "u32 \<Rightarrow> u32 list \<Rightarrow> fsys" where
  "file_fs sz bs = dir_fs\<lparr>inodes := (\<lambda>_. (inode_init 1)\<lparr>i_size := sz, i_sectors := bs\<rparr>),
     file_table := (replicate 32 no_file)[3 := \<lparr>fd_pos = 0, fd_flag = 2, fd_inode = 0xc0200000\<rparr>],
     me := (demo_task TASK_RUNNING)\<lparr>fd_table := [0, 1, 2, 3, -1, -1, -1, -1]\<rparr>,
     mallocs := [0xc0110000, 0xc0120000, 0xc0110000, 0xc0120000]\<rparr>"

lemma file_fs_facts:
  "fs_ok (file_fs sz bs)" "length (file_table (file_fs sz bs)) = 32"
  "file_table (file_fs sz bs) ! 3 = \<lparr>fd_pos = 0, fd_flag = 2, fd_inode = 0xc0200000\<rparr>"
  "get_inode (file_fs sz bs) 0xc0200000 = Inr ((inode_init 1)\<lparr>i_size := sz, i_sectors := bs\<rparr>)"
  "two_mallocs (file_fs sz bs) 0xc0110000 0xc0120000 [0xc0110000, 0xc0120000]" "0xc0110000 \<notin> allocated (file_fs sz bs)"
  "0 \<notin> free_bits (blocks (file_fs sz bs))" "1 \<le> card (free_bits (blocks (file_fs sz bs)))"
proof -
  have "fs_ok (file_fs sz bs) = fs_ok dir_fs" by (rule fs_ok_congs) (simp_all add: file_fs_def)
  then show "fs_ok (file_fs sz bs)" using dir_fs_ok by simp
  have "1 \<in> free_bits (blocks (file_fs sz bs))"
    by (simp add: free_bits_def blocks_def file_fs_def dir_fs_def bm_bit_def bm_size_def bitmap_of_def bit_1_iff)
  then have "0 < card (free_bits (blocks (file_fs sz bs)))" by (auto simp: card_gt_0_iff)
  then show "1 \<le> card (free_bits (blocks (file_fs sz bs)))" by simp
  show "0 \<notin> free_bits (blocks (file_fs sz bs))"
    by (simp add: free_bits_def blocks_def file_fs_def dir_fs_def bm_bit_def bm_size_def bitmap_of_def)
qed (simp_all add: file_fs_def dir_fs_def some_fs_def get_inode_def two_mallocs_def)

lemma file_fs_me: "me (file_fs sz bs) = (demo_task TASK_RUNNING)\<lparr>fd_table := [0, 1, 2, 3, -1, -1, -1, -1]\<rparr>"
  by (simp add: file_fs_def)

lemma empty_file_facts: "file_ok (file_fs 0 (replicate 13 0)) (inode_init 1)" "used_blocks (inode_init 1) = 0" "one_sector s (inode_init 1)"
  by (auto simp: file_ok_def has_blocks_def used_blocks_def inode_init_def one_sector_def nth_Cons')

theorem file_write_appends_witness:
  "\<exists>s' i'. file_write (file_fs 0 (replicate 13 0)) 3 [104, 105] 2 = Inr (2, s') \<and>
     get_inode s' 0xc0200000 = Inr i' \<and> contents s' i' = [104, 105]"
proof -
  let ?s = "file_fs 0 (replicate 13 0)"
  have "contents ?s (inode_init 1) = []" by (simp add: contents_def inode_init_def)
  then show ?thesis
    using file_write_appends [of ?s 3 "0xc0200000" "inode_init 1" 2 "[104, 105]" "0xc0110000" "0xc0120000" "[0xc0110000, 0xc0120000]"]
      file_fs_facts [of 0 "replicate 13 0"] empty_file_facts
    by (auto simp: inode_init_def)
qed

section \<open>Growing into the indirect blocks\<close>

lemma sync_block_set:
  fixes s :: "'a fsys_scheme"
  assumes "bitmap_sync s (b - data_start_lba (sb (part s))) BLOCK_BITMAP = Inr s'" and "inodes s' = inodes s"
  shows "sync_block (set_sector s ip k b) b = Inr (set_sector s' ip k b)"
  using bitmap_sync_inodes [OF assms(1), of "(inodes s)(ip := (inodes s ip)\<lparr>i_sectors := (i_sectors (inodes s ip))[k := b]\<rparr>)"] assms(2)
  by (simp add: sync_block_def set_sector_def upd_inode_def)

text \<open>
  C26: a write that takes a file from fewer than twelve blocks past the twelfth fails.  For the
  direct blocks it has to add, the loop of \<open>file_write\<close> uses the address of the new block in
  place of its number as the index into \<open>i_sectors\<close>, and reads and would write far behind the
  array of 13.
\<close>

theorem write_past_direct_overruns:
  fixes s :: "'a fsys_scheme"
  assumes "fs_ok s" and "unat k < length (file_table s)" and "fd_inode (file_table s ! unat k) = ip"
    and "get_inode s ip = Inr i" and "file_ok s i" and "unat (i_size i) < 11 * 512"
    and "12 * 512 \<le> unat (i_size i) + unat count" and "unat (i_size i) + unat count < 140 * 512"
    and "3 \<le> card (free_bits (blocks s))" and "0 \<notin> free_bits (blocks s)" and "two_mallocs s p b ms"
  shows "file_write s k buf count = Inl OutOfBounds"
proof -
  let ?w = "working s p b ms"
  define z where "z = unat (i_size i)"
  have i: "inodes s ip = i" using assms(4) by (auto simp: get_inode_def split: if_splits)
  have ne: "free_bits (blocks s) \<noteq> {}" using assms(9) by auto
  have "\<exists>s'. first_block ?w ip = Inr (True, s') \<and> grown ?w s' ip (unat (i_size (inodes ?w ip)) div 512 + 1) \<and>
      (if used_blocks (inodes ?w ip) = 0 then Suc (card (free_bits (blocks s'))) = card (free_bits (blocks ?w)) else s' = ?w)"
    by (rule first_block_grows) (use assms(1,5,10) i ne in simp_all)
  moreover have "inodes ?w ip = i" "blocks ?w = blocks s" using i by simp_all
  ultimately obtain s1 where s1: "first_block ?w ip = Inr (True, s1)" "grown ?w s1 ip (z div 512 + 1)"
    "if used_blocks i = 0 then Suc (card (free_bits (blocks s1))) = card (free_bits (blocks s)) else s1 = ?w"
    unfolding z_def by metis
  have i1: "i_size (inodes s1 ip) = i_size i" using s1(2) i by (auto simp: grown_def)
  have g1: "fs_ok s1" "has_blocks s1 (inodes s1 ip) (z div 512 + 1)" using s1(2) by (simp_all add: grown_def)
  have c1: "2 \<le> card (free_bits (blocks s1))" using s1(3) assms(9) by (auto split: if_splits)
  then have "free_bits (blocks s1) \<noteq> {}" by auto
  from take_block [OF g1(1) this] obtain m t1 s2 where
    al: "block_bitmap_alloc s1 = Inr (block_addr s1 m, t1)" "data_start_lba (sb (part t1)) = data_start s1"
      "bitmap_sync t1 (block_addr s1 m - data_start s1) BLOCK_BITMAP = Inr s2" "took s1 m s2" "t1 = s1\<lparr>part := part s2\<rparr>" by blast
  let ?b = "block_addr s1 m"
  have b1: "?b \<noteq> -1" using block_addr_bounds [OF g1(1) tookD(11) [OF al(4)]] by simp
  have t1: "inodes t1 = inodes s1" "inodes s2 = inodes t1" using al(5) tookD(2) [OF al(4)] by simp_all
  have s12: "i_sectors (inodes s1 ip) ! 12 = 0" "length (i_sectors (inodes s1 ip)) = 13"
    using g1(2) assms(6) by (auto simp: has_blocks_def z_def)
  have sync: "sync_block (set_sector t1 ip 12 ?b) ?b = Inr (set_sector s2 ip 12 ?b)"
    by (rule sync_block_set) (use al(2,3) t1 in simp_all)
  let ?s3 = "set_sector s2 ip 12 ?b"
  have ok3: "fs_ok ?s3" using tookD(8) [OF al(4)] by (simp add: set_sector_def)
  have "free_bits (blocks ?s3) = free_bits (blocks s1) - {m}"
    using took_free [OF al(4)] by (simp add: set_sector_def)
  moreover have "m \<in> free_bits (blocks s1)" using al(4) by (simp add: took_def)
  ultimately have "1 \<le> card (free_bits (blocks ?s3))" using c1 by simp
  then have "free_bits (blocks ?s3) \<noteq> {}" by auto
  from take_block [OF ok3 this] obtain m' t3 s4 where
    al3: "block_bitmap_alloc ?s3 = Inr (block_addr ?s3 m', t3)" "t3 = ?s3\<lparr>part := part s4\<rparr>" "took ?s3 m' s4" by blast
  let ?c = "block_addr ?s3 m'"
  have c: "?c \<noteq> -1" "data_start ?s3 \<le> ?c"
    using block_addr_bounds [OF ok3 tookD(11) [OF al3(3)]] by simp_all
  have "608 \<le> unat (data_start ?s3)" using ok3 by (simp add: fs_ok_def)
  then have big: "13 \<le> unat ?c" using c(2) by (simp add: unat_le_iff)
  have l3: "length (i_sectors (inodes t3 ip)) = 13" using al3(2) t1 s12(2) by (simp add: set_sector_def upd_inode_def)
  have "ld (i_sectors (inodes t3 ip)) ?c = Inl OutOfBounds" using big l3 by (simp add: ld_def)
  then have loop: "extend_mixed ?s3 ip ab (z div 512 + 1) (Suc n) = Inl OutOfBounds" for ab n
    using al3(1) c(1) assms(6) by (simp add: z_def div_less_iff_less_mult)
  have sum: "unat (i_size i + count) = z + unat count"
    using assms(8) by (subst unat_add_no_wrap) (simp_all add: z_def)
  have zd: "z div 512 < 11" "12 \<le> (z + unat count) div 512" "(z + unat count) div 512 < 140"
    using assms(6-8) by (simp_all add: z_def div_less_iff_less_mult less_eq_div_iff_mult_less_eq)
  have uh: "unat (i_size i div BLOCK_SIZE + 1) = z div 512 + 1" "unat ((i_size i + count) div BLOCK_SIZE + 1) = (z + unat count) div 512 + 1"
    using zd sum by (subst unat_add_no_wrap; simp add: BLOCK_SIZE_def unat_div_word z_def)+
  have "unat ((i_size i + count) div BLOCK_SIZE + 1) \<noteq> unat (i_size i div BLOCK_SIZE + 1)" unfolding uh using zd by simp
  then have "(i_size i + count) div BLOCK_SIZE + 1 \<noteq> i_size i div BLOCK_SIZE + 1" by metis
  then have add: "(i_size i + count) div BLOCK_SIZE + 1 - (i_size i div BLOCK_SIZE + 1) \<noteq> 0"
    by (simp only: right_minus_eq) simp
  have cmp: "(i_size i + count) div BLOCK_SIZE + 1 \<le> 140" "\<not> (i_size i + count) div BLOCK_SIZE + 1 \<le> 12"
    "i_size i div BLOCK_SIZE + 1 \<le> 12" unfolding unat_le_iff uh using zd by simp_all
  have "0 < (z + unat count) div 512 + 1 - (z div 512 + 1)" using zd by simp
  then obtain n where n: "(z + unat count) div 512 + 1 - (z div 512 + 1) = Suc n" by (metis gr0_implies_Suc)
  have "write_blocks s1 ip count = Inl OutOfBounds"
    unfolding write_blocks_def Let_def i1 uh n
    using add cmp al(1) b1 s12(1) t1(1) sync loop by (simp del: extend_mixed.simps right_minus_eq)
  moreover have "\<not> i_size i + count > BLOCK_SIZE * 140"
    using sum assms(8) by (simp add: BLOCK_SIZE_def unat_less_iff z_def)
  moreover have ms: "mallocs s = p # b # ms" "p \<noteq> NULL" "b \<noteq> NULL" using assms(11) by (simp_all add: two_mallocs_def)
  ultimately show ?thesis
    using assms(2-4) s1(1) by (simp add: file_write_def fs_malloc_def Let_def)
qed

theorem write_past_direct_overruns_witness:
  "file_write (file_fs 0 (replicate 13 0)) 3 (replicate 6144 7) 6144 = Inl OutOfBounds"
proof -
  let ?s = "file_fs 0 (replicate 13 0)"
  have "{1, 2, 3} \<subseteq> free_bits (blocks ?s)"
    by (simp add: free_bits_def blocks_def file_fs_def dir_fs_def bm_bit_def bm_size_def bitmap_of_def bit_1_iff)
  then have "card {1, 2, 3 :: nat} \<le> card (free_bits (blocks ?s))" by (intro card_mono) simp_all
  then show ?thesis
    using write_past_direct_overruns [of ?s 3 "0xc0200000" "inode_init 1" 6144 "0xc0110000" "0xc0120000" "[0xc0110000, 0xc0120000]" "replicate 6144 7"]
      file_fs_facts [of 0 "replicate 13 0"] empty_file_facts
    by (simp add: inode_init_def)
qed

end
