(* ===== verification/Path.thy ===== *)
theory Path
  imports Cstring
begin

text \<open>
  Path names, from \<open>path_parse\<close> and \<open>path_depth_cnt\<close> of \<open>fs/fs.c\<close>.

  A path is the bytes from a pointer on; \<open>path_parse\<close> stores the next component at the front of
  the caller's buffer and returns the pointer behind it, \<open>None\<close> for \<open>NULL\<close>.  The specification
  \<open>comps\<close> splits the string at the slashes; the lemmas show that stepping with \<open>path_parse\<close>
  yields exactly these components.
\<close>

section \<open>The operations\<close>

fun skip_slashes :: "u8 list \<Rightarrow> u8 list res" where
  "skip_slashes [] = Inl OutOfBounds"
| "skip_slashes (c # cs) = (if c = 47 then skip_slashes cs else Inr (c # cs))"

fun copy_name :: "u8 list \<Rightarrow> u8 list \<Rightarrow> (u8 list \<times> u8 list) res" where
  "copy_name [] name_store = Inl OutOfBounds"
| "copy_name (c # cs) name_store =
     (if c \<noteq> 47 \<and> c \<noteq> 0 then
        case name_store of
          [] \<Rightarrow> Inl OutOfBounds
        | d # ds \<Rightarrow> rbind (copy_name cs ds) (\<lambda>(p, r). Inr (p, c # r))
      else Inr (c # cs, name_store))"

definition path_parse :: "u8 list \<Rightarrow> u8 list \<Rightarrow> (u8 list option \<times> u8 list) res" where
  "path_parse pathname name_store =
     (case pathname of
        [] \<Rightarrow> Inl OutOfBounds
      | c # _ \<Rightarrow>
          if c = 0 then Inr (None, name_store)
          else rbind (if c = 47 then skip_slashes pathname else Inr pathname) (\<lambda>pathname.
            rbind (copy_name pathname name_store) (\<lambda>(pathname, name_store). Inr (Some pathname, name_store))))"

lemma skip_slashes_length: "skip_slashes p = Inr q \<Longrightarrow> length q \<le> length p"
  by (induction p rule: skip_slashes.induct) (auto split: if_splits)

lemma copy_name_length: "copy_name p store = Inr (q, r) \<Longrightarrow> length q \<le> length p"
  by (induction p store arbitrary: r rule: copy_name.induct)
    (auto simp: rbind_eq_Inr split: if_splits list.splits intro: le_SucI)

text \<open>Every call makes progress: it consumes a byte or reports the end.\<close>

lemma path_parse_shrinks:
  assumes "path_parse p store = Inr (Some q, r)"
  shows "length q < length p"
proof -
  obtain c cs where p: "p = c # cs" "c \<noteq> 0"
    using assms by (auto simp: path_parse_def split: list.splits if_splits)
  show ?thesis
  proof (cases "c = 47")
    case True
    then obtain p1 where p1: "skip_slashes cs = Inr p1" "copy_name p1 store = Inr (q, r)"
      using assms p by (auto simp: path_parse_def rbind_eq_Inr)
    then show ?thesis using skip_slashes_length [OF p1(1)] copy_name_length [OF p1(2)] p by simp
  next
    case False
    then obtain d ds r' where "store = d # ds" "copy_name cs ds = Inr (q, r')"
      using assms p by (auto simp: path_parse_def rbind_eq_Inr split: list.splits)
    then show ?thesis using copy_name_length [of cs ds q r'] p by simp
  qed
qed

definition name_len :: nat where
  "name_len = 16"

text \<open>
  The loop of \<open>path_depth_cnt\<close>.  Before the first call of \<open>path_parse\<close> the array \<open>name\<close> is not
  initialised, and a path without a component leaves it so; in the later rounds it is zeroed.
\<close>

function depth_loop :: "u8 list option \<Rightarrow> u8 list \<Rightarrow> u32 \<Rightarrow> u32 res" where
  "depth_loop p name depth =
     (if hd name = 0 then Inr depth
      else case p of
          None \<Rightarrow> Inr (depth + 1)
        | Some p \<Rightarrow> rbind (path_parse p (replicate name_len 0)) (\<lambda>(p, name). depth_loop p name (depth + 1)))"
  by pat_completeness auto

termination
  by (relation "measure (\<lambda>(p, _, _). case p of None \<Rightarrow> 0 | Some p \<Rightarrow> Suc (length p))")
    (auto dest: path_parse_shrinks split: option.splits)

declare depth_loop.simps [simp del]

definition path_depth_cnt :: "u8 list option \<Rightarrow> i32 res" where
  "path_depth_cnt pathname =
     (case pathname of
        None \<Rightarrow> Inl Panic
      | Some p \<Rightarrow>
          rbind (path_parse p (replicate name_len 0)) (\<lambda>(p, name).
            if hd name = 0 then Inl Uninitialised else depth_loop p name 0))"

section \<open>Components of a path\<close>

text \<open>\<open>split_at c s\<close>: the pieces of \<open>s\<close> between the occurrences of \<open>c\<close>.\<close>

fun split_at :: "'a \<Rightarrow> 'a list \<Rightarrow> 'a list list" where
  "split_at c [] = [[]]"
| "split_at c (x # xs) =
     (if x = c then [] # split_at c xs else (case split_at c xs of [] \<Rightarrow> [[x]] | y # ys \<Rightarrow> (x # y) # ys))"

definition comps :: "u8 list \<Rightarrow> u8 list list" where
  "comps s = filter (\<lambda>c. c \<noteq> []) (split_at 47 s)"

lemma split_at_nonempty [simp]: "split_at c s \<noteq> []"
  by (induction s) (auto split: list.splits)

lemma split_at_append: "c \<notin> set a \<Longrightarrow> split_at c (a @ s) = (a @ hd (split_at c s)) # tl (split_at c s)"
  by (induction a) (auto split: list.splits)

lemma split_at_whole: "c \<notin> set a \<Longrightarrow> split_at c a = [a]"
  using split_at_append [of c a "[]"] by simp

lemma comps_Nil [simp]: "comps [] = []"
  by (simp add: comps_def)

lemma comps_slash [simp]: "comps (47 # s) = comps s"
  by (simp add: comps_def)

lemma comps_cons:
  assumes "a \<noteq> []" and "47 \<notin> set a" and "s = [] \<or> hd s = 47"
  shows "comps (a @ s) = a # comps s"
proof (cases s)
  case Nil
  then show ?thesis using assms by (simp add: comps_def split_at_whole)
next
  case (Cons x xs)
  then show ?thesis using assms by (simp add: comps_def split_at_append)
qed

section \<open>What one step of the parser does\<close>

abbreviation no_slash :: "u8 list \<Rightarrow> u8 list" where
  "no_slash p \<equiv> dropWhile (\<lambda>c. c = 47) p"

abbreviation first_name :: "u8 list \<Rightarrow> u8 list" where
  "first_name p \<equiv> takeWhile (\<lambda>c. c \<noteq> 47 \<and> c \<noteq> 0) p"

lemma skip_slashes_eq: "terminated p \<Longrightarrow> skip_slashes p = Inr (no_slash p) \<and> terminated (no_slash p)"
  by (induction p) auto

lemma copy_name_eq:
  "terminated p \<Longrightarrow> copy_name p store =
     (if length (first_name p) \<le> length store
      then Inr (drop (length (first_name p)) p, first_name p @ drop (length (first_name p)) store)
      else Inl OutOfBounds)"
  by (induction p store rule: copy_name.induct) (auto split: list.split)

lemma terminated_drop_name: "terminated p \<Longrightarrow> terminated (drop (length (first_name p)) p)"
  by (induction p) auto

lemma comps_no_slash: "comps (cstr (no_slash p)) = comps (cstr p)"
  by (induction p) auto

lemma cstr_split: "terminated p \<Longrightarrow> cstr p = first_name p @ cstr (drop (length (first_name p)) p)"
  by (induction p) auto

lemma drop_name_head: "terminated p \<Longrightarrow> cstr (drop (length (first_name p)) p) = [] \<or> hd (cstr (drop (length (first_name p)) p)) = 47"
  by (induction p) auto

lemma comps_first:
  assumes "terminated p" and "first_name p \<noteq> []"
  shows "comps (cstr p) = first_name p # comps (cstr (drop (length (first_name p)) p))"
proof -
  have "47 \<notin> set (first_name p)" by (auto dest: set_takeWhileD)
  from comps_cons [OF assms(2) this drop_name_head [OF assms(1)]] show ?thesis
    using cstr_split [OF assms(1)] by simp
qed

lemma comps_none: "first_name (no_slash p) = [] \<Longrightarrow> terminated p \<Longrightarrow> comps (cstr p) = []"
  by (induction p) (auto split: if_splits)

text \<open>One call of \<open>path_parse\<close>: it takes the first component, or reports that there is none.\<close>

lemma path_parse_step:
  assumes "terminated p"
  shows "case comps (cstr p) of
           [] \<Rightarrow> \<exists>q. path_parse p (replicate name_len 0) = Inr (q, replicate name_len 0)
         | a # as \<Rightarrow>
             if length a \<le> 16
             then \<exists>q. path_parse p (replicate name_len 0) = Inr (Some q, a @ replicate (16 - length a) 0) \<and>
                    terminated q \<and> comps (cstr q) = as \<and> a \<noteq> [] \<and> hd a \<noteq> 0
             else path_parse p (replicate name_len 0) = Inl OutOfBounds"
proof (cases "hd p = 0")
  case True
  then show ?thesis using assms by (cases p) (auto simp: path_parse_def)
next
  case False
  let ?q = "no_slash p"
  let ?n = "first_name ?q"
  have tq: "terminated ?q" using skip_slashes_eq [OF assms] by simp
  have pp: "path_parse p (replicate name_len 0) =
      (if length ?n \<le> 16 then Inr (Some (drop (length ?n) ?q), ?n @ replicate (16 - length ?n) 0) else Inl OutOfBounds)"
  proof -
    have e: "(if hd p = 47 then skip_slashes p else Inr p) = Inr ?q"
      using skip_slashes_eq [OF assms] assms by (cases p) auto
    obtain c cs where p: "p = c # cs" using assms by (cases p) auto
    have "path_parse p (replicate name_len 0) =
        rbind (if hd p = 47 then skip_slashes p else Inr p) (\<lambda>pathname.
          rbind (copy_name pathname (replicate name_len 0)) (\<lambda>(pathname, name_store). Inr (Some pathname, name_store)))"
      using False by (simp add: path_parse_def p del: skip_slashes.simps copy_name.simps)
    then show ?thesis
      unfolding e using copy_name_eq [OF tq, of "replicate name_len 0"] by (simp add: name_len_def)
  qed
  show ?thesis
  proof (cases "?n = []")
    case True
    then show ?thesis using pp comps_none [OF True assms] by (simp add: name_len_def)
  next
    case nonempty: False
    have c: "comps (cstr p) = ?n # comps (cstr (drop (length ?n) ?q))"
      using comps_first [OF tq nonempty] by (simp add: comps_no_slash)
    have "hd ?n \<noteq> 0" using nonempty by (cases ?q) (auto split: if_splits)
    then show ?thesis using pp terminated_drop_name [OF tq] nonempty by (simp add: c)
  qed
qed

lemma depth_loop_eq:
  "terminated p \<Longrightarrow> hd a \<noteq> 0 \<Longrightarrow>
   depth_loop (Some p) a n =
     (if \<forall>c \<in> set (comps (cstr p)). length c \<le> 16 then Inr (n + 1 + of_nat (length (comps (cstr p)))) else Inl OutOfBounds)"
proof (induction "comps (cstr p)" arbitrary: p a n)
  case Nil
  then obtain q where "path_parse p (replicate name_len 0) = Inr (q, replicate name_len 0)"
    using path_parse_step [of p] by auto
  with Nil show ?case by (simp add: depth_loop.simps [of "Some p"]) (simp add: depth_loop.simps [of q] name_len_def)
next
  case (Cons c cs)
  show ?case
  proof (cases "length c \<le> 16")
    case True
    then obtain q where q: "path_parse p (replicate name_len 0) = Inr (Some q, c @ replicate (16 - length c) 0)"
      "terminated q" "comps (cstr q) = cs" "c \<noteq> []" "hd c \<noteq> 0"
      using path_parse_step [OF Cons.prems(1)] True unfolding Cons.hyps(2) [symmetric] by auto
    have "depth_loop (Some q) (c @ replicate (16 - length c) 0) (n + 1) =
        (if \<forall>d \<in> set cs. length d \<le> 16 then Inr (n + 1 + 1 + of_nat (length cs)) else Inl OutOfBounds)"
      using Cons.hyps(1) [of q "c @ replicate (16 - length c) 0" "n + 1"] q(2-5) by simp
    with q(1) Cons.prems(2) True show ?thesis
      unfolding Cons.hyps(2) [symmetric] by (subst depth_loop.simps) (simp add: algebra_simps)
  next
    case False
    then show ?thesis
      using path_parse_step [OF Cons.prems(1)] Cons.hyps(2) Cons.prems(2)
      unfolding Cons.hyps(2) [symmetric] by (subst depth_loop.simps) simp
  qed
qed

text \<open>
  C19: \<open>path_depth_cnt\<close> counts the components of the path as splitting it at the slashes gives
  them, empty pieces left out, however many slashes separate them and whether one begins or ends
  the path.  A component of more than 16 characters overruns the array \<open>name\<close>, and for a path
  without any component the result depends on what was on the stack.
\<close>

theorem path_depth_counts:
  assumes "terminated p"
  shows "path_depth_cnt (Some p) =
    (if comps (cstr p) = [] then Inl Uninitialised
     else if \<exists>c \<in> set (comps (cstr p)). length c > 16 then Inl OutOfBounds
     else Inr (of_nat (length (comps (cstr p)))))"
proof (cases "comps (cstr p)")
  case Nil
  then show ?thesis using path_parse_step [OF assms] by (auto simp: path_depth_cnt_def name_len_def)
next
  case (Cons a as)
  show ?thesis
  proof (cases "length a \<le> 16")
    case True
    then obtain q where q: "path_parse p (replicate name_len 0) = Inr (Some q, a @ replicate (16 - length a) 0)"
      "terminated q" "comps (cstr q) = as" "a \<noteq> []" "hd a \<noteq> 0"
      using path_parse_step [OF assms] True unfolding Cons by auto
    with True Cons depth_loop_eq [of q "a @ replicate (16 - length a) 0" 0] show ?thesis
      by (auto simp: path_depth_cnt_def not_le algebra_simps)
  next
    case False
    then show ?thesis using path_parse_step [OF assms] Cons by (simp add: path_depth_cnt_def not_le)
  qed
qed

theorem path_depth_counts_witness:
  "path_depth_cnt (Some [47, 47, 97, 47, 98, 99, 47, 0]) = Inr 2"
  using path_depth_counts [of "[47, 47, 97, 47, 98, 99, 47, 0]"] by (simp add: comps_def)

end
