(* ===== verification/Search.thy ===== *)
theory Search
  imports File Path
begin

text \<open>
  Looking up path names: \<open>search_file\<close> of \<open>fs/fs.c\<close>.

  The walk keeps the current directory open and closes it when it enters the next one; the
  \<open>path_search_record\<close> says how far it came.  \<open>dir_e\<close>, the entry found last, and \<open>name\<close> are
  local variables of the code; \<open>dir_e\<close> is \<open>None\<close> until it is written.
\<close>

record path_search_record =
  searched_path :: "u8 list"
  parent_dir :: u32
  file_type :: u32

text \<open>The record after the caller's \<open>memset\<close>.\<close>

definition empty_record :: path_search_record where
  "empty_record = \<lparr>searched_path = replicate 512 0, parent_dir = NULL, file_type = FT_UNKNOWN\<rparr>"

definition is_root_path :: "u8 list \<Rightarrow> bool res" where
  "is_root_path pathname =
     rbind (strcmp (Some pathname) (Some [47, 0])) (\<lambda>a.
       if a = 0 then Inr True
       else rbind (strcmp (Some pathname) (Some [47, 46, 0])) (\<lambda>b.
         if b = 0 then Inr True
         else rbind (strcmp (Some pathname) (Some [47, 46, 46, 0])) (\<lambda>c. Inr (c = 0))))"

text \<open>Where the walk stands: the pointer into the path, the component to look up, the entry found last.\<close>

record walk =
  sub_path :: "u8 list option"
  comp :: "u8 list"
  dir_e :: "u8 list option"
  here :: u32
  parent_inode_no :: u32

text \<open>How many parses are left at most.\<close>

definition walk_measure :: "walk \<Rightarrow> nat" where
  "walk_measure w = (case sub_path w of None \<Rightarrow> 0 | Some p \<Rightarrow> Suc (length p)) * 2 + (if hd (comp w) = 0 then 0 else 1)"

text \<open>\<open>memset(name, 0, 16)\<close> and the next \<open>path_parse\<close>.\<close>

definition next_comp :: "walk \<Rightarrow> walk res" where
  "next_comp w =
     (case sub_path w of
        None \<Rightarrow> Inr (w\<lparr>comp := replicate name_len 0\<rparr>)
      | Some p \<Rightarrow>
          rbind (path_parse p (replicate name_len 0)) (\<lambda>(p, name). Inr (w\<lparr>sub_path := p, comp := name\<rparr>)))"

lemma next_comp_progress:
  assumes "next_comp w = Inr w'" and "hd (comp w) \<noteq> 0"
  shows "walk_measure w' < walk_measure w"
proof (cases "sub_path w")
  case None
  then show ?thesis using assms by (auto simp: next_comp_def walk_measure_def name_len_def)
next
  case (Some p)
  then obtain p' name where p': "path_parse p (replicate name_len 0) = Inr (p', name)" "w' = w\<lparr>sub_path := p', comp := name\<rparr>"
    using assms(1) by (auto simp: next_comp_def rbind_eq_Inr)
  show ?thesis
  proof (cases p')
    case None
    then show ?thesis using Some p'(2) by (simp add: walk_measure_def)
  next
    case (Some q)
    then have "length q < length p" using p'(1) path_parse_shrinks by blast
    then show ?thesis using p'(2) Some \<open>sub_path w = Some p\<close> assms(2) by (simp add: walk_measure_def)
  qed
qed

text \<open>
  One component found: its entry, then the step into a directory (\<open>Inr True\<close>), the end of the
  search at a regular file (\<open>Inr False\<close>), or, for an entry of another type, the same directory again.
\<close>

definition enter ::
  "'a fsys_scheme \<Rightarrow> path_search_record \<Rightarrow> walk \<Rightarrow> u8 list \<Rightarrow>
   (bool \<times> path_search_record \<times> walk \<times> 'a fsys_scheme) res" where
  "enter s r w e =
     (let w = w\<lparr>dir_e := Some e\<rparr>
      in if f_type (dec_entry e) = FT_DIRECTORY then
           rbind (get_dir s (here w)) (\<lambda>d. rbind (get_inode s (dir_inode d)) (\<lambda>i.
             let w = w\<lparr>parent_inode_no := i_no i\<rparr>
             in rbind (dir_close s (here w)) (\<lambda>s.
                rbind (dir_open s (de_ino (dec_entry e))) (\<lambda>(p, s).
                Inr (True, r\<lparr>parent_dir := p\<rparr>, w\<lparr>here := p\<rparr>, s)))))
         else if f_type (dec_entry e) = FT_REGULAR then Inr (False, r\<lparr>file_type := FT_REGULAR\<rparr>, w, s)
         else Inr (True, r, w, s))"

lemma enter_keeps: "enter s r w e = Inr (go, r', w', s') \<Longrightarrow> sub_path w' = sub_path w \<and> comp w' = comp w"
  by (auto simp: enter_def Let_def rbind_eq_Inr split: if_splits)

text \<open>
  The loop over the components.  The result is the inode number or \<open>-1\<close> when the search ends
  in the loop, \<open>None\<close> when the path is used up.
\<close>

function search_loop ::
  "'a fsys_scheme \<Rightarrow> path_search_record \<Rightarrow> walk \<Rightarrow>
   (i32 option \<times> path_search_record \<times> walk \<times> 'a fsys_scheme) res" where
  "search_loop s r w =
     (if hd (comp w) = 0 then Inr (None, r, w, s)
      else
        rbind (strlen (Some (searched_path r))) (\<lambda>len.
        if \<not> len < 512 then Inl Panic
        else rbind (strcat (Some (searched_path r)) (Some [47, 0])) (\<lambda>path.
        rbind (strcat (Some path) (Some (comp w))) (\<lambda>path.
        let r = r\<lparr>searched_path := path\<rparr>
        in rbind (search_dir_entry s (here w) (comp w)) (\<lambda>(found, s).
             case found of
               None \<Rightarrow> Inr (Some (-1), r, w, s)
             | Some e \<Rightarrow>
                 rbind (next_comp w) (\<lambda>w1.
                 rbind (enter s r w1 e) (\<lambda>(go, r, w, s).
                   if go then search_loop s r w else Inr (Some (de_ino (dec_entry e)), r, w, s))))))))"
  by pat_completeness auto

termination
proof (relation "measure (\<lambda>(s, r, w). walk_measure w)", goal_cases)
  case 1
  then show ?case by simp
next
  case (2 s r w len path path' r1 found s1 e w1 go r2 w2 s2)
  then show ?case
    using enter_keeps next_comp_progress by (fastforce simp: walk_measure_def)
qed

declare search_loop.simps [simp del]

definition search_file ::
  "'a fsys_scheme \<Rightarrow> u8 list \<Rightarrow> path_search_record \<Rightarrow> (i32 \<times> path_search_record \<times> 'a fsys_scheme) res" where
  "search_file s pathname r =
     rbind (is_root_path pathname) (\<lambda>root.
       if root then
         Inr (0, r\<lparr>parent_dir := ROOT_DIR, file_type := FT_DIRECTORY, searched_path := (searched_path r)[0 := 0]\<rparr>, s)
       else
         rbind (strlen (Some pathname)) (\<lambda>path_len.
           if \<not> (hd pathname = 47 \<and> path_len > 1 \<and> path_len < 512) then Inl Panic
           else
             let r = r\<lparr>parent_dir := ROOT_DIR, file_type := FT_UNKNOWN\<rparr>
             in rbind (path_parse pathname (replicate name_len 0)) (\<lambda>(p, name).
                rbind (search_loop s r \<lparr>sub_path = p, comp = name, dir_e = None, here = ROOT_DIR, parent_inode_no = 0\<rparr>)
                  (\<lambda>(res, r, w, s).
                    case res of
                      Some n \<Rightarrow> Inr (n, r, s)
                    | None \<Rightarrow>
                        rbind (dir_close s (parent_dir r)) (\<lambda>s.
                        rbind (dir_open s (parent_inode_no w)) (\<lambda>(p, s).
                        case dir_e w of
                          None \<Rightarrow> Inl Uninitialised
                        | Some e \<Rightarrow> Inr (de_ino (dec_entry e), r\<lparr>parent_dir := p, file_type := FT_DIRECTORY\<rparr>, s)))))))"

end
