(* ===== verification/Format.thy ===== *)
theory Format
  imports Dir
begin

text \<open>
  Making and mounting a file system: \<open>partition_format\<close>, \<open>mount_partition\<close> and
  \<open>filesys_init\<close> of \<open>fs/fs.c\<close>.

  A super block is written from the stack of the code; \<open>pad\<close> stands for the 460 bytes of it
  that are never initialised.  \<open>hd\<close> is the one disk of the model.  \<open>filesys_init\<close> gets what
  \<open>ide_init\<close> leaves behind: the number of channels, the twelve partition structures of the
  second disk and the list of the partitions found.
\<close>

section \<open>Super blocks\<close>

definition SUPER_MAGIC :: u32 where
  "SUPER_MAGIC = 0x19590318"

definition enc_super :: "super_block \<Rightarrow> u8 list \<Rightarrow> u8 list" where
  "enc_super b pad =
     bytes_of [sb_magic b, sb_sec_cnt b, inode_cnt b, part_lba_base b, block_bitmap_lba b, block_bitmap_sects b,
       inode_bitmap_lba b, inode_bitmap_sects b, inode_table_lba b, inode_table_sects b, data_start_lba b,
       root_inode_no b, dir_entry_size b] @ pad"

definition dec_super :: "u8 list \<Rightarrow> super_block" where
  "dec_super bs =
     (let ws = words bs
      in \<lparr>sb_magic = ws ! 0, sb_sec_cnt = ws ! 1, inode_cnt = ws ! 2, part_lba_base = ws ! 3,
          block_bitmap_lba = ws ! 4, block_bitmap_sects = ws ! 5, inode_bitmap_lba = ws ! 6,
          inode_bitmap_sects = ws ! 7, inode_table_lba = ws ! 8, inode_table_sects = ws ! 9,
          data_start_lba = ws ! 10, root_inode_no = ws ! 11, dir_entry_size = ws ! 12\<rparr>)"

section \<open>Formatting\<close>

text \<open>The layout: the super block and the number of blocks the bitmap is to describe.\<close>

definition layout :: "partition \<Rightarrow> super_block \<times> u32" where
  "layout p =
     (let boot_sector_sects = 1;
          super_block_sects = 1;
          ibitmap_sects = DIV_ROUND_UP 4096 4096;
          itable_sects = DIV_ROUND_UP (INODE_SIZE * 4096) 512;
          used_sects = boot_sector_sects + super_block_sects + ibitmap_sects + itable_sects;
          free_sects = sec_cnt p - used_sects;
          bbitmap_sects = DIV_ROUND_UP free_sects 4096;
          block_bitmap_bit_len = free_sects - bbitmap_sects;
          bbitmap_sects = DIV_ROUND_UP block_bitmap_bit_len 4096;
          bbitmap_lba = start_lba p + boot_sector_sects + super_block_sects;
          ibitmap_lba = bbitmap_lba + bbitmap_sects;
          itable_lba = ibitmap_lba + ibitmap_sects
      in (\<lparr>sb_magic = SUPER_MAGIC, sb_sec_cnt = sec_cnt p, inode_cnt = 4096, part_lba_base = start_lba p,
           block_bitmap_lba = bbitmap_lba, block_bitmap_sects = bbitmap_sects,
           inode_bitmap_lba = ibitmap_lba, inode_bitmap_sects = ibitmap_sects,
           inode_table_lba = itable_lba, inode_table_sects = itable_sects,
           data_start_lba = itable_lba + itable_sects, root_inode_no = 0, dir_entry_size = 24\<rparr>,
          block_bitmap_bit_len))"

text \<open>\<open>buf[k] |= 1\<close> and \<open>buf[k] &= ~(1 << bit_idx)\<close> for \<open>bit_idx\<close> from 0 to \<open>last_bit\<close>.\<close>

definition set_first_bit :: "u8 list \<Rightarrow> u8 list res" where
  "set_first_bit buf = rbind (ld buf 0) (\<lambda>v. st buf 0 (v OR 1))"

definition clear_low_bits :: "u8 \<Rightarrow> nat \<Rightarrow> u8" where
  "clear_low_bits v last_bit = foldl (\<lambda>v bit_idx. v AND NOT (push_bit bit_idx 1)) v [0..<Suc last_bit]"

text \<open>The block bitmap: the block of the root directory is taken, the blocks behind the partition are marked used.\<close>

definition block_bitmap_image :: "u8 list \<Rightarrow> u32 \<Rightarrow> u8 list res" where
  "block_bitmap_image buf bit_len =
     rbind (set_first_bit buf) (\<lambda>buf.
       let block_bitmap_last_byte = bit_len div 8;
           block_bitmap_last_bit = bit_len mod 8;
           last_size = 512 - block_bitmap_last_byte mod 512
       in rbind (blit buf (unat block_bitmap_last_byte) (replicate (unat last_size) 0xff)) (\<lambda>buf.
          rbind (ld buf block_bitmap_last_byte) (\<lambda>v.
            st buf block_bitmap_last_byte (clear_low_bits v (unat block_bitmap_last_bit)))))"

text \<open>The first inode and the root directory.\<close>

definition root_inode :: "super_block \<Rightarrow> inode" where
  "root_inode b = (inode_init 0)\<lparr>i_size := dir_entry_size b * 2, i_sectors := (replicate 13 0)[0 := data_start_lba b]\<rparr>"

definition dot_entries :: "u32 \<Rightarrow> u32 \<Rightarrow> u8 list" where
  "dot_entries self parent =
     enc_entry \<lparr>filename = 46 # replicate 15 0, de_ino = self, f_type = FT_DIRECTORY\<rparr> @
     enc_entry \<lparr>filename = 46 # 46 # replicate 14 0, de_ino = parent, f_type = FT_DIRECTORY\<rparr>"

definition partition_format :: "'a fsys_scheme \<Rightarrow> partition \<Rightarrow> u8 list \<Rightarrow> 'a fsys_scheme res" where
  "partition_format s p pad =
     (let (b, block_bitmap_bit_len) = layout p
      in rbind (disk_write s (start_lba p + 1) (enc_super b pad) 1) (\<lambda>s.
         let m = if block_bitmap_sects b \<ge> inode_bitmap_sects b then block_bitmap_sects b else inode_bitmap_sects b;
             buf_size = (if m \<ge> inode_table_sects b then m else inode_table_sects b) * 512;
             (buf_p, s) = fs_malloc s;
             zeros = replicate (unat buf_size) 0
         in if buf_p = NULL then Inl WildPointer
            else
              rbind (block_bitmap_image zeros block_bitmap_bit_len) (\<lambda>buf.
              rbind (disk_write s (block_bitmap_lba b) buf (block_bitmap_sects b)) (\<lambda>s.
              rbind (set_first_bit zeros) (\<lambda>buf.
              rbind (disk_write s (inode_bitmap_lba b) buf (inode_bitmap_sects b)) (\<lambda>s.
              rbind (blit zeros 0 (enc_inode (root_inode b))) (\<lambda>buf.
              rbind (disk_write s (inode_table_lba b) buf (inode_table_sects b)) (\<lambda>s.
              rbind (blit zeros 0 (dot_entries 0 0)) (\<lambda>buf.
              rbind (disk_write s (data_start_lba b) buf 1) (\<lambda>s.
                fs_free s buf_p))))))))))"

section \<open>Mounting\<close>

text \<open>The bits of a bitmap of \<open>sects\<close> sectors are read into fresh memory.\<close>

definition load_bitmap :: "'a fsys_scheme \<Rightarrow> u32 \<Rightarrow> u32 \<Rightarrow> (bitmap \<times> 'a fsys_scheme) res" where
  "load_bitmap s lba sects =
     (let (bits_p, s) = fs_malloc s
      in if bits_p = NULL then Inl Panic
         else rbind (disk_read s lba sects) (\<lambda>data. Inr (\<lparr>btmp_bytes_len = sects * 512, bits = data\<rparr>, s)))"

definition mount_partition :: "'a fsys_scheme \<Rightarrow> partition \<Rightarrow> u8 list \<Rightarrow> (bool \<times> 'a fsys_scheme) res" where
  "mount_partition s p wanted =
     rbind (strcmp (Some (part_name p)) (Some wanted)) (\<lambda>r.
       if r \<noteq> 0 then Inr (False, s)
       else
         let s = upd_part s (\<lambda>_. p);
             (sb_buf, s) = fs_malloc s
         in if sb_buf = NULL then Inl Panic
            else rbind (disk_read s (start_lba (part s) + 1) 1) (\<lambda>data.
              let s = upd_part s (\<lambda>p. p\<lparr>sb := dec_super data\<rparr>);
                  b = sb (part s)
              in rbind (load_bitmap s (block_bitmap_lba b) (block_bitmap_sects b)) (\<lambda>(blk, s).
                 let s = upd_part s (\<lambda>p. p\<lparr>block_bitmap := blk\<rparr>)
                 in rbind (load_bitmap s (inode_bitmap_lba b) (inode_bitmap_sects b)) (\<lambda>(ino, s).
                    Inr (True, upd_part s (\<lambda>p. p\<lparr>inode_bitmap := ino, open_inodes := []\<rparr>))))))"

section \<open>Starting the file system\<close>

fun format_partitions :: "'a fsys_scheme \<Rightarrow> partition list \<Rightarrow> u8 list \<Rightarrow> 'a fsys_scheme res" where
  "format_partitions s [] pad = Inr s"
| "format_partitions s (p # ps) pad =
     rbind (if sec_cnt p \<noteq> 0 then
              rbind (disk_read s (start_lba p + 1) 1) (\<lambda>data.
                if sb_magic (dec_super data) \<noteq> SUPER_MAGIC then partition_format s p pad else Inr s)
            else Inr s)
       (\<lambda>s. format_partitions s ps pad)"

fun mount_first :: "'a fsys_scheme \<Rightarrow> partition list \<Rightarrow> u8 list \<Rightarrow> (bool \<times> 'a fsys_scheme) res" where
  "mount_first s [] wanted = Inr (False, s)"
| "mount_first s (p # ps) wanted =
     rbind (mount_partition s p wanted) (\<lambda>(found, s). if found then Inr (True, s) else mount_first s ps wanted)"

text \<open>
  \<open>part_idx\<close> is not reset for a second channel, so the twelve partitions are looked at once when
  there is a channel at all.  With no partition called \<open>sdb1\<close> the pointer \<open>cur_part\<close> stays null.
\<close>

definition filesys_init ::
  "'a fsys_scheme \<Rightarrow> u8 \<Rightarrow> partition list \<Rightarrow> partition list \<Rightarrow> u8 list \<Rightarrow> 'a fsys_scheme res" where
  "filesys_init s channel_cnt disk_parts partition_list pad =
     (let (sb_buf, s) = fs_malloc s
      in if sb_buf = NULL then Inl Panic
         else rbind (if channel_cnt > 0 then format_partitions s disk_parts pad else Inr s) (\<lambda>s.
           rbind (fs_free s sb_buf) (\<lambda>s.
           rbind (mount_first s partition_list [115, 100, 98, 49, 0, 0, 0, 0]) (\<lambda>(found, s).
             if \<not> found then Inl WildPointer
             else rbind (open_root_dir s) (\<lambda>s.
               Inr (s\<lparr>file_table := map (\<lambda>f. f\<lparr>fd_inode := NULL\<rparr>) (file_table s)\<rparr>))))))"

end
