(* ===== verification/Fsys.thy ===== *)
theory Fsys
  imports Search Format
begin

text \<open>
  The system calls on files and directories, from \<open>fs/fs.c\<close>.

  Each takes the state and its C arguments and returns its result with the new state.
  \<open>sys_write\<close> also returns the bytes that go to the console, \<open>sys_read\<close> gets the characters
  the keyboard buffer will deliver (theory \<open>Ioqueue\<close>) and is \<open>Blocked\<close> when it needs more of them.
  A \<open>struct dir_entry\<close> returned by \<open>sys_readdir\<close> is its index in the directory's buffer.
\<close>

section \<open>Opening\<close>

definition sys_open :: "'a fsys_scheme \<Rightarrow> u8 list \<Rightarrow> u8 \<Rightarrow> (i32 \<times> 'a fsys_scheme) res" where
  "sys_open s pathname flags =
     rbind (strlen (Some pathname)) (\<lambda>len.
     rbind (ld pathname (len - 1)) (\<lambda>c.
       if c = 47 then Inr (-1, s)
       else if \<not> flags \<le> 7 then Inl Panic
       else
         rbind (path_depth_cnt (Some pathname)) (\<lambda>pathname_depth.
         rbind (search_file s pathname empty_record) (\<lambda>(inode_no, r, s).
           let found = inode_no \<noteq> -1
           in if file_type r = FT_DIRECTORY then rbind (dir_close s (parent_dir r)) (\<lambda>s. Inr (-1, s))
              else
                rbind (path_depth_cnt (Some (searched_path r))) (\<lambda>path_searched_depth.
                  if pathname_depth \<noteq> path_searched_depth \<or>
                     \<not> found \<and> flags AND O_CREAT = 0 \<or> found \<and> flags AND O_CREAT \<noteq> 0
                  then rbind (dir_close s (parent_dir r)) (\<lambda>s. Inr (-1, s))
                  else if flags AND O_CREAT = O_CREAT then
                    rbind (strrchr (Some pathname) 47) (\<lambda>slash.
                      case slash of
                        None \<Rightarrow> Inl WildPointer
                      | Some k \<Rightarrow>
                          rbind (file_create s (parent_dir r) (drop (Suc k) pathname) flags) (\<lambda>(fd, s).
                          rbind (dir_close s (parent_dir r)) (\<lambda>s. Inr (fd, s))))
                  else file_open s inode_no flags)))))"

definition fd_local2global :: "'a fsys_scheme \<Rightarrow> u32 \<Rightarrow> u32 res" where
  "fd_local2global s local_fd =
     rbind (ld (fd_table (me s)) local_fd) (\<lambda>global_fd.
       if \<not> (0 \<le> sint global_fd \<and> sint global_fd \<le> 32) then Inl Panic else Inr global_fd)"

definition sys_close :: "'a fsys_scheme \<Rightarrow> i32 \<Rightarrow> (i32 \<times> 'a fsys_scheme) res" where
  "sys_close s fd =
     (if 2 < sint fd then
        rbind (fd_local2global s fd) (\<lambda>g.
        rbind (file_close s (Some g)) (\<lambda>(ret, s).
          Inr (ret, s\<lparr>me := (me s)\<lparr>fd_table := (fd_table (me s))[unat fd := -1]\<rparr>\<rparr>)))
      else Inr (-1, s))"

section \<open>Reading, writing, seeking\<close>

text \<open>What \<open>sys_write\<close> says when the file is not open for writing.\<close>

definition ascii :: "string \<Rightarrow> u8 list" where
  "ascii cs = map (\<lambda>c. of_nat (of_char c)) cs"

definition write_refused :: "u8 list" where
  "write_refused = ascii ''sys_write: not allowed to write file without flag O_RDWR or O_WRONLY'' @ [10]"

definition sys_write :: "'a fsys_scheme \<Rightarrow> i32 \<Rightarrow> u8 list \<Rightarrow> u32 \<Rightarrow> (i32 \<times> u8 list \<times> 'a fsys_scheme) res" where
  "sys_write s fd buf count =
     (if sint fd < 0 then Inr (-1, [], s)
      else if fd = 1 then
        rbind (memcpy (Some (replicate 1024 0)) (Some buf) count) (\<lambda>tmp_buf.
          if terminated tmp_buf then Inr (count, cstr tmp_buf, s) else Inl OutOfBounds)
      else
        rbind (fd_local2global s fd) (\<lambda>g. rbind (ld (file_table s) g) (\<lambda>wr_file.
          if fd_flag wr_file AND ucast O_WRONLY \<noteq> 0 \<or> fd_flag wr_file AND ucast O_RDWR \<noteq> 0 then
            rbind (file_write s g buf count) (\<lambda>(bytes_written, s). Inr (bytes_written, [], s))
          else Inr (-1, write_refused, s))))"

definition sys_read ::
  "'a fsys_scheme \<Rightarrow> u8 list \<Rightarrow> i32 \<Rightarrow> u8 list \<Rightarrow> u32 \<Rightarrow> (i32 \<times> u8 list \<times> 'a fsys_scheme) res" where
  "sys_read s keys fd buf count =
     (if sint fd < 0 \<or> fd = 1 \<or> fd = 2 then Inr (-1, buf, s)
      else if fd = 0 then
        if length keys < unat count then Inl Blocked
        else rbind (blit buf 0 (take (unat count) keys)) (\<lambda>buf.
          Inr (if count = 0 then -1 else count, buf, s))
      else rbind (fd_local2global s fd) (\<lambda>g. file_read s g buf count))"

definition sys_lseek :: "'a fsys_scheme \<Rightarrow> i32 \<Rightarrow> i32 \<Rightarrow> u8 \<Rightarrow> (i32 \<times> 'a fsys_scheme) res" where
  "sys_lseek s fd offset whence =
     (if sint fd < 0 then Inr (-1, s)
      else if \<not> (0 < whence \<and> whence < 4) then Inl Panic
      else
        rbind (fd_local2global s fd) (\<lambda>g. rbind (ld (file_table s) g) (\<lambda>f. rbind (get_inode s (fd_inode f)) (\<lambda>i.
          let file_size = i_size i;
              new_pos = (if whence = 1 then offset
                         else if whence = 2 then offset + fd_pos f
                         else offset + file_size)
          in if sint new_pos < 0 \<or> sint (file_size - 1) < sint new_pos then Inr (-1, s)
             else Inr (new_pos, upd_file s g (\<lambda>f. f\<lparr>fd_pos := new_pos\<rparr>))))))"

section \<open>Removing files\<close>

text \<open>The search for an open file with this inode number, from index \<open>k\<close> on.\<close>

fun find_in_use :: "'a fsys_scheme \<Rightarrow> open_file list \<Rightarrow> u32 \<Rightarrow> bool res" where
  "find_in_use s [] inode_no = Inr False"
| "find_in_use s (f # fs) inode_no =
     (if fd_inode f = NULL then find_in_use s fs inode_no
      else rbind (get_inode s (fd_inode f)) (\<lambda>i. if inode_no = i_no i then Inr True else find_in_use s fs inode_no))"

definition sys_unlink :: "'a fsys_scheme \<Rightarrow> u8 list \<Rightarrow> (i32 \<times> 'a fsys_scheme) res" where
  "sys_unlink s pathname =
     rbind (strlen (Some pathname)) (\<lambda>len.
     if \<not> len < 512 then Inl Panic
     else rbind (search_file s pathname empty_record) (\<lambda>(inode_no, r, s).
       if inode_no = 0 then Inl Panic
       else if inode_no = -1 \<or> file_type r = FT_DIRECTORY then rbind (dir_close s (parent_dir r)) (\<lambda>s. Inr (-1, s))
       else rbind (find_in_use s (file_table s) inode_no) (\<lambda>in_use.
         if in_use then rbind (dir_close s (parent_dir r)) (\<lambda>s. Inr (-1, s))
         else
           let (io_buf, s) = fs_malloc s
           in if io_buf = NULL then rbind (dir_close s (parent_dir r)) (\<lambda>s. Inr (-1, s))
              else rbind (delete_dir_entry s (parent_dir r) inode_no (replicate 1024 0)) (\<lambda>(_, s).
                rbind (inode_release s inode_no) (\<lambda>s.
                rbind (fs_free s io_buf) (\<lambda>s.
                rbind (dir_close s (parent_dir r)) (\<lambda>s. Inr (0, s))))))))"

section \<open>Directories\<close>

definition mkdir_rollback :: "'a fsys_scheme \<Rightarrow> nat \<Rightarrow> u32 \<Rightarrow> u32 \<Rightarrow> u32 \<Rightarrow> (i32 \<times> 'a fsys_scheme) res" where
  "mkdir_rollback s rollback_step inode_no pdir io_buf =
     rbind (if rollback_step = 2 then inode_bitmap_set s inode_no 0 else Inr s) (\<lambda>s.
     rbind (dir_close s pdir) (\<lambda>s.
     rbind (fs_free s io_buf) (\<lambda>s. Inr (-1, s))))"

text \<open>The part of \<open>sys_mkdir\<close> behind the search: the inode, its block with \<open>.\<close> and \<open>..\<close>, the entry in the parent.\<close>

definition make_dir :: "'a fsys_scheme \<Rightarrow> path_search_record \<Rightarrow> u32 \<Rightarrow> (i32 \<times> 'a fsys_scheme) res" where
  "make_dir s r io_buf =
     rbind (strrchr (Some (searched_path r)) 47) (\<lambda>slash.
       case slash of
         None \<Rightarrow> Inl WildPointer
       | Some k \<Rightarrow>
           let dirname = drop (Suc k) (searched_path r); pdir = parent_dir r
           in rbind (inode_bitmap_alloc s) (\<lambda>(inode_no, s).
             if inode_no = -1 then mkdir_rollback s 1 inode_no pdir io_buf
             else rbind (block_bitmap_alloc s) (\<lambda>(block_lba, s).
               if block_lba = -1 then mkdir_rollback s 2 inode_no pdir io_buf
               else
                 let block_bitmap_idx = block_lba - data_start_lba (sb (part s))
                 in if block_bitmap_idx = 0 then Inl Panic
                    else rbind (bitmap_sync s block_bitmap_idx BLOCK_BITMAP) (\<lambda>s.
                      rbind (get_dir s pdir) (\<lambda>d. rbind (get_inode s (dir_inode d)) (\<lambda>pi.
                      rbind (blit (replicate 1024 0) 0 (dot_entries inode_no (i_no pi))) (\<lambda>buf.
                      rbind (disk_write s block_lba buf 1) (\<lambda>s.
                      let new_dir_inode = (inode_init inode_no)\<lparr>i_sectors := (replicate 13 0)[0 := block_lba],
                            i_size := 2 * dir_entry_size (sb (part s))\<rparr>
                      in rbind (create_dir_entry dirname inode_no (ucast FT_DIRECTORY) (replicate 24 0)) (\<lambda>new_dir_entry.
                         rbind (sync_dir_entry s pdir new_dir_entry (replicate 1024 0)) (\<lambda>(synced, s).
                           if \<not> synced then mkdir_rollback s 2 inode_no pdir io_buf
                           else
                             rbind (inode_sync s (inodes s (dir_inode d)) (replicate 1024 0)) (\<lambda>s.
                             rbind (inode_sync s new_dir_inode (replicate 1024 0)) (\<lambda>s.
                             rbind (bitmap_sync s inode_no INODE_BITMAP) (\<lambda>s.
                             rbind (fs_free s io_buf) (\<lambda>s.
                             rbind (dir_close s pdir) (\<lambda>s. Inr (0, s))))))))))))))))"

definition sys_mkdir :: "'a fsys_scheme \<Rightarrow> u8 list \<Rightarrow> (i32 \<times> 'a fsys_scheme) res" where
  "sys_mkdir s pathname =
     (let (io_buf, s) = fs_malloc s
      in if io_buf = NULL then Inr (-1, s)
         else rbind (search_file s pathname empty_record) (\<lambda>(inode_no, r, s).
           if inode_no \<noteq> -1 then mkdir_rollback s 1 inode_no (parent_dir r) io_buf
           else rbind (path_depth_cnt (Some pathname)) (\<lambda>pathname_depth.
             rbind (path_depth_cnt (Some (searched_path r))) (\<lambda>path_searched_depth.
               if pathname_depth \<noteq> path_searched_depth then mkdir_rollback s 1 inode_no (parent_dir r) io_buf
               else make_dir s r io_buf))))"

definition sys_opendir :: "'a fsys_scheme \<Rightarrow> u8 list \<Rightarrow> (u32 \<times> 'a fsys_scheme) res" where
  "sys_opendir s name =
     rbind (strlen (Some name)) (\<lambda>len.
     if \<not> len < 512 then Inl Panic
     else if name ! 0 = 47 \<and> (name ! 1 = 0 \<or> name ! 0 = 46) then Inr (ROOT_DIR, s)
     else rbind (search_file s name empty_record) (\<lambda>(inode_no, r, s).
       if inode_no = -1 then Inr (NULL, s)
       else rbind (if file_type r = FT_REGULAR then Inr (NULL, s)
                   else if file_type r = FT_DIRECTORY then dir_open s inode_no
                   else Inr (NULL, s)) (\<lambda>(ret, s).
         rbind (dir_close s (parent_dir r)) (\<lambda>s. Inr (ret, s)))))"

definition sys_closedir :: "'a fsys_scheme \<Rightarrow> u32 \<Rightarrow> (i32 \<times> 'a fsys_scheme) res" where
  "sys_closedir s d = (if d \<noteq> NULL then rbind (dir_close s d) (\<lambda>s. Inr (0, s)) else Inr (-1, s))"

definition sys_readdir :: "'a fsys_scheme \<Rightarrow> u32 \<Rightarrow> (nat option \<times> 'a fsys_scheme) res" where
  "sys_readdir s d = (if d = NULL then Inl Panic else dir_read s d)"

definition sys_rewinddir :: "'a fsys_scheme \<Rightarrow> u32 \<Rightarrow> 'a fsys_scheme res" where
  "sys_rewinddir s d = rbind (get_dir s d) (\<lambda>_. Inr (upd_dir s d (\<lambda>d. d\<lparr>dir_pos := 0\<rparr>)))"

definition sys_rmdir :: "'a fsys_scheme \<Rightarrow> u8 list \<Rightarrow> (i32 \<times> 'a fsys_scheme) res" where
  "sys_rmdir s pathname =
     rbind (search_file s pathname empty_record) (\<lambda>(inode_no, r, s).
       if inode_no = 0 then Inl Panic
       else rbind
         (if inode_no = -1 \<or> file_type r = FT_REGULAR then Inr (-1, s)
          else rbind (dir_open s inode_no) (\<lambda>(d, s). rbind (dir_is_empty s d) (\<lambda>empty.
            if \<not> empty then Inr (-1, s)
            else rbind (dir_remove s (parent_dir r) d) (\<lambda>(ret, s). Inr (if ret = 0 then 0 else -1, s)))))
         (\<lambda>(retval, s). rbind (dir_close s (parent_dir r)) (\<lambda>s. Inr (retval, s))))"

section \<open>The working directory\<close>

definition get_parent_dir_inode_nr :: "'a fsys_scheme \<Rightarrow> u32 \<Rightarrow> (u32 \<times> 'a fsys_scheme) res" where
  "get_parent_dir_inode_nr s child_inode_nr =
     rbind (inode_open s child_inode_nr) (\<lambda>(p, s).
       let block_lba = i_sectors (inodes s p) ! 0
       in if \<not> data_start_lba (sb (part s)) \<le> block_lba then Inl Panic
          else rbind (inode_close s p) (\<lambda>s.
            rbind (disk_read s block_lba 1) (\<lambda>io_buf.
              let dotdot = dec_entry (slice io_buf 24 24)
              in if \<not> (de_ino dotdot < 4096 \<and> f_type dotdot = FT_DIRECTORY) then Inl Panic
                 else Inr (de_ino dotdot, s))))"

text \<open>One block of the parent: the first entry with this inode number.\<close>

fun find_child :: "u8 list \<Rightarrow> nat \<Rightarrow> nat \<Rightarrow> u32 \<Rightarrow> nat option res" where
  "find_child buf k 0 c_inode_nr = Inr None"
| "find_child buf k (Suc n) c_inode_nr =
     rbind (entry_ino buf k) (\<lambda>ino. if ino = c_inode_nr then Inr (Some k) else find_child buf (Suc k) n c_inode_nr)"

text \<open>The loop over the blocks does not advance past an unused one.\<close>

fun find_child_blocks :: "'a fsys_scheme \<Rightarrow> u32 list \<Rightarrow> u32 \<Rightarrow> u8 list option res" where
  "find_child_blocks s [] c_inode_nr = Inr None"
| "find_child_blocks s (b # bs) c_inode_nr =
     (if b = 0 then Inl Hang
      else rbind (disk_read s b 1) (\<lambda>io_buf.
        rbind (find_child io_buf 0 (512 div unat (dir_entry_size (sb (part s)))) c_inode_nr) (\<lambda>r.
          case r of Some k \<Rightarrow> Inr (Some (drop (24 * k) io_buf)) | None \<Rightarrow> find_child_blocks s bs c_inode_nr)))"

definition get_child_dir_name ::
  "'a fsys_scheme \<Rightarrow> u32 \<Rightarrow> u32 \<Rightarrow> u8 list \<Rightarrow> (i32 \<times> u8 list \<times> 'a fsys_scheme) res" where
  "get_child_dir_name s p_inode_nr c_inode_nr path =
     rbind (inode_open s p_inode_nr) (\<lambda>(p, s).
       let i = inodes s p
       in rbind (all_blocks_of s i) (\<lambda>all_blocks.
          rbind (inode_close s p) (\<lambda>s.
          if dir_entry_size (sb (part s)) = 0 then Inl DivideError
          else rbind (find_child_blocks s (if i_sectors i ! 12 \<noteq> 0 then all_blocks else take 12 all_blocks) c_inode_nr) (\<lambda>r.
            case r of
              None \<Rightarrow> Inr (-1, path, s)
            | Some name \<Rightarrow>
                rbind (strcat (Some path) (Some [47, 0])) (\<lambda>path.
                rbind (strcat (Some path) (Some name)) (\<lambda>path. Inr (0, path, s)))))))"

text \<open>Up to the root; the way there may be endless when the directories on disk form a cycle.\<close>

partial_function (option) climb ::
  "'a fsys_scheme \<Rightarrow> u32 \<Rightarrow> u8 list \<Rightarrow> (u8 list option \<times> 'a fsys_scheme) res option" where
  "climb s child_inode_nr full_path_reverse =
     (if child_inode_nr = 0 then Some (Inr (Some full_path_reverse, s))
      else case rbind (get_parent_dir_inode_nr s child_inode_nr) (\<lambda>(parent_inode_nr, s).
             rbind (get_child_dir_name s parent_inode_nr child_inode_nr full_path_reverse) (\<lambda>(r, path, s).
               Inr (parent_inode_nr, r, path, s))) of
          Inl e \<Rightarrow> Some (Inl e)
        | Inr x \<Rightarrow>
            (if fst (snd x) = -1 then Some (Inr (None, snd (snd (snd x))))
             else climb (snd (snd (snd x))) (fst x) (fst (snd (snd x)))))"

lemma strrchr_slash:
  assumes "strrchr (Some bs) 47 = Inr (Some k)"
  shows "k < length bs \<and> bs ! k = 47"
proof -
  have "strrchr_loop bs 47 m l = Inr (Some k) \<Longrightarrow> l = Some k \<or> m \<le> k \<and> k < m + length bs \<and> bs ! (k - m) = 47" for m l
  proof (induction bs arbitrary: m l)
    case (Cons c cs)
    have ch: "uchar_eq_char 47 c \<Longrightarrow> c = 47" by (simp add: uchar_eq_char_ascii)
    from Cons.prems show ?case
      using Cons.IH [of "Suc m"] ch by (fastforce simp: nth_Cons' split: if_splits)
  qed simp
  from this [of 0 None] assms show ?thesis by simp
qed

text \<open>The components are taken off the reversed path one by one.\<close>

function unreverse :: "u8 list \<Rightarrow> u8 list \<Rightarrow> u8 list res" where
  "unreverse full_path_reverse buf =
     rbind (strrchr (Some full_path_reverse) 47) (\<lambda>last_slash.
       case last_slash of
         None \<Rightarrow> Inr buf
       | Some k \<Rightarrow>
           rbind (strlen (Some buf)) (\<lambda>n.
             let len = unat (ucast n :: u16)
             in rbind (strcpy (Some (drop len buf)) (Some (drop k full_path_reverse))) (\<lambda>tail.
                unreverse (full_path_reverse[k := 0]) (take len buf @ tail))))"
  by pat_completeness auto

termination
proof (relation "measure (\<lambda>(path, _). count_list path 47)", goal_cases)
  case 1
  then show ?case by simp
next
  case (2 path buf r k n len tail)
  then have k: "k < length path" "path ! k = 47" using strrchr_slash by blast+
  have "count_list (xs[j := 0]) 47 < count_list xs 47" if "j < length xs" "xs ! j = 47" for xs :: "u8 list" and j
    using that by (induction xs arbitrary: j) (auto simp: nth_Cons' list_update.simps split: nat.splits)
  with k show ?case by simp
qed

declare unreverse.simps [simp del]

definition sys_getcwd :: "'a fsys_scheme \<Rightarrow> u8 list option \<Rightarrow> u32 \<Rightarrow> (u8 list option \<times> 'a fsys_scheme) res" where
  "sys_getcwd s buf n =
     (case buf of
        None \<Rightarrow> Inl Panic
      | Some buf \<Rightarrow>
          let (io_buf, s) = fs_malloc s
          in if io_buf = NULL then Inr (None, s)
             else
               let child_inode_nr = cwd_inode_nr (me s)
               in if \<not> (0 \<le> sint child_inode_nr \<and> sint child_inode_nr < 4096) then Inl Panic
                  else if child_inode_nr = 0 then
                    rbind (st buf 0 47) (\<lambda>buf. rbind (st buf 1 0) (\<lambda>buf. Inr (Some buf, s)))
                  else
                    rbind (memset (Some buf) 0 n) (\<lambda>buf.
                    rbind (case climb s child_inode_nr (replicate 512 0) of None \<Rightarrow> Inl Hang | Some r \<Rightarrow> r) (\<lambda>(path, s).
                      case path of
                        None \<Rightarrow> rbind (fs_free s io_buf) (\<lambda>s. Inr (None, s))
                      | Some full_path_reverse \<Rightarrow>
                          rbind (strlen (Some full_path_reverse)) (\<lambda>len.
                          if \<not> len \<le> n then Inl Panic
                          else rbind (unreverse full_path_reverse buf) (\<lambda>buf.
                            rbind (fs_free s io_buf) (\<lambda>s. Inr (Some buf, s)))))))"

definition sys_chdir :: "'a fsys_scheme \<Rightarrow> u8 list \<Rightarrow> (i32 \<times> 'a fsys_scheme) res" where
  "sys_chdir s path =
     rbind (search_file s path empty_record) (\<lambda>(inode_no, r, s).
       let (ret, s) =
             (if inode_no \<noteq> -1 \<and> file_type r = FT_DIRECTORY then (0, s\<lparr>me := (me s)\<lparr>cwd_inode_nr := inode_no\<rparr>\<rparr>)
              else (-1, s))
       in rbind (dir_close s (parent_dir r)) (\<lambda>s. Inr (ret, s)))"

section \<open>File status\<close>

record stat =
  st_ino :: u32
  st_size :: u32
  st_filetype :: u32

definition sys_stat :: "'a fsys_scheme \<Rightarrow> u8 list \<Rightarrow> stat \<Rightarrow> (i32 \<times> stat \<times> 'a fsys_scheme) res" where
  "sys_stat s path buf =
     rbind (is_root_path path) (\<lambda>root.
     rbind (if root then
              rbind (get_dir s ROOT_DIR) (\<lambda>d. rbind (get_inode s (dir_inode d)) (\<lambda>i.
                Inr \<lparr>st_ino = 0, st_size = i_size i, st_filetype = FT_DIRECTORY\<rparr>))
            else Inr buf) (\<lambda>buf.
     rbind (search_file s path empty_record) (\<lambda>(inode_no, r, s).
     rbind (if inode_no \<noteq> -1 then
              rbind (inode_open s inode_no) (\<lambda>(p, s).
                let buf = \<lparr>st_ino = inode_no, st_size = i_size (inodes s p), st_filetype = file_type r\<rparr>
                in rbind (inode_close s p) (\<lambda>s. Inr (0, buf, s)))
            else Inr (-1, buf, s)) (\<lambda>(ret, buf, s).
     rbind (dir_close s (parent_dir r)) (\<lambda>s. Inr (ret, buf, s))))))"

end
