(* ===== verification/Readback.thy ===== *)
theory Readback
  imports Content Fsys
begin

text \<open>
  What \<open>file_read\<close> returns, and that it returns what \<open>file_write\<close> stored.
\<close>

section \<open>The addresses that are looked up\<close>

lemma copy_direct_nth:
  "length ab = 140 \<Longrightarrow> b \<le> 140 \<Longrightarrow> a \<le> b \<Longrightarrow>
   length (copy_direct i ab a b) = 140 \<and> (\<forall>j. a \<le> j \<longrightarrow> j < b \<longrightarrow> copy_direct i ab a b ! j = i_sectors i ! j)"
proof (induction b)
  case (Suc b)
  show ?case
  proof (cases "a \<le> b")
    case True
    have step: "copy_direct i ab a (Suc b) = (copy_direct i ab a b)[b := i_sectors i ! b]"
      using True by (simp add: copy_direct_def)
    from Suc.IH Suc.prems True show ?thesis unfolding step by (auto simp: nth_list_update less_Suc_eq)
  next
    case False
    then have "a = Suc b" using Suc.prems(3) by simp
    then show ?thesis using Suc.prems(1) by (simp add: copy_direct_def)
  qed
qed (simp add: copy_direct_def)

lemma read_addresses_direct:
  assumes "unat (pos :: u32) + unat count < 6144"
  shows "\<exists>ab. read_addresses s i (pos div BLOCK_SIZE) ((pos + count) div BLOCK_SIZE) = Inr ab \<and> length ab = 140 \<and>
           (\<forall>j. unat pos div 512 \<le> j \<longrightarrow> j \<le> (unat pos + unat count) div 512 \<longrightarrow> ab ! j = i_sectors i ! j)"
proof -
  have u: "unat (pos div 512) = unat pos div 512" "unat ((pos + count) div 512) = (unat pos + unat count) div 512"
    using small_sum(1) [OF assms] by (simp_all add: unat_div_word)
  have lim: "(unat pos + unat count) div 512 < 12" "unat pos div 512 \<le> (unat pos + unat count) div 512"
    using assms by (simp_all add: div_less_iff_less_mult div_le_mono)
  have a: "pos div 512 < 139" "(pos + count) div 512 < 139" "(pos + count) div 512 < 12"
    using lim by (simp_all add: unat_less_iff u)
  show ?thesis
  proof (cases "(pos + count) div 512 = pos div 512")
    case True
    then have e: "(unat pos + unat count) div 512 = unat pos div 512" using u by metis
    have "read_addresses s i (pos div BLOCK_SIZE) ((pos + count) div BLOCK_SIZE) =
        Inr ((replicate 140 0)[unat pos div 512 := i_sectors i ! (unat pos div 512)])"
      using a True by (simp add: read_addresses_def BLOCK_SIZE_def u)
    then show ?thesis using lim(1) unfolding e by auto
  next
    case False
    then have "read_addresses s i (pos div BLOCK_SIZE) ((pos + count) div BLOCK_SIZE) =
        Inr (copy_direct i (replicate 140 0) (unat pos div 512) (Suc ((unat pos + unat count) div 512)))"
      using a by (simp add: read_addresses_def BLOCK_SIZE_def u)
    then show ?thesis
      using copy_direct_nth [of "replicate 140 0" "Suc ((unat pos + unat count) div 512)" "unat pos div 512" i] lim
      by (auto simp: less_Suc_eq_le)
  qed
qed

section \<open>The bytes that are read\<close>

lemma sector_slice:
  assumes "disk_ok s" and "z mod 512 + d \<le> 512" and "z + d \<le> unat (i_size i)"
  shows "slice (sectors s (i_sectors i ! (z div 512))) (z mod 512) d = slice (contents s i) z d"
proof (rule nth_equalityI)
  have l: "length (sectors s (i_sectors i ! (z div 512))) = 512" using assms(1) by simp
  show "length (slice (sectors s (i_sectors i ! (z div 512))) (z mod 512) d) = length (slice (contents s i) z d)"
    using l assms(2,3) by simp
  fix j assume "j < length (slice (sectors s (i_sectors i ! (z div 512))) (z mod 512) d)"
  then have j: "j < d" using l assms(2) by simp
  have "z = 512 * (z div 512) + z mod 512" by simp
  then have "z + j = 512 * (z div 512) + (z mod 512 + j)" by linarith
  moreover have "z mod 512 + j < 512" using j assms(2) by simp
  ultimately have "(z + j) div 512 = z div 512 \<and> (z + j) mod 512 = z mod 512 + j"
    by (metis div_mult_self4 mod_mult_self4 div_less mod_less add.right_neutral zero_neq_numeral)
  then show "slice (sectors s (i_sectors i ! (z div 512))) (z mod 512) d ! j = slice (contents s i) z d ! j"
    using j l assms(2,3) by (simp add: nth_slice contents_def file_byte_def)
qed

lemma overlay_next:
  "off + length xs + length ys \<le> length buf \<Longrightarrow> overlay (overlay buf off xs) (off + length xs) ys = overlay buf off (xs @ ys)"
  by (simp add: overlay_def ac_simps)

lemma slice_next: "off + a + c \<le> length xs \<Longrightarrow> slice xs off a @ slice xs (off + a) c = slice xs off (a + c)"
  by (simp add: slice_def take_add add.commute)

lemma read_loop_returns:
  fixes s :: "'a fsys_scheme"
  assumes "fs_ok s" and "has_blocks s i n" and "length ab = 140" and "br \<le> rsize" and "unat rsize \<le> length buf"
    and "unat k < length (file_table s)" and "unat (fd_pos (file_table s ! unat k)) + (unat rsize - unat br) \<le> unat (i_size i)"
    and "unat (i_size i) < 6144" and "unat (i_size i) div 512 < n"
    and "\<forall>j. unat (fd_pos (file_table s ! unat k)) div 512 \<le> j \<longrightarrow>
           j \<le> (unat (fd_pos (file_table s ! unat k)) + (unat rsize - unat br)) div 512 \<longrightarrow> ab ! j = i_sectors i ! j"
  shows "read_loop s k buf rsize ab br =
    Inr (overlay buf (unat br) (slice (contents s i) (unat (fd_pos (file_table s ! unat k))) (unat rsize - unat br)),
         upd_file s k (\<lambda>f. f\<lparr>fd_pos := fd_pos f + (rsize - br)\<rparr>))"
  using assms
proof (induction "unat rsize - unat br" arbitrary: s br buf rule: less_induct)
  case less
  define P where "P = fd_pos (file_table s ! unat k)"
  define z where "z = unat P"
  show ?case
  proof (cases "br < rsize")
    case False
    then have "br = rsize" using less.prems(4) by simp
    moreover have "read_loop s k buf rsize ab br = Inr (buf, s)" using False by (subst read_loop.simps) simp
    ultimately show ?thesis by (simp add: slice_def overlay_def upd_file_def)
  next
    case True
    define d where "d = (if rsize - br < 512 - P mod 512 then rsize - br else 512 - P mod 512)"
    let ?b = "i_sectors i ! (z div 512)"
    have lt: "unat br < unat rsize" using True by (simp add: unat_less_iff)
    have cb: "unat (rsize - br) = unat rsize - unat br" using lt by (intro unat_sub_no_wrap) simp
    have zm: "unat (P mod 512) = z mod 512" "unat (P div 512) = z div 512"
      by (simp_all add: unat_mod_word unat_div_word z_def)
    have m: "z mod 512 < 512" by simp
    have dm: "unat d = min (unat rsize - unat br) (512 - z mod 512)"
      using chunk_bounds(3) [OF True, of P] by (simp only: cb zm d_def)
    have bd: "unat (br + d) = unat br + unat d"
      using chunk_bounds(2) [OF True, of P] dm by (simp only: cb zm d_def)
    have dle: "unat d \<le> unat rsize - unat br" "z mod 512 + unat d \<le> 512" "0 < unat d" unfolding dm using lt m by simp_all
    have end_le: "z + (unat rsize - unat br) \<le> unat (i_size i)" using less.prems(7) by (simp add: z_def P_def)
    have zn: "z div 512 < n" using end_le less.prems(9) div_le_mono [of z "unat (i_size i)" 512] by linarith
    have z12: "z div 512 < 140" using zn less.prems(2) by (simp add: has_blocks_def)
    have abz: "ab ! (z div 512) = ?b"
      using less.prems(10) div_le_mono [of z "z + (unat rsize - unat br)" 512] by (simp add: z_def P_def)
    have ld: "ld ab (P div 512) = Inr ?b" using z12 less.prems(3) abz by (simp add: zm)
    have bu: "block_used s ?b" using zn less.prems(2) by (simp add: has_blocks_def)
    have rd: "disk_read s ?b 1 = Inr (sectors s ?b)"
      using block_used_bounds(2) [OF less.prems(1) bu] by (intro disk_read_one) simp
    let ?piece = "slice (contents s i) z (unat d)"
    have sl: "slice (sectors s ?b) (z mod 512) (unat d) = ?piece"
      using end_le dle by (intro sector_slice [OF fs_ok_disk [OF less.prems(1)]]) simp_all
    have pl: "length ?piece = unat d" using end_le dle(1) by simp
    have room: "unat br + unat d \<le> length buf" using dle(1) lt less.prems(5) by simp
    let ?buf = "overlay buf (unat br) ?piece"
    let ?s1 = "upd_file s k (\<lambda>f. f\<lparr>fd_pos := fd_pos f + d\<rparr>)"
    have bl: "blit buf (unat br) ?piece = Inr ?buf" using room pl by (intro blit_in) simp
    have run: "read_loop s k buf rsize ab br = read_loop ?s1 k ?buf rsize ab (br + d)"
      by (subst read_loop.simps)
        (simp only: True if_True Let_def P_def [symmetric] BLOCK_SIZE_def ld rbind_Inr rd zm d_def [symmetric] sl bl)
    have ft: "file_table ?s1 ! unat k = (file_table s ! unat k)\<lparr>fd_pos := P + d\<rparr>" "length (file_table ?s1) = length (file_table s)"
      using less.prems(6) by (simp_all add: upd_file_def P_def)
    have zd: "unat (P + d) = z + unat d"
      using end_le dle(1) less.prems(8) by (subst unat_add_no_wrap) (simp_all add: z_def)
    have rest: "unat rsize - unat (br + d) = unat rsize - unat br - unat d" using bd by simp
    have le: "br + d \<le> rsize" using bd dle(1) lt by (simp add: unat_le_iff)
    have p1: "fs_ok ?s1" using less.prems(1) fs_ok_congs [of ?s1 s] by (simp add: upd_file_def)
    have p2: "has_blocks ?s1 i n"
      using less.prems(2) by (simp add: upd_file_def has_blocks_def block_used_def block_addr_def blocks_def data_start_def)
    have p5: "unat rsize \<le> length ?buf" using room pl less.prems(5) by simp
    have p7: "unat (fd_pos (file_table ?s1 ! unat k)) + (unat rsize - unat (br + d)) \<le> unat (i_size i)"
      using end_le dle(1) by (simp add: ft zd rest)
    have p10: "\<forall>j. unat (fd_pos (file_table ?s1 ! unat k)) div 512 \<le> j \<longrightarrow>
        j \<le> (unat (fd_pos (file_table ?s1 ! unat k)) + (unat rsize - unat (br + d))) div 512 \<longrightarrow> ab ! j = i_sectors i ! j"
    proof (intro allI impI)
      fix j assume j: "unat (fd_pos (file_table ?s1 ! unat k)) div 512 \<le> j"
        "j \<le> (unat (fd_pos (file_table ?s1 ! unat k)) + (unat rsize - unat (br + d))) div 512"
      have "z div 512 \<le> j" using j(1) div_le_mono [of z "z + unat d" 512] by (simp add: ft zd)
      moreover have "j \<le> (z + (unat rsize - unat br)) div 512" using j(2) dle(1) by (simp add: ft zd rest)
      ultimately show "ab ! j = i_sectors i ! j" using less.prems(10) by (simp add: z_def P_def)
    qed
    have "unat rsize - unat (br + d) < unat rsize - unat br" using rest dle lt by simp
    from less.hyps [OF this p1 p2 less.prems(3) le p5 _ p7 less.prems(8,9) p10] less.prems(6)
    have "read_loop ?s1 k ?buf rsize ab (br + d) =
        Inr (overlay ?buf (unat (br + d)) (slice (contents ?s1 i) (z + unat d) (unat rsize - unat (br + d))),
          upd_file ?s1 k (\<lambda>f. f\<lparr>fd_pos := fd_pos f + (rsize - (br + d))\<rparr>))"
      by (simp add: ft zd)
    moreover have "contents ?s1 i = contents s i" by (simp add: contents_def file_byte_def upd_file_def)
    moreover have "overlay ?buf (unat (br + d)) (slice (contents s i) (z + unat d) (unat rsize - unat (br + d))) =
        overlay buf (unat br) (slice (contents s i) z (unat rsize - unat br))"
    proof -
      let ?c = "unat rsize - unat (br + d)"
      have lc: "length (slice (contents s i) (z + unat d) ?c) = ?c" using end_le dle(1) rest by simp
      have "overlay ?buf (unat br + length ?piece) (slice (contents s i) (z + unat d) ?c) =
          overlay buf (unat br) (?piece @ slice (contents s i) (z + unat d) ?c)"
        using room pl lc rest dle(1) lt less.prems(5) by (intro overlay_next) simp
      moreover have "?piece @ slice (contents s i) (z + unat d) ?c = slice (contents s i) z (unat rsize - unat br)"
      proof -
        have c: "unat d + ?c = unat rsize - unat br" using rest dle(1) by simp
        then show ?thesis using slice_next [of z "unat d" ?c "contents s i"] end_le by simp
      qed
      ultimately show ?thesis using bd pl by simp
    qed
    moreover have "upd_file ?s1 k (\<lambda>f. f\<lparr>fd_pos := fd_pos f + (rsize - (br + d))\<rparr>) =
        upd_file s k (\<lambda>f. f\<lparr>fd_pos := fd_pos f + (rsize - br)\<rparr>)"
      using less.prems(6) by (simp add: upd_file_def algebra_simps)
    ultimately show ?thesis using run by (simp add: z_def P_def)
  qed
qed

lemma file_read_effect:
  fixes s :: "'a fsys_scheme"
  assumes "fs_ok s" and "unat k < length (file_table s)" and "file_table s ! unat k = f"
    and "get_inode s (fd_inode f) = Inr i" and "file_ok s i" and "unat (fd_pos f) < unat (i_size i)" and "unat (i_size i) < 12 * 512"
    and "unat (fd_pos f) + unat count < 12 * 512" and "unat count \<le> length buf"
    and "two_mallocs s p b ms" and "p \<notin> allocated s"
  shows "\<exists>r. unat r = min (unat count) (unat (i_size i) - unat (fd_pos f)) \<and>
           file_read s k buf count =
             Inr (r, take (unat r) (drop (unat (fd_pos f)) (contents s i)) @ drop (unat r) buf,
               s\<lparr>mallocs := ms, file_table := (file_table s)[unat k := f\<lparr>fd_pos := fd_pos f + r\<rparr>]\<rparr>)"
proof -
  let ?w = "working s p b ms"
  have ms: "mallocs s = p # b # ms" "p \<noteq> NULL" "b \<noteq> NULL" "p \<noteq> b" "b \<notin> allocated s"
    using assms(10) by (simp_all add: two_mallocs_def)
  have lim: "unat (fd_pos f) + unat count < 6144" using assms(8) by simp
  define r where "r = (if fd_pos f + count > i_size i then i_size i - fd_pos f else count)"
  have sub: "unat (i_size i - fd_pos f) = unat (i_size i) - unat (fd_pos f)" using assms(6) by (intro unat_sub_no_wrap) simp
  have r: "unat r = min (unat count) (unat (i_size i) - unat (fd_pos f))"
    using small_sum(1) [OF lim] sub by (auto simp: r_def unat_less_iff)
  have go: "\<not> (fd_pos f + count > i_size i \<and> r = 0)"
  proof
    assume h: "fd_pos f + count > i_size i \<and> r = 0"
    then have "r = i_size i - fd_pos f" by (simp add: r_def)
    then have "unat r = unat (i_size i) - unat (fd_pos f)" using sub by (simp only:)
    then show False using h assms(6) by simp
  qed
  obtain ab where ab: "read_addresses ?w i (fd_pos f div BLOCK_SIZE) ((fd_pos f + count) div BLOCK_SIZE) = Inr ab" "length ab = 140"
    "\<forall>j. unat (fd_pos f) div 512 \<le> j \<longrightarrow> j \<le> (unat (fd_pos f) + unat count) div 512 \<longrightarrow> ab ! j = i_sectors i ! j"
    using read_addresses_direct [OF lim] by blast
  have ub: "unat (i_size i) div 512 < used_blocks i" using file_ok_div [OF assms(5)] assms(6) by (auto simp: used_blocks_def split: if_splits)
  have hb: "has_blocks ?w i (used_blocks i)" using assms(5) by (simp add: file_ok_def)
  have "read_loop ?w k buf r ab 0 =
      Inr (overlay buf (unat (0 :: u32)) (slice (contents ?w i) (unat (fd_pos (file_table ?w ! unat k))) (unat r - unat (0 :: u32))),
         upd_file ?w k (\<lambda>f. f\<lparr>fd_pos := fd_pos f + (r - 0)\<rparr>))"
  proof (rule read_loop_returns [OF _ hb ab(2)])
    show "fs_ok ?w" using assms(1) by simp
    show "\<forall>j. unat (fd_pos (file_table ?w ! unat k)) div 512 \<le> j \<longrightarrow>
           j \<le> (unat (fd_pos (file_table ?w ! unat k)) + (unat r - unat (0 :: u32))) div 512 \<longrightarrow> ab ! j = i_sectors i ! j"
    proof (intro allI impI)
      fix j assume "unat (fd_pos (file_table ?w ! unat k)) div 512 \<le> j"
        and j: "j \<le> (unat (fd_pos (file_table ?w ! unat k)) + (unat r - unat (0 :: u32))) div 512"
      moreover have "(unat (fd_pos f) + unat r) div 512 \<le> (unat (fd_pos f) + unat count) div 512"
        using r by (intro div_le_mono) simp
      ultimately show "ab ! j = i_sectors i ! j" using ab(3) assms(3) by simp
    qed
  qed (use assms(2,3,6,7,9) r ub in auto)
  then have rl: "read_loop ?w k buf r ab 0 =
      Inr (take (unat r) (drop (unat (fd_pos f)) (contents s i)) @ drop (unat r) buf,
        upd_file ?w k (\<lambda>f. f\<lparr>fd_pos := fd_pos f + r\<rparr>))"
    using assms(3) r by (simp add: overlay_def slice_def)
  have fr: "insert b (insert p (allocated s)) - {b} - {p} = allocated s" using ms(4,5) assms(11) by auto
  have "file_read s k buf count = Inr (r, take (unat r) (drop (unat (fd_pos f)) (contents s i)) @ drop (unat r) buf,
      s\<lparr>mallocs := ms, file_table := (file_table s)[unat k := f\<lparr>fd_pos := fd_pos f + r\<rparr>]\<rparr>)"
    unfolding file_read_def using assms(2-4) ms go ab(1) rl fr
    by (simp add: fs_malloc_def fs_free_def Let_def r_def [symmetric] upd_file_def)
  with r show ?thesis by blast
qed

text \<open>
  \<open>file_read\<close> returns what the file holds.  From a position inside a file kept in direct
  blocks, with the end of the request below the 13th block, it returns \<open>count\<close> or what is left to
  the end of the file if that is less; that many bytes of the contents from the position on are
  at the front of the buffer, the rest of the buffer is as it was, the position has moved behind
  them, and nothing else has changed.  (A request that ends in block 12 or later looks for the
  indirect table however short the file is, and panics when there is none.)
\<close>

theorem file_read_returns:
  fixes s :: "'a fsys_scheme"
  assumes "fs_ok s" and "unat k < length (file_table s)" and "file_table s ! unat k = f"
    and "get_inode s (fd_inode f) = Inr i" and "file_ok s i" and "unat (fd_pos f) < unat (i_size i)" and "unat (i_size i) < 12 * 512"
    and "unat (fd_pos f) + unat count < 12 * 512" and "unat count \<le> length buf"
    and "two_mallocs s p b ms" and "p \<notin> allocated s"
  shows "\<exists>r. unat r = min (unat count) (unat (i_size i) - unat (fd_pos f)) \<and>
           file_read s k buf count =
             Inr (r, take (unat r) (drop (unat (fd_pos f)) (contents s i)) @ drop (unat r) buf,
               s\<lparr>mallocs := ms, file_table := (file_table s)[unat k := f\<lparr>fd_pos := fd_pos f + r\<rparr>]\<rparr>)"
  by (rule file_read_effect [OF assms])

theorem file_read_returns_witness:
  "\<exists>s'. file_read (file_fs 3 (0x2a7 # replicate 12 0)) 3 (replicate 8 1) 8 = Inr (3, [0, 0, 0, 1, 1, 1, 1, 1], s')"
proof -
  let ?s = "file_fs 3 (0x2a7 # replicate 12 0)"
  let ?i = "(inode_init 1)\<lparr>i_size := 3, i_sectors := 0x2a7 # replicate 12 0\<rparr>"
  have "block_used ?s 0x2a7"
    unfolding block_used_def
    by (rule exI [of _ 0])
      (simp add: block_addr_def data_start_def blocks_def file_fs_def dir_fs_def some_fs_def some_part_def some_super_def bm_bit_def bm_size_def bitmap_of_def)
  then have fo: "file_ok ?s ?i" by (auto simp: file_ok_def has_blocks_def used_blocks_def nth_Cons')
  have c: "contents ?s ?i = [0, 0, 0]" by (simp add: contents_def file_byte_def file_fs_def dir_fs_def some_fs_def upt_rec)
  from file_read_returns [of ?s 3 "\<lparr>fd_pos = 0, fd_flag = 2, fd_inode = 0xc0200000\<rparr>" ?i 8 "replicate 8 1" "0xc0110000" "0xc0120000" "[0xc0110000, 0xc0120000]"]
    file_fs_facts [of 3 "0x2a7 # replicate 12 0"] fo
  obtain r s' where "unat r = 3" "file_read ?s 3 (replicate 8 1) 8 = Inr (r, take (unat r) [0, 0, 0] @ drop (unat r) (replicate 8 1), s')"
    unfolding c by auto
  moreover have "r = 3" using \<open>unat r = 3\<close> by (simp add: word_unat_eq_iff)
  ultimately show ?thesis by (auto simp: numeral_eq_Suc)
qed

section \<open>Write, seek, read\<close>

lemma sint_small:
  assumes "unat (x :: u32) < 2 ^ 31"
  shows "sint x = int (unat x)"
proof -
  have "int (unat x) < 2 ^ 31" using assms by (metis of_nat_less_iff of_nat_numeral of_nat_power)
  then have "uint x < 2 ^ 31" by simp
  then have "signed_take_bit 31 (uint x) = uint x" by (intro signed_take_bit_int_eq_self) (simp_all add: order_trans [OF _ uint_ge_0])
  then show ?thesis by (simp add: sint_uint)
qed

text \<open>
  C12: what is written is read back through the system calls.  On a descriptor of a file opened
  for writing, \<open>sys_write\<close> of some bytes, \<open>sys_lseek\<close> to where the file ended before, and \<open>sys_read\<close> of
  as many bytes put exactly these bytes into the buffer, under the conditions of the two
  operations.
\<close>

theorem write_seek_read:
  fixes s :: "'a fsys_scheme"
  assumes "fs_ok s" and "fd_local2global s fd = Inr k" and "2 < sint fd" and "unat k < length (file_table s)"
    and "fd_flag (file_table s ! unat k) AND 3 \<noteq> 0" and "fd_inode (file_table s ! unat k) = ip"
    and "get_inode s ip = Inr i" and "file_ok s i" and "one_sector s i" and "0 < count"
    and "unat (i_size i) + unat count < 12 * 512" and "unat count \<le> length buf" and "unat count \<le> length buf2"
    and "(unat (i_size i) + unat count) div 512 + 1 - used_blocks i \<le> card (free_bits (blocks s))" and "0 \<notin> free_bits (blocks s)"
    and "two_mallocs s p b (p # b # ms)" and "p \<notin> allocated s"
  shows "\<exists>s1 s2 s3. sys_write s fd buf count = Inr (count, [], s1) \<and>
           sys_lseek s1 fd (i_size i) 1 = Inr (i_size i, s2) \<and>
           sys_read s2 keys fd buf2 count = Inr (count, take (unat count) buf @ drop (unat count) buf2, s3)"
proof -
  from file_write_effect [OF assms(1,4,6-9,11,12,14-17)] obtain s1 i1 where
    w: "file_write s k buf count = Inr (count, s1)" "get_inode s1 ip = Inr i1" "contents s1 i1 = contents s i @ take (unat count) buf"
      "file_ok s1 i1" "fs_ok s1" "allocated s1 = allocated s" "mallocs s1 = p # b # ms" "me s1 = me s"
      "unat (i_size i1) = unat (i_size i) + unat count"
      "file_table s1 = (file_table s)[unat k := (file_table s ! unat k)\<lparr>fd_pos := i_size i - 1 + count\<rparr>]" by blast
  have fl: "fd_flag (file_table s ! unat k) AND ucast O_WRONLY \<noteq> 0 \<or> fd_flag (file_table s ! unat k) AND ucast O_RDWR \<noteq> 0"
  proof -
    have "x AND 3 = (x AND 1) OR (x AND 2)" for x :: u32
      by (simp flip: bit.conj_disj_distrib)
    then show ?thesis using assms(5) by (auto simp: O_WRONLY_def O_RDWR_def)
  qed
  have fd: "\<not> sint fd < 0" "fd \<noteq> 0" "fd \<noteq> 1" "fd \<noteq> 2" using assms(3) by auto
  have r1: "sys_write s fd buf count = Inr (count, [], s1)"
    using fd fl assms(2,4) w(1) by (simp add: sys_write_def)
  let ?s2 = "upd_file s1 k (\<lambda>f. f\<lparr>fd_pos := i_size i\<rparr>)"
  have l1: "fd_local2global s1 fd = Inr k" using assms(2) w(8) by (simp add: fd_local2global_def)
  have k1: "unat k < length (file_table s1)" "fd_inode (file_table s1 ! unat k) = ip" using assms(4,6) w(10) by simp_all
  have c: "0 < unat count" using assms(10) by (simp add: unat_less_iff)
  have sm: "unat (i_size i1 - 1) = unat (i_size i) + unat count - 1"
    using w(9) c by (subst unat_sub_no_wrap) simp_all
  have si: "sint (i_size i) = int (unat (i_size i))" "sint (i_size i1 - 1) = int (unat (i_size i1 - 1))"
    using assms(11) sm by (intro sint_small; simp)+
  have nn: "\<not> (int m < 0 \<or> int l < int m)" if "m \<le> l" for m l using that by simp
  have pos: "\<not> (sint (i_size i) < 0 \<or> sint (i_size i1 - 1) < sint (i_size i))"
    unfolding si by (rule nn) (use c sm in linarith)
  have r2: "sys_lseek s1 fd (i_size i) 1 = Inr (i_size i, ?s2)"
    using fd(1) l1 k1 w(2) pos by (simp add: sys_lseek_def Let_def)
  have e2: "contents ?s2 i1 = contents s1 i1" by (simp add: upd_file_def contents_def file_byte_def)
  have "\<exists>r. unat r = min (unat count) (unat (i_size i1) - unat (i_size i)) \<and>
           file_read ?s2 k buf2 count =
             Inr (r, take (unat r) (drop (unat (i_size i)) (contents ?s2 i1)) @ drop (unat r) buf2,
               ?s2\<lparr>mallocs := ms, file_table := (file_table ?s2)[unat k := (file_table ?s2 ! unat k)\<lparr>fd_pos := i_size i + r\<rparr>]\<rparr>)"
  proof -
    have f2: "file_table ?s2 ! unat k = (file_table s1 ! unat k)\<lparr>fd_pos := i_size i\<rparr>" "length (file_table ?s2) = length (file_table s1)"
      using k1(1) by (simp_all add: upd_file_def)
    have "fs_ok ?s2" using w(5) fs_ok_congs [of ?s2 s1] by (simp add: upd_file_def)
    moreover have "file_ok ?s2 i1"
      using w(4) by (simp add: upd_file_def file_ok_def has_blocks_def block_used_def block_addr_def blocks_def data_start_def)
    moreover have "two_mallocs ?s2 p b ms" "p \<notin> allocated ?s2" "get_inode ?s2 ip = Inr i1"
      using assms(16,17) w(2,6,7) by (auto simp: two_mallocs_def upd_file_def get_inode_def split: if_splits)
    ultimately show ?thesis
      using file_read_effect [of ?s2 k "file_table ?s2 ! unat k" i1 count buf2 p b ms] k1 f2 w(9) c assms(11,13) by simp
  qed
  then obtain r s3 where r: "unat r = min (unat count) (unat (i_size i1) - unat (i_size i))"
    "file_read ?s2 k buf2 count = Inr (r, take (unat r) (drop (unat (i_size i)) (contents ?s2 i1)) @ drop (unat r) buf2, s3)" by blast
  have "unat r = unat count" using r(1) w(9) by simp
  then have rc: "r = count" by (simp add: word_unat_eq_iff)
  have "take (unat count) (drop (unat (i_size i)) (contents ?s2 i1)) = take (unat count) buf"
    using assms(12) by (simp add: e2 w(3))
  then have r3: "sys_read ?s2 keys fd buf2 count = Inr (count, take (unat count) buf @ drop (unat count) buf2, s3)"
    using fd l1 r(2) unfolding rc by (simp add: sys_read_def fd_local2global_def upd_file_def)
  show ?thesis using r1 r2 r3 by blast
qed

theorem write_seek_read_witness:
  "\<exists>s1 s2 s3. sys_write (file_fs 0 (replicate 13 0)) 3 [104, 105] 2 = Inr (2, [], s1) \<and>
     sys_lseek s1 3 0 1 = Inr (0, s2) \<and> sys_read s2 [] 3 [0, 0] 2 = Inr (2, [104, 105], s3)"
proof -
  let ?s = "file_fs 0 (replicate 13 0)" and ?i = "(inode_init 1)\<lparr>i_size := 0, i_sectors := replicate 13 0\<rparr>"
  have i: "?i = inode_init 1" by (simp add: inode_init_def)
  note f = file_fs_facts [of 0 "replicate 13 0"]
  have "fd_local2global ?s 3 = Inr 3" by (simp add: fd_local2global_def file_fs_me)
  moreover have "unat (3 :: u32) < length (file_table ?s)" "fd_flag (file_table ?s ! unat (3 :: u32)) AND 3 \<noteq> 0"
    "fd_inode (file_table ?s ! unat (3 :: u32)) = 0xc0200000" using f(2,3) by simp_all
  ultimately show ?thesis
    using write_seek_read [OF f(1), of 3 3 "0xc0200000" ?i 2 "[104, 105]" "[0, 0]" "0xc0110000" "0xc0120000" "[]" "[]"] f(4-8) empty_file_facts(1,2) empty_file_facts(3) [of ?s]
    unfolding i by (simp add: inode_init_def)
qed

end
