(* ===== verification/Timer.thy ===== *)
theory Timer
  imports Sync
begin

text \<open>
  The clock interrupt and sleeping, from \<open>device/timer.c\<close>.

  \<open>global_ticks\<close> is the counter \<open>ticks\<close> of that file (the field of the same name in the PCB is
  the rest of the time slice), \<open>port_out\<close> the bytes written to I/O ports, oldest first.
  \<open>timer_interrupt\<close> is the handler between the processor's entry, which turns interrupts off, and
  the return of whichever thread runs afterwards.
\<close>

record timer = sync +
  global_ticks :: u32
  port_out :: "(u16 \<times> u8) list"

definition outb :: "u16 \<Rightarrow> u8 \<Rightarrow> 'a timer_scheme \<Rightarrow> 'a timer_scheme" where
  "outb port b s = s\<lparr>port_out := port_out s @ [(port, b)]\<rparr>"

definition IRQ0_FREQUENCY :: u32 where
  "IRQ0_FREQUENCY = 100"

definition COUNTER0_VALUE :: u32 where
  "COUNTER0_VALUE = 1193180 div IRQ0_FREQUENCY"

text \<open>
  The cast in \<open>(uint8_t)counter_value >> 8\<close> binds tighter than the shift; the shift is on the
  promoted byte.
\<close>

definition frequency_set :: "u8 \<Rightarrow> u8 \<Rightarrow> u8 \<Rightarrow> u8 \<Rightarrow> u16 \<Rightarrow> 'a timer_scheme \<Rightarrow> 'a timer_scheme" where
  "frequency_set counter_port counter_no rwl counter_mode counter_value s =
     (let control = (ucast (push_bit 6 (ucast counter_no :: u32) OR push_bit 4 (ucast rwl) OR
                            push_bit 1 (ucast counter_mode)) :: u8);
          s = outb 0x43 control s;
          s = outb (ucast counter_port) (ucast counter_value) s
      in outb (ucast counter_port) (ucast (drop_bit 8 (ucast (ucast counter_value :: u8) :: u32))) s)"

definition timer_init :: "'a timer_scheme \<Rightarrow> 'a timer_scheme" where
  "timer_init s = frequency_set 0x40 0 3 2 (ucast COUNTER0_VALUE) s"

definition intr_timer_handler :: "'a timer_scheme \<Rightarrow> 'a timer_scheme res" where
  "intr_timer_handler s =
     (let cur_thread = cur s
      in if stack_magic (tasks s cur_thread) \<noteq> 0x19870916 then Inl Panic
         else
           let s = s\<lparr>global_ticks := global_ticks s + 1\<rparr>;
               s = upd_task s cur_thread (\<lambda>p. p\<lparr>elapsed_ticks := elapsed_ticks p + 1\<rparr>)
           in if ticks (tasks s cur_thread) = 0 then schedule s InHandler
              else Inr (upd_task s cur_thread (\<lambda>p. p\<lparr>ticks := ticks p - 1\<rparr>)))"

definition timer_interrupt :: "'a timer_scheme \<Rightarrow> 'a timer_scheme res" where
  "timer_interrupt s =
     rbind (intr_timer_handler (cli s)) (\<lambda>s'. Inr (if cur s' = cur s then sti s' else resume s'))"

text \<open>One test of the loop of \<open>ticks_to_sleep\<close>; \<open>False\<close> when the thread gave up the processor.\<close>

definition ticks_to_sleep_pass :: "'a timer_scheme \<Rightarrow> u32 \<Rightarrow> u32 \<Rightarrow> (bool \<times> 'a timer_scheme) res" where
  "ticks_to_sleep_pass s start_tick sleep_ticks =
     (if global_ticks s - start_tick < sleep_ticks then rbind (thread_yield s) (\<lambda>s. Inr (False, s))
      else Inr (True, s))"

text \<open>
  The second argument of \<open>DIV_ROUND_UP\<close> is the macro \<open>1000 / IRQ0_FREQUENCY\<close> without
  parentheses, so the preprocessor makes this of it.
\<close>

definition sleep_ticks_of :: "u32 \<Rightarrow> u32" where
  "sleep_ticks_of m_seconds = (m_seconds + 1000 div IRQ0_FREQUENCY - 1) div 1000 div IRQ0_FREQUENCY"

definition mtime_sleep :: "'a timer_scheme \<Rightarrow> u32 \<Rightarrow> (bool \<times> 'a timer_scheme) res" where
  "mtime_sleep s m_seconds =
     (let sleep_ticks = sleep_ticks_of m_seconds
      in if \<not> sleep_ticks > 0 then Inl Panic else ticks_to_sleep_pass s (global_ticks s) sleep_ticks)"

section \<open>Time slices\<close>

fun timer_interrupts :: "nat \<Rightarrow> 'a timer_scheme \<Rightarrow> 'a timer_scheme res" where
  "timer_interrupts 0 s = Inr s"
| "timer_interrupts (Suc k) s = rbind (timer_interrupt s) (timer_interrupts k)"

text \<open>A tick within the slice.\<close>

definition tick_state :: "'a timer_scheme \<Rightarrow> 'a timer_scheme" where
  "tick_state s = upd_task (s\<lparr>global_ticks := global_ticks s + 1\<rparr>) (cur s)
     (\<lambda>p. p\<lparr>elapsed_ticks := elapsed_ticks p + 1\<rparr>)"

lemma tick_state_fields [sched]:
  "nxt (tick_state s) = nxt s" "prv (tick_state s) = prv s" "eflags (tick_state s) = eflags s"
  "cur (tick_state s) = cur s" "idle_thread (tick_state s) = idle_thread s"
  "tasks (tick_state s) = (tasks s)(cur s := (tasks s (cur s))\<lparr>elapsed_ticks := elapsed_ticks (tasks s (cur s)) + 1\<rparr>)"
  "global_ticks (tick_state s) = global_ticks s + 1"
  by (simp_all add: tick_state_def sched upd_task_def)

lemma handler_tick:
  "stack_magic (tasks s (cur s)) = 0x19870916 \<Longrightarrow>
   intr_timer_handler s =
     (if ticks (tasks s (cur s)) = 0 then schedule (tick_state s) InHandler
      else Inr (upd_task (tick_state s) (cur s) (\<lambda>p. p\<lparr>ticks := ticks p - 1\<rparr>)))"
  by (simp add: intr_timer_handler_def Let_def tick_state_def sched upd_task_def)

lemma sched_inv_tasks:
  assumes "nxt s' = nxt s" "prv s' = prv s" "cur s' = cur s" "idle_thread s' = idle_thread s"
    and "\<And>t. status (tasks s' t) = status (tasks s t)"
  shows "sched_inv s' A rs \<longleftrightarrow> sched_inv s A rs"
  using assms by (simp add: sched_inv_def lists_rep_links [of s' s])

lemma cli_sched [sched]:
  "nxt (cli s) = nxt s" "prv (cli s) = prv s" "tasks (cli s) = tasks s" "cur (cli s) = cur s"
  "idle_thread (cli s) = idle_thread s" "global_ticks (cli s) = global_ticks s"
  "nxt (sti s) = nxt s" "prv (sti s) = prv s" "tasks (sti s) = tasks s" "cur (sti s) = cur s"
  "idle_thread (sti s) = idle_thread s" "global_ticks (sti s) = global_ticks s"
  by (simp_all add: cli_def sti_def)

definition magic_ok :: "'a sched_scheme \<Rightarrow> bool" where
  "magic_ok s \<longleftrightarrow> stack_magic (tasks s (cur s)) = 0x19870916"

lemma tick_in_slice:
  assumes "sched_inv s A rs" and "magic_ok s" and "ticks (tasks s (cur s)) \<noteq> 0"
  shows "\<exists>s'. timer_interrupt s = Inr s' \<and> sched_inv s' A rs \<and> magic_ok s' \<and> cur s' = cur s \<and>
           intr_get_status s' = INTR_ON \<and> global_ticks s' = global_ticks s + 1 \<and>
           ticks (tasks s' (cur s)) = ticks (tasks s (cur s)) - 1 \<and>
           priority (tasks s' (cur s)) = priority (tasks s (cur s)) \<and>
           elapsed_ticks (tasks s' (cur s)) = elapsed_ticks (tasks s (cur s)) + 1"
proof -
  let ?t = "upd_task (tick_state (cli s)) (cur s) (\<lambda>p. p\<lparr>ticks := ticks p - 1\<rparr>)"
  have "timer_interrupt s = Inr (sti ?t)"
    using assms(2,3) by (simp add: timer_interrupt_def magic_ok_def handler_tick sched)
  moreover have "sched_inv (sti ?t) A rs"
    using assms(1) by (subst sched_inv_tasks [of _ s]) (auto simp: sched)
  moreover have "global_ticks (sti ?t) = global_ticks s + 1"
    by (simp add: sched upd_task_def)
  ultimately show ?thesis
    using assms(2) by (intro exI [of _ "sti ?t"]) (auto simp: magic_ok_def sched intr)
qed

text \<open>The tick at its end: the scheduler puts the thread behind all ready ones.\<close>

lemma tick_at_end:
  assumes "sched_inv s A rs" and "magic_ok s" and "ticks (tasks s (cur s)) = 0" and "rs \<noteq> []"
  shows "\<exists>s' rs'. timer_interrupt s = Inr s' \<and> sched_inv s' (set_ready A rs') rs' \<and>
           cur s' # rs' = rs @ [cur s] \<and> global_ticks s' = global_ticks s + 1 \<and>
           ticks (tasks s' (cur s)) = priority (tasks s (cur s))"
proof -
  let ?t = "tick_state (cli s)"
  have inv: "sched_inv ?t A rs"
    using assms(1) by (subst sched_inv_tasks [of _ s]) (auto simp: sched)
  have off: "intr_get_status ?t = INTR_OFF"
    using status_cli [of s] by (simp add: intr_get_status_def sched)
  from schedule_running_inv [OF off inv, of InHandler] obtain s1 rs1 where
    s1: "schedule ?t InHandler = Inr s1" "sched_inv s1 (set_ready A rs1) rs1" "cur s1 # rs1 = rs @ [cur s]"
      "untouched ?t s1" "ticks (tasks s1 (cur s)) = priority (tasks s (cur s))"
    by (auto simp: sched)
  have "status (tasks s (cur s)) = TASK_RUNNING" "cur s \<in> set rs \<Longrightarrow> status (tasks s (cur s)) = TASK_READY"
    using assms(1) by (simp_all add: sched_inv_def)
  then have "cur s \<notin> set rs" by auto
  moreover have "cur s1 \<in> set rs"
    using s1(3) assms(4) by (cases rs) auto
  ultimately have "cur s1 \<noteq> cur s" by auto
  then have "timer_interrupt s = Inr (resume s1)"
    using assms(2,3) s1(1) by (simp add: timer_interrupt_def magic_ok_def handler_tick sched)
  moreover have "sched_inv (resume s1) (set_ready A rs1) rs1"
    using s1(2) by (subst sched_inv_tasks [of _ s1]) (auto simp: sched)
  moreover have "global_ticks (resume s1) = global_ticks s + 1"
  proof -
    have "sched.more (resume s1) = sched.more ?t" using s1(4) by (simp add: untouched_def sched)
    then have "global_ticks (resume s1) = global_ticks ?t" by (cases "resume s1"; cases ?t) simp
    then show ?thesis by (simp add: sched)
  qed
  ultimately show ?thesis
    using s1(3,5) by (intro exI [of _ "resume s1"] exI [of _ rs1]) (simp add: sched)
qed

lemma timer_interrupts_Suc_end:
  fixes s :: "'a timer_scheme"
  shows "timer_interrupts (Suc k) s = rbind (timer_interrupts k s) timer_interrupt"
proof (induction k arbitrary: s)
  case (Suc k)
  have "timer_interrupts (Suc k) = (\<lambda>s :: 'a timer_scheme. rbind (timer_interrupts k s) timer_interrupt)"
    by (intro ext Suc.IH)
  then have "timer_interrupts (Suc (Suc k)) s = rbind (timer_interrupt s) (\<lambda>s. rbind (timer_interrupts k s) timer_interrupt)"
    by (simp only: timer_interrupts.simps(2) [of "Suc k"])
  then show ?case by (simp add: rbind_assoc)
next
  case 0
  show ?case by (cases "timer_interrupt s") simp_all
qed

lemma ticks_in_slice:
  assumes "sched_inv s A rs" and "magic_ok s" and "k \<le> unat (ticks (tasks s (cur s)))"
  shows "\<exists>s'. timer_interrupts k s = Inr s' \<and> sched_inv s' A rs \<and> magic_ok s' \<and> cur s' = cur s \<and>
           global_ticks s' = global_ticks s + of_nat k \<and>
           unat (ticks (tasks s' (cur s))) = unat (ticks (tasks s (cur s))) - k \<and>
           priority (tasks s' (cur s)) = priority (tasks s (cur s))"
  using assms(3)
proof (induction k)
  case 0
  then show ?case using assms by simp
next
  case (Suc k)
  then obtain s1 where s1: "timer_interrupts k s = Inr s1" "sched_inv s1 A rs" "magic_ok s1" "cur s1 = cur s"
    "global_ticks s1 = global_ticks s + of_nat k"
    "unat (ticks (tasks s1 (cur s))) = unat (ticks (tasks s (cur s))) - k"
    "priority (tasks s1 (cur s)) = priority (tasks s (cur s))"
    by auto
  have pos: "0 < unat (ticks (tasks s1 (cur s)))" using s1(6) Suc.prems by simp
  then have nz: "ticks (tasks s1 (cur s1)) \<noteq> 0" by (auto simp: s1(4))
  have dec: "unat (ticks (tasks s1 (cur s)) - 1) = unat (ticks (tasks s1 (cur s))) - 1"
    using pos by (simp add: unat_sub_no_wrap)
  from tick_in_slice [OF s1(2,3) nz] obtain s2 where
    "timer_interrupt s1 = Inr s2" "sched_inv s2 A rs" "magic_ok s2" "cur s2 = cur s"
    "global_ticks s2 = global_ticks s1 + 1" "ticks (tasks s2 (cur s)) = ticks (tasks s1 (cur s)) - 1"
    "priority (tasks s2 (cur s)) = priority (tasks s (cur s))"
    by (auto simp: s1(4,7))
  then show ?case
    using s1(1,5,6) dec by (intro exI [of _ s2]) (simp add: timer_interrupts_Suc_end del: timer_interrupts.simps)
qed

text \<open>
  C32: the time slice.  A running thread whose slice has \<open>n\<close> ticks left keeps the processor for
  the next \<open>n\<close> clock interrupts; the one after it moves the thread behind all ready ones with a
  slice as long as its priority and gives the processor to the first of them.  None of the
  assertions on the way fires and the scheduler's invariant is kept.
\<close>

theorem time_slice:
  assumes "sched_inv s A rs" and "magic_ok s" and "rs \<noteq> []"
    and "n = unat (ticks (tasks s (cur s)))"
  shows "(\<forall>k\<le>n. \<exists>s'. timer_interrupts k s = Inr s' \<and> cur s' = cur s) \<and>
         (\<exists>s' rs'. timer_interrupts (Suc n) s = Inr s' \<and> sched_inv s' (set_ready A rs') rs' \<and>
            cur s' # rs' = rs @ [cur s] \<and> ticks (tasks s' (cur s)) = priority (tasks s (cur s)) \<and>
            global_ticks s' = global_ticks s + of_nat n + 1)"
proof -
  have within: "\<exists>s'. timer_interrupts k s = Inr s' \<and> cur s' = cur s" if "k \<le> n" for k
    using ticks_in_slice [OF assms(1,2), of k] that assms(4) by auto
  obtain s1 where s1: "timer_interrupts n s = Inr s1" "sched_inv s1 A rs" "magic_ok s1" "cur s1 = cur s"
    "global_ticks s1 = global_ticks s + of_nat n" "unat (ticks (tasks s1 (cur s))) = 0"
    "priority (tasks s1 (cur s)) = priority (tasks s (cur s))"
    using ticks_in_slice [OF assms(1,2), of n] assms(4) by auto
  have "ticks (tasks s1 (cur s1)) = 0" using s1(4,6) by (simp add: unat_eq_0)
  from tick_at_end [OF s1(2,3) this assms(3)] obtain s2 rs2 where
    "timer_interrupt s1 = Inr s2" "sched_inv s2 (set_ready A rs2) rs2" "cur s2 # rs2 = rs @ [cur s]"
    "global_ticks s2 = global_ticks s1 + 1" "ticks (tasks s2 (cur s)) = priority (tasks s (cur s))"
    by (auto simp: s1(4,7))
  with s1(1,5) within show ?thesis
    by (auto simp: timer_interrupts_Suc_end simp del: timer_interrupts.simps)
qed

definition demo_timer :: timer where
  "demo_timer = sync.extend (sched.extend demo_sched
     \<lparr>sem_value = (\<lambda>_. 1), lock_holder = (\<lambda>_. NULL), holder_repeat_nr = (\<lambda>_. 0)\<rparr>)
     \<lparr>global_ticks = 0, port_out = []\<rparr>"

lemma demo_timer_fields:
  "nxt demo_timer = nxt demo_sched" "prv demo_timer = prv demo_sched" "tasks demo_timer = tasks demo_sched"
  "cur demo_timer = cur demo_sched" "idle_thread demo_timer = idle_thread demo_sched" "global_ticks demo_timer = 0"
  by (simp_all add: demo_timer_def sched.defs sync.defs)

lemma demo_timer_inv: "sched_inv demo_timer demo_lists [0xc0101000, 0xc0102000]"
proof -
  have "sched_inv demo_timer demo_lists [0xc0101000, 0xc0102000] \<longleftrightarrow>
        sched_inv demo_sched demo_lists [0xc0101000, 0xc0102000]"
    by (simp add: sched_inv_def lists_rep_def list_rep_def demo_timer_fields)
  with demo_inv show ?thesis by simp
qed

lemma demo_timer_task:
  "cur demo_timer = 0xc009e000" "tasks demo_timer 0xc009e000 = demo_task TASK_RUNNING"
  by (simp_all add: demo_timer_fields demo_sched_def Let_def sched list_init_def set_prv_def set_nxt_def
      demo_empty_def vm.defs)

theorem time_slice_witness:
  "\<exists>s'. timer_interrupts 6 demo_timer = Inr s' \<and> cur s' = 0xc0101000 \<and> global_ticks s' = 6"
proof -
  have "magic_ok demo_timer" by (simp add: magic_ok_def demo_timer_task demo_task_def)
  moreover have "5 = unat (ticks (tasks demo_timer (cur demo_timer)))"
    by (simp add: demo_timer_task demo_task_def)
  ultimately have "\<exists>s' rs'. timer_interrupts (Suc 5) demo_timer = Inr s' \<and>
      cur s' # rs' = [0xc0101000, 0xc0102000] @ [cur demo_timer] \<and> global_ticks s' = global_ticks demo_timer + of_nat 5 + 1"
    using time_slice [OF demo_timer_inv] by blast
  then show ?thesis by (auto simp: demo_timer_fields simp del: timer_interrupts.simps)
qed

section \<open>Sleeping\<close>

text \<open>
  C34: \<open>mtime_sleep\<close> works only for very long times.  Because of the unparenthesised macro the
  number of ticks is the time divided by 100000 and not by 10: every call with less than 99991
  milliseconds computes zero ticks and runs into the assertion, and any other call that does not
  overflow sleeps \<open>(m + 9) div 100000\<close> ticks, one ten-thousandth of what it was asked for.
\<close>

theorem mtime_sleep_ticks:
  assumes "unat m < 2 ^ 32 - 9"
  shows "unat (sleep_ticks_of m) = (unat m + 9) div 100000 \<and>
         mtime_sleep s m =
           (if m < 99991 then Inl Panic else ticks_to_sleep_pass s (global_ticks s) (sleep_ticks_of m))"
proof -
  have "unat (m + 9) = unat m + 9"
    using assms by (subst unat_add_no_wrap) simp_all
  moreover have "sleep_ticks_of m = (m + 9) div 1000 div 100"
    by (simp add: sleep_ticks_of_def IRQ0_FREQUENCY_def add.commute [of 9])
  ultimately have n: "unat (sleep_ticks_of m) = (unat m + 9) div 100000"
    by (simp add: unat_div_word div_mult2_eq [symmetric])
  then have "0 < sleep_ticks_of m \<longleftrightarrow> \<not> m < 99991"
    by (auto simp: unat_less_iff)
  with n show ?thesis by (simp add: mtime_sleep_def)
qed

theorem mtime_sleep_ticks_witness: "mtime_sleep demo_timer 10 = Inl Panic"
  using mtime_sleep_ticks [of 10 demo_timer] by simp

end
