(* ===== verification/Console.thy ===== *)
theory Console
  imports Timer
begin

text \<open>
  The screen and what is shown on it: \<open>put_char\<close>, \<open>put_str\<close>, \<open>put_int\<close> and \<open>cls_screen\<close> of
  \<open>lib/kernel/print.S\<close>, the console of \<open>device/console.c\<close>, \<open>panic_spin\<close> of \<open>kernel/debug.c\<close>, and the
  rest of \<open>kernel/interrupt.c\<close>: the interrupt controller and the handler of exceptions.

  \<open>cells\<close> are the characters of the 25 lines of 80 in the video memory, \<open>cursor\<close> is the position the
  hardware keeps.  A string is a list of bytes up to its zero.
\<close>

section \<open>The screen\<close>

record console = timer +
  cursor :: u16
  cells :: "u8 list"

definition COLS :: nat where
  "COLS = 80"

definition CELLS :: nat where
  "CELLS = 2000"

definition set_cursor :: "'a console_scheme \<Rightarrow> u16 \<Rightarrow> 'a console_scheme" where
  "set_cursor s p = s\<lparr>cursor := p\<rparr>"

definition put_cell :: "'a console_scheme \<Rightarrow> nat \<Rightarrow> u8 \<Rightarrow> 'a console_scheme" where
  "put_cell s p c = s\<lparr>cells := (cells s)[p := c]\<rparr>"

text \<open>One line up, the last one blank.\<close>

definition roll_screen :: "'a console_scheme \<Rightarrow> 'a console_scheme" where
  "roll_screen s = s\<lparr>cells := drop COLS (cells s) @ replicate COLS 32\<rparr>"

text \<open>From \<open>.is_line_feed\<close> on: the start of the next line, scrolling when there is none.\<close>

definition new_line :: "'a console_scheme \<Rightarrow> nat \<Rightarrow> 'a console_scheme" where
  "new_line s bx =
     (let bx = bx - bx mod COLS + COLS
      in if bx < CELLS then set_cursor s (of_nat bx) else set_cursor (roll_screen s) 1920)"

definition put_char :: "'a console_scheme \<Rightarrow> u8 \<Rightarrow> 'a console_scheme" where
  "put_char s c =
     (let bx = unat (cursor s)
      in if c = 0xd \<or> c = 0xa then new_line s bx
         else if c = 0x8 then
           if bx = 0 then set_cursor s 0 else set_cursor (put_cell s (bx - 1) 0x20) (of_nat (bx - 1))
         else
           let s = put_cell s bx c; bx = bx + 1
           in if bx < CELLS then set_cursor s (of_nat bx) else new_line s bx)"

fun put_str :: "'a console_scheme \<Rightarrow> u8 list \<Rightarrow> 'a console_scheme res" where
  "put_str s [] = Inl OutOfBounds"
| "put_str s (c # cs) = (if c = 0 then Inr s else put_str (put_char s c) cs)"

text \<open>The eight hexadecimal digits, most significant first, without leading zeros.\<close>

definition hex_digit :: "u32 \<Rightarrow> u8" where
  "hex_digit d = (if d \<le> 9 then ucast d + 48 else ucast (d - 10) + 65)"

definition hex_digits :: "u32 \<Rightarrow> u8 list" where
  "hex_digits w = map (\<lambda>k. hex_digit (drop_bit (4 * (7 - k)) w AND 0xf)) [0..<8]"

definition put_int :: "'a console_scheme \<Rightarrow> u32 \<Rightarrow> 'a console_scheme" where
  "put_int s w =
     (let ds = dropWhile (\<lambda>c. c = 48) (hex_digits w)
      in foldl put_char s (if ds = [] then [48] else ds))"

definition cls_screen :: "'a console_scheme \<Rightarrow> 'a console_scheme" where
  "cls_screen s = set_cursor (s\<lparr>cells := replicate CELLS 32\<rparr>) 0"

section \<open>The console\<close>

definition console_lock :: u32 where
  "console_lock = 0xc0015ca4"

definition console_init :: "'a console_scheme \<Rightarrow> 'a console_scheme" where
  "console_init s = lock_init s console_lock"

definition console_acquire :: "'a console_scheme \<Rightarrow> 'a console_scheme res" where
  "console_acquire s = rbind (lock_acquire s console_lock) (\<lambda>(got, s). if got then Inr s else Inl Blocked)"

definition console_release :: "'a console_scheme \<Rightarrow> 'a console_scheme res" where
  "console_release s = lock_release s console_lock"

definition console_put_str :: "'a console_scheme \<Rightarrow> u8 list \<Rightarrow> 'a console_scheme res" where
  "console_put_str s cs =
     rbind (console_acquire s) (\<lambda>s. rbind (put_str s cs) (\<lambda>s. console_release s))"

definition console_put_int :: "'a console_scheme \<Rightarrow> u32 \<Rightarrow> 'a console_scheme res" where
  "console_put_int s num = rbind (console_acquire s) (\<lambda>s. console_release (put_int s num))"

definition console_put_char :: "'a console_scheme \<Rightarrow> u8 \<Rightarrow> 'a console_scheme res" where
  "console_put_char s chr = rbind (console_acquire s) (\<lambda>s. console_release (put_char s chr))"

section \<open>Failures\<close>

text \<open>What \<open>panic_spin\<close> leaves on the screen before it spins for ever with interrupts off.\<close>

definition panic_spin :: "'a console_scheme \<Rightarrow> u8 list \<Rightarrow> u32 \<Rightarrow> u8 list \<Rightarrow> u8 list \<Rightarrow> 'a console_scheme res" where
  "panic_spin s file_name line func condition =
     (let s = snd (intr_disable s); nl = [CHR 0x0A]
      in rbind (put_str s (ctext (nl @ nl @ nl @ [CHR 0x5C] @ ''**********ERROR'' @ [CHR 0x5C] @ ''**********'' @ [CHR 0x5C] @ nl))) (\<lambda>s.
         rbind (put_str s (ctext ''Filename: '')) (\<lambda>s.
         rbind (put_str s file_name) (\<lambda>s.
         rbind (put_str (put_char s 10) (ctext ''Line: '')) (\<lambda>s.
         rbind (put_str (put_char (put_int s line) 10) (ctext ''Func: '')) (\<lambda>s.
         rbind (put_str s func) (\<lambda>s.
         rbind (put_str (put_char s 10) (ctext ''Condition: '')) (\<lambda>s.
         rbind (put_str s condition) (\<lambda>s.
           put_str (put_char s 10)
             (ctext ([CHR 0x5C] @ ''**********ERROR'' @ [CHR 0x5C] @ ''**********'' @ [CHR 0x5C] @ nl)))))))))))"

text \<open>\<open>exception_init\<close>: every vector has the general handler and a name.\<close>

definition intr_names :: "string list" where
  "intr_names =
     (replicate IDT_DESC_CNT ''unknown'')
       [0 := ''#DE Divide Error'', 1 := ''#DB Debug Exception'', 2 := ''NMI Interrupt'',
        3 := ''#BP Breakpoint Exception'', 4 := ''#OF Overflow Exception'',
        5 := ''#BR BOUND Range Exceeded Exception'', 6 := ''#UD Invalid Opcode Exception'',
        7 := ''#NM Device Not Available Exception'', 8 := ''#DF Double Fault Exception'',
        9 := ''Coprocessor Segment Overrun'', 10 := ''#TS Invalid TSS Exception'',
        11 := ''#NP Segment Not Present'', 12 := ''#SS Stack Fault Exception'',
        13 := ''#GP General Protection Exception'', 14 := ''#PF Page-Fault Exception'',
        16 := ''#MF x87 FPU Floating-Point Error'', 17 := ''#AC Alignment Check Exception'',
        18 := ''#MC Machine-Check Exception'', 19 := ''#XF SIMD Floating-Point Exception'']"

definition exception_init :: "u32 \<Rightarrow> u32 list \<times> string list" where
  "exception_init general_intr_handler = (replicate IDT_DESC_CNT general_intr_handler, intr_names)"

text \<open>
  The handler calls \<open>set_cursor\<close>, which is the end of \<open>put_char\<close>: it takes the position from a
  register, not from the stack, and ends with a \<open>popad\<close> for which nothing was pushed.  That takes
  the return address off the stack with seven other words, and the next one is jumped to.
\<close>

definition set_cursor_call :: "'a console_scheme \<Rightarrow> u32 \<Rightarrow> 'a console_scheme res" where
  "set_cursor_call s num = Inl WildPointer"

text \<open>
  \<open>None\<close> when the handler returns, which it does for the spurious interrupts 0x27 and 0x2f;
  otherwise the screen it leaves before it spins.  \<open>cr2\<close> is the address of a page fault.
\<close>

definition general_intr_handler :: "'a console_scheme \<Rightarrow> u8 \<Rightarrow> u32 \<Rightarrow> 'a console_scheme option res" where
  "general_intr_handler s vec_nr cr2 =
     (if vec_nr = 0x27 \<or> vec_nr = 0x2f then Inr None
      else
        rbind (set_cursor_call s 0) (\<lambda>s.
        rbind (set_cursor_call (foldl put_char s (replicate 320 32)) 0) (\<lambda>s.
        rbind (put_str s (ctext (''!!!!!!            excetion message begin            !!!!!!'' @ NL))) (\<lambda>s.
        rbind (set_cursor_call s 88) (\<lambda>s.
          if \<not> unat vec_nr < length intr_names then Inl OutOfBounds
          else rbind (put_str s (ctext (intr_names ! unat vec_nr))) (\<lambda>s.
            rbind (if vec_nr = 14 then
                     rbind (put_str s (ctext (NL @ ''page fault addr is ''))) (\<lambda>s. Inr (put_int s cr2))
                   else Inr s) (\<lambda>s.
            rbind (put_str s (ctext (''!!!!!!            excetion message end              !!!!!!'' @ NL))) (\<lambda>s.
              Inr (Some s)))))))))"

section \<open>The interrupt controller\<close>

definition PIC_M_CTRL :: u16 where "PIC_M_CTRL = 0x20"
definition PIC_M_DATA :: u16 where "PIC_M_DATA = 0x21"
definition PIC_S_CTRL :: u16 where "PIC_S_CTRL = 0xa0"
definition PIC_S_DATA :: u16 where "PIC_S_DATA = 0xa1"

definition pic_init :: "'a timer_scheme \<Rightarrow> 'a timer_scheme" where
  "pic_init s =
     (let s = outb PIC_M_CTRL 0x11 s;
          s = outb PIC_M_DATA 0x20 s;
          s = outb PIC_M_DATA 0x04 s;
          s = outb PIC_M_DATA 0x01 s;
          s = outb PIC_S_CTRL 0x11 s;
          s = outb PIC_S_DATA 0x28 s;
          s = outb PIC_S_DATA 0x02 s;
          s = outb PIC_S_DATA 0x01 s;
          s = outb PIC_M_DATA 0xf8 s
      in outb PIC_S_DATA 0xbf s)"

text \<open>
  \<open>idt_init\<close>: the descriptors, the handlers, the controller, and the operand of \<open>lidt\<close> for a
  table at \<open>idt\<close>.
\<close>

definition idt_operand :: "u32 \<Rightarrow> 64 word" where
  "idt_operand idt = of_nat (8 * IDT_DESC_CNT - 1) OR push_bit 16 (ucast idt)"

definition idt_init ::
  "'a timer_scheme \<Rightarrow> (nat \<Rightarrow> u32) \<Rightarrow> u32 \<Rightarrow> u32 \<Rightarrow> gate_desc list \<times> u32 list \<times> string list \<times> 'a timer_scheme" where
  "idt_init s intr_entry_table syscall_entry general_handler =
     (let idt = idt_desc_init intr_entry_table syscall_entry;
          (idt_table, names) = exception_init general_handler
      in (idt, idt_table, names, pic_init s))"

section \<open>What is on the screen\<close>

definition screen_ok :: "'a console_scheme \<Rightarrow> bool" where
  "screen_ok s \<longleftrightarrow> length (cells s) = CELLS \<and> unat (cursor s) < CELLS"

lemma set_cursor_frame [simp]: "cells (set_cursor s p) = cells s" "cursor (set_cursor s p) = p"
  by (simp_all add: set_cursor_def)

lemma put_cell_frame [simp]: "cells (put_cell s p c) = (cells s)[p := c]" "cursor (put_cell s p c) = cursor s"
  by (simp_all add: put_cell_def)

lemma roll_screen_frame [simp]: "cells (roll_screen s) = drop COLS (cells s) @ replicate COLS 32" "cursor (roll_screen s) = cursor s"
  by (simp_all add: roll_screen_def)

lemma unat_position: "p < CELLS \<Longrightarrow> unat (of_nat p :: u16) = p"
  by (intro unat_of_nat_small) (simp add: CELLS_def)

lemma next_row: "p < CELLS \<Longrightarrow> p - p mod COLS + COLS = COLS * Suc (p div COLS) \<and> p div COLS < 25"
proof -
  assume p: "p < CELLS"
  have "p - p mod COLS = COLS * (p div COLS)" by (simp add: minus_mod_eq_mult_div)
  moreover have "p div 80 < 25" using p by (simp add: CELLS_def div_less_iff_less_mult)
  ultimately show ?thesis by (simp add: COLS_def)
qed

lemma new_line_ok:
  assumes "length (cells s) = CELLS" and "p \<le> CELLS"
  shows "screen_ok (new_line s p)"
proof -
  define q where "q = p - p mod COLS + COLS"
  have "new_line s p = (if q < CELLS then set_cursor s (of_nat q) else set_cursor (roll_screen s) 1920)"
    by (simp only: new_line_def q_def Let_def)
  moreover have "unat (of_nat q :: u16) = q" if "q < CELLS" using that by (rule unat_position)
  ultimately show ?thesis using assms by (auto simp: screen_ok_def CELLS_def COLS_def)
qed

lemma put_char_ok: "screen_ok s \<Longrightarrow> screen_ok (put_char s c)"
  using unat_position [of "unat (cursor s) - 1"] unat_position [of "Suc (unat (cursor s))"]
  by (auto simp: put_char_def Let_def intro!: new_line_ok)
    (auto simp: screen_ok_def CELLS_def)

lemma foldl_put_char_ok: "screen_ok s \<Longrightarrow> screen_ok (foldl put_char s cs)"
  by (induction cs arbitrary: s) (auto intro: put_char_ok)

lemma put_str_foldl: "put_str s (cs @ 0 # rest) = Inr (foldl put_char s cs)" if "0 \<notin> set cs"
  using that by (induction cs arbitrary: s) auto

definition printable :: "u8 \<Rightarrow> bool" where
  "printable c \<longleftrightarrow> c \<notin> {0, 8, 10, 13}"

lemma put_char_printable:
  assumes "screen_ok s" and "printable c" and "unat (cursor s) + 1 < CELLS"
  shows "cells (put_char s c) = (cells s)[unat (cursor s) := c] \<and> unat (cursor (put_char s c)) = unat (cursor s) + 1"
proof -
  define p where "p = unat (cursor s)"
  have "put_char s c = set_cursor (put_cell s p c) (of_nat (p + 1))"
    using assms by (simp add: put_char_def Let_def printable_def p_def)
  then show ?thesis using unat_position [of "p + 1"] assms(3) by (simp only: set_cursor_frame put_cell_frame p_def [symmetric])
qed

lemma put_text:
  assumes "screen_ok s" and "\<forall>c \<in> set cs. printable c" and "unat (cursor s) + length cs < CELLS"
  shows "cells (foldl put_char s cs) = take (unat (cursor s)) (cells s) @ cs @ drop (unat (cursor s) + length cs) (cells s) \<and>
    unat (cursor (foldl put_char s cs)) = unat (cursor s) + length cs"
  using assms
proof (induction cs arbitrary: s)
  case (Cons c cs)
  define p where "p = unat (cursor s)"
  have len: "length (cells s) = CELLS" "p < CELLS" using Cons.prems(1) by (simp_all add: screen_ok_def p_def)
  have 1: "cells (put_char s c) = (cells s)[p := c]" "unat (cursor (put_char s c)) = p + 1"
    using put_char_printable [of s c] Cons.prems by (simp_all add: p_def)
  have "take (p + 1) ((cells s)[p := c]) = take p (cells s) @ [c]"
    using len by (simp add: take_Suc_conv_app_nth)
  moreover have "drop (p + 1 + length cs) ((cells s)[p := c]) = drop (p + Suc (length cs)) (cells s)"
    by simp
  ultimately show ?case
    using Cons.IH [of "put_char s c"] Cons.prems put_char_ok [of s c] 1 by (simp add: p_def)
qed simp

text \<open>
  What \<open>put_str\<close> shows.  On every screen it prints a terminated string completely and leaves
  a screen of 2000 cells with the cursor on one of them; a text without control characters that
  ends before the last cell appears at the cursor, everything else stays, and the cursor is
  behind it.
\<close>

theorem put_str_shows:
  assumes "screen_ok s" and "0 \<notin> set cs"
  shows "\<exists>s'. put_str s (cs @ [0]) = Inr s' \<and> screen_ok s' \<and>
    ((\<forall>c \<in> set cs. printable c) \<and> unat (cursor s) + length cs < CELLS \<longrightarrow>
      cells s' = take (unat (cursor s)) (cells s) @ cs @ drop (unat (cursor s) + length cs) (cells s) \<and>
      unat (cursor s') = unat (cursor s) + length cs)"
  using put_str_foldl [OF assms(2), of s "[]"] foldl_put_char_ok [OF assms(1)] put_text [OF assms(1)] by auto

definition demo_console :: console where
  "demo_console = timer.extend demo_timer \<lparr>cursor = 80, cells = replicate CELLS 32\<rparr>"

lemma demo_screen: "screen_ok demo_console" "unat (cursor demo_console) = 80" "cells demo_console = replicate CELLS 32"
  by (simp_all add: demo_console_def timer.defs screen_ok_def CELLS_def)

theorem put_str_shows_witness:
  "\<exists>s'. put_str demo_console ([72, 105] @ [0]) = Inr s' \<and> take 84 (drop 78 (cells s')) = [32, 32, 72, 105] @ replicate 80 32"
proof -
  from put_str_shows [OF demo_screen(1), of "[72, 105]"] obtain s' where
    s': "put_str demo_console ([72, 105] @ [0]) = Inr s'"
      "cells s' = replicate 80 32 @ [72, 105] @ replicate 1918 32"
    by (auto simp: demo_screen printable_def CELLS_def)
  have "take 84 (drop 78 (cells s')) = [32, 32, 72, 105] @ replicate 80 32"
  proof -
    have "replicate 80 (32 :: u8) = replicate 78 32 @ [32, 32]" by (simp add: numeral_eq_Suc)
    then show ?thesis unfolding s'(2) by simp
  qed
  with s'(1) show ?thesis by blast
qed

section \<open>Numbers\<close>

definition of_hex :: "u8 list \<Rightarrow> nat" where
  "of_hex ds = foldl (\<lambda>n d. 16 * n + unat (if d \<le> 57 then d - 48 else d - 55)) 0 ds"

lemma hex_digit_value: "d < 16 \<Longrightarrow>
  unat (if hex_digit d \<le> 57 then hex_digit d - 48 else hex_digit d - 55) = unat d \<and> (hex_digit d = 48 \<longleftrightarrow> d = 0) \<and> printable (hex_digit d)"
proof -
  assume "d < 16"
  then have "unat d < 16" by (simp add: word_less_nat_alt)
  then have "unat d = 0 \<or> unat d = 1 \<or> unat d = 2 \<or> unat d = 3 \<or> unat d = 4 \<or> unat d = 5 \<or> unat d = 6 \<or> unat d = 7 \<or>
    unat d = 8 \<or> unat d = 9 \<or> unat d = 10 \<or> unat d = 11 \<or> unat d = 12 \<or> unat d = 13 \<or> unat d = 14 \<or> unat d = 15" by arith
  then have "d = 0 \<or> d = 1 \<or> d = 2 \<or> d = 3 \<or> d = 4 \<or> d = 5 \<or> d = 6 \<or> d = 7 \<or>
    d = 8 \<or> d = 9 \<or> d = 10 \<or> d = 11 \<or> d = 12 \<or> d = 13 \<or> d = 14 \<or> d = 15"
    by (auto simp: word_unat_eq_iff)
  then show ?thesis by (elim disjE) (simp_all add: hex_digit_def printable_def)
qed

lemma horner: "foldl (\<lambda>n d. 16 * n + d) (N div 16 ^ j) (map (\<lambda>k. N div 16 ^ (j - 1 - k) mod 16) [0..<j]) = (N :: nat)"
proof (induction j)
  case (Suc j)
  have "[0..<Suc j] = 0 # map Suc [0..<j]" by (simp add: upt_conv_Cons map_Suc_upt del: upt_Suc)
  moreover have "16 * (N div 16 ^ Suc j) + N div 16 ^ j mod 16 = N div 16 ^ j"
    by (simp only: power_Suc2 div_mult2_eq mult_div_mod_eq)
  ultimately show ?case using Suc by (simp add: o_def)
qed simp

lemma nibble: "unat (drop_bit n w AND (0xf :: u32)) = unat w div 2 ^ n mod 16" "drop_bit n w AND (0xf :: u32) < 16"
proof -
  have m: "drop_bit n w AND (0xf :: u32) = take_bit 4 (drop_bit n w)" by (simp add: take_bit_eq_mask mask_eq_exp_minus_1)
  have "unat w < 2 ^ 32" by (rule order_less_le_trans [OF unsigned_less]) simp
  then show "unat (drop_bit n w AND (0xf :: u32)) = unat w div 2 ^ n mod 16"
    by (simp only: m unsigned_take_bit_eq unsigned_drop_bit_eq) (simp add: take_bit_eq_mod drop_bit_eq_div)
  then show "drop_bit n w AND (0xf :: u32) < 16" by (simp add: word_less_nat_alt)
qed

lemma of_hex_digits: "of_hex (hex_digits w) = unat w"
proof -
  have f: "foldl (\<lambda>n d. 16 * n + unat (if d \<le> 57 then d - 48 else d - 55)) a (map hex_digit ds) =
      foldl (\<lambda>n d. 16 * n + d) a (map unat ds)" if "\<forall>d \<in> set ds. d < 16" for a :: nat and ds :: "u32 list"
    using that hex_digit_value by (induction ds arbitrary: a) auto
  have "of_hex (hex_digits w) = foldl (\<lambda>n d. 16 * n + d) 0 (map unat (map (\<lambda>k. drop_bit (4 * (7 - k)) w AND 0xf) [0..<8]))"
    unfolding of_hex_def hex_digits_def using f [of "map (\<lambda>k. drop_bit (4 * (7 - k)) w AND 0xf) [0..<8]" 0] nibble(2)
    by (simp only: map_map o_def) auto
  also have "\<dots> = foldl (\<lambda>n d. 16 * n + d) (unat w div 16 ^ 8) (map (\<lambda>k. unat w div 16 ^ (8 - 1 - k) mod 16) [0..<8])"
  proof -
    have "unat w < 2 ^ 32" by (rule order_less_le_trans [OF unsigned_less]) simp
    then have "unat w div 16 ^ 8 = 0" by simp
    moreover have "(2 :: nat) ^ (4 * k) = 16 ^ k" for k by (simp add: power_mult)
    ultimately show ?thesis by (simp only: map_map o_def nibble) simp
  qed
  also have "\<dots> = unat w" by (rule horner)
  finally show ?thesis .
qed

lemma of_hex_zeros: "of_hex (dropWhile (\<lambda>c. c = 48) ds) = of_hex ds"
  by (induction ds) (auto simp: of_hex_def)

text \<open>
  \<open>put_int\<close> prints the hexadecimal numeral of its argument.  It writes at most eight digits, no
  leading zero but for the number zero, and read back they are the number, for all 32-bit words.
\<close>

theorem put_int_round_trip:
  "\<exists>ds. put_int s w = foldl put_char s ds \<and> of_hex ds = unat w \<and> ds \<noteq> [] \<and> length ds \<le> 8 \<and>
     (hd ds = 48 \<longrightarrow> w = 0) \<and> (\<forall>c \<in> set ds. printable c)"
proof (cases "dropWhile (\<lambda>c. c = 48) (hex_digits w) = []")
  case True
  have "of_hex [] = unat w" using of_hex_zeros [of "hex_digits w"] by (simp only: True of_hex_digits)
  then have "w = 0" by (simp add: of_hex_def unat_eq_zero)
  then show ?thesis using True by (auto simp: put_int_def of_hex_def printable_def intro!: exI [of _ "[48]"])
next
  case False
  define ds where "ds = dropWhile (\<lambda>c. c = 48) (hex_digits w)"
  have "hd ds \<noteq> 48" using hd_dropWhile [OF False] by (simp add: ds_def)
  moreover have "length ds \<le> 8"
    using length_dropWhile_le [of "\<lambda>c. c = 48" "hex_digits w"] by (simp add: ds_def hex_digits_def)
  moreover have "printable c" if "c \<in> set ds" for c
  proof -
    have "c \<in> set (hex_digits w)" using that set_dropWhileD by (fastforce simp: ds_def)
    then show ?thesis using hex_digit_value nibble(2) by (auto simp: hex_digits_def)
  qed
  moreover have "of_hex ds = unat w" by (simp add: ds_def of_hex_zeros of_hex_digits)
  ultimately show ?thesis using False by (auto simp: put_int_def ds_def [symmetric] intro!: exI [of _ ds])
qed

theorem put_int_round_trip_witness:
  "\<exists>ds. put_int demo_console 0xc0de = foldl put_char demo_console ds \<and> of_hex ds = 49374"
  using put_int_round_trip [of demo_console "0xc0de"] by auto

end
