(* ===== verification/Memory.thy ===== *)
theory Memory
  imports Timer
begin

text \<open>
  Virtual pages and the kernel heap, from \<open>kernel/memory.c\<close>.

  The header \<open>struct arena\<close> of an arena is kept in \<open>arenas\<close> by the address of its page, a
  \<open>struct mem_block_desc\<close> in \<open>block_descs\<close> by its address, its list of free blocks is the heap
  list 8 bytes further on, whose elements are the blocks themselves; \<open>mem\<close> gives every other byte
  of the current address space.  Clearing memory clears the headers and links that lie in it as
  well; task structures and in-core file system objects have maps of their own, which their own
  code initialises.  The addresses of the global variables are those of \<open>build/kernel.map\<close>.

  The three bitmaps lie behind one another in memory; the pools are scanned for single pages
  only and so never see the byte behind their bitmap, which is why each bitmap has its own
  memory here.  A lock that is not free makes the caller wait: that is the result \<open>Blocked\<close>.
\<close>

section \<open>State\<close>

datatype pool_flags = PF_KERNEL | PF_USER

record arena =
  arena_desc :: u32
  arena_cnt :: u32
  arena_large :: u32

record mem_block_desc =
  block_size :: u32
  block_per_arena :: u32

record memory = timer +
  arenas :: "u32 \<Rightarrow> arena"
  block_descs :: "u32 \<Rightarrow> mem_block_desc"
  mem :: "u32 \<Rightarrow> u8"

definition DESC_CNT :: nat where
  "DESC_CNT = 7"

definition K_HEAP_START :: u32 where
  "K_HEAP_START = 0xc0100000"

definition k_block_descs :: u32 where
  "k_block_descs = 0xc0015b20"

definition pool_lock :: "pool_flags \<Rightarrow> u32" where
  "pool_lock pf = (case pf of PF_KERNEL \<Rightarrow> 0xc0015be0 + 16 | PF_USER \<Rightarrow> 0xc0015c20 + 16)"

definition u_block_desc :: "u32 \<Rightarrow> u32" where
  "u_block_desc pthread = pthread + 100"

text \<open>Element \<open>i\<close> of an array of descriptors, and the list in a descriptor.\<close>

definition desc_at :: "u32 \<Rightarrow> nat \<Rightarrow> u32" where
  "desc_at descs i = descs + 24 * of_nat i"

definition free_list :: "u32 \<Rightarrow> u32" where
  "free_list d = d + 8"

definition sizeof_arena :: u32 where
  "sizeof_arena = 12"

definition zero_arena :: arena where
  "zero_arena = \<lparr>arena_desc = NULL, arena_cnt = 0, arena_large = 0\<rparr>"

definition clear_mem :: "'a memory_scheme \<Rightarrow> u32 \<Rightarrow> u32 \<Rightarrow> 'a memory_scheme" where
  "clear_mem s start n =
     s\<lparr>nxt := (\<lambda>x. if x - start < n then 0 else nxt s x), prv := (\<lambda>x. if x - start < n then 0 else prv s x),
       arenas := (\<lambda>x. if x - start < n then zero_arena else arenas s x),
       mem := (\<lambda>x. if x - start < n then 0 else mem s x)\<rparr>"

definition pool_of :: "'a vm_scheme \<Rightarrow> pool_flags \<Rightarrow> pool" where
  "pool_of s pf = (case pf of PF_KERNEL \<Rightarrow> kernel_pool s | PF_USER \<Rightarrow> user_pool s)"

definition set_pool :: "'a vm_scheme \<Rightarrow> pool_flags \<Rightarrow> pool \<Rightarrow> 'a vm_scheme" where
  "set_pool s pf p = (case pf of PF_KERNEL \<Rightarrow> s\<lparr>kernel_pool := p\<rparr> | PF_USER \<Rightarrow> s\<lparr>user_pool := p\<rparr>)"

text \<open>The virtual pages that \<open>pf\<close> names: those of the kernel or of the running process.\<close>

definition vaddr_of :: "'a sched_scheme \<Rightarrow> pool_flags \<Rightarrow> virtual_addr" where
  "vaddr_of s pf = (case pf of PF_KERNEL \<Rightarrow> kernel_vaddr s | PF_USER \<Rightarrow> userprog_vaddr (tasks s (cur s)))"

definition set_vbits :: "'a sched_scheme \<Rightarrow> pool_flags \<Rightarrow> bitmap \<Rightarrow> 'a sched_scheme" where
  "set_vbits s pf b =
     (let va = (vaddr_of s pf)\<lparr>vaddr_bitmap := b\<rparr>
      in case pf of PF_KERNEL \<Rightarrow> s\<lparr>kernel_vaddr := va\<rparr>
         | PF_USER \<Rightarrow> upd_task s (cur s) (\<lambda>p. p\<lparr>userprog_vaddr := va\<rparr>))"

section \<open>Pages\<close>

definition vaddr_get :: "'a sched_scheme \<Rightarrow> pool_flags \<Rightarrow> u32 \<Rightarrow> (u32 \<times> 'a sched_scheme) res" where
  "vaddr_get s pf pg_cnt =
     (let va = vaddr_of s pf
      in rbind (bitmap_scan (vaddr_bitmap va) pg_cnt) (\<lambda>bit_idx_start.
           if bit_idx_start = -1 then Inr (NULL, s)
           else rbind (bitmap_set_run (vaddr_bitmap va) bit_idx_start (unat pg_cnt) 1) (\<lambda>b.
             let v = vaddr_start va + bit_idx_start * PG_SIZE
             in if pf = PF_USER \<and> \<not> v < 0xc0000000 - PG_SIZE then Inl Panic
                else Inr (v, set_vbits s pf b))))"

text \<open>The loop of \<open>malloc_page\<close>; \<open>False\<close> when a frame is missing.\<close>

fun map_pages :: "'a vm_scheme \<Rightarrow> pool_flags \<Rightarrow> u32 \<Rightarrow> nat \<Rightarrow> (bool \<times> 'a vm_scheme) res" where
  "map_pages s pf vaddr 0 = Inr (True, s)"
| "map_pages s pf vaddr (Suc n) =
     rbind (palloc (pool_of s pf)) (\<lambda>(page_phyaddr, p).
       let s = set_pool s pf p
       in if page_phyaddr = NULL then Inr (False, s)
          else rbind (page_table_add s vaddr page_phyaddr) (\<lambda>s. map_pages s pf (vaddr + PG_SIZE) n))"

definition malloc_page :: "'a sched_scheme \<Rightarrow> pool_flags \<Rightarrow> u32 \<Rightarrow> (u32 \<times> 'a sched_scheme) res" where
  "malloc_page s pf pg_cnt =
     (if \<not> (pg_cnt > 0 \<and> pg_cnt < 3840) then Inl Panic
      else rbind (vaddr_get s pf pg_cnt) (\<lambda>(v, s).
        if v = NULL then Inr (NULL, s)
        else rbind (map_pages s pf v (unat pg_cnt)) (\<lambda>(ok, s). Inr (if ok then v else NULL, s))))"

definition get_kernel_pages :: "'a memory_scheme \<Rightarrow> u32 \<Rightarrow> (u32 \<times> 'a memory_scheme) res" where
  "get_kernel_pages s pg_cnt =
     rbind (malloc_page s PF_KERNEL pg_cnt) (\<lambda>(v, s).
       Inr (v, if v \<noteq> NULL then clear_mem s v (pg_cnt * PG_SIZE) else s))"

text \<open>Entering a critical section: whoever has to wait is \<open>Blocked\<close>.\<close>

definition lock_enter :: "'a sync_scheme \<Rightarrow> u32 \<Rightarrow> 'a sync_scheme res" where
  "lock_enter s plock = rbind (lock_acquire s plock) (\<lambda>(got, s). if got then Inr s else Inl Blocked)"

definition get_user_pages :: "'a memory_scheme \<Rightarrow> u32 \<Rightarrow> (u32 \<times> 'a memory_scheme) res" where
  "get_user_pages s pg_cnt =
     rbind (lock_enter s (pool_lock PF_USER)) (\<lambda>s.
       rbind (malloc_page s PF_USER pg_cnt) (\<lambda>(v, s).
         let s = (if v \<noteq> NULL then clear_mem s v (pg_cnt * PG_SIZE) else s)
         in rbind (lock_release s (pool_lock PF_USER)) (\<lambda>s. Inr (v, s))))"

text \<open>When there is no frame left \<open>get_a_page\<close> returns without releasing the lock.\<close>

definition get_a_page :: "'a sync_scheme \<Rightarrow> pool_flags \<Rightarrow> u32 \<Rightarrow> (u32 \<times> 'a sync_scheme) res" where
  "get_a_page s pf vaddr =
     rbind (lock_enter s (pool_lock pf)) (\<lambda>s.
       let va = vaddr_of s pf;
           bit_idx = (vaddr - vaddr_start va) div PG_SIZE
       in rbind
         (if (pgdir (tasks s (cur s)) \<noteq> NULL) \<noteq> (pf = PF_USER) then Inl Panic
          else if \<not> sint bit_idx > 0 then Inl Panic
          else bitmap_set (vaddr_bitmap va) bit_idx 1) (\<lambda>b.
         let s = set_vbits s pf b
         in rbind (palloc (pool_of s pf)) (\<lambda>(page_phyaddr, p).
              let s = set_pool s pf p
              in if page_phyaddr = NULL then Inr (NULL, s)
                 else rbind (page_table_add s vaddr page_phyaddr) (\<lambda>s.
                        rbind (lock_release s (pool_lock pf)) (\<lambda>s. Inr (vaddr, s))))))"

definition get_a_page_without_opvaddrbitmap ::
  "'a sync_scheme \<Rightarrow> pool_flags \<Rightarrow> u32 \<Rightarrow> (u32 \<times> 'a sync_scheme) res" where
  "get_a_page_without_opvaddrbitmap s pf vaddr =
     rbind (lock_enter s (pool_lock pf)) (\<lambda>s.
       rbind (palloc (pool_of s pf)) (\<lambda>(page_phyaddr, p).
         let s = set_pool s pf p
         in if page_phyaddr = NULL then rbind (lock_release s (pool_lock pf)) (\<lambda>s. Inr (NULL, s))
            else rbind (page_table_add s vaddr page_phyaddr) (\<lambda>s.
                   rbind (lock_release s (pool_lock pf)) (\<lambda>s. Inr (vaddr, s)))))"

definition vaddr_remove :: "'a sched_scheme \<Rightarrow> pool_flags \<Rightarrow> u32 \<Rightarrow> u32 \<Rightarrow> 'a sched_scheme res" where
  "vaddr_remove s pf vaddr pg_cnt =
     (let va = vaddr_of s pf;
          bit_idx_start = (vaddr - vaddr_start va) div PG_SIZE
      in rbind (bitmap_set_run (vaddr_bitmap va) bit_idx_start (unat pg_cnt) 0) (\<lambda>b. Inr (set_vbits s pf b)))"

text \<open>The loops of \<open>mfree_page\<close>: \<open>user\<close> tells which pool every frame has to belong to.\<close>

fun free_pages :: "'a vm_scheme \<Rightarrow> bool \<Rightarrow> u32 \<Rightarrow> nat \<Rightarrow> 'a vm_scheme res" where
  "free_pages s user vaddr 0 = Inr s"
| "free_pages s user vaddr (Suc n) =
     (let pg_phy_addr = addr_v2p s vaddr
      in if \<not> (pg_phy_addr mod PG_SIZE = 0 \<and>
            (if user then pg_phy_addr \<ge> phy_addr_start (user_pool s)
             else pg_phy_addr \<ge> phy_addr_start (kernel_pool s) \<and> pg_phy_addr < phy_addr_start (user_pool s)))
         then Inl Panic
         else rbind (pfree s pg_phy_addr) (\<lambda>s. free_pages (page_table_pte_remove s vaddr) user (vaddr + PG_SIZE) n))"

definition mfree_page :: "'a sched_scheme \<Rightarrow> pool_flags \<Rightarrow> u32 \<Rightarrow> u32 \<Rightarrow> 'a sched_scheme res" where
  "mfree_page s pf vaddr pg_cnt =
     (if \<not> (pg_cnt \<ge> 1 \<and> vaddr mod PG_SIZE = 0) then Inl Panic
      else
        let pg_phy_addr = addr_v2p s vaddr
        in if \<not> (pg_phy_addr mod PG_SIZE = 0 \<and> pg_phy_addr \<ge> 0x102000) then Inl Panic
           else rbind (free_pages s (pg_phy_addr \<ge> phy_addr_start (user_pool s)) vaddr (unat pg_cnt))
             (\<lambda>s. vaddr_remove s pf vaddr pg_cnt))"

section \<open>The heap\<close>

definition arena2block :: "'a memory_scheme \<Rightarrow> u32 \<Rightarrow> u32 \<Rightarrow> u32" where
  "arena2block s a idx = a + sizeof_arena + idx * block_size (block_descs s (arena_desc (arenas s a)))"

definition block2arena :: "u32 \<Rightarrow> u32" where
  "block2arena b = b AND 0xfffff000"

definition upd_arena :: "'a memory_scheme \<Rightarrow> u32 \<Rightarrow> (arena \<Rightarrow> arena) \<Rightarrow> 'a memory_scheme" where
  "upd_arena s a f = s\<lparr>arenas := (arenas s)(a := f (arenas s a))\<rparr>"

text \<open>The index of the first descriptor whose blocks are large enough, \<open>DESC_CNT\<close> when none is.\<close>

fun desc_search :: "'a memory_scheme \<Rightarrow> u32 \<Rightarrow> u32 \<Rightarrow> nat \<Rightarrow> nat \<Rightarrow> nat" where
  "desc_search s descs n i 0 = i"
| "desc_search s descs n i (Suc k) =
     (if n \<le> block_size (block_descs s (desc_at descs i)) then i else desc_search s descs n (Suc i) k)"

definition desc_idx :: "'a memory_scheme \<Rightarrow> u32 \<Rightarrow> u32 \<Rightarrow> nat" where
  "desc_idx s descs n = desc_search s descs n 0 DESC_CNT"

text \<open>Splitting a fresh arena into blocks.\<close>

fun split_arena :: "'a memory_scheme \<Rightarrow> u32 \<Rightarrow> u32 \<Rightarrow> nat \<Rightarrow> 'a memory_scheme res" where
  "split_arena s a block_idx 0 = Inr s"
| "split_arena s a block_idx (Suc k) =
     (let b = arena2block s a block_idx; l = free_list (arena_desc (arenas s a))
      in rbind (elem_find s l b) (\<lambda>found.
           if found then Inl Panic else split_arena (list_append s l b) a (block_idx + 1) k))"

definition new_arena :: "'a memory_scheme \<Rightarrow> pool_flags \<Rightarrow> u32 \<Rightarrow> (bool \<times> 'a memory_scheme) res" where
  "new_arena s pf d =
     rbind (malloc_page s pf 1) (\<lambda>(a, s).
       if a = NULL then Inr (False, s)
       else
         let s = clear_mem s a PG_SIZE;
             n = block_per_arena (block_descs s d);
             s = upd_arena s a (\<lambda>_. \<lparr>arena_desc = d, arena_cnt = n, arena_large = 0\<rparr>);
             (old_status, s) = intr_disable s
         in rbind (split_arena s a 0 (unat n)) (\<lambda>s. Inr (True, snd (intr_set_status s old_status))))"

definition malloc_large :: "'a memory_scheme \<Rightarrow> pool_flags \<Rightarrow> u32 \<Rightarrow> (u32 \<times> 'a memory_scheme) res" where
  "malloc_large s pf n =
     (let page_cnt = DIV_ROUND_UP (n + sizeof_arena) PG_SIZE
      in rbind (malloc_page s pf page_cnt) (\<lambda>(a, s).
        if a \<noteq> NULL then
          let s = clear_mem s a (page_cnt * PG_SIZE);
              s = upd_arena s a (\<lambda>_. \<lparr>arena_desc = NULL, arena_cnt = page_cnt, arena_large = 1\<rparr>)
          in rbind (lock_release s (pool_lock pf)) (\<lambda>s. Inr (a + sizeof_arena, s))
        else rbind (lock_release s (pool_lock pf)) (\<lambda>s. Inr (NULL, s))))"

definition malloc_small :: "'a memory_scheme \<Rightarrow> pool_flags \<Rightarrow> u32 \<Rightarrow> u32 \<Rightarrow> (u32 \<times> 'a memory_scheme) res" where
  "malloc_small s pf descs n =
     (let i = desc_idx s descs n; d = desc_at descs i
      in if i = DESC_CNT then Inl OutOfBounds
         else rbind (if list_empty s (free_list d) then new_arena s pf d else Inr (True, s)) (\<lambda>(ok, s).
           if \<not> ok then rbind (lock_release s (pool_lock pf)) (\<lambda>s. Inr (NULL, s))
           else rbind (list_pop s (free_list d)) (\<lambda>(b, s).
             let s = clear_mem s b (block_size (block_descs s d));
                 s = upd_arena s (block2arena b) (\<lambda>a. a\<lparr>arena_cnt := arena_cnt a - 1\<rparr>)
             in rbind (lock_release s (pool_lock pf)) (\<lambda>s. Inr (b, s)))))"

definition sys_malloc :: "'a memory_scheme \<Rightarrow> u32 \<Rightarrow> (u32 \<times> 'a memory_scheme) res" where
  "sys_malloc s n =
     (let cur_thread = cur s;
          pf = (if pgdir (tasks s cur_thread) = NULL then PF_KERNEL else PF_USER);
          descs = (if pgdir (tasks s cur_thread) = NULL then k_block_descs else u_block_desc cur_thread)
      in if \<not> (n > 0 \<and> n < pool_size (pool_of s pf)) then Inr (NULL, s)
         else rbind (lock_enter s (pool_lock pf)) (\<lambda>s.
           if n > 1024 then malloc_large s pf n else malloc_small s pf descs n))"

text \<open>Taking all blocks of an arena that is empty again out of the free list.\<close>

fun unlink_arena :: "'a memory_scheme \<Rightarrow> u32 \<Rightarrow> u32 \<Rightarrow> nat \<Rightarrow> 'a memory_scheme res" where
  "unlink_arena s a block_idx 0 = Inr s"
| "unlink_arena s a block_idx (Suc k) =
     (let b = arena2block s a block_idx
      in rbind (elem_find s (free_list (arena_desc (arenas s a))) b) (\<lambda>found.
           if \<not> found then Inl Panic else unlink_arena (list_remove s b) a (block_idx + 1) k))"

definition free_small :: "'a memory_scheme \<Rightarrow> pool_flags \<Rightarrow> u32 \<Rightarrow> u32 \<Rightarrow> 'a memory_scheme res" where
  "free_small s pf a b =
     (let d = arena_desc (arenas s a)
      in if d = NULL then Inl WildPointer
         else
           let s = list_append s (free_list d) b;
               s = upd_arena s a (\<lambda>a. a\<lparr>arena_cnt := arena_cnt a + 1\<rparr>)
           in if arena_cnt (arenas s a) = block_per_arena (block_descs s d) then
                rbind (unlink_arena s a 0 (unat (block_per_arena (block_descs s d)))) (\<lambda>s. mfree_page s pf a 1)
              else Inr s)"

definition sys_free :: "'a memory_scheme \<Rightarrow> u32 \<Rightarrow> 'a memory_scheme res" where
  "sys_free s ptr =
     (let kernel = (pgdir (tasks s (cur s)) = NULL);
          pf = (if kernel then PF_KERNEL else PF_USER)
      in if \<not> ptr \<noteq> NULL then Inl Panic
         else if kernel \<and> \<not> ptr \<ge> K_HEAP_START then Inl Panic
         else rbind (lock_enter s (pool_lock pf)) (\<lambda>s.
           let a = block2arena ptr
           in if \<not> (arena_large (arenas s a) = 0 \<or> arena_large (arenas s a) = 1) then Inl Panic
              else rbind
                (if arena_desc (arenas s a) = NULL \<and> arena_large (arenas s a) = 1
                 then mfree_page s pf a (arena_cnt (arenas s a))
                 else free_small s pf a ptr)
                (\<lambda>s. lock_release s (pool_lock pf))))"

section \<open>Initialisation\<close>

text \<open>
  \<open>ram\<close> is the memory from \<open>MEM_BITMAP_BASE\<close> on, where the three bitmaps are put.  The page
  counts are 16-bit numbers.
\<close>

definition mem_pool_init :: "'a sync_scheme \<Rightarrow> u8 list \<Rightarrow> u32 \<Rightarrow> 'a sync_scheme res" where
  "mem_pool_init s ram all_mem =
     (let page_table_size = PG_SIZE * 256;
          used_mem = page_table_size + 0x100000;
          free_mem = all_mem - used_mem;
          all_free_pages = (ucast (free_mem div PG_SIZE) :: u16);
          kernel_free_pages = all_free_pages div 2;
          user_free_pages = all_free_pages - kernel_free_pages;
          kbm_length = (ucast kernel_free_pages :: u32) div 8;
          ubm_length = (ucast user_free_pages :: u32) div 8;
          kp_start = used_mem;
          up_start = kp_start + ucast kernel_free_pages * PG_SIZE;
          k = unat kbm_length; u = unat ubm_length
      in rbind (bitmap_init \<lparr>btmp_bytes_len = kbm_length, bits = take k ram\<rparr>) (\<lambda>kb.
         rbind (bitmap_init \<lparr>btmp_bytes_len = ubm_length, bits = take u (drop k ram)\<rparr>) (\<lambda>ub.
         rbind (bitmap_init \<lparr>btmp_bytes_len = kbm_length, bits = drop (k + u) ram\<rparr>) (\<lambda>vb.
           let s = s\<lparr>kernel_pool := \<lparr>pool_bitmap = kb, phy_addr_start = kp_start,
                        pool_size = ucast kernel_free_pages * PG_SIZE\<rparr>,
                     user_pool := \<lparr>pool_bitmap = ub, phy_addr_start = up_start,
                        pool_size = ucast user_free_pages * PG_SIZE\<rparr>,
                     kernel_vaddr := \<lparr>vaddr_bitmap = vb, vaddr_start = K_HEAP_START\<rparr>\<rparr>;
               s = lock_init s (pool_lock PF_KERNEL)
           in Inr (lock_init s (pool_lock PF_USER))))))"

fun desc_init_loop :: "'a memory_scheme \<Rightarrow> u32 \<Rightarrow> nat \<Rightarrow> nat \<Rightarrow> u16 \<Rightarrow> 'a memory_scheme" where
  "desc_init_loop s desc_array i 0 sz = s"
| "desc_init_loop s desc_array i (Suc k) sz =
     (let d = desc_at desc_array i;
          s = s\<lparr>block_descs := (block_descs s)(d := \<lparr>block_size = ucast sz,
                  block_per_arena = (PG_SIZE - sizeof_arena) div ucast sz\<rparr>)\<rparr>
      in desc_init_loop (list_init s (free_list d)) desc_array (Suc i) k (sz * 2))"

definition block_desc_init :: "'a memory_scheme \<Rightarrow> u32 \<Rightarrow> 'a memory_scheme" where
  "block_desc_init s desc_array = desc_init_loop s desc_array 0 DESC_CNT 16"

text \<open>\<open>mem_bytes_total\<close> is the word the loader leaves at address \<open>0xb00\<close>.\<close>

definition mem_init :: "'a memory_scheme \<Rightarrow> u8 list \<Rightarrow> u32 \<Rightarrow> 'a memory_scheme res" where
  "mem_init s ram mem_bytes_total =
     rbind (mem_pool_init s ram mem_bytes_total) (\<lambda>s. Inr (block_desc_init s k_block_descs))"

section \<open>A critical section\<close>

text \<open>The state inside: the lock is taken, and everything else as before.\<close>

definition inside :: "'a sync_scheme \<Rightarrow> u32 \<Rightarrow> 'a sync_scheme" where
  "inside s l = set_holder (set_value s (semaphore l) 0) l (cur s) 1"

lemma lock_enter_free:
  assumes "lock_holder s l = NULL" and "holder_repeat_nr s l = 0" and "sem_value s (semaphore l) = 1" and "cur s \<noteq> NULL"
  shows "lock_enter s l = Inr (inside s l)"
  using assms by (simp add: lock_enter_def lock_acquire_def sema_down_free lock_take_def Let_def sched set_holder_def inside_def)

lemma lock_leave:
  assumes "lock_holder s l = NULL" and "holder_repeat_nr s l = 0" and "sem_value s (semaphore l) = 1" and "cur s \<noteq> NULL"
    and "list_rep s (waiters (semaphore l)) []"
  shows "lock_release (inside s l) l = Inr s"
proof -
  let ?r = "set_holder (set_value s (semaphore l) 0) l NULL 0"
  have "lock_drop (inside s l) l = Inr (True, ?r)" by (simp add: inside_def lock_drop_def set_holder_def sched)
  moreover have "sema_up ?r (semaphore l) = Inr (set_value ?r (semaphore l) 1)"
    using assms(5) by (intro sema_up_nobody) (simp_all add: set_holder_def sched list_rep_def)
  moreover have "set_value ?r (semaphore l) 1 = s"
    using assms(1-3) by (auto simp: set_value_def set_holder_def intro!: sync.equality)
  ultimately show ?thesis by (simp add: lock_release_def)
qed

section \<open>An example\<close>

definition demo_memory :: memory where
  "demo_memory = timer.extend demo_timer
     \<lparr>arenas = (\<lambda>_. zero_arena), block_descs = (\<lambda>_. \<lparr>block_size = 0, block_per_arena = 0\<rparr>), mem = (\<lambda>_. 0)\<rparr>"

lemma demo_memory_fields:
  "nxt demo_memory = nxt demo_sched" "prv demo_memory = prv demo_sched" "tasks demo_memory = tasks demo_sched"
  "cur demo_memory = 0xc009e000" "sem_value demo_memory = (\<lambda>_. 1)" "lock_holder demo_memory = (\<lambda>_. NULL)"
  "holder_repeat_nr demo_memory = (\<lambda>_. 0)" "eflags demo_memory = eflags demo_sched"
  using demo_cur by (simp_all add: demo_memory_def timer.defs demo_timer_def sync.defs sched.defs demo_threads_fields)

end
