(* ===== verification/Stdio.thy ===== *)
theory Stdio
  imports Cstring
begin

text \<open>
  Formatted output, from \<open>lib/stdio.c\<close>.  The buffer is a byte array with the index
  \<open>buf_ptr\<close> of the next byte to write; the format is the array of bytes from
  \<open>index_ptr\<close> on, whose first byte is \<open>index_char\<close>.  The variable arguments are the
  list of stack slots \<open>va_arg\<close> walks over: a slot holds an integer or the address of a
  string.  Reading an integer out of a pointer slot, the reverse, or a slot the caller never
  pushed gives a value the source does not determine, the error \<open>Uninitialised\<close>.
\<close>

section \<open>The operations\<close>

datatype va = VaInt u32 | VaStr "u8 list"

lemma itoa_decreases:
  assumes "base \<noteq> 0" and "base \<noteq> (1 :: u8)" and "(v :: u32) div ucast base \<noteq> 0"
  shows "unat (v div ucast base) < unat v"
proof -
  have "unat base \<noteq> 0" "unat base \<noteq> 1"
    using assms(1,2) word_unat_eq_iff [of base 0] word_unat_eq_iff [of base 1] by auto
  then have "1 < unat base" by linarith
  moreover have "unat v \<noteq> 0" using assms(3) by (auto simp: unat_eq_zero)
  ultimately show ?thesis by (simp add: wordnat)
qed

text \<open>
  \<open>itoa\<close> recurses on the quotient before it writes the last digit.  A division by base 0
  faults and base 1 recurses on the same value for ever.
\<close>

function itoa :: "u32 \<Rightarrow> u8 list \<times> u32 \<Rightarrow> u8 \<Rightarrow> (u8 list \<times> u32) res" where
  "itoa v buf_ptr base =
     (if base = 0 then Inl DivideError
      else
        let m = v mod ucast base;
            i = v div ucast base
        in rbind (if i \<noteq> 0 then if base = 1 then Inl Hang else itoa i buf_ptr base else Inr buf_ptr)
             (\<lambda>(buf, p). rbind (st buf p (if m < 10 then ucast (m + 0x30) else ucast (m + 0x41 - 10)))
               (\<lambda>buf. Inr (buf, p + 1))))"
  by pat_completeness auto

termination
  by (relation "measure (\<lambda>(v, _, _). unat v)") (auto simp: itoa_decreases)

declare itoa.simps [simp del]

fun va_int :: "va list \<Rightarrow> (u32 \<times> va list) res" where
  "va_int (VaInt w # ap) = Inr (w, ap)"
| "va_int ap = Inl Uninitialised"

fun va_str :: "va list \<Rightarrow> (u8 list \<times> va list) res" where
  "va_str (VaStr s # ap) = Inr (s, ap)"
| "va_str ap = Inl Uninitialised"

definition put :: "u8 list \<times> u32 \<Rightarrow> u8 \<Rightarrow> (u8 list \<times> u32) res" where
  "put b c = rbind (st (fst b) (snd b) c) (\<lambda>buf. Inr (buf, snd b + 1))"

text \<open>\<open>strcpy\<close> at \<open>buf_ptr\<close>, then \<open>buf_ptr\<close> moves past the copied characters.\<close>

definition put_string :: "u8 list \<times> u32 \<Rightarrow> u8 list \<Rightarrow> (u8 list \<times> u32) res" where
  "put_string b s =
     rbind (strcpy (Some (drop (unat (snd b)) (fst b))) (Some s)) (\<lambda>r.
     rbind (strlen (Some s)) (\<lambda>n. Inr (take (unat (snd b)) (fst b) @ r, snd b + n)))"

definition put_decimal :: "u8 list \<times> u32 \<Rightarrow> u32 \<Rightarrow> (u8 list \<times> u32) res" where
  "put_decimal b arg_int =
     (if sint arg_int < 0 then rbind (put b 0x2D) (\<lambda>b. itoa (0 - arg_int) b 10)
      else itoa arg_int b 10)"

fun vsprintf_loop :: "u8 list \<Rightarrow> va list \<Rightarrow> u8 list \<times> u32 \<Rightarrow> (u8 list \<times> u32) res" where
  "vsprintf_loop [] ap b = Inl OutOfBounds"
| "vsprintf_loop (c # fs) ap b =
     (if c = 0 then Inr b
      else if c \<noteq> 0x25 then rbind (put b c) (vsprintf_loop fs ap)
      else case fs of [] \<Rightarrow> Inl OutOfBounds | d # gs \<Rightarrow>
        if d = 0x73 then rbind (va_str ap) (\<lambda>(s, ap). rbind (put_string b s) (vsprintf_loop gs ap))
        else if d = 0x78 then rbind (va_int ap) (\<lambda>(w, ap). rbind (itoa w b 16) (vsprintf_loop gs ap))
        else if d = 0x64 then rbind (va_int ap) (\<lambda>(w, ap). rbind (put_decimal b w) (vsprintf_loop gs ap))
        else if d = 0x63 then rbind (va_int ap) (\<lambda>(w, ap). rbind (put b (ucast w)) (vsprintf_loop gs ap))
        else vsprintf_loop fs ap b)"

definition vsprintf :: "u8 list \<Rightarrow> u8 list \<Rightarrow> va list \<Rightarrow> (u32 \<times> u8 list) res" where
  "vsprintf str format ap =
     rbind (vsprintf_loop format ap (str, 0)) (\<lambda>(buf, p).
     rbind (strlen (Some buf)) (\<lambda>n. Inr (n, buf)))"

definition sprintf :: "u8 list \<Rightarrow> u8 list \<Rightarrow> va list \<Rightarrow> (u32 \<times> u8 list) res" where
  "sprintf des format args = vsprintf des format args"

text \<open>
  \<open>printf\<close> formats into a zeroed buffer of 1024 bytes and hands \<open>strlen\<close> bytes of it to
  \<open>write(1, \<dots>)\<close>; \<open>printk\<close> hands the same buffer to the console.  The result here is the
  return value and the bytes handed over.
\<close>

definition printf :: "u8 list \<Rightarrow> va list \<Rightarrow> (u32 \<times> u8 list) res" where
  "printf format args =
     rbind (vsprintf (replicate 1024 0) format args) (\<lambda>(retval, buf).
     rbind (strlen (Some buf)) (\<lambda>n. Inr (retval, take (unat n) buf)))"

definition printk :: "u8 list \<Rightarrow> va list \<Rightarrow> u8 list res" where
  "printk format args = rbind (vsprintf (replicate 1024 0) format args) (\<lambda>(_, buf). Inr (cstr buf))"

section \<open>Digits\<close>

text \<open>The digits of a number, most significant first, and the number a digit string denotes.\<close>

definition digit_char :: "nat \<Rightarrow> u8" where
  "digit_char d = (if d < 10 then of_nat (d + 0x30) else of_nat (d + 0x41 - 10))"

definition digit_value :: "u8 \<Rightarrow> nat" where
  "digit_value c = (if unat c < 0x41 then unat c - 0x30 else unat c - 0x41 + 10)"

function digits :: "nat \<Rightarrow> nat \<Rightarrow> u8 list" where
  "digits b n = (if 1 < b \<and> b \<le> n then digits b (n div b) @ [digit_char (n mod b)] else [digit_char (n mod b)])"
  by pat_completeness auto
termination by (relation "measure snd") auto

declare digits.simps [simp del]

definition number_of :: "nat \<Rightarrow> u8 list \<Rightarrow> nat" where
  "number_of b s = foldl (\<lambda>n c. n * b + digit_value c) 0 s"

lemma unat_digit_char: "d < 36 \<Longrightarrow> unat (digit_char d) = (if d < 10 then d + 0x30 else d + 0x41 - 10)"
  using unat_of_nat_small [where 'a = 8, of "d + 0x30"] unat_of_nat_small [where 'a = 8, of "d + 0x41 - 10"]
  by (simp add: digit_char_def del: of_nat_add)

lemma digit_round: "d < 36 \<Longrightarrow> digit_value (digit_char d) = d"
  by (auto simp: digit_value_def unat_digit_char)

lemma number_of_snoc: "number_of b (s @ [c]) = number_of b s * b + digit_value c"
  by (simp add: number_of_def)

lemma number_of_digits: "1 < b \<Longrightarrow> b \<le> 36 \<Longrightarrow> number_of b (digits b n) = n"
proof (induction b n rule: digits.induct)
  case (1 b n)
  have "n mod b < 36" using 1(2,3) by (meson less_le_trans mod_less_divisor less_trans zero_less_one)
  then show ?case
    using 1 by (subst digits.simps) (auto simp: number_of_snoc digit_round number_of_def)
qed

lemma digits_nonempty: "digits b n \<noteq> []"
  by (subst digits.simps) simp

lemma digit_char_nonzero: "d < 36 \<Longrightarrow> digit_char d \<noteq> 0"
  using unat_digit_char [of d] by (auto split: if_splits)

lemma digits_nonzero: "1 < b \<Longrightarrow> b \<le> 36 \<Longrightarrow> 0 \<notin> set (digits b n)"
proof (induction b n rule: digits.induct)
  case (1 b n)
  have "n mod b < 36" using 1(2,3) by (meson less_le_trans mod_less_divisor less_trans zero_less_one)
  then show ?case
    using 1 by (subst digits.simps) (auto dest: digit_char_nonzero [THEN not_sym])
qed

lemma length_digits: "1 < b \<Longrightarrow> n < b ^ k \<Longrightarrow> 0 < k \<Longrightarrow> length (digits b n) \<le> k"
proof (induction b n arbitrary: k rule: digits.induct)
  case (1 b n)
  show ?case
  proof (cases "b \<le> n")
    case True
    with 1(3) have "k \<noteq> 1" by auto
    with 1(4) obtain j where k: "k = Suc j" "0 < j" by (cases k) auto
    with 1(2,3) have "n div b < b ^ j" by (simp add: div_less_iff_less_mult mult.commute)
    with 1(1) [of j] 1(2) True k show ?thesis by (subst digits.simps) simp
  qed (use 1 in \<open>subst digits.simps, simp\<close>)
qed

section \<open>What vsprintf prints\<close>

text \<open>The text a format and its arguments stand for; \<open>None\<close> when they do not match.\<close>

definition decimal :: "u32 \<Rightarrow> u8 list" where
  "decimal w = (if sint w < 0 then 0x2D # digits 10 (nat (- sint w)) else digits 10 (unat w))"

fun render :: "u8 list \<Rightarrow> va list \<Rightarrow> u8 list option" where
  "render [] ap = Some []"
| "render (c # fs) ap =
     (if c \<noteq> 0x25 then map_option ((#) c) (render fs ap)
      else case fs of [] \<Rightarrow> Some [] | d # gs \<Rightarrow>
        if d = 0x73 then
          (case ap of VaStr s # ap \<Rightarrow> map_option ((@) (cstr s)) (render gs ap) | _ \<Rightarrow> None)
        else if d = 0x78 then
          (case ap of VaInt w # ap \<Rightarrow> map_option ((@) (digits 16 (unat w))) (render gs ap) | _ \<Rightarrow> None)
        else if d = 0x64 then
          (case ap of VaInt w # ap \<Rightarrow> map_option ((@) (decimal w)) (render gs ap) | _ \<Rightarrow> None)
        else if d = 0x63 then
          (case ap of VaInt w # ap \<Rightarrow> map_option ((#) (ucast w)) (render gs ap) | _ \<Rightarrow> None)
        else render fs ap)"

text \<open>
  \<open>written str b out\<close>: the buffer \<open>b\<close>, which was \<open>str\<close>, now starts with \<open>out\<close>
  and goes on as it was, except that the byte after \<open>out\<close> may be the zero of a copied string.
\<close>

definition written :: "u8 list \<Rightarrow> u8 list \<times> u32 \<Rightarrow> u8 list \<Rightarrow> bool" where
  "written str b out \<longleftrightarrow>
     unat (snd b) = length out \<and> length out \<le> length str \<and>
     (\<exists>z. (z = [] \<or> z = [0] \<and> length out < length str) \<and>
          fst b = out @ z @ drop (length out + length z) str)"

definition exact :: "u8 list \<Rightarrow> u8 list \<times> u32 \<Rightarrow> u8 list \<Rightarrow> bool" where
  "exact str b out \<longleftrightarrow>
     unat (snd b) = length out \<and> length out \<le> length str \<and> fst b = out @ drop (length out) str"

lemma exact_written: "exact str b out \<Longrightarrow> written str b out"
  by (auto simp: exact_def written_def)

lemma written_start: "written str (str, 0) []"
  by (auto simp: written_def)

lemma put_written:
  assumes "written str b out" and "length out < length str" and "length str < 2 ^ 32"
  shows "\<exists>b'. put b c = Inr b' \<and> exact str b' (out @ [c])"
proof -
  from assms(1) obtain z where z: "z = [] \<or> z = [0]" and b: "fst b = out @ z @ drop (length out + length z) str"
    and p: "unat (snd b) = length out"
    unfolding written_def by blast
  have p': "unat (snd b + 1) = Suc (length out)"
    using assms(2,3) p by (simp add: wordnat)
  have l: "length out < length (fst b)" using z b assms(2) by auto
  have "(fst b)[length out := c] = (out @ [c]) @ [] @ drop (length (out @ [c]) + length []) str"
    using z b Cons_nth_drop_Suc [OF assms(2)] by (auto simp: list_update_append)
      (metis list_update_code(2))
  then have "exact str ((fst b)[length out := c], snd b + 1) (out @ [c])"
    using assms(2) p' unfolding exact_def by auto
  then show ?thesis using l p by (auto simp: put_def)
qed

lemma digit_char_word:
  assumes "unat m < 36"
  shows "(if m < 10 then ucast (m + 0x30 :: u32) else ucast (m + 0x41 - 10 :: u32)) = digit_char (unat m)"
proof -
  have small: "unat (ucast (w :: u32) :: u8) = unat w" if "unat w < 256" for w
    using that by (simp add: unsigned_ucast_eq take_bit_nat_eq_self)
  have n: "unat (m + 0x30) = unat m + 0x30" "unat (m + 0x37) = unat m + 0x37"
    using assms by (simp_all add: wordnat)
  have "unat (ucast (m + 0x30) :: u8) = unat m + 0x30" "unat (ucast (m + 0x37) :: u8) = unat m + 0x37"
    using small [of "m + 0x30"] small [of "m + 0x37"] n assms by simp_all
  moreover have "m + 0x41 - 10 = m + 0x37" by simp
  moreover have "m < 10 \<longleftrightarrow> unat m < 10" by (simp add: unat_less_iff)
  ultimately have "unat (if m < 10 then ucast (m + 0x30 :: u32) else ucast (m + 0x41 - 10 :: u32) :: u8) =
      unat (digit_char (unat m))"
    using assms by (simp only: unat_digit_char) simp
  then show ?thesis by (simp only: word_unat_eq_iff)
qed

lemma itoa_written:
  assumes "written str b out" and "1 < unat base" and "unat base \<le> 36"
    and "length out + length (digits (unat base) (unat v)) \<le> length str" and "length str < 2 ^ 32"
  shows "\<exists>b'. itoa v b base = Inr b' \<and> exact str b' (out @ digits (unat base) (unat v))"
  using assms
proof (induction v b base rule: itoa.induct)
  case (1 v b base)
  let ?m = "v mod ucast base" and ?i = "v div ucast base" and ?B = "unat base"
  have base: "base \<noteq> 0" "base \<noteq> 1" using 1(3) by auto
  have m: "unat ?m = unat v mod ?B" and i: "unat ?i = unat v div ?B" by (simp_all add: wordnat)
  have "unat v mod ?B < ?B" using 1(3) by simp
  with 1(4) m have m36: "unat ?m < 36" by linarith
  have i0: "?i \<noteq> 0 \<longleftrightarrow> ?B \<le> unat v"
    using 1(3) i by (metis div_greater_zero_iff gr_zeroI less_trans unat_eq_zero zero_less_one neq0_conv)
  define ds where "ds = (if ?i \<noteq> 0 then digits ?B (unat ?i) else [])"
  have ds: "digits ?B (unat v) = ds @ [digit_char (unat ?m)]"
    using 1(3) i0 by (subst digits.simps) (simp add: ds_def m i)
  have "\<exists>b1. (if ?i \<noteq> 0 then if base = 1 then Inl Hang else itoa ?i b base else Inr b) = Inr b1 \<and>
      written str b1 (out @ ds)"
    using 1(1) [OF base(1) refl refl _ base(2) 1(2-4)] 1(2,5,6) base ds
    by (cases "?i \<noteq> 0") (auto simp: ds_def simp del: split_paired_Ex dest: exact_written)
  then obtain b1 where b1: "(if ?i \<noteq> 0 then if base = 1 then Inl Hang else itoa ?i b base else Inr b) = Inr b1"
    and w: "written str b1 (out @ ds)" by blast
  have "length (out @ ds) < length str" using 1(5) ds by simp
  from put_written [OF w this 1(6), of "digit_char (unat ?m)"] obtain b2
    where "put b1 (digit_char (unat ?m)) = Inr b2" "exact str b2 (out @ digits ?B (unat v))"
    using ds by auto
  then show ?case
    using b1 base(1) by (subst itoa.simps)
      (simp add: Let_def case_prod_beta digit_char_word [OF m36] flip: put_def)
qed

lemma put_string_written:
  assumes "written str b out" and "terminated s" and "length out + length (cstr s) < length str"
    and "length str < 2 ^ 32"
  shows "\<exists>b'. put_string b s = Inr b' \<and> written str b' (out @ cstr s)"
proof -
  from assms(1) obtain z where z: "z = [] \<or> z = [0]" and b: "fst b = out @ z @ drop (length out + length z) str"
    and p: "unat (snd b) = length out"
    unfolding written_def by blast
  let ?r = "z @ drop (length out + length z) str"
  have l: "length (cstr s) < length ?r" using z assms(3) by auto
  have d: "drop (Suc (length (cstr s))) ?r = drop (length out + Suc (length (cstr s))) str"
    using z by (auto simp: add.commute)
  have "length (cstr s) < 2 ^ 32" using assms(3,4) by linarith
  then have "unat (snd b + of_nat (length (cstr s))) = length out + length (cstr s)"
    using assms(3,4) p by (simp add: wordnat)
  then have "written str (out @ cstr s @ 0 # drop (length out + Suc (length (cstr s))) str,
      snd b + of_nat (length (cstr s))) (out @ cstr s)"
    using assms(3) unfolding written_def by (auto intro!: exI [of _ "[0]"])
  moreover have "put_string b s = Inr (out @ cstr s @ 0 # drop (length out + Suc (length (cstr s))) str,
      snd b + of_nat (length (cstr s)))"
    using assms(2) l b p d by (simp add: put_string_def strcpy_eq strlen_eq del: strcpy.simps strlen.simps)
  ultimately show ?thesis by blast
qed

lemma digits_lead: "1 < b \<Longrightarrow> b \<le> 36 \<Longrightarrow> 0 < n \<Longrightarrow> hd (digits b n) \<noteq> 0x30"
proof (induction b n rule: digits.induct)
  case (1 b n)
  show ?case
  proof (cases "b \<le> n")
    case True
    then have "0 < n div b" using 1(2) by (simp add: div_greater_zero_iff)
    with 1 True show ?thesis by (subst digits.simps) (simp add: digits_nonempty)
  next
    case False
    then have "unat (digit_char (n mod b)) \<noteq> 0x30" using 1(2-4) by (auto simp: unat_digit_char)
    then have "digit_char (n mod b) \<noteq> 0x30" by auto
    with False show ?thesis by (subst digits.simps) simp
  qed
qed

lemma length_digits_32: "1 < b \<Longrightarrow> length (digits b (unat (v :: u32))) \<le> 32"
proof -
  assume b: "1 < b"
  have "(2 :: nat) ^ 32 \<le> b ^ 32" using b by (intro power_mono) auto
  with unat_u32_bound [of v] have "unat v < b ^ 32" by simp
  with length_digits [OF b this] show ?thesis by simp
qed

text \<open>
  Integers and their digits.  In base 2 to 36, given room, \<open>itoa\<close> writes digits that
  denote the value, without a leading zero, moves the buffer pointer past them and leaves the rest
  of the buffer alone; base 0 faults and base 1 never returns on a nonzero value.
\<close>

theorem itoa_round_trip:
  assumes "length buf < 2 ^ 32" and "unat p + 32 \<le> length buf" and "unat base \<le> 36"
  shows "if base = 0 then itoa v (buf, p) base = Inl DivideError
         else if base = 1 then v \<noteq> 0 \<longrightarrow> itoa v (buf, p) base = Inl Hang
         else \<exists>ds. itoa v (buf, p) base =
                 Inr (take (unat p) buf @ ds @ drop (unat p + length ds) buf, p + of_nat (length ds)) \<and>
               ds \<noteq> [] \<and> number_of (unat base) ds = unat v \<and> (v \<noteq> 0 \<longrightarrow> hd ds \<noteq> 0x30) \<and>
               length ds \<le> 32"
proof -
  consider "base = 0" | "base = 1" | "1 < unat base"
    using word_unat_eq_iff [of base 0] word_unat_eq_iff [of base 1] by fastforce
  then show ?thesis
  proof cases
    case 3
    let ?ds = "digits (unat base) (unat v)"
    have w: "written buf (buf, p) (take (unat p) buf)"
      using assms(2) by (auto simp: written_def)
    have l: "length ?ds \<le> 32" using 3 by (rule length_digits_32)
    then have "length (take (unat p) buf) + length ?ds \<le> length buf" using assms(2) by auto
    from itoa_written [OF w 3 assms(3) this assms(1)] obtain b where
      b: "itoa v (buf, p) base = Inr b" "exact buf b (take (unat p) buf @ ?ds)" by blast
    have "snd b = p + of_nat (length ?ds)"
      using b(2) assms l by (intro word_unat_eq_iff [THEN iffD2]) (simp add: exact_def wordnat)
    moreover have "fst b = take (unat p) buf @ ?ds @ drop (unat p + length ?ds) buf"
      using b(2) assms(2) by (simp add: exact_def)
    moreover have "v \<noteq> 0 \<Longrightarrow> 0 < unat v" by (simp add: unat_gt_0)
    ultimately show ?thesis
      using b(1) 3 assms(3) l number_of_digits [of "unat base" "unat v"] digits_lead [of "unat base" "unat v"]
      by (auto simp: digits_nonempty intro!: exI [of _ ?ds] prod_eqI)
  qed (simp_all add: itoa.simps [of v])
qed

theorem itoa_round_trip_witness:
  "\<exists>ds. itoa 2748 (replicate 40 0, 2) 16 =
           Inr (replicate 2 0 @ ds @ replicate (38 - length ds) 0, 2 + of_nat (length ds)) \<and>
        number_of 16 ds = 2748"
  using itoa_round_trip [of "replicate 40 0" 2 16 2748] by auto

text \<open>One directive after the other keeps the buffer \<open>written\<close>.\<close>

lemma unat_uminus_negative:
  assumes "sint (w :: i32) < 0"
  shows "unat (- w) = nat (- sint w)"
proof -
  have "sint w = (uint w + 2 ^ 31) mod 2 ^ 32 - 2 ^ 31"
    using int_word_sint [where 'a = 32, of "uint w"] by simp
  moreover have "uint (- w) = (- uint w) mod 2 ^ 32"
    by (simp add: uint_word_ariths)
  moreover have "0 \<le> uint w" "uint w < 2 ^ 32"
    using uint_lt2p [of w] by simp_all
  moreover have "- u mod 2 ^ 32 = - ((u + 2 ^ 31) mod 2 ^ 32 - 2 ^ 31)"
    if u: "(0 :: int) \<le> u" "u < 2 ^ 32" and neg: "(u + 2 ^ 31) mod 2 ^ 32 - 2 ^ 31 < 0" for u :: int
  proof -
    have "2 ^ 31 \<le> u"
    proof (rule ccontr)
      assume "\<not> 2 ^ 31 \<le> u"
      then have "(u + 2 ^ 31) mod 2 ^ 32 = u + 2 ^ 31" using u by (intro mod_pos_pos_trivial) simp_all
      with neg u show False by simp
    qed
    then have "(u + 2 ^ 31 - 2 ^ 32) mod 2 ^ 32 = u + 2 ^ 31 - 2 ^ 32"
      using u by (intro mod_pos_pos_trivial) simp_all
    moreover have "(- u + 2 ^ 32) mod 2 ^ 32 = - u + 2 ^ 32"
      using u \<open>2 ^ 31 \<le> u\<close> by (intro mod_pos_pos_trivial) simp_all
    ultimately show ?thesis by (simp only: mod_add_self2 minus_mod_self2)
  qed
  ultimately have "uint (- w) = - sint w"
    using assms by metis
  then show ?thesis by (simp flip: nat_uint_eq)
qed

lemma put_decimal_written:
  assumes "written str b out" and "length out + length (decimal w) \<le> length str" and "length str < 2 ^ 32"
  shows "\<exists>b'. put_decimal b w = Inr b' \<and> exact str b' (out @ decimal w)"
proof (cases "sint w < 0")
  case True
  have d: "decimal w = 0x2D # digits 10 (unat (- w))"
    using True by (simp add: decimal_def unat_uminus_negative)
  then obtain b1 where b1: "put b 0x2D = Inr b1" "exact str b1 (out @ [0x2D])"
    using put_written [OF assms(1) _ assms(3), of "0x2D"] assms(2) by auto
  have "length (out @ [0x2D]) + length (digits (unat (10 :: u8)) (unat (- w))) \<le> length str"
    using assms(2) d by simp
  from itoa_written [OF exact_written [OF b1(2)] _ _ this assms(3)] show ?thesis
    using True b1(1) d by (simp add: put_decimal_def)
next
  case False
  then show ?thesis
    using itoa_written [OF assms(1), of 10 w] assms by (simp add: put_decimal_def decimal_def)
qed

lemma vsprintf_loop_written:
  assumes "terminated fmt" and "render (cstr fmt) ap = Some out" and "written str b pre"
    and "\<forall>s. VaStr s \<in> set ap \<longrightarrow> terminated s"
    and "length pre + length out < length str" and "length str < 2 ^ 32"
  shows "\<exists>b'. vsprintf_loop fmt ap b = Inr b' \<and> written str b' (pre @ out)"
  using assms
proof (induction fmt ap b arbitrary: pre out rule: vsprintf_loop.induct)
  case (1 ap b)
  then show ?case by simp
next
  case (2 c fs ap b)
  note len = 2(11,12) and strs = 2(10)
  show ?case
  proof (cases "c = 0")
    case True
    with 2(8,9) show ?thesis by simp
  next
    case c0: False
    then have fs: "terminated fs" using 2(7) by simp
    show ?thesis
    proof (cases "c = 0x25")
      case False
      from 2(8) False c0 obtain out' where out: "out = c # out'" "render (cstr fs) ap = Some out'" by auto
      obtain b1 where b1: "put b c = Inr b1" "exact str b1 (pre @ [c])"
        using put_written [OF 2(9) _ len(2), of c] len(1) out by auto
      from 2(1) [OF c0 False b1(1) fs out(2) exact_written [OF b1(2)] strs] len show ?thesis
        using c0 False b1(1) out by auto
    next
      case c: True
      then obtain d gs where fs': "fs = d # gs" using fs by (cases fs) auto
      have gs: "d \<noteq> 0 \<Longrightarrow> terminated gs" using fs fs' by simp
      note ih = 2(2-6) [OF c0 _ fs', unfolded c, simplified]
      note wr = 2(9)
      note r = 2(8) [unfolded c fs', simplified]
      have step: ?thesis
        if "\<exists>b1. act b = Inr b1 \<and> written str b1 (pre @ t)" and "out = t @ out'"
          and "\<And>b1. act b = Inr b1 \<Longrightarrow> written str b1 (pre @ t) \<Longrightarrow>
                 \<exists>b'. vsprintf_loop gs ap' b1 = Inr b' \<and> written str b' ((pre @ t) @ out')"
          and "vsprintf_loop (c # fs) ap b = rbind (act b) (vsprintf_loop gs ap')"
        for act t out' ap'
        using that by fastforce
      consider "d = 0x73" | "d = 0x78" | "d = 0x64" | "d = 0x63"
        | "d \<noteq> 0x73" "d \<noteq> 0x78" "d \<noteq> 0x64" "d \<noteq> 0x63" by blast
      then show ?thesis
      proof cases
        case 1
        then obtain sv ap' out' where o: "ap = VaStr sv # ap'" "out = cstr sv @ out'" "render (cstr gs) ap' = Some out'"
          using r by (auto split: list.splits va.splits)
        show ?thesis
        proof (rule step [of "\<lambda>b. put_string b sv" "cstr sv" out' ap'])
          show "\<exists>b1. put_string b sv = Inr b1 \<and> written str b1 (pre @ cstr sv)"
            using put_string_written [OF wr, of sv] o strs len by simp
          show "out = cstr sv @ out'" by (rule o(2))
          show "vsprintf_loop (c # fs) ap b = rbind (put_string b sv) (vsprintf_loop gs ap')"
            using 1 o by (simp add: c fs')
          fix b1
          assume h: "put_string b sv = Inr b1" "written str b1 (pre @ cstr sv)"
          show "\<exists>b'. vsprintf_loop gs ap' b1 = Inr b' \<and> written str b' ((pre @ cstr sv) @ out')"
            using ih(1) [OF 1 _ refl h(1) gs o(3) h(2)] 1 o strs len by simp
        qed
      next
        case 2
        then obtain w ap' out' where o: "ap = VaInt w # ap'" "out = digits 16 (unat w) @ out'" "render (cstr gs) ap' = Some out'"
          using r by (auto split: list.splits va.splits)
        show ?thesis
        proof (rule step [of "\<lambda>b. itoa w b 16" "digits 16 (unat w)" out' ap'])
          show "\<exists>b1. itoa w b 16 = Inr b1 \<and> written str b1 (pre @ digits 16 (unat w))"
            using itoa_written [OF wr, of 16 w] o len exact_written by fastforce
          show "out = digits 16 (unat w) @ out'" by (rule o(2))
          show "vsprintf_loop (c # fs) ap b = rbind (itoa w b 16) (vsprintf_loop gs ap')"
            using 2 o by (simp add: c fs')
          fix b1
          assume h: "itoa w b 16 = Inr b1" "written str b1 (pre @ digits 16 (unat w))"
          show "\<exists>b'. vsprintf_loop gs ap' b1 = Inr b' \<and> written str b' ((pre @ digits 16 (unat w)) @ out')"
            using ih(2) [OF 2 _ refl h(1) gs o(3) h(2)] 2 o strs len by simp
        qed
      next
        case 3
        then obtain w ap' out' where o: "ap = VaInt w # ap'" "out = decimal w @ out'" "render (cstr gs) ap' = Some out'"
          using r by (auto split: list.splits va.splits)
        show ?thesis
        proof (rule step [of "\<lambda>b. put_decimal b w" "decimal w" out' ap'])
          show "\<exists>b1. put_decimal b w = Inr b1 \<and> written str b1 (pre @ decimal w)"
            using put_decimal_written [OF wr, of w] o len exact_written by fastforce
          show "out = decimal w @ out'" by (rule o(2))
          show "vsprintf_loop (c # fs) ap b = rbind (put_decimal b w) (vsprintf_loop gs ap')"
            using 3 o by (simp add: c fs')
          fix b1
          assume h: "put_decimal b w = Inr b1" "written str b1 (pre @ decimal w)"
          show "\<exists>b'. vsprintf_loop gs ap' b1 = Inr b' \<and> written str b' ((pre @ decimal w) @ out')"
            using ih(3) [OF 3 _ refl h(1) gs o(3) h(2)] 3 o strs len by simp
        qed
      next
        case 4
        then obtain w ap' out' where o: "ap = VaInt w # ap'" "out = [ucast w] @ out'" "render (cstr gs) ap' = Some out'"
          using r by (auto split: list.splits va.splits)
        show ?thesis
        proof (rule step [of "\<lambda>b. put b (ucast w)" "[ucast w]" out' ap'])
          show "\<exists>b1. put b (ucast w) = Inr b1 \<and> written str b1 (pre @ [ucast w])"
            using put_written [OF wr, of "ucast w"] o len exact_written by fastforce
          show "out = [ucast w] @ out'" by (rule o(2))
          show "vsprintf_loop (c # fs) ap b = rbind (put b (ucast w)) (vsprintf_loop gs ap')"
            using 4 o by (simp add: c fs')
          fix b1
          assume h: "put b (ucast w) = Inr b1" "written str b1 (pre @ [ucast w])"
          show "\<exists>b'. vsprintf_loop gs ap' b1 = Inr b' \<and> written str b' ((pre @ [ucast w]) @ out')"
            using ih(4) [OF 4 _ refl h(1) gs o(3) h(2)] 4 o strs len by simp
        qed
      next
        case 5
        then show ?thesis
          using ih(5) [OF _ _ _ _ _ _ wr strs, of out] r len fs fs' c by (simp split: if_splits)
      qed
    qed
  qed
qed

lemma vsprintf_zero_after:
  assumes "terminated fmt" and "render (cstr fmt) ap = Some out"
    and "\<forall>s. VaStr s \<in> set ap \<longrightarrow> terminated s" and "0 \<notin> set out"
    and "length out < length str" and "str ! length out = 0" and "length str < 2 ^ 32"
  shows "vsprintf str fmt ap = Inr (of_nat (length out), out @ 0 # drop (Suc (length out)) str)"
proof -
  from vsprintf_loop_written [OF assms(1,2) written_start assms(3) _ assms(7)] assms(5) obtain b
    where b: "vsprintf_loop fmt ap (str, 0) = Inr b" "written str b out" by auto
  have "drop (length out) str = 0 # drop (Suc (length out)) str"
    using assms(5,6) by (metis Cons_nth_drop_Suc)
  then have f: "fst b = out @ 0 # drop (Suc (length out)) str"
    using b(2) by (auto simp: written_def)
  then have "strlen (Some (fst b)) = Inr (of_nat (length out))"
    using assms(4) by (simp add: strlen_eq cstr_append_zero del: strlen.simps)
  with b(1) f show ?thesis by (simp add: vsprintf_def case_prod_beta del: strlen.simps)
qed

text \<open>
  C39: \<open>vsprintf\<close> and the functions on top of it.  When the format and its arguments denote
  the text \<open>out\<close>, a text without zero bytes, then in a buffer that has room for it and holds a zero
  behind it \<open>vsprintf\<close> leaves \<open>out\<close> as the string, returns its length and changes nothing
  behind the zero.  \<open>printf\<close> writes and \<open>printk\<close> prints exactly \<open>out\<close> when it is shorter
  than their buffer of 1024 bytes.
\<close>

theorem vsprintf_prints:
  assumes "terminated fmt" and "render (cstr fmt) ap = Some out"
    and "\<forall>s. VaStr s \<in> set ap \<longrightarrow> terminated s" and "0 \<notin> set out"
    and "length out < length str" and "str ! length out = 0" and "length str \<le> 1024"
  shows "vsprintf str fmt ap = Inr (of_nat (length out), out @ 0 # drop (Suc (length out)) str) \<and>
         printf fmt ap = Inr (of_nat (length out), out) \<and> printk fmt ap = Inr out"
proof -
  have "length str < 2 ^ 32" using assms(7) by simp
  note direct = vsprintf_zero_after [OF assms(1-6) this]
  have buf: "vsprintf (replicate 1024 0) fmt ap =
      Inr (of_nat (length out), out @ 0 # drop (Suc (length out)) (replicate 1024 0))"
    using assms by (intro vsprintf_zero_after) simp_all
  have "unat (of_nat (length out) :: u32) = length out"
    using assms(5,7) by (simp add: wordnat)
  then show ?thesis
    using direct buf assms(4)
    by (simp add: printf_def printk_def strlen_eq cstr_append_zero del: strlen.simps)
qed

text \<open>The format \<open>a=%d %s\<close> with the arguments -5 and \<open>ok\<close>.\<close>

theorem vsprintf_prints_witness:
  "printf [0x61, 0x3D, 0x25, 0x64, 0x20, 0x25, 0x73, 0] [VaInt (-5), VaStr [0x6F, 0x6B, 0]] =
     Inr (7, [0x61, 0x3D, 0x2D, 0x35, 0x20, 0x6F, 0x6B])"
proof -
  have d: "decimal (-5) = [0x2D, 0x35]" by code_simp
  show ?thesis
    using vsprintf_prints [of "[0x61, 0x3D, 0x25, 0x64, 0x20, 0x25, 0x73, 0]"
        "[VaInt (-5), VaStr [0x6F, 0x6B, 0]]" "[0x61, 0x3D, 0x2D, 0x35, 0x20, 0x6F, 0x6B]"
        "replicate 10 0"]
    by (simp add: d)
qed

text \<open>
  Without a zero behind it the text is not terminated: \<open>vsprintf\<close> never stores one, so
  formatting \<open>x\<close> over the string \<open>abcdef\<close> gives \<open>xbcdef\<close> and the length 6.
\<close>

theorem sprintf_unterminated:
  "sprintf [0x61, 0x62, 0x63, 0x64, 0x65, 0x66, 0] [0x78, 0] [] =
     Inr (6, [0x78, 0x62, 0x63, 0x64, 0x65, 0x66, 0])"
  by code_simp

end
