(* ===== verification/Ide.thy ===== *)
theory Ide
  imports Memory Inode Stdio
begin

text \<open>
  The disk driver \<open>device/ide.c\<close>: the port protocol, the transfers, the interrupt handler and
  the partition scan.

  The drives are hardware: a \<open>drive\<close> says how a device state answers accesses to its ports, and
  which state it is in when it next raises its interrupt while the processor leaves it alone
  (\<open>None\<close> when it never does); \<open>hw\<close> is that state.  Every operation has the drive \<open>D\<close> as a
  parameter, and what is documented of an ATA drive is the hypothesis \<open>ata_drive\<close> of theory \<open>Ata\<close>.

  A channel is its index in \<open>channels\<close>, a disk the index of its channel and its number there;
  partition structures are those of the file system.  \<open>insw\<close> returns what it stores.
  \<open>console_text\<close> collects what is printed.  The interrupt handlers that are registered are in
  \<open>handlers\<close>.

  \<open>await_disk\<close> is \<open>sema_down\<close> on \<open>disk_done\<close> together with what it waits for: unless the semaphore
  is posted already, the drive goes on until it raises its interrupt, the handler runs, and the
  driver takes what the handler has posted; a drive that raises none leaves the thread blocked for
  ever (\<open>Blocked\<close>).  What other threads do meanwhile is the subject of theory \<open>Sync\<close>.
\<close>

section \<open>State\<close>

record 'd drive =
  drive_out :: "'d \<Rightarrow> u16 \<Rightarrow> u8 \<Rightarrow> 'd"
  drive_in :: "'d \<Rightarrow> u16 \<Rightarrow> u8 \<times> 'd"
  drive_insw :: "'d \<Rightarrow> u16 \<Rightarrow> nat \<Rightarrow> u8 list \<times> 'd"
  drive_outsw :: "'d \<Rightarrow> u16 \<Rightarrow> u8 list \<Rightarrow> 'd"
  drive_wait :: "'d \<Rightarrow> 'd option"

record ide_disk =
  disk_name :: "u8 list"
  dev_no :: u8
  prim_parts :: "partition list"
  logic_parts :: "partition list"

record ide_channel =
  chan_name :: "u8 list"
  port_base :: u16
  irq_no :: u8
  expecting_intr :: bool
  devices :: "ide_disk list"

record 'd ide = memory +
  hw :: 'd
  channel_cnt :: u8
  channels :: "ide_channel list"
  ext_lba_base :: u32
  p_no :: u8
  l_no :: u8
  handlers :: "u32 list"
  console_text :: "u8 list"

text \<open>Addresses, from \<open>build/kernel.map\<close> and the layout of the structures.\<close>

definition channel_addr :: "nat \<Rightarrow> u32" where
  "channel_addr c = 0xc0015e60 + 1632 * of_nat c"

definition chan_lock :: "nat \<Rightarrow> u32" where
  "chan_lock c = channel_addr c + 12"

definition disk_done :: "nat \<Rightarrow> u32" where
  "disk_done c = channel_addr c + 44"

definition partition_list :: u32 where
  "partition_list = 0xc0016b20"

definition disk_addr :: "nat \<times> nat \<Rightarrow> u32" where
  "disk_addr d = channel_addr (fst d) + 64 + 784 * of_nat (snd d)"

definition prim_tag :: "nat \<times> nat \<Rightarrow> nat \<Rightarrow> u32" where
  "prim_tag d i = disk_addr d + 16 + 64 * of_nat i + 12"

definition logic_tag :: "nat \<times> nat \<Rightarrow> nat \<Rightarrow> u32" where
  "logic_tag d i = disk_addr d + 272 + 64 * of_nat i + 12"

definition INTR_HD_HANDLER :: u32 where
  "INTR_HD_HANDLER = 0xc00076db"

text \<open>Registers, bits and commands.\<close>

definition reg_data :: "ide_channel \<Rightarrow> u16" where
  "reg_data ch = port_base ch + 0"

definition reg_sect_cnt :: "ide_channel \<Rightarrow> u16" where
  "reg_sect_cnt ch = port_base ch + 2"

definition reg_lba_l :: "ide_channel \<Rightarrow> u16" where
  "reg_lba_l ch = port_base ch + 3"

definition reg_lba_m :: "ide_channel \<Rightarrow> u16" where
  "reg_lba_m ch = port_base ch + 4"

definition reg_lba_h :: "ide_channel \<Rightarrow> u16" where
  "reg_lba_h ch = port_base ch + 5"

definition reg_dev :: "ide_channel \<Rightarrow> u16" where
  "reg_dev ch = port_base ch + 6"

definition reg_status :: "ide_channel \<Rightarrow> u16" where
  "reg_status ch = port_base ch + 7"

definition reg_cmd :: "ide_channel \<Rightarrow> u16" where
  "reg_cmd ch = reg_status ch"

definition BIT_STAT_BSY :: u8 where
  "BIT_STAT_BSY = 0x80"

definition BIT_STAT_DRQ :: u8 where
  "BIT_STAT_DRQ = 0x8"

definition BIT_DEV_MBS :: u8 where
  "BIT_DEV_MBS = 0xA0"

definition BIT_DEV_LBA :: u8 where
  "BIT_DEV_LBA = 0x40"

definition BIT_DEV_DEV :: u8 where
  "BIT_DEV_DEV = 0x10"

definition CMD_IDENTIFY :: u8 where
  "CMD_IDENTIFY = 0xEC"

definition CMD_READ_SECTOR :: u8 where
  "CMD_READ_SECTOR = 0x20"

definition CMD_WRITE_SECTOR :: u8 where
  "CMD_WRITE_SECTOR = 0x30"

definition chan_of :: "('d, 'a) ide_scheme \<Rightarrow> nat \<times> nat \<Rightarrow> ide_channel" where
  "chan_of s d = channels s ! fst d"

definition disk_of :: "('d, 'a) ide_scheme \<Rightarrow> nat \<times> nat \<Rightarrow> ide_disk" where
  "disk_of s d = devices (chan_of s d) ! snd d"

definition upd_chan :: "('d, 'a) ide_scheme \<Rightarrow> nat \<Rightarrow> (ide_channel \<Rightarrow> ide_channel) \<Rightarrow> ('d, 'a) ide_scheme" where
  "upd_chan s c f = s\<lparr>channels := (channels s)[c := f (channels s ! c)]\<rparr>"

definition upd_disk :: "('d, 'a) ide_scheme \<Rightarrow> nat \<times> nat \<Rightarrow> (ide_disk \<Rightarrow> ide_disk) \<Rightarrow> ('d, 'a) ide_scheme" where
  "upd_disk s d f = upd_chan s (fst d) (\<lambda>ch. ch\<lparr>devices := (devices ch)[snd d := f (devices ch ! snd d)]\<rparr>)"

section \<open>Ports\<close>

definition hd_outb :: "'d drive \<Rightarrow> u16 \<Rightarrow> u8 \<Rightarrow> ('d, 'a) ide_scheme \<Rightarrow> ('d, 'a) ide_scheme" where
  "hd_outb D port b s = s\<lparr>hw := drive_out D (hw s) port b\<rparr>"

definition hd_inb :: "'d drive \<Rightarrow> u16 \<Rightarrow> ('d, 'a) ide_scheme \<Rightarrow> u8 \<times> ('d, 'a) ide_scheme" where
  "hd_inb D port s = (let (b, d) = drive_in D (hw s) port in (b, s\<lparr>hw := d\<rparr>))"

definition hd_insw :: "'d drive \<Rightarrow> u16 \<Rightarrow> u32 \<Rightarrow> ('d, 'a) ide_scheme \<Rightarrow> u8 list \<times> ('d, 'a) ide_scheme" where
  "hd_insw D port word_cnt s =
     (let (bs, d) = drive_insw D (hw s) port (unat word_cnt) in (bs, s\<lparr>hw := d\<rparr>))"

definition hd_outsw :: "'d drive \<Rightarrow> u16 \<Rightarrow> u8 list \<Rightarrow> u32 \<Rightarrow> ('d, 'a) ide_scheme \<Rightarrow> ('d, 'a) ide_scheme res" where
  "hd_outsw D port buf word_cnt s =
     (if length buf < 2 * unat word_cnt then Inl OutOfBounds
      else Inr (s\<lparr>hw := drive_outsw D (hw s) port (take (2 * unat word_cnt) buf)\<rparr>))"

definition select_disk :: "'d drive \<Rightarrow> ('d, 'a) ide_scheme \<Rightarrow> nat \<times> nat \<Rightarrow> ('d, 'a) ide_scheme" where
  "select_disk D s d =
     (let reg_device = BIT_DEV_MBS OR BIT_DEV_LBA;
          reg_device = (if dev_no (disk_of s d) = 1 then reg_device OR BIT_DEV_DEV else reg_device)
      in hd_outb D (reg_dev (chan_of s d)) reg_device s)"

definition select_sector ::
  "'d drive \<Rightarrow> ('d, 'a) ide_scheme \<Rightarrow> nat \<times> nat \<Rightarrow> u32 \<Rightarrow> u8 \<Rightarrow> ('d, 'a) ide_scheme res" where
  "select_sector D s d lba n =
     (if \<not> lba \<le> max_lba then Inl Panic
      else
        let ch = chan_of s d;
            s = hd_outb D (reg_sect_cnt ch) n s;
            s = hd_outb D (reg_lba_l ch) (ucast lba) s;
            s = hd_outb D (reg_lba_m ch) (ucast (drop_bit 8 lba)) s;
            s = hd_outb D (reg_lba_h ch) (ucast (drop_bit 16 lba)) s
        in Inr (hd_outb D (reg_dev ch)
             (ucast (ucast (BIT_DEV_MBS OR BIT_DEV_LBA OR (if dev_no (disk_of s d) = 1 then BIT_DEV_DEV else 0)) OR
                     drop_bit 24 lba)) s))"

definition cmd_out :: "'d drive \<Rightarrow> ('d, 'a) ide_scheme \<Rightarrow> nat \<Rightarrow> u8 \<Rightarrow> ('d, 'a) ide_scheme" where
  "cmd_out D s c cmd =
     (let s = upd_chan s c (\<lambda>ch. ch\<lparr>expecting_intr := True\<rparr>)
      in hd_outb D (reg_cmd (channels s ! c)) cmd s)"

definition size_in_byte :: "u8 \<Rightarrow> u32" where
  "size_in_byte n = (if n = 0 then 256 * 512 else ucast n * 512)"

definition read_from_sector ::
  "'d drive \<Rightarrow> ('d, 'a) ide_scheme \<Rightarrow> nat \<times> nat \<Rightarrow> u8 \<Rightarrow> u8 list \<times> ('d, 'a) ide_scheme" where
  "read_from_sector D s d n = hd_insw D (reg_data (chan_of s d)) (size_in_byte n div 2) s"

definition write2sector ::
  "'d drive \<Rightarrow> ('d, 'a) ide_scheme \<Rightarrow> nat \<times> nat \<Rightarrow> u8 list \<Rightarrow> u8 \<Rightarrow> ('d, 'a) ide_scheme res" where
  "write2sector D s d buf n = hd_outsw D (reg_data (chan_of s d)) buf (size_in_byte n div 2) s"

text \<open>
  The loop of \<open>busy_wait\<close> with \<open>time_limit\<close> after the subtraction, which is \<open>time_limit -= (10 >= 0)\<close>.
\<close>

fun busy_loop :: "'d drive \<Rightarrow> ('d, 'a) ide_scheme \<Rightarrow> u16 \<Rightarrow> nat \<Rightarrow> (bool \<times> ('d, 'a) ide_scheme) res" where
  "busy_loop D s port 0 = Inr (False, s)"
| "busy_loop D s port (Suc time_limit) =
     (let (b, s) = hd_inb D port s
      in if b AND BIT_STAT_BSY = 0 then
           let (b, s) = hd_inb D port s in Inr (b AND BIT_STAT_DRQ \<noteq> 0, s)
         else rbind (mtime_sleep s 10) (\<lambda>(done, s). if \<not> done then Inl Blocked else busy_loop D s port time_limit))"

definition busy_wait :: "'d drive \<Rightarrow> ('d, 'a) ide_scheme \<Rightarrow> nat \<times> nat \<Rightarrow> (bool \<times> ('d, 'a) ide_scheme) res" where
  "busy_wait D s d = busy_loop D s (reg_status (chan_of s d)) (30 * 1000 - 1)"

section \<open>Interrupts\<close>

definition intr_hd_handler :: "'d drive \<Rightarrow> ('d, 'a) ide_scheme \<Rightarrow> u8 \<Rightarrow> ('d, 'a) ide_scheme res" where
  "intr_hd_handler D s irq =
     (if \<not> (irq = 0x2e \<or> irq = 0x2f) then Inl Panic
      else
        let c = unat (irq - 0x20 - 0xe)
        in if \<not> c < length (channels s) then Inl OutOfBounds
           else if irq_no (channels s ! c) \<noteq> irq then Inl Panic
           else if expecting_intr (channels s ! c) then
             let s = upd_chan s c (\<lambda>ch. ch\<lparr>expecting_intr := False\<rparr>)
             in rbind (sema_up s (disk_done c)) (\<lambda>s. Inr (snd (hd_inb D (reg_status (channels s ! c)) s)))
           else Inr s)"

text \<open>The interrupt of channel \<open>c\<close> arrives, its handler runs with interrupts off and returns.\<close>

definition hd_interrupt :: "'d drive \<Rightarrow> ('d, 'a) ide_scheme \<Rightarrow> nat \<Rightarrow> ('d, 'a) ide_scheme res" where
  "hd_interrupt D s c =
     rbind (intr_hd_handler D (cli s) (irq_no (channels s ! c))) (\<lambda>s'. Inr (s'\<lparr>eflags := eflags s\<rparr>))"

definition await_disk :: "'d drive \<Rightarrow> ('d, 'a) ide_scheme \<Rightarrow> nat \<Rightarrow> ('d, 'a) ide_scheme res" where
  "await_disk D s c =
     rbind (if sem_value s (disk_done c) \<noteq> 0 then Inr s
            else case drive_wait D (hw s) of
              None \<Rightarrow> Inl Blocked
            | Some h \<Rightarrow> hd_interrupt D (s\<lparr>hw := h\<rparr>) c)
       (\<lambda>s. rbind (sema_down s (disk_done c)) (\<lambda>(got, s). if got then Inr s else Inl Blocked))"

section \<open>Transfers\<close>

text \<open>
  \<open>secs_done\<close> cannot wrap around: \<open>select_sector\<close> refuses sectors behind \<open>max_lba\<close> long before.
\<close>

definition secs_op :: "nat \<Rightarrow> u32 \<Rightarrow> nat" where
  "secs_op secs_done n = (if secs_done + 256 \<le> unat n then 256 else unat n - secs_done)"

function read_chunks ::
  "'d drive \<Rightarrow> ('d, 'a) ide_scheme \<Rightarrow> nat \<times> nat \<Rightarrow> u32 \<Rightarrow> u32 \<Rightarrow> nat \<Rightarrow> u8 list \<Rightarrow> (u8 list \<times> ('d, 'a) ide_scheme) res" where
  "read_chunks D s d lba n secs_done buf =
     (if secs_done < unat n then
        let k = secs_op secs_done n
        in rbind (select_sector D s d (lba + of_nat secs_done) (of_nat k)) (\<lambda>s.
           rbind (await_disk D (cmd_out D s (fst d) CMD_READ_SECTOR) (fst d)) (\<lambda>s.
           rbind (busy_wait D s d) (\<lambda>(ready, s).
             if \<not> ready then Inl Panic
             else let (data, s) = read_from_sector D s d (of_nat k)
                  in read_chunks D s d lba n (secs_done + k) (buf @ data))))
      else Inr (buf, s))"
  by pat_completeness auto

termination
  by (relation "measure (\<lambda>(D, s, d, lba, n, secs_done, buf). unat n - secs_done)") (auto simp: secs_op_def)

declare read_chunks.simps [simp del]

definition ide_read ::
  "'d drive \<Rightarrow> ('d, 'a) ide_scheme \<Rightarrow> nat \<times> nat \<Rightarrow> u32 \<Rightarrow> u32 \<Rightarrow> (u8 list \<times> ('d, 'a) ide_scheme) res" where
  "ide_read D s d lba n =
     (if \<not> lba \<le> max_lba then Inl Panic
      else if \<not> n > 0 then Inl Panic
      else rbind (lock_enter s (chan_lock (fst d))) (\<lambda>s.
        rbind (read_chunks D (select_disk D s d) d lba n 0 []) (\<lambda>(buf, s).
        rbind (lock_release s (chan_lock (fst d))) (\<lambda>s. Inr (buf, s)))))"

function write_chunks ::
  "'d drive \<Rightarrow> ('d, 'a) ide_scheme \<Rightarrow> nat \<times> nat \<Rightarrow> u32 \<Rightarrow> u8 list \<Rightarrow> u32 \<Rightarrow> nat \<Rightarrow> ('d, 'a) ide_scheme res" where
  "write_chunks D s d lba buf n secs_done =
     (if secs_done < unat n then
        let k = secs_op secs_done n
        in rbind (select_sector D s d (lba + of_nat secs_done) (of_nat k)) (\<lambda>s.
           rbind (busy_wait D (cmd_out D s (fst d) CMD_WRITE_SECTOR) d) (\<lambda>(ready, s).
             if \<not> ready then Inl Panic
             else rbind (write2sector D s d (drop (secs_done * 512) buf) (of_nat k)) (\<lambda>s.
                  rbind (await_disk D s (fst d)) (\<lambda>s. write_chunks D s d lba buf n (secs_done + k)))))
      else Inr s)"
  by pat_completeness auto

termination
  by (relation "measure (\<lambda>(D, s, d, lba, buf, n, secs_done). unat n - secs_done)") (auto simp: secs_op_def)

declare write_chunks.simps [simp del]

definition ide_write ::
  "'d drive \<Rightarrow> ('d, 'a) ide_scheme \<Rightarrow> nat \<times> nat \<Rightarrow> u32 \<Rightarrow> u8 list \<Rightarrow> u32 \<Rightarrow> ('d, 'a) ide_scheme res" where
  "ide_write D s d lba buf n =
     (if \<not> lba \<le> max_lba then Inl Panic
      else if \<not> n > 0 then Inl Panic
      else rbind (lock_enter s (chan_lock (fst d))) (\<lambda>s.
        rbind (write_chunks D (select_disk D s d) d lba buf n 0) (\<lambda>s.
          lock_release s (chan_lock (fst d)))))"

end
