(* ===== verification/Idescan.thy ===== *)
theory Idescan
  imports Ide
begin

text \<open>
  Finding the disks and their partitions, from \<open>device/ide.c\<close>: identification, the scan of the
  partition tables and \<open>ide_init\<close>.

  The boot sector that \<open>ide_read\<close> stores in the buffer \<open>bs\<close> is the list \<open>bs\<close> of its bytes; the
  buffer itself is allocated and freed on the heap.  The scan follows links it finds on the disk, so
  it need not end: the fuel is the depth of the recursion, and running out of it is \<open>Hang\<close>.
\<close>

fun swap_pairs_bytes :: "u8 list \<Rightarrow> u8 list \<Rightarrow> u32 \<Rightarrow> u8 \<Rightarrow> u8 list res" where
  "swap_pairs_bytes (a # b # dst) buf n idx =
     (if ucast idx < n then
        rbind (st buf (ucast idx + 1) a) (\<lambda>buf.
        rbind (st buf (ucast idx) b) (\<lambda>buf. swap_pairs_bytes dst buf n (idx + 2)))
      else Inr buf)"
| "swap_pairs_bytes dst buf n idx = (if ucast idx < n then Inl OutOfBounds else Inr buf)"

definition ide_printk :: "('d, 'a) ide_scheme \<Rightarrow> u8 list \<Rightarrow> va list \<Rightarrow> ('d, 'a) ide_scheme res" where
  "ide_printk s fmt args = rbind (printk fmt args) (\<lambda>out. Inr (s\<lparr>console_text := console_text s @ out\<rparr>))"

definition identify_disk :: "'d drive \<Rightarrow> ('d, 'a) ide_scheme \<Rightarrow> nat \<times> nat \<Rightarrow> ('d, 'a) ide_scheme res" where
  "identify_disk D s d =
     rbind (await_disk D (cmd_out D (select_disk D s d) (fst d) CMD_IDENTIFY) (fst d)) (\<lambda>s.
     rbind (busy_wait D s d) (\<lambda>(ready, s).
       if \<not> ready then Inl Panic
       else
         let (id_info, s) = read_from_sector D s d 1;
             sn_start = 10 * 2; sn_len = 20; md_start = 27 * 2; md_len = 40
         in rbind (swap_pairs_bytes (drop sn_start id_info) (replicate 64 0) sn_len 0) (\<lambda>buf.
            rbind (ide_printk s (ctext (''    disk %s info:        SN: %s'' @ NL)) [VaStr (disk_name (disk_of s d)), VaStr buf]) (\<lambda>s.
            rbind (swap_pairs_bytes (drop md_start id_info) buf md_len 0) (\<lambda>buf.
            rbind (ide_printk s (ctext (''    MODULE: %s'' @ NL)) [VaStr buf]) (\<lambda>s.
            rbind (rd32 id_info (60 * 2)) (\<lambda>n.
            rbind (ide_printk s (ctext (''    SECTORS: %d'' @ NL)) [VaInt n]) (\<lambda>s.
              ide_printk s (ctext (''    CAPACITY: %dMB'' @ NL)) [VaInt (n * 512 div 1024 div 1024)]))))))))"

section \<open>Partition tables\<close>

definition fs_type_of :: "u8 list \<Rightarrow> nat \<Rightarrow> u8" where
  "fs_type_of bs i = bs ! (446 + 16 * i + 4)"

definition start_of :: "u8 list \<Rightarrow> nat \<Rightarrow> u32" where
  "start_of bs i = words (drop (446 + 16 * i + 8) bs) ! 0"

definition secs_of :: "u8 list \<Rightarrow> nat \<Rightarrow> u32" where
  "secs_of bs i = words (drop (446 + 16 * i + 12) bs) ! 0"

text \<open>A partition found: its structure is filled in, linked and named.\<close>

definition set_part :: "partition list \<Rightarrow> u8 \<Rightarrow> u32 \<Rightarrow> u32 \<Rightarrow> partition list res" where
  "set_part ps i start cnt =
     rbind (ld ps (ucast i)) (\<lambda>p. st ps (ucast i) (p\<lparr>start_lba := start, sec_cnt := cnt\<rparr>))"

definition name_part :: "partition list \<Rightarrow> u8 \<Rightarrow> u8 list \<Rightarrow> u32 \<Rightarrow> partition list res" where
  "name_part ps i dname no =
     rbind (ld ps (ucast i)) (\<lambda>p.
     rbind (sprintf (part_name p) (ctext ''%s%d'') [VaStr dname, VaInt no]) (\<lambda>(_, nm).
       st ps (ucast i) (p\<lparr>part_name := nm\<rparr>)))"

definition add_prim :: "('d, 'a) ide_scheme \<Rightarrow> nat \<times> nat \<Rightarrow> u32 \<Rightarrow> u32 \<Rightarrow> ('d, 'a) ide_scheme res" where
  "add_prim s d start cnt =
     rbind (set_part (prim_parts (disk_of s d)) (p_no s) start cnt) (\<lambda>ps.
       let s = upd_disk s d (\<lambda>x. x\<lparr>prim_parts := ps\<rparr>);
           s = list_append s partition_list (prim_tag d (unat (p_no s)))
       in rbind (name_part ps (p_no s) (disk_name (disk_of s d)) (ucast (p_no s) + 1)) (\<lambda>ps.
            let s = (upd_disk s d (\<lambda>x. x\<lparr>prim_parts := ps\<rparr>))\<lparr>p_no := p_no s + 1\<rparr>
            in if \<not> p_no s < 4 then Inl Panic else Inr s))"

definition add_logic :: "('d, 'a) ide_scheme \<Rightarrow> nat \<times> nat \<Rightarrow> u32 \<Rightarrow> u32 \<Rightarrow> ('d, 'a) ide_scheme res" where
  "add_logic s d start cnt =
     rbind (set_part (logic_parts (disk_of s d)) (l_no s) start cnt) (\<lambda>ps.
       let s = upd_disk s d (\<lambda>x. x\<lparr>logic_parts := ps\<rparr>);
           s = list_append s partition_list (logic_tag d (unat (l_no s)))
       in rbind (name_part ps (l_no s) (disk_name (disk_of s d)) (ucast (l_no s) + 5)) (\<lambda>ps.
            Inr ((upd_disk s d (\<lambda>x. x\<lparr>logic_parts := ps\<rparr>))\<lparr>l_no := l_no s + 1\<rparr>)))"

text \<open>
  \<open>scan_table\<close> is the loop over the entries from \<open>i\<close> on; \<open>k\<close> of the four are left.  After the
  eighth logical partition the scan returns without freeing its buffer: the result \<open>False\<close>.
\<close>

fun partition_scan :: "nat \<Rightarrow> 'd drive \<Rightarrow> ('d, 'a) ide_scheme \<Rightarrow> nat \<times> nat \<Rightarrow> u32 \<Rightarrow> ('d, 'a) ide_scheme res"
  and scan_table :: "nat \<Rightarrow> nat \<Rightarrow> 'd drive \<Rightarrow> ('d, 'a) ide_scheme \<Rightarrow> nat \<times> nat \<Rightarrow> u32 \<Rightarrow> u8 list \<Rightarrow> nat \<Rightarrow>
    (bool \<times> ('d, 'a) ide_scheme) res"
where
  "partition_scan 0 D s d ext_lba = Inl Hang"
| "partition_scan (Suc fuel) D s d ext_lba =
     rbind (sys_malloc s 512) (\<lambda>(bs_p, s).
       if bs_p = NULL then Inl WildPointer
       else rbind (ide_read D s d ext_lba 1) (\<lambda>(bs, s).
         rbind (scan_table fuel 4 D s d ext_lba bs 0) (\<lambda>(done, s).
           if done then sys_free s bs_p else Inr s)))"
| "scan_table fuel 0 D s d ext_lba bs i = Inr (True, s)"
| "scan_table fuel (Suc k) D s d ext_lba bs i =
     (if fs_type_of bs i = 0x5 then
        rbind (if ext_lba_base s \<noteq> 0 then partition_scan fuel D s d (start_of bs i + ext_lba_base s)
               else let s = s\<lparr>ext_lba_base := start_of bs i\<rparr> in partition_scan fuel D s d (ext_lba_base s))
          (\<lambda>s. scan_table fuel k D s d ext_lba bs (Suc i))
      else if fs_type_of bs i \<noteq> 0 then
        if ext_lba = 0 then
          rbind (add_prim s d (ext_lba + start_of bs i) (secs_of bs i)) (\<lambda>s.
            scan_table fuel k D s d ext_lba bs (Suc i))
        else
          rbind (add_logic s d (ext_lba + start_of bs i) (secs_of bs i)) (\<lambda>s.
            if l_no s \<ge> 8 then Inr (False, s) else scan_table fuel k D s d ext_lba bs (Suc i))
      else scan_table fuel k D s d ext_lba bs (Suc i))"

section \<open>Initialisation\<close>

text \<open>The partitions with the addresses of their list elements.\<close>

definition parts_with_tags :: "('d, 'a) ide_scheme \<Rightarrow> (u32 \<times> partition) list" where
  "parts_with_tags s =
     concat (map (\<lambda>d. map (\<lambda>i. (prim_tag d i, prim_parts (disk_of s d) ! i)) [0..<4] @
                      map (\<lambda>i. (logic_tag d i, logic_parts (disk_of s d) ! i)) [0..<8])
              [(0, 0), (0, 1), (1, 0), (1, 1)])"

definition partition_info :: "('d, 'a) ide_scheme \<Rightarrow> u8 list res \<Rightarrow> u32 \<Rightarrow> i32 \<Rightarrow> bool \<times> u8 list res" where
  "partition_info s out pelem arg =
     (False, rbind out (\<lambda>out.
        case map_of (parts_with_tags s) pelem of
          None \<Rightarrow> Inl WildPointer
        | Some p \<Rightarrow> rbind (printk (ctext (''    %s  start_lba:0x%x,sec_cnt:0x%x'' @ NL))
                     [VaStr (part_name p), VaInt (start_lba p), VaInt (sec_cnt p)]) (\<lambda>t. Inr (out @ t))))"

definition init_disk :: "nat \<Rightarrow> 'd drive \<Rightarrow> ('d, 'a) ide_scheme \<Rightarrow> nat \<Rightarrow> nat \<Rightarrow> ('d, 'a) ide_scheme res" where
  "init_disk fuel D s c dev =
     (let s = upd_disk s (c, dev) (\<lambda>x. x\<lparr>dev_no := of_nat dev\<rparr>)
      in rbind (sprintf (disk_name (disk_of s (c, dev))) (ctext ''sd%c'') [VaInt (97 + of_nat c * 2 + of_nat dev)]) (\<lambda>(_, nm).
         rbind (identify_disk D (upd_disk s (c, dev) (\<lambda>x. x\<lparr>disk_name := nm\<rparr>)) (c, dev)) (\<lambda>s.
         rbind (if dev \<noteq> 0 then partition_scan fuel D s (c, dev) 0 else Inr s) (\<lambda>s.
           Inr (s\<lparr>p_no := 0, l_no := 0\<rparr>)))))"

definition init_channel :: "nat \<Rightarrow> 'd drive \<Rightarrow> ('d, 'a) ide_scheme \<Rightarrow> nat \<Rightarrow> ('d, 'a) ide_scheme res" where
  "init_channel fuel D s c =
     (if \<not> c < length (channels s) then Inl OutOfBounds
      else rbind (sprintf (chan_name (channels s ! c)) (ctext ''ide%d'') [VaInt (of_nat c)]) (\<lambda>(_, nm).
        let s = upd_chan s c (\<lambda>ch. ch\<lparr>chan_name := nm, port_base := (if c = 0 then 0x1f0 else 0x170),
                  irq_no := (if c = 0 then 0x2e else 0x2f)\<rparr>)
        in rbind (register_handler (handlers s) (irq_no (channels s ! c)) INTR_HD_HANDLER) (\<lambda>h.
             let s = s\<lparr>handlers := h\<rparr>;
                 s = upd_chan s c (\<lambda>ch. ch\<lparr>expecting_intr := False\<rparr>);
                 s = lock_init s (chan_lock c);
                 s = sema_init s (disk_done c) 0
             in rbind (init_disk fuel D s c 0) (\<lambda>s. init_disk fuel D s c 1))))"

fun init_channels :: "nat \<Rightarrow> 'd drive \<Rightarrow> ('d, 'a) ide_scheme \<Rightarrow> nat \<Rightarrow> nat \<Rightarrow> ('d, 'a) ide_scheme res" where
  "init_channels fuel D s c 0 = Inr s"
| "init_channels fuel D s c (Suc k) = rbind (init_channel fuel D s c) (\<lambda>s. init_channels fuel D s (Suc c) k)"

text \<open>\<open>hd_cnt\<close> is the byte the BIOS leaves at \<open>0x475\<close>.\<close>

definition ide_init :: "nat \<Rightarrow> 'd drive \<Rightarrow> ('d, 'a) ide_scheme \<Rightarrow> u8 \<Rightarrow> ('d, 'a) ide_scheme res" where
  "ide_init fuel D s hd_cnt =
     rbind (ide_printk s (ctext (''ide_init start'' @ NL)) []) (\<lambda>s.
       if \<not> hd_cnt > 0 then Inl Panic
       else
         let s = s\<lparr>channel_cnt := ucast (DIV_ROUND_UP (ucast hd_cnt) 2)\<rparr>
         in if \<not> channel_cnt s > 0 then Inl Panic
            else rbind (init_channels fuel D (list_init s partition_list) 0 (unat (channel_cnt s))) (\<lambda>s.
              rbind (ide_printk s (ctext (NL @ ''    all partition info'' @ NL)) []) (\<lambda>s.
              rbind (list_traversal s partition_list (partition_info s) 0 (Inr [])) (\<lambda>(_, out).
              rbind out (\<lambda>out.
                ide_printk (s\<lparr>console_text := console_text s @ out\<rparr>) (ctext (''ide_init done'' @ NL)) [])))))"

end
