(* ===== verification/Process.thy ===== *)
theory Process
  imports Memory Stdio
begin

text \<open>
  Creating threads and processes: the rest of \<open>thread/thread.c\<close>, \<open>userprog/process.c\<close> and
  \<open>userprog/tss.c\<close>.

  \<open>thread_stacks\<close> and \<open>intr_stacks\<close> give the stack frames \<open>struct thread_stack\<close> and
  \<open>struct intr_struct\<close> by address.  Of the address spaces the running one is the state itself:
  its page table window and its memory.  The others are in \<open>spaces\<close>, by the physical address of
  their page directory; \<open>switch_space\<close> is \<open>page_dir_activate\<close> with the exchange of what is
  visible.  The kernel's page tables (behind the directory entries 768 to 1022) and its memory
  from \<open>0xc0000000\<close> on are the same in all of them.
\<close>

section \<open>State\<close>

record thread_stack =
  ts_ebp :: u32
  ts_ebx :: u32
  ts_edi :: u32
  ts_esi :: u32
  ts_eip :: u32
  ts_function :: u32
  ts_func_arg :: u32

record intr_struct =
  is_regs :: "u32 list"
  is_ebx :: u32
  is_ecx :: u32
  is_eax :: u32
  is_gs :: u32
  is_fs :: u32
  is_es :: u32
  is_ds :: u32
  is_eip :: u32
  is_cs :: u32
  is_eflags :: u32
  is_esp :: u32
  is_ss :: u32

record space =
  sp_ptw :: "u32 \<Rightarrow> u32"
  sp_nxt :: "u32 \<Rightarrow> u32"
  sp_prv :: "u32 \<Rightarrow> u32"
  sp_arenas :: "u32 \<Rightarrow> arena"
  sp_mem :: "u32 \<Rightarrow> u8"

record proc = memory +
  spaces :: "u32 \<Rightarrow> space"
  thread_stacks :: "u32 \<Rightarrow> thread_stack"
  intr_stacks :: "u32 \<Rightarrow> intr_struct"

text \<open>Addresses of functions and variables, from \<open>build/kernel.map\<close>.\<close>

definition KERNEL_THREAD :: u32 where
  "KERNEL_THREAD = 0xc000492a"

definition START_PROCESS :: u32 where
  "START_PROCESS = 0xc0006413"

definition IDLE :: u32 where
  "IDLE = 0xc0004ea3"

definition INIT :: u32 where
  "INIT = 0xc00015e4"

definition INTR_EXIT :: u32 where
  "INTR_EXIT = 0xc0001e20"

definition pid_lock :: u32 where
  "pid_lock = 0xc0015c80"

definition default_prio :: u8 where
  "default_prio = 31"

definition USER_STACK3_VADDR :: u32 where
  "USER_STACK3_VADDR = 0xc0000000 - 0x1000"

definition USER_VADDR_START :: u32 where
  "USER_VADDR_START = 0x8048000"

definition SELECTOR_U_CODE :: u32 where
  "SELECTOR_U_CODE = push_bit 3 5 + push_bit 2 TI_GDT + RPL3"

definition SELECTOR_U_DATA :: u32 where
  "SELECTOR_U_DATA = push_bit 3 6 + push_bit 2 TI_GDT + RPL3"

text \<open>The sizes of the two frames; pointers to words are moved by four times as much.\<close>

definition sizeof_intr_struct :: u32 where
  "sizeof_intr_struct = 76"

definition sizeof_thread_stack :: u32 where
  "sizeof_thread_stack = 32"

definition sizeof_task_struct :: u32 where
  "sizeof_task_struct = 280"

definition intr_0_stack :: "u32 \<Rightarrow> u32" where
  "intr_0_stack t = t + PG_SIZE - sizeof_intr_struct"

definition running_thread :: "'a sched_scheme \<Rightarrow> u32" where
  "running_thread s = cur s"

text \<open>\<open>pid_t\<close> is a signed 16-bit number.\<close>

definition sys_getpid :: "'a sched_scheme \<Rightarrow> u32" where
  "sys_getpid s = scast (pid (tasks s (running_thread s)))"

section \<open>Threads\<close>

definition allocate_pid :: "'a sync_scheme \<Rightarrow> (u16 \<times> 'a sync_scheme) res" where
  "allocate_pid s =
     rbind (lock_enter s pid_lock) (\<lambda>s.
       let s = s\<lparr>next_pid := next_pid s + 1\<rparr>
       in rbind (lock_release s pid_lock) (\<lambda>s. Inr (next_pid s, s)))"

definition thread_create :: "'a proc_scheme \<Rightarrow> u32 \<Rightarrow> u32 \<Rightarrow> u32 \<Rightarrow> 'a proc_scheme" where
  "thread_create s pthread function func_arg =
     (let k = self_kstack (tasks s pthread) - 4 * sizeof_intr_struct - 4 * sizeof_thread_stack;
          s = upd_task s pthread (\<lambda>p. p\<lparr>self_kstack := k, kont := KernelThread\<rparr>)
      in s\<lparr>thread_stacks := (thread_stacks s)(k := (thread_stacks s k)\<lparr>ts_eip := KERNEL_THREAD,
             ts_function := function, ts_func_arg := func_arg, ts_ebp := 0, ts_ebx := 0, ts_esi := 0\<rparr>)\<rparr>)"

text \<open>The task structure after \<open>memset\<close>.\<close>

definition zero_task :: task_struct where
  "zero_task = \<lparr>self_kstack = 0, pid = 0, status = TASK_RUNNING, priority = 0, task_name = replicate 16 0,
     ticks = 0, elapsed_ticks = 0, fd_table = replicate 8 0, pgdir = NULL,
     userprog_vaddr = \<lparr>vaddr_bitmap = \<lparr>btmp_bytes_len = 0, bits = []\<rparr>, vaddr_start = 0\<rparr>,
     cwd_inode_nr = 0, parent_pid = 0, stack_magic = 0, kont = KernelThread\<rparr>"

definition clear_task :: "'a memory_scheme \<Rightarrow> u32 \<Rightarrow> 'a memory_scheme" where
  "clear_task s pthread =
     (let s = clear_mem s pthread sizeof_task_struct
      in (upd_task s pthread (\<lambda>_. zero_task))\<lparr>block_descs :=
           (\<lambda>d. if d - pthread < sizeof_task_struct then \<lparr>block_size = 0, block_per_arena = 0\<rparr> else block_descs s d)\<rparr>)"

definition fresh_fds :: "i32 list" where
  "fresh_fds = [0, 1, 2] @ replicate 5 (-1)"

definition init_thread :: "'a memory_scheme \<Rightarrow> u32 \<Rightarrow> u8 list \<Rightarrow> u8 \<Rightarrow> 'a memory_scheme res" where
  "init_thread s pthread name prio =
     (if pthread = NULL then Inl WildPointer
      else
        let s = clear_task s pthread
        in rbind (allocate_pid s) (\<lambda>(p, s).
           rbind (strcpy (Some (task_name (tasks s pthread))) (Some name)) (\<lambda>nm.
             Inr (upd_task s pthread (\<lambda>t. t\<lparr>pid := p, task_name := nm,
               status := (if pthread = main_thread s then TASK_RUNNING else TASK_READY),
               priority := prio, ticks := prio, elapsed_ticks := 0, pgdir := NULL,
               self_kstack := pthread + PG_SIZE, stack_magic := 0x19870916, cwd_inode_nr := 0,
               parent_pid := -1, fd_table := fresh_fds\<rparr>)))))"

text \<open>Entering a thread into one of the two global lists; being in it already is a failed assertion.\<close>

definition enlist :: "'a lheap_scheme \<Rightarrow> u32 \<Rightarrow> u32 \<Rightarrow> 'a lheap_scheme res" where
  "enlist s l e = rbind (elem_find s l e) (\<lambda>found. if found then Inl Panic else Inr (list_append s l e))"

definition thread_start :: "'a proc_scheme \<Rightarrow> u8 list \<Rightarrow> u8 \<Rightarrow> u32 \<Rightarrow> u32 \<Rightarrow> (u32 \<times> 'a proc_scheme) res" where
  "thread_start s name prio function func_arg =
     rbind (get_kernel_pages s 1) (\<lambda>(thread, s).
     rbind (init_thread s thread name prio) (\<lambda>s.
       let s = thread_create s thread function func_arg
       in rbind (enlist s thread_ready_list (general_tag thread)) (\<lambda>s.
          rbind (enlist s thread_all_list (all_list_tag thread)) (\<lambda>s. Inr (thread, s)))))"

definition make_main_thread :: "'a memory_scheme \<Rightarrow> 'a memory_scheme res" where
  "make_main_thread s =
     (let s = s\<lparr>main_thread := cur s\<rparr>
      in rbind (init_thread s (main_thread s) (ctext ''main'') 31) (\<lambda>s.
           enlist s thread_all_list (all_list_tag (main_thread s))))"

text \<open>One round of the loop of \<open>idle\<close>: block, and when woken enable interrupts and halt.\<close>

definition idle_round :: "'a sched_scheme \<Rightarrow> 'a sched_scheme res" where
  "idle_round s = thread_block s TASK_BLOCKED"

definition idle_halt :: "'a sched_scheme \<Rightarrow> 'a sched_scheme" where
  "idle_halt s = sti s"

section \<open>Processes\<close>

definition kernel_tables :: "u32 \<Rightarrow> bool" where
  "kernel_tables a \<longleftrightarrow> 0xfff00000 \<le> a \<and> a < 0xfffff000"

definition in_kernel :: "u32 \<Rightarrow> bool" where
  "in_kernel a \<longleftrightarrow> 0xc0000000 \<le> a"

definition save_space :: "'a proc_scheme \<Rightarrow> space" where
  "save_space s = \<lparr>sp_ptw = ptw s, sp_nxt = nxt s, sp_prv = prv s, sp_arenas = arenas s, sp_mem = mem s\<rparr>"

definition switch_space :: "'a proc_scheme \<Rightarrow> u32 \<Rightarrow> 'a proc_scheme" where
  "switch_space s p_thread =
     (let old = cr3 s; s = page_dir_activate s p_thread; new = spaces s (cr3 s)
      in if cr3 s = old then s
         else s\<lparr>spaces := (spaces s)(old := save_space s),
           ptw := (\<lambda>a. if kernel_tables a then ptw s a else sp_ptw new a),
           nxt := (\<lambda>a. if in_kernel a then nxt s a else sp_nxt new a),
           prv := (\<lambda>a. if in_kernel a then prv s a else sp_prv new a),
           arenas := (\<lambda>a. if in_kernel a then arenas s a else sp_arenas new a),
           mem := (\<lambda>a. if in_kernel a then mem s a else sp_mem new a)\<rparr>)"

text \<open>
  \<open>create_page_dir\<close>: the new page is a directory whose lower part is empty, whose entries 768 to
  1022 are those of the current one and whose last entry points to itself.
\<close>

definition new_space :: "(u32 \<Rightarrow> u32) \<Rightarrow> u32 \<Rightarrow> space" where
  "new_space w dir =
     \<lparr>sp_ptw = (\<lambda>a. if a = 0xfffffffc then dir OR PG_US_U OR PG_RW_W OR PG_P_1
                     else if 0xfffff000 + 0x300 * 4 \<le> a \<or> kernel_tables a then w a else 0),
      sp_nxt = (\<lambda>_. 0), sp_prv = (\<lambda>_. 0), sp_arenas = (\<lambda>_. zero_arena), sp_mem = (\<lambda>_. 0)\<rparr>"

definition create_page_dir :: "'a proc_scheme \<Rightarrow> (u32 \<times> 'a proc_scheme) res" where
  "create_page_dir s =
     rbind (get_kernel_pages s 1) (\<lambda>(page_dir_vaddr, s).
       if page_dir_vaddr = NULL then Inr (NULL, s)
       else
         let new_page_dir_phy_addr = addr_v2p s page_dir_vaddr
         in Inr (page_dir_vaddr, s\<lparr>spaces := (spaces s)(new_page_dir_phy_addr := new_space (ptw s) new_page_dir_phy_addr)\<rparr>))"

definition user_bitmap_len :: u32 where
  "user_bitmap_len = (0xc0000000 - USER_VADDR_START) div PG_SIZE div 8"

definition bitmap_pg_cnt :: u32 where
  "bitmap_pg_cnt = DIV_ROUND_UP user_bitmap_len PG_SIZE"

definition create_user_vaddr_bitmap :: "'a memory_scheme \<Rightarrow> u32 \<Rightarrow> 'a memory_scheme res" where
  "create_user_vaddr_bitmap s user_prog =
     rbind (get_kernel_pages s bitmap_pg_cnt) (\<lambda>(p, s).
       if p = NULL then Inl WildPointer
       else rbind (bitmap_init \<lparr>btmp_bytes_len = user_bitmap_len, bits = replicate (unat (bitmap_pg_cnt * PG_SIZE)) 0\<rparr>) (\<lambda>b.
         Inr (upd_task s user_prog (\<lambda>t. t\<lparr>userprog_vaddr := \<lparr>vaddr_bitmap = b, vaddr_start = USER_VADDR_START\<rparr>\<rparr>))))"

definition process_execute :: "'a proc_scheme \<Rightarrow> u32 \<Rightarrow> u8 list \<Rightarrow> 'a proc_scheme res" where
  "process_execute s filename name =
     rbind (get_kernel_pages s 1) (\<lambda>(thread, s).
     rbind (init_thread s thread name default_prio) (\<lambda>s.
     rbind (create_user_vaddr_bitmap s thread) (\<lambda>s.
     rbind (create_page_dir (thread_create s thread START_PROCESS filename)) (\<lambda>(dir, s).
       let s = upd_task s thread (\<lambda>t. t\<lparr>pgdir := dir\<rparr>);
           s = block_desc_init s (u_block_desc thread);
           (old_status, s) = intr_disable s
       in rbind (enlist s thread_ready_list (general_tag thread)) (\<lambda>s.
          rbind (enlist s thread_all_list (all_list_tag thread)) (\<lambda>s.
            Inr (snd (intr_set_status s old_status))))))))"

text \<open>The frame from which \<open>intr_exit\<close> enters the program; \<open>start_process\<close> jumps there.\<close>

definition start_process :: "'a proc_scheme \<Rightarrow> u32 \<Rightarrow> (u32 \<times> 'a proc_scheme) res" where
  "start_process s filename =
     (let c = cur s;
          s = upd_task s c (\<lambda>t. t\<lparr>self_kstack := self_kstack t + 4 * sizeof_thread_stack\<rparr>);
          proc_stack = self_kstack (tasks s c)
      in rbind (get_a_page s PF_USER USER_STACK3_VADDR) (\<lambda>(v, s).
           Inr (proc_stack, s\<lparr>intr_stacks := (intr_stacks s)(proc_stack :=
             \<lparr>is_regs = [0, 0, 0, 0, 0], is_ebx = 0, is_ecx = 0, is_eax = 0, is_gs = 0, is_fs = SELECTOR_U_DATA,
              is_es = SELECTOR_U_DATA, is_ds = SELECTOR_U_DATA, is_eip = filename, is_cs = SELECTOR_U_CODE,
              is_eflags = push_bit 12 0 OR push_bit 1 1 OR push_bit 9 1, is_esp = v + PG_SIZE, is_ss = SELECTOR_U_DATA\<rparr>)\<rparr>)))"

text \<open>\<open>thread_init\<close> runs on the stack of the thread that it makes the main thread in the end.\<close>

definition thread_init :: "'a proc_scheme \<Rightarrow> 'a proc_scheme res" where
  "thread_init s =
     (let s = list_init s thread_ready_list;
          s = list_init s thread_all_list;
          s = lock_init s pid_lock
      in rbind (process_execute s INIT (ctext ''init'')) (\<lambda>s.
         rbind (make_main_thread s) (\<lambda>s.
         rbind (thread_start s (ctext ''idle'') 10 IDLE NULL) (\<lambda>(t, s). Inr (s\<lparr>idle_thread := t\<rparr>)))))"

section \<open>Listing the tasks\<close>

text \<open>\<open>pad_print\<close> returns what it writes: \<open>buf_len - 1\<close> bytes.\<close>

definition pad_print :: "u32 \<Rightarrow> u8 list \<Rightarrow> va list \<Rightarrow> u8 list res" where
  "pad_print buf_len fmt args =
     rbind (sprintf (replicate (unat buf_len) 0) fmt args) (\<lambda>(n, buf).
       let out_pad_0idx = unat (ucast n :: u8)
       in Inr (take (unat buf_len - 1) (take out_pad_0idx buf @ replicate (unat buf_len - out_pad_0idx) 32)))"

definition status_name :: "task_status \<Rightarrow> u8 list" where
  "status_name w =
     (case w of TASK_RUNNING \<Rightarrow> ctext ''RUNNING'' | TASK_READY \<Rightarrow> ctext ''READY'' | TASK_BLOCKED \<Rightarrow> ctext ''BLOCKED''
      | TASK_WAITING \<Rightarrow> ctext ''WAITING'' | TASK_HANGING \<Rightarrow> ctext ''HANGING'' | TASK_DIED \<Rightarrow> ctext ''DIED'')"

text \<open>A signed 16-bit number passed to \<open>%d\<close>.\<close>

definition va_i16 :: "u16 \<Rightarrow> va" where
  "va_i16 w = VaInt (scast w)"

definition task_line :: "task_struct \<Rightarrow> u8 list res" where
  "task_line t =
     rbind (pad_print 16 (ctext ''%d'') [va_i16 (pid t)]) (\<lambda>a.
     rbind (if parent_pid t = -1 then pad_print 16 (ctext ''%s'') [VaStr (ctext ''NULL'')]
            else pad_print 16 (ctext ''%d'') [va_i16 (parent_pid t)]) (\<lambda>b.
     rbind (pad_print 16 (ctext ''%s'') [VaStr (status_name (status t))]) (\<lambda>c.
     rbind (pad_print 16 (ctext ''%x'') [VaInt (elapsed_ticks t)]) (\<lambda>d.
     rbind (strlen (Some (task_name t))) (\<lambda>n.
       if \<not> n < 17 then Inl Panic
       else rbind (memcpy (Some (replicate 16 0)) (Some (task_name t)) n) (\<lambda>out_pad.
         rbind (strcat (Some out_pad) (Some (ctext NL))) (\<lambda>out_pad.
           Inr (a @ b @ c @ d @ cstr out_pad))))))))"

definition elem2thread_info :: "'a sched_scheme \<Rightarrow> u8 list res \<Rightarrow> u32 \<Rightarrow> i32 \<Rightarrow> bool \<times> u8 list res" where
  "elem2thread_info s out pelem arg =
     (False, rbind out (\<lambda>out. rbind (task_line (tasks s (pelem - 76))) (\<lambda>l. Inr (out @ l))))"

definition ps_title :: string where
  "ps_title = ''PID             PPID            STAT             TICKS            COMMAND'' @ NL"

definition sys_ps :: "'a sched_scheme \<Rightarrow> u8 list res" where
  "sys_ps s =
     rbind (list_traversal s thread_all_list (elem2thread_info s) 0 (Inr (cstr (ctext ps_title)))) (\<lambda>(_, out). out)"

section \<open>Descriptors for user mode\<close>

record gdt_desc =
  limit_low_word :: u16
  base_low_word :: u16
  base_mid_byte :: u8
  attr_low_byte :: u8
  limit_high_attr_high :: u8
  base_high_byte :: u8

definition make_gdt_desc :: "u32 \<Rightarrow> u32 \<Rightarrow> u8 \<Rightarrow> u8 \<Rightarrow> gdt_desc" where
  "make_gdt_desc desc_base limit attr_low attr_high =
     \<lparr>limit_low_word = ucast (limit AND 0x0000ffff), base_low_word = ucast (desc_base AND 0x0000ffff),
      base_mid_byte = ucast (drop_bit 16 (desc_base AND 0x00ff0000)), attr_low_byte = attr_low,
      limit_high_attr_high = ucast (drop_bit 16 (limit AND 0x000f0000) + ucast attr_high),
      base_high_byte = ucast (drop_bit 24 desc_base)\<rparr>"

definition TSS_SIZE :: u32 where
  "TSS_SIZE = 108"

definition DESC_G_4K :: "'a::len word" where
  "DESC_G_4K = 1"

definition DESC_D_32 :: "'a::len word" where
  "DESC_D_32 = 1"

definition DESC_L :: "'a::len word" where
  "DESC_L = 0"

definition DESC_AVL :: "'a::len word" where
  "DESC_AVL = 0"

definition DESC_P :: "'a::len word" where
  "DESC_P = 1"

definition DESC_DPL_0 :: "'a::len word" where
  "DESC_DPL_0 = 0"

definition DESC_DPL_3 :: "'a::len word" where
  "DESC_DPL_3 = 3"

definition DESC_S_CODE :: "'a::len word" where
  "DESC_S_CODE = 1"

definition DESC_S_DATA :: "'a::len word" where
  "DESC_S_DATA = DESC_S_CODE"

definition DESC_S_SYS :: "'a::len word" where
  "DESC_S_SYS = 0"

definition DESC_TYPE_CODE :: "'a::len word" where
  "DESC_TYPE_CODE = 8"

definition DESC_TYPE_DATA :: "'a::len word" where
  "DESC_TYPE_DATA = 2"

definition DESC_TYPE_TSS :: "'a::len word" where
  "DESC_TYPE_TSS = 9"

definition TSS_DESC_D :: "'a::len word" where
  "TSS_DESC_D = 0"

lemmas gdt_macros = idt_macros DESC_G_4K_def DESC_D_32_def DESC_L_def DESC_AVL_def DESC_P_def DESC_DPL_0_def DESC_DPL_3_def DESC_S_CODE_def
  DESC_S_DATA_def DESC_S_SYS_def DESC_TYPE_CODE_def DESC_TYPE_DATA_def DESC_TYPE_TSS_def TSS_DESC_D_def

definition TSS_ATTR_HIGH :: u8 where
  "TSS_ATTR_HIGH = push_bit 7 DESC_G_4K + push_bit 6 TSS_DESC_D + push_bit 5 DESC_L + push_bit 4 DESC_AVL + 0"

definition TSS_ATTR_LOW :: u8 where
  "TSS_ATTR_LOW = push_bit 7 DESC_P + push_bit 5 DESC_DPL_0 + push_bit 4 DESC_S_SYS + DESC_TYPE_TSS"

definition GDT_ATTR_HIGH :: u8 where
  "GDT_ATTR_HIGH = push_bit 7 DESC_G_4K + push_bit 6 DESC_D_32 + push_bit 5 DESC_L + push_bit 4 DESC_AVL"

definition GDT_CODE_ATTR_LOW_DPL3 :: u8 where
  "GDT_CODE_ATTR_LOW_DPL3 = push_bit 7 DESC_P + push_bit 5 DESC_DPL_3 + push_bit 4 DESC_S_CODE + DESC_TYPE_CODE"

definition GDT_DATA_ATTR_LOW_DPL3 :: u8 where
  "GDT_DATA_ATTR_LOW_DPL3 = push_bit 7 DESC_P + push_bit 5 DESC_DPL_3 + push_bit 4 DESC_S_DATA + DESC_TYPE_DATA"

definition SELECTOR_K_DATA :: u32 where
  "SELECTOR_K_DATA = push_bit 3 2 + push_bit 2 TI_GDT + RPL0"

definition SELECTOR_K_STACK :: u32 where
  "SELECTOR_K_STACK = SELECTOR_K_DATA"

definition SELECTOR_TSS :: u16 where
  "SELECTOR_TSS = push_bit 3 4 + push_bit 2 TI_GDT + RPL0"

text \<open>
  \<open>tss_init\<close>: the task state segment at the address \<open>addr\<close>, and the descriptors 4 to 6 of the table at
  \<open>0xc0000900\<close>.  The operands of \<open>lgdt\<close> and \<open>ltr\<close> are \<open>gdt_operand\<close> and \<open>SELECTOR_TSS\<close>.  The one field that
  is set later, the stack pointer of level 0, is the component \<open>esp0\<close> of the scheduler's state.
\<close>

record tss =
  tss_backlink :: u32
  tss_esp0 :: u32
  tss_ss0 :: u32
  tss_esp1 :: u32
  tss_ss1 :: u32
  tss_esp2 :: u32
  tss_ss2 :: u32
  tss_cr3 :: u32
  tss_eip :: u32
  tss_eflags :: u32
  tss_eax :: u32
  tss_ecx :: u32
  tss_edx :: u32
  tss_ebx :: u32
  tss_esp :: u32
  tss_ebp :: u32
  tss_esi :: u32
  tss_edi :: u32
  tss_es :: u32
  tss_cs :: u32
  tss_ss :: u32
  tss_ds :: u32
  tss_fs :: u32
  tss_gs :: u32
  tss_ldt :: u32
  tss_trace :: u32
  tss_io_base :: u32

definition zero_tss :: tss where
  "zero_tss =
     \<lparr>tss_backlink = 0, tss_esp0 = 0, tss_ss0 = 0, tss_esp1 = 0, tss_ss1 = 0, tss_esp2 = 0,
       tss_ss2 = 0, tss_cr3 = 0, tss_eip = 0, tss_eflags = 0, tss_eax = 0, tss_ecx = 0,
       tss_edx = 0, tss_ebx = 0, tss_esp = 0, tss_ebp = 0, tss_esi = 0, tss_edi = 0,
       tss_es = 0, tss_cs = 0, tss_ss = 0, tss_ds = 0, tss_fs = 0, tss_gs = 0,
       tss_ldt = 0, tss_trace = 0, tss_io_base = 0\<rparr>"

definition tss_init :: "gdt_desc list \<Rightarrow> u32 \<Rightarrow> tss \<times> gdt_desc list" where
  "tss_init gdt addr =
     (zero_tss\<lparr>tss_ss0 := SELECTOR_K_STACK, tss_io_base := TSS_SIZE\<rparr>,
      gdt[4 := make_gdt_desc addr (TSS_SIZE - 1) TSS_ATTR_LOW TSS_ATTR_HIGH,
          5 := make_gdt_desc 0 0xfffff GDT_CODE_ATTR_LOW_DPL3 GDT_ATTR_HIGH,
          6 := make_gdt_desc 0 0xfffff GDT_DATA_ATTR_LOW_DPL3 GDT_ATTR_HIGH])"

definition gdt_operand :: "64 word" where
  "gdt_operand = (8 * 7 - 1) OR push_bit 16 (ucast (0xc0000900 :: u32))"

text \<open>What the processor reads out of a descriptor.\<close>

definition gdt_base :: "gdt_desc \<Rightarrow> u32" where
  "gdt_base d = ucast (base_low_word d) OR push_bit 16 (ucast (base_mid_byte d)) OR push_bit 24 (ucast (base_high_byte d))"

definition gdt_limit :: "gdt_desc \<Rightarrow> u32" where
  "gdt_limit d = ucast (limit_low_word d) OR push_bit 16 (ucast (limit_high_attr_high d AND 0xf))"

text \<open>
  A segment as the processor sees it: its base, the last offset in it (the limit counts pages of
  4096 bytes when the granularity bit is set), the type field, whether it is a code or data segment
  (or else a system segment), its privilege level, and the bits for present, 32-bit and 64-bit.
\<close>

record segment =
  seg_base :: u32
  seg_last :: nat
  seg_type :: nat
  seg_code_data :: bool
  seg_dpl :: nat
  seg_present :: bool
  seg_big :: bool
  seg_long :: bool

definition gdt_segment :: "gdt_desc \<Rightarrow> segment" where
  "gdt_segment d =
     \<lparr>seg_base = gdt_base d,
      seg_last = (if bit (limit_high_attr_high d) 7 then 4096 * unat (gdt_limit d) + 4095 else unat (gdt_limit d)),
      seg_type = unat (attr_low_byte d AND 0xf), seg_code_data = bit (attr_low_byte d) 4,
      seg_dpl = unat (drop_bit 5 (attr_low_byte d) AND 3), seg_present = bit (attr_low_byte d) 7,
      seg_big = bit (limit_high_attr_high d) 6, seg_long = bit (limit_high_attr_high d) 5\<rparr>"

text \<open>
  The processor's task state segment has 104 bytes; its last word, at offset 102, is the offset of the
  map of I/O permissions.  In the structure that word is the upper half of \<open>trace\<close>.
\<close>

definition io_map_offset :: "tss \<Rightarrow> u32" where
  "io_map_offset t = drop_bit 16 (tss_trace t)"

declare bit_numeral_word_iff [simp del]

lemma bit_low_words:
  "bit (0x0000ffff :: u32) n \<longleftrightarrow> n < 16" "bit (0x00ff0000 :: u32) n \<longleftrightarrow> 16 \<le> n \<and> n < 24"
  "bit (0x000f0000 :: u32) n \<longleftrightarrow> 16 \<le> n \<and> n < 20" "bit (0xf :: u8) n \<longleftrightarrow> n < 4" "bit (0xf0 :: u8) n \<longleftrightarrow> 4 \<le> n \<and> n < 8"
proof -
  have "(0x0000ffff :: u32) = mask 16" "(0x00ff0000 :: u32) = push_bit 16 (mask 8)" "(0x000f0000 :: u32) = push_bit 16 (mask 4)"
    "(0xf :: u8) = mask 4" "(0xf0 :: u8) = push_bit 4 (mask 4)"
    by (simp_all add: mask_eq_exp_minus_1)
  then show "bit (0x0000ffff :: u32) n \<longleftrightarrow> n < 16" "bit (0x00ff0000 :: u32) n \<longleftrightarrow> 16 \<le> n \<and> n < 24"
    "bit (0x000f0000 :: u32) n \<longleftrightarrow> 16 \<le> n \<and> n < 20" "bit (0xf :: u8) n \<longleftrightarrow> n < 4" "bit (0xf0 :: u8) n \<longleftrightarrow> 4 \<le> n \<and> n < 8"
    by (simp_all only: bit_push_bit_iff bit_mask_iff) auto
qed

lemma gdt_desc_base: "gdt_base (make_gdt_desc base limit attr_low attr_high) = base"
proof (rule bit_word_eqI)
  fix n assume "n < LENGTH(32)"
  then consider "n < 16" | "16 \<le> n" "n < 24" | "24 \<le> n" "n < 32" by fastforce
  then show "bit (gdt_base (make_gdt_desc base limit attr_low attr_high)) n = bit base n"
    by cases (auto simp: gdt_base_def make_gdt_desc_def bit_low_words bit_or_iff bit_push_bit_iff bit_unsigned_iff bit_drop_bit_eq
        bit_and_iff simp del: drop_bit_and)
qed

lemma gdt_high_byte:
  assumes "attr_high AND 0xf = (0 :: u8)"
  shows "bit (limit_high_attr_high (make_gdt_desc base limit attr_low attr_high)) n \<longleftrightarrow>
    n < 4 \<and> bit limit (n + 16) \<or> bit attr_high n"
proof -
  have low: "\<not> bit attr_high k" if "k < 4" for k
  proof -
    have "\<not> bit (attr_high AND 0xf) k" using assms by simp
    then show ?thesis using that by (simp add: bit_and_iff bit_low_words)
  qed
  have "drop_bit 16 (limit AND 0x000f0000) AND ucast attr_high = (0 :: u32)"
    by (rule bit_word_eqI)
      (use low in \<open>auto simp: bit_and_iff bit_drop_bit_eq bit_low_words bit_unsigned_iff simp del: drop_bit_and\<close>)
  then have "drop_bit 16 (limit AND 0x000f0000) + ucast attr_high = drop_bit 16 (limit AND 0x000f0000) OR (ucast attr_high :: u32)"
    by (rule disjunctive_add_eq_or)
  then show ?thesis
    using bit_imp_le_length [of attr_high n]
    by (auto simp: make_gdt_desc_def bit_unsigned_iff bit_or_iff bit_drop_bit_eq bit_and_iff bit_low_words add.commute simp del: drop_bit_and)
qed

lemma limit_low_make: "limit_low_word (make_gdt_desc base limit attr_low attr_high) = ucast (limit AND 0x0000ffff)"
  by (simp add: make_gdt_desc_def)

lemma gdt_desc_limit:
  assumes "limit AND 0xfff00000 = 0" and "attr_high AND 0xf = 0"
  shows "gdt_limit (make_gdt_desc base limit attr_low attr_high) = limit"
    and "limit_high_attr_high (make_gdt_desc base limit attr_low attr_high) AND 0xf0 = attr_high"
proof -
  have low: "\<not> bit attr_high k" if "k < 4" for k
  proof -
    have "\<not> bit (attr_high AND 0xf) k" using assms(2) by simp
    then show ?thesis using that by (simp add: bit_and_iff bit_low_words)
  qed
  have m: "bit (0xfff00000 :: u32) k \<longleftrightarrow> 20 \<le> k \<and> k < 32" for k
  proof -
    have "(0xfff00000 :: u32) = push_bit 20 (mask 12)" by (simp add: mask_eq_exp_minus_1)
    then show ?thesis by (simp only: bit_push_bit_iff bit_mask_iff) auto
  qed
  have high: "\<not> bit limit k" if "20 \<le> k" for k
  proof -
    have "\<not> bit (limit AND 0xfff00000) k" using assms(1) by simp
    then show ?thesis using that bit_imp_le_length [of limit k] m by (auto simp: bit_and_iff)
  qed
  show "gdt_limit (make_gdt_desc base limit attr_low attr_high) = limit"
  proof (rule bit_word_eqI)
    fix n assume "n < LENGTH(32)"
    then consider "n < 16" | "16 \<le> n" "n < 20" | "20 \<le> n" "n < 32" by fastforce
    then show "bit (gdt_limit (make_gdt_desc base limit attr_low attr_high)) n = bit limit n"
      by cases (auto simp: gdt_limit_def limit_low_make bit_low_words bit_or_iff bit_push_bit_iff bit_unsigned_iff
          bit_and_iff gdt_high_byte [OF assms(2)] low high simp del: drop_bit_and)
  qed
  show "limit_high_attr_high (make_gdt_desc base limit attr_low attr_high) AND 0xf0 = attr_high"
  proof (rule bit_word_eqI)
    fix n assume "n < LENGTH(8)"
    then show "bit (limit_high_attr_high (make_gdt_desc base limit attr_low attr_high) AND 0xf0) n = bit attr_high n"
      using low [of n] by (cases "n < 4") (auto simp: bit_and_iff bit_low_words gdt_high_byte [OF assms(2)])
  qed
qed

lemma gdt_segment_make:
  assumes "limit AND 0xfff00000 = 0" and "attr_high AND 0xf = 0"
  shows "gdt_segment (make_gdt_desc base limit attr_low attr_high) =
    \<lparr>seg_base = base, seg_last = (if bit attr_high 7 then 4096 * unat limit + 4095 else unat limit),
     seg_type = unat (attr_low AND 0xf), seg_code_data = bit attr_low 4,
     seg_dpl = unat (drop_bit 5 attr_low AND 3), seg_present = bit attr_low 7,
     seg_big = bit attr_high 6, seg_long = bit attr_high 5\<rparr>"
proof -
  have "attr_low_byte (make_gdt_desc base limit attr_low attr_high) = attr_low" by (simp add: make_gdt_desc_def)
  then show ?thesis
    by (simp add: gdt_segment_def gdt_desc_base gdt_desc_limit(1) [OF assms] gdt_high_byte [OF assms(2)])
qed

lemma segment_attributes:
  "TSS_ATTR_LOW = 0x89" "TSS_ATTR_HIGH = 0x80" "GDT_CODE_ATTR_LOW_DPL3 = 0xf8"
  "GDT_DATA_ATTR_LOW_DPL3 = 0xf2" "GDT_ATTR_HIGH = 0xc0"
  by (simp_all add: TSS_ATTR_LOW_def TSS_ATTR_HIGH_def GDT_CODE_ATTR_LOW_DPL3_def GDT_DATA_ATTR_LOW_DPL3_def
      GDT_ATTR_HIGH_def gdt_macros)

lemma user_selectors:
  "SELECTOR_U_CODE = 0x2b" "SELECTOR_U_DATA = 0x33" "SELECTOR_TSS = 0x20" "SELECTOR_K_STACK = 0x10"
  by (simp_all add: SELECTOR_TSS_def SELECTOR_U_CODE_def SELECTOR_U_DATA_def SELECTOR_K_STACK_def SELECTOR_K_DATA_def
      gdt_macros)

text \<open>
  C29: segment descriptors.  For every base, every 20-bit limit and all attributes, the processor
  reads from the descriptor that \<open>make_gdt_desc\<close> packs this base, this limit (in pages when the
  granularity bit is given), and this type, class, privilege level and mode.  \<open>tss_init\<close> thus gives
  user mode two present 32-bit segments of privilege level 3, the level of their selectors, that
  both span the whole of memory from 0 on, one for code (execute only) and one for data (writable);
  and it installs an available 32-bit task state segment of level 0 at its address, behind the
  selector that is loaded, with the kernel's data segment as the stack of level 0.  The other
  descriptors stay.  That segment is not meant as it comes out: with the granularity bit its
  108 bytes are a limit of 108 pages, and the word in which the processor looks for the map of I/O
  permissions is 0, so there is one, although the comment says that there is none.
\<close>

theorem tss_init_descriptors:
  assumes "limit AND 0xfff00000 = 0" and "attr_high AND 0xf = 0" and "length gdt = 7"
  shows "gdt_segment (make_gdt_desc base limit attr_low attr_high) =
      \<lparr>seg_base = base, seg_last = (if bit attr_high 7 then 4096 * unat limit + 4095 else unat limit),
       seg_type = unat (attr_low AND 0xf), seg_code_data = bit attr_low 4,
       seg_dpl = unat (drop_bit 5 attr_low AND 3), seg_present = bit attr_low 7,
       seg_big = bit attr_high 6, seg_long = bit attr_high 5\<rparr> \<and>
    (case tss_init gdt addr of (t, gdt') \<Rightarrow>
       gdt_segment (gdt' ! unat (drop_bit 3 SELECTOR_TSS)) =
         \<lparr>seg_base = addr, seg_last = 4096 * 108 - 1, seg_type = 9, seg_code_data = False, seg_dpl = 0,
          seg_present = True, seg_big = False, seg_long = False\<rparr> \<and>
       gdt_segment (gdt' ! unat (drop_bit 3 SELECTOR_U_CODE)) =
         \<lparr>seg_base = 0, seg_last = 2 ^ 32 - 1, seg_type = 8, seg_code_data = True, seg_dpl = 3,
          seg_present = True, seg_big = True, seg_long = False\<rparr> \<and>
       gdt_segment (gdt' ! unat (drop_bit 3 SELECTOR_U_DATA)) =
         \<lparr>seg_base = 0, seg_last = 2 ^ 32 - 1, seg_type = 2, seg_code_data = True, seg_dpl = 3,
          seg_present = True, seg_big = True, seg_long = False\<rparr> \<and>
       SELECTOR_U_CODE AND 7 = 3 \<and> SELECTOR_U_DATA AND 7 = 3 \<and> SELECTOR_TSS AND 7 = 0 \<and>
       tss_ss0 t = 0x10 \<and> tss_io_base t = 108 \<and>
       io_map_offset t = 0 \<and> unat (io_map_offset t) < seg_last (gdt_segment (gdt' ! unat (drop_bit 3 SELECTOR_TSS))) \<and>
       length gdt' = 7 \<and> (\<forall>i < 4. gdt' ! i = gdt ! i))"
proof -
  have bits: "bit (0x89 :: u8) 7" "\<not> bit (0x89 :: u8) 4" "bit (0x80 :: u8) 7" "\<not> bit (0x80 :: u8) 6" "\<not> bit (0x80 :: u8) 5"
    "bit (0xf8 :: u8) 4" "bit (0xf8 :: u8) 7" "bit (0xf2 :: u8) 4" "bit (0xf2 :: u8) 7"
    "bit (0xc0 :: u8) 7" "bit (0xc0 :: u8) 6" "\<not> bit (0xc0 :: u8) 5"
    by (simp_all add: bit_numeral_word_iff)
  show ?thesis
    using gdt_segment_make [OF assms(1,2), of base attr_low] assms(3)
    by (simp add: tss_init_def gdt_segment_make segment_attributes user_selectors bits TSS_SIZE_def io_map_offset_def zero_tss_def)
qed

theorem tss_init_descriptors_witness:
  "seg_base (gdt_segment (make_gdt_desc 0xc0016000 0x6b 0x89 0x80)) = 0xc0016000 \<and>
   seg_last (gdt_segment (make_gdt_desc 0xc0016000 0x6b 0x89 0)) = 107 \<and>
   seg_dpl (gdt_segment (snd (tss_init (replicate 7 (make_gdt_desc 0 0 0 0)) 0xc0016000) ! 5)) = 3"
  using tss_init_descriptors [of "0x6b" "0x80" "replicate 7 (make_gdt_desc 0 0 0 0)" "0xc0016000" "0x89" "0xc0016000"]
    tss_init_descriptors [of "0x6b" 0 "replicate 7 (make_gdt_desc 0 0 0 0)" "0xc0016000" "0x89" "0xc0016000"]
  by (simp add: case_prod_beta user_selectors)

end
