(* ===== verification/Fork.thy ===== *)
theory Fork
  imports Process File
begin

text \<open>
  Duplicating a process: \<open>userprog/fork.c\<close>.

  The operations work on the kernel's state \<open>s\<close> and, for the open files, on the file system's
  state \<open>f\<close>.  Copying memory copies the bytes, the arena headers and the links in it.  Touching
  a page that is not mapped is a page fault, \<open>WildPointer\<close>.  The messages for the console are
  left out.
\<close>

definition copy_mem :: "'a memory_scheme \<Rightarrow> u32 \<Rightarrow> u32 \<Rightarrow> u32 \<Rightarrow> 'a memory_scheme" where
  "copy_mem s dst src n =
     s\<lparr>nxt := (\<lambda>x. if x - dst < n then nxt s (x - dst + src) else nxt s x),
       prv := (\<lambda>x. if x - dst < n then prv s (x - dst + src) else prv s x),
       arenas := (\<lambda>x. if x - dst < n then arenas s (x - dst + src) else arenas s x),
       mem := (\<lambda>x. if x - dst < n then mem s (x - dst + src) else mem s x)\<rparr>"

text \<open>A copy of the whole page of a task: its structure and the frames on its kernel stack.\<close>

definition copy_task_page :: "'a proc_scheme \<Rightarrow> u32 \<Rightarrow> u32 \<Rightarrow> 'a proc_scheme" where
  "copy_task_page s child parent =
     (let s = upd_task (copy_mem s child parent PG_SIZE) child (\<lambda>_. tasks s parent)
      in s\<lparr>block_descs := (\<lambda>x. if x - child < PG_SIZE then block_descs s (x - child + parent) else block_descs s x),
           thread_stacks := (\<lambda>x. if x - child < PG_SIZE then thread_stacks s (x - child + parent) else thread_stacks s x),
           intr_stacks := (\<lambda>x. if x - child < PG_SIZE then intr_stacks s (x - child + parent) else intr_stacks s x)\<rparr>)"

definition unlink_task :: "'a lheap_scheme \<Rightarrow> u32 \<Rightarrow> 'a lheap_scheme" where
  "unlink_task s t =
     (let s = set_nxt (set_prv s (general_tag t) NULL) (general_tag t) NULL
      in set_nxt (set_prv s (all_list_tag t) NULL) (all_list_tag t) NULL)"

definition copy_pcb_vaddrbitmap_stack0 :: "'a proc_scheme \<Rightarrow> u32 \<Rightarrow> u32 \<Rightarrow> 'a proc_scheme res" where
  "copy_pcb_vaddrbitmap_stack0 s child parent =
     rbind (allocate_pid (copy_task_page s child parent)) (\<lambda>(p, s).
       let s = upd_task s child (\<lambda>t. t\<lparr>pid := p, elapsed_ticks := 0, status := TASK_READY, ticks := priority t,
                 parent_pid := pid (tasks s parent)\<rparr>);
           s = block_desc_init (unlink_task s child) (u_block_desc child)
       in rbind (get_kernel_pages s bitmap_pg_cnt) (\<lambda>(vaddr_btmp, s).
            if vaddr_btmp = NULL then Inl WildPointer
            else
              let n = bitmap_pg_cnt * PG_SIZE; b = vaddr_bitmap (userprog_vaddr (tasks s child))
              in rbind (memcpy (Some (replicate (unat n) 0)) (Some (bits b)) n) (\<lambda>bs.
                 let s = upd_task s child (\<lambda>t. t\<lparr>userprog_vaddr := (userprog_vaddr t)\<lparr>vaddr_bitmap := b\<lparr>bits := bs\<rparr>\<rparr>\<rparr>)
                 in rbind (strlen (Some (task_name (tasks s child)))) (\<lambda>l.
                    if \<not> l < 11 then Inl Panic
                    else rbind (strcat (Some (task_name (tasks s child))) (Some (ctext ''_fork''))) (\<lambda>nm.
                      Inr (upd_task s child (\<lambda>t. t\<lparr>task_name := nm\<rparr>)))))))"

section \<open>The user's memory\<close>

text \<open>One page: into the kernel's buffer, and from there into a fresh page of the child.\<close>

definition copy_user_page :: "'a proc_scheme \<Rightarrow> u32 \<Rightarrow> u32 \<Rightarrow> u32 \<Rightarrow> u32 \<Rightarrow> 'a proc_scheme res" where
  "copy_user_page s parent child buf_page prog_vaddr =
     (if \<not> mapped s prog_vaddr then Inl WildPointer
      else
        let s = copy_mem s buf_page prog_vaddr PG_SIZE;
            s = switch_space s child
        in rbind (get_a_page_without_opvaddrbitmap s PF_USER prog_vaddr) (\<lambda>(_, s).
             if \<not> mapped s prog_vaddr then Inl WildPointer
             else Inr (switch_space (copy_mem s prog_vaddr buf_page PG_SIZE) parent)))"

fun copy_bits :: "'a proc_scheme \<Rightarrow> u32 \<Rightarrow> u32 \<Rightarrow> u32 \<Rightarrow> u32 \<Rightarrow> u8 \<Rightarrow> u32 \<Rightarrow> nat \<Rightarrow> nat \<Rightarrow> 'a proc_scheme res" where
  "copy_bits s parent child buf_page start v idx_byte idx_bit 0 = Inr s"
| "copy_bits s parent child buf_page start v idx_byte idx_bit (Suc k) =
     rbind (if push_bit idx_bit BITMAP_MASK AND ucast v \<noteq> 0
            then copy_user_page s parent child buf_page ((idx_byte * 8 + of_nat idx_bit) * PG_SIZE + start)
            else Inr s)
       (\<lambda>s. copy_bits s parent child buf_page start v idx_byte (Suc idx_bit) k)"

fun copy_bytes :: "'a proc_scheme \<Rightarrow> u32 \<Rightarrow> u32 \<Rightarrow> u32 \<Rightarrow> u32 \<Rightarrow> u8 list \<Rightarrow> u32 \<Rightarrow> nat \<Rightarrow> 'a proc_scheme res" where
  "copy_bytes s parent child buf_page start vaddr_btmp idx_byte 0 = Inr s"
| "copy_bytes s parent child buf_page start vaddr_btmp idx_byte (Suc k) =
     rbind (ld vaddr_btmp idx_byte) (\<lambda>v.
     rbind (if v \<noteq> 0 then copy_bits s parent child buf_page start v idx_byte 0 8 else Inr s) (\<lambda>s.
       copy_bytes s parent child buf_page start vaddr_btmp (idx_byte + 1) k))"

definition copy_body_stack3 :: "'a proc_scheme \<Rightarrow> u32 \<Rightarrow> u32 \<Rightarrow> u32 \<Rightarrow> 'a proc_scheme res" where
  "copy_body_stack3 s parent child buf_page =
     (let va = userprog_vaddr (tasks s parent)
      in copy_bytes s parent child buf_page (vaddr_start va) (bits (vaddr_bitmap va)) 0
           (unat (btmp_bytes_len (vaddr_bitmap va))))"

section \<open>The child's stack and files\<close>

definition build_child_stack :: "'a proc_scheme \<Rightarrow> u32 \<Rightarrow> 'a proc_scheme" where
  "build_child_stack s child =
     (let i = intr_0_stack child; k = i - 5 * 4
      in (upd_task s child (\<lambda>t. t\<lparr>self_kstack := k, kont := InHandler\<rparr>))
           \<lparr>intr_stacks := (intr_stacks s)(i := (intr_stacks s i)\<lparr>is_eax := 0\<rparr>),
            thread_stacks := (thread_stacks s)(k := (thread_stacks s k)\<lparr>ts_eip := INTR_EXIT, ts_esi := 0, ts_edi := 0,
              ts_ebx := 0, ts_ebp := 0\<rparr>)\<rparr>)"

fun open_cnts_loop :: "'a fsys_scheme \<Rightarrow> i32 list \<Rightarrow> 'a fsys_scheme res" where
  "open_cnts_loop f [] = Inr f"
| "open_cnts_loop f (global_fd # fds) =
     (if \<not> sint global_fd < 32 then Inl Panic
      else if global_fd \<noteq> -1 then
        rbind (ld (file_table f) global_fd) (\<lambda>e.
        rbind (get_inode f (fd_inode e)) (\<lambda>i.
          open_cnts_loop (upd_inode f (fd_inode e) (\<lambda>i. i\<lparr>i_open_cnts := i_open_cnts i + 1\<rparr>)) fds))
      else open_cnts_loop f fds)"

definition updata_inode_open_cnts :: "'a fsys_scheme \<Rightarrow> task_struct \<Rightarrow> 'a fsys_scheme res" where
  "updata_inode_open_cnts f t = open_cnts_loop f (drop 3 (fd_table t))"

section \<open>The system call\<close>

definition copy_process ::
  "'a proc_scheme \<Rightarrow> 'b fsys_scheme \<Rightarrow> u32 \<Rightarrow> u32 \<Rightarrow> (i32 \<times> 'a proc_scheme \<times> 'b fsys_scheme) res" where
  "copy_process s f child parent =
     rbind (get_kernel_pages s 1) (\<lambda>(buf_page, s).
       if buf_page = NULL then Inr (-1, s, f)
       else
         rbind (copy_pcb_vaddrbitmap_stack0 s child parent) (\<lambda>s.
         rbind (create_page_dir s) (\<lambda>(dir, s).
           let s = upd_task s child (\<lambda>t. t\<lparr>pgdir := dir\<rparr>)
           in if dir = NULL then Inr (-1, s, f)
              else
                rbind (copy_body_stack3 s parent child buf_page) (\<lambda>s.
                let s = build_child_stack s child
                in rbind (updata_inode_open_cnts f (tasks s child)) (\<lambda>f.
                   rbind (mfree_page s PF_KERNEL buf_page 1) (\<lambda>s. Inr (0, s, f)))))))"

definition sys_fork ::
  "'a proc_scheme \<Rightarrow> 'b fsys_scheme \<Rightarrow> (u16 \<times> 'a proc_scheme \<times> 'b fsys_scheme) res" where
  "sys_fork s f =
     (let parent = cur s
      in rbind (get_kernel_pages s 1) (\<lambda>(child, s).
           if child = NULL then Inr (-1, s, f)
           else if \<not> (INTR_OFF = intr_get_status s \<and> pgdir (tasks s parent) \<noteq> NULL) then Inl Panic
           else
             rbind (copy_process s f child parent) (\<lambda>(ret, s, f).
               if ret = -1 then Inr (-1, s, f)
               else
                 rbind (enlist s thread_ready_list (general_tag child)) (\<lambda>s.
                 rbind (enlist s thread_all_list (all_list_tag child)) (\<lambda>s.
                   Inr (pid (tasks s child), s, f))))))"

end
