(* ===== verification/Pages.thy ===== *)
theory Pages
  imports Memory
begin

text \<open>
  What \<open>malloc_page\<close> and \<open>mfree_page\<close> of \<open>kernel/memory.c\<close> do to the kernel's address space.

  Page \<open>i\<close> of the kernel heap is \<open>kpage i\<close>; the bitmap \<open>kernel_vaddr\<close> has a bit for each.  The
  invariant \<open>kpages_ok\<close> says that a page whose bit is clear is not mapped and that mapped pages
  have different frames of the kernel pool, all in use.  Both operations preserve it, never run
  into one of their assertions and change exactly the pages they are about.
\<close>

section \<open>Pages of the kernel heap\<close>

definition kbm :: "'a vm_scheme \<Rightarrow> bitmap" where
  "kbm s = vaddr_bitmap (kernel_vaddr s)"

definition kpage :: "nat \<Rightarrow> u32" where
  "kpage i = K_HEAP_START + of_nat i * PG_SIZE"

definition kused :: "'a vm_scheme \<Rightarrow> nat \<Rightarrow> bool" where
  "kused s i \<longleftrightarrow> bm_bit (kbm s) i"

definition kpages :: "'a vm_scheme \<Rightarrow> nat" where
  "kpages s = bm_size (kbm s)"

definition kmap :: "'a vm_scheme \<Rightarrow> nat \<Rightarrow> u32 option" where
  "kmap s i = (if mapped s (kpage i) then Some (addr_v2p s (kpage i)) else None)"

text \<open>The kernel's frames lie above the page tables of the boot loader and below the user's.\<close>

definition pools_ok :: "'a vm_scheme \<Rightarrow> bool" where
  "pools_ok s \<longleftrightarrow> pool_ok (kernel_pool s) \<and> phy_addr_start (kernel_pool s) AND 0xfff = 0 \<and>
     0x102000 \<le> phy_addr_start (kernel_pool s) \<and>
     unat (phy_addr_start (kernel_pool s)) + 4096 * bm_size (pool_bitmap (kernel_pool s)) \<le> unat (phy_addr_start (user_pool s))"

definition frame_used :: "'a vm_scheme \<Rightarrow> u32 \<Rightarrow> bool" where
  "frame_used s f \<longleftrightarrow> (\<exists>j < bm_size (pool_bitmap (kernel_pool s)). f = page_of (kernel_pool s) j \<and> pool_used (kernel_pool s) j)"

definition frames_ok :: "'a vm_scheme \<Rightarrow> bool" where
  "frames_ok s \<longleftrightarrow> pools_ok s \<and>
     (\<forall>i \<le> kpages s. \<forall>f. kmap s i = Some f \<longrightarrow> frame_used s f \<and> (\<forall>j \<le> kpages s. kmap s j = Some f \<longrightarrow> j = i))"

definition kbitmap_ok :: "'a vm_scheme \<Rightarrow> bool" where
  "kbitmap_ok s \<longleftrightarrow> bm_ok (kbm s) \<and> unat (btmp_bytes_len (kbm s)) < length (bits (kbm s)) \<and> kpages s \<le> 32768 \<and>
     vaddr_start (kernel_vaddr s) = K_HEAP_START"

text \<open>The scan for several pages may also give out the page behind the last one of the bitmap.\<close>

definition kpages_ok :: "'a vm_scheme \<Rightarrow> bool" where
  "kpages_ok s \<longleftrightarrow> kbitmap_ok s \<and> frames_ok s \<and> (\<forall>i \<le> kpages s. \<not> kused s i \<longrightarrow> kmap s i = None)"

lemma unat_kpage: "i \<le> 32768 \<Longrightarrow> unat (kpage i) = 0xc0100000 + 4096 * i"
proof -
  assume i: "i \<le> 32768"
  then have "unat (of_nat i :: u32) = i" by (simp add: unat_of_nat_small)
  then have "unat (of_nat i * PG_SIZE) = 4096 * i"
    using i by (subst unat_mult_no_wrap) (simp_all add: PG_SIZE_def)
  then show ?thesis using i unfolding kpage_def K_HEAP_START_def by (subst unat_add_no_wrap) simp_all
qed

lemma aligned_mod: "a AND 0xfff = 0 \<longleftrightarrow> unat (a :: u32) mod 4096 = 0"
proof -
  have "a AND 0xfff = take_bit 12 a" by (simp add: take_bit_eq_mask mask_eq_exp_minus_1)
  moreover have "take_bit 12 a = 0 \<longleftrightarrow> unat (take_bit 12 a) = 0" by (simp only: unat_eq_0)
  moreover have "unat (take_bit 12 a) = unat a mod 4096"
    by (simp only: unsigned_take_bit_eq) (simp add: take_bit_eq_mod)
  ultimately show ?thesis by simp
qed

lemma split_page: "(a :: u32) = (a AND 0xfffff000) + (a AND 0xfff)"
proof -
  have "(a AND 0xfffff000) AND (a AND 0xfff) = 0"
    by (rule bit_word_eqI) (auto simp: bit_and_iff bit_high_mask)
  then have "(a AND 0xfffff000) + (a AND 0xfff) = (a AND 0xfffff000) OR (a AND 0xfff)"
    by (rule disjunctive_add_eq_or)
  also have "\<dots> = a"
    by (rule bit_word_eqI) (auto simp: bit_and_iff bit_or_iff bit_high_mask)
  finally show ?thesis by simp
qed

lemma aligned_page: "a AND 0xfff = 0 \<Longrightarrow> (a :: u32) AND 0xfffff000 = a"
  using split_page [of a] by simp

lemma kpage_aligned: "i \<le> 32768 \<Longrightarrow> kpage i AND 0xfff = 0"
  unfolding aligned_mod by (subst unat_kpage; presburger?)

lemma kpage_below: "i \<le> 32768 \<Longrightarrow> kpage i < 0xffc00000"
  by (simp add: unat_less_iff unat_kpage)

lemma kpage_eq_iff:
  assumes "i \<le> 32768" and "j \<le> 32768"
  shows "kpage i = kpage j \<longleftrightarrow> i = j"
proof
  assume "kpage i = kpage j"
  then have "3222274048 + 4096 * i = 3222274048 + 4096 * j"
    using unat_kpage [OF assms(1)] unat_kpage [OF assms(2)] by metis
  then show "i = j" by simp
qed simp

lemma kpage_same_page: "i \<le> 32768 \<Longrightarrow> j \<le> 32768 \<Longrightarrow> same_page (kpage i) (kpage j) \<longleftrightarrow> i = j"
  by (simp add: same_page_def aligned_page kpage_aligned kpage_eq_iff)

lemma kpage_Suc: "kpage i + PG_SIZE = kpage (Suc i)"
  by (simp add: kpage_def algebra_simps)

lemma kpage_neq_NULL: "i \<le> 32768 \<Longrightarrow> kpage i \<noteq> NULL"
  using unat_kpage [of i] by auto

lemma unat_page_of:
  assumes "unat (phy_addr_start p) + 4096 * bm_size (pool_bitmap p) < 2 ^ 32" and "j < bm_size (pool_bitmap p)"
  shows "unat (page_of p j) = unat (phy_addr_start p) + 4096 * j"
proof -
  have lim: "unat (phy_addr_start p) + 4096 * j < 2 ^ 32" using assms by linarith
  then have "unat (of_nat j :: u32) = j" by (intro unat_of_nat_small) simp
  then have "unat (of_nat j * 4096 :: u32) = 4096 * j" using lim by (subst unat_mult_no_wrap) simp_all
  then show ?thesis using lim unfolding page_of_def PG_SIZE_def by (subst unat_add_no_wrap) simp_all
qed

lemma pools_okD:
  assumes "pools_ok s" and "j < bm_size (pool_bitmap (kernel_pool s))"
  shows "unat (page_of (kernel_pool s) j) = unat (phy_addr_start (kernel_pool s)) + 4096 * j"
    and "page_of (kernel_pool s) j AND 0xfff = 0" and "page_of (kernel_pool s) j \<noteq> NULL"
    and "page_of (kernel_pool s) j < phy_addr_start (user_pool s)"
    and "phy_addr_start (kernel_pool s) \<le> page_of (kernel_pool s) j"
    and "page_of (kernel_pool s) j \<ge> 0x102000"
proof -
  note ok = assms(1) [unfolded pools_ok_def]
  have lt: "unat (phy_addr_start (kernel_pool s)) + 4096 * bm_size (pool_bitmap (kernel_pool s)) < 2 ^ 32"
    using ok unat_u32_bound [of "phy_addr_start (user_pool s)"] by (simp del: unsigned_less)
  show u: "unat (page_of (kernel_pool s) j) = unat (phy_addr_start (kernel_pool s)) + 4096 * j"
    using unat_page_of [OF lt assms(2)] .
  show "page_of (kernel_pool s) j AND 0xfff = 0"
    using ok unfolding aligned_mod u by presburger
  show low: "phy_addr_start (kernel_pool s) \<le> page_of (kernel_pool s) j" using u by (simp add: unat_le_iff)
  then show "page_of (kernel_pool s) j \<ge> 0x102000" using ok order_trans by blast
  then show "page_of (kernel_pool s) j \<noteq> NULL" by auto
  show "page_of (kernel_pool s) j < phy_addr_start (user_pool s)" using ok u assms(2) by (simp add: unat_less_iff)
qed

section \<open>Mapping pages\<close>

text \<open>Only the page tables and the kernel's pool and page bitmap change.\<close>

definition only_pages :: "'a vm_scheme \<Rightarrow> 'a vm_scheme \<Rightarrow> bool" where
  "only_pages s s' \<longleftrightarrow> (\<exists>p k v. s' = s\<lparr>ptw := p, kernel_pool := k, kernel_vaddr := v\<rparr>)"

lemma only_pages_refl [simp]: "only_pages s s"
  unfolding only_pages_def by (intro exI [of _ "ptw s"] exI [of _ "kernel_pool s"] exI [of _ "kernel_vaddr s"]) simp

lemma only_pages_trans: "only_pages s t \<Longrightarrow> only_pages t u \<Longrightarrow> only_pages s u"
  unfolding only_pages_def by fastforce

lemma page_table_add_only: "page_table_add s v pg = Inr s' \<Longrightarrow> \<exists>p k. s' = s\<lparr>ptw := p, kernel_pool := k\<rparr>"
proof -
  assume a: "page_table_add s v pg = Inr s'"
  have one: "\<exists>p k. s\<lparr>ptw := m\<rparr> = s\<lparr>ptw := p, kernel_pool := k\<rparr>" for m
    by (rule exI [of _ m], rule exI [of _ "kernel_pool s"]) simp
  have two: "\<exists>p k. s\<lparr>kernel_pool := b, ptw := m\<rparr> = s\<lparr>ptw := p, kernel_pool := k\<rparr>" for m b
    by (rule exI [of _ m], rule exI [of _ b]) (cases s; simp)
  show ?thesis
    using a by (auto simp: page_table_add_def Let_def rbind_eq_Inr one two split: if_splits prod.splits)
qed

text \<open>The frames of one pool: allocating keeps those in use, and adds one or none.\<close>

definition more_used :: "pool \<Rightarrow> pool \<Rightarrow> bool" where
  "more_used p q \<longleftrightarrow> phy_addr_start q = phy_addr_start p \<and> bm_size (pool_bitmap q) = bm_size (pool_bitmap p) \<and>
     (pool_ok p \<longrightarrow> pool_ok q) \<and> (\<forall>j. pool_used p j \<longrightarrow> pool_used q j)"

lemma more_used_refl [simp]: "more_used p p"
  by (simp add: more_used_def)

lemma more_used_trans: "more_used p q \<Longrightarrow> more_used q r \<Longrightarrow> more_used p r"
  by (simp add: more_used_def)

lemma pool_upd_more: "pool_upd p i True q \<Longrightarrow> more_used p q"
  by (auto simp: pool_upd_def more_used_def pool_used_def pool_ok_def bm_upd_ok bm_upd_size) (auto simp: bm_upd_def)

lemma more_used_page_of: "more_used p q \<Longrightarrow> page_of q = page_of p"
  by (simp add: more_used_def page_of_def fun_eq_iff)

lemma palloc_more: "pool_ok p \<Longrightarrow> palloc p = Inr (f, q) \<Longrightarrow> more_used p q"
  using palloc_cases [of p] by (auto dest: pool_upd_more)

lemma page_table_add_page:
  assumes "v < 0xffc00000" and "pg AND 0xfff = 0" and "pool_ok (kernel_pool s)" and "\<not> mapped s v"
  shows "\<exists>s'. page_table_add s v pg = Inr s' \<and> maps_page s v pg s' \<and> more_used (kernel_pool s) (kernel_pool s')"
proof (cases "table_present s v")
  case True
  then show ?thesis using page_table_add_present [OF assms(1,2) True assms(4)] by auto
next
  case False
  obtain t kp where p: "palloc (kernel_pool s) = Inr (t, kp)" using palloc_cases [OF assms(3)] by blast
  with page_table_add_new [OF assms(1,2) False] palloc_more [OF assms(3) p] show ?thesis by metis
qed

text \<open>One round of the loop of \<open>malloc_page\<close>.\<close>

lemma kmap_maps_page:
  assumes "maps_page s (kpage i) f s'" and "i \<le> 32768" and "j \<le> 32768"
  shows "kmap s' j = (if j = i then Some f else kmap s j)"
proof (cases "j = i")
  case True
  have "same_page (kpage i) (kpage i)" by (simp add: same_page_def)
  then show ?thesis using assms(1) True kpage_aligned [OF assms(2)] by (simp add: maps_page_def kmap_def)
next
  case False
  then have "\<not> same_page (kpage i) (kpage j)" using assms(2,3) by (simp add: kpage_same_page)
  then show ?thesis using assms(1) kpage_below [OF assms(3)] False by (simp add: maps_page_def kmap_def)
qed

definition kmap_upd :: "'a vm_scheme \<Rightarrow> nat set \<Rightarrow> 'a vm_scheme \<Rightarrow> bool" where
  "kmap_upd s I s' \<longleftrightarrow> (\<forall>j \<le> 32768. j \<notin> I \<longrightarrow> kmap s' j = kmap s j)"

lemma frames_ok_add:
  assumes "frames_ok s" and "kpages s \<le> 32768" and "i \<le> kpages s" and "kpages s' = kpages s"
    and "more_used (kernel_pool s) (kernel_pool s')" and "user_pool s' = user_pool s"
    and "\<And>j. j \<le> 32768 \<Longrightarrow> kmap s' j = (if j = i then Some f else kmap s j)"
    and "frame_used s' f" and "\<not> frame_used s f"
  shows "frames_ok s'"
proof -
  have p: "pools_ok s'" using assms(1,5,6) by (simp add: frames_ok_def pools_ok_def more_used_def)
  have u: "frame_used s g \<Longrightarrow> frame_used s' g" for g
    using assms(5) more_used_page_of [OF assms(5)] by (auto simp: frame_used_def more_used_def)
  note old = assms(1) [unfolded frames_ok_def, THEN conjunct2, rule_format]
  have "frame_used s' g \<and> (\<forall>k \<le> kpages s'. kmap s' k = Some g \<longrightarrow> k = j)" if "j \<le> kpages s'" "kmap s' j = Some g" for j g
  proof (cases "j = i")
    case True
    then have "g = f" using that assms(2-4,7) by simp
    moreover have "kmap s k \<noteq> Some f" if "k \<le> kpages s" for k using old [OF that] assms(9) by blast
    ultimately show ?thesis using True assms(2-4,7,8) by auto
  next
    case False
    then have j: "kmap s j = Some g" "j \<le> kpages s" using that assms(2,4,7) by simp_all
    then have "g \<noteq> f" using old [OF j(2,1)] assms(9) by blast
    then show ?thesis using old [OF j(2,1)] u assms(2,4,7) by auto
  qed
  with p show ?thesis by (simp add: frames_ok_def)
qed

lemma page_of_inj:
  assumes "pools_ok s" and "i < bm_size (pool_bitmap (kernel_pool s))" and "j < bm_size (pool_bitmap (kernel_pool s))"
    and "page_of (kernel_pool s) i = page_of (kernel_pool s) j"
  shows "i = j"
proof -
  have "unat (page_of (kernel_pool s) i) = unat (page_of (kernel_pool s) j)" using assms(4) by simp
  then show ?thesis using pools_okD(1) [OF assms(1,2)] pools_okD(1) [OF assms(1,3)] by simp
qed

text \<open>One round: no frame is left, or the page is mapped to a frame that was free.\<close>

lemma map_page:
  assumes "frames_ok s" and "kpages s \<le> 32768" and "i \<le> kpages s" and "kmap s i = None"
  shows "palloc (kernel_pool s) = Inr (NULL, kernel_pool s) \<or>
    (\<exists>f p s'. palloc (kernel_pool s) = Inr (f, p) \<and> f \<noteq> NULL \<and>
       page_table_add (s\<lparr>kernel_pool := p\<rparr>) (kpage i) f = Inr s' \<and> frames_ok s' \<and> only_pages s s' \<and>
       kernel_vaddr s' = kernel_vaddr s \<and> (\<forall>j \<le> 32768. kmap s' j = (if j = i then Some f else kmap s j)))"
proof -
  have ok: "pools_ok s" "pool_ok (kernel_pool s)" using assms(1) by (simp_all add: frames_ok_def pools_ok_def)
  have i: "i \<le> 32768" using assms(2,3) by simp
  show ?thesis
  proof (cases "\<exists>j p. palloc (kernel_pool s) = Inr (page_of (kernel_pool s) j, p) \<and> first_free (pool_bitmap (kernel_pool s)) j \<and>
      pool_upd (kernel_pool s) j True p")
    case False
    then show ?thesis using palloc_cases [OF ok(2)] by blast
  next
    case True
    then obtain j p where p: "palloc (kernel_pool s) = Inr (page_of (kernel_pool s) j, p)"
      "j < bm_size (pool_bitmap (kernel_pool s))" "\<not> pool_used (kernel_pool s) j" "pool_upd (kernel_pool s) j True p"
      by (auto simp: first_free_def pool_used_def)
    let ?f = "page_of (kernel_pool s) j" and ?s = "s\<lparr>kernel_pool := p\<rparr>"
    note more = pool_upd_more [OF p(4)]
    have m: "mapped ?s v = mapped s v" "addr_v2p ?s v = addr_v2p s v" for v
      by (simp_all add: mapped_def table_present_def addr_v2p_def)
    then have km: "kmap ?s k = kmap s k" for k by (simp add: kmap_def)
    have "\<not> mapped ?s (kpage i)" using assms(4) m by (simp add: kmap_def split: if_splits)
    moreover have "pool_ok (kernel_pool ?s)" using more ok(2) by (simp add: more_used_def)
    ultimately obtain s' where s': "page_table_add ?s (kpage i) ?f = Inr s'" "maps_page ?s (kpage i) ?f s'"
      "more_used p (kernel_pool s')"
      using page_table_add_page [OF kpage_below [OF i] pools_okD(2) [OF ok(1) p(2)], of ?s] by auto
    obtain q k where q: "s' = ?s\<lparr>ptw := q, kernel_pool := k\<rparr>" using page_table_add_only [OF s'(1)] by blast
    have only: "only_pages s s'"
      unfolding only_pages_def q by (rule exI [of _ q], rule exI [of _ k], rule exI [of _ "kernel_vaddr s"]) (cases s; simp)
    have upd: "kmap s' l = (if l = i then Some ?f else kmap s l)" if "l \<le> 32768" for l
      using kmap_maps_page [OF s'(2) i that] km by simp
    have more': "more_used (kernel_pool s) (kernel_pool s')" using more_used_trans [OF more s'(3)] .
    have "pool_used p j" using p(4) by (auto simp: pool_upd_def pool_used_def bm_upd_def)
    then have "frame_used s' ?f"
      using s'(3) more_used_page_of [OF more'] p(2) more' by (auto simp: frame_used_def more_used_def)
    moreover have "\<not> frame_used s ?f"
      using page_of_inj [OF ok(1) p(2)] p(3) by (auto simp: frame_used_def)
    ultimately have "frames_ok s'"
      using frames_ok_add [OF assms(1-3) _ more' _ upd] q by (simp add: kpages_def kbm_def)
    then show ?thesis
      using p(1) s'(1) upd pools_okD(3) [OF ok(1) p(2)] only q by auto
  qed
qed

definition no_frame :: "'a vm_scheme \<Rightarrow> bool" where
  "no_frame s \<longleftrightarrow> palloc (kernel_pool s) = Inr (NULL, kernel_pool s)"

lemma map_pages_eq:
  "frames_ok s \<Longrightarrow> kpages s \<le> 32768 \<Longrightarrow> i + n \<le> Suc (kpages s) \<Longrightarrow> \<forall>j \<in> {i..<i + n}. kmap s j = None \<Longrightarrow>
   \<exists>ok s'. map_pages s PF_KERNEL (kpage i) n = Inr (ok, s') \<and> frames_ok s' \<and> only_pages s s' \<and>
     kernel_vaddr s' = kernel_vaddr s \<and> kmap_upd s {i..<i + n} s' \<and>
     (if ok then \<forall>j \<in> {i..<i + n}. kmap s' j \<noteq> None else no_frame s')"
proof (induction n arbitrary: s i)
  case 0
  then show ?case by (auto simp: kmap_upd_def)
next
  case (Suc n)
  have i: "i \<le> kpages s" "kmap s i = None" using Suc.prems by auto
  from map_page [OF Suc.prems(1,2) i] show ?case
  proof (elim disjE exE conjE)
    assume "palloc (kernel_pool s) = Inr (NULL, kernel_pool s)"
    then have "map_pages s PF_KERNEL (kpage i) (Suc n) = Inr (False, s)"
      by (simp add: pool_of_def set_pool_def)
    then show ?thesis using \<open>palloc (kernel_pool s) = _\<close> Suc.prems by (auto simp: kmap_upd_def no_frame_def)
  next
    fix f p t
    assume p: "palloc (kernel_pool s) = Inr (f, p)" "f \<noteq> NULL"
      and t: "page_table_add (s\<lparr>kernel_pool := p\<rparr>) (kpage i) f = Inr t" "frames_ok t" "only_pages s t"
        "kernel_vaddr t = kernel_vaddr s" "\<forall>j \<le> 32768. kmap t j = (if j = i then Some f else kmap s j)"
    have kp: "kpages t = kpages s" using t(4) by (simp add: kpages_def kbm_def)
    have "\<forall>j \<in> {Suc i..<Suc i + n}. kmap t j = None" using Suc.prems t(5) by auto
    then obtain ok u where u: "map_pages t PF_KERNEL (kpage (Suc i)) n = Inr (ok, u)" "frames_ok u" "only_pages t u"
      "kernel_vaddr u = kernel_vaddr t" "kmap_upd t {Suc i..<Suc i + n} u"
      "if ok then \<forall>j \<in> {Suc i..<Suc i + n}. kmap u j \<noteq> None else no_frame u"
      using Suc.IH [of t "Suc i"] Suc.prems(2,3) t(2) kp by auto
    have r: "map_pages s PF_KERNEL (kpage i) (Suc n) = Inr (ok, u)"
      using p t(1) u(1) by (simp add: pool_of_def set_pool_def kpage_Suc)
    have upd: "kmap_upd s {i..<i + Suc n} u"
      using u(5) t(5) by (auto simp: kmap_upd_def)
    have "kmap u i = Some f"
      using u(5) t(5) i(1) Suc.prems(2) by (simp add: kmap_upd_def)
    moreover have "{i..<i + Suc n} = insert i {Suc i..<Suc i + n}" by auto
    ultimately have "if ok then \<forall>j \<in> {i..<i + Suc n}. kmap u j \<noteq> None else no_frame u"
      using u(6) by (simp split: if_splits)
    then show ?thesis
      using r upd u(2,4) t(4) only_pages_trans [OF t(3) u(3)] by (intro exI [of _ ok] exI [of _ u]) simp
  qed
qed

section \<open>Allocating pages\<close>

lemma kbitmap_only: "only_pages s s' \<Longrightarrow> kernel_vaddr s' = kernel_vaddr s \<Longrightarrow> kbitmap_ok s' = kbitmap_ok s"
  by (simp add: kbitmap_ok_def kpages_def kbm_def)

lemma kmap_set_vbits [simp]: "kmap (set_vbits s PF_KERNEL b) i = kmap s i"
  by (simp add: kmap_def mapped_def table_present_def addr_v2p_def set_vbits_def Let_def)

lemma frames_set_vbits:
  "bm_size b = kpages s \<Longrightarrow> frames_ok (set_vbits s PF_KERNEL b) = frames_ok s"
  by (simp add: frames_ok_def pools_ok_def frame_used_def) (simp add: set_vbits_def Let_def kpages_def kbm_def)

text \<open>The pages that are free, and what \<open>vaddr_get\<close> does with them.\<close>

definition no_room :: "'a vm_scheme \<Rightarrow> nat \<Rightarrow> bool" where
  "no_room s m \<longleftrightarrow> (\<forall>i. i + m \<le> kpages s \<longrightarrow> (\<exists>j \<in> {i..<i + m}. kused s j))"

lemma vaddr_get_eq:
  assumes "kpages_ok s" and "0 < n"
  shows "vaddr_get s PF_KERNEL n = Inr (NULL, s) \<and> no_room s (unat n) \<or>
    (\<exists>i b. vaddr_get s PF_KERNEL n = Inr (kpage i, set_vbits s PF_KERNEL b) \<and> i + unat n \<le> Suc (kpages s) \<and>
       (\<forall>j \<in> {i..<i + unat n}. \<not> kused s j) \<and> bm_upd (kbm s) {i..<i + unat n} True b)"
proof -
  have bm: "bm_ok (kbm s)" "unat (btmp_bytes_len (kbm s)) < length (bits (kbm s))" "vaddr_start (kernel_vaddr s) = K_HEAP_START"
    "kpages s \<le> 32768"
    using assms(1) by (simp_all add: kpages_ok_def kbitmap_ok_def)
  have n: "1 \<le> n" "0 < unat n" using assms(2) by (simp_all add: unat_le_iff unat_less_iff)
  have "scan_mem_ok (kbm s) n" using bm n(1) by (simp add: scan_mem_ok_def)
  from bitmap_scan_result [OF this] show ?thesis unfolding scan_result_def
  proof (elim disjE exE conjE)
    fix r
    assume r: "bitmap_scan (kbm s) n = Inr (word_of_nat r)" "r < 2 ^ 31" "first_run (kbm s) (unat n) (scan_limit (kbm s) n) r"
    have u: "unat (of_nat r :: u32) = r" using r(2) by (intro unat_of_nat_small) simp
    have ne: "(of_nat r :: u32) \<noteq> -1"
    proof
      assume "(of_nat r :: u32) = -1"
      then have "unat (of_nat r :: u32) = unat (- 1 :: u32)" by simp
      with u have "r = 4294967295" by (simp add: unsigned_minus_1_eq_mask mask_eq_exp_minus_1)
      with r(2) show False by simp
    qed
    have lim: "r + unat n \<le> Suc (kpages s)"
      using r(3) by (auto simp: first_run_def scan_limit_def kpages_def split: if_splits)
    then have fit: "r + unat n \<le> 8 * length (bits (kbm s))" using bm(2) by (simp add: kpages_def bm_size_def)
    obtain b where b: "bitmap_set_run (kbm s) (of_nat r) (unat n) 1 = Inr b" "bm_upd (kbm s) {r..<r + unat n} True b"
      using bitmap_set_run_upd [of "of_nat r" "unat n" "kbm s" 1] fit lim bm(4) by (auto simp: u)
    have "vaddr_get s PF_KERNEL n = Inr (kpage r, set_vbits s PF_KERNEL b)"
      using r(1) ne b(1) bm(3) by (simp add: vaddr_get_def vaddr_of_def kbm_def kpage_def)
    moreover have "\<forall>j \<in> {r..<r + unat n}. \<not> kused s j"
      using r(3) by (simp add: first_run_def free_run_def kused_def)
    ultimately show ?thesis using lim b(2) by blast
  next
    assume r: "bitmap_scan (kbm s) n = Inr (- 1)" "no_run (kbm s) (unat n) (scan_limit (kbm s) n)"
    have "no_room s (unat n)" unfolding no_room_def
    proof (intro allI impI)
      fix i assume "i + unat n \<le> kpages s"
      then have "i + unat n \<le> scan_limit (kbm s) n" by (cases "n = 1") (simp_all add: scan_limit_def kpages_def)
      then show "\<exists>j \<in> {i..<i + unat n}. kused s j" using r(2) unfolding no_run_def free_run_def kused_def by (metis atLeastLessThan_iff)
    qed
    then show ?thesis using r(1) by (simp add: vaddr_get_def vaddr_of_def kbm_def)
  qed
qed

lemma only_set_vbits: "only_pages s (set_vbits s PF_KERNEL b)"
  unfolding only_pages_def set_vbits_def Let_def
  by (rule exI [of _ "ptw s"], rule exI [of _ "kernel_pool s"], rule exI [of _ "(kernel_vaddr s)\<lparr>vaddr_bitmap := b\<rparr>"])
    (simp add: vaddr_of_def)

text \<open>
  \<open>gives_pages s i n s'\<close>: the pages from \<open>i\<close> on were free, they are mapped and in use now, and
  every other page is as before.
\<close>

definition gives_pages :: "'a vm_scheme \<Rightarrow> nat \<Rightarrow> nat \<Rightarrow> 'a vm_scheme \<Rightarrow> bool" where
  "gives_pages s i n s' \<longleftrightarrow> i + n \<le> Suc (kpages s) \<and>
     (\<forall>j \<in> {i..<i + n}. \<not> kused s j \<and> kmap s j = None \<and> kused s' j \<and> kmap s' j \<noteq> None) \<and>
     (\<forall>j \<le> kpages s. j \<notin> {i..<i + n} \<longrightarrow> kused s' j = kused s j \<and> kmap s' j = kmap s j)"

definition keeps_pages :: "'a vm_scheme \<Rightarrow> 'a vm_scheme \<Rightarrow> bool" where
  "keeps_pages s s' \<longleftrightarrow> (\<forall>j \<le> kpages s. kused s j \<longrightarrow> kused s' j \<and> kmap s' j = kmap s j)"

text \<open>Why pages were refused: no run of free pages, or no frame left.\<close>

definition short_of :: "'a vm_scheme \<Rightarrow> nat \<Rightarrow> 'b vm_scheme \<Rightarrow> bool" where
  "short_of s m t \<longleftrightarrow> no_room s m \<or> no_frame t"

lemma malloc_page_eq:
  assumes "kpages_ok s" and "0 < n" and "n < 3840"
  shows "\<exists>v s'. malloc_page s PF_KERNEL n = Inr (v, s') \<and> kpages_ok s' \<and> only_pages s s' \<and> kpages s' = kpages s \<and>
    (if v = NULL then keeps_pages s s' \<and> short_of s (unat n) s' else \<exists>i. v = kpage i \<and> gives_pages s i (unat n) s')"
  using vaddr_get_eq [OF assms(1,2)]
proof (elim disjE exE conjE)
  assume "vaddr_get s PF_KERNEL n = Inr (NULL, s)" "no_room s (unat n)"
  then show ?thesis using assms by (simp add: malloc_page_def keeps_pages_def short_of_def)
next
  fix i b
  let ?t = "set_vbits s PF_KERNEL b" and ?I = "{i..<i + unat n}"
  assume v: "vaddr_get s PF_KERNEL n = Inr (kpage i, ?t)" "i + unat n \<le> Suc (kpages s)"
    "\<forall>j \<in> ?I. \<not> kused s j" "bm_upd (kbm s) ?I True b"
  have sz: "kpages s \<le> 32768" "kbitmap_ok s" "frames_ok s" using assms(1) by (simp_all add: kpages_ok_def kbitmap_ok_def)
  have "0 < unat n" using assms(2) by (simp add: unat_less_iff)
  then have i: "i \<le> 32768" using v(2) sz by simp
  have b: "bm_size b = kpages s" using bm_upd_size [OF v(4)] by (simp add: kpages_def)
  have kb: "kbm ?t = b" by (simp add: kbm_def set_vbits_def Let_def)
  have used: "kused ?t j \<longleftrightarrow> j \<in> ?I \<or> kused s j" for j
    using v(4) unfolding kused_def kb by (auto simp: bm_upd_def)
  have t: "frames_ok ?t" "kpages ?t = kpages s" "kbitmap_ok ?t"
    using sz frames_set_vbits [OF b] v(4) bm_upd_ok [OF v(4)] b unfolding kbitmap_ok_def kpages_def kb
    by (auto simp: kpages_def bm_upd_def) (simp add: set_vbits_def Let_def vaddr_of_def)
  have free: "kmap s j = None" if "j \<in> ?I" for j using that v(2,3) assms(1) by (simp add: kpages_ok_def)
  obtain ok u where u: "map_pages ?t PF_KERNEL (kpage i) (unat n) = Inr (ok, u)" "frames_ok u" "only_pages ?t u"
    "kernel_vaddr u = kernel_vaddr ?t" "kmap_upd ?t ?I u" "if ok then \<forall>j \<in> ?I. kmap u j \<noteq> None else no_frame u"
    using map_pages_eq [of ?t i "unat n"] t sz v(2) free by auto
  have r: "malloc_page s PF_KERNEL n = Inr (if ok then kpage i else NULL, u)"
    using assms(2,3) v(1) u(1) kpage_neq_NULL [OF i] by (simp add: malloc_page_def)
  have ku: "kused u j = kused ?t j" "kpages u = kpages ?t" for j using u(4) by (simp_all add: kused_def kpages_def kbm_def)
  have km: "kmap u j = kmap s j" if "j \<le> kpages s" "j \<notin> ?I" for j using u(5) that sz(1) by (simp add: kmap_upd_def)
  have "kpages_ok u"
    using u(2) kbitmap_only [OF u(3,4)] t(2,3) ku used km assms(1) by (auto simp: kpages_ok_def)
  moreover have "only_pages s u" using only_pages_trans [OF only_set_vbits u(3)] .
  moreover have "gives_pages s i (unat n) u" if ok
    using that v(2,3) free ku used u(6) km by (auto simp: gives_pages_def)
  moreover have "short_of s (unat n) u" if "\<not> ok" using that u(6) by (simp add: short_of_def)
  moreover have "keeps_pages s u" using v(3) ku used km by (auto simp: keeps_pages_def)
  ultimately show ?thesis using r ku(2) t(2) kpage_neq_NULL [OF i] by (intro exI [of _ "if ok then kpage i else NULL"] exI [of _ u]) auto
qed

section \<open>Releasing pages\<close>

definition takes_pages :: "'a vm_scheme \<Rightarrow> nat \<Rightarrow> nat \<Rightarrow> 'a vm_scheme \<Rightarrow> bool" where
  "takes_pages s i n s' \<longleftrightarrow>
     (\<forall>j \<in> {i..<i + n}. \<not> kused s' j \<and> kmap s' j = None) \<and>
     (\<forall>j \<le> kpages s. j \<notin> {i..<i + n} \<longrightarrow> kused s' j = kused s j \<and> kmap s' j = kmap s j)"

lemma kmap_remove:
  assumes "i \<le> 32768" and "j \<le> 32768"
  shows "kmap (page_table_pte_remove s (kpage i)) j = (if j = i then None else kmap s j)"
proof -
  have off: "(x AND NOT PG_P_1) AND 1 = 0" for x by (simp add: PG_P_1_def and.assoc)
  have "pte_ptr (kpage i) = pte_ptr (kpage j) \<longleftrightarrow> i = j"
    using assms by (simp add: pte_ptr_eq_iff kpage_same_page)
  then show ?thesis
    using pte_not_pde [OF kpage_below [OF assms(1)], of "kpage j"] off
    by (auto simp: kmap_def mapped_def table_present_def page_table_pte_remove_def addr_v2p_def)
qed

text \<open>One round of \<open>mfree_page\<close> on a mapped page.\<close>

lemma free_page:
  assumes "frames_ok s" and "kpages s \<le> 32768" and "i \<le> kpages s" and "kmap s i = Some f"
  shows "\<exists>s1. addr_v2p s (kpage i) = f \<and> f mod PG_SIZE = 0 \<and> phy_addr_start (kernel_pool s) \<le> f \<and>
    f < phy_addr_start (user_pool s) \<and> f \<ge> 0x102000 \<and> pfree s f = Inr s1 \<and>
    (let s' = page_table_pte_remove s1 (kpage i) in frames_ok s' \<and> only_pages s s' \<and> kernel_vaddr s' = kernel_vaddr s \<and>
       (\<forall>j \<le> 32768. kmap s' j = (if j = i then None else kmap s j)))"
proof -
  have i: "i \<le> 32768" using assms(2,3) by simp
  note old = assms(1) [unfolded frames_ok_def, THEN conjunct2, rule_format]
  have ok: "pools_ok s" using assms(1) by (simp add: frames_ok_def)
  obtain j where j: "j < bm_size (pool_bitmap (kernel_pool s))" "f = page_of (kernel_pool s) j"
    using old [OF assms(3,4)] by (auto simp: frame_used_def)
  note pg = pools_okD [OF ok j(1), folded j(2)]
  let ?k = "kernel_pool s"
  have idx: "unat ((f - phy_addr_start ?k) div PG_SIZE) = j"
    using pg(1,5) by (simp add: unat_div_word unat_sub_no_wrap unat_le_iff PG_SIZE_def)
  have "bm_ok (pool_bitmap ?k)" using ok by (simp add: pools_ok_def pool_ok_def)
  then have "unat ((f - phy_addr_start ?k) div PG_SIZE) div 8 < length (bits (pool_bitmap ?k))"
    unfolding idx using j(1) by (rule bm_okD)
  then obtain b where b: "bitmap_set (pool_bitmap ?k) ((f - phy_addr_start ?k) div PG_SIZE) 0 = Inr b"
    "bm_upd (pool_bitmap ?k) {j} False b"
    using bitmap_set_upd [of "(f - phy_addr_start ?k) div PG_SIZE" "pool_bitmap ?k" 0] unfolding idx by auto
  let ?s1 = "s\<lparr>kernel_pool := ?k\<lparr>pool_bitmap := b\<rparr>\<rparr>"
  let ?s' = "page_table_pte_remove ?s1 (kpage i)"
  have free: "pfree s f = Inr ?s1" using pg(4) [folded not_le] b(1) by (simp add: pfree_def)
  have "kmap ?s1 l = kmap s l" for l by (simp add: kmap_def mapped_def table_present_def addr_v2p_def)
  then have upd: "kmap ?s' l = (if l = i then None else kmap s l)" if "l \<le> 32768" for l
    by (simp only: kmap_remove [OF i that] \<open>\<And>l. kmap ?s1 l = kmap s l\<close>)
  have only: "only_pages s ?s'" unfolding only_pages_def page_table_pte_remove_def
    by (rule exI [of _ "(ptw s)(pte_ptr (kpage i) := ptw s (pte_ptr (kpage i)) AND NOT PG_P_1)"],
      rule exI [of _ "?k\<lparr>pool_bitmap := b\<rparr>"], rule exI [of _ "kernel_vaddr s"]) (cases s; simp)
  have fields: "kernel_pool ?s' = ?k\<lparr>pool_bitmap := b\<rparr>" "user_pool ?s' = user_pool s" "kernel_vaddr ?s' = kernel_vaddr s"
    by (simp_all add: page_table_pte_remove_def)
  then have kp: "kpages ?s' = kpages s" by (simp add: kpages_def kbm_def)
  have p': "pools_ok ?s'"
    using ok bm_upd_ok [OF b(2)] bm_upd_size [OF b(2)] by (simp add: pools_ok_def fields pool_ok_def)
  have fu: "frame_used ?s' g" if "frame_used s g" "g \<noteq> f" for g
    using that b(2) bm_upd_size [OF b(2)] j(2)
    by (auto simp: frame_used_def fields pool_used_def bm_upd_def page_of_def)
  have "frames_ok ?s'"
    unfolding frames_ok_def
  proof (intro conjI p' allI impI)
    fix l g assume l: "l \<le> kpages ?s'" "kmap ?s' l = Some g"
    then have l': "l \<le> kpages s" "l \<noteq> i" "kmap s l = Some g" using kp upd assms(2) by (auto split: if_splits)
    then have "g \<noteq> f" using old [OF assms(3,4)] by blast
    then show "frame_used ?s' g" using fu old [OF l'(1,3)] by blast
    fix m assume "m \<le> kpages ?s'" "kmap ?s' m = Some g"
    then show "m = l" using old [OF l'(1,3)] kp upd assms(2) by (auto split: if_splits)
  qed
  moreover have "addr_v2p s (kpage i) = f" using assms(4) by (simp add: kmap_def split: if_splits)
  moreover have "f mod PG_SIZE = 0"
  proof -
    have "unat (f mod PG_SIZE) = 0" using pg(2) unfolding aligned_mod by (simp add: unat_mod_word PG_SIZE_def)
    then show ?thesis by (simp only: unat_eq_0)
  qed
  ultimately show ?thesis using pg free only upd fields by (intro exI [of _ ?s1]) (simp add: Let_def)
qed

lemma only_pages_user: "only_pages s s' \<Longrightarrow> user_pool s' = user_pool s"
  by (auto simp: only_pages_def)

lemma free_pages_eq:
  "frames_ok s \<Longrightarrow> kpages s \<le> 32768 \<Longrightarrow> i + n \<le> Suc (kpages s) \<Longrightarrow> \<forall>j \<in> {i..<i + n}. kmap s j \<noteq> None \<Longrightarrow>
   \<exists>s'. free_pages s False (kpage i) n = Inr s' \<and> frames_ok s' \<and> only_pages s s' \<and> kernel_vaddr s' = kernel_vaddr s \<and>
     (\<forall>j \<le> 32768. kmap s' j = (if j \<in> {i..<i + n} then None else kmap s j))"
proof (induction n arbitrary: s i)
  case 0
  then show ?case by auto
next
  case (Suc n)
  obtain f where f: "kmap s i = Some f" using Suc.prems(4) by fastforce
  have i: "i \<le> kpages s" using Suc.prems(3) by simp
  from free_page [OF Suc.prems(1,2) i f] obtain s1 where
    s1: "addr_v2p s (kpage i) = f" "f mod PG_SIZE = 0" "phy_addr_start (kernel_pool s) \<le> f" "f < phy_addr_start (user_pool s)"
      "pfree s f = Inr s1" and
    t: "frames_ok (page_table_pte_remove s1 (kpage i))" "only_pages s (page_table_pte_remove s1 (kpage i))"
      "kernel_vaddr (page_table_pte_remove s1 (kpage i)) = kernel_vaddr s"
      "\<forall>j \<le> 32768. kmap (page_table_pte_remove s1 (kpage i)) j = (if j = i then None else kmap s j)"
    unfolding Let_def by (elim exE conjE) (rule that)
  let ?t = "page_table_pte_remove s1 (kpage i)"
  have kp: "kpages ?t = kpages s" using t(3) by (simp add: kpages_def kbm_def)
  have "\<forall>j \<in> {Suc i..<Suc i + n}. kmap ?t j \<noteq> None" using Suc.prems(2-4) t(4) by auto
  then obtain u where u: "free_pages ?t False (kpage (Suc i)) n = Inr u" "frames_ok u" "only_pages ?t u"
    "kernel_vaddr u = kernel_vaddr ?t" "\<forall>j \<le> 32768. kmap u j = (if j \<in> {Suc i..<Suc i + n} then None else kmap ?t j)"
    using Suc.IH [of ?t "Suc i"] Suc.prems(2,3) t(1) kp by auto
  have "free_pages s False (kpage i) (Suc n) = Inr u"
    using s1 u(1) by (simp add: Let_def kpage_Suc)
  moreover have "\<forall>j \<le> 32768. kmap u j = (if j \<in> {i..<i + Suc n} then None else kmap s j)"
    using u(5) t(4) by auto
  ultimately show ?case using u(2,4) t(3) only_pages_trans [OF t(2) u(3)] by auto
qed

lemma mfree_page_eq:
  assumes "kpages_ok s" and "0 < n" and "i + unat n \<le> Suc (kpages s)"
    and "\<forall>j \<in> {i..<i + unat n}. kmap s j \<noteq> None"
  shows "\<exists>s'. mfree_page s PF_KERNEL (kpage i) n = Inr s' \<and> kpages_ok s' \<and> only_pages s s' \<and> kpages s' = kpages s \<and>
    takes_pages s i (unat n) s'"
proof -
  let ?I = "{i..<i + unat n}"
  have sz: "kpages s \<le> 32768" "kbitmap_ok s" "frames_ok s" using assms(1) by (simp_all add: kpages_ok_def kbitmap_ok_def)
  have n: "n \<ge> 1" "0 < unat n" using assms(2) by (simp_all add: unat_less_iff unat_le_iff)
  then have i: "i \<le> kpages s" "i \<le> 32768" using assms(3) sz by simp_all
  obtain f where f: "kmap s i = Some f" using assms(4) n(2) by fastforce
  from free_page [OF sz(3,1) i(1) f] have pg: "addr_v2p s (kpage i) = f" "f mod PG_SIZE = 0" "f \<ge> 0x102000"
    "\<not> phy_addr_start (user_pool s) \<le> f" by auto
  have al: "kpage i mod PG_SIZE = 0"
  proof -
    have "unat (kpage i mod PG_SIZE) = 0"
      using kpage_aligned [OF i(2)] unfolding aligned_mod by (simp add: unat_mod_word PG_SIZE_def)
    then show ?thesis by (simp only: unat_eq_0)
  qed
  obtain t where t: "free_pages s False (kpage i) (unat n) = Inr t" "frames_ok t" "only_pages s t"
    "kernel_vaddr t = kernel_vaddr s" "\<forall>j \<le> 32768. kmap t j = (if j \<in> ?I then None else kmap s j)"
    using free_pages_eq [OF sz(3,1) assms(3,4)] by blast
  have kt: "kbm t = kbm s" "kpages t = kpages s" using t(4) by (simp_all add: kbm_def kpages_def)
  have idx: "(kpage i - K_HEAP_START) div PG_SIZE = of_nat i"
  proof (rule word_unat_eq_iff [THEN iffD2])
    have "unat (kpage i - K_HEAP_START) = 4096 * i"
      using unat_kpage [OF i(2)] by (subst unat_sub_no_wrap) (simp_all add: K_HEAP_START_def unat_le_iff)
    then show "unat ((kpage i - K_HEAP_START) div PG_SIZE) = unat (of_nat i :: u32)"
      using i(2) by (simp add: unat_div_word PG_SIZE_def unat_of_nat_small)
  qed
  have u: "unat (of_nat i :: u32) = i" using i(2) by (simp add: unat_of_nat_small)
  have "i + unat n \<le> 8 * length (bits (kbm s))"
    using assms(3) sz(2) by (simp add: kbitmap_ok_def kpages_def bm_size_def)
  then obtain b where b: "bitmap_set_run (kbm s) (of_nat i) (unat n) 0 = Inr b" "bm_upd (kbm s) ?I False b"
    using bitmap_set_run_upd [of "of_nat i" "unat n" "kbm s" 0] assms(3) sz(1) by (auto simp: u)
  let ?s' = "set_vbits t PF_KERNEL b"
  have "vaddr_remove t PF_KERNEL (kpage i) n = Inr ?s'"
    using b(1) t(4) sz(2) idx by (simp add: vaddr_remove_def vaddr_of_def kbitmap_ok_def kbm_def)
  then have r: "mfree_page s PF_KERNEL (kpage i) n = Inr ?s'"
    using n(1) al pg t(1) by (simp add: mfree_page_def)
  have sb: "bm_size b = kpages t" using bm_upd_size [OF b(2)] kt by (simp add: kpages_def)
  have kb: "kbm ?s' = b" by (simp add: kbm_def set_vbits_def Let_def)
  have used: "kused ?s' j \<longleftrightarrow> j \<notin> ?I \<and> kused s j" for j
    using b(2) unfolding kused_def kb by (auto simp: bm_upd_def)
  have kp: "kpages ?s' = kpages s" using sb kt unfolding kpages_def kb by simp
  have kbo: "kbitmap_ok ?s'"
    using sz(2) b(2) bm_upd_ok [OF b(2)] sb kt t(4) unfolding kbitmap_ok_def kpages_def kb
    by (auto simp: kpages_def bm_upd_def) (simp add: set_vbits_def Let_def vaddr_of_def)
  have "kpages_ok ?s'"
    using kbo frames_set_vbits [OF sb] t(2,5) used kp assms(1) sz(1) by (auto simp: kpages_ok_def)
  moreover have "takes_pages s i (unat n) ?s'"
    using used t(5) sz(1) assms(3) by (auto simp: takes_pages_def)
  ultimately show ?thesis using r kp only_pages_trans [OF t(3) only_set_vbits] by blast
qed

end
