(* ===== verification/Heap.thy ===== *)
theory Heap
  imports Pages
begin

text \<open>
  The kernel heap: \<open>sys_malloc\<close> and \<open>sys_free\<close> of \<open>kernel/memory.c\<close> are an allocator.

  The invariant \<open>heap_inv\<close> describes the heap by three functions: \<open>A\<close> gives the size class of
  every page that is a small arena, \<open>F\<close> the list of free blocks of each class, \<open>G\<close> the number of
  pages of every large arena.  Two facts tie the code together: a list of free blocks holds only
  blocks of arenas of its class, and the counter of an arena is the number of its blocks in that
  list.  \<open>heap_rep s M\<close> is the abstraction: \<open>M\<close> is the set of blocks in use with their sizes.
\<close>

section \<open>Size classes and blocks\<close>

definition bsize :: "nat \<Rightarrow> nat" where
  "bsize i = 16 * 2 ^ i"

definition bcount :: "nat \<Rightarrow> nat" where
  "bcount i = 4084 div bsize i"

definition kdesc :: "nat \<Rightarrow> u32" where
  "kdesc i = desc_at k_block_descs i"

definition block :: "nat \<Rightarrow> nat \<Rightarrow> nat \<Rightarrow> u32" where
  "block p i k = kpage p + 12 + of_nat (k * bsize i)"

definition blocks :: "nat \<Rightarrow> nat \<Rightarrow> u32 set" where
  "blocks p i = block p i ` {..<bcount i}"

lemma less_seven: "i < 7 \<longleftrightarrow> i = 0 \<or> i = 1 \<or> i = 2 \<or> i = 3 \<or> i = 4 \<or> i = 5 \<or> i = (6 :: nat)"
  by auto

lemma block_fits: "i < 7 \<Longrightarrow> k < bcount i \<Longrightarrow> k * bsize i + bsize i \<le> 4084"
proof -
  assume "k < bcount i"
  then have "Suc k * bsize i \<le> 4084 div bsize i * bsize i"
    unfolding bcount_def by (intro mult_le_mono1) simp
  also have "\<dots> \<le> 4084" by simp
  finally show ?thesis by simp
qed

lemma bsize_pos [simp]: "0 < bsize i" "bsize i \<noteq> 0" "16 \<le> bsize i"
  by (simp_all add: bsize_def)

lemma bcount_pos: "i < 7 \<Longrightarrow> 0 < bcount i"
  unfolding less_seven by (auto simp: bcount_def bsize_def)

lemma bsize_le: "i < 7 \<Longrightarrow> bsize i \<le> 1024"
  unfolding less_seven by (auto simp: bsize_def)

lemma bcount_le: "i < 7 \<Longrightarrow> bcount i \<le> 255"
  unfolding less_seven by (auto simp: bcount_def bsize_def)

lemma unat_block:
  assumes "p \<le> 32768" and "i < 7" and "k < bcount i"
  shows "unat (block p i k) = 3222274060 + 4096 * p + k * bsize i"
proof -
  have le: "k * bsize i \<le> 4084" using block_fits [OF assms(2,3)] by simp
  then have "unat (of_nat (k * bsize i) :: u32) = k * bsize i" by (intro unat_of_nat_small) simp
  moreover have "unat (kpage p + 12) = 3222274060 + 4096 * p"
    using unat_kpage [OF assms(1)] assms(1) by (subst unat_add_no_wrap) simp_all
  ultimately show ?thesis
    using le assms(1) unfolding block_def by (subst unat_add_no_wrap) simp_all
qed

lemma block_page_unique:
  assumes "p \<le> 32768" "i < 7" "k < bcount i" and "q \<le> 32768" "j < 7" "l < bcount j"
    and "block p i k = block q j l"
  shows "p = q"
proof -
  have "3222274060 + 4096 * p + k * bsize i = 3222274060 + 4096 * q + l * bsize j"
    using assms(7) unat_block [OF assms(1-3)] unat_block [OF assms(4-6)] by metis
  moreover have "k * bsize i \<le> 4084 - bsize i" "l * bsize j \<le> 4084 - bsize j"
    using block_fits [OF assms(2,3)] block_fits [OF assms(5,6)] by simp_all
  ultimately show ?thesis using bsize_pos(3) [of i] bsize_pos(3) [of j] by linarith
qed

lemma block_inj:
  assumes "p \<le> 32768" "i < 7" "k < bcount i" "l < bcount i" and "block p i k = block p i l"
  shows "k = l"
proof -
  have "3222274060 + 4096 * p + k * bsize i = 3222274060 + 4096 * p + l * bsize i"
    using assms(5) unat_block [OF assms(1-3)] unat_block [OF assms(1,2,4)] by metis
  then show ?thesis by simp
qed

lemma inj_block: "p \<le> 32768 \<Longrightarrow> i < 7 \<Longrightarrow> inj_on (block p i) {..<bcount i}"
  by (auto intro!: inj_onI dest: block_inj)

lemma card_blocks: "p \<le> 32768 \<Longrightarrow> i < 7 \<Longrightarrow> card (blocks p i) = bcount i"
  unfolding blocks_def by (simp add: card_image inj_block)

lemma unat_page_start: "unat ((a :: u32) AND 0xfffff000) = unat a - unat a mod 4096"
proof -
  have "a AND 0xfff = take_bit 12 a" by (simp add: take_bit_eq_mask mask_eq_exp_minus_1)
  then have m: "unat (a AND 0xfff) = unat a mod 4096"
    by (simp only: unsigned_take_bit_eq) (simp add: take_bit_eq_mod)
  have "a AND 0xfffff000 = a - (a AND 0xfff)" using split_page [of a] by (metis add_diff_cancel_right')
  moreover have "a AND 0xfff \<le> a" using m by (simp add: unat_le_iff)
  ultimately show ?thesis using m by (simp add: unat_sub_no_wrap unat_le_iff)
qed

lemma block2arena_block:
  assumes "p \<le> 32768" "i < 7" "k < bcount i"
  shows "block2arena (block p i k) = kpage p"
proof -
  have "k * bsize i + bsize i \<le> 4084" by (rule block_fits [OF assms(2,3)])
  then have "12 + k * bsize i < 4096" using bsize_pos(1) [of i] by linarith
  moreover have "3222274060 + 4096 * p + k * bsize i = 12 + k * bsize i + 4096 * (786688 + p)" by simp
  ultimately have "(3222274060 + 4096 * p + k * bsize i) mod 4096 = 12 + k * bsize i"
    by (simp only: mod_mult_self2 mod_less)
  then have "unat (block2arena (block p i k)) = unat (kpage p)"
    unfolding block2arena_def unat_page_start unat_block [OF assms] unat_kpage [OF assms(1)] by simp
  then show ?thesis by (simp add: word_unat_eq_iff)
qed

lemma kpage_plus_12:
  assumes "p \<le> 32768"
  shows "block2arena (kpage p + 12) = kpage p" and "unat (kpage p + 12) = 3222274060 + 4096 * p"
proof -
  show u: "unat (kpage p + 12) = 3222274060 + 4096 * p"
    using unat_kpage [OF assms] assms by (subst unat_add_no_wrap) simp_all
  have "3222274060 + 4096 * p = 12 + 4096 * (786688 + p)" by simp
  then have "(3222274060 + 4096 * p) mod 4096 = 12" by (simp only: mod_mult_self2) simp
  then have "unat (block2arena (kpage p + 12)) = unat (kpage p)"
    unfolding block2arena_def unat_page_start u unat_kpage [OF assms] by simp
  then show "block2arena (kpage p + 12) = kpage p" by (simp add: word_unat_eq_iff)
qed

section \<open>Ranges of addresses\<close>

text \<open>The bytes from \<open>a\<close> on, as \<open>clear_mem\<close> clears them.\<close>

definition bytes_at :: "u32 \<Rightarrow> nat \<Rightarrow> u32 set" where
  "bytes_at a n = {x. unat a \<le> unat x \<and> unat x < unat a + n}"

lemma sub_less_iff:
  assumes "unat a + unat n < 2 ^ 32"
  shows "(x :: u32) - a < n \<longleftrightarrow> x \<in> bytes_at a (unat n)"
proof (cases "a \<le> x")
  case True
  then have "unat (x - a) = unat x - unat a" by (simp add: unat_sub_no_wrap unat_le_iff)
  then show ?thesis using True by (auto simp: bytes_at_def unat_less_iff unat_le_iff)
next
  case False
  then have lt: "unat x < unat a" by (simp add: unat_le_iff)
  have "unat (x - a) + unat a = unat x + 2 ^ 32"
  proof -
    have "unat (x - a) = (2 ^ 32 + unat x - unat a) mod 2 ^ 32"
      using lt unat_u32_bound [of a] by (simp add: unat_sub_if' unat_le_iff)
    also have "\<dots> = 2 ^ 32 + unat x - unat a" using lt unat_u32_bound [of a] by (intro mod_less) simp
    finally show ?thesis using unat_u32_bound [of a] by simp
  qed
  then show ?thesis using lt assms by (auto simp: bytes_at_def unat_less_iff)
qed

lemma clear_mem_fields:
  assumes "unat a + unat n < 2 ^ 32"
  shows "nxt (clear_mem s a n) = (\<lambda>x. if x \<in> bytes_at a (unat n) then 0 else nxt s x)"
    "prv (clear_mem s a n) = (\<lambda>x. if x \<in> bytes_at a (unat n) then 0 else prv s x)"
    "arenas (clear_mem s a n) = (\<lambda>x. if x \<in> bytes_at a (unat n) then zero_arena else arenas s x)"
    "mem (clear_mem s a n) = (\<lambda>x. if x \<in> bytes_at a (unat n) then 0 else mem s x)"
  using sub_less_iff [OF assms] by (simp_all add: clear_mem_def)

section \<open>The heap as the code has it\<close>

definition kwaiters :: u32 where
  "kwaiters = waiters (semaphore (pool_lock PF_KERNEL))"

definition klists :: "(nat \<Rightarrow> u32 list) \<Rightarrow> u32 \<Rightarrow> u32 list option" where
  "klists F = (map_of (map (\<lambda>i. (free_list (kdesc i), F i)) [0..<7]))(kwaiters \<mapsto> [])"

text \<open>A small arena and a large one, and that large arenas have no page in common.\<close>

definition arena_ok :: "'a memory_scheme \<Rightarrow> (nat \<Rightarrow> u32 list) \<Rightarrow> nat \<Rightarrow> nat \<Rightarrow> bool" where
  "arena_ok s F p i \<longleftrightarrow> i < 7 \<and> p \<le> kpages s \<and> kused s p \<and> kmap s p \<noteq> None \<and>
     arenas s (kpage p) = \<lparr>arena_desc = kdesc i, arena_cnt = of_nat (card (blocks p i \<inter> set (F i))), arena_large = 0\<rparr>"

definition large_ok :: "'a memory_scheme \<Rightarrow> (nat \<Rightarrow> nat option) \<Rightarrow> nat \<Rightarrow> nat \<Rightarrow> bool" where
  "large_ok s A p n \<longleftrightarrow> 0 < n \<and> p + n \<le> Suc (kpages s) \<and>
     (\<forall>j \<in> {p..<p + n}. kused s j \<and> kmap s j \<noteq> None \<and> A j = None) \<and>
     arenas s (kpage p) = \<lparr>arena_desc = NULL, arena_cnt = of_nat n, arena_large = 1\<rparr>"

definition apart :: "(nat \<Rightarrow> nat option) \<Rightarrow> bool" where
  "apart G \<longleftrightarrow> (\<forall>p n q m. G p = Some n \<longrightarrow> G q = Some m \<longrightarrow> p \<noteq> q \<longrightarrow> {p..<p + n} \<inter> {q..<q + m} = {})"

definition descs_ok :: "'a memory_scheme \<Rightarrow> bool" where
  "descs_ok s \<longleftrightarrow> (\<forall>i < 7. block_descs s (kdesc i) = \<lparr>block_size = of_nat (bsize i), block_per_arena = of_nat (bcount i)\<rparr>)"

definition heap_data :: "'a memory_scheme \<Rightarrow> (nat \<Rightarrow> nat option) \<Rightarrow> (nat \<Rightarrow> u32 list) \<Rightarrow> (nat \<Rightarrow> nat option) \<Rightarrow> bool" where
  "heap_data s A F G \<longleftrightarrow> kpages_ok s \<and> descs_ok s \<and>
     (\<forall>i < 7. \<forall>b \<in> set (F i). \<exists>p. A p = Some i \<and> b \<in> blocks p i) \<and>
     (\<forall>p i. A p = Some i \<longrightarrow> arena_ok s F p i) \<and> (\<forall>p n. G p = Some n \<longrightarrow> large_ok s A p n) \<and> apart G"

definition heap_inv :: "'a memory_scheme \<Rightarrow> (nat \<Rightarrow> nat option) \<Rightarrow> (nat \<Rightarrow> u32 list) \<Rightarrow> (nat \<Rightarrow> nat option) \<Rightarrow> bool" where
  "heap_inv s A F G \<longleftrightarrow> heap_data s A F G \<and> lists_rep s (klists F)"

text \<open>The parts of the state the heap does not touch, besides the interrupt flag.\<close>

definition rest :: "'a memory_scheme \<Rightarrow> _" where
  "rest s = (user_pool s, sem_value s, lock_holder s, holder_repeat_nr s, cur s, tasks s, block_descs s)"

lemma pages_cong:
  assumes "ptw s = ptw t" "kernel_pool s = kernel_pool t" "user_pool s = user_pool t" "kernel_vaddr s = kernel_vaddr t"
  shows "kpages_ok s = kpages_ok t" "kpages s = kpages t" "kused s = kused t" "kmap s = kmap t"
proof -
  show k: "kpages s = kpages t" "kused s = kused t" "kmap s = kmap t"
    using assms by (simp_all add: kpages_def kused_def kbm_def kmap_def mapped_def table_present_def addr_v2p_def fun_eq_iff)
  have "frames_ok s = frames_ok t" using k assms by (simp add: frames_ok_def pools_ok_def frame_used_def)
  moreover have "kbitmap_ok s = kbitmap_ok t" using k assms by (simp add: kbitmap_ok_def kbm_def)
  ultimately show "kpages_ok s = kpages_ok t" using k by (simp add: kpages_ok_def)
qed

lemma more_same:
  assumes "lheap.more s = lheap.more (t :: 'a memory_scheme)"
  shows "ptw s = ptw t" "kernel_pool s = kernel_pool t" "user_pool s = user_pool t" "kernel_vaddr s = kernel_vaddr t"
    "arenas s = arenas t" "mem s = mem t" "rest s = rest t"
  using assms by (cases s; cases t; simp add: rest_def)+

lemma heap_data_cong:
  assumes "kpages_ok s = kpages_ok t" "kpages s = kpages t" "kused s = kused t" "kmap s = kmap t"
    "arenas s = arenas t" "block_descs s = block_descs t"
  shows "heap_data s A F G = heap_data t A F G"
  using assms by (simp add: heap_data_def descs_ok_def arena_ok_def large_ok_def)

lemma heap_data_more:
  "lheap.more s = lheap.more (t :: 'a memory_scheme) \<Longrightarrow> heap_data s A F G = heap_data t A F G"
  by (rule heap_data_cong) (use more_same [of s t] pages_cong [of s t] in \<open>auto simp: rest_def\<close>)

text \<open>The lists of the heap.\<close>

lemma heads:
  "i < 7 \<Longrightarrow> unat (free_list (kdesc i)) = 3221314344 + 24 * i"
  "unat kwaiters = 3221314552"
proof -
  assume "i < 7"
  then have u: "unat (of_nat i :: u32) = i" by (simp add: unat_of_nat_small)
  then have "unat (24 * of_nat i :: u32) = 24 * i" using \<open>i < 7\<close> by (subst unat_mult_no_wrap) simp_all
  then have "unat (kdesc i) = 3221314336 + 24 * i"
    using \<open>i < 7\<close> unfolding kdesc_def desc_at_def k_block_descs_def by (subst unat_add_no_wrap) simp_all
  then show "unat (free_list (kdesc i)) = 3221314344 + 24 * i"
    using \<open>i < 7\<close> unfolding free_list_def by (subst unat_add_no_wrap) simp_all
next
  show "unat kwaiters = 3221314552" by (simp add: kwaiters_def waiters_def semaphore_def pool_lock_def)
qed

lemma head_inj: "i < 7 \<Longrightarrow> j < 7 \<Longrightarrow> free_list (kdesc i) = free_list (kdesc j) \<longleftrightarrow> i = j"
  using heads(1) [of i] heads(1) [of j] by (metis add_left_cancel mult_left_cancel zero_neq_numeral)

lemma head_not_waiters: "i < 7 \<Longrightarrow> free_list (kdesc i) \<noteq> kwaiters"
proof
  assume "i < 7" "free_list (kdesc i) = kwaiters"
  then have "3221314344 + 24 * i = 3221314552" using heads(1) [of i] heads(2) by metis
  with \<open>i < 7\<close> show False by simp
qed

lemma klists_head: "i < 7 \<Longrightarrow> klists F (free_list (kdesc i)) = Some (F i)"
proof -
  assume i: "i < 7"
  have "map_of (map (\<lambda>i. (free_list (kdesc i), F i)) [0..<7]) (free_list (kdesc i)) = Some (F i)"
    using i head_inj by (intro map_of_is_SomeI) (auto simp: distinct_map o_def intro!: inj_onI)
  then show ?thesis using head_not_waiters [OF i] by (simp add: klists_def)
qed

lemma klists_waiters: "klists F kwaiters = Some []"
  by (simp add: klists_def)

lemma klists_cases:
  assumes "klists F l = Some xs"
  obtains "l = kwaiters" "xs = []" | i where "i < 7" "l = free_list (kdesc i)" "xs = F i"
  using assms by (auto simp: klists_def split: if_splits dest!: map_of_SomeD)

lemma klists_other: "l \<noteq> kwaiters \<Longrightarrow> (\<forall>i < 7. l \<noteq> free_list (kdesc i)) \<Longrightarrow> klists F l = None"
  by (metis klists_cases not_None_eq)

lemma klists_upd: "i < 7 \<Longrightarrow> (klists F)(free_list (kdesc i) \<mapsto> xs) = klists (F(i := xs))"
proof
  fix l
  assume i: "i < 7"
  consider "l = kwaiters" | j where "j < 7" "l = free_list (kdesc j)" | "l \<noteq> kwaiters" "\<forall>j < 7. l \<noteq> free_list (kdesc j)"
    by blast
  then show "((klists F)(free_list (kdesc i) \<mapsto> xs)) l = klists (F(i := xs)) l"
  proof cases
    case 1
    then show ?thesis using head_not_waiters [OF i] by (auto simp: klists_waiters)
  next
    case 2
    then show ?thesis using i head_inj [OF i 2(1)] by (auto simp: klists_head)
  next
    case 3
    then show ?thesis using i klists_other [OF 3] by auto
  qed
qed

lemma heads_low:
  assumes "klists F l = Some xs"
  shows "unat l < 3222274048" and "unat (TAIL l) < 3222274048"
proof -
  have l: "unat l < 3222274000"
    using assms by (cases rule: klists_cases) (simp_all add: heads)
  then show "unat l < 3222274048" by simp
  have "unat (TAIL l) = unat l + 8" using l unfolding TAIL_def by (subst unat_add_no_wrap) simp_all
  then show "unat (TAIL l) < 3222274048" using l by simp
qed

text \<open>Which page an address lies in.\<close>

definition kpageno :: "u32 \<Rightarrow> nat" where
  "kpageno x = (unat x - 3222274048) div 4096"

lemma in_pages:
  assumes "p \<le> 32768"
  shows "x \<in> bytes_at (kpage p) (4096 * n) \<longleftrightarrow> 3222274048 \<le> unat x \<and> p \<le> kpageno x \<and> kpageno x < p + n"
proof -
  have "kpageno x < p + n \<longleftrightarrow> unat x - 3222274048 < (p + n) * 4096"
    unfolding kpageno_def by (rule div_less_iff_less_mult) simp
  moreover have "p \<le> kpageno x \<longleftrightarrow> p * 4096 \<le> unat x - 3222274048"
    unfolding kpageno_def by (rule less_eq_div_iff_mult_less_eq) simp
  moreover have "unat x \<ge> 3222274048 + 4096 * p \<longleftrightarrow> 3222274048 \<le> unat x \<and> p * 4096 \<le> unat x - 3222274048"
    by linarith
  ultimately show ?thesis unfolding bytes_at_def unat_kpage [OF assms] by (simp, linarith)
qed

lemma in_page: "p \<le> 32768 \<Longrightarrow> x \<in> bytes_at (kpage p) 4096 \<longleftrightarrow> 3222274048 \<le> unat x \<and> kpageno x = p"
  using in_pages [of p x 1] by auto

lemma kpageno_kpage [simp]: "p \<le> 32768 \<Longrightarrow> kpageno (kpage p) = p"
  unfolding kpageno_def by (subst unat_kpage) simp_all

lemma kpage_high [simp]: "p \<le> 32768 \<Longrightarrow> 3222274048 \<le> unat (kpage p)"
  by (subst unat_kpage) simp_all

text \<open>The bytes of a block lie in its page, behind the header, and blocks do not overlap.\<close>

lemma bytes_in_block:
  assumes "p \<le> 32768" "i < 7" "k < bcount i" and "x \<in> bytes_at (block p i k) (bsize i)"
  shows "3222274048 \<le> unat x" and "kpageno x = p" and "x \<noteq> kpage p" and "(unat x - unat (kpage p) - 12) div bsize i = k"
proof -
  have f: "k * bsize i + bsize i \<le> 4084" using block_fits [OF assms(2,3)] .
  have x: "3222274060 + 4096 * p + k * bsize i \<le> unat x" "unat x < 3222274060 + 4096 * p + k * bsize i + bsize i"
    using assms(4) unat_block [OF assms(1-3)] by (auto simp: bytes_at_def)
  then show "3222274048 \<le> unat x" by linarith
  have "x \<in> bytes_at (kpage p) 4096"
    using x f unfolding bytes_at_def unat_kpage [OF assms(1)] by simp
  then show "kpageno x = p" using in_page [OF assms(1)] by blast
  show "x \<noteq> kpage p" using x unat_kpage [OF assms(1)] by auto
  have "unat x - unat (kpage p) - 12 = (unat x - 3222274060 - 4096 * p - k * bsize i) + k * bsize i"
    using x unfolding unat_kpage [OF assms(1)] by linarith
  moreover have "unat x - 3222274060 - 4096 * p - k * bsize i < bsize i" using x by linarith
  ultimately show "(unat x - unat (kpage p) - 12) div bsize i = k" by (simp only: div_mult_self1 bsize_pos) simp
qed

lemma block_in_block: "p \<le> 32768 \<Longrightarrow> i < 7 \<Longrightarrow> k < bcount i \<Longrightarrow> block p i k \<in> bytes_at (block p i k) (bsize i)"
  by (simp add: bytes_at_def)

lemma heap_dataD:
  assumes "heap_data s A F G"
  shows "kpages_ok s" "kpages s \<le> 32768" "descs_ok s" "apart G"
    "\<And>i b. i < 7 \<Longrightarrow> b \<in> set (F i) \<Longrightarrow> \<exists>p. A p = Some i \<and> b \<in> blocks p i"
    "\<And>p i. A p = Some i \<Longrightarrow> arena_ok s F p i" "\<And>p n. G p = Some n \<Longrightarrow> large_ok s A p n"
  using assms by (simp_all add: heap_data_def kpages_ok_def kbitmap_ok_def)

lemma heap_desc:
  assumes "heap_data s A F G" and "i < 7"
  shows "block_descs s (kdesc i) = \<lparr>block_size = of_nat (bsize i), block_per_arena = of_nat (bcount i)\<rparr>"
  using heap_dataD(3) [OF assms(1)] assms(2) by (simp add: descs_ok_def)

lemma heap_arena:
  assumes "heap_data s A F G" and "A p = Some i"
  shows "i < 7" "p \<le> kpages s" "p \<le> 32768" "kused s p" "kmap s p \<noteq> None"
    "arenas s (kpage p) = \<lparr>arena_desc = kdesc i, arena_cnt = of_nat (card (blocks p i \<inter> set (F i))), arena_large = 0\<rparr>"
proof -
  note a = heap_dataD(6) [OF assms, unfolded arena_ok_def]
  then show "i < 7" "p \<le> kpages s" "kused s p" "kmap s p \<noteq> None"
    "arenas s (kpage p) = \<lparr>arena_desc = kdesc i, arena_cnt = of_nat (card (blocks p i \<inter> set (F i))), arena_large = 0\<rparr>"
    by blast+
  show "p \<le> 32768" using a heap_dataD(2) [OF assms(1)] by linarith
qed

lemma heap_large:
  assumes "heap_data s A F G" and "G p = Some n"
  shows "0 < n" "p + n \<le> Suc (kpages s)" "p \<le> 32768"
    "\<And>j. j \<in> {p..<p + n} \<Longrightarrow> kused s j \<and> kmap s j \<noteq> None \<and> A j = None"
    "arenas s (kpage p) = \<lparr>arena_desc = NULL, arena_cnt = of_nat n, arena_large = 1\<rparr>"
proof -
  note g = heap_dataD(7) [OF assms, unfolded large_ok_def]
  then show "0 < n" "p + n \<le> Suc (kpages s)"
    "\<And>j. j \<in> {p..<p + n} \<Longrightarrow> kused s j \<and> kmap s j \<noteq> None \<and> A j = None"
    "arenas s (kpage p) = \<lparr>arena_desc = NULL, arena_cnt = of_nat n, arena_large = 1\<rparr>" by blast+
  show "p \<le> 32768" using g heap_dataD(2) [OF assms(1)] by linarith
qed

lemma heap_large_disjoint:
  "heap_data s A F G \<Longrightarrow> G p = Some n \<Longrightarrow> G q = Some m \<Longrightarrow> p \<noteq> q \<Longrightarrow> {p..<p + n} \<inter> {q..<q + m} = {}"
  using heap_dataD(4) unfolding apart_def by blast

section \<open>Frames of the heap's lists\<close>

lemma heap_free_block:
  assumes "heap_data s A F G" and "i < 7" and "b \<in> set (F i)"
  obtains p k where "A p = Some i" "p \<le> 32768" "p \<le> kpages s" "kused s p" "k < bcount i" "b = block p i k"
proof -
  obtain p where p: "A p = Some i" "b \<in> blocks p i" using heap_dataD(5) [OF assms] by blast
  then obtain k where "k < bcount i" "b = block p i k" by (auto simp: blocks_def)
  then show ?thesis using that p(1) heap_arena(2-4) [OF assms(1) p(1)] by blast
qed

text \<open>A set of addresses that holds neither heads nor free blocks.\<close>

definition clear_of :: "(nat \<Rightarrow> u32 list) \<Rightarrow> u32 set \<Rightarrow> bool" where
  "clear_of F R \<longleftrightarrow> (\<forall>x \<in> R. 3222274048 \<le> unat x \<and> (\<forall>i < 7. x \<notin> set (F i)))"

lemma clear_of_cells: "clear_of F R \<Longrightarrow> klists F l = Some xs \<Longrightarrow> list_cells l xs \<inter> R = {}"
  using heads_low [of F l xs] by (fastforce simp: clear_of_def list_cells_def elim!: klists_cases)

lemma clear_of_unlinked: "clear_of F {e} \<Longrightarrow> unlinked (klists F) e"
  using clear_of_cells [of F "{e}"] by (auto simp: unlinked_def)

lemma clear_of_mono: "clear_of F R \<Longrightarrow> S \<subseteq> R \<Longrightarrow> clear_of F S"
  by (auto simp: clear_of_def)

lemma lists_clear:
  assumes "lists_rep s (klists F)" and "clear_of F R"
    and "\<And>x. x \<notin> R \<Longrightarrow> nxt s' x = nxt s x \<and> prv s' x = prv s x"
  shows "lists_rep s' (klists F)"
proof -
  have "list_rep s' l xs" if "klists F l = Some xs" for l xs
  proof (rule list_rep_frame [OF lists_repD [OF assms(1) that]])
    fix x assume "x \<in> list_cells l xs"
    then have "x \<notin> R" using clear_of_cells [OF assms(2) that] by blast
    then show "nxt s' x = nxt s x \<and> prv s' x = prv s x" by (rule assms(3))
  qed
  then show ?thesis using assms(1) by (simp add: lists_rep_def)
qed

lemma clear_of_pages:
  assumes "heap_data s A F G" and "p \<le> 32768" and "\<forall>q \<in> {p..<p + n}. A q = None"
  shows "clear_of F (bytes_at (kpage p) (4096 * n))"
  unfolding clear_of_def
proof (intro ballI conjI allI impI)
  fix x assume x: "x \<in> bytes_at (kpage p) (4096 * n)"
  then have pg: "3222274048 \<le> unat x" "kpageno x \<in> {p..<p + n}" using in_pages [OF assms(2)] by auto
  show "3222274048 \<le> unat x" by (rule pg(1))
  fix i :: nat assume i: "i < 7"
  show "x \<notin> set (F i)"
  proof
    assume "x \<in> set (F i)"
    from heap_free_block [OF assms(1) i this] obtain q k where
      q: "A q = Some i" "q \<le> 32768" "k < bcount i" "x = block q i k" by metis
    have "kpageno x = q" using bytes_in_block(2) [OF q(2) i q(3) block_in_block [OF q(2) i q(3)]] q(4) by simp
    then show False using assms(3) pg(2) q(1) by simp
  qed
qed

lemma clear_of_block:
  assumes "heap_data s A F G" and "A p = Some i" and "k < bcount i" and "block p i k \<notin> set (F i)"
  shows "clear_of F (bytes_at (block p i k) (bsize i))"
  unfolding clear_of_def
proof (intro ballI conjI allI impI)
  have p: "p \<le> 32768" "i < 7" using heap_arena [OF assms(1,2)] by blast+
  fix x assume x: "x \<in> bytes_at (block p i k) (bsize i)"
  note at = bytes_in_block [OF p assms(3) x]
  show "3222274048 \<le> unat x" by (rule at(1))
  fix j :: nat assume j: "j < 7"
  show "x \<notin> set (F j)"
  proof
    assume xj: "x \<in> set (F j)"
    from heap_free_block [OF assms(1) j this] obtain q l where
      q: "A q = Some j" "q \<le> 32768" "l < bcount j" "x = block q j l" by metis
    have in_q: "x \<in> bytes_at (block q j l) (bsize j)" using block_in_block [OF q(2) j q(3)] q(4) by simp
    have "p = q" using bytes_in_block(2) [OF q(2) j q(3) in_q] at(2) by simp
    then have ij: "i = j" using assms(2) q(1) by simp
    then have "k = l" using bytes_in_block(4) [OF q(2) j q(3) in_q] at(4) \<open>p = q\<close> by simp
    then show False using assms(4) xj q(4) \<open>p = q\<close> ij by simp
  qed
qed

section \<open>A new arena\<close>

definition same_pages :: "'a memory_scheme \<Rightarrow> 'a memory_scheme \<Rightarrow> bool" where
  "same_pages s s' \<longleftrightarrow> kpages_ok s' = kpages_ok s \<and> kpages s' = kpages s \<and> kused s' = kused s \<and> kmap s' = kmap s \<and>
     block_descs s' = block_descs s"

lemma same_pages_fields:
  assumes "ptw s' = ptw s" "kernel_pool s' = kernel_pool s" "user_pool s' = user_pool s" "kernel_vaddr s' = kernel_vaddr s"
    "block_descs s' = block_descs s"
  shows "same_pages s s'"
  using pages_cong [OF assms(1-4)] assms(5) by (simp add: same_pages_def)

lemma list_append_more: "lheap.more (list_append s l e) = lheap.more s"
  by (simp add: list_append_def klist)

lemma arena2block_block:
  assumes "arena_desc (arenas s (kpage p)) = kdesc i" and "block_size (block_descs s (kdesc i)) = of_nat (bsize i)"
  shows "arena2block s (kpage p) (of_nat k) = block p i k"
  using assms by (simp add: arena2block_def block_def sizeof_arena_def)

lemma block_notin:
  assumes "p \<le> 32768" "i < 7" "m < bcount i"
  shows "block p i m \<notin> set (map (block p i) [0..<m])"
proof
  assume "block p i m \<in> set (map (block p i) [0..<m])"
  then obtain l where "l < m" "block p i m = block p i l" by auto
  then show False using block_inj [OF assms, of l] assms(3) by simp
qed

lemma block_in_page: "p \<le> 32768 \<Longrightarrow> i < 7 \<Longrightarrow> k < bcount i \<Longrightarrow> block p i k \<in> bytes_at (kpage p) 4096"
  using bytes_in_block(1,2) [OF _ _ _ block_in_block] in_page by blast

lemma split_arena_eq:
  "p \<le> 32768 \<Longrightarrow> i < 7 \<Longrightarrow> arena_desc (arenas s (kpage p)) = kdesc i \<Longrightarrow>
   block_size (block_descs s (kdesc i)) = of_nat (bsize i) \<Longrightarrow>
   lists_rep s (klists (F(i := map (block p i) [0..<m]))) \<Longrightarrow> m + k = bcount i \<Longrightarrow>
   clear_of (F(i := [])) (bytes_at (kpage p) 4096) \<Longrightarrow>
   \<exists>t. split_arena s (kpage p) (of_nat m) k = Inr t \<and> lheap.more t = lheap.more s \<and>
     lists_rep t (klists (F(i := map (block p i) [0..<bcount i])))"
proof (induction k arbitrary: s m)
  case 0
  then have "m = bcount i" by simp
  then show ?case using 0(5) by (simp only: split_arena.simps) blast
next
  case (Suc k)
  let ?F = "F(i := map (block p i) [0..<m])" and ?b = "block p i m" and ?l = "free_list (kdesc i)"
  have m: "m < bcount i" using Suc.prems(6) by simp
  have head: "klists ?F ?l = Some (map (block p i) [0..<m])" using klists_head [OF Suc.prems(2), of ?F] by simp
  have out: "?b \<notin> set (map (block p i) [0..<m])" by (rule block_notin [OF Suc.prems(1,2) m])
  have in_p: "?b \<in> bytes_at (kpage p) 4096" by (rule block_in_page [OF Suc.prems(1,2) m])
  have "?b \<notin> set (?F j)" if "j < 7" for j
  proof (cases "j = i")
    case False
    have "?b \<notin> set ((F(i := [])) j)" using Suc.prems(7) in_p that unfolding clear_of_def by blast
    with False show ?thesis by simp
  qed (use out in simp)
  then have "clear_of ?F {?b}" using Suc.prems(7) in_p by (simp add: clear_of_def)
  then have un: "unlinked (klists ?F) ?b" by (rule clear_of_unlinked)
  let ?s = "list_append s ?l ?b"
  have "lists_rep ?s ((klists ?F)(?l \<mapsto> map (block p i) [0..<m] @ [?b]))"
    by (rule lists_append [OF Suc.prems(5) head un])
  then have rep: "lists_rep ?s (klists (F(i := map (block p i) [0..<Suc m])))"
    unfolding klists_upd [OF Suc.prems(2)] by simp
  have more: "lheap.more ?s = lheap.more s" by (rule list_append_more)
  have same: "arenas ?s = arenas s" "block_descs ?s = block_descs s"
    using more_same(5,7) [OF more] by (simp_all add: rest_def)
  have "arena_desc (arenas ?s (kpage p)) = kdesc i" "block_size (block_descs ?s (kdesc i)) = of_nat (bsize i)"
    "Suc m + k = bcount i"
    using Suc.prems(3,4,6) same by simp_all
  from Suc.IH [OF Suc.prems(1,2) this(1,2) rep this(3) Suc.prems(7)] obtain t where
    t: "split_arena ?s (kpage p) (of_nat (Suc m)) k = Inr t" "lheap.more t = lheap.more ?s"
      "lists_rep t (klists (F(i := map (block p i) [0..<bcount i])))" by blast
  have "elem_find s ?l ?b = Inr False" using lists_find [OF Suc.prems(5) head] out by simp
  moreover have "arena2block s (kpage p) (of_nat m) = ?b" using arena2block_block [OF Suc.prems(3,4)] .
  ultimately have "split_arena s (kpage p) (of_nat m) (Suc k) = Inr t"
    using Suc.prems(3) t(1) by (simp add: Let_def add.commute)
  moreover have "lheap.more t = lheap.more s" using t(2) more by simp
  ultimately show ?case using t(3) by blast
qed

lemma gives_keeps: "gives_pages s i n s' \<Longrightarrow> keeps_pages s s'"
  unfolding gives_pages_def keeps_pages_def by blast

lemma heap_data_keep:
  assumes "heap_data s A F G" and "keeps_pages s s'" and "kpages_ok s'" and "kpages s' = kpages s"
    and "block_descs s' = block_descs s" and "\<And>q. q \<le> kpages s \<Longrightarrow> kused s q \<Longrightarrow> arenas s' (kpage q) = arenas s (kpage q)"
  shows "heap_data s' A F G"
proof -
  have pg: "kused s' j \<and> kmap s' j = kmap s j" if "kused s j" "j \<le> kpages s" for j
    using assms(2) that by (simp add: keeps_pages_def)
  have "arena_ok s' F p i" if "A p = Some i" for p i
    using heap_arena [OF assms(1) that] pg [of p] assms(4,6) by (simp add: arena_ok_def)
  moreover have "large_ok s' A p n" if "G p = Some n" for p n
  proof -
    note g = heap_large [OF assms(1) that]
    have "p \<in> {p..<p + n}" "p \<le> kpages s" using g(1,2) by auto
    then have "arenas s' (kpage p) = arenas s (kpage p)" using assms(6) g(4) by blast
    moreover have "kused s' j \<and> kmap s' j \<noteq> None \<and> A j = None" if "j \<in> {p..<p + n}" for j
      using g(2) g(4) [OF that] pg [of j] that by auto
    ultimately show ?thesis using g assms(4) by (simp add: large_ok_def)
  qed
  ultimately show ?thesis
    using heap_dataD [OF assms(1)] assms(3,5) by (simp add: heap_data_def descs_ok_def)
qed

text \<open>The ghost state after a page became an arena of class \<open>i\<close> with all blocks free.\<close>

lemma heap_data_new_arena:
  assumes "heap_data s A F G" and "i < 7" and "F i = []"
    and "p \<le> kpages s" "kused s p" "kmap s p \<noteq> None" "A p = None" "\<And>q n. G q = Some n \<Longrightarrow> p \<notin> {q..<q + n}"
    and "same_pages s s'" and "arenas s' (kpage p) = \<lparr>arena_desc = kdesc i, arena_cnt = of_nat (bcount i), arena_large = 0\<rparr>"
    and "\<And>q. q \<le> kpages s \<Longrightarrow> q \<noteq> p \<Longrightarrow> arenas s' (kpage q) = arenas s (kpage q)"
  shows "heap_data s' (A(p \<mapsto> i)) (F(i := map (block p i) [0..<bcount i])) G"
proof -
  let ?F = "F(i := map (block p i) [0..<bcount i])" and ?A = "A(p \<mapsto> i)"
  note same = assms(9) [unfolded same_pages_def]
  have p: "p \<le> 32768" using assms(4) heap_dataD(2) [OF assms(1)] by simp
  have all: "set (?F i) = blocks p i" by (simp add: blocks_def atLeast0LessThan)
  have "arena_ok s' ?F q j" if "?A q = Some j" for q j
  proof (cases "q = p")
    case True
    then have "j = i" using that by simp
    then show ?thesis
      using assms(2,4-6,10) True all same card_blocks [OF p assms(2)] by (simp add: arena_ok_def)
  next
    case False
    then have q: "A q = Some j" using that by simp
    note a = heap_arena [OF assms(1) q]
    have "blocks q j \<inter> set (?F j) = blocks q j \<inter> set (F j)"
    proof (cases "j = i")
      case True
      have "blocks q i \<inter> blocks p i = {}"
        using block_page_unique [OF a(3) assms(2) _ p assms(2)] False by (auto simp: blocks_def)
      then show ?thesis using True all assms(3) by simp
    qed simp
    then show ?thesis using a assms(11) [OF a(2) False] same by (simp add: arena_ok_def)
  qed
  moreover have "large_ok s' ?A q n" if "G q = Some n" for q n
  proof -
    note g = heap_large [OF assms(1) that]
    have "q \<in> {q..<q + n}" using g(1) by simp
    then have "q \<noteq> p" "q \<le> kpages s" using assms(8) [OF that] g(1,2) by auto
    then show ?thesis using g assms(8) [OF that] assms(11) [of q] same by (auto simp: large_ok_def)
  qed
  moreover have "\<exists>q. ?A q = Some j \<and> b \<in> blocks q j" if jb: "j < 7" "b \<in> set (?F j)" for j b
  proof (cases "j = i")
    case True
    then show ?thesis using jb(2) all by (intro exI [of _ p]) simp
  next
    case False
    then obtain q where "A q = Some j" "b \<in> blocks q j" using heap_dataD(5) [OF assms(1) jb(1)] jb(2) by auto
    moreover then have "q \<noteq> p" using assms(7) by auto
    ultimately show ?thesis by (intro exI [of _ q]) simp
  qed
  ultimately show ?thesis
    using heap_dataD [OF assms(1)] same unfolding heap_data_def descs_ok_def by metis
qed

lemma clear_page_fields:
  assumes "p \<le> 32768"
  shows "nxt (clear_mem s (kpage p) PG_SIZE) = (\<lambda>x. if x \<in> bytes_at (kpage p) 4096 then 0 else nxt s x)"
    "prv (clear_mem s (kpage p) PG_SIZE) = (\<lambda>x. if x \<in> bytes_at (kpage p) 4096 then 0 else prv s x)"
    "arenas (clear_mem s (kpage p) PG_SIZE) = (\<lambda>x. if x \<in> bytes_at (kpage p) 4096 then zero_arena else arenas s x)"
    "mem (clear_mem s (kpage p) PG_SIZE) = (\<lambda>x. if x \<in> bytes_at (kpage p) 4096 then 0 else mem s x)"
proof -
  have "unat (kpage p) + unat PG_SIZE < 2 ^ 32" using unat_kpage [OF assms] assms by (simp add: PG_SIZE_def)
  from clear_mem_fields [OF this] show
    "nxt (clear_mem s (kpage p) PG_SIZE) = (\<lambda>x. if x \<in> bytes_at (kpage p) 4096 then 0 else nxt s x)"
    "prv (clear_mem s (kpage p) PG_SIZE) = (\<lambda>x. if x \<in> bytes_at (kpage p) 4096 then 0 else prv s x)"
    "arenas (clear_mem s (kpage p) PG_SIZE) = (\<lambda>x. if x \<in> bytes_at (kpage p) 4096 then zero_arena else arenas s x)"
    "mem (clear_mem s (kpage p) PG_SIZE) = (\<lambda>x. if x \<in> bytes_at (kpage p) 4096 then 0 else mem s x)"
    by (simp_all add: PG_SIZE_def)
qed

lemma only_pages_fields:
  assumes "only_pages s (s' :: 'a memory_scheme)"
  shows "nxt s' = nxt s" "prv s' = prv s" "arenas s' = arenas s" "mem s' = mem s" "rest s' = rest s"
  using assms by (auto simp: only_pages_def rest_def)

lemma rest_clear [simp]: "rest (clear_mem s a n) = rest s"
  by (simp add: rest_def clear_mem_def)

lemma rest_upd_arena [simp]: "rest (upd_arena s a f) = rest s"
  by (simp add: rest_def upd_arena_def)

lemma upd_arena_fields [simp]:
  "nxt (upd_arena s a f) = nxt s" "prv (upd_arena s a f) = prv s" "mem (upd_arena s a f) = mem s"
  "arenas (upd_arena s a f) = (arenas s)(a := f (arenas s a))"
  by (simp_all add: upd_arena_def)

lemma same_pages_clear: "same_pages s (clear_mem s a n)"
  by (rule same_pages_fields) (simp_all add: clear_mem_def)

lemma same_pages_arena: "same_pages s (upd_arena s a f)"
  by (rule same_pages_fields) (simp_all add: upd_arena_def)

lemma same_pages_more: "lheap.more s' = lheap.more s \<Longrightarrow> same_pages s s'"
  by (rule same_pages_fields) (use more_same [of s' s] in \<open>auto simp: rest_def\<close>)

lemma same_pages_trans: "same_pages s t \<Longrightarrow> same_pages t u \<Longrightarrow> same_pages s u"
  by (simp add: same_pages_def)

lemma heap_inv_pages:
  assumes "heap_inv s A F G" and "keeps_pages s t" and "kpages_ok t" and "kpages t = kpages s" and "only_pages s t"
  shows "heap_inv t A F G"
proof -
  note o = only_pages_fields [OF assms(5)]
  have "block_descs t = block_descs s" using o(5) by (simp add: rest_def)
  then have "heap_data t A F G"
    using heap_data_keep [of s A F G t] assms o(3) by (simp add: heap_inv_def)
  then show ?thesis using assms(1) lists_rep_links [OF o(1,2)] by (simp add: heap_inv_def)
qed

lemma unused_page:
  assumes "heap_data s A F G" and "\<not> kused s p"
  shows "A p = None" and "G q = Some n \<Longrightarrow> p \<notin> {q..<q + n}"
proof -
  show "A p = None" using heap_arena(4) [OF assms(1)] assms(2) by (cases "A p") blast+
  show "G q = Some n \<Longrightarrow> p \<notin> {q..<q + n}" using heap_large(4) [OF assms(1)] assms(2) by blast
qed

lemma bracket_more:
  "lheap.more (snd (intr_set_status z w)) = lheap.more z" "lheap.more (snd (intr_disable s)) = lheap.more s"
  "nxt (snd (intr_set_status z w)) = nxt z" "prv (snd (intr_set_status z w)) = prv z"
  "nxt (snd (intr_disable s)) = nxt s" "prv (snd (intr_disable s)) = prv s"
  by (simp_all add: klist)

lemma new_arena_eq:
  assumes "heap_inv s A F G" and "i < 7" and "F i = []"
  shows "\<exists>ok s'. new_arena s PF_KERNEL (kdesc i) = Inr (ok, s') \<and> rest s' = rest s \<and>
    (if ok then \<exists>p. p \<le> 32768 \<and> \<not> kused s p \<and> heap_inv s' (A(p \<mapsto> i)) (F(i := map (block p i) [0..<bcount i])) G \<and>
        (\<forall>x. x \<notin> bytes_at (kpage p) 4096 \<longrightarrow> mem s' x = mem s x)
     else heap_inv s' A F G \<and> mem s' = mem s \<and> short_of s 1 s')"
proof -
  have d: "heap_data s A F G" "lists_rep s (klists F)" using assms(1) by (simp_all add: heap_inv_def)
  obtain v t where t: "malloc_page s PF_KERNEL 1 = Inr (v, t)" "kpages_ok t" "only_pages s t" "kpages t = kpages s"
    "if v = NULL then keeps_pages s t \<and> short_of s (unat (1 :: u32)) t else \<exists>p. v = kpage p \<and> gives_pages s p (unat (1 :: u32)) t"
    using malloc_page_eq [OF heap_dataD(1) [OF d(1)], of 1] by auto
  note o = only_pages_fields [OF t(3)]
  show ?thesis
  proof (cases "v = NULL")
    case True
    then have "heap_inv t A F G" using heap_inv_pages [OF assms(1) _ t(2,4,3)] t(5) by simp
    moreover have "new_arena s PF_KERNEL (kdesc i) = Inr (False, t)" using t(1) True by (simp add: new_arena_def)
    moreover have "short_of s 1 t" using t(5) True by simp
    ultimately show ?thesis using o by auto
  next
    case False
    then obtain p where p: "v = kpage p" "gives_pages s p 1 t" using t(5) by auto
    have pk: "p \<le> kpages s" "\<not> kused s p" "kused t p" "kmap t p \<noteq> None"
      using p(2) by (auto simp: gives_pages_def)
    have p32: "p \<le> 32768" using pk(1) heap_dataD(2) [OF d(1)] by simp
    have dt: "heap_data t A F G" "lists_rep t (klists F)"
      using heap_inv_pages [OF assms(1) gives_keeps [OF p(2)] t(2,4,3)] by (simp_all add: heap_inv_def)
    define c where "c = clear_mem t (kpage p) PG_SIZE"
    define u where "u = upd_arena c (kpage p) (\<lambda>_. \<lparr>arena_desc = kdesc i, arena_cnt = of_nat (bcount i), arena_large = 0\<rparr>)"
    define w where "w = snd (intr_disable u)"
    let ?F = "F(i := map (block p i) [0..<bcount i])"
    note cf = clear_page_fields [OF p32, of t, folded c_def]
    have sp: "same_pages t u" unfolding u_def c_def
      by (rule same_pages_trans [OF same_pages_clear same_pages_arena])
    have du: "heap_data u (A(p \<mapsto> i)) ?F G"
    proof (rule heap_data_new_arena [OF dt(1) assms(2,3)])
      show "p \<le> kpages t" using pk(1) t(4) by simp
      show "A p = None" "\<And>q n. G q = Some n \<Longrightarrow> p \<notin> {q..<q + n}" using unused_page [OF d(1) pk(2)] by blast+
      fix q assume "q \<le> kpages t" "q \<noteq> p"
      then have "kpage q \<notin> bytes_at (kpage p) 4096" "kpage q \<noteq> kpage p"
        using in_page [OF p32] heap_dataD(2) [OF d(1)] t(4) p32 by (auto simp: kpage_eq_iff)
      then show "arenas u (kpage q) = arenas t (kpage q)" by (simp add: u_def cf)
    qed (use pk sp in \<open>simp_all add: u_def\<close>)
    have "clear_of F (bytes_at (kpage p) 4096)"
      using clear_of_pages [OF d(1) p32, of 1] unused_page(1) [OF d(1) pk(2)] by simp
    moreover have "lists_rep c (klists F)"
      using lists_clear [OF dt(2) calculation, of c] by (simp add: cf)
    then have "lists_rep w (klists F)"
      using lists_rep_links [of w c "klists F"] by (simp add: w_def u_def bracket_more)
    moreover have "F(i := []) = F" using assms(3) by auto
    moreover have "lheap.more w = lheap.more u" by (simp add: w_def bracket_more)
    note wu = more_same [OF this]
    ultimately obtain z where z: "split_arena w (kpage p) (of_nat 0) (bcount i) = Inr z" "lheap.more z = lheap.more w"
      "lists_rep z (klists ?F)"
      using split_arena_eq [OF p32 assms(2), of w F 0 "bcount i"] heap_desc [OF dt(1) assms(2)] sp
      by (auto simp: u_def rest_def same_pages_def)
    have desc: "block_descs c (kdesc i) = \<lparr>block_size = of_nat (bsize i), block_per_arena = of_nat (bcount i)\<rparr>"
      using heap_desc [OF dt(1) assms(2)] same_pages_clear [of t] by (simp add: c_def same_pages_def)
    have n: "unat (of_nat (bcount i) :: u32) = bcount i" using bcount_le [OF assms(2)] by (intro unat_of_nat_small) simp
    define z' where "z' = snd (intr_set_status z (fst (intr_disable u)))"
    have r: "new_arena s PF_KERNEL (kdesc i) = Inr (True, z')"
      using t(1) False p(1) z(1) desc n unfolding z'_def w_def u_def c_def new_arena_def by (simp add: Let_def case_prod_beta)
    have more: "lheap.more z' = lheap.more u" using z(2) by (simp add: z'_def w_def bracket_more)
    have "heap_inv z' (A(p \<mapsto> i)) ?F G"
      using du heap_data_more [OF more] z(3) lists_rep_links [of z' z] by (simp add: heap_inv_def z'_def bracket_more)
    moreover have "mem z' x = mem s x" if "x \<notin> bytes_at (kpage p) 4096" for x
      using that more_same(6) [OF more] o(4) by (simp add: u_def cf)
    moreover have "rest z' = rest s" using more_same(7) [OF more] o(5) by (simp add: u_def c_def)
    ultimately show ?thesis using r p32 pk(2) by (intro exI [of _ True] exI [of _ z']) auto
  qed
qed

section \<open>Taking a block off its list and putting one on\<close>

lemma heap_data_free_list:
  assumes "heap_data s A F G" and "A p = Some i" and "same_pages s s'"
    and "arenas s' (kpage p) = \<lparr>arena_desc = kdesc i, arena_cnt = of_nat (card (blocks p i \<inter> set xs)), arena_large = 0\<rparr>"
    and "\<And>q. q \<le> kpages s \<Longrightarrow> q \<noteq> p \<Longrightarrow> arenas s' (kpage q) = arenas s (kpage q)"
    and "\<And>q. A q = Some i \<Longrightarrow> q \<noteq> p \<Longrightarrow> blocks q i \<inter> set xs = blocks q i \<inter> set (F i)"
    and "\<And>b. b \<in> set xs \<Longrightarrow> \<exists>q. A q = Some i \<and> b \<in> blocks q i"
  shows "heap_data s' A (F(i := xs)) G"
proof -
  note same = assms(3) [unfolded same_pages_def]
  have "arena_ok s' (F(i := xs)) q j" if q: "A q = Some j" for q j
  proof (cases "q = p")
    case True
    then have "j = i" using q assms(2) by simp
    then show ?thesis using heap_arena [OF assms(1) q] assms(4) same True by (simp add: arena_ok_def)
  next
    case False
    have "blocks q j \<inter> set ((F(i := xs)) j) = blocks q j \<inter> set (F j)" using assms(6) q False by simp
    then show ?thesis using heap_arena [OF assms(1) q] assms(5) [of q] False same by (simp add: arena_ok_def)
  qed
  moreover have "large_ok s' A q n" if "G q = Some n" for q n
  proof -
    note g = heap_large [OF assms(1) that]
    have "q \<in> {q..<q + n}" using g(1) by simp
    then have "q \<noteq> p" "q \<le> kpages s" using g(4) assms(2) g(1,2) by auto
    then show ?thesis using g assms(5) [of q] same by (simp add: large_ok_def)
  qed
  ultimately show ?thesis
    using heap_dataD [OF assms(1)] same assms(7) unfolding heap_data_def descs_ok_def by (metis fun_upd_apply)
qed

lemma unat_bsize: "i < 7 \<Longrightarrow> unat (of_nat (bsize i) :: u32) = bsize i"
  using bsize_le [of i] by (intro unat_of_nat_small) simp

lemma clear_block_fields:
  fixes s :: "'a memory_scheme"
  assumes "p \<le> 32768" and "i < 7" and "k < bcount i"
  defines "c \<equiv> clear_mem s (block p i k) (of_nat (bsize i))"
  shows "nxt c = (\<lambda>x. if x \<in> bytes_at (block p i k) (bsize i) then 0 else nxt s x)"
    "prv c = (\<lambda>x. if x \<in> bytes_at (block p i k) (bsize i) then 0 else prv s x)"
    "mem c = (\<lambda>x. if x \<in> bytes_at (block p i k) (bsize i) then 0 else mem s x)"
    "\<And>q. q \<le> 32768 \<Longrightarrow> arenas c (kpage q) = arenas s (kpage q)"
proof -
  have "unat (block p i k) + unat (of_nat (bsize i) :: u32) < 2 ^ 32"
    using unat_block [OF assms(1-3)] block_fits [OF assms(2,3)] assms(1) by (simp add: unat_bsize [OF assms(2)])
  note f = clear_mem_fields [OF this, of s, unfolded unat_bsize [OF assms(2)], folded c_def]
  show "nxt c = (\<lambda>x. if x \<in> bytes_at (block p i k) (bsize i) then 0 else nxt s x)"
    "prv c = (\<lambda>x. if x \<in> bytes_at (block p i k) (bsize i) then 0 else prv s x)"
    "mem c = (\<lambda>x. if x \<in> bytes_at (block p i k) (bsize i) then 0 else mem s x)" by (rule f(1,2,4))+
  fix q :: nat assume q: "q \<le> 32768"
  have "kpage q \<notin> bytes_at (block p i k) (bsize i)"
    using bytes_in_block(2,3) [OF assms(1-3), of "kpage q"] q by auto
  then show "arenas c (kpage q) = arenas s (kpage q)" by (simp add: f(3))
qed

lemma block_arena_unique:
  assumes "heap_data s A F G" and "A p = Some i" and "A q = Some i" and "b \<in> blocks p i" and "b \<in> blocks q i"
  shows "q = p"
  using assms(4,5) block_page_unique heap_arena(1,3) [OF assms(1,2)] heap_arena(3) [OF assms(1,3)]
  by (auto simp: blocks_def)

text \<open>What \<open>sys_malloc\<close> does to the first free block.\<close>

lemma take_free_block:
  fixes s :: "'a memory_scheme"
  assumes "heap_inv s A F G" and "i < 7" and "F i = b # bs"
  defines "s1 \<equiv> list_remove s b"
  defines "s3 \<equiv> upd_arena (clear_mem s1 b (of_nat (bsize i))) (block2arena b) (\<lambda>a. a\<lparr>arena_cnt := arena_cnt a - 1\<rparr>)"
  shows "\<exists>p k. A p = Some i \<and> k < bcount i \<and> b = block p i k \<and> list_pop s (free_list (kdesc i)) = Inr (b, s1) \<and>
    block_descs s1 (kdesc i) = \<lparr>block_size = of_nat (bsize i), block_per_arena = of_nat (bcount i)\<rparr> \<and>
    heap_inv s3 A (F(i := bs)) G \<and> b \<notin> set bs \<and> rest s3 = rest s \<and>
    mem s3 = (\<lambda>x. if x \<in> bytes_at b (bsize i) then 0 else mem s x)"
proof -
  have d: "heap_data s A F G" "lists_rep s (klists F)" using assms(1) by (simp_all add: heap_inv_def)
  have head: "klists F (free_list (kdesc i)) = Some (b # bs)" using klists_head [OF assms(2), of F] assms(3) by simp
  have dist: "b \<notin> set bs" using lists_repD [OF d(2) head] by (auto simp: list_rep_def)
  have "b \<in> set (F i)" using assms(3) by simp
  from heap_free_block [OF d(1) assms(2) this] obtain p k where
    p: "A p = Some i" "p \<le> 32768" "k < bcount i" "b = block p i k" by metis
  have pop: "list_pop s (free_list (kdesc i)) = Inr (b, s1)" "lists_rep s1 (klists (F(i := bs)))"
    using lists_pop [OF d(2) head] klists_upd [OF assms(2), of F bs] by (simp_all add: s1_def)
  have more: "lheap.more s1 = lheap.more s" by (simp add: s1_def klist)
  note m = more_same [OF more]
  let ?c = "clear_mem s1 b (of_nat (bsize i))"
  note c = clear_block_fields [OF p(2) assms(2) p(3), where s = s1, folded p(4)]
  have a: "block2arena b = kpage p" using block2arena_block [OF p(2) assms(2) p(3)] p(4) by simp
  have sp: "same_pages s s3" unfolding s3_def
    by (rule same_pages_trans [OF same_pages_more [OF more] same_pages_trans [OF same_pages_clear same_pages_arena]])
  have in_b: "b \<in> blocks p i" using p(3,4) by (simp add: blocks_def)
  have data: "heap_data s3 A (F(i := bs)) G"
  proof (rule heap_data_free_list [OF d(1) p(1) sp])
    have "blocks p i \<inter> set (F i) = insert b (blocks p i \<inter> set bs)" using in_b assms(3) by auto
    then have "card (blocks p i \<inter> set (F i)) = Suc (card (blocks p i \<inter> set bs))" using dist by simp
    then show "arenas s3 (kpage p) = \<lparr>arena_desc = kdesc i, arena_cnt = of_nat (card (blocks p i \<inter> set bs)), arena_large = 0\<rparr>"
      using heap_arena(6) [OF d(1) p(1)] c(4) [OF p(2)] m(5) by (simp add: s3_def a)
    show "arenas s3 (kpage q) = arenas s (kpage q)" if "q \<le> kpages s" "q \<noteq> p" for q
      using that c(4) [of q] m(5) heap_dataD(2) [OF d(1)] p(2) by (simp add: s3_def a kpage_eq_iff)
    show "blocks q i \<inter> set bs = blocks q i \<inter> set (F i)" if "A q = Some i" "q \<noteq> p" for q
      using block_arena_unique [OF d(1) p(1) that(1) in_b] that(2) assms(3) by auto
    show "\<exists>q. A q = Some i \<and> x \<in> blocks q i" if "x \<in> set bs" for x
      using heap_dataD(5) [OF d(1) assms(2), of x] that assms(3) by simp
  qed
  have "clear_of (F(i := bs)) (bytes_at b (bsize i))"
  proof -
    have "block p i k \<notin> set ((F(i := bs)) i)" using dist p(4) by simp
    from clear_of_block [OF data p(1,3) this] show ?thesis by (simp only: p(4))
  qed
  then have "lists_rep ?c (klists (F(i := bs)))"
    by (rule lists_clear [OF pop(2)]) (simp add: c(1,2))
  then have "lists_rep s3 (klists (F(i := bs)))"
    using lists_rep_links [of s3 ?c] by (simp add: s3_def)
  moreover have "block_descs s1 (kdesc i) = \<lparr>block_size = of_nat (bsize i), block_per_arena = of_nat (bcount i)\<rparr>"
    using heap_desc [OF d(1) assms(2)] m(7) by (simp add: rest_def)
  moreover have "mem s3 = (\<lambda>x. if x \<in> bytes_at b (bsize i) then 0 else mem s x)"
    unfolding s3_def upd_arena_fields c(3) m(6) ..
  moreover have "rest s3 = rest s" using m(7) by (simp add: s3_def)
  ultimately show ?thesis
    using p pop(1) data dist unfolding heap_inv_def by blast
qed

section \<open>Blocks in use\<close>

definition used_blocks :: "(nat \<Rightarrow> nat option) \<Rightarrow> (nat \<Rightarrow> u32 list) \<Rightarrow> (nat \<Rightarrow> nat option) \<Rightarrow> (u32 \<times> nat) set" where
  "used_blocks A F G =
     {(b, n). (\<exists>p i k. A p = Some i \<and> k < bcount i \<and> b = block p i k \<and> b \<notin> set (F i) \<and> n = bsize i) \<or>
        (\<exists>p m. G p = Some m \<and> b = kpage p + 12 \<and> n = 4096 * m - 12)}"

text \<open>No arena is kept when all its blocks are free.\<close>

definition in_use :: "(nat \<Rightarrow> nat option) \<Rightarrow> (nat \<Rightarrow> u32 list) \<Rightarrow> bool" where
  "in_use A F \<longleftrightarrow> (\<forall>p i. A p = Some i \<longrightarrow> \<not> blocks p i \<subseteq> set (F i))"

lemma used_cases:
  assumes "(b, n) \<in> used_blocks A F G"
  obtains (small) p i k where "A p = Some i" "k < bcount i" "b = block p i k" "b \<notin> set (F i)" "n = bsize i"
    | (large) p m where "G p = Some m" "b = kpage p + 12" "n = 4096 * m - 12"
  using assms unfolding used_blocks_def by blast

lemma bytes_in_large:
  assumes "p \<le> 32768" and "x \<in> bytes_at (kpage p + 12) (4096 * m - 12)"
  shows "x \<in> bytes_at (kpage p) (4096 * m)"
proof -
  have "3222274060 + 4096 * p \<le> unat x" "unat x < 3222274060 + 4096 * p + (4096 * m - 12)"
    using assms(2) kpage_plus_12(2) [OF assms(1)] by (auto simp: bytes_at_def)
  then show ?thesis using unat_kpage [OF assms(1)] unfolding bytes_at_def mem_Collect_eq by linarith
qed

text \<open>Every byte of a block in use lies in a page of its arena.\<close>

lemma used_page:
  assumes "heap_data s A F G" and "(b, n) \<in> used_blocks A F G" and "x \<in> bytes_at b n"
  shows "3222274048 \<le> unat x \<and> kused s (kpageno x) \<and> kpageno x \<le> kpages s"
  using assms(2)
proof (cases rule: used_cases)
  case (small p i k)
  note a = heap_arena [OF assms(1) small(1)]
  have "x \<in> bytes_at (block p i k) (bsize i)" using assms(3) small(3,5) by simp
  from bytes_in_block(1,2) [OF a(3,1) small(2) this] a show ?thesis by simp
next
  case (large p m)
  note g = heap_large [OF assms(1) large(1)]
  have "x \<in> bytes_at (kpage p) (4096 * m)" using bytes_in_large [OF g(3)] assms(3) large(2,3) by simp
  then show ?thesis using in_pages [OF g(3)] g(2) g(4) [of "kpageno x"] by auto
qed

definition apart_blocks :: "(u32 \<times> nat) set \<Rightarrow> bool" where
  "apart_blocks M \<longleftrightarrow> (\<forall>(b, n) \<in> M. 0 < n \<and> (\<forall>(c, m) \<in> M. (b, n) \<noteq> (c, m) \<longrightarrow> bytes_at b n \<inter> bytes_at c m = {}))"

lemma used_apart_ordered:
  assumes "heap_data s A F G" and "(b, n) \<in> used_blocks A F G" and "(c, m) \<in> used_blocks A F G"
    and "x \<in> bytes_at b n" and "x \<in> bytes_at c m"
  shows "(b, n) = (c, m)"
  using assms(2)
proof (cases rule: used_cases)
  case b: (small p i k)
  note a = heap_arena [OF assms(1) b(1)]
  have xb: "x \<in> bytes_at (block p i k) (bsize i)" using assms(4) b by simp
  note at_b = bytes_in_block [OF a(3,1) b(2) xb]
  from assms(3) show ?thesis
  proof (cases rule: used_cases)
    case c: (small q j l)
    note a' = heap_arena [OF assms(1) c(1)]
    have xc: "x \<in> bytes_at (block q j l) (bsize j)" using assms(5) c by simp
    note at_c = bytes_in_block [OF a'(3,1) c(2) xc]
    have "p = q" using at_b(2) at_c(2) by simp
    then have "i = j" using b(1) c(1) by simp
    then have "k = l" using at_b(4) at_c(4) \<open>p = q\<close> by simp
    then show ?thesis using b c \<open>p = q\<close> \<open>i = j\<close> by simp
  next
    case c: (large q l)
    note g = heap_large [OF assms(1) c(1)]
    have "x \<in> bytes_at (kpage q) (4096 * l)" using bytes_in_large [OF g(3)] assms(5) c by simp
    then have "p \<in> {q..<q + l}" using in_pages [OF g(3)] at_b(2) by auto
    then show ?thesis using g(4) b(1) by auto
  qed
next
  case b: (large p k)
  note g = heap_large [OF assms(1) b(1)]
  have "x \<in> bytes_at (kpage p) (4096 * k)" using bytes_in_large [OF g(3)] assms(4) b by simp
  then have pg: "kpageno x \<in> {p..<p + k}" using in_pages [OF g(3)] by auto
  from assms(3) show ?thesis
  proof (cases rule: used_cases)
    case c: (small q j l)
    note a' = heap_arena [OF assms(1) c(1)]
    have xc: "x \<in> bytes_at (block q j l) (bsize j)" using assms(5) c by simp
    have "kpageno x = q" using bytes_in_block(2) [OF a'(3,1) c(2) xc] .
    then show ?thesis using g(4) [OF pg] c(1) by simp
  next
    case c: (large q l)
    note g' = heap_large [OF assms(1) c(1)]
    have "x \<in> bytes_at (kpage q) (4096 * l)" using bytes_in_large [OF g'(3)] assms(5) c by simp
    then have "kpageno x \<in> {q..<q + l}" using in_pages [OF g'(3)] by auto
    then have "p = q" using heap_large_disjoint [OF assms(1) b(1) c(1)] pg by blast
    then show ?thesis using b c by simp
  qed
qed

lemma used_apart: "heap_data s A F G \<Longrightarrow> apart_blocks (used_blocks A F G)"
proof -
  assume d: "heap_data s A F G"
  have "0 < n" if "(b, n) \<in> used_blocks A F G" for b n
    using that
  proof (cases rule: used_cases)
    case (large p m)
    then show ?thesis using heap_large(1) [OF d large(1)] by simp
  qed simp
  then show ?thesis using used_apart_ordered [OF d] unfolding apart_blocks_def by blast
qed

lemma start_in_bytes: "0 < n \<Longrightarrow> b \<in> bytes_at b n"
  by (simp add: bytes_at_def)

lemma used_smallI:
  "A p = Some i \<Longrightarrow> k < bcount i \<Longrightarrow> b = block p i k \<Longrightarrow> b \<notin> set (F i) \<Longrightarrow> n = bsize i \<Longrightarrow> (b, n) \<in> used_blocks A F G"
  unfolding used_blocks_def by blast

lemma used_largeI: "G p = Some m \<Longrightarrow> b = kpage p + 12 \<Longrightarrow> n = 4096 * m - 12 \<Longrightarrow> (b, n) \<in> used_blocks A F G"
  unfolding used_blocks_def by blast

text \<open>When the list of one class changes, the blocks of the others are in use as before.\<close>

lemma used_change:
  assumes "\<And>c q k. A q = Some i \<Longrightarrow> k < bcount i \<Longrightarrow> c = block q i k \<Longrightarrow>
      c \<notin> set xs \<and> (c, bsize i) \<noteq> e \<longleftrightarrow> c \<notin> set (F i) \<and> (c, bsize i) \<noteq> e"
  shows "used_blocks A (F(i := xs)) G - {e} = used_blocks A F G - {e}"
proof -
  have "(c, n) \<in> used_blocks A F' G" if "(c, n) \<in> used_blocks A F G" "(c, n) \<noteq> e"
    "\<And>c q k. A q = Some i \<Longrightarrow> k < bcount i \<Longrightarrow> c = block q i k \<Longrightarrow> c \<notin> set (F i) \<and> (c, bsize i) \<noteq> e \<Longrightarrow> c \<notin> set (F' i)"
    "\<And>j. j \<noteq> i \<Longrightarrow> F' j = F j" for F F' :: "nat \<Rightarrow> u32 list" and c n
    using that(1)
  proof (cases rule: used_cases)
    case (small q j l)
    have "c \<notin> set (F' j)" using that(2-4) small by (cases "j = i") auto
    then show ?thesis using small used_smallI by blast
  next
    case (large q l)
    then show ?thesis using used_largeI by blast
  qed
  note mono = this
  have "x \<in> used_blocks A (F(i := xs)) G \<longleftrightarrow> x \<in> used_blocks A F G" if "x \<noteq> e" for x
  proof -
    obtain c n where x: "x = (c, n)" by (cases x)
    show ?thesis
      using mono [of c n F "F(i := xs)"] mono [of c n "F(i := xs)" F] assms that unfolding x by auto
  qed
  then show ?thesis by blast
qed

lemma free_not_used:
  assumes "heap_data s A F G" and "i < 7" and "b \<in> set (F i)"
  shows "(b, n) \<notin> used_blocks A F G"
proof
  from heap_free_block [OF assms] obtain p k where p: "A p = Some i" "p \<le> 32768" "k < bcount i" "b = block p i k" by metis
  have inb: "b \<in> bytes_at (block p i k) (bsize i)" using block_in_block [OF p(2) assms(2) p(3)] p(4) by simp
  assume u: "(b, n) \<in> used_blocks A F G"
  then show False
  proof (cases rule: used_cases)
    case (small q j l)
    note a' = heap_arena [OF assms(1) small(1)]
    have "p = q" using block_page_unique [OF p(2) assms(2) p(3) a'(3,1) small(2)] small(3) p(4) by simp
    then have "i = j" using p(1) small(1) by simp
    then show False using small(4) assms(3) by simp
  next
    case (large q l)
    note g = heap_large [OF assms(1) large(1)]
    have "0 < n" using g(1) large(3) by simp
    then have "b \<in> bytes_at (kpage q) (4096 * l)"
      using bytes_in_large [OF g(3)] large(2,3) start_in_bytes [of n b] by simp
    then have "p \<in> {q..<q + l}" using in_pages [OF g(3)] bytes_in_block(2) [OF p(2) assms(2) p(3) inb] by auto
    then show False using g(4) p(1) by auto
  qed
qed

lemma used_after_take:
  assumes "F i = b # bs" and "b \<notin> set bs" and "A p = Some i" and "k < bcount i" and "b = block p i k"
  shows "used_blocks A (F(i := bs)) G - {(b, bsize i)} = used_blocks A F G - {(b, bsize i)}"
    and "(b, bsize i) \<in> used_blocks A (F(i := bs)) G"
  using used_change [of A i bs "(b, bsize i)" F G] assms used_smallI [of A p i k b "F(i := bs)" "bsize i" G] by auto

text \<open>A new arena changes nothing.\<close>

lemma used_after_new:
  assumes "heap_data s A F G" and "i < 7" and "F i = []" and "A p = None" and "p \<le> 32768"
  shows "used_blocks (A(p \<mapsto> i)) (F(i := map (block p i) [0..<bcount i])) G = used_blocks A F G"
proof -
  let ?F = "F(i := map (block p i) [0..<bcount i])" and ?A = "A(p \<mapsto> i)"
  have "(c, n) \<in> used_blocks ?A ?F G \<longleftrightarrow> (c, n) \<in> used_blocks A F G" for c n
  proof
    assume "(c, n) \<in> used_blocks ?A ?F G"
    then show "(c, n) \<in> used_blocks A F G"
    proof (cases rule: used_cases)
      case (small q j l)
      have "q \<noteq> p" using small by auto
      then have "A q = Some j" "c \<notin> set (F j)" using small assms(3) by (auto split: if_splits)
      then show ?thesis using small used_smallI by blast
    qed (use used_largeI in blast)
  next
    assume "(c, n) \<in> used_blocks A F G"
    then show "(c, n) \<in> used_blocks ?A ?F G"
    proof (cases rule: used_cases)
      case (small q j l)
      note a = heap_arena [OF assms(1) small(1)]
      have q: "q \<noteq> p" using small(1) assms(4) by auto
      have "c \<notin> set (?F j)"
      proof (cases "j = i")
        case True
        have "c \<noteq> block p i x" if "x < bcount i" for x
          using block_page_unique [OF a(3,1) small(2) assms(5,2) that] small(3) q True by auto
        then have "c \<notin> block p i ` {..<bcount i}" by blast
        then show ?thesis using True by (simp add: atLeast0LessThan)
      qed (use small in simp)
      then show ?thesis using small q used_smallI [of ?A q j l c ?F n G] by simp
    qed (use used_largeI in blast)
  qed
  then show ?thesis by auto
qed

section \<open>Allocation\<close>

definition keeps_mem :: "'a memory_scheme \<Rightarrow> (u32 \<times> nat) set \<Rightarrow> 'a memory_scheme \<Rightarrow> bool" where
  "keeps_mem s M t \<longleftrightarrow> (\<forall>(c, m) \<in> M. \<forall>x \<in> bytes_at c m. mem t x = mem s x)"

text \<open>
  What a request came to: a block, or \<open>NULL\<close>, which only happens when the pages ran short.
\<close>

definition pages_of :: "u32 \<Rightarrow> nat" where
  "pages_of n = (if n > 1024 then unat (DIV_ROUND_UP (n + sizeof_arena) PG_SIZE) else 1)"

definition grants :: "'a memory_scheme \<Rightarrow> (u32 \<times> nat) set \<Rightarrow> u32 \<Rightarrow> u32 \<Rightarrow> 'a memory_scheme \<Rightarrow> bool" where
  "grants s M n b t \<longleftrightarrow> rest t = rest s \<and> keeps_mem s M t \<and> (b = NULL \<longrightarrow> short_of s (pages_of n) t) \<and>
     (\<exists>A F G. heap_inv t A F G \<and> in_use A F \<and>
        (if b = NULL then used_blocks A F G = M
         else \<exists>sz. unat n \<le> sz \<and> (b, sz) \<notin> M \<and> used_blocks A F G = insert (b, sz) M \<and> (\<forall>x \<in> bytes_at b sz. mem t x = 0)))"

lemma keeps_memI: "(\<And>c m x. (c, m) \<in> M \<Longrightarrow> x \<in> bytes_at c m \<Longrightarrow> mem t x = mem s x) \<Longrightarrow> keeps_mem s M t"
  by (auto simp: keeps_mem_def)

lemma grantsI:
  assumes "rest t = rest s" and "keeps_mem s M t" and "heap_inv t A F G" and "in_use A F" and "b \<noteq> NULL"
    and "unat n \<le> sz" and "(b, sz) \<notin> M" and "used_blocks A F G = insert (b, sz) M" and "\<And>x. x \<in> bytes_at b sz \<Longrightarrow> mem t x = 0"
  shows "grants s M n b t"
proof -
  have "\<exists>sz. unat n \<le> sz \<and> (b, sz) \<notin> M \<and> used_blocks A F G = insert (b, sz) M \<and> (\<forall>x \<in> bytes_at b sz. mem t x = 0)"
    using assms(6-9) by blast
  then show ?thesis unfolding grants_def using assms(1-5) by auto
qed

lemma grants_NULLI:
  assumes "rest t = rest s" and "keeps_mem s M t" and "heap_inv t A F G" and "in_use A F" and "used_blocks A F G = M"
    and "short_of s (pages_of n) t"
  shows "grants s M n NULL t"
  unfolding grants_def using assms by auto

lemma grants_from:
  assumes "grants u M n b t" and "rest u = rest s" and "keeps_mem s M u" and "b \<noteq> NULL"
  shows "grants s M n b t"
proof -
  have "keeps_mem s M t" using assms(1,3) by (fastforce simp: grants_def keeps_mem_def)
  then show ?thesis using assms(1,2,4) by (simp add: grants_def)
qed

lemma desc_search_eq:
  "descs_ok s \<Longrightarrow> i + k = 7 \<Longrightarrow> i \<le> 6 \<Longrightarrow> unat n \<le> 1024 \<Longrightarrow>
   \<exists>j < 7. desc_search s k_block_descs n i k = j \<and> unat n \<le> bsize j"
proof (induction k arbitrary: i)
  case (Suc k)
  have i: "i < 7" using Suc.prems(3) by simp
  have d: "block_size (block_descs s (desc_at k_block_descs i)) = of_nat (bsize i)"
    using Suc.prems(1) i by (simp add: descs_ok_def kdesc_def)
  have le: "n \<le> of_nat (bsize i) \<longleftrightarrow> unat n \<le> bsize i" by (simp add: unat_le_iff unat_bsize [OF i])
  show ?case
  proof (cases "unat n \<le> bsize i")
    case True
    then show ?thesis using i d le by (intro exI [of _ i]) simp
  next
    case False
    then have "i \<noteq> 6" using Suc.prems(4) by (auto simp: bsize_def)
    then show ?thesis using Suc.IH [of "Suc i"] Suc.prems False d le by simp
  qed
qed simp

lemma desc_idx_eq:
  assumes "heap_data s A F G" and "unat n \<le> 1024"
  shows "\<exists>j < 7. desc_idx s k_block_descs n = j \<and> unat n \<le> bsize j"
  using desc_search_eq [OF heap_dataD(3) [OF assms(1)], of 0 7 n] assms(2) by (simp add: desc_idx_def DESC_CNT_def)

lemma block_neq_NULL: "p \<le> 32768 \<Longrightarrow> i < 7 \<Longrightarrow> k < bcount i \<Longrightarrow> block p i k \<noteq> NULL"
  using unat_block [of p i k] by auto

definition popped :: "'a memory_scheme \<Rightarrow> nat \<Rightarrow> u32 \<Rightarrow> 'a memory_scheme" where
  "popped s1 i b = upd_arena (clear_mem s1 b (block_size (block_descs s1 (kdesc i)))) (block2arena b) (\<lambda>a. a\<lparr>arena_cnt := arena_cnt a - 1\<rparr>)"

text \<open>The end of a small allocation, once the list has a block.\<close>

lemma pop_grants:
  assumes "heap_inv s A F G" and "i < 7" and "F i \<noteq> []" and "unat n \<le> bsize i"
    and "\<And>q j. A q = Some j \<Longrightarrow> \<not> blocks q j \<subseteq> set (F j) \<or> j = i \<and> hd (F i) \<in> blocks q i"
  shows "\<exists>b s1. list_pop s (free_list (kdesc i)) = Inr (b, s1) \<and> b \<noteq> NULL \<and>
    grants s (used_blocks A F G) n b (popped s1 i b)"
proof -
  obtain b bs where F: "F i = b # bs" using assms(3) by (cases "F i") auto
  define s1 where "s1 = list_remove s b"
  define t where "t = upd_arena (clear_mem s1 b (of_nat (bsize i))) (block2arena b) (\<lambda>a. a\<lparr>arena_cnt := arena_cnt a - 1\<rparr>)"
  have d: "heap_data s A F G" using assms(1) by (simp add: heap_inv_def)
  from take_free_block [where s = s, OF assms(1,2) F, folded s1_def, folded t_def] obtain p k where
    p: "A p = Some i" "k < bcount i" "b = block p i k" "list_pop s (free_list (kdesc i)) = Inr (b, s1)"
      "block_descs s1 (kdesc i) = \<lparr>block_size = of_nat (bsize i), block_per_arena = of_nat (bcount i)\<rparr>"
      "heap_inv t A (F(i := bs)) G" "b \<notin> set bs" "rest t = rest s"
      "mem t = (\<lambda>x. if x \<in> bytes_at b (bsize i) then 0 else mem s x)"
    by blast
  have dt: "heap_data t A (F(i := bs)) G" using p(6) by (simp add: heap_inv_def)
  have new: "(b, bsize i) \<notin> used_blocks A F G" using free_not_used [OF d assms(2), of b] F by simp
  have used: "used_blocks A (F(i := bs)) G = insert (b, bsize i) (used_blocks A F G)"
    using used_after_take [of F i b bs A p k G] F p(7,1,2,3) new by blast
  have "keeps_mem s (used_blocks A F G) t"
  proof (rule keeps_memI)
    fix c m x assume c: "(c, m) \<in> used_blocks A F G" "x \<in> bytes_at c m"
    have "x \<notin> bytes_at b (bsize i)"
      using used_apart_ordered [OF dt, of c m b "bsize i" x] c new unfolding used by blast
    then show "mem t x = mem s x" by (simp add: p(9))
  qed
  moreover have "in_use A (F(i := bs))" unfolding in_use_def
  proof (intro allI impI)
    fix q j assume q: "A q = Some j"
    have sub: "set ((F(i := bs)) j) \<subseteq> set (F j)" using F by auto
    show "\<not> blocks q j \<subseteq> set ((F(i := bs)) j)"
    proof (cases "\<not> blocks q j \<subseteq> set (F j)")
      case True
      then show ?thesis using sub by blast
    next
      case False
      then have "j = i" "b \<in> blocks q j" using assms(5) [OF q] F by auto
      then show ?thesis using p(7) by auto
    qed
  qed
  moreover have "b \<noteq> NULL"
    using block_neq_NULL [OF heap_arena(3) [OF d p(1)] assms(2) p(2)] p(3) by simp
  ultimately have "grants s (used_blocks A F G) n b t"
    by (intro grantsI [OF p(8) _ p(6) _ _ assms(4) new used]) (simp_all add: p(9))
  then show ?thesis using p(4,5) \<open>b \<noteq> NULL\<close> unfolding t_def popped_def by simp
qed

lemma keeps_mem_refl [simp]: "keeps_mem s M s"
  by (simp add: keeps_mem_def)

lemma malloc_small_pop:
  assumes "desc_idx s k_block_descs n = i" and "i < 7"
    and "(if list_empty s (free_list (kdesc i)) then new_arena s PF_KERNEL (kdesc i) else Inr (True, s)) = Inr (True, u)"
    and "list_pop u (free_list (kdesc i)) = Inr (b, s1)"
  shows "malloc_small s PF_KERNEL k_block_descs n = rbind (lock_release (popped s1 i b) (pool_lock PF_KERNEL)) (\<lambda>s. Inr (b, s))"
proof -
  have k: "desc_at k_block_descs i = kdesc i" by (simp add: kdesc_def)
  show ?thesis
    unfolding malloc_small_def Let_def assms(1) k assms(3) using assms(2,4) by (simp add: DESC_CNT_def popped_def)
qed

lemma malloc_small_eq:
  assumes "heap_inv s A F G" and "in_use A F" and "unat n \<le> 1024"
  shows "\<exists>b t. malloc_small s PF_KERNEL k_block_descs n = rbind (lock_release t (pool_lock PF_KERNEL)) (\<lambda>s. Inr (b, s)) \<and>
    grants s (used_blocks A F G) n b t"
proof -
  have d: "heap_data s A F G" "lists_rep s (klists F)" using assms(1) by (simp_all add: heap_inv_def)
  obtain i where i: "i < 7" "desc_idx s k_block_descs n = i" "unat n \<le> bsize i" using desc_idx_eq [OF d(1) assms(3)] by blast
  let ?d = "kdesc i" and ?M = "used_blocks A F G"
  have dd: "desc_at k_block_descs i = ?d" by (simp add: kdesc_def)
  have empty: "list_empty s (free_list ?d) \<longleftrightarrow> F i = []" using lists_empty [OF d(2) klists_head [OF i(1)]] .
  show ?thesis
  proof (cases "F i = []")
    case False
    have "\<not> blocks q j \<subseteq> set (F j) \<or> j = i \<and> hd (F i) \<in> blocks q i" if "A q = Some j" for q j
      using assms(2) that by (simp add: in_use_def)
    from pop_grants [OF assms(1) i(1) False i(3) this] obtain b s1 where
      b: "list_pop s (free_list ?d) = Inr (b, s1)" "grants s ?M n b (popped s1 i b)" by blast
    from malloc_small_pop [OF i(2,1) _ b(1)] b(2) show ?thesis using False empty by auto
  next
    case True
    from new_arena_eq [OF assms(1) i(1) True] obtain ok u where u: "new_arena s PF_KERNEL ?d = Inr (ok, u)" "rest u = rest s"
      "if ok then \<exists>p. p \<le> 32768 \<and> \<not> kused s p \<and> heap_inv u (A(p \<mapsto> i)) (F(i := map (block p i) [0..<bcount i])) G \<and>
        (\<forall>x. x \<notin> bytes_at (kpage p) 4096 \<longrightarrow> mem u x = mem s x) else heap_inv u A F G \<and> mem u = mem s \<and> short_of s 1 u" by blast
    show ?thesis
    proof (cases ok)
      case False
      have "pages_of n = 1" using assms(3) by (simp add: pages_of_def unat_less_iff)
      then have "grants s ?M n NULL u" using False u assms(2)
        by (intro grants_NULLI [of u s _ A F G]) (simp_all add: keeps_mem_def)
      then show ?thesis using i True empty u(1) False by (auto simp: malloc_small_def DESC_CNT_def dd Let_def)
    next
      case ok: True
      then obtain p where p: "p \<le> 32768" "\<not> kused s p" "heap_inv u (A(p \<mapsto> i)) (F(i := map (block p i) [0..<bcount i])) G"
        "\<And>x. x \<notin> bytes_at (kpage p) 4096 \<Longrightarrow> mem u x = mem s x" using u(3) by auto
      let ?A = "A(p \<mapsto> i)" and ?F = "F(i := map (block p i) [0..<bcount i])"
      have Ap: "A p = None" using unused_page(1) [OF d(1) p(2)] .
      have used: "used_blocks ?A ?F G = ?M" by (rule used_after_new [OF d(1) i(1) True Ap p(1)])
      have keep: "keeps_mem s ?M u"
      proof (rule keeps_memI, rule p(4), rule notI)
        fix c m x assume "(c, m) \<in> ?M" "x \<in> bytes_at c m" "x \<in> bytes_at (kpage p) 4096"
        then show False using used_page [OF d(1), of c m x] in_page [OF p(1)] p(2) by auto
      qed
      have ne: "?F i \<noteq> []" "hd (?F i) = block p i 0"
        using bcount_pos [OF i(1)] by (simp_all add: hd_map)
      have use: "\<not> blocks q j \<subseteq> set (?F j) \<or> j = i \<and> hd (?F i) \<in> blocks q i" if q: "?A q = Some j" for q j
      proof (cases "q = p")
        case True
        then show ?thesis using q ne(2) bcount_pos [OF i(1)] by (auto simp: blocks_def)
      next
        case False
        then have q': "A q = Some j" using q by simp
        then obtain c where c: "c \<in> blocks q j" "c \<notin> set (F j)" using assms(2) by (auto simp: in_use_def)
        note a = heap_arena [OF d(1) q']
        have "c \<notin> set (?F j)"
        proof (cases "j = i")
          case j: True
          have "c \<noteq> block p i x" if "x < bcount i" for x
            using block_page_unique [OF a(3,1) _ p(1) i(1) that] c(1) False j by (auto simp: blocks_def)
          then have "c \<notin> block p i ` {..<bcount i}" by blast
          then show ?thesis using j by (simp add: atLeast0LessThan)
        qed (use c in simp)
        then show ?thesis using c(1) by blast
      qed
      from pop_grants [OF p(3) i(1) ne(1) i(3) use] obtain b s1 where
        b: "list_pop u (free_list ?d) = Inr (b, s1)" "b \<noteq> NULL" "grants u ?M n b (popped s1 i b)" unfolding used by blast
      have "malloc_small s PF_KERNEL k_block_descs n = rbind (lock_release (popped s1 i b) (pool_lock PF_KERNEL)) (\<lambda>s. Inr (b, s))"
        using True empty u(1) ok by (intro malloc_small_pop [OF i(2,1) _ b(1)]) simp
      then show ?thesis using grants_from [OF b(3) u(2) keep b(2)] by blast
    qed
  qed
qed

text \<open>More than 1024 bytes: an arena of its own.\<close>

lemma heap_data_new_large:
  assumes "heap_data s A F G" and "0 < m" and "p + m \<le> Suc (kpages s)"
    and "\<And>j. j \<in> {p..<p + m} \<Longrightarrow> kused s j \<and> kmap s j \<noteq> None \<and> A j = None"
    and "\<And>q k. G q = Some k \<Longrightarrow> {q..<q + k} \<inter> {p..<p + m} = {}" and "same_pages s s'"
    and "arenas s' (kpage p) = \<lparr>arena_desc = NULL, arena_cnt = of_nat m, arena_large = 1\<rparr>"
    and "\<And>q. q \<le> kpages s \<Longrightarrow> q \<notin> {p..<p + m} \<Longrightarrow> arenas s' (kpage q) = arenas s (kpage q)"
  shows "heap_data s' A F (G(p \<mapsto> m))"
proof -
  note same = assms(6) [unfolded same_pages_def]
  have "arena_ok s' F q i" if q: "A q = Some i" for q i
  proof -
    have "q \<notin> {p..<p + m}" using assms(4) [of q] q by auto
    then show ?thesis using heap_arena [OF assms(1) q] assms(8) [of q] same by (simp add: arena_ok_def)
  qed
  moreover have "large_ok s' A q k" if q: "(G(p \<mapsto> m)) q = Some k" for q k
  proof (cases "q = p")
    case True
    then show ?thesis using q assms(2-4,7) same by (simp add: large_ok_def)
  next
    case False
    then have q: "G q = Some k" using q by simp
    note g = heap_large [OF assms(1) q]
    have "q \<notin> {p..<p + m}" "q \<le> kpages s" using assms(5) [OF q] g(1,2) by auto
    then show ?thesis using g assms(8) [of q] same by (simp add: large_ok_def)
  qed
  moreover have "apart (G(p \<mapsto> m))" unfolding apart_def
  proof (intro allI impI)
    fix q k r l assume h: "(G(p \<mapsto> m)) q = Some k" "(G(p \<mapsto> m)) r = Some l" "q \<noteq> r"
    show "{q..<q + k} \<inter> {r..<r + l} = {}"
      using h assms(5) [of q k] assms(5) [of r l] heap_large_disjoint [OF assms(1), of q k r l]
      by (cases "q = p"; cases "r = p") (simp_all add: Int_commute)
  qed
  ultimately show ?thesis
    using heap_dataD [OF assms(1)] same unfolding heap_data_def descs_ok_def by metis
qed

lemma used_after_large:
  assumes "G p = None"
  shows "used_blocks A F (G(p \<mapsto> m)) = insert (kpage p + 12, 4096 * m - 12) (used_blocks A F G)"
proof -
  have "(c, n) \<in> used_blocks A F (G(p \<mapsto> m)) \<longleftrightarrow> (c, n) = (kpage p + 12, 4096 * m - 12) \<or> (c, n) \<in> used_blocks A F G" for c n
  proof
    assume "(c, n) \<in> used_blocks A F (G(p \<mapsto> m))"
    then show "(c, n) = (kpage p + 12, 4096 * m - 12) \<or> (c, n) \<in> used_blocks A F G"
    proof (cases rule: used_cases)
      case (small q i k)
      then show ?thesis using used_smallI by blast
    next
      case (large q l)
      then show ?thesis using used_largeI [of G q l] by (cases "q = p") auto
    qed
  next
    assume "(c, n) = (kpage p + 12, 4096 * m - 12) \<or> (c, n) \<in> used_blocks A F G"
    then show "(c, n) \<in> used_blocks A F (G(p \<mapsto> m))"
    proof
      assume "(c, n) \<in> used_blocks A F G"
      then show ?thesis
      proof (cases rule: used_cases)
        case (large q l)
        then have "(G(p \<mapsto> m)) q = Some l" using assms by auto
        then show ?thesis using used_largeI large by blast
      qed (use used_smallI in blast)
    qed (use used_largeI [of "G(p \<mapsto> m)" p m] in auto)
  qed
  then show ?thesis by auto
qed

text \<open>The largest request \<open>malloc_page\<close> does not refuse with a panic.\<close>

definition heap_limit :: nat where
  "heap_limit = 3839 * 4096 - 12"

lemma pages_for:
  assumes "unat n \<le> heap_limit"
  defines "m \<equiv> unat (DIV_ROUND_UP (n + sizeof_arena) PG_SIZE)"
  shows "0 < m" "m < 3840" "unat n \<le> 4096 * m - 12"
proof -
  have n: "unat (n + sizeof_arena) = unat n + 12"
    using assms(1) unfolding sizeof_arena_def by (subst unat_add_no_wrap) (simp_all add: heap_limit_def)
  have "m = (unat n + 12 + 4096 - 1) div 4096"
    using assms(1) unfolding m_def by (subst unat_DIV_ROUND_UP) (simp_all add: n PG_SIZE_def heap_limit_def)
  then have "m * 4096 \<le> unat n + 4107" "unat n + 4107 < m * 4096 + 4096"
    by (simp_all add: div_times_less_eq_dividend dividend_less_div_times)
  then show "0 < m" "m < 3840" "unat n \<le> 4096 * m - 12" using assms(1) by (simp_all add: heap_limit_def)
qed

lemma malloc_large_eq:
  assumes "heap_inv s A F G" and "in_use A F" and "unat n \<le> heap_limit" and "n > 1024"
  shows "\<exists>b t. malloc_large s PF_KERNEL n = rbind (lock_release t (pool_lock PF_KERNEL)) (\<lambda>s. Inr (b, s)) \<and>
    grants s (used_blocks A F G) n b t"
proof -
  let ?M = "used_blocks A F G" and ?pc = "DIV_ROUND_UP (n + sizeof_arena) PG_SIZE"
  define m where "m = unat ?pc"
  have pc: "?pc = of_nat m" by (simp add: m_def)
  note pages = pages_for [OF assms(3), folded m_def]
  have d: "heap_data s A F G" "lists_rep s (klists F)" using assms(1) by (simp_all add: heap_inv_def)
  have "0 < ?pc" "?pc < 3840" using pages by (simp_all add: unat_less_iff m_def)
  from malloc_page_eq [OF heap_dataD(1) [OF d(1)] this] obtain v t where
    t: "malloc_page s PF_KERNEL ?pc = Inr (v, t)" "kpages_ok t" "only_pages s t" "kpages t = kpages s"
      "if v = NULL then keeps_pages s t \<and> short_of s m t else \<exists>p. v = kpage p \<and> gives_pages s p m t"
    unfolding m_def by blast
  note o = only_pages_fields [OF t(3)]
  show ?thesis
  proof (cases "v = NULL")
    case True
    then have "heap_inv t A F G" using heap_inv_pages [OF assms(1) _ t(2,4,3)] t(5) by simp
    moreover have "short_of s (pages_of n) t" using t(5) True assms(4) by (simp add: pages_of_def m_def)
    ultimately have "grants s ?M n NULL t" using o assms(2) by (intro grants_NULLI) (simp_all add: keeps_mem_def)
    moreover have "malloc_large s PF_KERNEL n = rbind (lock_release t (pool_lock PF_KERNEL)) (\<lambda>s. Inr (NULL, s))"
      using t(1) True by (simp add: malloc_large_def)
    ultimately show ?thesis by blast
  next
    case False
    then obtain p where p: "v = kpage p" "gives_pages s p m t" using t(5) by auto
    let ?I = "{p..<p + m}" and ?R = "bytes_at (kpage p) (4096 * m)"
    have fit: "p + m \<le> Suc (kpages s)" and new: "\<And>j. j \<in> ?I \<Longrightarrow> \<not> kused s j \<and> kused t j \<and> kmap t j \<noteq> None"
      using p(2) by (simp_all add: gives_pages_def)
    have p32: "p \<le> 32768" "p + m \<le> 32769" using fit pages(1) heap_dataD(2) [OF d(1)] by simp_all
    have it: "heap_inv t A F G" by (rule heap_inv_pages [OF assms(1) gives_keeps [OF p(2)] t(2,4,3)])
    then have dt: "heap_data t A F G" "lists_rep t (klists F)" by (simp_all add: heap_inv_def)
    have noA: "A j = None" if "j \<in> ?I" for j using unused_page(1) [OF d(1)] new [OF that] by blast
    have noG: "{q..<q + k} \<inter> ?I = {}" if "G q = Some k" for q k
      using heap_large(4) [OF d(1) that] new by blast
    define c where "c = clear_mem t (kpage p) (?pc * PG_SIZE)"
    define u where "u = upd_arena c (kpage p) (\<lambda>_. \<lparr>arena_desc = NULL, arena_cnt = ?pc, arena_large = 1\<rparr>)"
    have sz: "unat (?pc * PG_SIZE) = 4096 * m"
      using pages(2) by (subst unat_mult_no_wrap) (simp_all add: m_def PG_SIZE_def)
    have "unat (kpage p) + unat (?pc * PG_SIZE) < 2 ^ 32" unfolding sz unat_kpage [OF p32(1)] using p32(2) by simp
    note cf = clear_mem_fields [OF this, of t, unfolded sz, folded c_def]
    have sp: "same_pages t u" unfolding u_def c_def
      by (rule same_pages_trans [OF same_pages_clear same_pages_arena])
    have data: "heap_data u A F (G(p \<mapsto> m))"
    proof (rule heap_data_new_large [OF dt(1) pages(1) _ _ noG sp])
      fix q assume q: "q \<le> kpages t" "q \<notin> ?I"
      then have "q \<le> 32768" using t(4) heap_dataD(2) [OF d(1)] by simp
      then have "kpage q \<notin> ?R" using in_pages [OF p32(1), of "kpage q" m] q(2) by simp
      moreover have "kpage q \<noteq> kpage p" using q(2) pages(1) \<open>q \<le> 32768\<close> p32(1) by (auto simp: kpage_eq_iff)
      ultimately show "arenas u (kpage q) = arenas t (kpage q)" by (simp add: u_def cf)
    qed (use fit t(4) new noA in \<open>simp_all add: u_def pc\<close>)
    have "clear_of F ?R" using clear_of_pages [OF d(1) p32(1)] noA by blast
    then have "lists_rep c (klists F)" by (rule lists_clear [OF dt(2)]) (simp add: cf)
    then have inv: "heap_inv u A F (G(p \<mapsto> m))" using data lists_rep_links [of u c] by (simp add: heap_inv_def u_def)
    have pI: "p \<in> ?I" using pages(1) by simp
    then have Gp: "G p = None" using heap_large(1,4) [OF d(1)] new [OF pI] by (cases "G p") fastforce+
    have used: "used_blocks A F (G(p \<mapsto> m)) = insert (kpage p + 12, 4096 * m - 12) ?M" by (rule used_after_large [of G p, OF Gp])
    have outside: "x \<notin> ?R" if "(b, k) \<in> ?M" "x \<in> bytes_at b k" for b k x
      using used_page [OF d(1) that] in_pages [OF p32(1), of x m] new [of "kpageno x"] by auto
    have keep: "keeps_mem s ?M u" using outside o(4) by (auto intro!: keeps_memI simp: u_def cf)
    have "(kpage p + 12, 4096 * m - 12) \<notin> ?M"
    proof
      assume "(kpage p + 12, 4096 * m - 12) \<in> ?M"
      moreover have "kpage p + 12 \<in> bytes_at (kpage p + 12) (4096 * m - 12)" using pages(1) by (intro start_in_bytes) simp
      ultimately show False using outside bytes_in_large [OF p32(1)] by blast
    qed
    moreover have "mem u x = 0" if "x \<in> bytes_at (kpage p + 12) (4096 * m - 12)" for x
      using bytes_in_large [OF p32(1) that] by (simp add: u_def cf)
    moreover have "kpage p + 12 \<noteq> NULL" using kpage_plus_12(2) [OF p32(1)] by auto
    ultimately have "grants s ?M n (kpage p + 12) u"
      using o(5) by (intro grantsI [OF _ keep inv assms(2) _ pages(3) _ used]) (simp_all add: u_def c_def)
    moreover have "malloc_large s PF_KERNEL n = rbind (lock_release u (pool_lock PF_KERNEL)) (\<lambda>s. Inr (kpage p + 12, s))"
      using t(1) False p(1) unfolding u_def c_def malloc_large_def by (simp add: Let_def sizeof_arena_def)
    ultimately show ?thesis by blast
  qed
qed

section \<open>The allocator's contract\<close>

text \<open>A kernel thread runs, nobody holds the lock of the pool.\<close>

definition heap_idle :: "'a memory_scheme \<Rightarrow> bool" where
  "heap_idle s \<longleftrightarrow> pgdir (tasks s (cur s)) = NULL \<and> cur s \<noteq> NULL \<and> lock_holder s (pool_lock PF_KERNEL) = NULL \<and>
     holder_repeat_nr s (pool_lock PF_KERNEL) = 0 \<and> sem_value s (semaphore (pool_lock PF_KERNEL)) = 1"

definition heap_rep :: "'a memory_scheme \<Rightarrow> (u32 \<times> nat) set \<Rightarrow> bool" where
  "heap_rep s M \<longleftrightarrow> heap_idle s \<and> (\<exists>A F G. heap_inv s A F G \<and> in_use A F \<and> M = used_blocks A F G)"

abbreviation klock :: u32 where
  "klock \<equiv> pool_lock PF_KERNEL"

lemma heap_inv_fields:
  assumes "nxt t = nxt s" "prv t = prv s" "ptw t = ptw s" "kernel_pool t = kernel_pool s" "user_pool t = user_pool s"
    "kernel_vaddr t = kernel_vaddr s" "arenas t = arenas s" "block_descs t = block_descs s"
  shows "heap_inv t A F G = heap_inv s A F G"
  using heap_data_cong [of t s A F G] pages_cong [of t s] assms lists_rep_links [of t s] by (simp add: heap_inv_def)

text \<open>Releasing the lock after the work inside.\<close>

lemma release_rep:
  assumes "heap_idle s" and "rest t = rest (inside s klock)" and "heap_inv t A F G"
  shows "\<exists>u. lock_release t klock = Inr u \<and> heap_idle u \<and> rest u = rest s \<and> mem u = mem t \<and> heap_inv u A F G \<and>
    kernel_pool u = kernel_pool t"
proof -
  define u where "u = set_holder (set_value t (semaphore klock) 1) klock NULL 0"
  note i = assms(1) [unfolded heap_idle_def]
  have r: "user_pool t = user_pool s" "sem_value t = (sem_value s)(semaphore klock := 0)" "cur t = cur s"
    "lock_holder t = (lock_holder s)(klock := cur s)" "holder_repeat_nr t = (holder_repeat_nr s)(klock := 1)"
    "tasks t = tasks s" "block_descs t = block_descs s"
    using assms(2) by (auto simp: rest_def inside_def set_holder_def set_value_def)
  have inv: "heap_inv u A F G"
    using assms(3) heap_inv_fields [of u t A F G] by (simp add: u_def set_holder_def set_value_def)
  have idle: "heap_idle u" using i r by (simp add: heap_idle_def u_def set_holder_def set_value_def)
  have same: "rest u = rest s" using i r by (auto simp: rest_def u_def set_holder_def set_value_def)
  have "inside u klock = t" using r by (auto simp: inside_def u_def set_holder_def set_value_def intro!: memory.equality)
  moreover have "list_rep u (waiters (semaphore klock)) []"
    using inv klists_waiters [of F] lists_repD [of u "klists F" kwaiters "[]"] by (simp add: heap_inv_def kwaiters_def)
  then have "lock_release (inside u klock) klock = Inr u"
    using idle by (intro lock_leave) (simp_all add: heap_idle_def)
  ultimately show ?thesis using inv idle same by (intro exI [of _ u]) (simp add: u_def set_holder_def set_value_def)
qed

lemma enter_inside:
  assumes "heap_idle s"
  shows "lock_enter s klock = Inr (inside s klock)"
  using assms by (intro lock_enter_free) (simp_all add: heap_idle_def)

lemma inside_fields:
  "mem (inside s l) = mem s" "cur (inside s l) = cur s" "tasks (inside s l) = tasks s" "arenas (inside s l) = arenas s"
  "heap_inv (inside s l) A F G = heap_inv s A F G" "kpages (inside s l) = kpages s" "kused (inside s l) = kused s"
proof -
  show "mem (inside s l) = mem s" "cur (inside s l) = cur s" "tasks (inside s l) = tasks s" "arenas (inside s l) = arenas s"
    by (simp_all add: inside_def set_holder_def set_value_def)
  show "heap_inv (inside s l) A F G = heap_inv s A F G"
    by (rule heap_inv_fields) (simp_all add: inside_def set_holder_def set_value_def)
  show "kpages (inside s l) = kpages s" "kused (inside s l) = kused s"
    by (intro pages_cong; simp add: inside_def set_holder_def set_value_def)+
qed

lemma heap_malloc:
  assumes "heap_rep s M" and "unat n \<le> heap_limit"
  shows "\<exists>b s'. sys_malloc s n = Inr (b, s') \<and> rest s' = rest s \<and> keeps_mem s M s' \<and>
    (if b = NULL then heap_rep s' M \<and> (n = 0 \<or> pool_size (kernel_pool s) \<le> n \<or> short_of s (pages_of n) s')
     else \<exists>sz. unat n \<le> sz \<and> (b, sz) \<notin> M \<and> heap_rep s' (insert (b, sz) M) \<and> (\<forall>x \<in> bytes_at b sz. mem s' x = 0))"
proof -
  from assms(1) obtain A F G where
    h: "heap_idle s" "heap_inv s A F G" "in_use A F" "M = used_blocks A F G" by (auto simp: heap_rep_def)
  have kt: "pgdir (tasks s (cur s)) = NULL" using h(1) by (simp add: heap_idle_def)
  let ?s = "inside s klock"
  show ?thesis
  proof (cases "n > 0 \<and> n < pool_size (kernel_pool s)")
    case False
    then have "sys_malloc s n = Inr (NULL, s)" using kt unfolding sys_malloc_def by (auto simp: Let_def pool_of_def)
    moreover have "n = 0 \<or> pool_size (kernel_pool s) \<le> n" using False by (auto simp: word_gt_0)
    ultimately show ?thesis using assms(1) by auto
  next
    case True
    have inv: "heap_inv ?s A F G" using h(2) by (simp add: inside_fields)
    have "\<exists>b t. (if n > 1024 then malloc_large ?s PF_KERNEL n else malloc_small ?s PF_KERNEL k_block_descs n) =
        rbind (lock_release t klock) (\<lambda>s. Inr (b, s)) \<and> grants ?s M n b t"
    proof (cases "n > 1024")
      case True
      then show ?thesis using malloc_large_eq [OF inv h(3) assms(2) True] h(4) True by simp
    next
      case False
      then have "unat n \<le> 1024" by (simp add: unat_less_iff)
      from malloc_small_eq [OF inv h(3) this] show ?thesis using False h(4) by simp
    qed
    then obtain b t where t: "(if n > 1024 then malloc_large ?s PF_KERNEL n else malloc_small ?s PF_KERNEL k_block_descs n) =
        rbind (lock_release t klock) (\<lambda>s. Inr (b, s))" "grants ?s M n b t" by blast
    from t(2) obtain A' F' G' where
      g: "rest t = rest ?s" "keeps_mem ?s M t" "heap_inv t A' F' G'" "in_use A' F'"
        "if b = NULL then used_blocks A' F' G' = M
         else \<exists>sz. unat n \<le> sz \<and> (b, sz) \<notin> M \<and> used_blocks A' F' G' = insert (b, sz) M \<and> (\<forall>x \<in> bytes_at b sz. mem t x = 0)"
      unfolding grants_def by blast
    obtain u where u: "lock_release t klock = Inr u" "heap_idle u" "rest u = rest s" "mem u = mem t" "heap_inv u A' F' G'"
        "kernel_pool u = kernel_pool t"
      using release_rep [OF h(1) g(1,3)] by blast
    have short: "short_of s (pages_of n) u" if "b = NULL"
      using t(2) that u(6) by (simp add: grants_def short_of_def no_frame_def no_room_def inside_fields)
    have rep: "heap_rep u (used_blocks A' F' G')" using u(2,5) g(4) unfolding heap_rep_def by blast
    have "sys_malloc s n = Inr (b, u)"
      using kt True enter_inside [OF h(1)] t(1) u(1) unfolding sys_malloc_def by (simp add: Let_def pool_of_def split: if_splits)
    moreover have "keeps_mem s M u" using g(2) u(4) by (simp add: keeps_mem_def inside_fields)
    ultimately show ?thesis using u(3,4) g(5) rep short by (cases "b = NULL") auto
  qed
qed

section \<open>Release\<close>

lemma kdesc_neq_NULL: "i < 7 \<Longrightarrow> kdesc i \<noteq> NULL"
  unfolding less_seven by (auto simp: kdesc_def desc_at_def k_block_descs_def)

lemma heap_remove:
  assumes "lists_rep s (klists F)" and "i < 7" and "b \<in> set (F i)"
  shows "lists_rep (list_remove s b) (klists (F(i := filter (\<lambda>x. x \<noteq> b) (F i))))"
proof -
  obtain ys zs where F: "F i = ys @ b # zs" using assms(3) by (meson split_list)
  have head: "klists F (free_list (kdesc i)) = Some (ys @ b # zs)" using klists_head [OF assms(2), of F] F by simp
  have "distinct (ys @ b # zs)" using lists_repD [OF assms(1) head] by (auto simp: list_rep_def)
  then have "filter (\<lambda>x. x \<noteq> b) ys = ys" "filter (\<lambda>x. x \<noteq> b) zs = zs" by (auto intro: filter_True)
  then have "filter (\<lambda>x. x \<noteq> b) (F i) = ys @ zs" by (simp add: F)
  with lists_remove [OF assms(1) head] klists_upd [OF assms(2), of F "ys @ zs"] show ?thesis by simp
qed

lemma unlink_arena_eq:
  "p \<le> 32768 \<Longrightarrow> i < 7 \<Longrightarrow> arena_desc (arenas s (kpage p)) = kdesc i \<Longrightarrow>
   block_size (block_descs s (kdesc i)) = of_nat (bsize i) \<Longrightarrow> lists_rep s (klists F) \<Longrightarrow> m + k = bcount i \<Longrightarrow>
   block p i ` {m..<bcount i} \<subseteq> set (F i) \<Longrightarrow>
   \<exists>t. unlink_arena s (kpage p) (of_nat m) k = Inr t \<and> lheap.more t = lheap.more s \<and>
     lists_rep t (klists (F(i := filter (\<lambda>x. x \<notin> block p i ` {m..<bcount i}) (F i))))"
proof (induction k arbitrary: s m F)
  case 0
  then have "{m..<bcount i} = {}" by simp
  then have "F(i := filter (\<lambda>x. x \<notin> block p i ` {m..<bcount i}) (F i)) = F" by auto
  then show ?case using 0(5) by (simp only: unlink_arena.simps) auto
next
  case (Suc k)
  have m: "m < bcount i" using Suc.prems(6) by simp
  let ?b = "block p i m" and ?F = "F(i := filter (\<lambda>x. x \<noteq> block p i m) (F i))"
  let ?s = "list_remove s ?b"
  have b: "?b \<in> set (F i)" using Suc.prems(7) m by auto
  have rep: "lists_rep ?s (klists ?F)" by (rule heap_remove [OF Suc.prems(5,2) b])
  have more: "lheap.more ?s = lheap.more s" by (simp add: klist)
  have "arena_desc (arenas ?s (kpage p)) = kdesc i" "block_size (block_descs ?s (kdesc i)) = of_nat (bsize i)"
    using Suc.prems(3,4) more_same(5,7) [OF more] by (simp_all add: rest_def)
  moreover have "Suc m + k = bcount i" using Suc.prems(6) by simp
  moreover have "block p i l \<noteq> ?b" if "l \<in> {Suc m..<bcount i}" for l
    using block_inj [OF Suc.prems(1,2) m, of l] that by auto
  then have "block p i ` {Suc m..<bcount i} \<subseteq> set (?F i)" using Suc.prems(7) by auto
  ultimately obtain t where t: "unlink_arena ?s (kpage p) (of_nat (Suc m)) k = Inr t" "lheap.more t = lheap.more ?s"
    "lists_rep t (klists (?F(i := filter (\<lambda>x. x \<notin> block p i ` {Suc m..<bcount i}) (?F i))))"
    using Suc.IH [OF Suc.prems(1,2) _ _ rep] by blast
  have "elem_find s (free_list (kdesc i)) ?b = Inr True"
    using lists_find [OF Suc.prems(5) klists_head [OF Suc.prems(2)]] b by simp
  moreover have "arena2block s (kpage p) (of_nat m) = ?b" using arena2block_block [OF Suc.prems(3,4)] .
  ultimately have "unlink_arena s (kpage p) (of_nat m) (Suc k) = Inr t"
    using Suc.prems(3) t(1) by (simp add: Let_def add.commute)
  moreover have "{m..<bcount i} = insert m {Suc m..<bcount i}" using m by auto
  then have "filter (\<lambda>x. x \<notin> block p i ` {Suc m..<bcount i}) (?F i) = filter (\<lambda>x. x \<notin> block p i ` {m..<bcount i}) (F i)"
    by (auto simp: conj_commute intro: filter_cong)
  then have "?F(i := filter (\<lambda>x. x \<notin> block p i ` {Suc m..<bcount i}) (?F i)) =
      F(i := filter (\<lambda>x. x \<notin> block p i ` {m..<bcount i}) (F i))" by simp
  with t(3) have "lists_rep t (klists (F(i := filter (\<lambda>x. x \<notin> block p i ` {m..<bcount i}) (F i))))" by (simp only:)
  moreover have "lheap.more t = lheap.more s" using t(2) more by simp
  ultimately show ?case by blast
qed

text \<open>Giving pages back that belong to no arena any more.\<close>

lemma heap_give_back:
  assumes "heap_inv s A F G" and "0 < n" and "p + unat n \<le> Suc (kpages s)"
    and "\<And>j. j \<in> {p..<p + unat n} \<Longrightarrow> kmap s j \<noteq> None \<and> A j = None"
    and "\<And>q k. G q = Some k \<Longrightarrow> {q..<q + k} \<inter> {p..<p + unat n} = {}"
  shows "\<exists>t. mfree_page s PF_KERNEL (kpage p) n = Inr t \<and> heap_inv t A F G \<and> mem t = mem s \<and> rest t = rest s"
proof -
  have d: "heap_data s A F G" "lists_rep s (klists F)" using assms(1) by (simp_all add: heap_inv_def)
  from mfree_page_eq [OF heap_dataD(1) [OF d(1)] assms(2,3)] assms(4) obtain t where
    t: "mfree_page s PF_KERNEL (kpage p) n = Inr t" "kpages_ok t" "only_pages s t" "kpages t = kpages s"
      "takes_pages s p (unat n) t" by blast
  note o = only_pages_fields [OF t(3)]
  have keep: "kused t j = kused s j" "kmap t j = kmap s j" if "j \<le> kpages s" "j \<notin> {p..<p + unat n}" for j
    using t(5) that unfolding takes_pages_def by blast+
  have bd: "block_descs t = block_descs s" using o(5) by (simp add: rest_def)
  have "arena_ok t F q i" if q: "A q = Some i" for q i
  proof -
    have "q \<notin> {p..<p + unat n}" using assms(4) [of q] q by auto
    then show ?thesis using heap_arena [OF d(1) q] keep [of q] o(3) t(4) by (simp add: arena_ok_def)
  qed
  moreover have "large_ok t A q k" if q: "G q = Some k" for q k
  proof -
    note g = heap_large [OF d(1) q]
    have "kused t j \<and> kmap t j \<noteq> None \<and> A j = None" if "j \<in> {q..<q + k}" for j
    proof -
      have "j \<notin> {p..<p + unat n}" "j \<le> kpages s" using assms(5) [OF q] g(2) that by auto
      then show ?thesis using g(4) [OF that] keep by simp
    qed
    then show ?thesis using g o(3) t(4) by (simp add: large_ok_def)
  qed
  ultimately have "heap_data t A F G"
    using heap_dataD [OF d(1)] t(2) bd unfolding heap_data_def descs_ok_def by metis
  then have "heap_inv t A F G" using d(2) lists_rep_links [OF o(1,2)] by (simp add: heap_inv_def)
  then show ?thesis using t(1) o by blast
qed

text \<open>A block goes back to its list.\<close>

lemma put_block:
  assumes "heap_inv s A F G" and "A p = Some i" and "k < bcount i" and "block p i k \<notin> set (F i)"
  defines "b \<equiv> block p i k"
  defines "t \<equiv> upd_arena (list_append s (free_list (kdesc i)) b) (kpage p) (\<lambda>a. a\<lparr>arena_cnt := arena_cnt a + 1\<rparr>)"
  shows "heap_inv t A (F(i := F i @ [b])) G" and "mem t = mem s" and "rest t = rest s"
proof -
  have d: "heap_data s A F G" "lists_rep s (klists F)" using assms(1) by (simp_all add: heap_inv_def)
  note a = heap_arena [OF d(1) assms(2)]
  let ?l = "list_append s (free_list (kdesc i)) b"
  have more: "lheap.more ?l = lheap.more s" by (rule list_append_more)
  note m = more_same [OF more]
  have sp: "same_pages s t" unfolding t_def by (rule same_pages_trans [OF same_pages_more [OF more] same_pages_arena])
  have in_b: "b \<in> blocks p i" using assms(3) by (simp add: b_def blocks_def)
  have data: "heap_data t A (F(i := F i @ [b])) G"
  proof (rule heap_data_free_list [OF d(1) assms(2) sp])
    have "blocks p i \<inter> set (F i @ [b]) = insert b (blocks p i \<inter> set (F i))" using in_b by auto
    moreover have "b \<notin> blocks p i \<inter> set (F i)" using assms(4) by (simp add: b_def)
    ultimately have "card (blocks p i \<inter> set (F i @ [b])) = Suc (card (blocks p i \<inter> set (F i)))" by simp
    then show "arenas t (kpage p) = \<lparr>arena_desc = kdesc i, arena_cnt = of_nat (card (blocks p i \<inter> set (F i @ [b]))), arena_large = 0\<rparr>"
      using a(6) m(5) by (simp add: t_def add.commute)
    show "arenas t (kpage q) = arenas s (kpage q)" if "q \<le> kpages s" "q \<noteq> p" for q
      using that m(5) heap_dataD(2) [OF d(1)] a(3) by (simp add: t_def kpage_eq_iff)
    show "blocks q i \<inter> set (F i @ [b]) = blocks q i \<inter> set (F i)" if "A q = Some i" "q \<noteq> p" for q
      using block_arena_unique [OF d(1) assms(2) that(1) in_b] that(2) by auto
    show "\<exists>q. A q = Some i \<and> x \<in> blocks q i" if "x \<in> set (F i @ [b])" for x
      using heap_dataD(5) [OF d(1) a(1), of x] that in_b assms(2) by auto
  qed
  have "clear_of F {b}"
    using clear_of_mono [OF clear_of_block [OF d(1) assms(2-4)], of "{b}"] block_in_block [OF a(3,1) assms(3)] by (simp add: b_def)
  then have "unlinked (klists F) b" by (rule clear_of_unlinked)
  from lists_append [OF d(2) klists_head [OF a(1)] this] klists_upd [OF a(1), of F "F i @ [b]"]
  have "lists_rep ?l (klists (F(i := F i @ [b])))" by simp
  then show "heap_inv t A (F(i := F i @ [b])) G" using data lists_rep_links [of t ?l] by (simp add: heap_inv_def t_def)
  show "mem t = mem s" "rest t = rest s" using m by (simp_all add: t_def)
qed

text \<open>An arena with all blocks free is taken out of the ghost state.\<close>

lemma drop_arena_data:
  assumes "heap_data s A F G" and "A p = Some i" and "blocks p i \<subseteq> set (F i)"
  defines "F' \<equiv> F(i := filter (\<lambda>x. x \<notin> blocks p i) (F i))"
  shows "heap_data s (A(p := None)) F' G" and "used_blocks (A(p := None)) F' G = used_blocks A F G"
proof -
  let ?A = "A(p := None)"
  note a = heap_arena [OF assms(1,2)]
  have other: "blocks q i \<inter> blocks p i = {}" if "A q = Some i" "q \<noteq> p" for q
    using block_arena_unique [OF assms(1,2) that(1)] that(2) by blast
  have F': "blocks q j \<inter> set (F' j) = blocks q j \<inter> set (F j)" if "A q = Some j" "q \<noteq> p" for q j
    using other [of q] that by (cases "j = i") (auto simp: F'_def)
  have "arena_ok s F' q j" if q: "?A q = Some j" for q j
  proof -
    have "A q = Some j" "q \<noteq> p" using q by (auto split: if_splits)
    then show ?thesis using heap_dataD(6) [OF assms(1), of q j] F' by (simp add: arena_ok_def)
  qed
  moreover have "large_ok s ?A q n" if "G q = Some n" for q n
    using heap_dataD(7) [OF assms(1) that] by (auto simp: large_ok_def)
  moreover have "\<exists>q. ?A q = Some j \<and> c \<in> blocks q j" if c: "j < 7" "c \<in> set (F' j)" for j c
  proof -
    have "c \<in> set (F j)" using c(2) by (auto simp: F'_def split: if_splits)
    then obtain q where q: "A q = Some j" "c \<in> blocks q j" using heap_dataD(5) [OF assms(1) c(1)] by blast
    have "q \<noteq> p" using q c(2) assms(2) by (auto simp: F'_def)
    then show ?thesis using q by auto
  qed
  ultimately show "heap_data s ?A F' G" using heap_dataD [OF assms(1)] unfolding heap_data_def by metis
  have "(c, n) \<in> used_blocks ?A F' G \<longleftrightarrow> (c, n) \<in> used_blocks A F G" for c n
  proof
    assume "(c, n) \<in> used_blocks ?A F' G"
    then show "(c, n) \<in> used_blocks A F G"
    proof (cases rule: used_cases)
      case (small q j l)
      then have q: "A q = Some j" "q \<noteq> p" by (auto split: if_splits)
      have "c \<in> blocks q j" using small by (simp add: blocks_def)
      then have "c \<notin> set (F j)" using F' [OF q] small(4) by blast
      then show ?thesis using small q used_smallI by blast
    qed (use used_largeI in blast)
  next
    assume "(c, n) \<in> used_blocks A F G"
    then show "(c, n) \<in> used_blocks ?A F' G"
    proof (cases rule: used_cases)
      case (small q j l)
      have "c \<in> blocks q j" using small by (simp add: blocks_def)
      then have q: "q \<noteq> p" using small(1,4) assms(2,3) by auto
      then have "c \<notin> set (F' j)" using small(4) by (auto simp: F'_def)
      then show ?thesis using small q used_smallI [of ?A q j l c F' n G] by simp
    qed (use used_largeI in blast)
  qed
  then show "used_blocks ?A F' G = used_blocks A F G" by auto
qed

lemma full_count:
  assumes "p \<le> 32768" and "i < 7"
  shows "(of_nat (card (blocks p i \<inter> S)) :: u32) = of_nat (bcount i) \<longleftrightarrow> blocks p i \<subseteq> S"
proof -
  have fin: "finite (blocks p i)" by (simp add: blocks_def)
  have "card (blocks p i \<inter> S) \<le> bcount i" using card_mono [OF fin, of "blocks p i \<inter> S"] card_blocks [OF assms] by simp
  then have "(of_nat (card (blocks p i \<inter> S)) :: u32) = of_nat (bcount i) \<longleftrightarrow> card (blocks p i \<inter> S) = bcount i"
    using bcount_le [OF assms(2)] by (subst of_nat_eq_numeral_u32) (simp_all add: unat_of_nat_small)
  also have "\<dots> \<longleftrightarrow> blocks p i \<inter> S = blocks p i"
    using card_subset_eq [OF fin, of "blocks p i \<inter> S"] card_blocks [OF assms] by auto
  finally show ?thesis by blast
qed

lemma free_small_eq:
  assumes "heap_inv s A F G" and "in_use A F" and "A p = Some i" and "k < bcount i" and "block p i k \<notin> set (F i)"
  defines "b \<equiv> block p i k"
  shows "\<exists>t A' F'. free_small s PF_KERNEL (kpage p) b = Inr t \<and> mem t = mem s \<and> rest t = rest s \<and>
    heap_inv t A' F' G \<and> in_use A' F' \<and> used_blocks A' F' G = used_blocks A F G - {(b, bsize i)}"
proof -
  have d: "heap_data s A F G" using assms(1) by (simp add: heap_inv_def)
  note a = heap_arena [OF d assms(3)]
  define t where "t = upd_arena (list_append s (free_list (kdesc i)) b) (kpage p) (\<lambda>a. a\<lparr>arena_cnt := arena_cnt a + 1\<rparr>)"
  let ?F = "F(i := F i @ [b])"
  note put = put_block [OF assms(1,3-5), folded b_def, folded t_def]
  have dt: "heap_data t A ?F G" "lists_rep t (klists ?F)" using put(1) by (simp_all add: heap_inv_def)
  note at = heap_arena [OF dt(1) assms(3)]
  have "used_blocks A ?F G - {(b, bsize i)} = used_blocks A F G - {(b, bsize i)}" by (rule used_change) auto
  moreover have "(b, bsize i) \<notin> used_blocks A ?F G" using free_not_used [OF dt(1) a(1), of b] by simp
  ultimately have used: "used_blocks A ?F G = used_blocks A F G - {(b, bsize i)}" by blast
  have bd: "block_descs t (kdesc i) = \<lparr>block_size = of_nat (bsize i), block_per_arena = of_nat (bcount i)\<rparr>"
    by (rule heap_desc [OF dt(1) a(1)])
  have desc: "arena_desc (arenas s (kpage p)) = kdesc i" "arena_desc (arenas t (kpage p)) = kdesc i" using a(6) at(6) by simp_all
  have full: "arena_cnt (arenas t (kpage p)) = block_per_arena (block_descs t (kdesc i)) \<longleftrightarrow> blocks p i \<subseteq> set (?F i)"
    using full_count [OF a(3,1), of "set (?F i)"] at(6) bd by simp
  have other: "\<not> blocks q j \<subseteq> set (?F j)" if q: "A q = Some j" "q \<noteq> p" for q j
  proof -
    have "b \<notin> blocks q i" if "j = i"
      using block_arena_unique [OF d assms(3), of q b] q that assms(4) by (auto simp: b_def blocks_def)
    then show ?thesis using assms(2) q(1) by (auto simp: in_use_def split: if_splits)
  qed
  show ?thesis
  proof (cases "blocks p i \<subseteq> set (?F i)")
    case False
    then have "free_small s PF_KERNEL (kpage p) b = Inr t"
      using full desc kdesc_neq_NULL [OF a(1)] unfolding free_small_def by (simp add: Let_def t_def)
    moreover have "in_use A ?F" using other False assms(3) unfolding in_use_def by (metis option.inject)
    ultimately show ?thesis using put used by blast
  next
    case True
    let ?A = "A(p := None)" and ?F' = "?F(i := filter (\<lambda>x. x \<notin> blocks p i) (?F i))"
    have n: "unat (block_per_arena (block_descs t (kdesc i))) = bcount i"
      using bd bcount_le [OF a(1)] by (simp add: unat_of_nat_small)
    have img: "block p i ` {0..<bcount i} = blocks p i" by (simp add: blocks_def atLeast0LessThan)
    obtain u where u: "unlink_arena t (kpage p) (of_nat 0) (bcount i) = Inr u" "lheap.more u = lheap.more t" "lists_rep u (klists ?F')"
      using unlink_arena_eq [OF a(3,1) desc(2) _ dt(2), of 0 "bcount i"] bd True unfolding img by auto
    note drop = drop_arena_data [OF dt(1) assms(3) True]
    have "heap_data u ?A ?F' G" unfolding heap_data_more [OF u(2)] by (rule drop(1))
    then have inv: "heap_inv u ?A ?F' G" using u(3) unfolding heap_inv_def by blast
    note mu = more_same [OF u(2)]
    have pg: "kpages u = kpages t" "kmap u = kmap t"
      using same_pages_more [OF u(2)] by (simp_all add: same_pages_def)
    have noG: "{q..<q + m} \<inter> {p..<p + unat (1 :: u32)} = {}" if "G q = Some m" for q m
      using heap_large(4) [OF d that] assms(3) by auto
    have "p + unat (1 :: u32) \<le> Suc (kpages u)" "(0 :: u32) < 1" using at(2) pg by simp_all
    moreover have "kmap u j \<noteq> None \<and> ?A j = None" if "j \<in> {p..<p + unat (1 :: u32)}" for j
      using that at(5) pg by auto
    ultimately obtain v where v: "mfree_page u PF_KERNEL (kpage p) 1 = Inr v" "heap_inv v ?A ?F' G" "mem v = mem u" "rest v = rest u"
      using heap_give_back [OF inv _ _ _ noG] by blast
    have "free_small s PF_KERNEL (kpage p) b = Inr v"
      using True full desc kdesc_neq_NULL [OF a(1)] n u(1) v(1) unfolding free_small_def by (simp add: Let_def t_def)
    moreover have "in_use ?A ?F'" unfolding in_use_def
    proof (intro allI impI)
      fix q j assume q: "?A q = Some j"
      then have "A q = Some j" "q \<noteq> p" by (auto split: if_splits)
      then show "\<not> blocks q j \<subseteq> set (?F' j)" using other [of q j] by (auto split: if_splits)
    qed
    moreover have "used_blocks ?A ?F' G = used_blocks A F G - {(b, bsize i)}" unfolding drop(2) by (rule used)
    moreover have "mem v = mem s" "rest v = rest s" using v(3,4) mu(6,7) put(2,3) by simp_all
    ultimately show ?thesis using v(2) by blast
  qed
qed

lemma used_drop_large:
  assumes "heap_data s A F G" and "G p = Some m"
  shows "heap_data s A F (G(p := None))"
    and "used_blocks A F (G(p := None)) = used_blocks A F G - {(kpage p + 12, 4096 * m - 12)}"
proof -
  let ?G = "G(p := None)" and ?b = "kpage p + 12"
  note g = heap_large [OF assms]
  have "apart ?G" using heap_dataD(4) [OF assms(1)] unfolding apart_def by (metis fun_upd_apply option.distinct(1))
  moreover have "large_ok s A q k" if "?G q = Some k" for q k
    using heap_dataD(7) [OF assms(1), of q k] that by (simp split: if_splits)
  ultimately show dd: "heap_data s A F ?G" using heap_dataD [OF assms(1)] unfolding heap_data_def by metis
  have "(?b, 4096 * m - 12) \<notin> used_blocks A F ?G"
  proof
    assume "(?b, 4096 * m - 12) \<in> used_blocks A F ?G"
    then show False
    proof (cases rule: used_cases)
      case (small q j l)
      note a = heap_arena [OF assms(1) small(1)]
      have "?b \<in> bytes_at (kpage p) (4096 * m)"
        using g(1) by (intro bytes_in_large [OF g(3)] start_in_bytes) simp
      moreover have "?b \<in> bytes_at (block q j l) (bsize j)" using block_in_block [OF a(3,1) small(2)] small(3) by simp
      ultimately have "q \<in> {p..<p + m}" using bytes_in_block(2) [OF a(3,1) small(2)] in_pages [OF g(3)] by auto
      then show False using g(4) small(1) by auto
    next
      case (large q l)
      then have "q \<noteq> p" "G q = Some l" by (auto split: if_splits)
      moreover have "kpage q = kpage p" using large(2) by simp
      ultimately show False using heap_large(3) [OF assms(1)] g(3) kpage_eq_iff by blast
    qed
  qed
  moreover have "?G(p \<mapsto> m) = G" using assms(2) by auto
  then have "used_blocks A F G = insert (?b, 4096 * m - 12) (used_blocks A F ?G)"
    using used_after_large [of ?G p A F m] by simp
  ultimately show "used_blocks A F ?G = used_blocks A F G - {(?b, 4096 * m - 12)}" by blast
qed

lemma used_addr:
  assumes "heap_data s A F G" and "(b, sz) \<in> used_blocks A F G"
  shows "b \<noteq> NULL" and "b \<ge> K_HEAP_START"
proof -
  have "0 < sz" using used_apart [OF assms(1)] assms(2) by (auto simp: apart_blocks_def)
  then have "3222274048 \<le> unat b" using used_page [OF assms start_in_bytes] by blast
  then show "b \<ge> K_HEAP_START" "b \<noteq> NULL" by (auto simp: K_HEAP_START_def unat_le_iff)
qed

text \<open>The part of \<open>sys_free\<close> between taking and releasing the lock.\<close>

lemma free_inside:
  assumes "heap_inv s A F G" and "in_use A F" and "(b, sz) \<in> used_blocks A F G"
  defines "a \<equiv> block2arena b"
  shows "(arena_large (arenas s a) = 0 \<or> arena_large (arenas s a) = 1) \<and>
    (\<exists>t A' F' G'. (if arena_desc (arenas s a) = NULL \<and> arena_large (arenas s a) = 1
        then mfree_page s PF_KERNEL a (arena_cnt (arenas s a)) else free_small s PF_KERNEL a b) = Inr t \<and>
      mem t = mem s \<and> rest t = rest s \<and> heap_inv t A' F' G' \<and> in_use A' F' \<and>
      used_blocks A' F' G' = used_blocks A F G - {(b, sz)})"
  using assms(3)
proof (cases rule: used_cases)
  case (small p i k)
  have d: "heap_data s A F G" using assms(1) by (simp add: heap_inv_def)
  note ar = heap_arena [OF d small(1)]
  have a: "a = kpage p" using block2arena_block [OF ar(3,1) small(2)] small(3) by (simp add: a_def)
  have "block p i k \<notin> set (F i)" using small(3,4) by simp
  from free_small_eq [OF assms(1,2) small(1,2) this] show ?thesis
    using ar(6) kdesc_neq_NULL [OF ar(1)] unfolding a small(3) [symmetric] small(5) [symmetric] by auto
next
  case (large p m)
  have d: "heap_data s A F G" "lists_rep s (klists F)" using assms(1) by (simp_all add: heap_inv_def)
  note g = heap_large [OF d(1) large(1)]
  have a: "a = kpage p" using kpage_plus_12(1) [OF g(3)] large(2) by (simp add: a_def)
  let ?G = "G(p := None)"
  note drop = used_drop_large [OF d(1), of p m, OF large(1)]
  have inv: "heap_inv s A F ?G" using drop(1) d(2) by (simp add: heap_inv_def)
  have m32: "m \<le> 32769" using g(2) heap_dataD(2) [OF d(1)] by simp
  then have m: "unat (of_nat m :: u32) = m" by (intro unat_of_nat_small) simp
  have "0 < (of_nat m :: u32)" using g(1) m by (simp add: unat_less_iff)
  moreover have "p + unat (of_nat m :: u32) \<le> Suc (kpages s)" using g(2) m by simp
  moreover have "kmap s j \<noteq> None \<and> A j = None" if "j \<in> {p..<p + unat (of_nat m :: u32)}" for j
    using g(4) [of j] that m by simp
  moreover have "{q..<q + k} \<inter> {p..<p + unat (of_nat m :: u32)} = {}" if "?G q = Some k" for q k
    using heap_large_disjoint [OF d(1), of q k p m] that large(1) m by (auto split: if_splits)
  ultimately obtain t where "mfree_page s PF_KERNEL (kpage p) (of_nat m) = Inr t" "heap_inv t A F ?G" "mem t = mem s" "rest t = rest s"
    using heap_give_back [OF inv] by blast
  moreover have "used_blocks A F ?G = used_blocks A F G - {(b, sz)}" using drop(2) large(2,3) by simp
  ultimately show ?thesis using g(5) assms(2) unfolding a by auto
qed

lemma heap_free:
  assumes "heap_rep s M" and "(b, sz) \<in> M"
  shows "\<exists>s'. sys_free s b = Inr s' \<and> heap_rep s' (M - {(b, sz)}) \<and> mem s' = mem s \<and> rest s' = rest s"
proof -
  from assms(1) obtain A F G where
    h: "heap_idle s" "heap_inv s A F G" "in_use A F" "M = used_blocks A F G" by (auto simp: heap_rep_def)
  have kt: "pgdir (tasks s (cur s)) = NULL" using h(1) by (simp add: heap_idle_def)
  have d: "heap_data s A F G" using h(2) by (simp add: heap_inv_def)
  have b: "b \<noteq> NULL" "b \<ge> K_HEAP_START" using used_addr [OF d] assms(2) h(4) by blast+
  let ?s = "inside s klock" and ?a = "block2arena b"
  have inv: "heap_inv ?s A F G" using h(2) by (simp add: inside_fields)
  have used: "(b, sz) \<in> used_blocks A F G" using assms(2) h(4) by simp
  from free_inside [OF inv h(3) used] obtain t A' F' G' where
    t: "arena_large (arenas ?s ?a) = 0 \<or> arena_large (arenas ?s ?a) = 1"
      "(if arena_desc (arenas ?s ?a) = NULL \<and> arena_large (arenas ?s ?a) = 1
        then mfree_page ?s PF_KERNEL ?a (arena_cnt (arenas ?s ?a)) else free_small ?s PF_KERNEL ?a b) = Inr t"
      "mem t = mem ?s" "rest t = rest ?s" "heap_inv t A' F' G'" "in_use A' F'"
      "used_blocks A' F' G' = used_blocks A F G - {(b, sz)}" by blast
  obtain u where u: "lock_release t klock = Inr u" "heap_idle u" "rest u = rest s" "mem u = mem t" "heap_inv u A' F' G'"
    using release_rep [OF h(1) t(4,5)] by blast
  have "sys_free s b = Inr u"
    using t(1)
  proof
    assume "arena_large (arenas ?s ?a) = 0"
    then show ?thesis using kt b enter_inside [OF h(1)] t(2) u(1) unfolding sys_free_def by (simp add: Let_def)
  next
    assume "arena_large (arenas ?s ?a) = 1"
    then show ?thesis using kt b enter_inside [OF h(1)] t(2) u(1) unfolding sys_free_def by (simp add: Let_def split: if_splits)
  qed
  moreover have "heap_rep u (M - {(b, sz)})" using u(2,5) t(6,7) h(4) unfolding heap_rep_def by blast
  ultimately show ?thesis using u(3,4) t(3) by (auto simp: inside_fields)
qed

end
