(* ===== verification/Forkspec.thy ===== *)
theory Forkspec
  imports Fork Heap
begin

text \<open>
  What \<open>fork\<close> does to memory: \<open>copy_body_stack3\<close> gives the child a copy of every page of the parent.

  The proof follows one page through the two address spaces, from the parent's page to the kernel's
  buffer, into a fresh page of the child and back to the parent's space, and puts the pages
  together by induction over the bitmap.  \<open>switch_space s c\<close> is the view of the child: it shows its
  page tables and its memory.
\<close>

section \<open>Entries of the kernel's tables\<close>

declare bit_numeral_word_iff [simp del]

lemma unat_pte_ptr: "unat (pte_ptr v) = 0xffc00000 + 4 * (unat v div 4096)"
proof -
  let ?i = "push_bit 2 (drop_bit 12 v)"
  have "0xffc00000 AND ?i = 0"
    by (rule bit_word_eqI) (auto simp: bit_and_iff bit_high_mask bit_push_bit_iff bit_drop_bit_eq dest: bit_imp_le_length)
  then have sum: "0xffc00000 + ?i = 0xffc00000 OR ?i" by (rule disjunctive_add_eq_or)
  have "pte_ptr v = 0xffc00000 OR ?i"
    by (rule bit_word_eqI)
      (auto simp: bit_or_iff bit_high_mask bit_pte_ptr bit_push_bit_iff bit_drop_bit_eq algebra_simps dest: bit_imp_le_length)
  then have p: "pte_ptr v = 0xffc00000 + ?i" by (simp only: sum)
  have d: "unat (drop_bit 12 v) = unat v div 4096" by (simp add: drop_bit_eq_div unat_div_word)
  have "unat v div 4096 < 1048576" using unat_u32_bound [of v] by (intro less_mult_imp_div_less) simp
  then have i: "unat ?i = 4 * (unat v div 4096)"
    by (simp add: push_bit_eq_mult unat_mult_no_wrap d)
  then show ?thesis
    using \<open>unat v div 4096 < 1048576\<close> unfolding p by (subst unat_add_no_wrap) simp_all
qed

lemma pte_user: "v < 0xc0000000 \<Longrightarrow> pte_ptr v < 0xfff00000"
proof -
  assume "v < 0xc0000000"
  then have "unat v < 0xc0000000" by (simp add: unat_less_iff)
  then have "unat v div 4096 < 786432" by (intro less_mult_imp_div_less) simp
  then show ?thesis by (simp add: unat_less_iff unat_pte_ptr)
qed

lemma pte_kernel: "0xc0000000 \<le> v \<Longrightarrow> v < 0xffc00000 \<Longrightarrow> kernel_tables (pte_ptr v)"
proof -
  assume "0xc0000000 \<le> v" "v < 0xffc00000"
  then have "0xc0000000 \<le> unat v" "unat v < 0xffc00000" by (simp_all add: unat_less_iff unat_le_iff)
  then have "786432 \<le> unat v div 4096" "unat v div 4096 < 1047552"
    using div_le_mono [of "0xc0000000" "unat v" 4096] by (simp_all add: less_mult_imp_div_less)
  then show ?thesis by (simp add: kernel_tables_def unat_less_iff unat_le_iff unat_pte_ptr)
qed

lemma pde_not_kernel: "\<not> kernel_tables (pde_ptr v)"
proof -
  have "pde_ptr v AND 0xfffff000 = 0xfffff000" by (rule pde_page)
  then have "0xfffff000 \<le> pde_ptr v" using word_and_le2 [of "pde_ptr v" "0xfffff000"] by simp
  then show ?thesis by (simp add: kernel_tables_def not_less)
qed

lemma pte_user_not_kernel: "v < 0xc0000000 \<Longrightarrow> \<not> kernel_tables (pte_ptr v)"
  using pte_user [of v] by (simp add: kernel_tables_def not_le)

text \<open>\<open>page_table_add\<close> for a user page leaves the kernel's tables alone.\<close>

lemma page_table_add_kernel:
  assumes "page_table_add s v f = Inr s'" and "v < 0xc0000000" and "kernel_tables a"
  shows "ptw s' a = ptw s a"
proof -
  have "pte_ptr v \<noteq> a" "pde_ptr v \<noteq> a" using assms(2,3) pte_user_not_kernel pde_not_kernel by blast+
  moreover have "a AND 0xfffff000 \<noteq> pte_ptr v AND 0xfffff000"
  proof
    assume e: "a AND 0xfffff000 = pte_ptr v AND 0xfffff000"
    have "pte_ptr v AND 0xfffff000 \<le> pte_ptr v" by (rule word_and_le2)
    then have lt: "pte_ptr v AND 0xfffff000 < 0xfff00000" using pte_user [OF assms(2)] by (rule le_less_trans)
    have "0xfff00000 AND 0xfffff000 = (0xfff00000 :: u32)" by simp
    have "unat a mod 4096 \<le> unat a" by simp
    have "unat (a AND 0xfffff000) = unat a - unat a mod 4096" by (rule unat_page_start)
    moreover have "0xfff00000 \<le> unat a" using assms(3) by (simp add: kernel_tables_def unat_le_iff)
    moreover have "unat a = unat a div 4096 * 4096 + unat a mod 4096" by simp
    moreover have "0xfff00 \<le> unat a div 4096" using div_le_mono [OF calculation(2), of 4096] by simp
    ultimately have "0xfff00000 \<le> unat (a AND 0xfffff000)" by linarith
    with lt e show False by (simp add: unat_less_iff)
  qed
  ultimately show ?thesis
    using assms(1) by (auto simp: page_table_add_def Let_def rbind_eq_Inr clear_table_def split: if_splits prod.splits)
qed

text \<open>What \<open>page_table_add\<close> changes depends on the tables and the kernel's pool only.\<close>

definition entry_added :: "(u32 \<Rightarrow> u32) \<Rightarrow> pool \<Rightarrow> u32 \<Rightarrow> u32 \<Rightarrow> ((u32 \<Rightarrow> u32) \<times> pool) res" where
  "entry_added w p vaddr frame =
     (let entry = frame OR PG_US_U OR PG_RW_W OR PG_P_1
      in if w (pde_ptr vaddr) AND 1 \<noteq> 0 then
           if \<not> w (pte_ptr vaddr) AND 1 = 0 then Inl Panic else Inr (w(pte_ptr vaddr := entry), p)
         else
           rbind (palloc p) (\<lambda>(table, p).
             let m = clear_table (w(pde_ptr vaddr := table OR PG_US_U OR PG_RW_W OR PG_P_1)) (pte_ptr vaddr AND 0xfffff000)
             in if \<not> m (pte_ptr vaddr) AND 1 = 0 then Inl Panic else Inr (m(pte_ptr vaddr := entry), p)))"

lemma page_table_add_via:
  "page_table_add s v f = rbind (entry_added (ptw s) (kernel_pool s) v f) (\<lambda>(q, k). Inr (s\<lparr>ptw := q, kernel_pool := k\<rparr>))"
proof -
  have one: "s\<lparr>ptw := m, kernel_pool := kernel_pool s\<rparr> = s\<lparr>ptw := m\<rparr>" for m by simp
  have two: "s\<lparr>kernel_pool := b, ptw := m\<rparr> = s\<lparr>ptw := m, kernel_pool := b\<rparr>" for m b by (cases s; simp)
  show ?thesis
    by (cases "palloc (kernel_pool s)") (simp_all add: page_table_add_def entry_added_def Let_def one two case_prod_beta)
qed

section \<open>One page for the running process\<close>

definition user_lock_idle :: "'a sync_scheme \<Rightarrow> bool" where
  "user_lock_idle s \<longleftrightarrow> (let l = pool_lock PF_USER in cur s \<noteq> NULL \<and> lock_holder s l = NULL \<and> holder_repeat_nr s l = 0 \<and>
     sem_value s (semaphore l) = 1 \<and> list_rep s (waiters (semaphore l)) [])"

definition user_frames_ok :: "'a vm_scheme \<Rightarrow> bool" where
  "user_frames_ok s \<longleftrightarrow> pool_ok (kernel_pool s) \<and> pool_ok (user_pool s) \<and> phy_addr_start (user_pool s) AND 0xfff = 0 \<and>
     phy_addr_start (user_pool s) \<noteq> 0 \<and>
     unat (phy_addr_start (user_pool s)) + 4096 * bm_size (pool_bitmap (user_pool s)) < 2 ^ 32"

text \<open>How many frames are free.\<close>

definition frames_left :: "pool \<Rightarrow> nat" where
  "frames_left p = card (free_bits (pool_bitmap p))"

lemma user_frame:
  assumes "user_frames_ok s" and "0 < frames_left (user_pool s)"
  obtains f u where "palloc (user_pool s) = Inr (f, u)" "f \<noteq> NULL" "f AND 0xfff = 0" "user_frames_ok (s\<lparr>user_pool := u\<rparr>)"
    "frames_left u = frames_left (user_pool s) - 1"
proof -
  note ok = assms(1) [unfolded user_frames_ok_def]
  have "free_bits (pool_bitmap (user_pool s)) \<noteq> {}" using assms(2) by (auto simp: frames_left_def)
  then obtain i u where i: "palloc (user_pool s) = Inr (page_of (user_pool s) i, u)"
    "i \<in> free_bits (pool_bitmap (user_pool s))" "bm_upd (pool_bitmap (user_pool s)) {i} True (pool_bitmap u)" "page_of u = page_of (user_pool s)"
    using frames.alloc_step [of "user_pool s"] ok by (auto simp: pool_ok_def)
  have more: "more_used (user_pool s) u" using palloc_more [OF _ i(1)] ok by simp
  have "unat (page_of (user_pool s) i) = unat (phy_addr_start (user_pool s)) + 4096 * i"
    using unat_page_of [of "user_pool s" i] ok i(2) by (simp add: free_bits_def)
  then have "page_of (user_pool s) i AND 0xfff = 0" "page_of (user_pool s) i \<noteq> NULL"
    using ok unat_eq_0 [of "phy_addr_start (user_pool s)"] by (auto simp: aligned_mod)
  moreover have "user_frames_ok (s\<lparr>user_pool := u\<rparr>)" using ok more by (simp add: user_frames_ok_def more_used_def)
  moreover have "frames_left u = frames_left (user_pool s) - 1"
    using free_bits_upd [OF i(3)] i(2) by (simp add: frames_left_def)
  ultimately show ?thesis using that i(1) by blast
qed

lemma get_page_user:
  fixes s :: "'a sync_scheme"
  assumes "user_lock_idle s" and "user_frames_ok s" and "0 < frames_left (user_pool s)" and "v < 0xc0000000" and "\<not> mapped s v"
  obtains q k u where
    "get_a_page_without_opvaddrbitmap s PF_USER v = Inr (v, s\<lparr>ptw := q, kernel_pool := k, user_pool := u\<rparr>)"
    "\<And>w. w < 0xc0000000 \<Longrightarrow> mapped (s\<lparr>ptw := q\<rparr>) w \<longleftrightarrow> same_page v w \<or> mapped s w"
    "\<And>a. kernel_tables a \<Longrightarrow> q a = ptw s a"
    "user_frames_ok (s\<lparr>ptw := q, kernel_pool := k, user_pool := u\<rparr>)" "frames_left u = frames_left (user_pool s) - 1"
proof -
  let ?l = "pool_lock PF_USER"
  obtain f u where f: "palloc (user_pool s) = Inr (f, u)" "f \<noteq> NULL" "f AND 0xfff = 0" "user_frames_ok (s\<lparr>user_pool := u\<rparr>)"
    "frames_left u = frames_left (user_pool s) - 1" by (rule user_frame [OF assms(2,3)])
  have v: "v < 0xffc00000" using assms(4) by (rule less_trans) simp
  have "pool_ok (kernel_pool s)" using assms(2) by (simp add: user_frames_ok_def)
  from page_table_add_page [OF v f(3) this assms(5)] obtain s2 where
    s2: "page_table_add s v f = Inr s2" "maps_page s v f s2" "more_used (kernel_pool s) (kernel_pool s2)" by blast
  obtain q k where e: "entry_added (ptw s) (kernel_pool s) v f = Inr (q, k)" and qk: "s2 = s\<lparr>ptw := q, kernel_pool := k\<rparr>"
    using s2(1) by (auto simp: page_table_add_via rbind_eq_Inr)
  let ?t = "s\<lparr>ptw := q, kernel_pool := k, user_pool := u\<rparr>"
  note lk = assms(1) [unfolded user_lock_idle_def Let_def]
  have enter: "lock_enter s ?l = Inr (inside s ?l)" using lk by (intro lock_enter_free) simp_all
  have "set_pool (inside s ?l) PF_USER u = (inside s ?l)\<lparr>user_pool := u\<rparr>" by (simp add: set_pool_def)
  moreover have "page_table_add ((inside s ?l)\<lparr>user_pool := u\<rparr>) v f = Inr (inside ?t ?l)"
  proof -
    have "ptw (inside s ?l) = ptw s" "kernel_pool (inside s ?l) = kernel_pool s"
      by (simp_all add: inside_def set_holder_def set_value_def)
    moreover have "(inside s ?l)\<lparr>user_pool := u, ptw := q, kernel_pool := k\<rparr> = inside ?t ?l"
      by (simp add: inside_def set_holder_def set_value_def)
    ultimately show ?thesis using e by (simp add: page_table_add_via)
  qed
  moreover have "pool_of (inside s ?l) PF_USER = user_pool s" by (simp add: pool_of_def inside_def set_holder_def set_value_def)
  moreover have "lock_release (inside ?t ?l) ?l = Inr ?t"
    using lk by (intro lock_leave) (simp_all add: list_rep_def)
  ultimately have r: "get_a_page_without_opvaddrbitmap s PF_USER v = Inr (v, ?t)"
    using enter f(1,2) by (simp add: get_a_page_without_opvaddrbitmap_def)
  have "mapped (s\<lparr>ptw := q\<rparr>) w = mapped s2 w" for w by (simp add: qk mapped_def table_present_def)
  then have m: "mapped (s\<lparr>ptw := q\<rparr>) w \<longleftrightarrow> same_page v w \<or> mapped s w" if "w < 0xc0000000" for w
  proof (cases "same_page v w")
    case True
    then have "pte_ptr w = pte_ptr v" using pte_ptr_eq_iff [of v w] by simp
    moreover from this have "pde_ptr w = pde_ptr v" by (simp add: pde_ptr_eq_iff)
    ultimately have "mapped s2 w = mapped s2 v" by (simp add: mapped_def table_present_def)
    then show ?thesis using True s2(2) \<open>\<And>w. mapped (s\<lparr>ptw := q\<rparr>) w = mapped s2 w\<close> by (simp add: maps_page_def)
  next
    case False
    have "w < 0xffc00000" using that by (rule less_trans) simp
    then show ?thesis using False s2(2) \<open>\<And>w. mapped (s\<lparr>ptw := q\<rparr>) w = mapped s2 w\<close> by (simp add: maps_page_def)
  qed
  have kt: "q a = ptw s a" if "kernel_tables a" for a
    using page_table_add_kernel [OF s2(1) assms(4) that] by (simp add: qk)
  have "user_frames_ok ?t" using f(4) s2(3) by (simp add: user_frames_ok_def more_used_def qk)
  then show ?thesis using that r m kt f(5) by blast
qed

section \<open>One page of the child\<close>

text \<open>
  A page of user space, and the buffer, a page of the kernel's heap.  \<open>two_spaces\<close>: parent and child
  have different page directories, and the parent's is the one in use.
\<close>

definition user_page :: "u32 \<Rightarrow> bool" where
  "user_page v \<longleftrightarrow> v AND 0xfff = 0 \<and> v < 0xc0000000"

definition heap_page :: "u32 \<Rightarrow> bool" where
  "heap_page b \<longleftrightarrow> b AND 0xfff = 0 \<and> K_HEAP_START \<le> b \<and> b < 0xffc00000"

definition dir_of :: "'a sched_scheme \<Rightarrow> u32 \<Rightarrow> u32" where
  "dir_of s t = addr_v2p s (pgdir (tasks s t))"

definition two_spaces :: "'a sched_scheme \<Rightarrow> u32 \<Rightarrow> u32 \<Rightarrow> bool" where
  "two_spaces s p c \<longleftrightarrow> (\<forall>t \<in> {p, c}. 0xc0000000 \<le> pgdir (tasks s t) \<and> pgdir (tasks s t) < 0xffc00000) \<and>
     cr3 s = dir_of s p \<and> dir_of s c \<noteq> dir_of s p"

lemma same_block: "m mod 4096 = 0 \<Longrightarrow> (m \<le> n \<and> n < m + 4096) = (n div 4096 = m div (4096 :: nat))"
proof -
  assume "m mod 4096 = 0"
  then obtain k where m: "m = 4096 * k" by auto
  have "n = 4096 * (n div 4096) + n mod 4096" "n mod 4096 < 4096" by simp_all
  then show ?thesis unfolding m by (simp; linarith)
qed

lemma in_page_iff:
  assumes "v AND 0xfff = 0" and "v < 0xffc00000"
  shows "x - v < PG_SIZE \<longleftrightarrow> same_page v x"
proof -
  have v: "unat v < 0xffc00000" "unat v mod 4096 = 0" using assms by (simp_all add: unat_less_iff aligned_mod)
  have "unat PG_SIZE = 4096" by (simp add: PG_SIZE_def)
  then have "x - v < PG_SIZE \<longleftrightarrow> x \<in> bytes_at v 4096" using sub_less_iff [of v PG_SIZE x] v(1) by simp
  also have "\<dots> \<longleftrightarrow> unat x div 4096 = unat v div 4096"
    unfolding bytes_at_def mem_Collect_eq by (rule same_block) (rule v(2))
  also have "\<dots> \<longleftrightarrow> same_page v x"
  proof -
    have "same_page v x \<longleftrightarrow> unat (v AND 0xfffff000) = unat (x AND 0xfffff000)" unfolding same_page_def by (rule word_unat_eq_iff)
    also have "\<dots> \<longleftrightarrow> unat v - unat v mod 4096 = unat x - unat x mod 4096" by (simp only: unat_page_start)
    also have "\<dots> \<longleftrightarrow> unat v div 4096 * 4096 = unat x div 4096 * 4096" by (simp only: minus_mod_eq_div_mult)
    finally show ?thesis by auto
  qed
  finally show ?thesis .
qed

lemma user_page_bytes: "user_page v \<Longrightarrow> same_page v x \<Longrightarrow> x < 0xc0000000"
proof -
  assume v: "user_page v" and "same_page v x"
  then have "v AND 0xfffff000 = x AND 0xfffff000" "v AND 0xfffff000 = v" by (simp_all add: same_page_def user_page_def aligned_page)
  then have "unat v = unat x - unat x mod 4096" using unat_page_start [of x] by metis
  moreover have "unat v mod 4096 = 0" "unat v < 0xc0000000" using v by (simp_all add: user_page_def aligned_mod unat_less_iff)
  then obtain k where "unat v = 4096 * k" "4096 * k < 4096 * 786432" by auto
  then have "unat v + 4096 \<le> 0xc0000000" by simp
  moreover have "unat x mod 4096 < 4096" by simp
  ultimately have "unat x < 0xc0000000" by linarith
  then show ?thesis by (simp add: unat_less_iff)
qed

lemma heap_page_bytes: "heap_page b \<Longrightarrow> same_page b x \<Longrightarrow> K_HEAP_START \<le> x"
proof -
  assume b: "heap_page b" and "same_page b x"
  then have "b AND 0xfffff000 = x AND 0xfffff000" "b AND 0xfffff000 = b" by (simp_all add: same_page_def heap_page_def aligned_page)
  then have "b \<le> x" using word_and_le2 [of x "0xfffff000"] by simp
  then show ?thesis using b by (auto simp: heap_page_def)
qed

lemma copy_mem_page:
  assumes "dst AND 0xfff = 0" and "dst < 0xffc00000"
  shows "mem (copy_mem s dst src PG_SIZE) x = (if same_page dst x then mem s (x - dst + src) else mem s x)"
    and "nxt (copy_mem s dst src PG_SIZE) x = (if same_page dst x then nxt s (x - dst + src) else nxt s x)"
    and "prv (copy_mem s dst src PG_SIZE) x = (if same_page dst x then prv s (x - dst + src) else prv s x)"
  using in_page_iff [OF assms, of x] by (simp_all add: copy_mem_def)

lemma copy_mem_same:
  "ptw (copy_mem s d a n) = ptw s" "tasks (copy_mem s d a n) = tasks s" "cur (copy_mem s d a n) = cur s" "cr3 (copy_mem s d a n) = cr3 s"
  "kernel_pool (copy_mem s d a n) = kernel_pool s" "user_pool (copy_mem s d a n) = user_pool s"
  "lock_holder (copy_mem s d a n) = lock_holder s" "holder_repeat_nr (copy_mem s d a n) = holder_repeat_nr s"
  "sem_value (copy_mem s d a n) = sem_value s" "proc.spaces (copy_mem s d a n) = proc.spaces s"
  by (simp_all add: copy_mem_def)

lemma switch_space_eq:
  assumes "pgdir (tasks t c) \<noteq> NULL" and "dir_of t c \<noteq> cr3 t"
  defines "new \<equiv> spaces t (dir_of t c)"
  shows "switch_space t c = t\<lparr>cr3 := dir_of t c, spaces := (spaces t)(cr3 t := save_space t),
    ptw := (\<lambda>a. if kernel_tables a then ptw t a else sp_ptw new a),
    nxt := (\<lambda>a. if in_kernel a then nxt t a else sp_nxt new a),
    prv := (\<lambda>a. if in_kernel a then prv t a else sp_prv new a),
    arenas := (\<lambda>a. if in_kernel a then arenas t a else sp_arenas new a),
    mem := (\<lambda>a. if in_kernel a then mem t a else sp_mem new a)\<rparr>"
  using assms(1,2) unfolding new_def
  by (simp add: switch_space_def Let_def page_dir_activate_def dir_of_def save_space_def cong: if_cong)

lemma dir_of_tables:
  assumes "\<And>a. kernel_tables a \<Longrightarrow> ptw t a = ptw s a" and "tasks t = tasks s"
    and "0xc0000000 \<le> pgdir (tasks s x)" "pgdir (tasks s x) < 0xffc00000"
  shows "dir_of t x = dir_of s x"
  using assms(1) [OF pte_kernel [OF assms(3,4)]] assms(2) by (simp add: dir_of_def addr_v2p_def)

lemma user_lock_idle_cong:
  assumes "user_lock_idle s" and "cur t = cur s" "lock_holder t = lock_holder s" "holder_repeat_nr t = holder_repeat_nr s"
    "sem_value t = sem_value s" and "\<And>x. in_kernel x \<Longrightarrow> x < K_HEAP_START \<Longrightarrow> nxt t x = nxt s x \<and> prv t x = prv s x"
  shows "user_lock_idle t"
proof -
  let ?w = "waiters (semaphore (pool_lock PF_USER))"
  have "in_kernel ?w \<and> ?w < K_HEAP_START" "in_kernel (TAIL ?w) \<and> TAIL ?w < K_HEAP_START"
    by (simp_all add: waiters_def semaphore_def pool_lock_def in_kernel_def K_HEAP_START_def TAIL_def)
  then have "list_rep t ?w [] = list_rep s ?w []" using assms(6) by (simp add: list_rep_def)
  then show ?thesis using assms(1-5) by (simp add: user_lock_idle_def Let_def)
qed

lemma mapped_user:
  assumes "w < 0xc0000000" and "\<And>a. \<not> kernel_tables a \<Longrightarrow> ptw t a = ptw s a"
  shows "mapped t w = mapped s w"
  using assms(2) [OF pde_not_kernel] assms(2) [OF pte_user_not_kernel [OF assms(1)]] by (simp add: mapped_def table_present_def)

lemma copy_user_page_eq:
  fixes s :: "'a proc_scheme"
  assumes "two_spaces s p c" and "user_lock_idle s" and "user_frames_ok s" and "0 < frames_left (user_pool s)"
    and "user_page v" and "heap_page buf" and "mapped s v" and "\<not> mapped (switch_space s c) v"
  shows "\<exists>s'. copy_user_page s p c buf v = Inr s' \<and> tasks s' = tasks s \<and> cr3 s' = cr3 s \<and> two_spaces s' p c \<and> user_lock_idle s' \<and>
    user_frames_ok s' \<and> frames_left (user_pool s') = frames_left (user_pool s) - 1 \<and>
    (\<forall>x < 0xc0000000. mem s' x = mem s x \<and> mapped s' x = mapped s x) \<and>
    (\<forall>w < 0xc0000000. mapped (switch_space s' c) w \<longleftrightarrow> same_page v w \<or> mapped (switch_space s c) w) \<and>
    (\<forall>x < 0xc0000000. mem (switch_space s' c) x = (if same_page v x then mem s x else mem (switch_space s c) x))"
proof -
  have v: "v AND 0xfff = 0" "v < 0xc0000000" "v < 0xffc00000"
    using assms(5) by (auto simp: user_page_def elim: less_trans)
  have b: "buf AND 0xfff = 0" "buf < 0xffc00000" using assms(6) by (simp_all add: heap_page_def)
  have dirs: "0xc0000000 \<le> pgdir (tasks s p)" "pgdir (tasks s p) < 0xffc00000" "0xc0000000 \<le> pgdir (tasks s c)"
    "pgdir (tasks s c) < 0xffc00000" "cr3 s = dir_of s p" "dir_of s c \<noteq> dir_of s p"
    using assms(1) by (simp_all add: two_spaces_def)
  have ne: "pgdir (tasks s p) \<noteq> NULL" "pgdir (tasks s c) \<noteq> NULL" using dirs(1,3) by auto
  have kv: "\<not> in_kernel x" if "same_page v x" for x using user_page_bytes [OF assms(5) that] by (simp add: in_kernel_def not_le)
  have kb: "in_kernel x" if "same_page buf x" for x
    using heap_page_bytes [OF assms(6) that] by (auto simp: in_kernel_def K_HEAP_START_def elim: order_trans [rotated])
  define t0 where "t0 = copy_mem s buf v PG_SIZE"
  note f0 = copy_mem_same [of s buf v PG_SIZE, folded t0_def] copy_mem_page [OF b, of s v, folded t0_def]
  let ?old = "spaces s (dir_of s c)"
  have d0: "dir_of t0 c = dir_of s c" by (simp add: dir_of_def addr_v2p_def f0)
  define t1 where "t1 = switch_space t0 c"
  have t1: "t1 = t0\<lparr>cr3 := dir_of s c, spaces := (spaces s)(dir_of s p := save_space t0),
    ptw := (\<lambda>a. if kernel_tables a then ptw s a else sp_ptw ?old a),
    nxt := (\<lambda>a. if in_kernel a then nxt t0 a else sp_nxt ?old a),
    prv := (\<lambda>a. if in_kernel a then prv t0 a else sp_prv ?old a),
    arenas := (\<lambda>a. if in_kernel a then arenas t0 a else sp_arenas ?old a),
    mem := (\<lambda>a. if in_kernel a then mem t0 a else sp_mem ?old a)\<rparr>"
    using switch_space_eq [of t0 c] ne dirs(5,6) d0 by (simp add: t1_def f0 cong: if_cong)
  have sw: "switch_space s c = s\<lparr>cr3 := dir_of s c, spaces := (spaces s)(dir_of s p := save_space s),
    ptw := (\<lambda>a. if kernel_tables a then ptw s a else sp_ptw ?old a),
    nxt := (\<lambda>a. if in_kernel a then nxt s a else sp_nxt ?old a),
    prv := (\<lambda>a. if in_kernel a then prv s a else sp_prv ?old a),
    arenas := (\<lambda>a. if in_kernel a then arenas s a else sp_arenas ?old a),
    mem := (\<lambda>a. if in_kernel a then mem s a else sp_mem ?old a)\<rparr>"
    using switch_space_eq [of s c] ne dirs(5,6) by simp
  have vs: "mapped (switch_space s c) w = mapped t1 w" "\<not> in_kernel x \<Longrightarrow> mem (switch_space s c) x = mem t1 x" for w x
    by (simp_all add: sw t1 mapped_def table_present_def)
  have l1: "user_lock_idle t1"
  proof (rule user_lock_idle_cong [OF assms(2)])
    fix x assume x: "in_kernel x" "x < K_HEAP_START"
    then have "\<not> same_page buf x" using heap_page_bytes [OF assms(6), of x] by auto
    then show "nxt t1 x = nxt s x \<and> prv t1 x = prv s x" using x(1) by (simp add: t1 f0)
  qed (simp_all add: t1 f0)
  have u1: "user_frames_ok t1" "0 < frames_left (user_pool t1)" using assms(3,4) by (simp_all add: t1 f0 user_frames_ok_def)
  have "\<not> mapped t1 v" using assms(8) vs(1) by simp
  from get_page_user [OF l1 u1 v(2) this] obtain q k u where
    g: "get_a_page_without_opvaddrbitmap t1 PF_USER v = Inr (v, t1\<lparr>ptw := q, kernel_pool := k, user_pool := u\<rparr>)"
      "\<And>w. w < 0xc0000000 \<Longrightarrow> mapped (t1\<lparr>ptw := q\<rparr>) w \<longleftrightarrow> same_page v w \<or> mapped t1 w"
      "\<And>a. kernel_tables a \<Longrightarrow> q a = ptw t1 a" "user_frames_ok (t1\<lparr>ptw := q, kernel_pool := k, user_pool := u\<rparr>)"
      "frames_left u = frames_left (user_pool t1) - 1" by metis
  define t2 where "t2 = t1\<lparr>ptw := q, kernel_pool := k, user_pool := u\<rparr>"
  have m2: "mapped t2 w = mapped (t1\<lparr>ptw := q\<rparr>) w" for w by (simp add: t2_def mapped_def table_present_def)
  then have mv: "mapped t2 v" using g(2) [OF v(2)] by (simp add: same_page_def)
  have q: "q a = ptw s a" if "kernel_tables a" for a using g(3) [OF that] that by (simp add: t1)
  define t3 where "t3 = copy_mem t2 v buf PG_SIZE"
  note f3 = copy_mem_same [of t2 v buf PG_SIZE, folded t3_def] copy_mem_page [OF v(1,3), of t2 buf, folded t3_def]
  have d3: "dir_of t3 p = dir_of s p" "dir_of t3 c = dir_of s c"
    using dir_of_tables [of t3 s p] dir_of_tables [of t3 s c] q dirs by (simp_all add: f3 t2_def t1 f0)
  define t4 where "t4 = switch_space t3 p"
  have e4: "t4 = t3\<lparr>cr3 := dir_of s p, spaces := (spaces t3)(dir_of s c := save_space t3),
    ptw := (\<lambda>a. if kernel_tables a then q a else ptw s a), nxt := (\<lambda>a. if in_kernel a then nxt t3 a else nxt t0 a),
    prv := (\<lambda>a. if in_kernel a then prv t3 a else prv t0 a), arenas := (\<lambda>a. if in_kernel a then arenas t3 a else arenas t0 a),
    mem := (\<lambda>a. if in_kernel a then mem t3 a else mem t0 a)\<rparr>"
    using switch_space_eq [of t3 p] ne dirs(5,6) d3 by (simp add: t4_def f3 t2_def t1 f0 save_space_def cong: if_cong)
  have r: "copy_user_page s p c buf v = Inr t4"
    unfolding copy_user_page_def t0_def [symmetric] t1_def [symmetric] Let_def
    using assms(7) g(1) mv by (simp add: t2_def [symmetric] t3_def [symmetric] t4_def [symmetric])
  have ptw4: "ptw t4 = ptw s" using q by (auto simp: e4)
  have tasks4: "tasks t4 = tasks s" by (simp add: e4 f3 t2_def t1 f0)
  have d4: "dir_of t4 p = dir_of s p" "dir_of t4 c = dir_of s c" using ptw4 tasks4 by (simp_all add: dir_of_def addr_v2p_def)
  have two: "two_spaces t4 p c" using dirs d4 tasks4 by (simp add: two_spaces_def e4)
  have mem4: "mem t4 x = mem s x" "mapped t4 x = mapped s x" if "x < 0xc0000000" for x
  proof -
    have "\<not> in_kernel x" using that by (simp add: in_kernel_def not_le)
    moreover have "\<not> same_page buf x" using kb calculation by blast
    ultimately show "mem t4 x = mem s x" by (simp add: e4 f0)
    show "mapped t4 x = mapped s x" using ptw4 by (simp add: mapped_def table_present_def)
  qed
  have l4: "user_lock_idle t4"
  proof (rule user_lock_idle_cong [OF l1])
    fix x assume x: "in_kernel x" "x < K_HEAP_START"
    then have "\<not> same_page v x" using kv by blast
    then show "nxt t4 x = nxt t1 x \<and> prv t4 x = prv t1 x" using x(1) by (simp add: e4 f3 t2_def)
  qed (simp_all add: e4 f3 t2_def)
  have u4: "user_frames_ok t4" "frames_left (user_pool t4) = frames_left (user_pool s) - 1"
    using g(4,5) by (simp_all add: e4 f3 t2_def t1 f0 user_frames_ok_def)
  have child: "switch_space t4 c = t4\<lparr>cr3 := dir_of s c, spaces := (spaces t4)(dir_of s p := save_space t4),
    ptw := (\<lambda>a. if kernel_tables a then ptw t4 a else ptw t3 a), nxt := (\<lambda>a. if in_kernel a then nxt t4 a else nxt t3 a),
    prv := (\<lambda>a. if in_kernel a then prv t4 a else prv t3 a), arenas := (\<lambda>a. if in_kernel a then arenas t4 a else arenas t3 a),
    mem := (\<lambda>a. if in_kernel a then mem t4 a else mem t3 a)\<rparr>"
    using switch_space_eq [of t4 c] ne dirs(5,6) d4 tasks4 by (simp add: e4 save_space_def cong: if_cong)
  have mc: "mapped (switch_space t4 c) w \<longleftrightarrow> same_page v w \<or> mapped (switch_space s c) w" if "w < 0xc0000000" for w
  proof -
    have "mapped (switch_space t4 c) w = mapped t3 w" by (rule mapped_user [OF that]) (simp add: child)
    also have "\<dots> = mapped t2 w" by (simp add: mapped_def table_present_def f3)
    finally show ?thesis using g(2) [OF that] m2 vs(1) by simp
  qed
  have memc: "mem (switch_space t4 c) x = (if same_page v x then mem s x else mem (switch_space s c) x)" if "x < 0xc0000000" for x
  proof -
    have x: "\<not> in_kernel x" using that by (simp add: in_kernel_def not_le)
    show ?thesis
    proof (cases "same_page v x")
      case True
      let ?y = "x - v + buf"
      have "?y - buf < PG_SIZE" using in_page_iff [OF v(1,3), of x] True by simp
      then have y: "same_page buf ?y" using in_page_iff [OF b] by blast
      have "mem (switch_space t4 c) x = mem t2 ?y" using x True by (simp add: child f3)
      also have "\<dots> = mem t0 ?y" using kb [OF y] by (simp add: t2_def t1)
      also have "\<dots> = mem s x" using y by (simp add: f0)
      finally show ?thesis using True by simp
    next
      case False
      then show ?thesis using x vs(2) [OF x] by (simp add: child f3 t2_def)
    qed
  qed
  have "cr3 t4 = cr3 s" using dirs(5) by (simp add: e4)
  then show ?thesis using r tasks4 two l4 u4 mem4 mc memc by blast
qed

section \<open>All pages\<close>

fun copy_pages :: "'a proc_scheme \<Rightarrow> u32 \<Rightarrow> u32 \<Rightarrow> u32 \<Rightarrow> u32 list \<Rightarrow> 'a proc_scheme res" where
  "copy_pages s p c buf [] = Inr s"
| "copy_pages s p c buf (v # vs) = rbind (copy_user_page s p c buf v) (\<lambda>s. copy_pages s p c buf vs)"

lemma copy_pages_append:
  "copy_pages s p c buf (vs @ ws) = rbind (copy_pages s p c buf vs) (\<lambda>s. copy_pages s p c buf ws)"
proof (induction vs arbitrary: s)
  case (Cons v vs)
  then show ?case by (cases "copy_user_page s p c buf v") simp_all
qed simp

lemma same_user_page: "user_page v \<Longrightarrow> user_page w \<Longrightarrow> same_page v w \<longleftrightarrow> v = w"
  by (simp add: same_page_def user_page_def aligned_page)

lemma same_page_sym: "same_page v w \<longleftrightarrow> same_page w v"
  by (auto simp: same_page_def)

text \<open>What is true after a list of pages has been copied.\<close>

definition copied :: "'a proc_scheme \<Rightarrow> u32 \<Rightarrow> u32 \<Rightarrow> (u32 \<Rightarrow> bool) \<Rightarrow> 'a proc_scheme \<Rightarrow> bool" where
  "copied s p c P t \<longleftrightarrow> tasks t = tasks s \<and> cr3 t = cr3 s \<and> two_spaces t p c \<and> user_lock_idle t \<and> user_frames_ok t \<and>
     (\<forall>x < 0xc0000000. mem t x = mem s x \<and> mapped t x = mapped s x \<and>
        mapped (switch_space t c) x = (P x \<or> mapped (switch_space s c) x) \<and>
        mem (switch_space t c) x = (if P x then mem s x else mem (switch_space s c) x))"

lemma copy_pages_eq:
  "two_spaces s p c \<Longrightarrow> user_lock_idle s \<Longrightarrow> user_frames_ok s \<Longrightarrow> length vs \<le> frames_left (user_pool s) \<Longrightarrow> heap_page buf \<Longrightarrow>
   distinct vs \<Longrightarrow> (\<And>v. v \<in> set vs \<Longrightarrow> user_page v \<and> mapped s v \<and> \<not> mapped (switch_space s c) v) \<Longrightarrow>
   \<exists>t. copy_pages s p c buf vs = Inr t \<and> copied s p c (\<lambda>x. \<exists>v \<in> set vs. same_page v x) t"
proof (induction vs arbitrary: s)
  case Nil
  then show ?case by (simp add: copied_def)
next
  case (Cons v vs)
  have v: "user_page v" "mapped s v" "\<not> mapped (switch_space s c) v" using Cons.prems(7) by simp_all
  have n: "0 < frames_left (user_pool s)" using Cons.prems(4) by simp
  from copy_user_page_eq [OF Cons.prems(1-3) n v(1) Cons.prems(5) v(2,3)] obtain t where
    t: "copy_user_page s p c buf v = Inr t" "tasks t = tasks s" "cr3 t = cr3 s" "two_spaces t p c" "user_lock_idle t" "user_frames_ok t"
      "frames_left (user_pool t) = frames_left (user_pool s) - 1"
      "\<forall>x < 0xc0000000. mem t x = mem s x \<and> mapped t x = mapped s x"
      "\<forall>w < 0xc0000000. mapped (switch_space t c) w \<longleftrightarrow> same_page v w \<or> mapped (switch_space s c) w"
      "\<forall>x < 0xc0000000. mem (switch_space t c) x = (if same_page v x then mem s x else mem (switch_space s c) x)" by blast
  have rest: "user_page w \<and> mapped t w \<and> \<not> mapped (switch_space t c) w" if "w \<in> set vs" for w
  proof -
    have w: "user_page w" "mapped s w" "\<not> mapped (switch_space s c) w" using Cons.prems(7) [of w] that by simp_all
    moreover have "w < 0xc0000000" using w(1) by (simp add: user_page_def)
    moreover have "\<not> same_page v w" using same_user_page [OF v(1) w(1)] Cons.prems(6) that by auto
    ultimately show ?thesis using t(8,9) by simp
  qed
  have "length vs \<le> frames_left (user_pool t)" "distinct vs" using Cons.prems(4,6) t(7) by simp_all
  from Cons.IH [OF t(4-6) this(1) Cons.prems(5) this(2) rest] obtain u where
    u: "copy_pages t p c buf vs = Inr u" "copied t p c (\<lambda>x. \<exists>v \<in> set vs. same_page v x) u" by blast
  have "copied s p c (\<lambda>x. \<exists>w \<in> set (v # vs). same_page w x) u"
    using u(2) t(2,3,8-10) unfolding copied_def by simp
  then show ?case using t(1) u(1) by simp
qed

section \<open>The loops over the bitmap\<close>

lemma mask_bit: "i < 8 \<Longrightarrow> push_bit i BITMAP_MASK AND ucast (v :: u8) \<noteq> 0 \<longleftrightarrow> bit v i"
proof -
  assume i: "i < 8"
  have "bit (push_bit i BITMAP_MASK AND (ucast v :: u32)) n \<longleftrightarrow> n = i \<and> bit v i" for n
    using i by (auto simp: bit_simps BITMAP_MASK_def bit_1_iff)
  then show ?thesis by (metis bit_0_eq bot_apply bot_bool_def bit_word_eqI)
qed

lemma copy_bits_pages:
  "i + k = 8 \<Longrightarrow> copy_bits s p c buf start v idx i k =
     copy_pages s p c buf (map (\<lambda>j. (idx * 8 + of_nat j) * PG_SIZE + start) (filter (bit v) [i..<8]))"
proof (induction k arbitrary: s i)
  case (Suc k)
  then have "i < 8" by simp
  moreover from this have "[i..<8] = i # [Suc i..<8]" by (simp add: upt_conv_Cons)
  ultimately show ?case using Suc.IH [of "Suc i"] Suc.prems mask_bit [of i v] by simp
qed simp

lemma copy_bytes_pages:
  "i + k = n \<Longrightarrow> n \<le> length bs \<Longrightarrow> n < 2 ^ 31 \<Longrightarrow> copy_bytes s p c buf start bs (of_nat i) k =
     copy_pages s p c buf (map (\<lambda>j. of_nat j * PG_SIZE + start) (filter (\<lambda>j. bit (bs ! (j div 8)) (j mod 8)) [8 * i..<8 * n]))"
proof (induction k arbitrary: s i)
  case (Suc k)
  let ?P = "\<lambda>j. bit (bs ! (j div 8)) (j mod 8)" and ?f = "\<lambda>j. of_nat j * PG_SIZE + start"
  have i: "i < n" using Suc.prems(1) by simp
  then have "unat (of_nat i :: u32) = i" using Suc.prems(3) by (intro unat_of_nat_small) simp
  then have ld: "ld bs (of_nat i) = Inr (bs ! i)" using i Suc.prems(2) by (simp add: ld_def)
  have "[8 * i..<8 * n] = [8 * i..<8 * i + 8] @ [8 * Suc i..<8 * n]"
    using i upt_add_eq_append [of "8 * i" "8 * i + 8" "8 * n - (8 * i + 8)"] by (simp add: add.commute)
  moreover have "[8 * i..<8 * i + 8] = map (\<lambda>j. 8 * i + j) [0..<8]" by (simp add: map_add_upt add.commute)
  moreover have "filter ?P (map (\<lambda>j. 8 * i + j) [0..<8]) = map (\<lambda>j. 8 * i + j) (filter (bit (bs ! i)) [0..<8])"
    by (auto simp: filter_map o_def intro!: filter_cong)
  ultimately have "map ?f (filter ?P [8 * i..<8 * n]) =
      map (\<lambda>j. (of_nat i * 8 + of_nat j) * PG_SIZE + start) (filter (bit (bs ! i)) [0..<8]) @ map ?f (filter ?P [8 * Suc i..<8 * n])"
    by (simp add: o_def algebra_simps)
  moreover have "(if bs ! i \<noteq> 0 then copy_bits s p c buf start (bs ! i) (of_nat i) 0 8 else Inr s) =
      copy_pages s p c buf (map (\<lambda>j. (of_nat i * 8 + of_nat j) * PG_SIZE + start) (filter (bit (bs ! i)) [0..<8]))"
    using copy_bits_pages [of 0 8 s p c buf start "bs ! i" "of_nat i"] by (cases "bs ! i = 0") simp_all
  moreover have "of_nat i + 1 = (of_nat (Suc i) :: u32)" by simp
  moreover have "copy_bytes t p c buf start bs (of_nat (Suc i)) k = copy_pages t p c buf (map ?f (filter ?P [8 * Suc i..<8 * n]))"
    for t :: "'a proc_scheme"
    using Suc.IH [of "Suc i" t] Suc.prems by (simp only: add_Suc_shift)
  ultimately show ?case by (simp only: copy_bytes.simps ld rbind_Inr copy_pages_append)
qed simp

section \<open>The child's memory\<close>

text \<open>
  The pages a task owns are those marked in its bitmap.  \<open>user_area\<close>: they are pages of user space.
\<close>

definition task_page :: "task_struct \<Rightarrow> nat \<Rightarrow> u32" where
  "task_page t i = of_nat i * PG_SIZE + vaddr_start (userprog_vaddr t)"

definition marked :: "task_struct \<Rightarrow> nat set" where
  "marked t = {i. i < bm_size (vaddr_bitmap (userprog_vaddr t)) \<and> bm_bit (vaddr_bitmap (userprog_vaddr t)) i}"

definition owns :: "task_struct \<Rightarrow> u32 \<Rightarrow> bool" where
  "owns t x \<longleftrightarrow> (\<exists>i \<in> marked t. same_page (task_page t i) x)"

definition user_area :: "task_struct \<Rightarrow> bool" where
  "user_area t \<longleftrightarrow> (let va = userprog_vaddr t in bm_ok (vaddr_bitmap va) \<and> vaddr_start va AND 0xfff = 0 \<and>
     unat (vaddr_start va) + 4096 * bm_size (vaddr_bitmap va) \<le> 0xc0000000)"

lemma unat_task_page:
  assumes "user_area t" and "i < bm_size (vaddr_bitmap (userprog_vaddr t))"
  shows "unat (task_page t i) = unat (vaddr_start (userprog_vaddr t)) + 4096 * i"
proof -
  have lim: "unat (vaddr_start (userprog_vaddr t)) + 4096 * i < 0xc0000000"
    using assms by (simp add: user_area_def Let_def)
  then have "unat (of_nat i :: u32) = i" by (intro unat_of_nat_small) simp
  then have "unat (of_nat i * PG_SIZE) = 4096 * i" using lim by (subst unat_mult_no_wrap) (simp_all add: PG_SIZE_def)
  then show ?thesis using lim unfolding task_page_def by (subst unat_add_no_wrap) simp_all
qed

lemma task_page_user:
  assumes "user_area t" and "i < bm_size (vaddr_bitmap (userprog_vaddr t))"
  shows "user_page (task_page t i)"
proof -
  have "unat (vaddr_start (userprog_vaddr t)) mod 4096 = 0" using assms(1) by (simp add: user_area_def Let_def aligned_mod)
  moreover have "unat (task_page t i) < 0xc0000000"
    using assms unat_task_page [OF assms] by (simp add: user_area_def Let_def)
  ultimately show ?thesis using unat_task_page [OF assms] by (simp add: user_page_def aligned_mod unat_less_iff)
qed

text \<open>
  C10: \<open>fork\<close> copies memory.  Parent and child have page directories of their own; the frames suffice for the
  pages of the parent and, one each at most, for the child's page tables; each page the parent owns is mapped in
  its space and not yet in the child's.  Then \<open>copy_body_stack3\<close> returns, in the space of the parent, whose memory and
  mappings are as before; the child has exactly the parent's pages in addition to those it had, and every byte
  of them is the parent's.
\<close>

theorem fork_copies_memory:
  fixes s :: "'a proc_scheme"
  assumes "two_spaces s p c" and "user_lock_idle s" and "user_frames_ok s" and "heap_page buf" and "user_area (tasks s p)"
    and "card (marked (tasks s p)) \<le> frames_left (user_pool s)" and "card (marked (tasks s p)) \<le> frames_left (kernel_pool s)"
    and "\<forall>x. owns (tasks s p) x \<longrightarrow> mapped s x \<and> \<not> mapped (switch_space s c) x"
  shows "\<exists>t. copy_body_stack3 s p c buf = Inr t \<and> tasks t = tasks s \<and> cr3 t = cr3 s \<and> two_spaces t p c \<and>
    (\<forall>x < 0xc0000000. mem t x = mem s x \<and> mapped t x = mapped s x \<and>
       mapped (switch_space t c) x = (owns (tasks s p) x \<or> mapped (switch_space s c) x) \<and>
       mem (switch_space t c) x = (if owns (tasks s p) x then mem s x else mem (switch_space s c) x))"
proof -
  let ?t = "tasks s p"
  let ?b = "vaddr_bitmap (userprog_vaddr ?t)"
  let ?ids = "filter (bm_bit ?b) [0..<bm_size ?b]"
  have ids: "set ?ids = marked ?t" "distinct ?ids" by (auto simp: marked_def)
  have bm: "unat (btmp_bytes_len ?b) \<le> length (bits ?b)" "bm_size ?b < 2 ^ 31" using assms(5) by (simp_all add: user_area_def Let_def bm_ok_def)
  have r: "copy_body_stack3 s p c buf = copy_pages s p c buf (map (task_page ?t) ?ids)"
    using copy_bytes_pages [of 0 "unat (btmp_bytes_len ?b)" "unat (btmp_bytes_len ?b)" "bits ?b" s p c buf
        "vaddr_start (userprog_vaddr ?t)"] bm
    by (simp add: copy_body_stack3_def Let_def bm_size_def bm_bit_def [abs_def] task_page_def [abs_def])
  have dist: "distinct (map (task_page ?t) ?ids)"
  proof (simp only: distinct_map, intro conjI ids(2) inj_onI)
    fix i j assume "i \<in> set ?ids" "j \<in> set ?ids" and e: "task_page ?t i = task_page ?t j"
    then have "i < bm_size ?b" "j < bm_size ?b" by simp_all
    then have "unat (vaddr_start (userprog_vaddr ?t)) + 4096 * i = unat (vaddr_start (userprog_vaddr ?t)) + 4096 * j"
      using unat_task_page [OF assms(5)] e by metis
    then show "i = j" by simp
  qed
  have len: "length (map (task_page ?t) ?ids) \<le> frames_left (user_pool s)"
    using assms(6) distinct_card [OF ids(2)] unfolding ids(1) by simp
  have ok: "user_page v \<and> mapped s v \<and> \<not> mapped (switch_space s c) v" if "v \<in> set (map (task_page ?t) ?ids)" for v
  proof -
    from that have "v \<in> task_page ?t ` marked ?t" by (simp only: set_map ids(1))
    then obtain i where i: "i \<in> marked ?t" "v = task_page ?t i" by blast
    then have "owns ?t v" by (auto simp: owns_def same_page_def)
    then show ?thesis using assms(8) i task_page_user [OF assms(5)] by (simp add: marked_def)
  qed
  from copy_pages_eq [OF assms(1-3) len assms(4) dist ok] obtain t where
    t: "copy_pages s p c buf (map (task_page ?t) ?ids) = Inr t" "copied s p c (\<lambda>x. \<exists>v \<in> set (map (task_page ?t) ?ids). same_page v x) t" by blast
  have "(\<exists>v \<in> set (map (task_page ?t) ?ids). same_page v x) = owns ?t x" for x
    unfolding owns_def ids(1) [symmetric] by simp
  then show ?thesis using r t unfolding copied_def by auto
qed

text \<open>A parent with one page, at \<open>0x8048000\<close>, and a child with an empty address space.\<close>

definition zero_space :: space where
  "zero_space = \<lparr>sp_ptw = (\<lambda>_. 0), sp_nxt = (\<lambda>_. 0), sp_prv = (\<lambda>_. 0), sp_arenas = (\<lambda>_. zero_arena), sp_mem = (\<lambda>_. 0)\<rparr>"

definition demo_process :: "u32 \<Rightarrow> task_struct" where
  "demo_process dir = (demo_task TASK_RUNNING)\<lparr>pgdir := dir,
     userprog_vaddr := \<lparr>vaddr_bitmap = \<lparr>btmp_bytes_len = 1, bits = [1]\<rparr>, vaddr_start = 0x8048000\<rparr>\<rparr>"

definition demo_pair :: proc where
  "demo_pair = (memory.extend (lock_init demo_memory (pool_lock PF_USER))
     \<lparr>spaces = (\<lambda>_. zero_space),
      thread_stacks = (\<lambda>_. \<lparr>ts_ebp = 0, ts_ebx = 0, ts_edi = 0, ts_esi = 0, ts_eip = 0, ts_function = 0, ts_func_arg = 0\<rparr>),
      intr_stacks = (\<lambda>_. \<lparr>is_regs = [0, 0, 0, 0, 0], is_ebx = 0, is_ecx = 0, is_eax = 0, is_gs = 0, is_fs = 0, is_es = 0,
        is_ds = 0, is_eip = 0, is_cs = 0, is_eflags = 0, is_esp = 0, is_ss = 0\<rparr>)\<rparr>)
     \<lparr>tasks := (\<lambda>t. demo_process (if t = 0xc009e000 then 0xc0110000 else 0xc0111000)), cr3 := 0x200000,
       ptw := (\<lambda>a. if a = 0xfff00440 then 0x200007 else if a = 0xfff00444 then 0x201007
                   else if a = 0xfffff080 then 0x202007 else if a = 0xffc20120 then 0x300007 else 0),
       mem := (\<lambda>x. ucast x), kernel_pool := some_pool 0x200000, user_pool := some_pool 0x300000\<rparr>"

lemma demo_pair_fields:
  "cr3 demo_pair = 0x200000" "tasks demo_pair t = demo_process (if t = 0xc009e000 then 0xc0110000 else 0xc0111000)"
  "ptw demo_pair a = (if a = 0xfff00440 then 0x200007 else if a = 0xfff00444 then 0x201007
                   else if a = 0xfffff080 then 0x202007 else if a = 0xffc20120 then 0x300007 else 0)"
  "mem demo_pair x = ucast x" "spaces demo_pair = (\<lambda>_. zero_space)" "cur demo_pair = 0xc009e000"
  "kernel_pool demo_pair = some_pool 0x200000" "user_pool demo_pair = some_pool 0x300000"
  "lock_holder demo_pair (pool_lock PF_USER) = NULL" "holder_repeat_nr demo_pair (pool_lock PF_USER) = 0"
  "sem_value demo_pair (semaphore (pool_lock PF_USER)) = 1"
  "nxt demo_pair = nxt (list_init demo_memory (waiters (semaphore (pool_lock PF_USER))))"
  "prv demo_pair = prv (list_init demo_memory (waiters (semaphore (pool_lock PF_USER))))"
  using demo_memory_fields(4)
  by (simp_all add: demo_pair_def memory.defs lock_init_def sema_init_def set_holder_def set_value_def list_init_def Let_def
      set_nxt_def set_prv_def)

lemma demo_pair_lock: "user_lock_idle demo_pair"
proof -
  let ?w = "waiters (semaphore (pool_lock PF_USER))"
  have "list_rep demo_pair ?w []"
    using list_init_rep [of demo_memory ?w] by (simp add: list_rep_def demo_pair_fields)
  then show ?thesis by (simp add: user_lock_idle_def Let_def demo_pair_fields)
qed

lemma demo_pair_frames: "user_frames_ok demo_pair" "1 \<le> frames_left (some_pool start)"
proof -
  have "3 \<in> free_bits (pool_bitmap (some_pool start))"
    by (simp add: free_bits_def some_pool_def bitmap_of_def bm_size_def bm_bit_def bit_numeral_word_iff)
  then have "free_bits (pool_bitmap (some_pool start)) \<noteq> {}" by blast
  then have "0 < card (free_bits (pool_bitmap (some_pool start)))" by (simp add: card_gt_0_iff)
  then show "1 \<le> frames_left (some_pool start)" by (simp add: frames_left_def)
  show "user_frames_ok demo_pair"
    by (simp add: user_frames_ok_def demo_pair_fields some_pool_def pool_ok_def bm_ok_def bm_size_def bitmap_of_def)
qed

lemma demo_entries:
  "pte_ptr 0xc0110000 = 0xfff00440" "pte_ptr 0xc0111000 = 0xfff00444" "pde_ptr 0x8048000 = 0xfffff080" "pte_ptr 0x8048000 = 0xffc20120"
  by (simp_all add: pte_ptr_def pde_ptr_def PTE_IDX_def PDE_IDX_def)

lemma demo_pair_dirs: "dir_of demo_pair 0xc009e000 = 0x200000" "dir_of demo_pair 0xc0101000 = 0x201000"
  by (simp_all add: dir_of_def addr_v2p_def demo_pair_fields demo_process_def demo_entries)

lemma demo_marked: "marked (demo_process d) = {0}" "owns (demo_process d) x \<longleftrightarrow> same_page 0x8048000 x"
proof -
  have "i < 8 \<and> bit ([1 :: u8] ! (i div 8)) (i mod 8) \<longleftrightarrow> i = 0" for i :: nat
    by (cases "i < 8") (simp_all add: bit_1_iff)
  then show "marked (demo_process d) = {0}"
    by (simp only: marked_def demo_process_def bm_size_def bm_bit_def task_struct.simps virtual_addr.simps bitmap.simps) simp
  then show "owns (demo_process d) x \<longleftrightarrow> same_page 0x8048000 x"
    by (simp add: owns_def task_page_def demo_process_def)
qed

theorem fork_copies_memory_witness:
  "\<exists>t. copy_body_stack3 demo_pair 0xc009e000 0xc0101000 0xc0120000 = Inr t \<and> cr3 t = 0x200000 \<and>
     mapped (switch_space t 0xc0101000) 0x8048000 \<and> mem (switch_space t 0xc0101000) 0x8048123 = 0x23"
proof -
  have two: "two_spaces demo_pair 0xc009e000 0xc0101000"
    using demo_pair_dirs by (simp add: two_spaces_def demo_pair_fields demo_process_def)
  have buf: "heap_page 0xc0120000" by (simp add: heap_page_def K_HEAP_START_def)
  have area: "user_area (tasks demo_pair 0xc009e000)"
    by (simp add: user_area_def demo_pair_fields demo_process_def bm_ok_def bm_size_def)
  have card: "card (marked (tasks demo_pair 0xc009e000)) \<le> frames_left (user_pool demo_pair)"
    "card (marked (tasks demo_pair 0xc009e000)) \<le> frames_left (kernel_pool demo_pair)"
    using demo_pair_frames(2) by (simp_all add: demo_pair_fields demo_marked)
  have maps: "\<forall>x. owns (tasks demo_pair 0xc009e000) x \<longrightarrow> mapped demo_pair x \<and> \<not> mapped (switch_space demo_pair 0xc0101000) x"
  proof (intro allI impI)
    fix x assume "owns (tasks demo_pair 0xc009e000) x"
    then have "same_page 0x8048000 x" by (simp add: demo_pair_fields demo_marked)
    then have "pte_ptr x = 0xffc20120" using pte_ptr_eq_iff [of "0x8048000" x] by (simp add: demo_entries)
    moreover from this have "pde_ptr x = 0xfffff080"
      using pde_ptr_eq_iff [of x "0x8048000"] by (simp add: demo_entries)
    moreover have "switch_space demo_pair 0xc0101000 = demo_pair\<lparr>cr3 := 0x201000, spaces := (spaces demo_pair)(0x200000 := save_space demo_pair),
        ptw := (\<lambda>a. if kernel_tables a then ptw demo_pair a else 0), nxt := (\<lambda>a. if in_kernel a then nxt demo_pair a else 0),
        prv := (\<lambda>a. if in_kernel a then prv demo_pair a else 0), arenas := (\<lambda>a. if in_kernel a then arenas demo_pair a else zero_arena),
        mem := (\<lambda>a. if in_kernel a then mem demo_pair a else 0)\<rparr>"
      using switch_space_eq [of demo_pair "0xc0101000"] demo_pair_dirs(2)
      by (simp add: demo_pair_fields demo_process_def zero_space_def cong: if_cong)
    ultimately show "mapped demo_pair x \<and> \<not> mapped (switch_space demo_pair 0xc0101000) x"
      by (simp add: mapped_def table_present_def demo_pair_fields kernel_tables_def)
  qed
  from fork_copies_memory [OF two demo_pair_lock demo_pair_frames(1) buf area card maps] obtain t where
    t: "copy_body_stack3 demo_pair 0xc009e000 0xc0101000 0xc0120000 = Inr t" "cr3 t = cr3 demo_pair"
      "\<forall>x < 0xc0000000. mapped (switch_space t 0xc0101000) x = (owns (tasks demo_pair 0xc009e000) x \<or> mapped (switch_space demo_pair 0xc0101000) x) \<and>
         mem (switch_space t 0xc0101000) x = (if owns (tasks demo_pair 0xc009e000) x then mem demo_pair x else mem (switch_space demo_pair 0xc0101000) x)"
    by blast
  have "owns (tasks demo_pair 0xc009e000) 0x8048000" "owns (tasks demo_pair 0xc009e000) 0x8048123"
    by (simp_all add: demo_pair_fields demo_marked same_page_def)
  then show ?thesis using t by (intro exI [of _ t]) (simp add: demo_pair_fields)
qed

end
