(* ===== verification/Exec.thy ===== *)
theory Exec
  imports Process Fsys
begin

text \<open>
  Running a program from the file system: \<open>userprog/exec.c\<close>.

  \<open>s\<close> is the kernel's state with the memory of the running process, \<open>f\<close> that of the file system.
  \<open>ehdr_of\<close> and \<open>phdr_of\<close> give the structures of the ELF format their bytes in a file, lowest byte first.
  The text of the debugging output is left out.
\<close>

section \<open>Memory as a buffer\<close>

definition read_mem :: "'a memory_scheme \<Rightarrow> u32 \<Rightarrow> nat \<Rightarrow> u8 list" where
  "read_mem s a n = map (\<lambda>k. mem s (a + of_nat k)) [0..<n]"

definition write_mem :: "'a memory_scheme \<Rightarrow> u32 \<Rightarrow> u8 list \<Rightarrow> 'a memory_scheme" where
  "write_mem s a bs = s\<lparr>mem := (\<lambda>x. if unat (x - a) < length bs then bs ! unat (x - a) else mem s x)\<rparr>"

definition rd16 :: "u8 list \<Rightarrow> nat \<Rightarrow> u16" where
  "rd16 bs off = ucast (bs ! off) OR push_bit 8 (ucast (bs ! (off + 1)))"

definition word_at :: "u8 list \<Rightarrow> nat \<Rightarrow> u32" where
  "word_at bs off = words (drop off bs) ! 0"

section \<open>Headers\<close>

definition EHDR_SIZE :: u32 where
  "EHDR_SIZE = 52"

definition PHDR_SIZE :: u32 where
  "PHDR_SIZE = 32"

record Elf32_Ehdr =
  e_ident :: "u8 list"
  e_type :: u16
  e_machine :: u16
  e_version :: u32
  e_entry :: u32
  e_phoff :: u32
  e_shoff :: u32
  e_flags :: u32
  e_ehsize :: u16
  e_phentsize :: u16
  e_phnum :: u16
  e_shentsize :: u16
  e_shnum :: u16
  e_shstrndx :: u16

record Elf32_Phdr =
  p_type :: u32
  p_offset :: u32
  p_vaddr :: u32
  p_paddr :: u32
  p_filesz :: u32
  p_memsz :: u32
  p_flags :: u32
  p_align :: u32

datatype segment_type = PT_NULL | PT_LOAD | PT_DYNAMIC | PT_INTERP | PT_NOTE | PT_SHLIB | PT_PHDR

text \<open>The number of an enumerator.\<close>

primrec segment_nr :: "segment_type \<Rightarrow> u32" where
  "segment_nr PT_NULL = 0"
| "segment_nr PT_LOAD = 1"
| "segment_nr PT_DYNAMIC = 2"
| "segment_nr PT_INTERP = 3"
| "segment_nr PT_NOTE = 4"
| "segment_nr PT_SHLIB = 5"
| "segment_nr PT_PHDR = 6"

definition ehdr_of :: "u8 list \<Rightarrow> Elf32_Ehdr" where
  "ehdr_of bs =
     \<lparr>e_ident = take 16 bs, e_type = rd16 bs 16, e_machine = rd16 bs 18,
       e_version = word_at bs 20, e_entry = word_at bs 24, e_phoff = word_at bs 28,
       e_shoff = word_at bs 32, e_flags = word_at bs 36, e_ehsize = rd16 bs 40,
       e_phentsize = rd16 bs 42, e_phnum = rd16 bs 44, e_shentsize = rd16 bs 46,
       e_shnum = rd16 bs 48, e_shstrndx = rd16 bs 50\<rparr>"

definition phdr_of :: "u8 list \<Rightarrow> Elf32_Phdr" where
  "phdr_of bs =
     \<lparr>p_type = word_at bs 0, p_offset = word_at bs 4, p_vaddr = word_at bs 8,
       p_paddr = word_at bs 12, p_filesz = word_at bs 16, p_memsz = word_at bs 20,
       p_flags = word_at bs 24, p_align = word_at bs 28\<rparr>"

section \<open>Segments\<close>

definition occupy_pages :: "u32 \<Rightarrow> u32 \<Rightarrow> u32" where
  "occupy_pages filesz vaddr =
     (let size_in_first_page = PG_SIZE - (vaddr AND 0x00000fff)
      in if filesz > size_in_first_page then DIV_ROUND_UP (filesz - size_in_first_page) PG_SIZE + 1 else 1)"

text \<open>
  The pages a segment needs; \<open>False\<close> when one cannot be had.  The message printed for each page
  shows its table entry even when there is no table, which is a page fault.
\<close>

fun segment_pages :: "'a sync_scheme \<Rightarrow> u32 \<Rightarrow> nat \<Rightarrow> (bool \<times> 'a sync_scheme) res" where
  "segment_pages s vaddr_page 0 = Inr (True, s)"
| "segment_pages s vaddr_page (Suc k) =
     (if ptw s (pde_ptr vaddr_page) AND 1 = 0 then Inl WildPointer
      else if ptw s (pte_ptr vaddr_page) AND 1 = 0 then
        rbind (get_a_page s PF_USER vaddr_page) (\<lambda>(p, s).
          if p = NULL then Inr (False, s) else segment_pages s (vaddr_page + PG_SIZE) k)
      else segment_pages s (vaddr_page + PG_SIZE) k)"

definition segment_load ::
  "'a memory_scheme \<Rightarrow> 'b fsys_scheme \<Rightarrow> i32 \<Rightarrow> u32 \<Rightarrow> u32 \<Rightarrow> u32 \<Rightarrow> (bool \<times> 'a memory_scheme \<times> 'b fsys_scheme) res" where
  "segment_load s f fd offset filesz vaddr =
     rbind (segment_pages s (vaddr AND 0xfffff000) (unat (occupy_pages filesz vaddr))) (\<lambda>(ok, s).
       if \<not> ok then Inr (False, s, f)
       else
         rbind (sys_lseek f fd offset 1) (\<lambda>(_, f).
         rbind (sys_read f [] fd (read_mem s vaddr (unat filesz)) filesz) (\<lambda>(_, buf, f).
           Inr (True, write_mem s vaddr buf, f))))"

section \<open>Programs\<close>

text \<open>The loop over the program headers; \<open>False\<close> is the way out with the result \<open>-1\<close>.\<close>

fun load_segments ::
  "'a memory_scheme \<Rightarrow> 'b fsys_scheme \<Rightarrow> i32 \<Rightarrow> u32 \<Rightarrow> u16 \<Rightarrow> nat \<Rightarrow> (bool \<times> 'a memory_scheme \<times> 'b fsys_scheme) res" where
  "load_segments s f fd prog_header_offset phentsize 0 = Inr (True, s, f)"
| "load_segments s f fd prog_header_offset phentsize (Suc k) =
     rbind (sys_lseek f fd prog_header_offset 1) (\<lambda>(_, f).
     rbind (sys_read f [] fd (replicate (unat PHDR_SIZE) 0) (ucast phentsize)) (\<lambda>(r, h, f).
       if r \<noteq> ucast phentsize then Inr (False, s, f)
       else
         let h = phdr_of h
         in rbind (if segment_nr PT_LOAD = p_type h then segment_load s f fd (p_offset h) (p_filesz h) (p_vaddr h)
                   else Inr (True, s, f))
           (\<lambda>(ok, s, f).
             if \<not> ok then Inr (False, s, f)
             else load_segments s f fd (prog_header_offset + ucast phentsize) phentsize k)))"

definition bad_header :: "Elf32_Ehdr \<Rightarrow> bool res" where
  "bad_header h =
     rbind (memcmp (Some (e_ident h)) (Some [127, 69, 76, 70, 1, 1, 1]) 7) (\<lambda>r.
       Inr (r \<noteq> 0 \<or> e_type h \<noteq> 2 \<or> e_machine h \<noteq> 3 \<or> e_version h \<noteq> 1 \<or> e_phnum h > 1024 \<or>
            e_phentsize h \<noteq> ucast PHDR_SIZE))"

definition load ::
  "'a memory_scheme \<Rightarrow> 'b fsys_scheme \<Rightarrow> u8 list \<Rightarrow> (i32 \<times> 'a memory_scheme \<times> 'b fsys_scheme) res" where
  "load s f pathname =
     rbind (sys_open f pathname O_RDONLY) (\<lambda>(fd, f).
       if fd = -1 then Inr (-1, s, f)
       else
         rbind (sys_read f [] fd (replicate (unat EHDR_SIZE) 0) EHDR_SIZE) (\<lambda>(r, h, f).
         rbind (if r \<noteq> EHDR_SIZE then Inr (-1, s, f)
                else let h = ehdr_of h in rbind (bad_header h) (\<lambda>bad.
                  if bad then Inr (-1, s, f)
                  else rbind (load_segments s f fd (e_phoff h) (e_phentsize h) (unat (e_phnum h))) (\<lambda>(ok, s, f).
                    Inr (if ok then e_entry h else -1, s, f))))
           (\<lambda>(ret, s, f). rbind (sys_close f fd) (\<lambda>(_, f). Inr (ret, s, f)))))"

text \<open>The length of the argument vector, which ends with a null pointer.\<close>

fun count_args :: "u32 list \<Rightarrow> u32 res" where
  "count_args [] = Inl OutOfBounds"
| "count_args (p # ps) = (if p \<noteq> NULL then rbind (count_args ps) (\<lambda>n. Inr (n + 1)) else Inr 0)"

text \<open>
  \<open>argv_ptr\<close> is the address of the vector \<open>argv\<close>.  The result is \<open>-1\<close> or, when the jump to
  \<open>intr_exit\<close> enters the program, the address of the frame it pops.
\<close>

definition sys_execv ::
  "'a proc_scheme \<Rightarrow> 'b fsys_scheme \<Rightarrow> u8 list \<Rightarrow> u32 \<Rightarrow> u32 list \<Rightarrow> (u32 \<times> 'a proc_scheme \<times> 'b fsys_scheme) res" where
  "sys_execv s f path argv_ptr argv =
     rbind (count_args argv) (\<lambda>argc.
       let c = cur s
       in rbind (load s f path) (\<lambda>(entry_point, s, f).
            if entry_point = -1 then Inr (-1, s, f)
            else
              let i = intr_0_stack c
              in Inr (i, s\<lparr>intr_stacks := (intr_stacks s)(i := (intr_stacks s i)\<lparr>is_ebx := argv_ptr, is_ecx := argc,
                     is_eip := entry_point, is_esp := 0xc0000000\<rparr>)\<rparr>, f)))"

section \<open>The pages of a segment\<close>

lemma unat_offset: "unat (v AND 0xfff :: u32) = unat v mod 4096"
proof -
  have "v AND 0xfff = take_bit 12 v" by (simp add: take_bit_eq_mask mask_eq_exp_minus_1)
  then show ?thesis by (simp only: unsigned_take_bit_eq) (simp add: take_bit_eq_mod)
qed

lemma div_image: "0 < f \<Longrightarrow> (\<lambda>a. a div (4096 :: nat)) ` {v ..< v + f} = {v div 4096 .. (v + f - 1) div 4096}"
proof (intro equalityI subsetI)
  fix q assume f: "0 < f" and "q \<in> {v div 4096 .. (v + f - 1) div 4096}"
  then have q: "v div 4096 \<le> q" "q \<le> (v + f - 1) div 4096" by auto
  define a where "a = max v (4096 * q)"
  have "a div 4096 = q"
  proof (cases "v \<le> 4096 * q")
    case False
    then have "q \<le> v div 4096" by (simp add: less_eq_div_iff_mult_less_eq)
    then show ?thesis using q(1) False by (simp add: a_def max_def)
  qed (simp add: a_def max_def)
  moreover have "4096 * q \<le> v + f - 1" using q(2) by (simp add: less_eq_div_iff_mult_less_eq mult.commute)
  then have "a \<in> {v ..< v + f}" using f by (auto simp: a_def)
  ultimately show "q \<in> (\<lambda>a. a div 4096) ` {v ..< v + f}" by (metis imageI)
qed (auto intro!: div_le_mono)

text \<open>
  C30: the pages of a segment.  For a segment that is not empty and does not run over the end of the
  address space, \<open>segment_load\<close> asks for exactly as many pages as the segment's bytes lie in.
\<close>

theorem occupy_pages_touched:
  assumes "0 < filesz" and "unat vaddr + unat filesz \<le> 2 ^ 32"
  shows "unat (occupy_pages filesz vaddr) = card ((\<lambda>a. a div 4096) ` {unat vaddr ..< unat vaddr + unat filesz})"
proof -
  define v f where "v = unat vaddr" and "f = unat filesz"
  have f: "0 < f" "v + f \<le> 2 ^ 32" using assms by (simp_all add: v_def f_def word_less_nat_alt)
  have off: "unat (vaddr AND 0xfff) = v mod 4096" by (simp add: unat_offset v_def)
  have v: "v = 4096 * (v div 4096) + v mod 4096" by simp
  have first: "unat (PG_SIZE - (vaddr AND 0xfff)) = 4096 - v mod 4096"
    using off by (subst unat_sub) (simp_all add: PG_SIZE_def word_le_nat_alt less_imp_le)
  have "unat (occupy_pages filesz vaddr) = (v + f - 1) div 4096 - v div 4096 + 1"
  proof (cases "filesz > PG_SIZE - (vaddr AND 0xfff)")
    case True
    then have more: "4096 - v mod 4096 < f" using first by (simp add: word_less_nat_alt f_def)
    define l where "l = f - (4096 - v mod 4096)"
    have left: "unat (filesz - (PG_SIZE - (vaddr AND 0xfff))) = l"
      using more first by (subst unat_sub) (simp_all add: word_le_nat_alt f_def [symmetric] l_def)
    have "v mod 4096 < 4096" by simp
    then have total: "v + f = 4096 * (v div 4096) + 4096 + l" using v more unfolding l_def by linarith
    then have "l + 4095 < 2 ^ 32" using f(2) more \<open>v mod 4096 < 4096\<close> unfolding l_def by linarith
    then have "unat (filesz - (PG_SIZE - (vaddr AND 0xfff)) + 4095) = l + 4095"
      using left by (subst unat_add_no_wrap) simp_all
    then have up: "unat (DIV_ROUND_UP (filesz - (PG_SIZE - (vaddr AND 0xfff))) PG_SIZE) = (l + 4095) div 4096"
      by (simp add: DIV_ROUND_UP_def PG_SIZE_def unat_div_word)
    have "(v + f - 1) div 4096 = v div 4096 + (l + 4095) div 4096"
    proof -
      have "v + f - 1 = (l + 4095) + 4096 * (v div 4096)" using total by simp
      then show ?thesis by (simp add: div_mult_self2)
    qed
    moreover have "unat (DIV_ROUND_UP (filesz - (PG_SIZE - (vaddr AND 0xfff))) PG_SIZE + 1) = (l + 4095) div 4096 + 1"
    proof -
      have "(l + 4095) div 4096 + 1 < 2 ^ 32" using \<open>l + 4095 < 2 ^ 32\<close> by (simp add: div_less_iff_less_mult)
      then show ?thesis using up by (subst unat_add_no_wrap) simp_all
    qed
    ultimately show ?thesis using True by (simp add: occupy_pages_def Let_def)
  next
    case False
    then have "f \<le> 4096 - v mod 4096" using first by (simp add: word_less_nat_alt f_def not_less)
    moreover have "v mod 4096 < 4096" by simp
    ultimately have "v + f - 1 < 4096 * (v div 4096) + 4096" "4096 * (v div 4096) \<le> v + f - 1" using v f(1) by linarith+
    then have "(v + f - 1) div 4096 = v div 4096" by (intro div_nat_eqI) simp_all
    then show ?thesis using False by (simp add: occupy_pages_def Let_def)
  qed
  moreover have "v div 4096 \<le> (v + f - 1) div 4096" using f(1) by (intro div_le_mono) simp
  ultimately show ?thesis
    using div_image [OF f(1), of v] by (simp add: v_def [symmetric] f_def [symmetric] Suc_diff_le)
qed

theorem occupy_pages_touched_witness:
  "unat (occupy_pages 0x2000 0x8048ffe) = card ((\<lambda>a. a div 4096) ` {134516734 ..< 134516734 + 8192 :: nat}) \<and>
   occupy_pages 0x2000 0x8048ffe = 3"
proof -
  have "occupy_pages 0x2000 0x8048ffe = 3" by (simp add: occupy_pages_def Let_def PG_SIZE_def DIV_ROUND_UP_def)
  then show ?thesis using occupy_pages_touched [of "0x2000" "0x8048ffe"] by simp
qed

end
