(* ===== verification/Shell.thy ===== *)
theory Shell
  imports Fsys Stdio Process
begin

text \<open>
  The shell: \<open>shell/shell.c\<close> and its built-in commands, \<open>shell/buildin_cmd.c\<close>.

  The shell's state extends that of the file system by its global buffers and by \<open>tty\<close>, what has
  been written to the screen since it was cleared last.  System calls are calls of the functions
  they lead to (theory \<open>Syscall\<close>).  \<open>keys\<close> are the characters the keyboard will deliver; reading
  more of them than there are is \<open>Blocked\<close>.  A pointer into a buffer is an index, or the part of
  the buffer from there on.
\<close>

section \<open>State\<close>

record shell = fsys +
  cmd_line :: "u8 list"
  cwd_cache :: "u8 list"
  final_path :: "u8 list"
  tty :: "u8 list"

definition cmd_len :: nat where
  "cmd_len = 128"

definition MAX_ARG_NR :: nat where
  "MAX_ARG_NR = 16"

definition MAX_PATH_LEN :: nat where
  "MAX_PATH_LEN = 512"

definition sh_printf :: "'a shell_scheme \<Rightarrow> string \<Rightarrow> va list \<Rightarrow> 'a shell_scheme res" where
  "sh_printf s fmt args =
     rbind (printf (ctext fmt) args) (\<lambda>(_, bs).
     rbind (sys_write s 1 (bs @ [0]) (of_nat (length bs))) (\<lambda>(_, shown, s). Inr (s\<lparr>tty := tty s @ shown\<rparr>)))"

definition putchar :: "'a shell_scheme \<Rightarrow> u8 \<Rightarrow> 'a shell_scheme" where
  "putchar s c = s\<lparr>tty := tty s @ [c]\<rparr>"

definition clear :: "'a shell_scheme \<Rightarrow> 'a shell_scheme" where
  "clear s = s\<lparr>tty := []\<rparr>"

section \<open>Paths\<close>

text \<open>The loop of \<open>wash_path\<close>: one component after the other, \<open>name\<close> is the current one.\<close>

definition wash_step :: "u8 list \<Rightarrow> u8 list \<Rightarrow> u8 list res" where
  "wash_step name new_abs_path =
     rbind (strcmp (Some [46, 46, 0]) (Some name)) (\<lambda>up.
       if up = 0 then
         rbind (strrchr (Some new_abs_path) 47) (\<lambda>slash_ptr.
           case slash_ptr of
             None \<Rightarrow> Inl WildPointer
           | Some k \<Rightarrow> st new_abs_path (of_nat (if k \<noteq> 0 then k else k + 1)) 0)
       else
         rbind (strcmp (Some [46, 0]) (Some name)) (\<lambda>same.
           if same \<noteq> 0 then
             rbind (strcmp (Some new_abs_path) (Some [47, 0])) (\<lambda>root.
             rbind (if root \<noteq> 0 then strcat (Some new_abs_path) (Some [47, 0]) else Inr new_abs_path) (\<lambda>p.
               strcat (Some p) (Some name)))
           else Inr new_abs_path))"

function wash_loop :: "u8 list option \<Rightarrow> u8 list \<Rightarrow> u8 list \<Rightarrow> u8 list res" where
  "wash_loop sub name new_abs_path =
     (if hd name = 0 then Inr new_abs_path
      else rbind (wash_step name new_abs_path) (\<lambda>new_abs_path.
        case sub of
          None \<Rightarrow> Inr new_abs_path
        | Some p \<Rightarrow> rbind (path_parse p (replicate name_len 0)) (\<lambda>(p, name). wash_loop p name new_abs_path)))"
  by pat_completeness auto

termination
  by (relation "measure (\<lambda>(p, _, _). case p of None \<Rightarrow> 0 | Some p \<Rightarrow> Suc (length p))")
    (auto dest: path_parse_shrinks split: option.splits)

declare wash_loop.simps [simp del]

definition wash_path :: "u8 list \<Rightarrow> u8 list \<Rightarrow> u8 list res" where
  "wash_path old_abs_path new_abs_path =
     rbind (ld old_abs_path 0) (\<lambda>c.
       if c \<noteq> 47 then Inl Panic
       else
         rbind (path_parse old_abs_path (replicate name_len 0)) (\<lambda>(sub, name).
           if hd name = 0 then rbind (st new_abs_path 0 47) (\<lambda>p. st p 1 0)
           else
             rbind (st new_abs_path 0 0) (\<lambda>p.
             rbind (strcat (Some p) (Some [47, 0])) (\<lambda>p. wash_loop sub name p))))"

definition make_clear_abs_path :: "'a shell_scheme \<Rightarrow> u8 list \<Rightarrow> 'a shell_scheme res" where
  "make_clear_abs_path s path =
     rbind (ld path 0) (\<lambda>c.
     rbind (if c \<noteq> 47 then
              rbind (sys_getcwd s (Some (replicate MAX_PATH_LEN 0)) (of_nat MAX_PATH_LEN)) (\<lambda>(r, s).
                case r of
                  None \<Rightarrow> Inr (replicate MAX_PATH_LEN 0, s)
                | Some abs_path \<Rightarrow>
                    rbind (if \<not> (abs_path ! 0 = 47 \<and> abs_path ! 1 = 0) then strcat (Some abs_path) (Some [47, 0])
                           else Inr abs_path) (\<lambda>abs_path. Inr (abs_path, s)))
            else Inr (replicate MAX_PATH_LEN 0, s)) (\<lambda>(abs_path, s).
     rbind (strcat (Some abs_path) (Some path)) (\<lambda>abs_path.
     rbind (wash_path abs_path (final_path s)) (\<lambda>p. Inr (s\<lparr>final_path := p\<rparr>)))))"

section \<open>Built-in commands\<close>

text \<open>\<open>args\<close> are the words of the command line, each from its first byte to the end of the buffer.\<close>

definition set_root :: "'a shell_scheme \<Rightarrow> 'a shell_scheme res" where
  "set_root s = rbind (st (final_path s) 0 47) (\<lambda>p. rbind (st p 1 0) (\<lambda>p. Inr (s\<lparr>final_path := p\<rparr>)))"

definition buildin_pwd :: "'a shell_scheme \<Rightarrow> u8 list list \<Rightarrow> 'a shell_scheme res" where
  "buildin_pwd s args =
     (if length args \<noteq> 1 then sh_printf s (''pwd: no argument support!'' @ NL) []
      else rbind (sys_getcwd s (Some (final_path s)) (of_nat MAX_PATH_LEN)) (\<lambda>(r, s).
        case r of
          Some p \<Rightarrow> sh_printf (s\<lparr>final_path := p\<rparr>) (''%s'' @ NL) [VaStr p]
        | None \<Rightarrow> sh_printf s (''pwd: get current work directory failed'' @ NL) []))"

text \<open>\<open>True\<close> when the directory was changed.\<close>

definition buildin_cd :: "'a shell_scheme \<Rightarrow> u8 list list \<Rightarrow> (bool \<times> 'a shell_scheme) res" where
  "buildin_cd s args =
     (if length args > 2 then rbind (sh_printf s (''cd: only support 1 argument!'' @ NL) []) (\<lambda>s. Inr (False, s))
      else rbind (if length args = 1 then set_root s else make_clear_abs_path s (args ! 1)) (\<lambda>s.
        rbind (sys_chdir s (final_path s)) (\<lambda>(r, s).
          if r = -1 then
            rbind (sh_printf s (''cd: no such directory %s'' @ NL) [VaStr (final_path s)]) (\<lambda>s. Inr (False, s))
          else Inr (True, s))))"

text \<open>The options and the path of \<open>ls\<close>; \<open>None\<close> when it has said what is wrong.\<close>

fun ls_args :: "'a shell_scheme \<Rightarrow> bool \<Rightarrow> u8 list option \<Rightarrow> u8 list list \<Rightarrow>
    ((bool \<times> u8 list option) option \<times> 'a shell_scheme) res" where
  "ls_args s long_info pathname [] = Inr (Some (long_info, pathname), s)"
| "ls_args s long_info pathname (a # as) =
     rbind (ld a 0) (\<lambda>c.
       if c = 45 then
         rbind (strcmp (Some (ctext ''-l'')) (Some a)) (\<lambda>l.
           if l = 0 then ls_args s True pathname as
           else rbind (strcmp (Some (ctext ''-h'')) (Some a)) (\<lambda>h.
             rbind (if h = 0 then
                      sh_printf s (''usage: -l list all all information about the file.'' @ NL @
                        ''not support -h for help'' @ NL @
                        ''list all files in the current directory if no option'' @ NL) []
                    else
                      sh_printf s (''ls: invaild option %s'' @ NL @ ''Try '' @ [CHR 0x27] @ ''ls -l'' @ [CHR 0x27] @
                        '' u can get what u want'' @ NL) [VaStr a])
               (\<lambda>s. Inr (None, s))))
       else if pathname = None then ls_args s long_info (Some a) as
       else rbind (sh_printf s (''ls: only support one path'' @ NL) []) (\<lambda>s. Inr (None, s)))"

text \<open>
  Both loops over the entries read until \<open>readdir\<close> returns a null pointer.  Entry \<open>k\<close> is what
  the buffer of the directory holds there.  The fuel is the number of calls of \<open>readdir\<close>.
\<close>

fun ls_names :: "nat \<Rightarrow> 'a shell_scheme \<Rightarrow> u32 \<Rightarrow> 'a shell_scheme res" where
  "ls_names 0 s d = Inl Hang"
| "ls_names (Suc fuel) s d =
     rbind (sys_readdir s d) (\<lambda>(r, s).
       case r of
         None \<Rightarrow> Inr s
       | Some k \<Rightarrow> rbind (sh_printf s ''%s  '' [VaStr (drop (24 * k) (dir_buf (dirs s d)))]) (\<lambda>s. ls_names fuel s d))"

text \<open>\<open>False\<close> when an entry cannot be found again, and \<open>ls\<close> returns without closing the directory.\<close>

fun ls_long :: "nat \<Rightarrow> 'a shell_scheme \<Rightarrow> u32 \<Rightarrow> u8 list \<Rightarrow> u32 \<Rightarrow> stat \<Rightarrow> (bool \<times> 'a shell_scheme) res" where
  "ls_long 0 s d sub_pathname pathname_len file_stat = Inl Hang"
| "ls_long (Suc fuel) s d sub_pathname pathname_len file_stat =
     rbind (sys_readdir s d) (\<lambda>(r, s).
       case r of
         None \<Rightarrow> Inr (True, s)
       | Some k \<Rightarrow>
           let e = drop (24 * k) (dir_buf (dirs s d));
               ftype = (if f_type (dec_entry e) = FT_REGULAR then 45 else 100)
           in rbind (st sub_pathname pathname_len 0) (\<lambda>sub_pathname.
              rbind (strcat (Some sub_pathname) (Some e)) (\<lambda>sub_pathname.
              rbind (sys_stat s sub_pathname \<lparr>st_ino = 0, st_size = 0, st_filetype = 0\<rparr>) (\<lambda>(r, file_stat, s).
                if r = -1 then
                  rbind (sh_printf s (''ls: cannot access %s:No such file or directory'' @ NL) [VaStr e]) (\<lambda>s.
                    Inr (False, s))
                else
                  rbind (sh_printf s (''%c    %d    %d    %s'' @ NL)
                      [VaInt ftype, VaInt (de_ino (dec_entry e)), VaInt (st_size file_stat), VaStr e])
                    (\<lambda>s. ls_long fuel s d sub_pathname pathname_len file_stat)))))"

definition ls_dir :: "nat \<Rightarrow> 'a shell_scheme \<Rightarrow> bool \<Rightarrow> u8 list \<Rightarrow> stat \<Rightarrow> 'a shell_scheme res" where
  "ls_dir fuel s long_info pathname file_stat =
     rbind (sys_opendir s pathname) (\<lambda>(d, s).
     rbind (strlen (Some pathname)) (\<lambda>pathname_len.
     rbind (memcpy (Some (replicate MAX_PATH_LEN 0)) (Some pathname) pathname_len) (\<lambda>sub_pathname.
     rbind (ld sub_pathname (pathname_len - 1)) (\<lambda>c.
     rbind (if c \<noteq> 47 then rbind (st sub_pathname pathname_len 47) (\<lambda>p. Inr (p, pathname_len + 1))
            else Inr (sub_pathname, pathname_len)) (\<lambda>(sub_pathname, pathname_len).
     rbind (sys_rewinddir s d) (\<lambda>s.
     rbind (if long_info then
              rbind (sh_printf s (''total: %d'' @ NL) [VaInt (st_size file_stat)]) (\<lambda>s.
                ls_long fuel s d sub_pathname pathname_len file_stat)
            else rbind (ls_names fuel s d) (\<lambda>s. rbind (sh_printf s NL []) (\<lambda>s. Inr (True, s)))) (\<lambda>(ok, s).
       if ok then rbind (sys_closedir s d) (\<lambda>(_, s). Inr s) else Inr s)))))))"

definition buildin_ls :: "nat \<Rightarrow> 'a shell_scheme \<Rightarrow> u8 list list \<Rightarrow> 'a shell_scheme res" where
  "buildin_ls fuel s args =
     rbind (ls_args s False None (tl args)) (\<lambda>(r, s).
       case r of
         None \<Rightarrow> Inr s
       | Some (long_info, pathname) \<Rightarrow>
           rbind (case pathname of
               None \<Rightarrow> rbind (sys_getcwd s (Some (final_path s)) (of_nat MAX_PATH_LEN)) (\<lambda>(r, s).
                 case r of
                   Some p \<Rightarrow> Inr (True, s\<lparr>final_path := p\<rparr>)
                 | None \<Rightarrow> rbind (sh_printf s (''ls: getcwd for default path failed'' @ NL) []) (\<lambda>s. Inr (False, s)))
             | Some p \<Rightarrow> rbind (make_clear_abs_path s p) (\<lambda>s. Inr (True, s))) (\<lambda>(ok, s).
             if \<not> ok then Inr s
             else
               rbind (sys_stat s (final_path s) \<lparr>st_ino = 0, st_size = 0, st_filetype = 0\<rparr>) (\<lambda>(r, file_stat, s).
                 if r = -1 then
                   sh_printf s (''ls: cannot access %s: No such file or directory'' @ NL) [VaStr (final_path s)]
                 else if st_filetype file_stat = FT_DIRECTORY then ls_dir fuel s long_info (final_path s) file_stat
                 else if long_info then
                   sh_printf s (''-    %d    %d    %s'' @ NL)
                     [VaInt (st_ino file_stat), VaInt (st_size file_stat), VaStr (final_path s)]
                 else sh_printf s (''%s'' @ NL) [VaStr (final_path s)])))"

text \<open>\<open>k\<close> is the kernel's state, whose tasks \<open>ps\<close> lists.\<close>

definition buildin_ps :: "'k sched_scheme \<Rightarrow> 'a shell_scheme \<Rightarrow> u8 list list \<Rightarrow> 'a shell_scheme res" where
  "buildin_ps k s args =
     (if length args \<noteq> 1 then sh_printf s (''ps: no argument support!'' @ NL) []
      else rbind (sys_ps k) (\<lambda>t. Inr (s\<lparr>tty := tty s @ t\<rparr>)))"

definition buildin_clear :: "'a shell_scheme \<Rightarrow> u8 list list \<Rightarrow> 'a shell_scheme res" where
  "buildin_clear s args =
     (if length args \<noteq> 1 then sh_printf s (''clear: no argument support!'' @ NL) [] else Inr (clear s))"

definition buildin_mkdir :: "'a shell_scheme \<Rightarrow> u8 list list \<Rightarrow> (i32 \<times> 'a shell_scheme) res" where
  "buildin_mkdir s args =
     (if length args \<noteq> 2 then rbind (sh_printf s (''mkdir: only support 1 argument!'' @ NL) []) (\<lambda>s. Inr (-1, s))
      else rbind (make_clear_abs_path s (args ! 1)) (\<lambda>s.
        rbind (strcmp (Some [47, 0]) (Some (final_path s))) (\<lambda>r.
          if r \<noteq> 0 then
            rbind (sys_mkdir s (final_path s)) (\<lambda>(r, s).
              if r = 0 then Inr (0, s)
              else rbind (sh_printf s (''mkdir: create directory %s failed.'' @ NL) [VaStr (args ! 1)]) (\<lambda>s. Inr (-1, s)))
          else Inr (-1, s))))"

text \<open>The failure message of \<open>rmdir\<close> has no argument for its \<open>%s\<close>.\<close>

definition buildin_rmdir :: "'a shell_scheme \<Rightarrow> u8 list list \<Rightarrow> (i32 \<times> 'a shell_scheme) res" where
  "buildin_rmdir s args =
     (if length args \<noteq> 2 then rbind (sh_printf s (''rmdir: only support 1 argument!'' @ NL) []) (\<lambda>s. Inr (-1, s))
      else rbind (make_clear_abs_path s (args ! 1)) (\<lambda>s.
        rbind (strcmp (Some [47, 0]) (Some (final_path s))) (\<lambda>r.
          if r \<noteq> 0 then
            rbind (sys_rmdir s (final_path s)) (\<lambda>(r, s).
              if r = 0 then Inr (0, s)
              else rbind (sh_printf s (''rmdir: remove %s failed'' @ NL) []) (\<lambda>s. Inr (-1, s)))
          else Inr (-1, s))))"

definition buildin_rm :: "'a shell_scheme \<Rightarrow> u8 list list \<Rightarrow> (i32 \<times> 'a shell_scheme) res" where
  "buildin_rm s args =
     (if length args \<noteq> 2 then rbind (sh_printf s (''rm: only support 1 argument!'' @ NL) []) (\<lambda>s. Inr (-1, s))
      else rbind (make_clear_abs_path s (args ! 1)) (\<lambda>s.
        rbind (strcmp (Some [47, 0]) (Some (final_path s))) (\<lambda>r.
          if r \<noteq> 0 then
            rbind (sys_unlink s (final_path s)) (\<lambda>(r, s).
              if r = 0 then Inr (0, s)
              else rbind (sh_printf s (''rm: delete %s failed'' @ NL) [VaStr (args ! 1)]) (\<lambda>s. Inr (-1, s)))
          else Inr (-1, s))))"

section \<open>Reading a line\<close>

definition print_prompt :: "'a shell_scheme \<Rightarrow> 'a shell_scheme res" where
  "print_prompt s = sh_printf s ''[vacancy@localhost %s]$ '' [VaStr (cwd_cache s)]"

text \<open>Control-U: back to the start of the line, clearing the bytes behind it.\<close>

fun kill_line :: "'a shell_scheme \<Rightarrow> u8 list \<Rightarrow> nat \<Rightarrow> u8 list \<times> 'a shell_scheme" where
  "kill_line s buf 0 = (buf, s)"
| "kill_line s buf (Suc pos) = kill_line (putchar s 8) (buf[Suc pos := 0]) pos"

text \<open>Each character is stored before the test that there is room for it.\<close>

fun readline_loop :: "'a shell_scheme \<Rightarrow> u8 list \<Rightarrow> nat \<Rightarrow> nat \<Rightarrow> u8 list \<Rightarrow> (u8 list \<times> u8 list \<times> 'a shell_scheme) res" where
  "readline_loop s buf pos count [] = Inl Blocked"
| "readline_loop s buf pos count (c # keys) =
     rbind (st buf (of_nat pos) c) (\<lambda>buf.
       if \<not> pos < count then
         rbind (sh_printf s (''readline: cant fine entry_key in the cmd_line,max num of char is 128'' @ NL) []) (\<lambda>s.
           Inr (buf, keys, s))
       else if c = 108 - 97 then
         let buf = buf[pos := 0]
         in rbind (print_prompt (clear s)) (\<lambda>s.
            rbind (sh_printf s ''%s'' [VaStr buf]) (\<lambda>s. readline_loop s buf pos count keys))
       else if c = 117 - 97 then
         let (buf, s) = kill_line s buf pos in readline_loop s buf 0 count keys
       else if c = 10 \<or> c = 13 then Inr (buf[pos := 0], keys, putchar s 10)
       else if c = 8 then
         if buf ! 0 \<noteq> 8 then readline_loop (putchar s 8) buf (pos - 1) count keys
         else readline_loop s buf pos count keys
       else readline_loop (putchar s c) buf (pos + 1) count keys)"

definition readline :: "'a shell_scheme \<Rightarrow> u8 list \<Rightarrow> nat \<Rightarrow> u8 list \<Rightarrow> (u8 list \<times> u8 list \<times> 'a shell_scheme) res" where
  "readline s buf count keys = (if \<not> count > 0 then Inl Panic else readline_loop s buf 0 count keys)"

section \<open>Splitting it into words\<close>

text \<open>The index of the next byte that is not the separator, and of the end of a word.\<close>

fun skip_token :: "u8 \<Rightarrow> u8 list \<Rightarrow> nat \<Rightarrow> nat res" where
  "skip_token token [] k = Inl OutOfBounds"
| "skip_token token (c # cs) k = (if c = token then skip_token token cs (Suc k) else Inr k)"

fun word_end :: "u8 \<Rightarrow> u8 list \<Rightarrow> nat \<Rightarrow> nat res" where
  "word_end token [] k = Inl OutOfBounds"
| "word_end token (c # cs) k = (if c \<noteq> 0 \<and> c \<noteq> token then word_end token cs (Suc k) else Inr k)"

lemma skip_token_ge: "skip_token token cs k = Inr j \<Longrightarrow> k \<le> j \<and> j < k + length cs \<and> cs ! (j - k) \<noteq> token"
  by (induction token cs k rule: skip_token.induct) (fastforce simp: nth_Cons' split: if_splits)+

lemma word_end_ge: "word_end token cs k = Inr j \<Longrightarrow> k \<le> j \<and> j < k + length cs"
  by (induction token cs k rule: word_end.induct) (fastforce split: if_splits)+

lemma word_end_gt: "word_end token cs k = Inr j \<Longrightarrow> hd cs \<noteq> 0 \<Longrightarrow> hd cs \<noteq> token \<Longrightarrow> k < j"
  by (cases cs) (auto dest: word_end_ge)

text \<open>\<open>argv\<close> holds indices into the command string, \<open>None\<close> for a null pointer.\<close>

function parse_loop ::
  "u8 \<Rightarrow> u8 list \<Rightarrow> nat option list \<Rightarrow> nat \<Rightarrow> nat \<Rightarrow> (i32 \<times> nat option list \<times> u8 list) res" where
  "parse_loop token cmd argv nxt_i argc =
     (if \<not> nxt_i < length cmd then Inl OutOfBounds
      else if cmd ! nxt_i = 0 then Inr (of_nat argc, argv, cmd)
      else
        rbind (skip_token token (drop nxt_i cmd) nxt_i) (\<lambda>i.
          if cmd ! i = 0 then Inr (of_nat argc, argv, cmd)
          else
            rbind (st argv (of_nat argc) (Some i)) (\<lambda>argv.
            rbind (word_end token (drop i cmd) i) (\<lambda>j.
              let cmd' = (if cmd ! j \<noteq> 0 then cmd[j := 0] else cmd);
                  k = (if cmd ! j \<noteq> 0 then j + 1 else j)
              in if argc > MAX_ARG_NR then Inr (-1, argv, cmd')
                 else parse_loop token cmd' argv k (argc + 1)))))"
  by pat_completeness auto

termination
proof (relation "measure (\<lambda>(token, cmd, argv, i, argc). length cmd - i)", goal_cases)
  case 1
  then show ?case by simp
next
  case (2 token cmd argv n argc i argv' j cmd' k)
  from 2(3) have i: "n \<le> i" "i < length cmd" "cmd ! i \<noteq> token" using skip_token_ge [of token "drop n cmd" n i] 2(1) by auto
  have "hd (drop i cmd) = cmd ! i" using i(2) by (simp add: hd_drop_conv_nth)
  then have "i < j" "j < length cmd"
    using word_end_gt [OF 2(6)] word_end_ge [OF 2(6)] 2(4) i by auto
  then show ?case using 2(7,8) i by auto
qed

declare parse_loop.simps [simp del]

definition cmd_parse :: "u8 list \<Rightarrow> u8 \<Rightarrow> (i32 \<times> nat option list \<times> u8 list) res" where
  "cmd_parse cmd_str token = parse_loop token cmd_str (replicate MAX_ARG_NR None) 0 0"

section \<open>The shell\<close>

text \<open>
  How a round of the loop ends: with the next one, with the parent spinning for ever after it
  started a program, or in the child with the call of \<open>execv\<close> or spinning for want of a file.
\<close>

datatype round_end = NextRound | Spin | Execv "u8 list"

definition is_cmd :: "string \<Rightarrow> u8 list \<Rightarrow> bool res" where
  "is_cmd name w = rbind (strcmp (Some (ctext name)) (Some w)) (\<lambda>r. Inr (r = 0))"

text \<open>An external command; \<open>fork_ret\<close> is what \<open>fork\<close> returned.\<close>

definition run_external :: "'a shell_scheme \<Rightarrow> i32 \<Rightarrow> u8 list \<Rightarrow> (round_end \<times> 'a shell_scheme) res" where
  "run_external s fork_ret w =
     (if fork_ret \<noteq> 0 then Inr (Spin, s)
      else
        rbind (make_clear_abs_path s w) (\<lambda>s.
        rbind (sys_stat s (final_path s) \<lparr>st_ino = 0, st_size = 0, st_filetype = 0\<rparr>) (\<lambda>(r, _, s).
          if r = -1 then
            rbind (sh_printf s (''my_shell: cannot access %s: No such file or directory'' @ NL) [VaStr (final_path s)])
              (\<lambda>s. Inr (Spin, s))
          else Inr (Execv (final_path s), s))))"

definition run_command ::
  "nat \<Rightarrow> 'k sched_scheme \<Rightarrow> 'a shell_scheme \<Rightarrow> i32 \<Rightarrow> u8 list list \<Rightarrow> (round_end \<times> 'a shell_scheme) res" where
  "run_command fuel k s fork_ret args =
     (let w = hd args
      in rbind (is_cmd ''ls'' w) (\<lambda>t. if t then rbind (buildin_ls fuel s args) (\<lambda>s. Inr (NextRound, s)) else
         rbind (is_cmd ''pwd'' w) (\<lambda>t. if t then rbind (buildin_pwd s args) (\<lambda>s. Inr (NextRound, s)) else
         rbind (is_cmd ''ps'' w) (\<lambda>t. if t then rbind (buildin_ps k s args) (\<lambda>s. Inr (NextRound, s)) else
         rbind (is_cmd ''cd'' w) (\<lambda>t. if t then
           rbind (buildin_cd s args) (\<lambda>(ok, s).
             if ok then
               rbind (memset (Some (cwd_cache s)) 0 64) (\<lambda>c.
               rbind (strcpy (Some c) (Some (final_path s))) (\<lambda>c. Inr (NextRound, s\<lparr>cwd_cache := c\<rparr>)))
             else Inr (NextRound, s)) else
         rbind (is_cmd ''clear'' w) (\<lambda>t. if t then rbind (buildin_clear s args) (\<lambda>s. Inr (NextRound, s)) else
         rbind (is_cmd ''mkdir'' w) (\<lambda>t. if t then rbind (buildin_mkdir s args) (\<lambda>(_, s). Inr (NextRound, s)) else
         rbind (is_cmd ''rmdir'' w) (\<lambda>t. if t then rbind (buildin_rmdir s args) (\<lambda>(_, s). Inr (NextRound, s)) else
         rbind (is_cmd ''rm'' w) (\<lambda>t. if t then rbind (buildin_rm s args) (\<lambda>(_, s). Inr (NextRound, s)) else
           run_external s fork_ret w)))))))))"

definition words_of :: "i32 \<Rightarrow> nat option list \<Rightarrow> u8 list \<Rightarrow> u8 list list" where
  "words_of argc argv cmd = map (\<lambda>a. case a of None \<Rightarrow> [] | Some i \<Rightarrow> drop i cmd) (take (unat argc) argv)"

definition my_shell_start :: "'a shell_scheme \<Rightarrow> 'a shell_scheme res" where
  "my_shell_start s =
     rbind (st (cwd_cache s) 0 47) (\<lambda>c. rbind (st c 1 0) (\<lambda>c. Inr (s\<lparr>cwd_cache := c\<rparr>)))"

text \<open>
  One round of \<open>my_shell\<close>.  A line of blanks only has no first word: \<open>argv[0]\<close> is a null pointer,
  which the assertion in \<open>strcmp\<close> refuses.
\<close>

definition my_shell_round ::
  "nat \<Rightarrow> 'k sched_scheme \<Rightarrow> 'a shell_scheme \<Rightarrow> i32 \<Rightarrow> u8 list \<Rightarrow> (round_end \<times> u8 list \<times> 'a shell_scheme) res" where
  "my_shell_round fuel k s fork_ret keys =
     rbind (print_prompt s) (\<lambda>s.
     rbind (memset (Some (cmd_line s)) 0 (of_nat cmd_len)) (\<lambda>line.
     rbind (memset (Some (final_path s)) 0 (of_nat MAX_PATH_LEN)) (\<lambda>fp.
     rbind (readline (s\<lparr>final_path := fp\<rparr>) line cmd_len keys) (\<lambda>(line, keys, s).
       let s = s\<lparr>cmd_line := line\<rparr>
       in if line ! 0 = 0 then Inr (NextRound, keys, s)
          else
            rbind (cmd_parse line 32) (\<lambda>(argc, argv, line).
              let s = s\<lparr>cmd_line := line\<rparr>
              in if argc = -1 then
                   rbind (sh_printf s (''num of arguments exceed %d'' @ NL) [VaInt (of_nat MAX_ARG_NR)]) (\<lambda>s.
                     Inr (NextRound, keys, s))
                 else if argc = 0 then Inl Panic
                 else rbind (run_command fuel k s fork_ret (words_of argc argv line)) (\<lambda>(e, s). Inr (e, keys, s)))))))"

end
