(* ===== verification/Shellspec.thy ===== *)
theory Shellspec
  imports Shell
begin

text \<open>
  What the text routines of the shell do: the parser of the command line splits it into its words,
  \<open>wash_path\<close> normalises a path, and \<open>readline\<close> is a line editor.
\<close>

section \<open>Words\<close>

definition words_at :: "u8 \<Rightarrow> u8 list \<Rightarrow> u8 list list" where
  "words_at token s = filter (\<lambda>w. w \<noteq> []) (split_at token s)"

lemma words_at_Nil [simp]: "words_at token [] = []"
  by (simp add: words_at_def)

lemma words_at_token [simp]: "words_at token (token # s) = words_at token s"
  by (simp add: words_at_def)

lemma words_at_word:
  assumes "w \<noteq> []" and "token \<notin> set w" and "s = [] \<or> hd s = token"
  shows "words_at token (w @ s) = w # words_at token s"
proof (cases s)
  case Nil
  then show ?thesis using assms by (simp add: words_at_def split_at_whole)
next
  case (Cons x xs)
  then show ?thesis using assms by (simp add: words_at_def split_at_append)
qed

lemma words_at_skip: "words_at token (dropWhile (\<lambda>c. c = token) s) = words_at token s"
  by (induction s) auto

lemma skip_token_eq:
  "token \<noteq> 0 \<Longrightarrow> skip_token token (s @ 0 # rest) k = Inr (k + length (takeWhile (\<lambda>c. c = token) s))"
  by (induction s arbitrary: k) auto

lemma word_end_eq:
  "token \<noteq> 0 \<Longrightarrow> 0 \<notin> set s \<Longrightarrow> word_end token (s @ 0 # rest) k = Inr (k + length (takeWhile (\<lambda>c. c \<noteq> token) s))"
  by (induction s arbitrary: k) auto

text \<open>One word: where it begins, where it ends, and what is left of the command then.\<close>

lemma drop_takeWhile: "drop (length (takeWhile P xs)) xs = dropWhile P xs"
  by (induction xs) auto

lemma drop_plus: "drop i xs = a @ b \<Longrightarrow> drop (i + length a) xs = b"
  by (metis append_eq_conv_conj drop_drop add.commute)

lemma parse_step_none:
  assumes "token \<noteq> 0" and "drop i cmd = s @ 0 # rest" and "0 \<notin> set s" and "words_at token s = []"
  shows "parse_loop token cmd argv i argc = Inr (of_nat argc, argv, cmd)"
proof -
  have i: "i < length cmd" using assms(2) by (metis drop_all append_is_Nil_conv list.distinct(1) not_less)
  have nil: "dropWhile (\<lambda>c. c = token) s = []"
  proof (rule ccontr)
    assume ne: "dropWhile (\<lambda>c. c = token) s \<noteq> []"
    let ?d = "dropWhile (\<lambda>c. c = token) s"
    have "takeWhile (\<lambda>c. c \<noteq> token) ?d \<noteq> []"
      using hd_dropWhile [OF ne] ne by (cases ?d) auto
    moreover have "token \<notin> set (takeWhile (\<lambda>c. c \<noteq> token) ?d)" by (auto dest: set_takeWhileD)
    moreover have "dropWhile (\<lambda>c. c \<noteq> token) ?d = [] \<or> hd (dropWhile (\<lambda>c. c \<noteq> token) ?d) = token"
      using hd_dropWhile [of "\<lambda>c. c \<noteq> token" ?d] by auto
    ultimately have "words_at token ?d \<noteq> []"
      using words_at_word [of "takeWhile (\<lambda>c. c \<noteq> token) ?d" token "dropWhile (\<lambda>c. c \<noteq> token) ?d"] by simp
    then show False using assms(4) by (simp add: words_at_skip)
  qed
  then have all: "takeWhile (\<lambda>c. c = token) s = s" using takeWhile_dropWhile_id [of "\<lambda>c. c = token" s] by simp
  have z: "cmd ! (i + length s) = 0" "i + length s < length cmd"
    using assms(2) i by (metis nth_append_length nth_drop less_imp_le, metis add_less_cancel_left le_add_diff_inverse length_append length_drop less_add_Suc1 less_imp_le list.size(4) add_Suc_right)
  show ?thesis
    using i assms(2) skip_token_eq [OF assms(1), of s rest i] z all by (subst parse_loop.simps) (auto simp: Let_def)
qed

lemma words_at_split:
  assumes "words_at token s = w # ws"
  shows "\<exists>a r. s = a @ w @ r \<and> a = takeWhile (\<lambda>c. c = token) s \<and> w = takeWhile (\<lambda>c. c \<noteq> token) (w @ r) \<and>
    w \<noteq> [] \<and> token \<notin> set w \<and> (r = [] \<and> ws = [] \<or> (\<exists>r'. r = token # r' \<and> words_at token r' = ws))"
proof -
  let ?d = "dropWhile (\<lambda>c. c = token) s"
  define v where "v = takeWhile (\<lambda>c. c \<noteq> token) ?d"
  define r where "r = dropWhile (\<lambda>c. c \<noteq> token) ?d"
  have ne: "?d \<noteq> []" using assms words_at_skip [of token s] by (metis list.distinct(1) words_at_Nil)
  have v: "v \<noteq> []" "token \<notin> set v" using hd_dropWhile [OF ne] ne by (cases ?d; auto simp: v_def dest: set_takeWhileD)+
  have r: "r = [] \<or> hd r = token" using hd_dropWhile [of "\<lambda>c. c \<noteq> token" ?d] by (auto simp: r_def)
  have d: "?d = v @ r" by (simp add: v_def r_def)
  then have "words_at token s = v # words_at token r"
    using words_at_word [OF v r] words_at_skip [of token s] by simp
  then have vw: "v = w" "words_at token r = ws" using assms by simp_all
  moreover have "s = takeWhile (\<lambda>c. c = token) s @ v @ r" using takeWhile_dropWhile_id [of "\<lambda>c. c = token" s] d by simp
  moreover have "v = takeWhile (\<lambda>c. c \<noteq> token) (v @ r)" using d v_def by simp
  moreover have "r = [] \<and> ws = [] \<or> (\<exists>r'. r = token # r' \<and> words_at token r' = ws)"
    using r vw by (cases r) auto
  ultimately show ?thesis using v by blast
qed

text \<open>What parsing may do to the command: put zeros, from position \<open>i\<close> on.\<close>

definition cut :: "nat \<Rightarrow> u8 list \<Rightarrow> u8 list \<Rightarrow> bool" where
  "cut i cmd cmd' \<longleftrightarrow> length cmd' = length cmd \<and> (\<forall>x < length cmd. cmd' ! x = cmd ! x \<or> i \<le> x \<and> cmd' ! x = 0)"

lemma cut_refl: "cut i cmd cmd"
  by (simp add: cut_def)

lemma cut_trans: "cut i cmd cmd' \<Longrightarrow> cut k cmd' cmd'' \<Longrightarrow> i \<le> k \<Longrightarrow> cut i cmd cmd''"
  by (fastforce simp: cut_def)

lemma cstr_cut:
  assumes "cut k cmd cmd'" and "drop p cmd = w @ 0 # rest" and "0 \<notin> set w" and "p + length w \<le> k"
  shows "cstr (drop p cmd') = w"
proof -
  have len: "p + length w < length cmd"
    using arg_cong [OF assms(2), of length] by simp
  have at: "cmd ! (p + x) = (w @ 0 # rest) ! x" for x
    using assms(2) len by (metis add_leD1 less_imp_le nth_drop)
  have "drop p cmd' = w @ 0 # drop (Suc (p + length w)) cmd'"
  proof -
    have "take (length w) (drop p cmd') = w"
    proof (rule nth_equalityI)
      fix x assume "x < length (take (length w) (drop p cmd'))"
      then have x: "x < length w" by simp
      then have "p + x < length cmd" "\<not> k \<le> p + x" using assms(4) len by simp_all
      then have "cmd' ! (p + x) = cmd ! (p + x)" using assms(1) by (auto simp: cut_def)
      then show "take (length w) (drop p cmd') ! x = w ! x" using x at [of x] assms(1) len by (simp add: cut_def nth_append)
    qed (use assms(1) len in \<open>simp add: cut_def\<close>)
    moreover have "cmd' ! (p + length w) = 0" using assms(1) len at [of "length w"] by (auto simp: cut_def)
    ultimately show ?thesis
      using assms(1) len id_take_nth_drop [of "length w" "drop p cmd'"] by (simp add: cut_def add.commute)
  qed
  then show ?thesis using assms(3) cstr_append_zero [of w] by simp
qed

lemma parse_step_word:
  assumes "token \<noteq> 0" and "drop i cmd = s @ 0 # rest" and "0 \<notin> set s" and "words_at token s = w # ws" and "argc < 16" and "length argv = 16"
  shows "\<exists>p k cmd' s'. parse_loop token cmd argv i argc = parse_loop token cmd' (argv[argc := Some p]) k (argc + 1) \<and>
    p + length w \<le> k \<and> i \<le> k \<and> cut i cmd cmd' \<and> drop k cmd' = s' @ 0 # rest \<and> 0 \<notin> set s' \<and> words_at token s' = ws \<and>
    (\<exists>r. drop p cmd' = w @ 0 # r) \<and> p < length cmd"
proof -
  obtain a r where s: "s = a @ w @ r" "a = takeWhile (\<lambda>c. c = token) s" "w = takeWhile (\<lambda>c. c \<noteq> token) (w @ r)"
    and w: "w \<noteq> []" "token \<notin> set w" and r: "r = [] \<and> ws = [] \<or> (\<exists>r'. r = token # r' \<and> words_at token r' = ws)"
    using words_at_split [OF assms(4)] by blast
  define p where "p = i + length a"
  define j where "j = p + length w"
  have at_p: "drop p cmd = (w @ r) @ 0 # rest"
    using drop_plus [of i cmd a "w @ r @ 0 # rest"] assms(2) s(1) by (simp add: p_def)
  have at_j: "drop j cmd = r @ 0 # rest" using drop_plus [of p cmd w "r @ 0 # rest"] at_p by (simp add: j_def)
  have len: "j < length cmd" using at_j by (metis append_is_Nil_conv drop_all list.distinct(1) not_less)
  then have i: "i < length cmd" "p < length cmd" by (simp_all add: j_def p_def)
  have z: "0 \<notin> set w" "0 \<notin> set r" using assms(3) s(1) by auto
  have hd_p: "cmd ! p \<noteq> 0"
    using at_p w(1) z(1) i(2) by (cases w) (auto simp: hd_drop_conv_nth [symmetric])
  have cmd_i: "cmd ! i \<noteq> 0"
  proof -
    have "cmd ! i = hd (a @ w @ r @ 0 # rest)" using assms(2) s(1) i(1) by (simp add: hd_drop_conv_nth [symmetric])
    moreover have "hd (a @ w @ r @ 0 # rest) \<in> set (a @ w)" using w(1) by (cases a; cases w) auto
    ultimately show ?thesis using assms(3) s(1) by auto
  qed
  have skip: "skip_token token (drop i cmd) i = Inr p"
    using skip_token_eq [OF assms(1), of s rest i] assms(2) s(2) by (simp add: p_def)
  have "end": "word_end token (drop p cmd) p = Inr j"
    using word_end_eq [OF assms(1), of "w @ r" rest p] z at_p s(3) by (simp add: j_def)
  have argv: "unat (of_nat argc :: u32) = argc" using assms(5) by (intro unat_of_nat_small) simp
  have st: "st argv (of_nat argc) (Some p) = Inr (argv[argc := Some p])" using argv assms(5,6) by simp
  define cmd' where "cmd' = (if cmd ! j \<noteq> 0 then cmd[j := 0] else cmd)"
  define k where "k = (if cmd ! j \<noteq> 0 then j + 1 else j)"
  have step: "parse_loop token cmd argv i argc = parse_loop token cmd' (argv[argc := Some p]) k (argc + 1)"
    using i(1) cmd_i skip hd_p st "end" assms(5)
    by (subst parse_loop.simps) (simp add: Let_def cmd'_def k_def MAX_ARG_NR_def)
  have cmd_j: "cmd ! j = hd (r @ 0 # rest)" using at_j len by (simp add: hd_drop_conv_nth [symmetric])
  have "cut i cmd cmd'" 
    using len by (auto simp: cut_def cmd'_def nth_list_update j_def p_def)
  moreover have "p + length w \<le> k" "i \<le> k" by (simp_all add: k_def j_def p_def)
  moreover have "\<exists>s'. drop k cmd' = s' @ 0 # rest \<and> 0 \<notin> set s' \<and> words_at token s' = ws"
    using r
  proof (elim disjE conjE exE)
    assume "r = []" "ws = []"
    then show ?thesis using cmd_j at_j by (auto simp: k_def cmd'_def intro!: exI [of _ "[]"])
  next
    fix r' assume r': "r = token # r'" "words_at token r' = ws"
    then have "cmd ! j \<noteq> 0" using cmd_j assms(1) by simp
    moreover have "drop (j + 1) cmd = r' @ 0 # rest" using drop_plus [of j cmd "[token]"] at_j r'(1) by simp
    ultimately show ?thesis using r' z by (auto simp: k_def cmd'_def intro!: exI [of _ r'])
  qed
  moreover have "\<exists>q. drop p cmd' = w @ 0 # q"
  proof (cases "cmd ! j = 0")
    case True
    then have "r = []" using cmd_j r assms(1) by auto
    then show ?thesis using True at_p by (simp add: cmd'_def)
  next
    case False
    have "drop p cmd' = (drop p cmd)[length w := 0]"
      using False by (simp add: cmd'_def j_def drop_update_swap)
    moreover have "r \<noteq> []" using cmd_j False by auto
    ultimately show ?thesis using at_p by (cases r) (simp_all add: list_update_append)
  qed
  ultimately show ?thesis using step i(2) by blast
qed

lemma parse_loop_words:
  assumes "token \<noteq> 0" and "drop i cmd = s @ 0 # rest" and "0 \<notin> set s" and "words_at token s = ws"
    and "argc + length ws \<le> 16" and "length argv = 16"
  shows "\<exists>ps cmd'. parse_loop token cmd argv i argc =
      Inr (of_nat (argc + length ws), take argc argv @ map Some ps @ drop (argc + length ws) argv, cmd') \<and>
    length ps = length ws \<and> cut i cmd cmd' \<and> (\<forall>j < length ws. ps ! j < length cmd \<and> cstr (drop (ps ! j) cmd') = ws ! j)"
  using assms
proof (induction ws arbitrary: i cmd s argv argc)
  case Nil
  then show ?case using parse_step_none [OF Nil.prems(1-4)] by (auto intro!: exI [of _ "[]"] cut_refl)
next
  case (Cons w ws)
  obtain a r where "s = a @ w @ r" using words_at_split [OF Cons.prems(4)] by blast
  then have w0: "0 \<notin> set w" using Cons.prems(3) by simp
  have "argc < 16" using Cons.prems(5) by simp
  from parse_step_word [OF Cons.prems(1-4) this Cons.prems(6)] obtain p k cmd1 s' q where
    step: "parse_loop token cmd argv i argc = parse_loop token cmd1 (argv[argc := Some p]) k (argc + 1)"
    and k: "p + length w \<le> k" "i \<le> k" "cut i cmd cmd1" "drop k cmd1 = s' @ 0 # rest" "0 \<notin> set s'" "words_at token s' = ws"
      "drop p cmd1 = w @ 0 # q" "p < length cmd" by blast
  from Cons.IH [OF Cons.prems(1) k(4-6), of "argc + 1" "argv[argc := Some p]"] Cons.prems(5,6) obtain ps cmd' where
    r: "parse_loop token cmd1 (argv[argc := Some p]) k (argc + 1) =
        Inr (of_nat (argc + 1 + length ws), take (argc + 1) (argv[argc := Some p]) @ map Some ps @ drop (argc + 1 + length ws) (argv[argc := Some p]), cmd')"
      "length ps = length ws" "cut k cmd1 cmd'" "\<forall>j < length ws. ps ! j < length cmd1 \<and> cstr (drop (ps ! j) cmd') = ws ! j" by auto
  have len: "length cmd1 = length cmd" using k(3) by (simp add: cut_def)
  have "cstr (drop p cmd') = w" by (rule cstr_cut [OF r(3) k(7) w0 k(1)])
  then have all: "\<forall>j < length (w # ws). (p # ps) ! j < length cmd \<and> cstr (drop ((p # ps) ! j) cmd') = (w # ws) ! j"
    using r(4) k(8) len by (auto simp: nth_Cons' less_Suc_eq_0_disj)
  have "take (argc + 1) (argv[argc := Some p]) = take argc argv @ [Some p]"
    using Cons.prems(5,6) by (simp add: take_Suc_conv_app_nth)
  moreover have "drop (argc + 1 + length ws) (argv[argc := Some p]) = drop (argc + length (w # ws)) argv" by simp
  ultimately have "parse_loop token cmd argv i argc = Inr (of_nat (argc + length (w # ws)),
      take argc argv @ map Some (p # ps) @ drop (argc + length (w # ws)) argv, cmd')"
    using step r(1) by simp
  moreover have "length (p # ps) = length (w # ws)" using r(2) by simp
  ultimately show ?case using all cut_trans [OF k(3) r(3) k(2)] by blast
qed

lemma parse_loop_overrun:
  assumes "token \<noteq> 0" and "drop i cmd = s @ 0 # rest" and "0 \<notin> set s" and "words_at token s = ws"
    and "argc + length ws > 16" and "argc \<le> 16" and "length argv = 16"
  shows "parse_loop token cmd argv i argc = Inl OutOfBounds"
  using assms
proof (induction ws arbitrary: i cmd s argv argc)
  case Nil
  then show ?case by simp
next
  case (Cons w ws)
  show ?case
  proof (cases "argc < 16")
    case True
    from parse_step_word [OF Cons.prems(1-4) True Cons.prems(7)] obtain p k cmd1 s' where
      "parse_loop token cmd argv i argc = parse_loop token cmd1 (argv[argc := Some p]) k (argc + 1)"
      "drop k cmd1 = s' @ 0 # rest" "0 \<notin> set s'" "words_at token s' = ws" by blast
    then show ?thesis using Cons.IH [OF Cons.prems(1), of k cmd1 s' "argc + 1" "argv[argc := Some p]"] Cons.prems(5,7) True by simp
  next
    case False
    obtain a r where s: "s = a @ w @ r" "a = takeWhile (\<lambda>c. c = token) s" and w: "w \<noteq> []"
      using words_at_split [OF Cons.prems(4)] by blast
    have at_p: "drop (i + length a) cmd = (w @ r) @ 0 # rest"
      using drop_plus [of i cmd a "w @ r @ 0 # rest"] Cons.prems(2) s(1) by simp
    then have len: "i + length a < length cmd" by (metis append_is_Nil_conv drop_all list.distinct(1) not_less)
    then have i: "i < length cmd" by simp
    have "cmd ! i = hd (a @ w @ r @ 0 # rest)" using Cons.prems(2) s(1) i by (simp add: hd_drop_conv_nth [symmetric])
    moreover have "hd (a @ w @ r @ 0 # rest) \<in> set (a @ w)" using w by (cases a; cases w) auto
    ultimately have 1: "cmd ! i \<noteq> 0" using Cons.prems(3) s(1) by auto
    have 2: "cmd ! (i + length a) \<noteq> 0"
      using at_p w Cons.prems(3) s(1) len by (cases w) (auto simp: hd_drop_conv_nth [symmetric])
    have 3: "skip_token token (drop i cmd) i = Inr (i + length a)"
      using skip_token_eq [OF Cons.prems(1), of s rest i] Cons.prems(2) s(2) by simp
    have "argc = 16" using False Cons.prems(6) by simp
    then show ?thesis
      using i 1 2 3 Cons.prems(7) by (subst parse_loop.simps) (simp add: Let_def st_def)
  qed
qed

text \<open>
  C21: \<open>cmd_parse\<close> splits the command line into words.  For every line with at most sixteen words,
  however many separators stand before, between and behind them, \<open>argv\<close> gets the words in their
  order, each a terminated string inside the line, and the rest of \<open>argv\<close> is null; the line is
  changed by zeros only.  A seventeenth word is stored behind the array.
\<close>

theorem cmd_parse_words:
  assumes "token \<noteq> 0" and "terminated line" and "words_at token (cstr line) = ws"
  shows "if length ws \<le> 16
    then \<exists>ps line'. cmd_parse line token = Inr (of_nat (length ws), map Some ps @ replicate (16 - length ws) None, line') \<and>
      length ps = length ws \<and> map cstr (words_of (of_nat (length ws)) (map Some ps @ replicate (16 - length ws) None) line') = ws \<and>
      length line' = length line \<and> (\<forall>x < length line. line' ! x = line ! x \<or> line' ! x = 0)
    else cmd_parse line token = Inl OutOfBounds"
proof -
  obtain rest where line: "drop 0 line = cstr line @ 0 # rest" using terminated_decomp [OF assms(2)] by auto
  show ?thesis
  proof (cases "length ws \<le> 16")
    case True
    from parse_loop_words [OF assms(1) line zero_notin_cstr assms(3), of 0 "replicate 16 None"] True obtain ps line' where
      r: "cmd_parse line token = Inr (of_nat (length ws), map Some ps @ replicate (16 - length ws) None, line')"
        "length ps = length ws" "cut 0 line line'" "\<forall>j < length ws. cstr (drop (ps ! j) line') = ws ! j"
      by (auto simp: cmd_parse_def MAX_ARG_NR_def)
    have "unat (of_nat (length ws) :: u32) = length ws" using True by (intro unat_of_nat_small) simp
    then have "map cstr (words_of (of_nat (length ws)) (map Some ps @ replicate (16 - length ws) None) line') = ws"
      using r(2,4) by (intro nth_equalityI) (simp_all add: words_of_def)
    then show ?thesis using r True by (auto simp: cut_def)
  next
    case False
    then show ?thesis
      using parse_loop_overrun [OF assms(1) line zero_notin_cstr assms(3), of 0 "replicate 16 None"]
      by (simp add: cmd_parse_def MAX_ARG_NR_def)
  qed
qed

theorem cmd_parse_words_witness:
  "\<exists>ps line'. cmd_parse (ctext ''  ls  -l  a '') 32 = Inr (3, map Some ps @ replicate 13 None, line') \<and>
     map cstr (words_of 3 (map Some ps @ replicate 13 None) line') = [[108, 115], [45, 108], [97]]"
proof -
  have line: "ctext ''  ls  -l  a '' = [32, 32, 108, 115, 32, 32, 45, 108, 32, 32, 97, 32, 0]" by (simp add: ctext_def of_char_def)
  let ?ws = "[[108, 115], [45, 108], [97]] :: u8 list list"
  have w: "words_at 32 (cstr (ctext ''  ls  -l  a '')) = ?ws" unfolding line by (simp add: words_at_def)
  have "terminated (ctext ''  ls  -l  a '')" unfolding line by simp
  from cmd_parse_words [OF _ this w] obtain ps line' where
    "cmd_parse (ctext ''  ls  -l  a '') 32 = Inr (of_nat (length ?ws), map Some ps @ replicate (16 - length ?ws) None, line')"
    "map cstr (words_of (of_nat (length ?ws)) (map Some ps @ replicate (16 - length ?ws) None) line') = ?ws"
    by fastforce
  then show ?thesis by (intro exI [of _ ps] exI [of _ line']) simp
qed

section \<open>The line editor\<close>

text \<open>The line after a key, what the key shows, and whether the line stays below 128 characters.\<close>

definition key_step :: "u8 list \<Rightarrow> u8 \<Rightarrow> u8 list" where
  "key_step l c = (if c = 20 then [] else if c = 8 then butlast l else l @ [c])"

definition key_echo :: "u8 list \<Rightarrow> u8 \<Rightarrow> u8 list" where
  "key_echo l c = (if c = 20 then replicate (length l) 8 else if c = 8 then (if l = [] then [] else [8]) else [c])"

fun echo :: "u8 list \<Rightarrow> u8 list \<Rightarrow> u8 list" where
  "echo l [] = [10]"
| "echo l (c # cs) = key_echo l c @ echo (key_step l c) cs"

fun room :: "u8 list \<Rightarrow> u8 list \<Rightarrow> bool" where
  "room l [] \<longleftrightarrow> length l < 128"
| "room l (c # cs) \<longleftrightarrow> length l < 128 \<and> room (key_step l c) cs"

lemma kill_line_eq:
  "n < length buf \<Longrightarrow> \<exists>buf'. kill_line s buf n = (buf', s\<lparr>tty := tty s @ replicate n 8\<rparr>) \<and> length buf' = length buf"
proof (induction n arbitrary: buf s)
  case (Suc n)
  from Suc.IH [of "buf[Suc n := 0]" "putchar s 8"] Suc.prems show ?case by (auto simp: putchar_def replicate_app_Cons_same)
qed simp

definition line_in :: "u8 list \<Rightarrow> u8 list \<Rightarrow> bool" where
  "line_in buf l \<longleftrightarrow> length buf = 128 \<and> take (length l) buf = l \<and> length l \<le> 128 \<and> 0 \<notin> set l \<and> 8 \<notin> set l"

lemma line_in_store:
  assumes "line_in buf l" and "length l < 128"
  shows "st buf (of_nat (length l)) c = Inr (buf[length l := c])"
proof -
  have "unat (of_nat (length l) :: u32) = length l" using assms(2) by (intro unat_of_nat_small) simp
  then show ?thesis using assms by (simp add: line_in_def)
qed

lemma readline_key:
  assumes l: "line_in buf l" "length l < 128" and c: "c \<notin> {0, 10, 11, 13}"
  shows "\<exists>buf'. line_in buf' (key_step l c) \<and> readline_loop s buf (length l) 128 (c # ks) =
    readline_loop (s\<lparr>tty := tty s @ key_echo l c\<rparr>) buf' (length (key_step l c)) 128 ks"
proof -
  let ?b = "buf[length l := c]"
  note st = line_in_store [OF l, of c]
  have b: "length ?b = 128" "take (length l) ?b = l" using l by (simp_all add: line_in_def)
  consider "c = 20" | "c = 8" | "c \<noteq> 20" "c \<noteq> 8" by blast
  then show ?thesis
  proof cases
    case 1
    obtain buf' where "kill_line s ?b (length l) = (buf', s\<lparr>tty := tty s @ replicate (length l) 8\<rparr>)" "length buf' = 128"
      using kill_line_eq [of "length l" ?b s] b l(2) by auto
    then show ?thesis using 1 st l(2) by (auto simp: key_step_def key_echo_def line_in_def)
  next
    case 2
    show ?thesis
    proof (cases l)
      case Nil
      have "?b ! 0 = 8" using 2 Nil l by (simp add: line_in_def)
      then show ?thesis using 2 Nil st b l by (auto simp: key_step_def key_echo_def line_in_def intro!: exI [of _ "buf[0 := 8]"])
    next
      case (Cons d ds)
      have "?b ! 0 = d" using b(2) Cons by (metis length_greater_0_conv list.distinct(1) nth_Cons_0 nth_take)
      then have "?b ! 0 \<noteq> 8" using l(1) Cons by (auto simp: line_in_def)
      moreover have "line_in ?b (butlast l)"
      proof -
        have "take (length l - 1) ?b = take (length l - 1) (take (length l) ?b)" by simp
        then have "take (length (butlast l)) ?b = butlast l" unfolding b(2) by (simp add: butlast_conv_take)
        then show ?thesis using b(1) l by (auto simp: line_in_def dest: in_set_butlastD)
      qed
      ultimately show ?thesis
        using 2 Cons st l(2) by (auto simp: key_step_def key_echo_def putchar_def)
    qed
  next
    case 3
    have "line_in ?b (l @ [c])" using b l c 3 by (auto simp: line_in_def take_Suc_conv_app_nth)
    then show ?thesis using 3 c st l(2) by (auto simp: key_step_def key_echo_def putchar_def)
  qed
qed

lemma readline_loop_edits:
  assumes "line_in buf l" and "set ks \<inter> {0, 10, 11, 13} = {}"
  shows "if room l ks
    then \<exists>buf'. readline_loop s buf (length l) 128 (ks @ 10 # rest) = Inr (buf', rest, s\<lparr>tty := tty s @ echo l ks\<rparr>) \<and>
      length buf' = 128 \<and> terminated buf' \<and> cstr buf' = foldl key_step l ks
    else readline_loop s buf (length l) 128 (ks @ 10 # rest) = Inl OutOfBounds"
  using assms
proof (induction ks arbitrary: s buf l)
  case Nil
  show ?case
  proof (cases "length l < 128")
    case True
    have "buf[length l := 10, length l := 0] = l @ 0 # drop (Suc (length l)) buf"
      using Nil.prems(1) True id_take_nth_drop [of "length l" "buf[length l := 0]"] by (auto simp: line_in_def)
    moreover have "0 \<notin> set l" "length buf = 128" using Nil.prems(1) by (simp_all add: line_in_def)
    ultimately show ?thesis
      using True line_in_store [OF Nil.prems(1) True, of 10] cstr_append_zero [of l]
      by (auto simp: putchar_def)
  next
    case False
    then have "length l = 128" "length buf = 128" using Nil.prems(1) by (simp_all add: line_in_def)
    then show ?thesis by (simp add: st_def)
  qed
next
  case (Cons c ks)
  show ?case
  proof (cases "length l < 128")
    case True
    have "c \<notin> {0, 10, 11, 13}" using Cons.prems(2) by auto
    from readline_key [OF Cons.prems(1) True this] obtain buf' where
      "line_in buf' (key_step l c)" "readline_loop s buf (length l) 128 (c # ks @ 10 # rest) =
        readline_loop (s\<lparr>tty := tty s @ key_echo l c\<rparr>) buf' (length (key_step l c)) 128 (ks @ 10 # rest)" by blast
    then show ?thesis
      using Cons.IH [of buf' "key_step l c" "s\<lparr>tty := tty s @ key_echo l c\<rparr>"] Cons.prems(2) True by (simp cong: if_cong)
  next
    case False
    then have "length l = 128" "length buf = 128" using Cons.prems(1) by (simp_all add: line_in_def)
    then show ?thesis by (simp add: st_def)
  qed
qed

text \<open>
  C22: \<open>readline\<close> is a line editor.  For any keys but control-L up to the end of the line, the buffer
  holds the edited line as a terminated string: text appends, backspace takes the last character
  back, also repeatedly and on an empty line, control-U empties the line; the screen has shown
  every key as it was typed.  A line that reaches 128 characters overruns the buffer.
\<close>

theorem readline_edits:
  assumes "length buf = 128" and "set ks \<inter> {0, 10, 11, 13} = {}"
  shows "if room [] ks
    then \<exists>buf'. readline s buf 128 (ks @ 10 # rest) = Inr (buf', rest, s\<lparr>tty := tty s @ echo [] ks\<rparr>) \<and>
      length buf' = 128 \<and> terminated buf' \<and> cstr buf' = foldl key_step [] ks
    else readline s buf 128 (ks @ 10 # rest) = Inl OutOfBounds"
  using readline_loop_edits [of buf "[]" ks s rest] assms by (simp add: line_in_def readline_def cong: if_cong)

definition demo_shell :: shell where
  "demo_shell = fsys.extend some_fs
     \<lparr>cmd_line = replicate 128 0, cwd_cache = replicate 64 0, final_path = replicate 512 0, tty = []\<rparr>"

theorem readline_edits_witness:
  "\<exists>buf' s'. readline demo_shell (replicate 128 0) 128 ([120, 20, 108, 115, 115, 8] @ 10 # []) = Inr (buf', [], s') \<and>
     cstr buf' = [108, 115]"
proof -
  have "set [120, 20, 108, 115, 115, 8] \<inter> {0, 10, 11, 13 :: u8} = {}" "room [] [120, 20, 108, 115, 115, 8]"
    "foldl key_step [] [120, 20, 108, 115, 115, 8] = [108, 115]"
    by (simp_all add: key_step_def)
  with readline_edits [of "replicate 128 0" "[120, 20, 108, 115, 115, 8]" demo_shell "[]"] show ?thesis by auto
qed

section \<open>Normal paths\<close>

text \<open>A path as its components, with the parts that are \<open>.\<close> and \<open>..\<close> carried out.\<close>

definition step_comp :: "u8 list list \<Rightarrow> u8 list \<Rightarrow> u8 list list" where
  "step_comp cs c = (if c = [46, 46] then butlast cs else if c = [46] then cs else cs @ [c])"

definition path_of :: "u8 list list \<Rightarrow> u8 list" where
  "path_of cs = (if cs = [] then [47] else concat (map (\<lambda>c. 47 # c) cs))"


definition good_comp :: "u8 list \<Rightarrow> bool" where
  "good_comp c \<longleftrightarrow> c \<noteq> [] \<and> 47 \<notin> set c \<and> 0 \<notin> set c \<and> length c \<le> 15"

definition holds_path :: "u8 list \<Rightarrow> u8 list list \<Rightarrow> bool" where
  "holds_path p cs \<longleftrightarrow> terminated p \<and> cstr p = path_of cs \<and> (\<forall>c \<in> set cs. good_comp c)"

definition weight :: "u8 list list \<Rightarrow> nat" where
  "weight cs = (\<Sum>c\<leftarrow>cs. Suc (length c))"

lemma weight_simps [simp]: "weight [] = 0" "weight (c # cs) = Suc (length c) + weight cs" "weight (cs @ ds) = weight cs + weight ds"
  by (simp_all add: weight_def)

lemma length_joined: "length (concat (map (\<lambda>c. 47 # c) cs)) = weight cs"
  by (induction cs) auto

lemma length_path_of: "length (path_of cs) = max 1 (weight cs)"
  unfolding path_of_def using length_joined [of cs] by (cases cs) auto

lemma path_of_snoc: "path_of (cs @ [c]) = concat (map (\<lambda>c. 47 # c) cs) @ 47 # c"
  by (simp add: path_of_def)

lemma last_slash: "47 \<notin> set c \<Longrightarrow> last_at 47 (a @ 47 # c) (length a)"
  by (simp add: last_at_def)

lemma zero_free_path: "\<forall>c \<in> set cs. good_comp c \<Longrightarrow> 0 \<notin> set (path_of cs)"
  by (auto simp: path_of_def good_comp_def)

lemma strcmp_total:
  "terminated a \<Longrightarrow> terminated b \<Longrightarrow> \<exists>r. strcmp (Some a) (Some b) = Inr r \<and> (r = 0 \<longleftrightarrow> cstr a = cstr b)"
  using strcmp_loop_order [of a b] strcmp_zero [of a b] by (simp split: if_splits)

lemma strrchr_at:
  assumes "terminated p" and "last_at 47 (cstr p) i"
  shows "strrchr (Some p) 47 = Inr (Some i)"
proof -
  from strrchr_loop_eq [OF assms(1), of 47 0 None] last_at_mem [OF assms(2)]
  obtain j where "strrchr_loop p 47 0 None = Inr (Some j)" "last_at 47 (cstr p) j" by auto
  moreover have "j = i" using last_at_unique [OF calculation(2) assms(2)] .
  ultimately show ?thesis by simp
qed

lemma cut_at:
  assumes "cstr p = a @ b" and "length a < length p"
  shows "terminated (p[length a := 0]) \<and> cstr (p[length a := 0]) = a"
proof -
  have "take (length a) p = a" using assms by (metis append_eq_conv_conj cstr_def takeWhile_eq_take take_take min.cobounded1 min_def length_append le_add1)
  then have "p[length a := 0] = a @ 0 # drop (Suc (length a)) p" using assms(2) by (metis upd_conv_take_nth_drop)
  moreover have "0 \<notin> set a" using zero_notin_cstr [of p] assms(1) by auto
  ultimately show ?thesis by (simp add: cstr_append_zero)
qed

lemma holds_path_root: "2 \<le> length p \<Longrightarrow> holds_path (p[0 := 47, 1 := 0]) []"
  by (cases p; cases "tl p") (auto simp: holds_path_def path_of_def)

lemma wash_up:
  assumes "holds_path p cs" and "2 \<le> length p" and "length p < 2 ^ 32"
  shows "\<exists>p'. rbind (strrchr (Some p) 47) (\<lambda>slash_ptr. case slash_ptr of None \<Rightarrow> Inl WildPointer
      | Some k \<Rightarrow> st p (of_nat (if k \<noteq> 0 then k else k + 1)) 0) = Inr p' \<and>
    holds_path p' (butlast cs) \<and> length p' = length p"
proof -
  note h = assms(1) [unfolded holds_path_def]
  have len: "length (cstr p) < length p" using h length_cstr_less by blast
  have put: "st p (of_nat k) 0 = Inr (p[k := 0])" if "k < length p" for k
  proof -
    have "unat (of_nat k :: u32) = k" using that assms(3) by (simp add: unat_of_nat_small)
    with that show ?thesis by simp
  qed
  show ?thesis
  proof (cases cs rule: rev_cases)
    case Nil
    then have "strrchr (Some p) 47 = Inr (Some 0)"
      using strrchr_at [of p 0] h by (simp add: path_of_def last_at_def)
    moreover have "holds_path (p[1 := 0]) []"
      using cut_at [of p "[47]" "[]"] h Nil assms(2) by (simp add: holds_path_def path_of_def)
    ultimately show ?thesis using put [of 1] assms(2) Nil by simp
  next
    case (snoc ds c)
    let ?a = "concat (map (\<lambda>c. 47 # c) ds)"
    have c: "cstr p = ?a @ 47 # c" "47 \<notin> set c" using h snoc by (auto simp: path_of_snoc good_comp_def)
    have k: "strrchr (Some p) 47 = Inr (Some (weight ds))"
      using strrchr_at [of p "weight ds"] h last_slash [OF c(2), of ?a] c(1) by (simp add: length_joined)
    show ?thesis
    proof (cases "ds = []")
      case True
      then have "holds_path (p[1 := 0]) []"
        using cut_at [of p "[47]" c] c(1) assms(2) by (simp add: holds_path_def path_of_def)
      then show ?thesis using True snoc k put [of 1] assms(2) by simp
    next
      case False
      then have "weight ds \<noteq> 0" by (cases ds) auto
      moreover have "weight ds < length p" using len c(1) by (simp add: length_joined [symmetric])
      moreover have "holds_path (p[weight ds := 0]) ds"
        using cut_at [of p ?a "47 # c"] c(1) h snoc False calculation(2) by (simp add: length_joined holds_path_def path_of_def)
      ultimately show ?thesis using snoc k put [of "weight ds"] by simp
    qed
  qed
qed

lemma wash_add:
  assumes "holds_path p cs" and "good_comp c" and "weight cs + Suc (length c) < length p"
    and "cstr name = c" and "terminated name"
  shows "\<exists>p'. rbind (strcmp (Some p) (Some [47, 0])) (\<lambda>root.
      rbind (if root \<noteq> 0 then strcat (Some p) (Some [47, 0]) else Inr p) (\<lambda>p. strcat (Some p) (Some name))) = Inr p' \<and>
    holds_path p' (cs @ [c]) \<and> length p' = length p"
proof -
  note h = assms(1) [unfolded holds_path_def]
  have app: "\<exists>q. strcat (Some p) (Some s) = Inr q \<and> terminated q \<and> cstr q = cstr p @ cstr s \<and> length q = length p"
    if "terminated p" "terminated s" "length (cstr p) + length (cstr s) < length p" for p s
    using strcat_eq [OF that] that cstr_append_zero [of "cstr p @ cstr s"]
      terminated_append_zero [of "cstr p @ cstr s"] by (simp del: strcat.simps)
  obtain r where r: "strcmp (Some p) (Some [47, 0]) = Inr r" "r = 0 \<longleftrightarrow> path_of cs = [47]"
    using strcmp_total [of p "[47, 0]"] h by auto
  have root: "path_of cs = [47] \<longleftrightarrow> cs = []"
  proof (cases cs)
    case (Cons d ds)
    then have "d \<noteq> []" using h by (simp add: good_comp_def)
    with Cons show ?thesis by (simp add: path_of_def)
  qed (simp add: path_of_def)
  show ?thesis
  proof (cases "cs = []")
    case True
    obtain q where "strcat (Some p) (Some name) = Inr q" "terminated q" "cstr q = 47 # c" "length q = length p"
      using app [of p name] h assms(3-5) True by (auto simp: path_of_def)
    with r root True assms(2) show ?thesis by (auto simp: holds_path_def path_of_def)
  next
    case False
    have l: "length (path_of cs) = weight cs" using False by (cases cs) (simp_all add: length_path_of)
    obtain q where q: "strcat (Some p) (Some [47, 0]) = Inr q" "terminated q" "cstr q = path_of cs @ [47]" "length q = length p"
      using app [of p "[47, 0]"] h assms(3) l by auto
    obtain q' where "strcat (Some q) (Some name) = Inr q'" "terminated q'" "cstr q' = path_of cs @ 47 # c" "length q' = length p"
      using app [of q name] q assms(3-5) l by auto
    with q r root False assms(2) h show ?thesis by (auto simp: holds_path_def path_of_def)
  qed
qed

lemma split_at_pieces: "c \<in> set (split_at x s) \<Longrightarrow> x \<notin> set c \<and> set c \<subseteq> set s"
proof (induction s arbitrary: c)
  case (Cons y ys)
  obtain d ds where "split_at x ys = d # ds" using split_at_nonempty by (metis list.exhaust)
  with Cons show ?case by (auto split: if_splits) (metis insertCI list.set(2) subsetD)+
qed simp

lemma comps_good: "\<forall>c \<in> set (comps (cstr s)). length c \<le> 15 \<Longrightarrow> \<forall>c \<in> set (comps (cstr s)). good_comp c"
  using split_at_pieces [of _ 47 "cstr s"] zero_notin_cstr [of s] unfolding comps_def good_comp_def by fastforce

lemma wash_step_eq:
  assumes "holds_path p cs" and "good_comp c" and "weight cs + Suc (length c) < length p" and "length p < 2 ^ 32"
  shows "\<exists>p'. wash_step (c @ replicate (16 - length c) 0) p = Inr p' \<and> holds_path p' (step_comp cs c) \<and> length p' = length p"
proof -
  let ?name = "c @ replicate (16 - length c) 0"
  have "\<exists>r. ?name = c @ 0 # r" using assms(2) by (cases "16 - length c") (auto simp: good_comp_def)
  then have name: "terminated ?name" "cstr ?name = c" using assms(2) cstr_append_zero [of c] by (auto simp: good_comp_def)
  obtain up where up: "strcmp (Some [46, 46, 0]) (Some ?name) = Inr up" "up = 0 \<longleftrightarrow> c = [46, 46]"
    using strcmp_total [of "[46, 46, 0]" ?name] name by auto
  obtain same where same: "strcmp (Some [46, 0]) (Some ?name) = Inr same" "same = 0 \<longleftrightarrow> c = [46]"
    using strcmp_total [of "[46, 0]" ?name] name by auto
  consider "c = [46, 46]" | "c = [46]" | "c \<noteq> [46, 46]" "c \<noteq> [46]" by blast
  then show ?thesis
  proof cases
    case 1
    then have "2 \<le> length p" using assms(3) by simp
    moreover have "wash_step ?name p = rbind (strrchr (Some p) 47) (\<lambda>slash_ptr. case slash_ptr of None \<Rightarrow> Inl WildPointer
      | Some k \<Rightarrow> st p (of_nat (if k \<noteq> 0 then k else k + 1)) 0)"
      unfolding wash_step_def up(1) rbind_Inr using up(2) 1 by (simp only: if_True simp_thms)
    moreover have "step_comp cs c = butlast cs" using 1 by (simp add: step_comp_def)
    ultimately show ?thesis using wash_up [OF assms(1) _ assms(4)] by metis
  next
    case 2
    then show ?thesis using up same assms(1) unfolding wash_step_def step_comp_def by (simp del: strcmp.simps strrchr.simps strcat.simps)
  next
    case 3
    with wash_add [OF assms(1-3) name(2,1)] up same show ?thesis
      unfolding wash_step_def step_comp_def by (simp del: strcmp.simps strrchr.simps strcat.simps)
  qed
qed

lemma weight_step: "weight (step_comp cs c) \<le> weight cs + Suc (length c)"
  by (cases cs rule: rev_cases) (simp_all add: step_comp_def)

lemma wash_loop_eq:
  "terminated q \<Longrightarrow> good_comp c \<Longrightarrow> \<forall>d \<in> set (comps (cstr q)). good_comp d \<Longrightarrow>
   holds_path p cs \<Longrightarrow> weight cs + weight (c # comps (cstr q)) < length p \<Longrightarrow> length p < 2 ^ 32 \<Longrightarrow>
   \<exists>p'. wash_loop (Some q) (c @ replicate (16 - length c) 0) p = Inr p' \<and>
     holds_path p' (foldl step_comp cs (c # comps (cstr q))) \<and> length p' = length p"
proof (induction "comps (cstr q)" arbitrary: q c p cs)
  case Nil
  obtain q' where q': "path_parse q (replicate name_len 0) = Inr (q', replicate name_len 0)"
    using path_parse_step [OF Nil.prems(1)] Nil.hyps by auto
  obtain p' where "wash_step (c @ replicate (16 - length c) 0) p = Inr p'" "holds_path p' (step_comp cs c)" "length p' = length p"
    using wash_step_eq [of p cs c] Nil by auto
  moreover have "hd (c @ replicate (16 - length c) 0) \<noteq> 0" using Nil.prems(2) by (cases c) (auto simp: good_comp_def)
  moreover have "wash_loop q' (replicate name_len 0) p' = Inr p'"
    by (subst wash_loop.simps) (simp add: name_len_def)
  ultimately show ?case using q' Nil.hyps by (subst wash_loop.simps) (simp del: hd_append2)
next
  case (Cons d ds)
  have d: "good_comp d" "\<forall>d \<in> set ds. good_comp d" using Cons.prems(3) unfolding Cons.hyps(2) [symmetric] by simp_all
  then have "length d \<le> 16" by (simp add: good_comp_def)
  then obtain q' where q': "path_parse q (replicate name_len 0) = Inr (Some q', d @ replicate (16 - length d) 0)"
    "terminated q'" "comps (cstr q') = ds"
    using path_parse_step [OF Cons.prems(1)] unfolding Cons.hyps(2) [symmetric] by auto
  have w: "weight cs + (Suc (length c) + (Suc (length d) + weight ds)) < length p"
    using Cons.prems(5) unfolding Cons.hyps(2) [symmetric] by simp
  then obtain p' where p': "wash_step (c @ replicate (16 - length c) 0) p = Inr p'" "holds_path p' (step_comp cs c)" "length p' = length p"
    using wash_step_eq [of p cs c] Cons.prems by auto
  have "hd (c @ replicate (16 - length c) 0) \<noteq> 0" using Cons.prems(2) by (cases c) (auto simp: good_comp_def)
  moreover have "weight (step_comp cs c) + weight (d # ds) < length p'" using weight_step [of cs c] w p'(3) by simp
  then have "\<exists>p''. wash_loop (Some q') (d @ replicate (16 - length d) 0) p' = Inr p'' \<and>
     holds_path p'' (foldl step_comp (step_comp cs c) (d # ds)) \<and> length p'' = length p'"
    using Cons.hyps(1) [of q' d p' "step_comp cs c"] q'(2,3) d p'(2,3) Cons.prems(6) by simp
  ultimately show ?case
    using q'(1) p'(1,3) unfolding Cons.hyps(2) [symmetric] by (subst wash_loop.simps) (simp del: hd_append2)
qed

text \<open>
  C20: \<open>wash_path\<close> normalises an absolute path.  Whatever slashes, \<open>.\<close> and \<open>..\<close> the old path has, the
  new buffer holds the path of the components that remain when they are carried out from the root,
  a \<open>..\<close> at the root staying there; the root itself is \<open>/\<close> and no other path ends with a slash.
  Components have at most 15 characters, and the buffer has room for the old path without its
  superfluous slashes.
\<close>

theorem wash_path_normal:
  assumes "terminated old" and "old ! 0 = 47" and "\<forall>c \<in> set (comps (cstr old)). length c \<le> 15"
    and "length (path_of (comps (cstr old))) < length new" and "length new < 2 ^ 32"
  shows "\<exists>p. wash_path old new = Inr p \<and> length p = length new \<and> terminated p \<and>
    cstr p = path_of (foldl step_comp [] (comps (cstr old)))"
proof -
  have old: "ld old 0 = Inr 47" using assms(1,2) by (cases old) auto
  have n: "2 \<le> length new" "weight (comps (cstr old)) < length new" using assms(4) by (simp_all add: length_path_of)
  have e: "new \<noteq> []" using n(1) by auto
  have g: "\<forall>c \<in> set (comps (cstr old)). good_comp c" using comps_good [OF assms(3)] .
  show ?thesis
  proof (cases "comps (cstr old)")
    case Nil
    then obtain q where "path_parse old (replicate name_len 0) = Inr (q, replicate name_len 0)"
      using path_parse_step [OF assms(1)] by auto
    moreover have "st new 0 47 = Inr (new[0 := 47])" "st (new[0 := 47]) 1 0 = Inr (new[0 := 47, 1 := 0])"
      using n(1) e by auto
    ultimately show ?thesis using old Nil holds_path_root [OF n(1)]
      unfolding wash_path_def by (simp add: name_len_def holds_path_def)
  next
    case (Cons c cs)
    then have c: "good_comp c" "\<forall>c \<in> set cs. good_comp c" using g by simp_all
    then have "length c \<le> 16" by (simp add: good_comp_def)
    then obtain q where q: "path_parse old (replicate name_len 0) = Inr (Some q, c @ replicate (16 - length c) 0)"
      "terminated q" "comps (cstr q) = cs" "hd c \<noteq> 0" "c \<noteq> []"
      using path_parse_step [OF assms(1)] unfolding Cons by auto
    have zero: "st new 0 0 = Inr (new[0 := 0])" using e by simp
    have "cstr (new[0 := 0]) = []" "terminated (new[0 := 0])" using e by (cases new; simp)+
    then obtain p0 where p0: "strcat (Some (new[0 := 0])) (Some [47, 0]) = Inr p0" "holds_path p0 []" "length p0 = length new"
      using strcat_eq [of "new[0 := 0]" "[47, 0]"] n(1) cstr_append_zero [of "[47]"] by (auto simp: holds_path_def path_of_def simp del: strcat.simps)
    then obtain p where "wash_loop (Some q) (c @ replicate (16 - length c) 0) p0 = Inr p"
      "holds_path p (foldl step_comp [] (c # cs))" "length p = length new"
      using wash_loop_eq [OF q(2) c(1), of p0 "[]"] q(3) c(2) n(2) assms(5) Cons by auto
    then show ?thesis using old q zero p0(1) Cons
      unfolding wash_path_def by (auto simp: holds_path_def simp del: strcat.simps)
  qed
qed

theorem wash_path_normal_witness:
  "\<exists>p. wash_path [47, 47, 97, 47, 46, 47, 98, 47, 46, 46, 47, 99, 0] (replicate 512 0) = Inr p \<and>
     cstr p = [47, 97, 47, 99]"
proof -
  have c: "comps (cstr [47, 47, 97, 47, 46, 47, 98, 47, 46, 46, 47, 99, 0]) = [[97], [46], [98], [46, 46], [99 :: u8]]"
    by (simp add: comps_def)
  show ?thesis
    using wash_path_normal [of "[47, 47, 97, 47, 46, 47, 98, 47, 46, 46, 47, 99, 0]" "replicate 512 0"]
    unfolding c by (auto simp: path_of_def step_comp_def)
qed

end
