(* ===== verification/Syscall.thy ===== *)
theory Syscall
  imports Prelude
begin

text \<open>
  The system call interface: the numbers of \<open>lib/user/syscall.h\<close>, the wrappers of
  \<open>lib/user/syscall.c\<close>, the table that \<open>syscall_init\<close> of \<open>userprog/syscall-init.c\<close> fills, and the
  dispatch in \<open>syscall_handler\<close> of \<open>kernel/kernel.S\<close>.

  A wrapper loads \<open>eax\<close> with the number and \<open>ebx\<close>, \<open>ecx\<close>, \<open>edx\<close> with its arguments; the registers
  it does not set hold what they held before.  The handler pushes the three registers and calls
  the entry of the table, which finds its parameters there; its result comes back in \<open>eax\<close>.
  What a handler does is the model of the function it names, in the other theories.
\<close>

section \<open>Numbers and handlers\<close>

datatype syscall_nr =
  SYS_GETPID | SYS_WRITE | SYS_MALLOC | SYS_FREE | SYS_FORK | SYS_CLEAR | SYS_PUTCHAR | SYS_READ | SYS_GETCWD
  | SYS_OPEN | SYS_CLOSE | SYS_LSEEK | SYS_UNLINK | SYS_MKDIR | SYS_OPENDIR | SYS_CLOSEDIR | SYS_CHDIR | SYS_RMDIR
  | SYS_READDIR | SYS_REWINDDIR | SYS_STAT | SYS_PS | SYS_EXECV

datatype handler =
  Sys_getpid | Sys_write | Sys_malloc | Sys_free | Sys_fork | Sys_read | Console_put_char | Cls_screen | Sys_getcwd
  | Sys_open | Sys_close | Sys_lseek | Sys_unlink | Sys_mkdir | Sys_opendir | Sys_closedir | Sys_chdir | Sys_rmdir
  | Sys_readdir | Sys_rewinddir | Sys_stat | Sys_ps | Sys_execv

fun nr :: "syscall_nr \<Rightarrow> nat" where
  "nr SYS_GETPID = 0" | "nr SYS_WRITE = 1" | "nr SYS_MALLOC = 2" | "nr SYS_FREE = 3" | "nr SYS_FORK = 4"
| "nr SYS_CLEAR = 5" | "nr SYS_PUTCHAR = 6" | "nr SYS_READ = 7" | "nr SYS_GETCWD = 8" | "nr SYS_OPEN = 9"
| "nr SYS_CLOSE = 10" | "nr SYS_LSEEK = 11" | "nr SYS_UNLINK = 12" | "nr SYS_MKDIR = 13" | "nr SYS_OPENDIR = 14"
| "nr SYS_CLOSEDIR = 15" | "nr SYS_CHDIR = 16" | "nr SYS_RMDIR = 17" | "nr SYS_READDIR = 18"
| "nr SYS_REWINDDIR = 19" | "nr SYS_STAT = 20" | "nr SYS_PS = 21" | "nr SYS_EXECV = 22"

definition SYSCALL_NR :: nat where
  "SYSCALL_NR = 32"

definition syscall_init :: "handler option list" where
  "syscall_init =
     (replicate SYSCALL_NR None)
       [nr SYS_GETPID := Some Sys_getpid,
        nr SYS_WRITE := Some Sys_write,
        nr SYS_MALLOC := Some Sys_malloc,
        nr SYS_FREE := Some Sys_free,
        nr SYS_FORK := Some Sys_fork,
        nr SYS_READ := Some Sys_read,
        nr SYS_PUTCHAR := Some Console_put_char,
        nr SYS_CLEAR := Some Cls_screen,
        nr SYS_GETCWD := Some Sys_getcwd,
        nr SYS_OPEN := Some Sys_open,
        nr SYS_CLOSE := Some Sys_close,
        nr SYS_LSEEK := Some Sys_lseek,
        nr SYS_UNLINK := Some Sys_unlink,
        nr SYS_MKDIR := Some Sys_mkdir,
        nr SYS_OPENDIR := Some Sys_opendir,
        nr SYS_CLOSEDIR := Some Sys_closedir,
        nr SYS_CHDIR := Some Sys_chdir,
        nr SYS_RMDIR := Some Sys_rmdir,
        nr SYS_READDIR := Some Sys_readdir,
        nr SYS_REWINDDIR := Some Sys_rewinddir,
        nr SYS_STAT := Some Sys_stat,
        nr SYS_PS := Some Sys_ps,
        nr SYS_EXECV := Some Sys_execv]"

text \<open>The number of parameters of each handler, and whether it returns a value.\<close>

fun parameters :: "handler \<Rightarrow> nat" where
  "parameters Sys_getpid = 0" | "parameters Sys_write = 3" | "parameters Sys_malloc = 1" | "parameters Sys_free = 1"
| "parameters Sys_fork = 0" | "parameters Sys_read = 3" | "parameters Console_put_char = 1" | "parameters Cls_screen = 0"
| "parameters Sys_getcwd = 2" | "parameters Sys_open = 2" | "parameters Sys_close = 1" | "parameters Sys_lseek = 3"
| "parameters Sys_unlink = 1" | "parameters Sys_mkdir = 1" | "parameters Sys_opendir = 1" | "parameters Sys_closedir = 1"
| "parameters Sys_chdir = 1" | "parameters Sys_rmdir = 1" | "parameters Sys_readdir = 1" | "parameters Sys_rewinddir = 1"
| "parameters Sys_stat = 2" | "parameters Sys_ps = 0" | "parameters Sys_execv = 2"

fun returns_value :: "handler \<Rightarrow> bool" where
  "returns_value h \<longleftrightarrow> h \<notin> {Sys_free, Console_put_char, Cls_screen, Sys_rewinddir, Sys_ps}"

section \<open>Wrappers\<close>

record regs =
  eax :: u32
  ebx :: u32
  ecx :: u32
  edx :: u32

definition syscall0 :: "syscall_nr \<Rightarrow> regs \<Rightarrow> regs" where
  "syscall0 n r = r\<lparr>eax := of_nat (nr n)\<rparr>"

definition syscall1 :: "syscall_nr \<Rightarrow> u32 \<Rightarrow> regs \<Rightarrow> regs" where
  "syscall1 n a r = r\<lparr>eax := of_nat (nr n), ebx := a\<rparr>"

definition syscall2 :: "syscall_nr \<Rightarrow> u32 \<Rightarrow> u32 \<Rightarrow> regs \<Rightarrow> regs" where
  "syscall2 n a b r = r\<lparr>eax := of_nat (nr n), ebx := a, ecx := b\<rparr>"

definition syscall3 :: "syscall_nr \<Rightarrow> u32 \<Rightarrow> u32 \<Rightarrow> u32 \<Rightarrow> regs \<Rightarrow> regs" where
  "syscall3 n a b c r = r\<lparr>eax := of_nat (nr n), ebx := a, ecx := b, edx := c\<rparr>"

datatype user_call =
  Getpid | Write u32 u32 u32 | Malloc u32 | Free u32 | Fork | Read u32 u32 u32 | Putchar u8 | Clear | Getcwd u32 u32
  | Open u32 u8 | Close u32 | Lseek u32 u32 u8 | Unlink u32 | Mkdir u32 | Opendir u32 | Closedir u32 | Rmdir u32
  | Readdir u32 | Rewinddir u32 | Stat u32 u32 | Chdir u32 | Ps | ExecvCall u32 u32

text \<open>\<open>char\<close> is signed and extended with its sign.\<close>

fun wrapper :: "user_call \<Rightarrow> regs \<Rightarrow> regs" where
  "wrapper Getpid = syscall0 SYS_GETPID"
| "wrapper (Write fd buf count) = syscall3 SYS_WRITE fd buf count"
| "wrapper (Malloc n) = syscall1 SYS_MALLOC n"
| "wrapper (Free ptr) = syscall1 SYS_FREE ptr"
| "wrapper Fork = syscall0 SYS_FORK"
| "wrapper (Read fd buf count) = syscall3 SYS_READ fd buf count"
| "wrapper (Putchar c) = syscall1 SYS_PUTCHAR (scast c)"
| "wrapper Clear = syscall0 SYS_CLEAR"
| "wrapper (Getcwd buf n) = syscall2 SYS_GETCWD buf n"
| "wrapper (Open pathname flag) = syscall2 SYS_OPEN pathname (ucast flag)"
| "wrapper (Close fd) = syscall1 SYS_CLOSE fd"
| "wrapper (Lseek fd offset whence) = syscall3 SYS_LSEEK fd offset (ucast whence)"
| "wrapper (Unlink pathname) = syscall1 SYS_UNLINK pathname"
| "wrapper (Mkdir pathname) = syscall1 SYS_MKDIR pathname"
| "wrapper (Opendir name) = syscall1 SYS_OPENDIR name"
| "wrapper (Closedir d) = syscall1 SYS_CLOSEDIR d"
| "wrapper (Rmdir pathname) = syscall1 SYS_RMDIR pathname"
| "wrapper (Readdir d) = syscall1 SYS_READDIR d"
| "wrapper (Rewinddir d) = syscall1 SYS_REWINDDIR d"
| "wrapper (Stat path buf) = syscall2 SYS_STAT path buf"
| "wrapper (Chdir path) = syscall1 SYS_CHDIR path"
| "wrapper Ps = syscall0 SYS_PS"
| "wrapper (ExecvCall path argv) = syscall2 SYS_EXECV path argv"

section \<open>Dispatch\<close>

text \<open>
  \<open>call [syscall_table + eax*4]\<close>: an index behind the table takes whatever lies there for an
  address, and an empty entry is a call of address 0.  The parameters are on the stack, the first
  on top.
\<close>

definition syscall_handler :: "handler option list \<Rightarrow> regs \<Rightarrow> (handler \<times> u32 list) res" where
  "syscall_handler table r =
     (if \<not> unat (eax r) < length table then Inl WildPointer
      else case table ! unat (eax r) of
        None \<Rightarrow> Inl WildPointer
      | Some h \<Rightarrow> Inr (h, take (parameters h) [ebx r, ecx r, edx r]))"

text \<open>What each user call asks for: the handler and the parameters it is to see.\<close>

fun meaning :: "user_call \<Rightarrow> handler \<times> u32 list" where
  "meaning Getpid = (Sys_getpid, [])"
| "meaning (Write fd buf count) = (Sys_write, [fd, buf, count])"
| "meaning (Malloc n) = (Sys_malloc, [n])"
| "meaning (Free ptr) = (Sys_free, [ptr])"
| "meaning Fork = (Sys_fork, [])"
| "meaning (Read fd buf count) = (Sys_read, [fd, buf, count])"
| "meaning (Putchar c) = (Console_put_char, [scast c])"
| "meaning Clear = (Cls_screen, [])"
| "meaning (Getcwd buf n) = (Sys_getcwd, [buf, n])"
| "meaning (Open pathname flag) = (Sys_open, [pathname, ucast flag])"
| "meaning (Close fd) = (Sys_close, [fd])"
| "meaning (Lseek fd offset whence) = (Sys_lseek, [fd, offset, ucast whence])"
| "meaning (Unlink pathname) = (Sys_unlink, [pathname])"
| "meaning (Mkdir pathname) = (Sys_mkdir, [pathname])"
| "meaning (Opendir name) = (Sys_opendir, [name])"
| "meaning (Closedir d) = (Sys_closedir, [d])"
| "meaning (Rmdir pathname) = (Sys_rmdir, [pathname])"
| "meaning (Readdir d) = (Sys_readdir, [d])"
| "meaning (Rewinddir d) = (Sys_rewinddir, [d])"
| "meaning (Stat path buf) = (Sys_stat, [path, buf])"
| "meaning (Chdir path) = (Sys_chdir, [path])"
| "meaning Ps = (Sys_ps, [])"
| "meaning (ExecvCall path argv) = (Sys_execv, [path, argv])"

lemma table_length: "length syscall_init = 32"
  by (simp add: syscall_init_def SYSCALL_NR_def)

lemma nr_less: "nr n < 23"
  by (cases n) simp_all

lemma unat_nr: "unat (of_nat (nr n) :: u32) = nr n"
  using nr_less [of n] by (intro unat_of_nat_small) simp

fun handler_of :: "syscall_nr \<Rightarrow> handler" where
  "handler_of SYS_GETPID = Sys_getpid" | "handler_of SYS_WRITE = Sys_write" | "handler_of SYS_MALLOC = Sys_malloc"
| "handler_of SYS_FREE = Sys_free" | "handler_of SYS_FORK = Sys_fork" | "handler_of SYS_CLEAR = Cls_screen"
| "handler_of SYS_PUTCHAR = Console_put_char" | "handler_of SYS_READ = Sys_read" | "handler_of SYS_GETCWD = Sys_getcwd"
| "handler_of SYS_OPEN = Sys_open" | "handler_of SYS_CLOSE = Sys_close" | "handler_of SYS_LSEEK = Sys_lseek"
| "handler_of SYS_UNLINK = Sys_unlink" | "handler_of SYS_MKDIR = Sys_mkdir" | "handler_of SYS_OPENDIR = Sys_opendir"
| "handler_of SYS_CLOSEDIR = Sys_closedir" | "handler_of SYS_CHDIR = Sys_chdir" | "handler_of SYS_RMDIR = Sys_rmdir"
| "handler_of SYS_READDIR = Sys_readdir" | "handler_of SYS_REWINDDIR = Sys_rewinddir" | "handler_of SYS_STAT = Sys_stat"
| "handler_of SYS_PS = Sys_ps" | "handler_of SYS_EXECV = Sys_execv"

lemma table_entry: "syscall_init ! nr n = Some (handler_of n)"
  by (cases n) (simp_all add: syscall_init_def SYSCALL_NR_def)

lemma dispatch:
  "eax r = of_nat (nr n) \<Longrightarrow>
   syscall_handler syscall_init r = Inr (handler_of n, take (parameters (handler_of n)) [ebx r, ecx r, edx r])"
  using nr_less [of n] by (simp add: syscall_handler_def table_length unat_nr table_entry)

lemma dispatch_syscalls:
  "syscall_handler syscall_init (syscall0 n r) = Inr (handler_of n, take (parameters (handler_of n)) [ebx r, ecx r, edx r])"
  "syscall_handler syscall_init (syscall1 n a r) = Inr (handler_of n, take (parameters (handler_of n)) [a, ecx r, edx r])"
  "syscall_handler syscall_init (syscall2 n a b r) = Inr (handler_of n, take (parameters (handler_of n)) [a, b, edx r])"
  "syscall_handler syscall_init (syscall3 n a b c r) = Inr (handler_of n, take (parameters (handler_of n)) [a, b, c])"
  by (simp_all add: dispatch [of _ n] syscall0_def syscall1_def syscall2_def syscall3_def)

text \<open>
  C40: the system call interface is well typed.  Every wrapper of the user library reaches the
  function of its name with exactly the arguments it was given, in their order and as many as the
  function has, whatever the registers held before; the numbers are different and the entries they
  do not name are empty.
\<close>

theorem syscalls_well_typed:
  "syscall_handler syscall_init (wrapper c r) = Inr (meaning c) \<and>
   length (snd (meaning c)) = parameters (fst (meaning c)) \<and>
   (nr m = nr n \<longleftrightarrow> m = n) \<and>
   (k < 32 \<longrightarrow> (syscall_init ! k = None \<longleftrightarrow> k \<notin> range nr))"
proof -
  have 1: "syscall_handler syscall_init (wrapper c r) = Inr (meaning c)"
    by (cases c) (simp_all add: dispatch_syscalls)
  have 2: "length (snd (meaning c)) = parameters (fst (meaning c))"
    by (cases c) simp_all
  have 3: "nr m = nr n \<longleftrightarrow> m = n"
    by (cases m; cases n) simp_all
  have 4: "syscall_init ! k = None \<longleftrightarrow> k \<notin> range nr" if "k < 32"
  proof (cases "k \<in> range nr")
    case True
    then show ?thesis by (auto simp: table_entry)
  next
    case False
    then have "\<forall>n. nr n \<noteq> k" by auto
    then have "syscall_init ! k = replicate SYSCALL_NR None ! k"
      by (simp only: syscall_init_def nth_list_update_neq not_False_eq_True)
    then show ?thesis using False that by (simp add: SYSCALL_NR_def)
  qed
  show ?thesis using 1 2 3 4 by blast
qed

theorem syscalls_well_typed_witness:
  "syscall_handler syscall_init (wrapper (Lseek 3 0x100 1) \<lparr>eax = 7, ebx = 8, ecx = 9, edx = 10\<rparr>) =
     Inr (Sys_lseek, [3, 0x100, 1]) \<and> syscall_init ! 23 = None"
proof -
  have "(23 :: nat) \<notin> range nr" using nr_less by (metis nat_neq_iff rangeE)
  then show ?thesis
    using syscalls_well_typed [of "Lseek 3 0x100 1" "\<lparr>eax = 7, ebx = 8, ecx = 9, edx = 10\<rparr>" _ _ 23] by simp
qed

end
