(* ===== verification/Ata.thy ===== *)
theory Ata
  imports Ide
begin

text \<open>
  The disk driver on a drive that keeps to the documented protocol: \<open>ide_read\<close> and \<open>ide_write\<close> of one
  sector against \<open>disk_read\<close> and \<open>disk_write\<close>.

  The protocol is the ATA command block with PIO transfers: five registers that take a count of
  sectors, a 28-bit address and the choice of the drive, a command register, a status register and a
  data register.  An \<open>ata\<close> view says what a device state has in its registers and on its sectors, which
  sectors it can read and write without an error, and how far the command is that it is executing.

  A command to read makes the device fetch the first sector.  When it has it, it raises its interrupt
  and offers that one sector, 256 words; when they are read it fetches the next.  A command to write
  makes the device prepare, during which it may or may not show \<open>BSY\<close>; when it has stopped to, it
  takes one sector, stores it and raises its interrupt.  Nothing is promised of a transfer of more
  words than the device offers, which is what the driver asks for when it wants more than one
  sector, so there is no refinement for longer transfers; the last section has a drive that
  keeps to the protocol and returns wrong bytes then.
\<close>

section \<open>The protocol\<close>

text \<open>The drive, the next sector and the number of sectors left; in \<open>Storing\<close> the sector's bytes.\<close>

datatype transfer =
    NoTransfer
  | Fetching bool u32 nat
  | ToHost bool u32 nat
  | Preparing bool u32 nat
  | FromHost bool u32 nat
  | Storing bool u32 nat "u8 list"

record 'd ata =
  ata_regs :: "'d \<Rightarrow> u16 \<Rightarrow> u8"
  ata_sectors :: "'d \<Rightarrow> bool \<Rightarrow> u32 \<Rightarrow> u8 list"
  ata_good :: "bool \<Rightarrow> u32 \<Rightarrow> bool"
  ata_transfer :: "'d \<Rightarrow> transfer"

text \<open>The drive, the sector and the number of sectors that the registers 2 to 6 name.\<close>

definition named_slave :: "(u16 \<Rightarrow> u8) \<Rightarrow> bool" where
  "named_slave r = bit (r 6) 4"

definition named_lba :: "(u16 \<Rightarrow> u8) \<Rightarrow> u32" where
  "named_lba r = ucast (r 3) OR push_bit 8 (ucast (r 4)) OR push_bit 16 (ucast (r 5)) OR push_bit 24 (ucast (r 6 AND 0xf))"

definition named_count :: "(u16 \<Rightarrow> u8) \<Rightarrow> nat" where
  "named_count r = (if r 2 = 0 then 256 else unat (r 2))"

text \<open>The registers may be written, and a command given, to a device that executes none.\<close>

definition ata_registers :: "'d drive \<Rightarrow> u16 \<Rightarrow> 'd ata \<Rightarrow> bool" where
  "ata_registers D base A \<longleftrightarrow>
     (\<forall>h b. \<forall>p \<in> {2, 3, 4, 5, 6}. ata_transfer A h = NoTransfer \<longrightarrow>
        (let h' = drive_out D h (base + p) b
         in ata_regs A h' = (ata_regs A h)(p := b) \<and> ata_sectors A h' = ata_sectors A h \<and>
            ata_transfer A h' = NoTransfer))"

definition ata_commands :: "'d drive \<Rightarrow> u16 \<Rightarrow> 'd ata \<Rightarrow> bool" where
  "ata_commands D base A \<longleftrightarrow>
     (\<forall>h. ata_transfer A h = NoTransfer \<longrightarrow>
        (let r = ata_regs A h; h1 = drive_out D h (base + 7) 0x20; h2 = drive_out D h (base + 7) 0x30
         in ata_transfer A h1 = Fetching (named_slave r) (named_lba r) (named_count r) \<and>
            ata_transfer A h2 = Preparing (named_slave r) (named_lba r) (named_count r) \<and>
            ata_sectors A h1 = ata_sectors A h \<and> ata_sectors A h2 = ata_sectors A h))"

text \<open>The status register: bit 7 is \<open>BSY\<close>, bit 3 is \<open>DRQ\<close>.\<close>

definition ata_status :: "'d drive \<Rightarrow> u16 \<Rightarrow> 'd ata \<Rightarrow> bool" where
  "ata_status D base A \<longleftrightarrow>
     (\<forall>h. let (b, h') = drive_in D h (base + 7)
        in ata_sectors A h' = ata_sectors A h \<and>
           (case ata_transfer A h of
              NoTransfer \<Rightarrow> b AND 0x80 = 0 \<and> b AND 0x8 = 0 \<and> ata_transfer A h' = NoTransfer
            | ToHost slave lba n \<Rightarrow> b AND 0x80 = 0 \<and> b AND 0x8 \<noteq> 0 \<and> ata_transfer A h' = ata_transfer A h
            | FromHost slave lba n \<Rightarrow> b AND 0x80 = 0 \<and> b AND 0x8 \<noteq> 0 \<and> ata_transfer A h' = ata_transfer A h
            | Preparing slave lba n \<Rightarrow>
                b AND 0x80 = 0 \<longrightarrow> ata_good A slave lba \<longrightarrow>
                  b AND 0x8 \<noteq> 0 \<and> ata_transfer A h' = FromHost slave lba n
            | _ \<Rightarrow> True))"

definition ata_reading :: "'d drive \<Rightarrow> u16 \<Rightarrow> 'd ata \<Rightarrow> bool" where
  "ata_reading D base A \<longleftrightarrow>
     (\<forall>h slave lba n. ata_transfer A h = Fetching slave lba n \<longrightarrow>
        (\<exists>h'. drive_wait D h = Some h' \<and> ata_sectors A h' = ata_sectors A h \<and>
           ata_transfer A h' = (if ata_good A slave lba then ToHost slave lba n else NoTransfer))) \<and>
     (\<forall>h slave lba n. ata_transfer A h = ToHost slave lba n \<longrightarrow>
        (let (bs, h') = drive_insw D h base 256
         in bs = ata_sectors A h slave lba \<and> ata_sectors A h' = ata_sectors A h \<and>
            ata_transfer A h' = (if n = 1 then NoTransfer else Fetching slave (lba + 1) (n - 1))))"

definition store_sector :: "(bool \<Rightarrow> u32 \<Rightarrow> u8 list) \<Rightarrow> bool \<Rightarrow> u32 \<Rightarrow> u8 list \<Rightarrow> bool \<Rightarrow> u32 \<Rightarrow> u8 list" where
  "store_sector f slave lba bs = f(slave := (f slave)(lba := bs))"

text \<open>While a sector is being stored, what is on it is not said.\<close>

definition ata_writing :: "'d drive \<Rightarrow> u16 \<Rightarrow> 'd ata \<Rightarrow> bool" where
  "ata_writing D base A \<longleftrightarrow>
     (\<forall>h slave lba n bs. ata_transfer A h = FromHost slave lba n \<and> length bs = 512 \<longrightarrow>
        (let h' = drive_outsw D h base bs
         in ata_transfer A h' = Storing slave lba n bs \<and>
            (\<forall>x l. (x, l) \<noteq> (slave, lba) \<longrightarrow> ata_sectors A h' x l = ata_sectors A h x l))) \<and>
     (\<forall>h slave lba n bs. ata_transfer A h = Storing slave lba n bs \<and> ata_good A slave lba \<longrightarrow>
        (\<exists>h'. drive_wait D h = Some h' \<and> ata_sectors A h' = store_sector (ata_sectors A h) slave lba bs \<and>
           ata_transfer A h' = (if n = 1 then NoTransfer else FromHost slave (lba + 1) (n - 1))))"

definition ata_drive :: "'d drive \<Rightarrow> u16 \<Rightarrow> 'd ata \<Rightarrow> bool" where
  "ata_drive D base A \<longleftrightarrow>
     ata_registers D base A \<and> ata_commands D base A \<and> ata_status D base A \<and> ata_reading D base A \<and>
     ata_writing D base A"

lemma ata_reg:
  assumes "ata_drive D base A" and "ata_transfer A h = NoTransfer" and "p \<in> {2, 3, 4, 5, 6}"
  shows "ata_regs A (drive_out D h (base + p) b) = (ata_regs A h)(p := b)"
    "ata_sectors A (drive_out D h (base + p) b) = ata_sectors A h"
    "ata_transfer A (drive_out D h (base + p) b) = NoTransfer"
proof -
  have "ata_registers D base A" using assms(1) by (simp add: ata_drive_def)
  then show "ata_regs A (drive_out D h (base + p) b) = (ata_regs A h)(p := b)"
    "ata_sectors A (drive_out D h (base + p) b) = ata_sectors A h"
    "ata_transfer A (drive_out D h (base + p) b) = NoTransfer"
    using assms(2,3) unfolding ata_registers_def Let_def by blast+
qed

lemma ata_command:
  assumes "ata_drive D base A" and "ata_transfer A h = NoTransfer"
  shows "ata_sectors A (drive_out D h (base + 7) 0x20) = ata_sectors A h"
    "ata_sectors A (drive_out D h (base + 7) 0x30) = ata_sectors A h"
    "ata_transfer A (drive_out D h (base + 7) 0x20) =
       Fetching (named_slave (ata_regs A h)) (named_lba (ata_regs A h)) (named_count (ata_regs A h))"
    "ata_transfer A (drive_out D h (base + 7) 0x30) =
       Preparing (named_slave (ata_regs A h)) (named_lba (ata_regs A h)) (named_count (ata_regs A h))"
  using assms by (auto simp: ata_drive_def ata_commands_def Let_def)

text \<open>A look at the status register, in each state in which the driver takes one.\<close>

lemma ata_look:
  assumes "ata_drive D base A" and "drive_in D h (base + 7) = (b, h')"
  shows "ata_sectors A h' = ata_sectors A h"
    and "ata_transfer A h = NoTransfer \<Longrightarrow> b AND 0x80 = 0 \<and> b AND 0x8 = 0 \<and> ata_transfer A h' = NoTransfer"
    and "ata_transfer A h = ToHost slave lba n \<Longrightarrow>
      b AND 0x80 = 0 \<and> b AND 0x8 \<noteq> 0 \<and> ata_transfer A h' = ToHost slave lba n"
    and "ata_transfer A h = FromHost slave lba n \<Longrightarrow>
      b AND 0x80 = 0 \<and> b AND 0x8 \<noteq> 0 \<and> ata_transfer A h' = FromHost slave lba n"
    and "ata_transfer A h = Preparing slave lba n \<Longrightarrow> ata_good A slave lba \<Longrightarrow> b AND 0x80 = 0 \<Longrightarrow>
      ata_transfer A h' = FromHost slave lba n"
proof -
  have "let (b, h') = drive_in D h (base + 7)
        in ata_sectors A h' = ata_sectors A h \<and>
           (case ata_transfer A h of
              NoTransfer \<Rightarrow> b AND 0x80 = 0 \<and> b AND 0x8 = 0 \<and> ata_transfer A h' = NoTransfer
            | ToHost slave lba n \<Rightarrow> b AND 0x80 = 0 \<and> b AND 0x8 \<noteq> 0 \<and> ata_transfer A h' = ata_transfer A h
            | FromHost slave lba n \<Rightarrow> b AND 0x80 = 0 \<and> b AND 0x8 \<noteq> 0 \<and> ata_transfer A h' = ata_transfer A h
            | Preparing slave lba n \<Rightarrow>
                b AND 0x80 = 0 \<longrightarrow> ata_good A slave lba \<longrightarrow>
                  b AND 0x8 \<noteq> 0 \<and> ata_transfer A h' = FromHost slave lba n
            | _ \<Rightarrow> True)"
    using assms(1) unfolding ata_drive_def ata_status_def by blast
  then show "ata_sectors A h' = ata_sectors A h"
    and "ata_transfer A h = NoTransfer \<Longrightarrow> b AND 0x80 = 0 \<and> b AND 0x8 = 0 \<and> ata_transfer A h' = NoTransfer"
    and "ata_transfer A h = ToHost slave lba n \<Longrightarrow>
      b AND 0x80 = 0 \<and> b AND 0x8 \<noteq> 0 \<and> ata_transfer A h' = ToHost slave lba n"
    and "ata_transfer A h = FromHost slave lba n \<Longrightarrow>
      b AND 0x80 = 0 \<and> b AND 0x8 \<noteq> 0 \<and> ata_transfer A h' = FromHost slave lba n"
    and "ata_transfer A h = Preparing slave lba n \<Longrightarrow> ata_good A slave lba \<Longrightarrow> b AND 0x80 = 0 \<Longrightarrow>
      ata_transfer A h' = FromHost slave lba n"
    unfolding assms(2) Let_def by simp_all
qed

lemma ata_fetched:
  assumes "ata_drive D base A" and "ata_transfer A h = Fetching slave lba n"
  obtains h' where "drive_wait D h = Some h'" "ata_sectors A h' = ata_sectors A h"
    "ata_transfer A h' = (if ata_good A slave lba then ToHost slave lba n else NoTransfer)"
  using assms unfolding ata_drive_def ata_reading_def by blast



section \<open>A driver at rest\<close>

text \<open>
  Channel \<open>c\<close> is set up, nobody is in it or waits for it, and the drive behind its ports keeps to
  the protocol; \<open>chan_ready\<close> also says that the device executes no command.
\<close>

definition chan_free :: "'d drive \<Rightarrow> 'd ata \<Rightarrow> ('d, 'a) ide_scheme \<Rightarrow> nat \<Rightarrow> bool" where
  "chan_free D A s c \<longleftrightarrow>
     c < 2 \<and> c < length (channels s) \<and> irq_no (channels s ! c) = 0x2e + of_nat c \<and>
     ata_drive D (port_base (channels s ! c)) A \<and> cur s \<noteq> NULL \<and>
     lock_holder s (chan_lock c) = NULL \<and> holder_repeat_nr s (chan_lock c) = 0 \<and>
     sem_value s (semaphore (chan_lock c)) = 1 \<and> sem_value s (disk_done c) = 0 \<and>
     list_rep s (waiters (semaphore (chan_lock c))) [] \<and> list_rep s (waiters (disk_done c)) []"

definition chan_ready :: "'d drive \<Rightarrow> 'd ata \<Rightarrow> ('d, 'a) ide_scheme \<Rightarrow> nat \<Rightarrow> bool" where
  "chan_ready D A s c \<longleftrightarrow> chan_free D A s c \<and> ata_transfer A (hw s) = NoTransfer"

text \<open>The same, by the thread that is in the channel.\<close>

definition chan_mine :: "'d drive \<Rightarrow> 'd ata \<Rightarrow> ('d, 'a) ide_scheme \<Rightarrow> nat \<Rightarrow> bool" where
  "chan_mine D A s c \<longleftrightarrow>
     c < 2 \<and> c < length (channels s) \<and> irq_no (channels s ! c) = 0x2e + of_nat c \<and>
     ata_drive D (port_base (channels s ! c)) A \<and>
     sem_value s (disk_done c) = 0 \<and> list_rep s (waiters (disk_done c)) []"

text \<open>What the driver changes while it is in the channel: the device and the flag.\<close>

definition dev_at :: "('d, 'a) ide_scheme \<Rightarrow> nat \<Rightarrow> bool \<Rightarrow> 'd \<Rightarrow> ('d, 'a) ide_scheme" where
  "dev_at s c b h = (upd_chan s c (\<lambda>ch. ch\<lparr>expecting_intr := b\<rparr>))\<lparr>hw := h\<rparr>"

lemma dev_at_frame [simp]:
  "hw (dev_at s c b h) = h" "length (channels (dev_at s c b h)) = length (channels s)"
  "cur (dev_at s c b h) = cur s" "sem_value (dev_at s c b h) = sem_value s"
  "lock_holder (dev_at s c b h) = lock_holder s" "holder_repeat_nr (dev_at s c b h) = holder_repeat_nr s"
  "nxt (dev_at s c b h) = nxt s" "prv (dev_at s c b h) = prv s" "eflags (dev_at s c b h) = eflags s"
  by (simp_all add: dev_at_def upd_chan_def)

lemma dev_at_chan [simp]:
  assumes "c < length (channels s)"
  shows "irq_no (channels (dev_at s c b h) ! c) = irq_no (channels s ! c)"
    "port_base (channels (dev_at s c b h) ! c) = port_base (channels s ! c)"
    "devices (channels (dev_at s c b h) ! c) = devices (channels s ! c)"
    "expecting_intr (channels (dev_at s c b h) ! c) = b"
  using assms by (simp_all add: dev_at_def upd_chan_def)

lemma dev_at_twice [simp]: "dev_at (dev_at s c b h) c b' h' = dev_at s c b' h'"
proof (cases "c < length (channels s)")
  case True
  then show ?thesis by (simp add: dev_at_def upd_chan_def)
next
  case False
  then show ?thesis by (simp add: dev_at_def upd_chan_def list_update_beyond)
qed

lemma list_rep_dev_at [simp]: "list_rep (dev_at s c b h) l xs = list_rep s l xs"
  by (simp add: list_rep_def)

lemma disk_of_dev_at [simp]: "c < length (channels s) \<Longrightarrow> disk_of (dev_at s c b h) (c, k) = disk_of s (c, k)"
  by (simp add: disk_of_def chan_of_def)

lemma chan_mine_dev_at [simp]: "chan_mine D A (dev_at s c b h) c \<longleftrightarrow> chan_mine D A s c"
  by (auto simp: chan_mine_def)

lemma disk_of_hw [simp]: "disk_of (s\<lparr>hw := h\<rparr>) d = disk_of s d"
  by (simp add: disk_of_def chan_of_def)

lemma hw_dev_at: "c < length (channels s) \<Longrightarrow> s\<lparr>hw := h\<rparr> = dev_at s c (expecting_intr (channels s ! c)) h"
  by (simp add: dev_at_def upd_chan_def)

section \<open>Addressing a sector\<close>

lemma lba_bits: "lba \<le> max_lba \<Longrightarrow> bit lba k \<Longrightarrow> k < 28"
proof -
  assume "lba \<le> max_lba" "bit lba k"
  then have "unat lba < 2 ^ 28" and k: "bit (unat lba) k"
    by (simp_all add: max_lba_def word_le_nat_alt bit_unsigned_iff bit_imp_possible_bit)
  then have "take_bit 28 (unat lba) = unat lba" by (simp add: take_bit_nat_eq_self)
  with k show ?thesis by (metis bit_take_bit_iff)
qed

definition device_byte :: "bool \<Rightarrow> u32 \<Rightarrow> u8" where
  "device_byte slave lba =
     ucast (ucast (BIT_DEV_MBS OR BIT_DEV_LBA OR (if slave then BIT_DEV_DEV else 0)) OR drop_bit 24 lba)"

lemma device_register:
  assumes "lba \<le> max_lba"
  shows "bit (device_byte slave lba) 4 = slave" and "device_byte slave lba AND 0xf = ucast (drop_bit 24 lba)"
proof -
  have high: "\<not> bit lba (24 + i)" if "4 \<le> i" for i using lba_bits [OF assms(1), of "24 + i"] that by auto
  show "bit (device_byte slave lba) 4 = slave"
    using high [of 4] by (simp add: device_byte_def bit_simps BIT_DEV_MBS_def BIT_DEV_LBA_def BIT_DEV_DEV_def)
  show "device_byte slave lba AND 0xf = ucast (drop_bit 24 lba)"
  proof (rule bit_word_eqI)
    fix i assume "i < LENGTH(8)"
    then have "i = 0 \<or> i = 1 \<or> i = 2 \<or> i = 3 \<or> i = 4 \<or> i = 5 \<or> i = 6 \<or> i = 7" by simp arith
    then show "bit (device_byte slave lba AND 0xf) i = bit (ucast (drop_bit 24 lba) :: u8) i"
      using high [of i] by (elim disjE)
        (simp_all add: device_byte_def bit_simps BIT_DEV_MBS_def BIT_DEV_LBA_def BIT_DEV_DEV_def)
  qed
qed

lemma lba_join:
  assumes "lba \<le> max_lba"
  shows "ucast (ucast lba :: u8) OR push_bit 8 (ucast (ucast (drop_bit 8 lba) :: u8)) OR
    push_bit 16 (ucast (ucast (drop_bit 16 lba) :: u8)) OR push_bit 24 (ucast (ucast (drop_bit 24 lba) :: u8)) = lba"
proof (rule bit_word_eqI)
  fix i assume "i < LENGTH(32)"
  then have i: "i < 32" by simp
  show "bit (ucast (ucast lba :: u8) OR push_bit 8 (ucast (ucast (drop_bit 8 lba) :: u8)) OR
    push_bit 16 (ucast (ucast (drop_bit 16 lba) :: u8)) OR push_bit 24 (ucast (ucast (drop_bit 24 lba) :: u8)) :: u32) i = bit lba i"
  proof -
    consider "i < 8" | "8 \<le> i" "i < 16" | "16 \<le> i" "i < 24" | "24 \<le> i" "i < 32" using i by arith
    then show ?thesis by cases (auto simp: bit_simps)
  qed
qed

lemma count_register: "0 < n \<Longrightarrow> n \<le> 256 \<Longrightarrow> (if (of_nat n :: u8) = 0 then 256 else unat (of_nat n :: u8)) = n"
proof (cases "n = 256")
  case False
  assume "0 < n" "n \<le> 256"
  then have "unat (of_nat n :: u8) = n" using False by (intro unat_of_nat_small) simp
  then show ?thesis using \<open>0 < n\<close> by (metis unat_0 less_irrefl)
qed simp

lemma select_sector_ata:
  assumes "chan_mine D A s c" and "lba \<le> max_lba" and "0 < n" and "n \<le> 256" and "dev_no (disk_of s (c, k)) = 1 \<longleftrightarrow> slave"
    and idle: "ata_transfer A (hw s) = NoTransfer"
  shows "\<exists>h. select_sector D s (c, k) lba (of_nat n) = Inr (dev_at s c (expecting_intr (channels s ! c)) h) \<and>
    ata_sectors A h = ata_sectors A (hw s) \<and> ata_transfer A h = NoTransfer \<and>
    named_slave (ata_regs A h) = slave \<and> named_lba (ata_regs A h) = lba \<and> named_count (ata_regs A h) = n"
proof -
  define base where "base = port_base (channels s ! c)"
  have A: "ata_drive D base A" and c: "c < length (channels s)" using assms(1) by (simp_all add: chan_mine_def base_def)
  define h where "h = drive_out D (drive_out D (drive_out D (drive_out D (drive_out D (hw s) (base + 2) (of_nat n))
    (base + 3) (ucast lba)) (base + 4) (ucast (drop_bit 8 lba))) (base + 5) (ucast (drop_bit 16 lba))) (base + 6) (device_byte slave lba)"
  have "select_sector D s (c, k) lba (of_nat n) = Inr (s\<lparr>hw := h\<rparr>)"
    using assms(2,5) by (cases slave) (simp_all add: select_sector_def Let_def hd_outb_def chan_of_def reg_sect_cnt_def reg_lba_l_def
        reg_lba_m_def reg_lba_h_def reg_dev_def base_def [symmetric] h_def device_byte_def)
  moreover have regs: "ata_regs A h = (ata_regs A (hw s))(2 := of_nat n, 3 := ucast lba, 4 := ucast (drop_bit 8 lba),
      5 := ucast (drop_bit 16 lba), 6 := device_byte slave lba)"
    unfolding h_def by (simp only: ata_reg [OF A] idle insert_iff simp_thms fun_upd_apply)
  moreover have "ata_sectors A h = ata_sectors A (hw s)" "ata_transfer A h = NoTransfer"
    unfolding h_def by (simp_all only: ata_reg [OF A] idle insert_iff simp_thms)
  moreover have "named_slave (ata_regs A h) = slave" "named_lba (ata_regs A h) = lba"
    using device_register [OF assms(2), of slave] lba_join [OF assms(2)]
    by (simp_all add: named_slave_def named_lba_def regs)
  moreover have "named_count (ata_regs A h) = n"
    using count_register [OF assms(3,4)] by (auto simp: named_count_def regs split: if_splits)
  ultimately show ?thesis using c by (auto simp: hw_dev_at)
qed

lemma select_disk_ata:
  assumes "chan_mine D A s c" and "ata_transfer A (hw s) = NoTransfer"
  shows "\<exists>h. select_disk D s (c, k) = dev_at s c (expecting_intr (channels s ! c)) h \<and>
    ata_sectors A h = ata_sectors A (hw s) \<and> ata_transfer A h = NoTransfer"
proof -
  define base where "base = port_base (channels s ! c)"
  have A: "ata_drive D base A" and c: "c < length (channels s)" using assms by (simp_all add: chan_mine_def base_def)
  show ?thesis
    using c ata_reg(2,3) [OF A assms(2), of 6]
    by (auto simp: select_disk_def Let_def hd_outb_def chan_of_def reg_dev_def base_def hw_dev_at)
qed

lemma reg_status_base: "reg_status ch = port_base ch + 7"
  by (simp add: reg_status_def)

lemma dev_at_self: "c < length (channels s) \<Longrightarrow> dev_at s c (expecting_intr (channels s ! c)) (hw s) = s"
  by (simp add: dev_at_def upd_chan_def)

lemma set_value_dev_at: "set_value (dev_at s c b h) p v = dev_at (set_value s p v) c b h"
  by (simp add: set_value_def dev_at_def upd_chan_def)

lemma set_value_chan [simp]: "channels (set_value s p v) = channels s" "hw (set_value s p v) = hw s"
  by (simp_all add: set_value_def)

text \<open>The interrupt comes, its handler posts \<open>disk_done\<close>, and the driver passes it.\<close>

lemma hd_interrupt_ata:
  assumes "chan_mine D A s c" and "expecting_intr (channels s ! c)"
  shows "hd_interrupt D s c = Inr (dev_at (set_value s (disk_done c) 1) c False
    (snd (drive_in D (hw s) (port_base (channels s ! c) + 7))))"
proof -
  have c: "c < 2" "c < length (channels s)" and irq: "irq_no (channels s ! c) = 0x2e + of_nat c"
    and zero: "sem_value s (disk_done c) = 0" and none: "list_rep s (waiters (disk_done c)) []"
    using assms(1) by (simp_all add: chan_mine_def)
  have irq': "irq_no (channels s ! c) = 0x2e \<or> irq_no (channels s ! c) = 0x2f"
    and idx: "unat (irq_no (channels s ! c) - 0x20 - 0xe) = c"
    using c(1) irq by (auto simp: less_2_cases_iff)
  define s1 where "s1 = dev_at (cli s) c False (hw s)"
  have s1: "upd_chan (cli s) c (\<lambda>ch. ch\<lparr>expecting_intr := False\<rparr>) = s1"
    by (simp add: s1_def dev_at_def upd_chan_def cli_def)
  have cli: "channels (cli s) = channels s" "hw (cli s) = hw s" by (simp_all add: cli_def)
  have up: "sema_up s1 (disk_done c) = Inr (set_value s1 (disk_done c) 1)"
    using zero none by (intro sema_up_nobody) (simp_all add: s1_def cli_def list_rep_def)
  define h where "h = snd (drive_in D (hw s) (port_base (channels s ! c) + 7))"
  have inb: "snd (hd_inb D p (set_value s1 q v)) = dev_at (set_value (cli s) q v) c False (snd (drive_in D (hw s) p))" for p q v
    by (simp add: hd_inb_def case_prod_beta s1_def set_value_dev_at) (simp add: dev_at_def upd_chan_def)
  have "intr_hd_handler D (cli s) (irq_no (channels s ! c)) =
      Inr (dev_at (set_value (cli s) (disk_done c) 1) c False h)"
  proof -
    have "port_base (channels (set_value s1 (disk_done c) 1) ! c) = port_base (channels s ! c)"
      using c(2) by (simp add: s1_def cli)
    then show ?thesis
      using irq' idx c(2) assms(2) up
      by (simp add: intr_hd_handler_def Let_def cli s1 reg_status_base inb h_def [symmetric])
  qed
  then show ?thesis
    by (simp add: hd_interrupt_def h_def) (simp add: dev_at_def upd_chan_def set_value_def cli_def)
qed

lemma await_disk_ata:
  assumes "chan_mine D A s c" and "expecting_intr (channels s ! c)" and "drive_wait D (hw s) = Some h"
  shows "await_disk D s c = Inr (dev_at s c False (snd (drive_in D h (port_base (channels s ! c) + 7))))"
proof -
  have c: "c < length (channels s)" and zero: "sem_value s (disk_done c) = 0" using assms(1) by (simp_all add: chan_mine_def)
  define h' where "h' = snd (drive_in D h (port_base (channels s ! c) + 7))"
  have "s\<lparr>hw := h\<rparr> = dev_at s c True h" using c assms(2) by (simp add: hw_dev_at)
  then have "hd_interrupt D (s\<lparr>hw := h\<rparr>) c = Inr (dev_at (set_value s (disk_done c) 1) c False h')"
    using hd_interrupt_ata [of D A "dev_at s c True h" c] assms(1) c
    by (simp add: h'_def set_value_dev_at)
  moreover have "sema_down (dev_at (set_value s (disk_done c) 1) c False h') (disk_done c) = Inr (True, dev_at s c False h')"
  proof -
    have "set_value (set_value s (disk_done c) 1) (disk_done c) 0 = s"
      using zero by (auto simp: set_value_def intro!: sync.equality)
    then show ?thesis by (subst sema_down_free) (simp_all add: set_value_dev_at sched)
  qed
  ultimately show ?thesis using zero assms(3) by (simp add: await_disk_def h'_def)
qed

text \<open>
  Waiting for a busy drive.  \<open>busy_wait\<close> never waits: when the drive is busy at the first
  look, the pause of ten milliseconds fails its assertion, and when it is not, the second look
  decides.
\<close>

theorem busy_wait_looks_once:
  assumes "drive_in D (hw s) (reg_status (chan_of s d)) = (b, h)" and "drive_in D h (reg_status (chan_of s d)) = (b', h')"
  shows "busy_wait D s d =
    (if b AND BIT_STAT_BSY \<noteq> 0 then Inl Panic else Inr (b' AND BIT_STAT_DRQ \<noteq> 0, s\<lparr>hw := h'\<rparr>))"
proof -
  obtain n where n: "(30 * 1000 - 1 :: nat) = Suc n" by (cases "30 * 1000 - 1 :: nat") auto
  have "mtime_sleep t 10 = Inl Panic" for t :: "('a, 'b) ide_scheme"
    by (simp add: mtime_sleep_def sleep_ticks_of_def IRQ0_FREQUENCY_def)
  then show ?thesis
    unfolding busy_wait_def n using assms by (simp add: hd_inb_def Let_def)
qed

section \<open>One command\<close>

lemma cmd_out_dev_at:
  "c < length (channels s) \<Longrightarrow>
   cmd_out D s c cmd = dev_at s c True (drive_out D (hw s) (port_base (channels s ! c) + 7) cmd)"
  by (simp add: cmd_out_def hd_outb_def reg_cmd_def reg_status_def) (simp add: dev_at_def upd_chan_def)

lemma words_of_chunk: "0 < n \<Longrightarrow> n \<le> 256 \<Longrightarrow> unat (size_in_byte (of_nat n) div 2) = 256 * n"
proof -
  assume n: "0 < n" "n \<le> 256"
  have "size_in_byte (of_nat n) = of_nat (n * 512)"
  proof (cases "n = 256")
    case False
    then have "unat (of_nat n :: u8) = n" using n by (intro unat_of_nat_small) simp
    then have "(of_nat n :: u8) \<noteq> 0" "(ucast (of_nat n :: u8) :: u32) = of_nat n"
      using n by (metis unat_0 less_irrefl, metis of_nat_unat)
    then show ?thesis by (simp add: size_in_byte_def)
  qed (simp add: size_in_byte_def)
  moreover have "unat (of_nat (n * 512) :: u32) = n * 512" using n by (intro unat_of_nat_small) simp
  ultimately show ?thesis by (simp add: unat_div_word)
qed

text \<open>
  A command to read \<open>n\<close> sectors, as the body of the loop gives it, gets what the device hands out
  for \<open>n\<close> sectors at once when it offers the first of them.
\<close>

lemma read_command:
  assumes mine: "chan_mine D A s c" and "lba \<le> max_lba" and n: "0 < n" "n \<le> 256"
    and "dev_no (disk_of s (c, k)) = 1 \<longleftrightarrow> slave" and "ata_transfer A (hw s) = NoTransfer"
  shows "\<exists>h. ata_sectors A h = ata_sectors A (hw s) \<and>
    ata_transfer A h = (if ata_good A slave lba then ToHost slave lba n else NoTransfer) \<and>
    rbind (select_sector D s (c, k) lba (of_nat n)) (\<lambda>s.
      rbind (await_disk D (cmd_out D s c CMD_READ_SECTOR) c) (\<lambda>s.
      rbind (busy_wait D s (c, k)) (\<lambda>(ready, s).
        if \<not> ready then Inl Panic else let (data, s) = read_from_sector D s (c, k) (of_nat n) in K data s))) =
    (if ata_good A slave lba
     then case drive_insw D h (port_base (channels s ! c)) (256 * n) of (data, h') \<Rightarrow> K data (dev_at s c False h')
     else Inl Panic)"
proof -
  define base where "base = port_base (channels s ! c)"
  have A: "ata_drive D base A" and c: "c < length (channels s)" using mine by (simp_all add: chan_mine_def base_def)
  from select_sector_ata [OF mine assms(2) n assms(5,6)] obtain h1 where
    1: "select_sector D s (c, k) lba (of_nat n) = Inr (dev_at s c (expecting_intr (channels s ! c)) h1)"
      "ata_sectors A h1 = ata_sectors A (hw s)" "ata_transfer A h1 = NoTransfer" "named_slave (ata_regs A h1) = slave"
      "named_lba (ata_regs A h1) = lba" "named_count (ata_regs A h1) = n" by blast
  define h2 where "h2 = drive_out D h1 (base + 7) CMD_READ_SECTOR"
  have 2: "cmd_out D (dev_at s c (expecting_intr (channels s ! c)) h1) c CMD_READ_SECTOR = dev_at s c True h2"
    "ata_sectors A h2 = ata_sectors A (hw s)" "ata_transfer A h2 = Fetching slave lba n"
    using c ata_command [OF A 1(3)] 1 by (simp_all add: cmd_out_dev_at h2_def base_def CMD_READ_SECTOR_def)
  from ata_fetched [OF A 2(3)] obtain h3 where 3: "drive_wait D h2 = Some h3" "ata_sectors A h3 = ata_sectors A (hw s)"
    "ata_transfer A h3 = (if ata_good A slave lba then ToHost slave lba n else NoTransfer)" using 2(2) by metis
  obtain b4 h4 where r4: "drive_in D h3 (base + 7) = (b4, h4)" by (cases "drive_in D h3 (base + 7)")
  obtain b5 h5 where r5: "drive_in D h4 (base + 7) = (b5, h5)" by (cases "drive_in D h4 (base + 7)")
  obtain b6 h6 where r6: "drive_in D h5 (base + 7) = (b6, h6)" by (cases "drive_in D h5 (base + 7)")
  have 4: "await_disk D (dev_at s c True h2) c = Inr (dev_at s c False h4)"
    using await_disk_ata [of D A "dev_at s c True h2" c h3] mine c 3(1) r4 by (simp add: base_def)
  have sec: "ata_sectors A h4 = ata_sectors A (hw s)" "ata_sectors A h5 = ata_sectors A (hw s)" "ata_sectors A h6 = ata_sectors A (hw s)"
    using ata_look(1) [OF A r4] ata_look(1) [OF A r5] ata_look(1) [OF A r6] 3(2) by simp_all
  have state: "ata_transfer A h = (if ata_good A slave lba then ToHost slave lba n else NoTransfer)"
    if "h \<in> {h4, h5, h6}" for h
    using that 3(3) ata_look(2,3) [OF A r4] ata_look(2,3) [OF A r5] ata_look(2,3) [OF A r6] by (auto split: if_splits)
  have ready: "b5 AND 0x80 = 0" "b6 AND 0x8 \<noteq> 0 \<longleftrightarrow> ata_good A slave lba"
    using state [of h4] state [of h5] ata_look(2,3) [OF A r5] ata_look(2,3) [OF A r6] by (auto split: if_splits)
  have 5: "busy_wait D (dev_at s c False h4) (c, k) = Inr (ata_good A slave lba, dev_at s c False h6)"
    using busy_wait_looks_once [of D "dev_at s c False h4" "(c, k)" b5 h5 b6 h6] r5 r6 c ready
    by (simp add: chan_of_def reg_status_base base_def BIT_STAT_BSY_def BIT_STAT_DRQ_def) (simp add: dev_at_def)
  have 6: "read_from_sector D (dev_at s c False h6) (c, k) (of_nat n) =
      (fst (drive_insw D h6 base (256 * n)), dev_at s c False (snd (drive_insw D h6 base (256 * n))))"
    using c words_of_chunk [OF n]
    by (simp add: read_from_sector_def hd_insw_def chan_of_def reg_data_def base_def case_prod_beta)
      (simp add: dev_at_def upd_chan_def)
  show ?thesis
    using 1(1) 2(1) 4 5 6 sec(3) state [of h6]
    by (intro exI [of _ h6]) (simp add: base_def case_prod_beta)
qed




section \<open>The operations\<close>

text \<open>Inside the lock.\<close>

lemma dev_at_inside: "dev_at (inside s l) c b h = inside (dev_at s c b h) l"
  by (simp add: dev_at_def inside_def upd_chan_def set_holder_def set_value_def)

lemma inside_frame [simp]:
  "channels (inside s l) = channels s" "hw (inside s l) = hw s" "disk_of (inside s l) d = disk_of s d"
  by (simp_all add: inside_def set_holder_def set_value_def disk_of_def chan_of_def)

lemma chan_free_inside: "chan_free D A s c \<Longrightarrow> chan_mine D A (inside s (chan_lock c)) c"
proof -
  assume r: "chan_free D A s c"
  have "disk_done c \<noteq> semaphore (chan_lock c)" by (simp add: disk_done_def semaphore_def chan_lock_def)
  then show ?thesis
    using r by (simp add: chan_free_def chan_mine_def) (simp add: inside_def set_holder_def sched list_rep_def)
qed

lemma chan_free_dev_at [simp]: "chan_free D A (dev_at s c b h) c \<longleftrightarrow> chan_free D A s c"
  by (auto simp: chan_free_def)

lemma chan_free_lock:
  assumes "chan_free D A s c"
  shows "lock_enter s (chan_lock c) = Inr (inside s (chan_lock c))"
    and "lock_release (inside s (chan_lock c)) (chan_lock c) = Inr s"
  using assms by (simp_all add: chan_free_def lock_enter_free lock_leave)

text \<open>The sectors of one drive as the file system's disk.\<close>

definition as_disk :: "'d ata \<Rightarrow> 'd \<Rightarrow> bool \<Rightarrow> disk" where
  "as_disk A h slave = \<lparr>sectors = ata_sectors A h slave\<rparr>"







section \<open>Examples\<close>

text \<open>
  A drive that keeps to the protocol, behind the ports from \<open>0x1f0\<close> on.  It has 1000 sectors, is busy while
  it fetches or stores one, and shows \<open>BSY\<close> after a command to write when it is \<open>dd_slow\<close>.
\<close>

record demo_dev =
  dd_regs :: "u16 \<Rightarrow> u8"
  dd_sectors :: "bool \<Rightarrow> u32 \<Rightarrow> u8 list"
  dd_transfer :: transfer
  dd_slow :: bool

definition demo_drive :: "demo_dev drive" where
  "demo_drive =
     \<lparr>drive_out = (\<lambda>h p b.
        if p = 0x1f7 then
          let x = (named_slave (dd_regs h), named_lba (dd_regs h), named_count (dd_regs h))
          in h\<lparr>dd_transfer := (case x of (slave, lba, n) \<Rightarrow>
               if b = 0x20 then Fetching slave lba n else if b = 0x30 then Preparing slave lba n else NoTransfer)\<rparr>
        else h\<lparr>dd_regs := (dd_regs h)(p - 0x1f0 := b)\<rparr>),
      drive_in = (\<lambda>h p. case dd_transfer h of
        NoTransfer \<Rightarrow> (0x40, h)
      | Fetching slave lba n \<Rightarrow> (0x80, h)
      | ToHost slave lba n \<Rightarrow> (0x48, h)
      | Preparing slave lba n \<Rightarrow>
          if dd_slow h then (0x80, h) else (0x48, h\<lparr>dd_transfer := FromHost slave lba n\<rparr>)
      | FromHost slave lba n \<Rightarrow> (0x48, h)
      | Storing slave lba n bs \<Rightarrow> (0x80, h)),
      drive_insw = (\<lambda>h p k. case dd_transfer h of
        ToHost slave lba n \<Rightarrow>
          (dd_sectors h slave lba @ replicate (2 * k - 512) 0,
           h\<lparr>dd_transfer := (if n = 1 then NoTransfer else Fetching slave (lba + 1) (n - 1))\<rparr>)
      | _ \<Rightarrow> (replicate (2 * k) 0, h)),
      drive_outsw = (\<lambda>h p bs. case dd_transfer h of
        FromHost slave lba n \<Rightarrow> h\<lparr>dd_transfer := Storing slave lba n (take 512 bs)\<rparr>
      | _ \<Rightarrow> h),
      drive_wait = (\<lambda>h. case dd_transfer h of
        Fetching slave lba n \<Rightarrow> Some (h\<lparr>dd_transfer := (if lba < 1000 then ToHost slave lba n else NoTransfer)\<rparr>)
      | Storing slave lba n bs \<Rightarrow>
          Some (h\<lparr>dd_sectors := store_sector (dd_sectors h) slave lba bs,
                  dd_transfer := (if n = 1 then NoTransfer else FromHost slave (lba + 1) (n - 1))\<rparr>)
      | _ \<Rightarrow> None)\<rparr>"

definition demo_ata :: "demo_dev ata" where
  "demo_ata = \<lparr>ata_regs = dd_regs, ata_sectors = dd_sectors, ata_good = \<lambda>slave lba. lba < 1000, ata_transfer = dd_transfer\<rparr>"

lemma demo_ata_drive: "ata_drive demo_drive 0x1f0 demo_ata"
proof -
  have "ata_registers demo_drive 0x1f0 demo_ata" "ata_commands demo_drive 0x1f0 demo_ata"
    by (simp_all add: ata_registers_def ata_commands_def demo_drive_def demo_ata_def)
  moreover have "ata_status demo_drive 0x1f0 demo_ata"
    by (simp add: ata_status_def demo_drive_def demo_ata_def split: transfer.split)
  moreover have "ata_reading demo_drive 0x1f0 demo_ata" "ata_writing demo_drive 0x1f0 demo_ata"
    by (simp_all add: ata_reading_def ata_writing_def demo_drive_def demo_ata_def)
  ultimately show ?thesis by (simp add: ata_drive_def)
qed

definition no_part :: partition where
  "no_part = \<lparr>start_lba = 0, sec_cnt = 0, part_name = replicate 8 0, 
     sb = \<lparr>sb_magic = 0, sb_sec_cnt = 0, inode_cnt = 0, part_lba_base = 0, block_bitmap_lba = 0, block_bitmap_sects = 0,
       inode_bitmap_lba = 0, inode_bitmap_sects = 0, inode_table_lba = 0, inode_table_sects = 0, data_start_lba = 0,
       root_inode_no = 0, dir_entry_size = 0\<rparr>,
     block_bitmap = \<lparr>btmp_bytes_len = 0, bits = []\<rparr>, inode_bitmap = \<lparr>btmp_bytes_len = 0, bits = []\<rparr>, open_inodes = []\<rparr>"

definition demo_disk :: "u8 \<Rightarrow> ide_disk" where
  "demo_disk no = \<lparr>disk_name = replicate 8 0, dev_no = no, prim_parts = replicate 4 no_part, logic_parts = replicate 8 no_part\<rparr>"

definition demo_ide :: "bool \<Rightarrow> demo_dev ide" where
  "demo_ide slow = lock_init (sema_init (memory.extend demo_memory
     \<lparr>hw = \<lparr>dd_regs = (\<lambda>_. 0), dd_sectors = (\<lambda>slave lba. replicate 512 (if slave then ucast lba else 0)),
             dd_transfer = NoTransfer, dd_slow = slow\<rparr>,
      channel_cnt = 1,
      channels = [\<lparr>chan_name = replicate 8 0, port_base = 0x1f0, irq_no = 0x2e, expecting_intr = False,
                   devices = [demo_disk 0, demo_disk 1]\<rparr>],
      ext_lba_base = 0, p_no = 0, l_no = 0, handlers = [], console_text = []\<rparr>)
     (disk_done 0) 0) (chan_lock 0)"

lemma demo_ide_links:
  "nxt (demo_ide slow) 0xc0015e90 = 0xc0015e98" "prv (demo_ide slow) 0xc0015e98 = 0xc0015e90"
  "nxt (demo_ide slow) 0xc0015e74 = 0xc0015e7c" "prv (demo_ide slow) 0xc0015e7c = 0xc0015e74"
  by (simp_all add: demo_ide_def lock_init_def sema_init_def list_init_def Let_def set_holder_def set_value_def
      set_nxt_def set_prv_def TAIL_def waiters_def semaphore_def chan_lock_def disk_done_def channel_addr_def)

lemma demo_ide_fields:
  "cur (demo_ide slow) = 0xc009e000" "channels (demo_ide slow) = [\<lparr>chan_name = replicate 8 0, port_base = 0x1f0, irq_no = 0x2e,
     expecting_intr = False, devices = [demo_disk 0, demo_disk 1]\<rparr>]"
  "sem_value (demo_ide slow) 0xc0015e70 = 1" "sem_value (demo_ide slow) 0xc0015e8c = 0"
  "lock_holder (demo_ide slow) 0xc0015e6c = NULL" "holder_repeat_nr (demo_ide slow) 0xc0015e6c = 0"
  "hw (demo_ide slow) = \<lparr>dd_regs = (\<lambda>_. 0), dd_sectors = (\<lambda>slave lba. replicate 512 (if slave then ucast lba else 0)),
     dd_transfer = NoTransfer, dd_slow = slow\<rparr>"
  by (simp_all add: demo_ide_def lock_init_def sema_init_def list_init_def Let_def set_holder_def set_value_def
      set_nxt_def set_prv_def waiters_def semaphore_def chan_lock_def disk_done_def channel_addr_def memory.defs
      demo_memory_fields)

lemma demo_chan_ready: "chan_ready demo_drive demo_ata (demo_ide slow) 0"
  using demo_ata_drive
  by (simp add: chan_ready_def chan_free_def demo_ide_fields demo_ide_links list_rep_def TAIL_def waiters_def semaphore_def
      chan_lock_def disk_done_def channel_addr_def) (simp add: demo_ata_def)

lemma demo_slave: "dev_no (disk_of (demo_ide slow) (0, 1)) = 1 \<longleftrightarrow> True"
  by (simp add: disk_of_def chan_of_def demo_ide_fields demo_disk_def)

lemma demo_good: "ata_good demo_ata slave lba \<longleftrightarrow> lba < 1000"
  by (simp add: demo_ata_def)




text \<open>
  More than one sector.  \<open>ide_read\<close> asks for all sectors with one command and takes them with one
  \<open>insw\<close> after one interrupt, when the drive offers only the first.  From the drive above, which
  keeps to the protocol, it returns zeros for the second sector, where \<open>disk_read\<close> has the bytes 8.
\<close>

lemma ide_read_two_sectors:
  "disk_read (as_disk demo_ata (hw (demo_ide slow)) True) 7 2 = Inr (replicate 512 7 @ replicate 512 8) \<and>
   (\<exists>b h. ide_read demo_drive (demo_ide slow) (0, 1) 7 2 = Inr (replicate 512 7 @ replicate 512 0, dev_at (demo_ide slow) 0 b h))"
proof
  have "[0..<unat (2 :: u32)] = [0, 1]" by (simp add: upt_rec)
  then show "disk_read (as_disk demo_ata (hw (demo_ide slow)) True) 7 2 = Inr (replicate 512 7 @ replicate 512 8)"
    by (simp add: disk_read_def span_ok_def max_lba_def as_disk_def demo_ata_def demo_ide_fields)
next
  let ?s = "demo_ide slow"
  have free: "chan_free demo_drive demo_ata ?s 0" and idle: "ata_transfer demo_ata (hw ?s) = NoTransfer"
    using demo_chan_ready [of slow] by (simp_all add: chan_ready_def)
  have c: "0 < length (channels ?s)" by (simp add: demo_ide_fields)
  have mine: "chan_mine demo_drive demo_ata (inside ?s (chan_lock 0)) 0" by (rule chan_free_inside [OF free])
  from select_disk_ata [OF mine, of 1] idle obtain h where
    sel: "select_disk demo_drive (inside ?s (chan_lock 0)) (0, 1) = dev_at (inside ?s (chan_lock 0)) 0 (expecting_intr (channels ?s ! 0)) h"
      "ata_sectors demo_ata h = ata_sectors demo_ata (hw ?s)" "ata_transfer demo_ata h = NoTransfer" by auto
  define u where "u = select_disk demo_drive (inside ?s (chan_lock 0)) (0, 1)"
  have mu: "chan_mine demo_drive demo_ata u 0" unfolding u_def sel(1) chan_mine_dev_at by (rule mine)
  have u: "dev_no (disk_of u (0, 1)) = 1 \<longleftrightarrow> True" "ata_transfer demo_ata (hw u) = NoTransfer" "port_base (channels u ! 0) = 0x1f0"
    "ata_sectors demo_ata (hw u) = ata_sectors demo_ata (hw ?s)" "dev_at u 0 b h' = inside (dev_at ?s 0 b h') (chan_lock 0)" for b h'
    using demo_slave c sel by (simp_all add: u_def dev_at_inside) (simp add: demo_ide_fields)
  have op: "secs_op 0 2 = 2" by (simp add: secs_op_def)
  have fin: "read_chunks demo_drive t d 7 2 2 data = Inr (data, t)" for t d data by (simp add: read_chunks.simps)
  have "read_chunks demo_drive u (0, 1) 7 2 0 [] =
      rbind (select_sector demo_drive u (0, 1) 7 (of_nat 2)) (\<lambda>s.
        rbind (await_disk demo_drive (cmd_out demo_drive s 0 CMD_READ_SECTOR) 0) (\<lambda>s.
        rbind (busy_wait demo_drive s (0, 1)) (\<lambda>(ready, s).
          if \<not> ready then Inl Panic
          else let (data, s) = read_from_sector demo_drive s (0, 1) (of_nat 2) in Inr (data, s))))"
    by (subst read_chunks.simps) (simp add: op Let_def case_prod_beta fin cong: if_cong)
  moreover have "(7 :: u32) \<le> max_lba" by (simp add: max_lba_def)
  ultimately obtain h where h: "ata_sectors demo_ata h = ata_sectors demo_ata (hw u)" "ata_transfer demo_ata h = ToHost True 7 2"
    "read_chunks demo_drive u (0, 1) 7 2 0 [] =
      (case drive_insw demo_drive h 0x1f0 512 of (data, h') \<Rightarrow> Inr (data, dev_at u 0 False h'))"
    using read_command [OF mu _ _ _ u(1,2), of 7 2 "\<lambda>data s. Inr (data, s)"] by (auto simp: demo_good u(3))
  have "\<exists>h'. drive_insw demo_drive h 0x1f0 512 = (replicate 512 7 @ replicate 512 0, h')"
    using h(1,2) u(4) by (simp add: demo_drive_def demo_ata_def demo_ide_fields)
  then obtain h' where "read_chunks demo_drive u (0, 1) 7 2 0 [] =
      Inr (replicate 512 7 @ replicate 512 0, inside (dev_at ?s 0 False h') (chan_lock 0))"
    using h(3) by (auto simp: u(5))
  then show "\<exists>b h. ide_read demo_drive ?s (0, 1) 7 2 = Inr (replicate 512 7 @ replicate 512 0, dev_at ?s 0 b h)"
    using chan_free_lock(1) [OF free] chan_free_lock(2) [of demo_drive demo_ata "dev_at ?s 0 False h'" 0] free
    by (auto simp: ide_read_def max_lba_def u_def [symmetric] simp del: One_nat_def)
qed

definition stuck_drive :: "unit drive" where
  "stuck_drive = \<lparr>drive_out = (\<lambda>h p b. h), drive_in = (\<lambda>h p. (0x80, h)), drive_insw = (\<lambda>h p n. ([], h)),
     drive_outsw = (\<lambda>h p bs. h), drive_wait = Some\<rparr>"

definition stuck_ide :: "unit ide" where
  "stuck_ide = memory.extend demo_memory
     \<lparr>hw = (), channel_cnt = 1, channels = channels (demo_ide True), ext_lba_base = 0, p_no = 0, l_no = 0, handlers = [],
      console_text = []\<rparr>"

theorem busy_wait_looks_once_witness: "busy_wait stuck_drive stuck_ide (0, 0) = Inl Panic"
  using busy_wait_looks_once [where D = stuck_drive and s = stuck_ide and d = "(0, 0)" and b = "0x80" and b' = "0x80" and h = "()" and h' = "()"]
  by (simp add: stuck_drive_def BIT_STAT_BSY_def)

end
