(* ===== verification/Kheap.thy ===== *)
theory Kheap
  imports Heap
begin

text \<open>
  The kernel heap as its callers see it.  The locale \<open>heap_allocator\<close> states the contract of an
  allocator over the set of the blocks that are in use, each with its size: a request gives a
  block that is apart from all others, or \<open>NULL\<close> and nothing has changed; a block given back is
  gone from the set and every other block keeps its contents.  Sequences of requests and releases
  are treated once in the locale, and \<open>sys_malloc\<close> and \<open>sys_free\<close> interpret it with \<open>heap_rep\<close> of
  theory \<open>Heap\<close>.  The last section shows that \<open>mem_init\<close> sets up the empty heap.
\<close>

section \<open>Sequences of requests and releases\<close>

fun malloc_all :: "('s \<Rightarrow> u32 \<Rightarrow> (u32 \<times> 's) res) \<Rightarrow> 's \<Rightarrow> u32 list \<Rightarrow> (u32 list \<times> 's) res" where
  "malloc_all get s [] = Inr ([], s)"
| "malloc_all get s (n # ns) = rbind (get s n) (\<lambda>(b, s). rbind (malloc_all get s ns) (\<lambda>(bs, s). Inr (b # bs, s)))"

fun free_all :: "('s \<Rightarrow> u32 \<Rightarrow> 's res) \<Rightarrow> 's \<Rightarrow> u32 list \<Rightarrow> 's res" where
  "free_all put s [] = Inr s"
| "free_all put s (b # bs) = rbind (put s b) (\<lambda>s. free_all put s bs)"

definition keeps_blocks :: "(u32 \<Rightarrow> u8) \<Rightarrow> (u32 \<times> nat) set \<Rightarrow> (u32 \<Rightarrow> u8) \<Rightarrow> bool" where
  "keeps_blocks m M m' \<longleftrightarrow> (\<forall>(c, k) \<in> M. \<forall>x \<in> bytes_at c k. m' x = m x)"

lemma keeps_blocks_trans:
  "keeps_blocks m M m' \<Longrightarrow> keeps_blocks m' N m'' \<Longrightarrow> M \<subseteq> N \<Longrightarrow> keeps_blocks m M m''"
  unfolding keeps_blocks_def by fastforce

text \<open>The blocks among the answers.\<close>

definition granted :: "(u32 \<times> nat) list \<Rightarrow> (u32 \<times> nat) set" where
  "granted gs = {g \<in> set gs. fst g \<noteq> NULL}"

lemma granted_Cons: "granted (g # gs) = (if fst g = NULL then granted gs else insert g (granted gs))"
  by (auto simp: granted_def)

lemma bytes_mono: "m \<le> n \<Longrightarrow> bytes_at b m \<subseteq> bytes_at b n"
  by (auto simp: bytes_at_def)

lemma apart_blocksD:
  assumes "apart_blocks M" and "(b, n) \<in> M"
  shows "0 < n" and "(c, m) \<in> M \<Longrightarrow> (b, n) \<noteq> (c, m) \<Longrightarrow> bytes_at b n \<inter> bytes_at c m = {}"
  using bspec [OF assms(1) [unfolded apart_blocks_def] assms(2)] by auto

lemma apart_addr:
  assumes "apart_blocks M" and "(b, n) \<in> M" and "(b, m) \<in> M"
  shows "n = m"
proof (rule ccontr)
  assume "n \<noteq> m"
  then have "bytes_at b n \<inter> bytes_at b m = {}" using apart_blocksD(2) [OF assms] by blast
  moreover have "b \<in> bytes_at b n" "b \<in> bytes_at b m"
    using apart_blocksD(1) [OF assms(1)] assms(2,3) start_in_bytes by blast+
  ultimately show False by blast
qed

lemma distinct_filter_nth:
  "distinct (filter P xs) \<Longrightarrow> i < length xs \<Longrightarrow> j < length xs \<Longrightarrow> i \<noteq> j \<Longrightarrow> P (xs ! i) \<Longrightarrow> xs ! i \<noteq> xs ! j"
proof (induction xs arbitrary: i j)
  case (Cons x xs)
  then show ?case
    by (cases i; cases j) (auto split: if_splits dest!: nth_mem)
qed simp

section \<open>The contract\<close>

locale heap_allocator =
  fixes rep :: "'s \<Rightarrow> (u32 \<times> nat) set \<Rightarrow> bool"
    and content :: "'s \<Rightarrow> u32 \<Rightarrow> u8"
    and get :: "'s \<Rightarrow> u32 \<Rightarrow> (u32 \<times> 's) res"
    and put :: "'s \<Rightarrow> u32 \<Rightarrow> 's res"
    and limit :: nat
  assumes rep_apart: "rep s M \<Longrightarrow> apart_blocks M"
    and get_law: "rep s M \<Longrightarrow> unat n \<le> limit \<Longrightarrow>
      \<exists>b s'. get s n = Inr (b, s') \<and> keeps_blocks (content s) M (content s') \<and>
        (if b = NULL then rep s' M
         else \<exists>sz. unat n \<le> sz \<and> (b, sz) \<notin> M \<and> rep s' (insert (b, sz) M) \<and> (\<forall>x \<in> bytes_at b sz. content s' x = 0))"
    and put_law: "rep s M \<Longrightarrow> (b, sz) \<in> M \<Longrightarrow>
      \<exists>s'. put s b = Inr s' \<and> rep s' (M - {(b, sz)}) \<and> content s' = content s"
begin

lemma get_all:
  "rep s M \<Longrightarrow> \<forall>n \<in> set ns. unat n \<le> limit \<Longrightarrow>
   \<exists>gs s'. malloc_all get s ns = Inr (map fst gs, s') \<and> length gs = length ns \<and>
     (\<forall>i < length ns. fst (gs ! i) \<noteq> NULL \<longrightarrow> unat (ns ! i) \<le> snd (gs ! i)) \<and>
     distinct (filter (\<lambda>g. fst g \<noteq> NULL) gs) \<and> granted gs \<inter> M = {} \<and> rep s' (M \<union> granted gs) \<and>
     keeps_blocks (content s) M (content s') \<and> (\<forall>(b, sz) \<in> granted gs. \<forall>x \<in> bytes_at b sz. content s' x = 0)"
proof (induction ns arbitrary: s M)
  case Nil
  then show ?case by (simp add: granted_def keeps_blocks_def)
next
  case (Cons n ns)
  obtain b t where t: "get s n = Inr (b, t)" "keeps_blocks (content s) M (content t)"
    "if b = NULL then rep t M
     else \<exists>sz. unat n \<le> sz \<and> (b, sz) \<notin> M \<and> rep t (insert (b, sz) M) \<and> (\<forall>x \<in> bytes_at b sz. content t x = 0)"
    using get_law [OF Cons.prems(1), of n] Cons.prems(2) by auto
  have ns: "\<forall>n \<in> set ns. unat n \<le> limit" using Cons.prems(2) by simp
  show ?case
  proof (cases "b = NULL")
    case True
    then obtain gs u where u: "malloc_all get t ns = Inr (map fst gs, u)" "length gs = length ns"
      "\<forall>i < length ns. fst (gs ! i) \<noteq> NULL \<longrightarrow> unat (ns ! i) \<le> snd (gs ! i)"
      "distinct (filter (\<lambda>g. fst g \<noteq> NULL) gs)" "granted gs \<inter> M = {}" "rep u (M \<union> granted gs)"
      "keeps_blocks (content t) M (content u)" "\<forall>(b, sz) \<in> granted gs. \<forall>x \<in> bytes_at b sz. content u x = 0"
      using Cons.IH [of t M] t(3) ns by auto
    then show ?thesis
      using t(1) True keeps_blocks_trans [OF t(2) u(7)]
      by (intro exI [of _ "(NULL, 0) # gs"] exI [of _ u]) (auto simp: granted_Cons nth_Cons split: nat.splits)
  next
    case False
    then obtain sz where sz: "unat n \<le> sz" "(b, sz) \<notin> M" "rep t (insert (b, sz) M)" "\<forall>x \<in> bytes_at b sz. content t x = 0"
      using t(3) by auto
    obtain gs u where u: "malloc_all get t ns = Inr (map fst gs, u)" "length gs = length ns"
      "\<forall>i < length ns. fst (gs ! i) \<noteq> NULL \<longrightarrow> unat (ns ! i) \<le> snd (gs ! i)"
      "distinct (filter (\<lambda>g. fst g \<noteq> NULL) gs)" "granted gs \<inter> insert (b, sz) M = {}"
      "rep u (insert (b, sz) M \<union> granted gs)" "keeps_blocks (content t) (insert (b, sz) M) (content u)"
      "\<forall>(b, sz) \<in> granted gs. \<forall>x \<in> bytes_at b sz. content u x = 0"
      using Cons.IH [OF sz(3) ns] by blast
    have new: "(b, sz) \<notin> set gs" using u(5) False by (auto simp: granted_def)
    have "\<forall>x \<in> bytes_at b sz. content u x = 0" using u(7) sz(4) by (auto simp: keeps_blocks_def)
    moreover have "keeps_blocks (content s) M (content u)" by (rule keeps_blocks_trans [OF t(2) u(7)]) blast
    moreover have "insert (b, sz) M \<union> granted gs = M \<union> granted ((b, sz) # gs)" using False by (auto simp: granted_Cons)
    ultimately show ?thesis
      using t(1) False u(1-6,8) sz(1,2) new
      by (intro exI [of _ "(b, sz) # gs"] exI [of _ u]) (auto simp: granted_Cons nth_Cons split: nat.splits)
  qed
qed

lemma put_all:
  "rep s M \<Longrightarrow> distinct bs \<Longrightarrow> set bs \<subseteq> fst ` M \<Longrightarrow>
   \<exists>s'. free_all put s bs = Inr s' \<and> rep s' {g \<in> M. fst g \<notin> set bs} \<and> content s' = content s"
proof (induction bs arbitrary: s M)
  case Nil
  then show ?case by simp
next
  case (Cons b bs)
  obtain sz where sz: "(b, sz) \<in> M" using Cons.prems(3) by auto
  from put_law [OF Cons.prems(1) sz] obtain t where
    t: "put s b = Inr t" "rep t (M - {(b, sz)})" "content t = content s" by blast
  have "set bs \<subseteq> fst ` (M - {(b, sz)})" using Cons.prems(2,3) by force
  then obtain u where u: "free_all put t bs = Inr u" "rep u {g \<in> M - {(b, sz)}. fst g \<notin> set bs}" "content u = content t"
    using Cons.IH [OF t(2)] Cons.prems(2) by auto
  have eq: "{g \<in> M - {(b, sz)}. fst g \<notin> set bs} = {g \<in> M. fst g \<notin> set (b # bs)}"
  proof (rule set_eqI)
    fix g
    have "g = (b, sz)" if "g \<in> M" "fst g = b"
      using apart_addr [OF rep_apart [OF Cons.prems(1)] _ sz, of "snd g"] that by (cases g) simp
    moreover have "fst g \<noteq> b \<Longrightarrow> g \<noteq> (b, sz)" by auto
    ultimately show "g \<in> {g \<in> M - {(b, sz)}. fst g \<notin> set bs} \<longleftrightarrow> g \<in> {g \<in> M. fst g \<notin> set (b # bs)}"
      by (cases "fst g = b") simp_all
  qed
  show ?case using t(1,3) u(1,3) u(2) [unfolded eq] by (intro exI [of _ u]) simp
qed

text \<open>The blocks of a sequence of requests are apart, and giving them back in any order undoes it.\<close>

lemma sequence:
  assumes "rep s M" and "\<forall>n \<in> set ns. unat n \<le> limit"
  shows "\<exists>bs s'. malloc_all get s ns = Inr (bs, s') \<and> length bs = length ns \<and>
    (\<forall>i < length ns. bs ! i \<noteq> NULL \<longrightarrow>
       (\<forall>j < length ns. i \<noteq> j \<longrightarrow> bs ! j \<noteq> NULL \<longrightarrow> bytes_at (bs ! i) (unat (ns ! i)) \<inter> bytes_at (bs ! j) (unat (ns ! j)) = {}) \<and>
       (\<forall>(c, k) \<in> M. bytes_at (bs ! i) (unat (ns ! i)) \<inter> bytes_at c k = {}) \<and>
       (\<forall>x \<in> bytes_at (bs ! i) (unat (ns ! i)). content s' x = 0)) \<and>
    (\<forall>cs. distinct cs \<longrightarrow> set cs = set bs - {NULL} \<longrightarrow>
       (\<exists>t. free_all put s' cs = Inr t \<and> rep t M \<and> keeps_blocks (content s) M (content t)))"
proof -
  from get_all [OF assms] obtain gs s' where
    g: "malloc_all get s ns = Inr (map fst gs, s')" "length gs = length ns"
      "\<forall>i < length ns. fst (gs ! i) \<noteq> NULL \<longrightarrow> unat (ns ! i) \<le> snd (gs ! i)"
      "distinct (filter (\<lambda>g. fst g \<noteq> NULL) gs)" "granted gs \<inter> M = {}" "rep s' (M \<union> granted gs)"
      "keeps_blocks (content s) M (content s')" "\<forall>(b, sz) \<in> granted gs. \<forall>x \<in> bytes_at b sz. content s' x = 0" by blast
  let ?bs = "map fst gs"
  have ap: "apart_blocks (M \<union> granted gs)" by (rule rep_apart [OF g(6)])
  have blk: "(?bs ! i, snd (gs ! i)) \<in> granted gs \<and> bytes_at (?bs ! i) (unat (ns ! i)) \<subseteq> bytes_at (?bs ! i) (snd (gs ! i))"
    if "i < length ns" "?bs ! i \<noteq> NULL" for i
  proof
    have i: "i < length gs" "?bs ! i = fst (gs ! i)" using that(1) g(2) by simp_all
    then show "(?bs ! i, snd (gs ! i)) \<in> granted gs" using that(2) nth_mem [OF i(1)] unfolding granted_def by simp
    show "bytes_at (?bs ! i) (unat (ns ! i)) \<subseteq> bytes_at (?bs ! i) (snd (gs ! i))"
      using g(3) that i(2) by (intro bytes_mono) simp
  qed
  have sep: "bytes_at (?bs ! i) (unat (ns ! i)) \<inter> bytes_at c k = {}"
    if i: "i < length ns" "?bs ! i \<noteq> NULL" and c: "(c, k) \<in> M \<union> granted gs" "(?bs ! i, snd (gs ! i)) \<noteq> (c, k)" for i c k
    using apart_blocksD(2) [OF ap _ c] blk [OF i] by blast
  have pair: "bytes_at (?bs ! i) (unat (ns ! i)) \<inter> bytes_at (?bs ! j) (unat (ns ! j)) = {}"
    if ij: "i < length ns" "j < length ns" "i \<noteq> j" "?bs ! i \<noteq> NULL" "?bs ! j \<noteq> NULL" for i j
  proof -
    have "gs ! i \<noteq> gs ! j" using distinct_filter_nth [OF g(4), of i j] ij g(2) by simp
    then have "(?bs ! i, snd (gs ! i)) \<noteq> (?bs ! j, snd (gs ! j))" using ij(1,2) g(2) by (simp add: prod_eq_iff)
    with sep [OF ij(1,4) _ this] blk [OF ij(2,5)] show ?thesis by blast
  qed
  have old: "bytes_at (?bs ! i) (unat (ns ! i)) \<inter> bytes_at c k = {}" if "i < length ns" "?bs ! i \<noteq> NULL" "(c, k) \<in> M" for i c k
    using sep [OF that(1,2), of c k] blk [OF that(1,2)] that(3) g(5) by blast
  have zero: "content s' x = 0" if "i < length ns" "?bs ! i \<noteq> NULL" "x \<in> bytes_at (?bs ! i) (unat (ns ! i))" for i x
    using blk [OF that(1,2)] g(8) that(3) by blast
  have undo: "\<exists>t. free_all put s' cs = Inr t \<and> rep t M \<and> keeps_blocks (content s) M (content t)"
    if cs: "distinct cs" "set cs = set ?bs - {NULL}" for cs
  proof -
    have "set cs = fst ` granted gs" using cs(2) by (auto simp: granted_def)
    then have "set cs \<subseteq> fst ` (M \<union> granted gs)" by blast
    from put_all [OF g(6) cs(1) this] obtain t where
      t: "free_all put s' cs = Inr t" "rep t {h \<in> M \<union> granted gs. fst h \<notin> set cs}" "content t = content s'" by blast
    have "{h \<in> M \<union> granted gs. fst h \<notin> set cs} = M"
    proof (rule set_eqI)
      fix h
      have "h \<in> granted gs" if "h \<in> M" "fst h \<in> set cs"
      proof -
        from that(2) \<open>set cs = fst ` granted gs\<close> obtain k where k: "k \<in> granted gs" "fst k = fst h" by auto
        then have "snd k = snd h" using apart_addr [OF ap, of "fst h" "snd h" "snd k"] that(1) by (cases h; cases k) auto
        then have "k = h" using k(2) by (simp add: prod_eq_iff)
        then show ?thesis using k(1) by simp
      qed
      then have "fst h \<notin> set cs" if "h \<in> M" using that g(5) by blast
      moreover have "fst h \<in> set cs" if "h \<in> granted gs" using that \<open>set cs = fst ` granted gs\<close> by blast
      ultimately show "h \<in> {h \<in> M \<union> granted gs. fst h \<notin> set cs} \<longleftrightarrow> h \<in> M" by blast
    qed
    then show ?thesis using t g(7) by simp
  qed
  show ?thesis
    using g(1,2) pair old zero undo
    by - (rule exI [of _ ?bs], rule exI [of _ s'], intro conjI allI impI ballI; clarsimp)
qed

end

section \<open>The model's allocator\<close>

text \<open>The state is typed so that the interpretation has a fixed state space.\<close>

interpretation kheap: heap_allocator "heap_rep :: memory \<Rightarrow> _" mem sys_malloc sys_free heap_limit
proof
  fix s :: memory and M
  assume "heap_rep s M"
  then show "apart_blocks M" using used_apart by (auto simp: heap_rep_def heap_inv_def)
next
  fix s :: memory and M and n :: u32
  assume "heap_rep s M" "unat n \<le> heap_limit"
  from heap_malloc [OF this] obtain b s' where
    r: "sys_malloc s n = Inr (b, s')" "keeps_mem s M s'" "if b = NULL then heap_rep s' M \<and> (n = 0 \<or> pool_size (kernel_pool s) \<le> n \<or> short_of s (pages_of n) s')
      else \<exists>sz. unat n \<le> sz \<and> (b, sz) \<notin> M \<and> heap_rep s' (insert (b, sz) M) \<and> (\<forall>x \<in> bytes_at b sz. mem s' x = 0)" by blast
  have "keeps_blocks (mem s) M (mem s')" using r(2) by (simp add: keeps_mem_def keeps_blocks_def)
  then show "\<exists>b s'. sys_malloc s n = Inr (b, s') \<and> keeps_blocks (mem s) M (mem s') \<and>
      (if b = NULL then heap_rep s' M
       else \<exists>sz. unat n \<le> sz \<and> (b, sz) \<notin> M \<and> heap_rep s' (insert (b, sz) M) \<and> (\<forall>x \<in> bytes_at b sz. mem s' x = 0))"
    using r(1,3) by (intro exI [of _ b] exI [of _ s']) (simp split: if_splits)
next
  fix s :: memory and M and b sz
  assume "heap_rep s M" "(b, sz) \<in> M"
  from heap_free [OF this] show "\<exists>s'. sys_free s b = Inr s' \<and> heap_rep s' (M - {(b, sz)}) \<and> mem s' = mem s" by blast
qed

section \<open>Setting up the heap\<close>

lemma list_init_links:
  "nxt (list_init s l) = (\<lambda>x. if x = TAIL l then NULL else if x = l then TAIL l else nxt s x)"
  "prv (list_init s l) = (\<lambda>x. if x = TAIL l then l else if x = l then NULL else prv s x)"
  "lheap.more (list_init s l) = lheap.more s"
  by (auto simp: list_init_def Let_def klist fun_eq_iff)

lemma tails:
  "i < 7 \<Longrightarrow> unat (TAIL (free_list (kdesc i))) = 3221314352 + 24 * i"
  "unat (TAIL kwaiters) = 3221314560"
  unfolding TAIL_def using heads(1) [of i] heads(2) by (subst unat_add_no_wrap; simp)+

lemma heads_apart:
  "i < 7 \<Longrightarrow> j < 7 \<Longrightarrow> i \<noteq> j \<Longrightarrow> list_cells (free_list (kdesc i)) [] \<inter> list_cells (free_list (kdesc j)) [] = {}"
  "i < 7 \<Longrightarrow> list_cells kwaiters [] \<inter> list_cells (free_list (kdesc i)) [] = {}"
proof -
  have u: "unat x \<in> {3221314344 + 24 * k, 3221314352 + 24 * k}" if "k < 7" "x \<in> list_cells (free_list (kdesc k)) []" for x k
    using that heads(1) [of k] tails(1) [of k] by (auto simp: list_cells_def)
  have w: "unat x \<in> {3221314552, 3221314560}" if "x \<in> list_cells kwaiters []" for x
    using that heads(2) tails(2) by (auto simp: list_cells_def)
  show "list_cells (free_list (kdesc i)) [] \<inter> list_cells (free_list (kdesc j)) [] = {}" if "i < 7" "j < 7" "i \<noteq> j"
  proof (rule equals0I)
    fix x assume "x \<in> list_cells (free_list (kdesc i)) [] \<inter> list_cells (free_list (kdesc j)) []"
    then have "unat x \<in> {3221314344 + 24 * i, 3221314352 + 24 * i}" "unat x \<in> {3221314344 + 24 * j, 3221314352 + 24 * j}"
      using u that by blast+
    then show False using that(3) by auto
  qed
  show "list_cells kwaiters [] \<inter> list_cells (free_list (kdesc i)) [] = {}" if "i < 7"
  proof (rule equals0I)
    fix x assume "x \<in> list_cells kwaiters [] \<inter> list_cells (free_list (kdesc i)) []"
    then have "unat x \<in> {3221314344 + 24 * i, 3221314352 + 24 * i}" "unat x \<in> {3221314552, 3221314560}"
      using u [OF that] w by blast+
    then show False using that by auto
  qed
qed

lemma desc_values:
  assumes "i < 7"
  shows "ucast (of_nat (bsize i) :: u16) = (of_nat (bsize i) :: u32)"
    and "(PG_SIZE - sizeof_arena) div of_nat (bsize i) = (of_nat (bcount i) :: u32)"
  using assms unfolding less_seven by (auto simp: bsize_def bcount_def PG_SIZE_def sizeof_arena_def)

lemma desc_init_loop_eq:
  "i + k = 7 \<Longrightarrow> sz = of_nat (bsize i) \<Longrightarrow> list_rep s kwaiters [] \<Longrightarrow>
   (\<And>j. j < i \<Longrightarrow> list_rep s (free_list (kdesc j)) []) \<Longrightarrow>
   (\<And>j. j < i \<Longrightarrow> block_descs s (kdesc j) = \<lparr>block_size = of_nat (bsize j), block_per_arena = of_nat (bcount j)\<rparr>) \<Longrightarrow>
   \<exists>n p d. desc_init_loop s k_block_descs i k sz = s\<lparr>nxt := n, prv := p, block_descs := d\<rparr> \<and>
     list_rep (s\<lparr>nxt := n, prv := p\<rparr>) kwaiters [] \<and> (\<forall>j < 7. list_rep (s\<lparr>nxt := n, prv := p\<rparr>) (free_list (kdesc j)) []) \<and>
     (\<forall>j < 7. d (kdesc j) = \<lparr>block_size = of_nat (bsize j), block_per_arena = of_nat (bcount j)\<rparr>)"
proof (induction k arbitrary: s i sz)
  case 0
  then show ?case
    by - (rule exI [of _ "nxt s"], rule exI [of _ "prv s"], rule exI [of _ "block_descs s"], simp add: list_rep_def)
next
  case (Suc k)
  have i: "i < 7" using Suc.prems(1) by simp
  let ?e = "\<lparr>block_size = of_nat (bsize i), block_per_arena = of_nat (bcount i)\<rparr>"
  let ?d = "(block_descs s)(kdesc i := ?e)"
  define t where "t = list_init (s\<lparr>block_descs := ?d\<rparr>) (free_list (kdesc i))"
  have t: "t = s\<lparr>nxt := nxt t, prv := prv t, block_descs := ?d\<rparr>"
    unfolding t_def by (simp add: list_init_def Let_def set_nxt_def set_prv_def)
  have old: "list_rep (s\<lparr>block_descs := ?d\<rparr>) l xs = list_rep s l xs" for l xs by (simp add: list_rep_def)
  have step: "desc_init_loop s k_block_descs i (Suc k) sz = desc_init_loop t k_block_descs (Suc i) k (sz * 2)"
    unfolding desc_init_loop.simps Let_def t_def kdesc_def [symmetric] Suc.prems(2) desc_values [OF i] ..
  have w: "list_rep t kwaiters []"
    unfolding t_def by (rule list_init_other [OF _ heads_apart(2) [OF i]]) (simp add: old Suc.prems(3))
  have l: "list_rep t (free_list (kdesc j)) []" if "j < Suc i" for j
  proof (cases "j = i")
    case True
    then show ?thesis by (simp add: t_def list_init_rep)
  next
    case False
    then have "j < i" "j < 7" using that i by simp_all
    then show ?thesis
      unfolding t_def by (intro list_init_other [OF _ heads_apart(1) [OF _ i]]) (simp_all add: old Suc.prems(4))
  qed
  have bd: "block_descs t = ?d" using t by (metis memory.select_convs(2) memory.surjective memory.update_convs(2))
  have d: "block_descs t (kdesc j) = \<lparr>block_size = of_nat (bsize j), block_per_arena = of_nat (bcount j)\<rparr>" if "j < Suc i" for j
    using that Suc.prems(5) [of j] head_inj [OF i, of j] i unfolding bd by (cases "j = i") auto
  have sz: "sz * 2 = of_nat (bsize (Suc i))" unfolding Suc.prems(2) by (simp add: bsize_def)
  have "Suc i + k = 7" using Suc.prems(1) by simp
  from Suc.IH [OF this sz w l d] obtain n p e where
    r: "desc_init_loop t k_block_descs (Suc i) k (sz * 2) = t\<lparr>nxt := n, prv := p, block_descs := e\<rparr>"
      "list_rep (t\<lparr>nxt := n, prv := p\<rparr>) kwaiters []" "\<forall>j < 7. list_rep (t\<lparr>nxt := n, prv := p\<rparr>) (free_list (kdesc j)) []"
      "\<forall>j < 7. e (kdesc j) = \<lparr>block_size = of_nat (bsize j), block_per_arena = of_nat (bcount j)\<rparr>" by blast
  have "t\<lparr>nxt := n, prv := p, block_descs := e\<rparr> = s\<lparr>nxt := n, prv := p, block_descs := e\<rparr>" by (subst t) simp
  moreover have "list_rep (t\<lparr>nxt := n, prv := p\<rparr>) m xs = list_rep (s\<lparr>nxt := n, prv := p\<rparr>) m xs" for m xs by (simp add: list_rep_def)
  ultimately show ?case
    using r step by - (rule exI [of _ n], rule exI [of _ p], rule exI [of _ e], simp)
qed

lemma empty_lists_rep:
  assumes "list_rep s kwaiters []" and "\<forall>j < 7. list_rep s (free_list (kdesc j)) []"
  shows "lists_rep s (klists (\<lambda>_. []))"
  unfolding lists_rep_def
proof (intro conjI allI impI)
  fix l xs assume "klists (\<lambda>_. []) l = Some xs"
  then show "list_rep s l xs" using assms by (cases rule: klists_cases) auto
next
  fix l m xs ys
  assume l: "klists (\<lambda>_. []) l = Some xs" and m: "klists (\<lambda>_. []) m = Some ys" and "l \<noteq> m"
  from m show "list_cells l xs \<inter> list_cells m ys = {}"
  proof (cases rule: klists_cases)
    case 1
    with l \<open>l \<noteq> m\<close> show ?thesis using heads_apart(2) by (cases rule: klists_cases) auto
  next
    case (2 i)
    with l \<open>l \<noteq> m\<close> show ?thesis using heads_apart by (cases rule: klists_cases) (auto simp: Int_commute)
  qed
qed

lemma heap_idle_init:
  assumes "pgdir (tasks s (cur s)) = NULL" and "cur s \<noteq> NULL"
  shows "heap_idle (lock_init (lock_init s klock) (pool_lock PF_USER))"
  using assms by (simp add: heap_idle_def lock_init_def sema_init_def list_init_def Let_def set_holder_def set_value_def sched
      set_nxt_def set_prv_def semaphore_def pool_lock_def)

lemma lock_init_lists: "list_rep (lock_init (lock_init s klock) (pool_lock PF_USER)) kwaiters []"
proof -
  have l: "list_rep (lock_init t l) m xs = list_rep (list_init t (waiters (semaphore l))) m xs" for t :: "'a sync_scheme" and l m xs
    by (simp add: list_rep_def lock_init_def sema_init_def set_holder_def set_value_def list_init_def Let_def set_nxt_def set_prv_def)
  have "list_rep (lock_init s klock) kwaiters []" unfolding l kwaiters_def by (rule list_init_rep)
  have "list_cells kwaiters [] \<inter> list_cells (waiters (semaphore (pool_lock PF_USER))) [] = {}"
    by (simp add: list_cells_def kwaiters_def waiters_def semaphore_def pool_lock_def TAIL_def)
  with \<open>list_rep _ kwaiters []\<close> show ?thesis unfolding l [of "lock_init s klock"] by (rule list_init_other)
qed

text \<open>How many pages \<open>mem_pool_init\<close> finds, and how many of them it gives the kernel.\<close>

definition boot_pages :: "u32 \<Rightarrow> nat" where
  "boot_pages n = unat ((n - 0x200000) div PG_SIZE) mod 65536"

lemma mem_pool_init_eq:
  fixes s :: "'a sync_scheme" and n :: u32
  assumes "length ram = 16384"
  defines "k \<equiv> boot_pages n div 2" and "u \<equiv> boot_pages n - boot_pages n div 2"
  shows "\<exists>kb ub vb t. mem_pool_init s ram n = Inr (lock_init (lock_init t klock) (pool_lock PF_USER)) \<and>
    t = s\<lparr>kernel_pool := \<lparr>pool_bitmap = kb, phy_addr_start = 0x200000, pool_size = of_nat (k * 4096)\<rparr>,
          user_pool := \<lparr>pool_bitmap = ub, phy_addr_start = of_nat (0x200000 + k * 4096), pool_size = of_nat (u * 4096)\<rparr>,
          kernel_vaddr := \<lparr>vaddr_bitmap = vb, vaddr_start = K_HEAP_START\<rparr>\<rparr> \<and>
    bm_ok kb \<and> bm_size kb = 8 * (k div 8) \<and> (\<forall>i < bm_size kb. \<not> bm_bit kb i) \<and>
    bm_ok ub \<and> bm_size ub = 8 * (u div 8) \<and> (\<forall>i < bm_size ub. \<not> bm_bit ub i) \<and>
    bm_ok vb \<and> bm_size vb = 8 * (k div 8) \<and> (\<forall>i < bm_size vb. \<not> bm_bit vb i) \<and> unat (btmp_bytes_len vb) < length (bits vb)"
proof -
  define f :: u16 where "f = ucast ((n - 0x200000) div PG_SIZE)"
  have f: "unat f = boot_pages n" by (simp add: f_def boot_pages_def unsigned_ucast_eq take_bit_eq_mod)
  have lt: "boot_pages n < 65536" by (simp add: boot_pages_def)
  have fk: "unat (f div 2) = k" using f by (simp add: k_def unat_div_word)
  then have fu: "unat (f - f div 2) = u" using f by (simp add: u_def k_def unat_sub_no_wrap)
  have k: "k \<le> 32767" "u \<le> 32768" using lt by (simp_all add: k_def u_def)
  let ?k = "(ucast (f div 2) :: u32) div 8" and ?u = "(ucast (f - f div 2) :: u32) div 8"
  have uk: "unat (ucast (f div 2) :: u32) = k" "unat (ucast (f - f div 2) :: u32) = u"
    using fk fu k by (simp_all add: unsigned_ucast_eq take_bit_nat_eq_self)
  then have uc: "ucast (f div 2) = (of_nat k :: u32)" "ucast (f - f div 2) = (of_nat u :: u32)"
    using k uk unat_of_nat_small [where 'a = 32, of k] unat_of_nat_small [where 'a = 32, of u]
    by (simp_all add: word_unat_eq_iff)
  have ln: "unat ?k = k div 8" "unat ?u = u div 8" using uk by (simp_all add: unat_div_word)
  let ?kb = "\<lparr>btmp_bytes_len = ?k, bits = take (k div 8) ram\<rparr>"
    and ?ub = "\<lparr>btmp_bytes_len = ?u, bits = take (u div 8) (drop (k div 8) ram)\<rparr>"
    and ?vb = "\<lparr>btmp_bytes_len = ?k, bits = drop (k div 8 + u div 8) ram\<rparr>"
  have kd: "k div 8 \<le> 4096" "u div 8 \<le> 4096" using div_le_mono [OF k(1), of 8] div_le_mono [OF k(2), of 8] by simp_all
  then have "u div 8 \<le> 16384 - k div 8" "k div 8 \<le> 16384 - (k div 8 + u div 8)" "k div 8 < 16384 - (k div 8 + u div 8)" by linarith+
  note room = this kd
  then have ok: "bm_ok ?kb" "bm_ok ?ub" "bm_ok ?vb" using ln assms(1) by (simp_all add: bm_ok_def bm_size_def)
  obtain kb where kb: "bitmap_init ?kb = Inr kb" "bm_upd ?kb {..<bm_size ?kb} False kb"
    using bitmap_init_clears [OF ok(1)] by blast
  obtain ub where ub: "bitmap_init ?ub = Inr ub" "bm_upd ?ub {..<bm_size ?ub} False ub"
    using bitmap_init_clears [OF ok(2)] by blast
  obtain vb where vb: "bitmap_init ?vb = Inr vb" "bm_upd ?vb {..<bm_size ?vb} False vb"
    using bitmap_init_clears [OF ok(3)] by blast
  have sizes: "bm_size kb = 8 * (k div 8)" "bm_size ub = 8 * (u div 8)" "bm_size vb = 8 * (k div 8)"
    using bm_upd_size [OF kb(2)] bm_upd_size [OF ub(2)] bm_upd_size [OF vb(2)] ln by (simp_all add: bm_size_def)
  have clear: "\<forall>i < bm_size b'. \<not> bm_bit b' i" if "bm_upd b {..<bm_size b} False b'" for b b'
    using that bm_upd_size [OF that] by (simp add: bm_upd_def)
  have spare: "unat (btmp_bytes_len vb) < length (bits vb)"
    using vb(2) ln room assms(1) by (simp add: bm_upd_def)
  have base: "PG_SIZE * 256 + 0x100000 = (0x200000 :: u32)" by (simp add: PG_SIZE_def)
  have ps: "of_nat m * PG_SIZE = (of_nat (m * 4096) :: u32)" for m by (simp add: PG_SIZE_def)
  have "mem_pool_init s ram n = Inr (lock_init (lock_init (s\<lparr>kernel_pool := \<lparr>pool_bitmap = kb, phy_addr_start = 0x200000, pool_size = of_nat (k * 4096)\<rparr>,
          user_pool := \<lparr>pool_bitmap = ub, phy_addr_start = of_nat (0x200000 + k * 4096), pool_size = of_nat (u * 4096)\<rparr>,
          kernel_vaddr := \<lparr>vaddr_bitmap = vb, vaddr_start = K_HEAP_START\<rparr>\<rparr>) klock) (pool_lock PF_USER))"
    unfolding mem_pool_init_def Let_def base f_def [symmetric] uc ln [unfolded uc] ps
    using kb(1) ub(1) vb(1) by (simp add: uc ps)
  then show ?thesis
    using ok bm_upd_ok [OF kb(2)] bm_upd_ok [OF ub(2)] bm_upd_ok [OF vb(2)] sizes clear [OF kb(2)] clear [OF ub(2)] clear [OF vb(2)] spare
    by blast
qed

lemma empty_heap_inv:
  assumes "kpages_ok s" and "descs_ok s" and "lists_rep s (klists (\<lambda>_. []))"
  shows "heap_inv s (\<lambda>_. None) (\<lambda>_. []) (\<lambda>_. None)"
  using assms by (simp add: heap_inv_def heap_data_def apart_def)

lemma empty_heap_rep: "heap_idle s \<Longrightarrow> heap_inv s (\<lambda>_. None) (\<lambda>_. []) (\<lambda>_. None) \<Longrightarrow> heap_rep s {}"
  unfolding heap_rep_def
  by (intro conjI exI [of _ "\<lambda>_. None"] exI [of _ "\<lambda>_. []"]) (simp_all add: in_use_def used_blocks_def)

text \<open>Pools and pages as \<open>mem_pool_init\<close> leaves them.\<close>

lemma fresh_pages_ok:
  assumes "kernel_pool s = \<lparr>pool_bitmap = kb, phy_addr_start = 0x200000, pool_size = ks\<rparr>"
    and "user_pool s = \<lparr>pool_bitmap = ub, phy_addr_start = of_nat (0x200000 + k * 4096), pool_size = us\<rparr>"
    and "kernel_vaddr s = \<lparr>vaddr_bitmap = vb, vaddr_start = K_HEAP_START\<rparr>" and "k \<le> 32767"
    and "bm_ok kb" "bm_size kb = 8 * (k div 8)" and "bm_ok vb" "bm_size vb = 8 * (k div 8)" "unat (btmp_bytes_len vb) < length (bits vb)"
    and "\<And>i. i \<le> 32768 \<Longrightarrow> \<not> mapped s (kpage i)"
  shows "kpages_ok s"
proof -
  have kd: "8 * (k div 8) \<le> k" by simp
  have none: "kmap s i = None" if "i \<le> 32768" for i using assms(10) [OF that] by (simp add: kmap_def)
  have kb: "kpages s \<le> 32768" "kbitmap_ok s"
    using assms(3,4,7-9) kd by (simp_all add: kbitmap_ok_def kbm_def kpages_def)
  have "unat (of_nat (0x200000 + k * 4096) :: u32) = 0x200000 + k * 4096" using assms(4) by (intro unat_of_nat_small) simp
  then have "pools_ok s" using assms(1,2,4-6) kd by (simp add: pools_ok_def pool_ok_def)
  then have "frames_ok s" using none kb(1) by (simp add: frames_ok_def)
  then show ?thesis using none kb by (simp add: kpages_ok_def)
qed

lemma mem_init_eq:
  fixes s :: "'a memory_scheme" and n :: u32
  assumes "pgdir (tasks s (cur s)) = NULL" and "cur s \<noteq> NULL" and "\<forall>i \<le> 32768. \<not> mapped s (kpage i)"
    and "length ram = 16384"
  shows "\<exists>s'. mem_init s ram n = Inr s' \<and> heap_rep s' {} \<and>
    kpages s' = 8 * (boot_pages n div 2 div 8) \<and> (\<forall>i < kpages s'. \<not> kused s' i) \<and>
    bm_size (pool_bitmap (kernel_pool s')) = 8 * (boot_pages n div 2 div 8) \<and>
    (\<forall>i < bm_size (pool_bitmap (kernel_pool s')). \<not> pool_used (kernel_pool s') i) \<and>
    bm_size (pool_bitmap (user_pool s')) = 8 * ((boot_pages n - boot_pages n div 2) div 8) \<and>
    (\<forall>i < bm_size (pool_bitmap (user_pool s')). \<not> pool_used (user_pool s') i) \<and>
    pool_size (kernel_pool s') = of_nat (boot_pages n div 2 * 4096)"
proof -
  let ?k = "boot_pages n div 2" and ?u = "boot_pages n - boot_pages n div 2"
  have k: "?k \<le> 32767" using div_le_mono [of "boot_pages n" 65535 2] by (simp add: boot_pages_def)
  obtain kb ub vb t where t: "mem_pool_init s ram n = Inr (lock_init (lock_init t klock) (pool_lock PF_USER))"
    "t = s\<lparr>kernel_pool := \<lparr>pool_bitmap = kb, phy_addr_start = 0x200000, pool_size = of_nat (?k * 4096)\<rparr>,
          user_pool := \<lparr>pool_bitmap = ub, phy_addr_start = of_nat (0x200000 + ?k * 4096), pool_size = of_nat (?u * 4096)\<rparr>,
          kernel_vaddr := \<lparr>vaddr_bitmap = vb, vaddr_start = K_HEAP_START\<rparr>\<rparr>"
    "bm_ok kb" "bm_size kb = 8 * (?k div 8)" "\<forall>i < bm_size kb. \<not> bm_bit kb i"
    "bm_ok ub" "bm_size ub = 8 * (?u div 8)" "\<forall>i < bm_size ub. \<not> bm_bit ub i"
    "bm_ok vb" "bm_size vb = 8 * (?k div 8)" "\<forall>i < bm_size vb. \<not> bm_bit vb i" "unat (btmp_bytes_len vb) < length (bits vb)"
    using mem_pool_init_eq [OF assms(4), of s n] by blast
  let ?t = "lock_init (lock_init t klock) (pool_lock PF_USER)"
  obtain nx pv d where r: "desc_init_loop ?t k_block_descs 0 7 16 = ?t\<lparr>nxt := nx, prv := pv, block_descs := d\<rparr>"
    "list_rep (?t\<lparr>nxt := nx, prv := pv\<rparr>) kwaiters []" "\<forall>j < 7. list_rep (?t\<lparr>nxt := nx, prv := pv\<rparr>) (free_list (kdesc j)) []"
    "\<forall>j < 7. d (kdesc j) = \<lparr>block_size = of_nat (bsize j), block_per_arena = of_nat (bcount j)\<rparr>"
    using desc_init_loop_eq [of 0 7 16 ?t] lock_init_lists [of t] by (auto simp: bsize_def)
  define s' where "s' = ?t\<lparr>nxt := nx, prv := pv, block_descs := d\<rparr>"
  have f: "ptw s' = ptw s" "kernel_pool s' = kernel_pool t" "user_pool s' = user_pool t" "kernel_vaddr s' = kernel_vaddr t" "block_descs s' = d"
    by (simp_all add: s'_def t(2) lock_init_def sema_init_def list_init_def Let_def set_holder_def set_value_def set_nxt_def set_prv_def)
  have "mapped s' v = mapped s v" for v using f(1) by (simp add: mapped_def table_present_def)
  then have "\<not> mapped s' (kpage i)" if "i \<le> 32768" for i using assms(3) that by simp
  then have pages: "kpages_ok s'"
    using t(3,4,9,10,12) f t(2) by (intro fresh_pages_ok [OF _ _ _ k]) simp_all
  have "list_rep s' l xs = list_rep (?t\<lparr>nxt := nx, prv := pv\<rparr>) l xs" for l xs by (simp add: list_rep_def s'_def)
  then have "lists_rep s' (klists (\<lambda>_. []))" using r(2,3) by (intro empty_lists_rep) simp_all
  then have inv: "heap_inv s' (\<lambda>_. None) (\<lambda>_. []) (\<lambda>_. None)"
    using pages r(4) f(5) by (intro empty_heap_inv) (simp_all add: descs_ok_def)
  have "heap_idle ?t" using assms(1,2) by (intro heap_idle_init) (simp_all add: t(2))
  then have "heap_idle s'" by (simp add: heap_idle_def s'_def)
  then have "heap_rep s' {}" by (rule empty_heap_rep [OF _ inv])
  moreover have "mem_init s ram n = Inr s'"
    using t(1) r(1) by (simp add: mem_init_def block_desc_init_def DESC_CNT_def s'_def)
  ultimately show ?thesis using t(4,5,7,8,10,11) f(2-4) t(2)
    by (intro exI [of _ s']) (simp add: kpages_def kbm_def kused_def pool_used_def)
qed

text \<open>
  C23: \<open>mem_init\<close> sets up memory.  The 16 KB between \<open>MEM_BITMAP_BASE\<close> and the task structure of the
  main thread hold the three bitmaps of any machine: the calls of \<open>bitmap_init\<close> stay inside.  What
  is there afterwards is the empty heap, with every lock, list and descriptor it needs, all
  virtual pages and all frames free, and the pages of the machine (modulo 65536, for the counts have 16 bits)
  divided between the kernel and the user.
\<close>

theorem mem_init_establishes:
  fixes s :: "'a memory_scheme" and n :: u32
  assumes "pgdir (tasks s (cur s)) = NULL" and "cur s \<noteq> NULL" and "\<forall>i \<le> 32768. \<not> mapped s (kpage i)"
    and "length ram = 16384"
  shows "\<exists>s'. mem_init s ram n = Inr s' \<and> heap_rep s' {} \<and>
    kpages s' = 8 * (boot_pages n div 2 div 8) \<and> (\<forall>i < kpages s'. \<not> kused s' i) \<and>
    bm_size (pool_bitmap (kernel_pool s')) = 8 * (boot_pages n div 2 div 8) \<and>
    (\<forall>i < bm_size (pool_bitmap (kernel_pool s')). \<not> pool_used (kernel_pool s') i) \<and>
    bm_size (pool_bitmap (user_pool s')) = 8 * ((boot_pages n - boot_pages n div 2) div 8) \<and>
    (\<forall>i < bm_size (pool_bitmap (user_pool s')). \<not> pool_used (user_pool s') i) \<and>
    pool_size (kernel_pool s') = of_nat (boot_pages n div 2 * 4096)"
  by (rule mem_init_eq [OF assms])

text \<open>A machine with 32 MB, all of whose bitmap memory held ones before.\<close>

definition demo_ram :: "u8 list" where
  "demo_ram = replicate 16384 255"

definition demo_heap :: memory where
  "demo_heap = (case mem_init demo_memory demo_ram 0x2000000 of Inr s \<Rightarrow> s | Inl e \<Rightarrow> demo_memory)"

lemma ptw_append: "ptw (list_append s l e) = ptw s"
  using list_append_more [of s l e] by (cases s; cases "list_append s l e") (simp add: lheap.defs)

lemma demo_memory_boot:
  "pgdir (tasks demo_memory (cur demo_memory)) = NULL" "cur demo_memory \<noteq> NULL" "\<not> mapped demo_memory v"
proof -
  show "pgdir (tasks demo_memory (cur demo_memory)) = NULL" "cur demo_memory \<noteq> NULL"
    using demo_timer_task(2) by (simp_all add: demo_memory_fields demo_timer_fields demo_task_def)
  have "ptw demo_memory = (\<lambda>_. 0)"
    by (simp add: demo_memory_def timer.defs demo_timer_def sync.defs sched.defs demo_sched_def Let_def ptw_append list_init_def
        set_prv_def set_nxt_def demo_empty_def vm.defs some_vm_def)
  then show "\<not> mapped demo_memory v" by (simp add: mapped_def table_present_def)
qed

theorem mem_init_establishes_witness:
  "\<exists>s'. mem_init demo_memory demo_ram 0x2000000 = Inr s' \<and> heap_rep s' {} \<and> kpages s' = 3840 \<and>
     pool_size (kernel_pool s') = 15728640"
proof -
  have "length demo_ram = 16384" by (simp add: demo_ram_def)
  moreover have "boot_pages 0x2000000 = 7680" by (simp add: boot_pages_def PG_SIZE_def)
  ultimately show ?thesis
    using mem_init_establishes [of demo_memory demo_ram "0x2000000"] demo_memory_boot by auto
qed

lemma demo_heap_rep: "heap_rep demo_heap {}" and demo_heap_pool: "pool_size (kernel_pool demo_heap) = 15728640"
proof -
  have "length demo_ram = 16384" by (simp add: demo_ram_def)
  moreover have "boot_pages 0x2000000 = 7680" by (simp add: boot_pages_def PG_SIZE_def)
  ultimately obtain s' where s': "mem_init demo_memory demo_ram 0x2000000 = Inr s'" "heap_rep s' {}"
      "pool_size (kernel_pool s') = 15728640"
    using mem_init_eq [of demo_memory demo_ram "0x2000000"] demo_memory_boot by auto
  then have "demo_heap = s'" by (simp add: demo_heap_def)
  with s' show "heap_rep demo_heap {}" "pool_size (kernel_pool demo_heap) = 15728640" by simp_all
qed

section \<open>The allocator's promises\<close>

text \<open>
  C4: \<open>sys_malloc\<close> refines the abstract allocator.  For every request up to \<open>heap_limit\<close> bytes it
  returns: with a block of at least that size, cleared, whose bytes belong to no block in use, and
  which is in use from then on; or with \<open>NULL\<close> and no change to the blocks, for an empty request,
  one of the size of the pool, or because the virtual pages have no run that is long enough or no
  frame is left.  The contents of the blocks in use are as before, and so is the rest of the state.
\<close>

theorem sys_malloc_refines:
  assumes "heap_rep s M" and "unat n \<le> heap_limit"
  shows "\<exists>b s'. sys_malloc s n = Inr (b, s') \<and> rest s' = rest s \<and> keeps_mem s M s' \<and>
    (if b = NULL then heap_rep s' M \<and> (n = 0 \<or> pool_size (kernel_pool s) \<le> n \<or> short_of s (pages_of n) s')
     else \<exists>sz. unat n \<le> sz \<and> (b, sz) \<notin> M \<and> heap_rep s' (insert (b, sz) M) \<and>
       (\<forall>(c, k) \<in> M. bytes_at b sz \<inter> bytes_at c k = {}) \<and> (\<forall>x \<in> bytes_at b sz. mem s' x = 0))"
proof -
  from heap_malloc [OF assms] obtain b s' where r: "sys_malloc s n = Inr (b, s')" "rest s' = rest s" "keeps_mem s M s'"
    "if b = NULL then heap_rep s' M \<and> (n = 0 \<or> pool_size (kernel_pool s) \<le> n \<or> short_of s (pages_of n) s')
     else \<exists>sz. unat n \<le> sz \<and> (b, sz) \<notin> M \<and> heap_rep s' (insert (b, sz) M) \<and> (\<forall>x \<in> bytes_at b sz. mem s' x = 0)" by blast
  have "\<forall>(c, k) \<in> M. bytes_at b sz \<inter> bytes_at c k = {}" if "(b, sz) \<notin> M" "heap_rep s' (insert (b, sz) M)" for sz
  proof -
    have "apart_blocks (insert (b, sz) M)" using that(2) used_apart by (auto simp: heap_rep_def heap_inv_def)
    then show ?thesis using apart_blocksD(2) [of "insert (b, sz) M" b sz] that(1) by blast
  qed
  note apart = this
  show ?thesis
  proof (cases "b = NULL")
    case True
    then show ?thesis using r by (intro exI [of _ b] exI [of _ s']) simp
  next
    case False
    then obtain sz where sz: "unat n \<le> sz" "(b, sz) \<notin> M" "heap_rep s' (insert (b, sz) M)" "\<forall>x \<in> bytes_at b sz. mem s' x = 0"
      using r(4) by auto
    then show ?thesis using r(1-3) False apart [OF sz(2,3)] by (intro exI [of _ b] exI [of _ s']) auto
  qed
qed

theorem sys_malloc_refines_witness:
  "\<exists>b s'. sys_malloc demo_heap 100 = Inr (b, s') \<and> (b = NULL \<longrightarrow> short_of demo_heap 1 s') \<and>
     (b \<noteq> NULL \<longrightarrow> (\<forall>x \<in> bytes_at b 100. mem s' x = 0))"
proof -
  have n: "unat (100 :: u32) \<le> heap_limit" by (simp add: heap_limit_def)
  have "pages_of 100 = 1" by (simp add: pages_of_def)
  moreover have "bytes_at b 100 \<subseteq> bytes_at b sz" if "100 \<le> sz" for b sz using bytes_mono [OF that] .
  ultimately show ?thesis
    using sys_malloc_refines [OF demo_heap_rep n] demo_heap_pool by (fastforce split: if_splits)
qed

text \<open>
  C5: \<open>sys_free\<close> refines the release of a block.  Given the address of a block in use it returns, the
  block is not in use any more, whatever arena it came from, and all other blocks, all bytes of memory and
  the rest of the state are as before.
\<close>

theorem sys_free_refines:
  assumes "heap_rep s M" and "(b, sz) \<in> M"
  shows "\<exists>s'. sys_free s b = Inr s' \<and> heap_rep s' (M - {(b, sz)}) \<and> mem s' = mem s \<and> rest s' = rest s"
  by (rule heap_free [OF assms])

theorem sys_free_refines_witness:
  "\<exists>b s'. sys_malloc demo_heap 5000 = Inr (b, s') \<and> (b \<noteq> NULL \<longrightarrow> (\<exists>t. sys_free s' b = Inr t \<and> heap_rep t {}))"
proof -
  have n: "unat (5000 :: u32) \<le> heap_limit" by (simp add: heap_limit_def)
  from heap_malloc [OF demo_heap_rep n] obtain b s' where r: "sys_malloc demo_heap 5000 = Inr (b, s')"
    "b \<noteq> NULL \<longrightarrow> (\<exists>sz. heap_rep s' {(b, sz)})" by (auto split: if_splits)
  have "\<exists>t. sys_free s' b = Inr t \<and> heap_rep t {}" if "heap_rep s' {(b, sz)}" for sz
    using sys_free_refines [OF that, of b sz] by auto
  then show ?thesis using r by blast
qed

text \<open>
  C6: any sequence of requests, from any state of the heap: none of them fails otherwise than with
  \<open>NULL\<close>, the memory asked for is cleared and no byte of it belongs to another block, new or old;
  and when the blocks are given back, in any order, the heap has exactly the blocks it had
  before, with the contents they had before.
\<close>

theorem heap_sequences:
  fixes s :: memory
  assumes "heap_rep s M" and "\<forall>n \<in> set ns. unat n \<le> heap_limit"
  shows "\<exists>bs s'. malloc_all sys_malloc s ns = Inr (bs, s') \<and> length bs = length ns \<and>
    (\<forall>i < length ns. bs ! i \<noteq> NULL \<longrightarrow>
       (\<forall>j < length ns. i \<noteq> j \<longrightarrow> bs ! j \<noteq> NULL \<longrightarrow> bytes_at (bs ! i) (unat (ns ! i)) \<inter> bytes_at (bs ! j) (unat (ns ! j)) = {}) \<and>
       (\<forall>(c, k) \<in> M. bytes_at (bs ! i) (unat (ns ! i)) \<inter> bytes_at c k = {}) \<and>
       (\<forall>x \<in> bytes_at (bs ! i) (unat (ns ! i)). mem s' x = 0)) \<and>
    (\<forall>cs. distinct cs \<longrightarrow> set cs = set bs - {NULL} \<longrightarrow>
       (\<exists>t. free_all sys_free s' cs = Inr t \<and> heap_rep t M \<and> keeps_blocks (mem s) M (mem t)))"
  by (rule kheap.sequence [OF assms])

theorem heap_sequences_witness:
  "\<exists>a b c s' t. malloc_all sys_malloc demo_heap [100, 2000, 16] = Inr ([a, b, c], s') \<and>
     free_all sys_free s' (filter (\<lambda>x. x \<noteq> NULL) (remdups [b, a, c])) = Inr t \<and> heap_rep t {}"
proof -
  have "\<forall>n \<in> set [100, 2000, 16 :: u32]. unat n \<le> heap_limit" by (simp add: heap_limit_def)
  from heap_sequences [OF demo_heap_rep this] obtain bs s' where
    r: "malloc_all sys_malloc demo_heap [100, 2000, 16] = Inr (bs, s')" "length bs = length [100, 2000, 16 :: u32]"
      "\<forall>cs. distinct cs \<longrightarrow> set cs = set bs - {NULL} \<longrightarrow>
         (\<exists>t. free_all sys_free s' cs = Inr t \<and> heap_rep t {} \<and> keeps_blocks (mem demo_heap) {} (mem t))" by blast
  from r(2) obtain a b c where bs: "bs = [a, b, c]" by (auto simp: length_Suc_conv)
  define cs where "cs = filter (\<lambda>x. x \<noteq> NULL) (remdups [b, a, c])"
  have "distinct cs" unfolding cs_def by (intro distinct_filter distinct_remdups)
  moreover have "set cs = set bs - {NULL}" unfolding cs_def set_filter set_remdups bs by auto
  ultimately have "\<exists>t. free_all sys_free s' cs = Inr t \<and> heap_rep t {}" using r(3) by blast
  then show ?thesis using r(1) unfolding bs cs_def by blast
qed

text \<open>
  C24: the requests in between: more than \<open>heap_limit\<close> bytes but less than the size of the pool pass
  the test of \<open>sys_malloc\<close> and then fail the assertion of \<open>malloc_page\<close>, which allows at most 3839 pages; the
  caller does not get the \<open>NULL\<close> it is promised, the kernel panics.
\<close>

theorem sys_malloc_panics:
  assumes "heap_idle s" and "heap_limit < unat n" and "n < pool_size (kernel_pool s)" and "unat n < 2 ^ 32 - 4107"
  shows "sys_malloc s n = Inl Panic"
proof -
  have "unat (n + sizeof_arena) = unat n + 12" using assms(4) by (subst unat_add_no_wrap) (simp_all add: sizeof_arena_def)
  then have "unat (DIV_ROUND_UP (n + sizeof_arena) PG_SIZE) = (unat n + 4107) div 4096"
    using assms(4) by (subst unat_DIV_ROUND_UP) (simp_all add: PG_SIZE_def)
  moreover have "3840 * 4096 div 4096 \<le> (unat n + 4107) div 4096"
    using assms(2) by (intro div_le_mono) (simp add: heap_limit_def)
  ultimately have "\<not> DIV_ROUND_UP (n + sizeof_arena) PG_SIZE < 3840" by (simp add: unat_less_iff)
  then have "malloc_large (inside s klock) PF_KERNEL n = Inl Panic"
    by (simp add: malloc_large_def malloc_page_def)
  moreover have "n > 1024" "n > 0" using assms(2) by (simp_all add: heap_limit_def unat_less_iff)
  ultimately show ?thesis
    using assms(1,3) enter_inside [OF assms(1)] unfolding sys_malloc_def by (simp add: heap_idle_def Let_def pool_of_def)
qed

theorem sys_malloc_panics_witness: "sys_malloc demo_heap 15728000 = Inl Panic"
proof -
  have "heap_idle demo_heap" using demo_heap_rep by (simp add: heap_rep_def)
  then show ?thesis by (rule sys_malloc_panics) (simp_all add: heap_limit_def demo_heap_pool)
qed

end
