(* ===== verification/Mmu.thy ===== *)
theory Mmu
  imports Paging
begin


section \<open>Address translation\<close>










section \<open>Well-formed address spaces\<close>




section \<open>Offsets\<close>












section \<open>The window\<close>





section \<open>Adding a page\<close>




















section \<open>An example\<close>














end
