(* ===== verification/Spec2Isabelle.thy ===== *)
theory Spec2Isabelle
  imports Keyboard Readback Console Idescan Forkspec Exec Shellspec Syscall Ata Kheap Mmu
begin

text \<open>
  A model of the GlowOS kernel, a small 32-bit operating system for the i386, and proofs about it.

  \<^bold>\<open>The program.\<close>  GlowOS is a monolithic kernel in C with some assembly.  \<open>lib/\<close> holds strings, bitmaps,
  intrusive lists and formatted output.  \<open>kernel/\<close> holds interrupts and memory: frames, page tables,
  virtual pages, the heap.  \<open>thread/\<close> holds the round-robin scheduler, semaphores and locks; \<open>device/\<close> the
  clock, keyboard, console and ATA disk drivers; \<open>fs/\<close> a file system of inodes and directories on a
  partition of the disk; \<open>userprog/\<close> processes, \<open>fork\<close>, \<open>exec\<close> and the system call table; \<open>shell/\<close> the shell
  and its built-in commands.  The clock interrupt drives the scheduler; a thread that waits for a
  semaphore, the keyboard or the disk blocks and \<open>schedule\<close> picks the next; every allocator scans
  a bitmap; the file system reads and writes the disk through \<open>ide_read\<close> and \<open>ide_write\<close>; system calls
  reach the kernel functions through \<open>syscall_table\<close>.

  \<^bold>\<open>Conventions\<close> (theory \<open>Prelude\<close>).  Machine integers are words of their width, so every wrap-around
  of the code is one here; \<open>int32_t\<close> is a word read with \<open>sint\<close>.  A C array is a list of its elements,
  loads and stores are checked.  Every function that can fail returns \<open>'a res\<close>: \<open>Inl\<close> of \<open>Panic\<close> (an
  \<open>ASSERT\<close> or \<open>PANIC\<close>), \<open>OutOfBounds\<close>, \<open>WildPointer\<close>, \<open>Uninitialised\<close>, \<open>DivideError\<close>, \<open>Hang\<close> (a loop that never
  ends) or \<open>Blocked\<close> (the caller would wait), or \<open>Inr\<close> of what the code computes.  State is passed
  explicitly; the records extend one another as the components build on one another:
  \<open>cpu\<close>, \<open>lheap\<close>, \<open>vm\<close>, \<open>sched\<close>, \<open>sync\<close>, \<open>timer\<close>, and from there \<open>iostate\<close>, \<open>memory\<close>, \<open>console\<close>,
  \<open>ide\<close> and \<open>proc\<close>; the file system has its own record \<open>fsys\<close>.

  \<^bold>\<open>Theories, code, and what is shown.\<close>

  \<^item> \<open>Cstring\<close>: \<open>lib/string.c\<close>.  On terminated strings each routine is the list operation it means to be;
    \<open>strcmp\<close> decides an order.
  \<^item> \<open>Bitmap\<close>, \<open>Alloc\<close>: \<open>lib/kernel/bitmap.c\<close>.  \<open>bitmap_scan\<close> finds the first run of free bits, or one that
    leaves the bitmap by one bit.  \<open>Alloc\<close>
    is the contract of an allocator over a bitmap as a locale, interpreted by the pools of frames, the inodes and
    the blocks.
  \<^item> \<open>Klist\<close>, \<open>Fifo\<close>: \<open>lib/kernel/list.c\<close> over a heap of links.  \<open>list_rep\<close> abstracts a list, \<open>lists_rep\<close>
    all lists together; the operations refine those on HOL lists, the loops end.  \<open>Fifo\<close> is the contract
    of a queue, interpreted by the lists and by the ring buffer.
  \<^item> \<open>Stdio\<close>: \<open>lib/stdio.c\<close>.  \<open>vsprintf\<close> prints what the format denotes.
  \<^item> \<open>Interrupt\<close>, \<open>Console\<close>: \<open>kernel/interrupt.c\<close>, \<open>kernel/debug.c\<close>, \<open>device/console.c\<close>, \<open>lib/kernel/print.S\<close>: the
    interrupt flag, the descriptor table, the interrupt controller, the screen.
  \<^item> \<open>Paging\<close>, \<open>Mmu\<close>: frames and page tables of \<open>kernel/memory.c\<close>.  \<open>Paging\<close> has the page tables as the words
    of the window at \<open>0xffc00000\<close>, the form the other theories use: entry addresses bit by bit, \<open>palloc\<close> hands
    out each frame once.  \<open>Mmu\<close> has the physical memory behind the window and shows that \<open>page_table_add\<close> maps
    exactly one page when there is a frame for a missing table, and what it destroys when there is none.
  \<^item> \<open>Memory\<close>, \<open>Pages\<close>, \<open>Heap\<close>, \<open>Kheap\<close>: the rest of \<open>kernel/memory.c\<close>.  \<open>Pages\<close> shows what \<open>malloc_page\<close> and
    \<open>mfree_page\<close> do to the kernel's address space; \<open>Heap\<close> has the invariant of arenas, free lists and pages and shows
    that \<open>sys_malloc\<close> and \<open>sys_free\<close> of a kernel thread keep it; \<open>Kheap\<close> is the contract of a heap as a locale, its
    interpretation, and the proof that \<open>mem_init\<close> sets the heap up.
  \<^item> \<open>Thread\<close>: the scheduler of \<open>thread/thread.c\<close>, with \<open>switch.S\<close>, \<open>process_activate\<close> and the task state
    segment.  It refines a round-robin specification; every ready thread gets its turn.
  \<^item> \<open>Sync\<close>: \<open>thread/sync.c\<close>, first the operations, then any number of threads that use one lock in any
    interleaving the scheduler and the clock allow: mutual exclusion, no failing assertion, no
    lost wake-up.
  \<^item> \<open>Timer\<close>: \<open>device/timer.c\<close>.  The handler gives every thread its time slice; sleeping is off by a
    factor.
  \<^item> \<open>Ioqueue\<close>, \<open>Keyboard\<close>: \<open>device/ioqueue.c\<close>, \<open>device/keyboard.c\<close>.  The ring buffer is a queue of 63 characters;
    typing text puts the characters into it.
  \<^item> \<open>Disk\<close>, \<open>Ide\<close>, \<open>Ata\<close>, \<open>Idescan\<close>: \<open>device/ide.c\<close>.  \<open>Disk\<close> specifies a disk as a map from sectors to
    bytes, on which the file system is built; \<open>Ide\<close> is the driver over ports, with the drive behind
    them as a parameter; \<open>Ata\<close> states the ATA protocol and shows that transfers of one sector implement
    \<open>Disk\<close> on a drive that keeps to it, except that a write panics on a drive that is busy at the first look,
    and that a transfer of two sectors need not.  What is shown of the file system rests on \<open>Disk\<close>.
    \<open>Idescan\<close> identifies drives and finds partitions.
  \<^item> \<open>Bytes\<close>, \<open>Inode\<close>, \<open>Dir\<close>, \<open>File\<close>, \<open>Path\<close>, \<open>Search\<close>, \<open>Format\<close>, \<open>Fsys\<close>: the file system, \<open>fs/\<close>; \<open>Fsinv\<close>, \<open>Content\<close>
    and \<open>Readback\<close> hold the invariant of a mounted partition and the proofs about contents.  An inode,
    a directory entry and the bytes of a file that are written are found and read back.
  \<^item> \<open>Process\<close>, \<open>Fork\<close>, \<open>Forkspec\<close>, \<open>Exec\<close>, \<open>Syscall\<close>: \<open>userprog/\<close>, the rest of \<open>thread/thread.c\<close>, \<open>lib/user/syscall.c\<close>
    and \<open>syscall_handler\<close> of \<open>kernel/kernel.S\<close>.  Segment descriptors decode to what was packed; \<open>fork\<close> copies exactly
    the parent's pages; system calls reach the function of their name.
  \<^item> \<open>Shell\<close>, \<open>Shellspec\<close>: \<open>shell/\<close>.  Command lines are split into words, paths normalised, lines edited.

  \<^bold>\<open>Code outside the repository\<close> is a parameter: the drive behind the ports (\<open>'d drive\<close>: its answers at the
  ports and its interrupt), with the documented ATA protocol for transfers by the processor as the named
  hypothesis \<open>ata_drive\<close>, for which \<open>demo_drive\<close> is an instance; what \<open>fork\<close> returns to the shell.  The file system takes the addresses \<open>sys_malloc\<close> returns as a supply.

  \<^bold>\<open>Loops.\<close>  Loops that walk memory by links (\<open>list_len\<close>, \<open>elem_find\<close>, \<open>list_traversal\<close>, \<open>count_indirect\<close>, the
  climb of \<open>sys_getcwd\<close>) are partial functions: not ending is the value \<open>None\<close>, which their callers turn into \<open>Hang\<close>; for the lists it is
  proved that they end on well-formed ones.  Loops over a counter or a string have termination
  proofs.  The scan of chained partition tables (which a table that points to itself keeps going
  for ever) and the listing of a directory take fuel as an argument, the depth of the recursion and the
  number of calls; running out of it is \<open>Hang\<close>, so with enough of it the result is that of the
  code.

  \<^bold>\<open>Not modelled.\<close>  The boot sector and loader and the register saving of the interrupt entries
  (\<open>boot/\<close>, \<open>kernel/kernel.S\<close> but for the dispatch): code before or below the C program.
  \<open>kernel/init.c\<close> and \<open>kernel/main.c\<close> call the initialisations one after the other and load a test program;
  each call is modelled in its theory.  \<open>command/\<close> and \<open>test/\<close> hold a user program and experiments.
  Progress messages of the memory, fork and file system code are left out; so are character
  attributes on the screen.  Caches, the TLB and the timing of devices have no counterpart.
\<close>

end
